(* ===== verification/Prelude.thy ===== *)
theory Prelude
  imports
    Main
    "HOL-Library.Word"
    "HOL-Library.Signed_Division"
    "HOL-Library.Char_ord"
    "HOL-Library.List_Lexorder"
    "HOL-Library.Multiset"
    "HOL-Library.Sublist"
begin

text \<open>
  Shared vocabulary of the development: Go strings as byte lists with the operations of Go's
  package \<open>strings\<close> that the code uses, \<open>int64\<close> arithmetic, comparators and the sorts
  built on them, and the interface of an invariant-preserving step system.

  A Go string is a sequence of bytes, so it is a \<^typ>\<open>string\<close> (a list of 8-bit characters)
  here; \<open>length\<close> counts bytes, as Go's \<open>len\<close> does. Range loops over runes whose body only
  tests ASCII ranges are byte loops: a byte of a multi-byte rune is never in an ASCII range.
\<close>

type_synonym bytes = string

subsection \<open>Results\<close>

text \<open>A Go function that returns \<open>(T, error)\<close> is a function into \<open>'e + 'a\<close>; \<open>bind_res\<close> is the
  pattern \<open>if err != nil { return err }\<close>.\<close>

fun bind_res :: "'e + 'a \<Rightarrow> ('a \<Rightarrow> 'e + 'b) \<Rightarrow> 'e + 'b" where
  "bind_res (Inl e) f = Inl e"
| "bind_res (Inr a) f = f a"

definition check :: "bool \<Rightarrow> 'e \<Rightarrow> 'e + unit" where
  "check b e = (if b then Inr () else Inl e)"

fun list_res :: "('a \<Rightarrow> 'e + 'b) \<Rightarrow> 'a list \<Rightarrow> 'e + 'b list" where
  "list_res f [] = Inr []"
| "list_res f (x # xs) = bind_res (f x) (\<lambda>y. bind_res (list_res f xs) (\<lambda>ys. Inr (y # ys)))"

lemma bind_res_Inr: "bind_res x f = Inr b \<longleftrightarrow> (\<exists>a. x = Inr a \<and> f a = Inr b)"
  by (cases x) auto

lemma bind_res_Inl: "bind_res x f = Inl e \<longleftrightarrow> x = Inl e \<or> (\<exists>a. x = Inr a \<and> f a = Inl e)"
  by (cases x) auto

lemma check_Inr [simp]: "check b e = Inr u \<longleftrightarrow> b"
  by (simp add: check_def)

lemma check_Inl [simp]: "check b e = Inl x \<longleftrightarrow> \<not> b \<and> x = e"
  by (auto simp: check_def)

lemma list_res_Inr:
  "list_res f xs = Inr ys \<longleftrightarrow> list_all2 (\<lambda>x y. f x = Inr y) xs ys"
  by (induction xs arbitrary: ys) (auto simp: bind_res_Inr list_all2_Cons1)

lemma map_sum_Inr: "map_sum id g x = Inr y \<longleftrightarrow> (\<exists>z. x = Inr z \<and> y = g z)"
  by (cases x) auto

subsection \<open>Machine integers\<close>

text \<open>The test \<open>x & (x - 1) == 0\<close> recognises the powers of two.\<close>

lemma power_of_two_test:
  fixes x :: int
  assumes "0 < x"
  shows "and x (x - 1) = 0 \<longleftrightarrow> (\<exists>k. x = 2 ^ k)"
  using assms
proof (induction "nat x" arbitrary: x rule: less_induct)
  case less
  define y where "y = x div 2"
  have rec: "and x (x - 1) = of_bool (odd x \<and> odd (x - 1)) + 2 * and (x div 2) ((x - 1) div 2)"
    by (rule and_rec)
  show ?case
  proof (cases "even x")
    case True
    then have x: "x = 2 * y" and y: "0 < y" using less.prems by (auto simp: y_def)
    have "(x - 1) div 2 = y - 1" using x by simp
    then have "and x (x - 1) = 2 * and y (y - 1)" using rec x by simp
    moreover have "and y (y - 1) = 0 \<longleftrightarrow> (\<exists>k. y = 2 ^ k)"
      using less.hyps [of y] x y by simp
    moreover have "(\<exists>k. y = 2 ^ k) \<longleftrightarrow> (\<exists>k. x = 2 ^ k)"
    proof
      assume "\<exists>k. x = 2 ^ k"
      then obtain k where k: "x = 2 ^ k" ..
      with True obtain j where "k = Suc j" by (cases k) auto
      with k x show "\<exists>k. y = 2 ^ k" by auto
    next
      assume "\<exists>k. y = 2 ^ k"
      then obtain k where "y = 2 ^ k" ..
      then have "x = 2 ^ Suc k" using x by simp
      then show "\<exists>k. x = 2 ^ k" ..
    qed
    ultimately show ?thesis by simp
  next
    case False
    then have x: "x = 2 * y + 1" "0 \<le> y" using less.prems by (auto simp: y_def elim: oddE)
    then have "and x (x - 1) = 2 * y" using rec by simp
    moreover have "(\<exists>k. x = 2 ^ k) \<longleftrightarrow> y = 0"
    proof
      assume "\<exists>k. x = 2 ^ k"
      then obtain k where k: "x = 2 ^ k" ..
      with False have "k = 0" by (cases k) auto
      with k x show "y = 0" by simp
    next
      assume "y = 0"
      then have "x = 2 ^ 0" using x by simp
      then show "\<exists>k. x = 2 ^ k" ..
    qed
    ultimately show ?thesis by simp
  qed
qed

text \<open>\<open>int64\<close> arithmetic wraps around modulo \<open>2^64\<close>.\<close>

definition wrap64 :: "int \<Rightarrow> int" where
  "wrap64 i = (i + 2 ^ 63) mod 2 ^ 64 - 2 ^ 63"

definition is_int64 :: "int \<Rightarrow> bool" where
  "is_int64 i = (- (2 ^ 63) \<le> i \<and> i < 2 ^ 63)"

lemma wrap64_id [simp]: "is_int64 i \<Longrightarrow> wrap64 i = i"
  by (simp add: wrap64_def is_int64_def)

lemma is_int64_wrap64 [simp]: "is_int64 (wrap64 i)"
  by (simp add: wrap64_def is_int64_def)

text \<open>Go's division truncates towards zero; \<open>-2^63 / -1\<close> wraps.\<close>

definition div64 :: "int \<Rightarrow> int \<Rightarrow> int" where
  "div64 a b = wrap64 (a sdiv b)"

lemma div64_nonneg:
  assumes "0 \<le> k" and "0 \<le> l" and "k < 2 ^ 63"
  shows "div64 k l = k div l"
proof -
  have "k sdiv l = k div l" using assms(1,2) by (cases "k = 0 \<or> l = 0") (auto simp: signed_divide_int_def)
  moreover have "0 \<le> k div l \<and> k div l \<le> k"
  proof (cases "l = 0")
    case False
    then show ?thesis using assms(1,2) zdiv_mono2 [of k 1 l] by (simp add: pos_imp_zdiv_nonneg_iff)
  qed (use assms(1) in simp)
  ultimately show ?thesis using assms(3) by (simp add: div64_def is_int64_def)
qed

subsection \<open>Prefixes and suffixes\<close>

definition HasPrefix :: "string \<Rightarrow> string \<Rightarrow> bool" where
  "HasPrefix s p = (take (length p) s = p)"

definition HasSuffix :: "string \<Rightarrow> string \<Rightarrow> bool" where
  "HasSuffix s p = (length p \<le> length s \<and> drop (length s - length p) s = p)"

definition TrimPrefix :: "string \<Rightarrow> string \<Rightarrow> string" where
  "TrimPrefix s p = (if HasPrefix s p then drop (length p) s else s)"

definition TrimSuffix :: "string \<Rightarrow> string \<Rightarrow> string" where
  "TrimSuffix s p = (if HasSuffix s p then take (length s - length p) s else s)"

lemma HasPrefix_iff: "HasPrefix s p \<longleftrightarrow> (\<exists>t. s = p @ t)"
  unfolding HasPrefix_def by (metis append_eq_conv_conj append_take_drop_id)

lemma HasPrefix_append [simp]: "HasPrefix (p @ t) p"
  by (simp add: HasPrefix_def)

lemma HasPrefix_refl [simp]: "HasPrefix s s"
  by (simp add: HasPrefix_def)

lemma HasPrefix_Nil [simp]: "HasPrefix s []"
  by (simp add: HasPrefix_def)

lemma HasSuffix_iff: "HasSuffix s p \<longleftrightarrow> (\<exists>t. s = t @ p)"
proof
  assume "HasSuffix s p"
  then have "s = take (length s - length p) s @ p"
    unfolding HasSuffix_def by (metis append_take_drop_id)
  then show "\<exists>t. s = t @ p" ..
qed (auto simp: HasSuffix_def)

lemma HasSuffix_append [simp]: "HasSuffix (t @ p) p"
  by (auto simp: HasSuffix_iff)

lemma TrimPrefix_append [simp]: "TrimPrefix (p @ t) p = t"
  by (simp add: TrimPrefix_def)

lemma TrimSuffix_append [simp]: "TrimSuffix (t @ p) p = t"
  by (simp add: TrimSuffix_def)

lemma TrimPrefix_id [simp]: "\<not> HasPrefix s p \<Longrightarrow> TrimPrefix s p = s"
  by (simp add: TrimPrefix_def)

lemma HasPrefix_append_iff:
  "length p \<le> length a \<Longrightarrow> HasPrefix (a @ b) p = HasPrefix a p"
  by (simp add: HasPrefix_def)

lemma HasPrefix_Cons_Cons [simp]: "HasPrefix (x # s) (y # p) \<longleftrightarrow> x = y \<and> HasPrefix s p"
  by (auto simp: HasPrefix_def)

lemma HasPrefix_Nil_Cons [simp]: "\<not> HasPrefix [] (y # p)"
  by (simp add: HasPrefix_def)

subsection \<open>Cutting and splitting at one byte\<close>

text \<open>
  \<open>cut_at c s\<close> is \<open>strings.Cut\<close> with a one-byte separator (also the pattern
  \<open>i := strings.IndexByte(s, c)\<close> followed by \<open>s[:i]\<close> and \<open>s[i+1:]\<close>).
\<close>

primrec cut_at :: "char \<Rightarrow> string \<Rightarrow> (string \<times> string) option" where
  "cut_at c [] = None"
| "cut_at c (x # xs) =
     (if x = c then Some ([], xs)
      else map_option (\<lambda>(a, b). (x # a, b)) (cut_at c xs))"

lemma cut_at_None: "cut_at c s = None \<longleftrightarrow> c \<notin> set s"
  by (induction s) auto

lemma cut_at_notin: "c \<notin> set s \<Longrightarrow> cut_at c s = None"
  by (simp add: cut_at_None)

lemma cut_at_Some: "cut_at c s = Some (a, b) \<longleftrightarrow> s = a @ c # b \<and> c \<notin> set a"
proof (induction s arbitrary: a)
  case Nil
  then show ?case by simp
next
  case (Cons x xs)
  show ?case
  proof (cases "x = c")
    case True
    then show ?thesis by (cases a) auto
  next
    case False
    then show ?thesis using Cons.IH by (cases a) auto
  qed
qed

lemma cut_at_append: "c \<notin> set a \<Longrightarrow> cut_at c (a @ c # b) = Some (a, b)"
  by (simp add: cut_at_Some)

primrec split_on :: "char \<Rightarrow> string \<Rightarrow> string list" where
  "split_on c [] = [[]]"
| "split_on c (x # xs) =
     (if x = c then [] # split_on c xs
      else (case split_on c xs of [] \<Rightarrow> [[x]] | y # ys \<Rightarrow> (x # y) # ys))"

fun join_with :: "string \<Rightarrow> string list \<Rightarrow> string" where
  "join_with sep [] = []"
| "join_with sep [x] = x"
| "join_with sep (x # y # ys) = x @ sep @ join_with sep (y # ys)"

lemma split_on_not_Nil [simp]: "split_on c s \<noteq> []"
  by (induction s) (auto split: list.split)

lemma join_with_Cons: "xs \<noteq> [] \<Longrightarrow> join_with sep (x # xs) = x @ sep @ join_with sep xs"
  by (cases xs) auto

lemma join_with_Cons_Cons_char: "join_with sep ((a # x) # xs) = a # join_with sep (x # xs)"
  by (cases xs) auto

lemma join_split: "join_with [c] (split_on c s) = s"
proof (induction s)
  case Nil
  then show ?case by simp
next
  case (Cons x xs)
  obtain y ys where sp: "split_on c xs = y # ys"
    by (cases "split_on c xs") auto
  then show ?case
    using Cons.IH by (cases "x = c") (auto simp: join_with_Cons join_with_Cons_Cons_char)
qed

lemma split_on_no_sep: "c \<notin> set s \<Longrightarrow> split_on c s = [s]"
  by (induction s) auto

lemma split_on_sep_free: "seg \<in> set (split_on c s) \<Longrightarrow> c \<notin> set seg"
proof (induction s arbitrary: seg)
  case Nil
  then show ?case by simp
next
  case (Cons x xs)
  obtain y ys where sp: "split_on c xs = y # ys"
    by (cases "split_on c xs") auto
  with Cons show ?case by (auto split: if_splits)
qed

lemma split_on_append: "c \<notin> set a \<Longrightarrow> split_on c (a @ c # b) = a # split_on c b"
  by (induction a) auto

lemma split_on_append_sep: "split_on c (a @ c # b) = split_on c a @ split_on c b"
proof (induction a)
  case (Cons x a)
  obtain y ys where "split_on c a = y # ys" by (cases "split_on c a") auto
  with Cons show ?case by auto
qed simp

lemma join_with_append:
  "xs \<noteq> [] \<Longrightarrow> ys \<noteq> [] \<Longrightarrow> join_with sep (xs @ ys) = join_with sep xs @ sep @ join_with sep ys"
proof (induction xs)
  case (Cons x xs)
  then show ?case by (cases "xs = []") (auto simp: join_with_Cons)
qed simp

lemma split_join:
  "xs \<noteq> [] \<Longrightarrow> (\<And>x. x \<in> set xs \<Longrightarrow> c \<notin> set x) \<Longrightarrow> split_on c (join_with [c] xs) = xs"
proof (induction xs rule: induct_list012)
  case (3 x y ys)
  then show ?case by (simp add: split_on_append)
qed (simp_all add: split_on_no_sep)

lemma hd_split_on: "hd (split_on c s) = p \<longleftrightarrow> c \<notin> set p \<and> (s = p \<or> HasPrefix s (p @ [c]))"
proof -
  obtain a where a: "c \<notin> set a" "s = a \<or> (\<exists>b. s = a @ c # b)"
    by (metis split_list_first)
  then have "hd (split_on c s) = a" by (auto simp: split_on_append split_on_no_sep)
  moreover have "c \<notin> set p \<and> (s = p \<or> HasPrefix s (p @ [c])) \<longleftrightarrow> p = a"
  proof
    assume p: "c \<notin> set p \<and> (s = p \<or> HasPrefix s (p @ [c]))"
    then have "hd (split_on c s) = p" by (auto simp: HasPrefix_iff split_on_append split_on_no_sep)
    with \<open>hd (split_on c s) = a\<close> show "p = a" by simp
  qed (use a in \<open>auto simp: HasPrefix_iff\<close>)
  ultimately show ?thesis by auto
qed

lemma split_on_inj: "split_on c s = split_on c t \<Longrightarrow> s = t"
  by (metis join_split)

lemma set_split_on: "seg \<in> set (split_on c s) \<Longrightarrow> set seg \<subseteq> set s"
proof (induction s arbitrary: seg)
  case Nil
  then show ?case by simp
next
  case (Cons x xs)
  obtain y ys where sp: "split_on c xs = y # ys"
    by (cases "split_on c xs") auto
  with Cons show ?case by (force split: if_splits)
qed

subsection \<open>Substrings and last index\<close>

definition Contains :: "string \<Rightarrow> string \<Rightarrow> bool" where
  "Contains s p = list_ex (\<lambda>t. HasPrefix t p) (suffixes s)"

lemma Contains_iff: "Contains s p \<longleftrightarrow> (\<exists>a b. s = a @ p @ b)"
proof -
  have "Contains s p \<longleftrightarrow> (\<exists>t. suffix t s \<and> HasPrefix t p)"
    by (auto simp: Contains_def list_ex_iff in_set_suffixes)
  then show ?thesis
    by (auto simp: HasPrefix_iff suffix_def)
qed

text \<open>A path has an empty segment exactly when it is empty, starts or ends with the separator, or doubles it.\<close>

lemma empty_segment:
  "[] \<in> set (split_on c s) \<longleftrightarrow> s = [] \<or> HasPrefix s [c] \<or> HasSuffix s [c] \<or> Contains s [c, c]"
proof
  assume "[] \<in> set (split_on c s)"
  then obtain xs ys where sp: "split_on c s = xs @ [] # ys" by (meson split_list)
  then have s: "s = join_with [c] (xs @ [] # ys)" by (metis join_split)
  show "s = [] \<or> HasPrefix s [c] \<or> HasSuffix s [c] \<or> Contains s [c, c]"
  proof (cases "xs = []")
    case True
    then show ?thesis using s by (cases ys) (auto simp: HasPrefix_def)
  next
    case False
    then have s': "s = join_with [c] xs @ c # join_with [c] ([] # ys)"
      using s by (simp add: join_with_append)
    show ?thesis
    proof (cases ys)
      case Nil
      then show ?thesis using s' by (simp add: HasSuffix_def)
    next
      case (Cons y zs)
      then have "s = join_with [c] xs @ [c, c] @ join_with [c] ys" using s' by simp
      then show ?thesis unfolding Contains_iff by blast
    qed
  qed
next
  have "[] \<in> set (split_on c (c # t))" for t by simp
  moreover have "[] \<in> set (split_on c (t @ [c]))" for t by (simp add: split_on_append_sep)
  moreover have "[] \<in> set (split_on c (a @ [c, c] @ b))" for a b by (simp add: split_on_append_sep)
  ultimately show "s = [] \<or> HasPrefix s [c] \<or> HasSuffix s [c] \<or> Contains s [c, c] \<Longrightarrow> [] \<in> set (split_on c s)"
    by (auto simp: HasPrefix_iff HasSuffix_iff Contains_iff)
qed

text \<open>\<open>last_cut c s\<close> is the split at the last occurrence (\<open>strings.LastIndexByte\<close>).\<close>

definition last_cut :: "char \<Rightarrow> string \<Rightarrow> (string \<times> string) option" where
  "last_cut c s = map_option (\<lambda>(a, b). (rev b, rev a)) (cut_at c (rev s))"

lemma last_cut_None: "last_cut c s = None \<longleftrightarrow> c \<notin> set s"
  by (simp add: last_cut_def cut_at_None)

lemma last_cut_Some: "last_cut c s = Some (a, b) \<longleftrightarrow> s = a @ c # b \<and> c \<notin> set b"
proof -
  have "last_cut c s = Some (a, b) \<longleftrightarrow> cut_at c (rev s) = Some (rev b, rev a)"
    by (auto simp: last_cut_def)
  also have "\<dots> \<longleftrightarrow> rev s = rev b @ c # rev a \<and> c \<notin> set b"
    by (simp add: cut_at_Some)
  also have "rev s = rev b @ c # rev a \<longleftrightarrow> s = a @ c # b"
    by (metis append.assoc append_Cons append_Nil rev.simps(2) rev_append rev_rev_ident)
  finally show ?thesis .
qed

subsection \<open>Character classes\<close>

definition is_digit :: "char \<Rightarrow> bool" where
  "is_digit c = (c \<in> set ''0123456789'')"

definition is_lower :: "char \<Rightarrow> bool" where
  "is_lower c = (c \<in> set ''abcdefghijklmnopqrstuvwxyz'')"

definition is_upper :: "char \<Rightarrow> bool" where
  "is_upper c = (c \<in> set ''ABCDEFGHIJKLMNOPQRSTUVWXYZ'')"

definition is_lhex :: "char \<Rightarrow> bool" where
  "is_lhex c = (c \<in> set ''0123456789abcdef'')"

definition is_ascii :: "char \<Rightarrow> bool" where
  "is_ascii c = (of_char c < (128::nat))"

definition lower_char :: "char \<Rightarrow> char" where
  "lower_char c = (if is_upper c then char_of (of_char c + (32::nat)) else c)"

definition upper_char :: "char \<Rightarrow> char" where
  "upper_char c = (if is_lower c then char_of (of_char c - (32::nat)) else c)"

lemmas char_class_defs = is_digit_def is_lower_def is_upper_def is_lhex_def

lemma is_lhex_is: "is_lhex c \<Longrightarrow> is_digit c \<or> is_lower c"
  by (auto simp: char_class_defs)

lemma lower_char_not_upper [simp]: "\<not> is_upper (lower_char c)"
proof (cases "is_upper c")
  case True
  have "list_all (\<lambda>c. \<not> is_upper (lower_char c)) ''ABCDEFGHIJKLMNOPQRSTUVWXYZ''"
    by code_simp
  then show ?thesis using True unfolding list_all_iff is_upper_def [of c] by blast
qed (simp add: lower_char_def)

lemma lower_char_id: "\<not> is_upper c \<Longrightarrow> lower_char c = c"
  by (simp add: lower_char_def)

lemma lower_char_idem [simp]: "lower_char (lower_char c) = lower_char c"
  by (simp add: lower_char_id)

text \<open>
  \<open>strings.ToLower\<close>: Go maps every rune through \<open>unicode.ToLower\<close>. On bytes: an ASCII
  capital becomes the small letter; exactly two runes outside ASCII have an ASCII small letter,
  U+212A (bytes E2 84 AA, the Kelvin sign, to \<open>k\<close>) and U+0130 (bytes C4 B0, to \<open>i\<close>). A rune
  whose small letter lies outside ASCII stays outside ASCII; it is left unchanged here, since
  no test of the code tells two such runes apart (every character test is an ASCII range).
\<close>

fun ToLower :: "string \<Rightarrow> string" where
  "ToLower [] = []"
| "ToLower (x # xs) =
     (if x = CHR 0xE2 \<and> take 2 xs = [CHR 0x84, CHR 0xAA] then CHR ''k'' # ToLower (drop 2 xs)
      else if x = CHR 0xC4 \<and> take 1 xs = [CHR 0xB0] then CHR ''i'' # ToLower (drop 1 xs)
      else lower_char x # ToLower xs)"

definition ToUpper :: "string \<Rightarrow> string" where
  "ToUpper s = map upper_char s"

lemma ToLower_ascii: "list_all is_ascii s \<Longrightarrow> ToLower s = map lower_char s"
proof (induction s)
  case (Cons x xs)
  then have "x \<noteq> CHR 0xE2" "x \<noteq> CHR 0xC4" by (auto simp: is_ascii_def)
  with Cons show ?case by simp
qed simp

lemma not_upper_k_i: "\<not> is_upper CHR ''k''" "\<not> is_upper CHR ''i''"
  by (simp_all add: is_upper_def)

lemma ToLower_no_upper: "c \<in> set (ToLower s) \<Longrightarrow> \<not> is_upper c"
proof (induction s rule: ToLower.induct)
  case (2 x xs)
  then show ?case
    by (auto simp: not_upper_k_i split: if_splits)
qed simp

lemma ToLower_id: "list_all is_ascii s \<Longrightarrow> list_all (\<lambda>c. \<not> is_upper c) s \<Longrightarrow> ToLower s = s"
  by (simp add: ToLower_ascii lower_char_id list_all_iff map_idI)

subsection \<open>Sorting by a comparator\<close>

text \<open>
  \<open>sort.Slice\<close> and \<open>sort.Strings\<close>: a permutation that is sorted for the \<open>less\<close> function. Insertion
  sort stands for Go's algorithm; \<open>sorted_unique\<close> below shows that no sorting algorithm gives
  anything else when \<open>less\<close> is total on the list.
\<close>

primrec insort_by :: "('a \<Rightarrow> 'a \<Rightarrow> bool) \<Rightarrow> 'a \<Rightarrow> 'a list \<Rightarrow> 'a list" where
  "insort_by lt x [] = [x]"
| "insort_by lt x (y # ys) = (if lt y x then y # insort_by lt x ys else x # y # ys)"

definition sort_by :: "('a \<Rightarrow> 'a \<Rightarrow> bool) \<Rightarrow> 'a list \<Rightarrow> 'a list" where
  "sort_by lt xs = foldr (insort_by lt) xs []"

lemma mset_insort_by [simp]: "mset (insort_by lt x ys) = add_mset x (mset ys)"
  by (induction ys) auto

lemma mset_sort_by [simp]: "mset (sort_by lt xs) = mset xs"
  by (induction xs) (auto simp: sort_by_def)

lemma set_sort_by [simp]: "set (sort_by lt xs) = set xs"
  by (metis mset_sort_by set_mset_mset)

lemma length_sort_by [simp]: "length (sort_by lt xs) = length xs"
  by (metis mset_sort_by size_mset)

text \<open>The interface a comparison has to satisfy on the values it is used on.\<close>

locale comparator =
  fixes lt :: "'a \<Rightarrow> 'a \<Rightarrow> bool" and carrier :: "'a \<Rightarrow> bool"
  assumes asym: "carrier x \<Longrightarrow> carrier y \<Longrightarrow> lt x y \<Longrightarrow> \<not> lt y x"
    and negtrans: "carrier x \<Longrightarrow> carrier y \<Longrightarrow> carrier z \<Longrightarrow> lt x z \<Longrightarrow> lt x y \<or> lt y z"
begin

abbreviation in_order :: "'a list \<Rightarrow> bool" where
  "in_order \<equiv> sorted_wrt (\<lambda>x y. \<not> lt y x)"

lemma insort_in_order:
  "in_order ys \<Longrightarrow> carrier x \<Longrightarrow> (\<And>y. y \<in> set ys \<Longrightarrow> carrier y) \<Longrightarrow> in_order (insort_by lt x ys)"
proof (induction ys)
  case (Cons y ys)
  have s: "set (insort_by lt x ys) = insert x (set ys)"
    by (metis mset_insort_by set_mset_add_mset_insert set_mset_mset)
  show ?case
  proof (cases "lt y x")
    case True
    with Cons show ?thesis using s asym [of y x] by auto
  next
    case False
    have "\<not> lt z x" if "z \<in> set ys" for z
      using Cons.prems False negtrans [of z y x] that by auto
    with False Cons.prems show ?thesis by auto
  qed
qed simp

lemma sort_in_order: "(\<And>x. x \<in> set xs \<Longrightarrow> carrier x) \<Longrightarrow> in_order (sort_by lt xs)"
proof (induction xs)
  case (Cons x xs)
  have "in_order (insort_by lt x (sort_by lt xs))"
    using Cons by (intro insort_in_order) auto
  then show ?case by (simp add: sort_by_def)
qed (simp add: sort_by_def)

lemma sorted_unique:
  assumes "mset xs = mset ys" "in_order xs" "in_order ys"
    and tot: "\<And>x y. x \<in> set xs \<Longrightarrow> y \<in> set xs \<Longrightarrow> \<not> lt x y \<Longrightarrow> \<not> lt y x \<Longrightarrow> x = y"
  shows "xs = ys"
  using assms
proof (induction xs arbitrary: ys)
  case (Cons x xs)
  then obtain y ys' where ys: "ys = y # ys'"
    by (metis list.exhaust mset_zero_iff list.distinct(1))
  have "set (x # xs) = set ys" using Cons.prems(1) by (metis set_mset_mset)
  then have "x \<in> set ys" "y \<in> set (x # xs)" using ys by auto
  then have "x = y"
  proof -
    have "x = y \<or> \<not> lt y x" using \<open>x \<in> set ys\<close> Cons.prems(3) ys
      using Cons.prems(2) \<open>y \<in> set (x # xs)\<close> by auto
    moreover have "x = y \<or> \<not> lt x y" using \<open>y \<in> set (x # xs)\<close> Cons.prems(2) \<open>x \<in> set ys\<close> Cons.prems(3) ys by auto
    ultimately show ?thesis using Cons.prems(4) \<open>y \<in> set (x # xs)\<close> by auto
  qed
  moreover have "xs = ys'"
    using Cons.prems ys \<open>x = y\<close> by (intro Cons.IH) auto
  ultimately show ?case using ys by simp
qed simp

lemma sort_by_unique:
  assumes "mset xs = mset ys" "\<And>x. x \<in> set xs \<Longrightarrow> carrier x"
    and "\<And>x y. x \<in> set xs \<Longrightarrow> y \<in> set xs \<Longrightarrow> \<not> lt x y \<Longrightarrow> \<not> lt y x \<Longrightarrow> x = y"
  shows "sort_by lt xs = sort_by lt ys"
proof (rule sorted_unique)
  have "set xs = set ys" using assms(1) by (metis set_mset_mset)
  then show "in_order (sort_by lt xs)" "in_order (sort_by lt ys)"
    using assms(2) sort_in_order by blast+
qed (use assms in auto)

lemma sort_by_id: "in_order xs \<Longrightarrow> (\<And>x. x \<in> set xs \<Longrightarrow> carrier x)
    \<Longrightarrow> (\<And>x y. x \<in> set xs \<Longrightarrow> y \<in> set xs \<Longrightarrow> \<not> lt x y \<Longrightarrow> \<not> lt y x \<Longrightarrow> x = y)
    \<Longrightarrow> sort_by lt xs = xs"
  by (rule sorted_unique) (auto intro: sort_in_order)

end

interpretation string_order: comparator "(<) :: string \<Rightarrow> string \<Rightarrow> bool" "\<lambda>_. True"
  by unfold_locales auto

subsection \<open>Step systems\<close>

locale step_system =
  fixes init :: "'s \<Rightarrow> bool" and step :: "'s \<Rightarrow> 's \<Rightarrow> bool" and inv :: "'s \<Rightarrow> bool"
  assumes init_inv: "init s \<Longrightarrow> inv s"
    and step_inv: "inv s \<Longrightarrow> step s t \<Longrightarrow> inv t"
begin

lemma steps_inv: "step\<^sup>*\<^sup>* s t \<Longrightarrow> inv s \<Longrightarrow> inv t"
  by (induction rule: rtranclp_induct) (auto intro: step_inv)

lemma reachable_inv: "init s \<Longrightarrow> step\<^sup>*\<^sup>* s t \<Longrightarrow> inv t"
  by (rule steps_inv) (auto intro: init_inv)

end

end
