(* ===== verification/Flow.thy ===== *)
theory Flow
  imports Prelude
begin

text \<open>
  Flows: functions of the program that change a state and may fail. A Go function on a pointer
  receiver that returns \<open>(T, error)\<close> is a function from the state before to the state after and a
  result; \<open>seq\<close> is the pattern \<open>x, err := f(); if err != nil { return err }; ...\<close>, which keeps what
  the failing call has already changed. The locale states what a group of flows leaves intact once,
  as a relation between the state before and after.
\<close>

type_synonym ('s, 'e, 'a) flow = "'s \<Rightarrow> 's \<times> ('e + 'a)"

definition ret :: "'a \<Rightarrow> ('s, 'e, 'a) flow" where
  "ret x = (\<lambda>s. (s, Inr x))"

definition fail :: "'e \<Rightarrow> ('s, 'e, 'a) flow" where
  "fail e = (\<lambda>s. (s, Inl e))"

definition seq :: "('s, 'e, 'a) flow \<Rightarrow> ('a \<Rightarrow> ('s, 'e, 'b) flow) \<Rightarrow> ('s, 'e, 'b) flow" where
  "seq f g = (\<lambda>s. case f s of (t, Inl e) \<Rightarrow> (t, Inl e) | (t, Inr x) \<Rightarrow> g x t)"

text \<open>A result computed from the state, an update of the state, and a test.\<close>

definition asks :: "('s \<Rightarrow> 'e + 'a) \<Rightarrow> ('s, 'e, 'a) flow" where
  "asks f = (\<lambda>s. (s, f s))"

definition modify :: "('s \<Rightarrow> 's) \<Rightarrow> ('s, 'e, unit) flow" where
  "modify f = (\<lambda>s. (f s, Inr ()))"

definition unless :: "bool \<Rightarrow> 'e \<Rightarrow> ('s, 'e, unit) flow" where
  "unless b e = (if b then ret () else fail e)"

text \<open>\<open>if err != nil { cleanup(); return err }\<close>.\<close>

definition on_error :: "('s \<Rightarrow> 's) \<Rightarrow> ('s, 'e, 'a) flow \<Rightarrow> ('s, 'e, 'a) flow" where
  "on_error h f = (\<lambda>s. case f s of (t, Inl e) \<Rightarrow> (h t, Inl e) | (t, Inr x) \<Rightarrow> (t, Inr x))"

text \<open>An error of a callee wrapped by its caller.\<close>

definition wrap :: "('e \<Rightarrow> 'd) \<Rightarrow> ('s, 'e, 'a) flow \<Rightarrow> ('s, 'd, 'a) flow" where
  "wrap w f = (\<lambda>s. case f s of (t, r) \<Rightarrow> (t, map_sum w id r))"

subsection \<open>Results of flows\<close>

lemma seq_Inr:
  "seq f g s = (s', Inr y) \<longleftrightarrow> (\<exists>t x. f s = (t, Inr x) \<and> g x t = (s', Inr y))"
  by (auto simp: seq_def split: prod.splits sum.splits)

lemma seq_Inl:
  "seq f g s = (s', Inl e) \<longleftrightarrow> f s = (s', Inl e) \<or> (\<exists>t x. f s = (t, Inr x) \<and> g x t = (s', Inl e))"
  by (auto simp: seq_def split: prod.splits sum.splits)

lemma ret_eq [simp]: "ret x s = (s', r) \<longleftrightarrow> s' = s \<and> r = Inr x"
  by (auto simp: ret_def)

lemma fail_eq [simp]: "fail e s = (s', r) \<longleftrightarrow> s' = s \<and> r = Inl e"
  by (auto simp: fail_def)

lemma asks_eq [simp]: "asks f s = (s', r) \<longleftrightarrow> s' = s \<and> f s = r"
  by (auto simp: asks_def)

lemma modify_eq [simp]: "modify f s = (s', r) \<longleftrightarrow> s' = f s \<and> r = Inr ()"
  by (auto simp: modify_def)

lemma unless_eq [simp]: "unless b e s = (s', r) \<longleftrightarrow> s' = s \<and> r = (if b then Inr () else Inl e)"
  by (simp add: unless_def)

lemma on_error_Inr [simp]: "on_error h f s = (s', Inr x) \<longleftrightarrow> f s = (s', Inr x)"
  by (auto simp: on_error_def split: prod.splits sum.splits)

lemma on_error_Inl: "on_error h f s = (s', Inl e) \<longleftrightarrow> (\<exists>t. f s = (t, Inl e) \<and> s' = h t)"
  by (auto simp: on_error_def split: prod.splits sum.splits)

lemma wrap_Inr [simp]: "wrap w f s = (s', Inr x) \<longleftrightarrow> f s = (s', Inr x)"
  by (auto simp: wrap_def map_sum_def split: prod.splits sum.splits)

lemma wrap_Inl: "wrap w f s = (s', Inl d) \<longleftrightarrow> (\<exists>e. f s = (s', Inl e) \<and> d = w e)"
  by (auto simp: wrap_def map_sum_def split: prod.splits sum.splits)

lemma map_sum_left_Inr [simp]: "map_sum w id x = Inr y \<longleftrightarrow> x = Inr y"
  by (cases x) auto

lemma seq_ret [simp]: "seq (ret x) g = g x"
  by (simp add: seq_def ret_def)

lemma seq_asks: "seq (asks f) g s = (case f s of Inl e \<Rightarrow> (s, Inl e) | Inr x \<Rightarrow> g x s)"
  by (simp add: seq_def asks_def split: sum.split)

lemma seq_fail [simp]: "seq (fail e) g = fail e"
  by (simp add: seq_def fail_def)

lemma seq_assoc: "seq (seq f g) h = seq f (\<lambda>x. seq (g x) h)"
  by (rule ext) (auto simp: seq_def split: prod.split sum.split)

subsection \<open>What flows leave intact\<close>

definition stays :: "('s \<Rightarrow> 's \<Rightarrow> bool) \<Rightarrow> ('s, 'e, 'a) flow \<Rightarrow> bool" where
  "stays R f \<longleftrightarrow> (\<forall>s s' r. f s = (s', r) \<longrightarrow> R s s')"

lemma staysI: "(\<And>s s' r. f s = (s', r) \<Longrightarrow> R s s') \<Longrightarrow> stays R f"
  by (auto simp: stays_def)

lemma staysD: "stays R f \<Longrightarrow> f s = (s', r) \<Longrightarrow> R s s'"
  by (auto simp: stays_def)

text \<open>A failing flow leaves the related part intact, though a successful one may change it.\<close>

definition errs :: "('s \<Rightarrow> 's \<Rightarrow> bool) \<Rightarrow> ('s, 'e, 'a) flow \<Rightarrow> bool" where
  "errs R f \<longleftrightarrow> (\<forall>s s' e. f s = (s', Inl e) \<longrightarrow> R s s')"

lemma errsD: "errs R f \<Longrightarrow> f s = (s', Inl e) \<Longrightarrow> R s s'"
  by (auto simp: errs_def)

lemma stays_split: "(\<And>a b. stays R (g a b)) \<Longrightarrow> stays R (case p of (a, b) \<Rightarrow> g a b)"
  by (cases p) simp

locale frame =
  fixes R :: "'s \<Rightarrow> 's \<Rightarrow> bool"
  assumes R_refl: "R s s"
    and R_trans: "R s t \<Longrightarrow> R t u \<Longrightarrow> R s u"
begin

lemma stays_pure: "stays R (ret x)" "stays R (fail e)" "stays R (asks f)" "stays R (unless b e)"
  by (auto simp: stays_def R_refl)

lemma stays_modify: "(\<And>s. R s (h s)) \<Longrightarrow> stays R (modify h)"
  by (auto simp: stays_def)

lemma stays_seq:
  assumes "stays R f" and "\<And>x. stays R (g x)"
  shows "stays R (seq f g)"
proof (rule staysI)
  fix s s' r
  assume a: "seq f g s = (s', r)"
  obtain t x where f: "f s = (t, x)" by (cases "f s")
  have "R s t" using assms(1) f by (rule staysD)
  moreover have "R t s'"
  proof (cases x)
    case (Inl e)
    then show ?thesis using a f R_refl by (simp add: seq_def)
  next
    case (Inr y)
    then have "g y t = (s', r)" using a f by (simp add: seq_def)
    with assms(2) show ?thesis by (rule staysD)
  qed
  ultimately show "R s s'" by (rule R_trans)
qed

lemma stays_on_error: "stays R f \<Longrightarrow> (\<And>s. R s (h s)) \<Longrightarrow> stays R (on_error h f)"
  unfolding stays_def on_error_def by (auto split: prod.splits sum.splits intro: R_trans)

lemma stays_wrap: "stays R f \<Longrightarrow> stays R (wrap w f)"
  unfolding stays_def wrap_def by (auto split: prod.splits)

lemma errs_stays: "stays R f \<Longrightarrow> errs R f"
  by (auto simp: stays_def errs_def)

lemma errs_modify: "errs R (modify h)"
  by (simp add: errs_def)

lemma errs_seq: "stays R f \<Longrightarrow> (\<And>x. errs R (g x)) \<Longrightarrow> errs R (seq f g)"
  unfolding errs_def seq_Inl by (blast dest: staysD intro: R_trans)

lemma errs_on_error: "errs R f \<Longrightarrow> (\<And>s. R s (h s)) \<Longrightarrow> errs R (on_error h f)"
  unfolding errs_def on_error_Inl by (blast intro: R_trans)

lemmas flow_rules = stays_pure stays_modify stays_seq stays_on_error stays_wrap

end

end
