(* ===== verification/Sha.thy ===== *)
theory Sha
  imports Prelude
begin

text \<open>
  The two hash functions of Go's standard library that the code calls: SHA-256
  (\<open>crypto/sha256\<close>) and SHA-1 (\<open>crypto/sha1\<close>), as executable definitions following
  FIPS 180-4, and lower-case hexadecimal rendering (\<open>encoding/hex\<close>). A digest is a string of
  raw bytes; the development's proofs use only its length and never unfold the compression.
\<close>

unbundle bit_operations_syntax

type_synonym u32 = "32 word"

subsection \<open>Blocks and padding\<close>

definition be_bytes :: "nat \<Rightarrow> nat \<Rightarrow> string" where
  "be_bytes k n = map (\<lambda>i. char_of (n div 256 ^ i)) (rev [0..<k])"

definition md_pad :: "string \<Rightarrow> string" where
  "md_pad m =
     (let z = (119 - length m mod 64) mod 64
      in m @ [CHR 0x80] @ replicate z (CHR 0x00) @ be_bytes 8 (8 * length m))"

fun words32 :: "string \<Rightarrow> u32 list" where
  "words32 (a # b # c # d # r) =
     (push_bit 24 (of_char a) + push_bit 16 (of_char b) + push_bit 8 (of_char c) + of_char d)
       # words32 r"
| "words32 _ = []"

function blocks16 :: "'a list \<Rightarrow> 'a list list" where
  "blocks16 xs = (if length xs < 16 then [] else take 16 xs # blocks16 (drop 16 xs))"
  by pat_completeness auto
termination by (relation "measure length") auto

declare blocks16.simps [simp del]

definition word_bytes :: "u32 \<Rightarrow> string" where
  "word_bytes w =
     be_bytes 4 (unat w)"

subsection \<open>SHA-256\<close>

text \<open>
  The round constants are the first 32 fractional bits of the cube roots of the first 64 primes,
  the initial state those of the square roots of the first eight: \<open>kroot k n r b\<close> refines \<open>r\<close>
  bit by bit to the integer \<open>k\<close>-th root of \<open>n\<close>, and the conversion to a word drops the
  integer part.
\<close>

primrec kroot :: "nat \<Rightarrow> nat \<Rightarrow> nat \<Rightarrow> nat \<Rightarrow> nat" where
  "kroot k n r 0 = r"
| "kroot k n r (Suc b) = kroot k n (if (r + 2 ^ b) ^ k \<le> n then r + 2 ^ b else r) b"

definition small_primes :: "nat list" where
  "small_primes = filter (\<lambda>n. list_all (\<lambda>d. n mod d \<noteq> 0) [2..<n]) [2..<312]"

definition root_word :: "nat \<Rightarrow> nat \<Rightarrow> u32" where
  "root_word k p = of_nat (kroot k (p * 2 ^ (32 * k)) 0 40)"

definition sha256_K :: "u32 list" where
  "sha256_K = map (root_word 3) small_primes"

definition rotr :: "nat \<Rightarrow> u32 \<Rightarrow> u32" where
  "rotr n w = drop_bit n w OR push_bit (32 - n) w"

primrec sha256_expand :: "nat \<Rightarrow> u32 list \<Rightarrow> u32 list" where
  "sha256_expand 0 rs = rs"
| "sha256_expand (Suc n) rs =
     (let w2 = rs ! 1; w7 = rs ! 6; w15 = rs ! 14; w16 = rs ! 15;
          s0 = rotr 7 w15 XOR rotr 18 w15 XOR drop_bit 3 w15;
          s1 = rotr 17 w2 XOR rotr 19 w2 XOR drop_bit 10 w2
      in sha256_expand n ((w16 + s0 + w7 + s1) # rs))"

definition sha256_round :: "u32 list \<Rightarrow> u32 \<times> u32 \<Rightarrow> u32 list" where
  "sha256_round st kw =
     (case st of
        [a, b, c, d, e, f, g, h] \<Rightarrow>
          (let t1 = h + (rotr 6 e XOR rotr 11 e XOR rotr 25 e)
                      + ((e AND f) XOR (NOT e AND g)) + fst kw + snd kw;
               t2 = (rotr 2 a XOR rotr 13 a XOR rotr 22 a)
                      + ((a AND b) XOR (a AND c) XOR (b AND c))
           in [t1 + t2, a, b, c, d + t1, e, f, g])
      | _ \<Rightarrow> st)"

definition sha256_block :: "u32 list \<Rightarrow> u32 list \<Rightarrow> u32 list" where
  "sha256_block st blk =
     (let w = rev (sha256_expand 48 (rev blk))
      in map2 (+) st (foldl sha256_round st (zip sha256_K w)))"

definition sha256_init :: "u32 list" where
  "sha256_init = map (root_word 2) [2, 3, 5, 7, 11, 13, 17, 19]"

definition sha256 :: "string \<Rightarrow> string" where
  "sha256 m = concat (map word_bytes (foldl sha256_block sha256_init (blocks16 (words32 (md_pad m)))))"

definition hex_digit :: "nat \<Rightarrow> char" where
  "hex_digit n = ''0123456789abcdef'' ! n"

definition hex_encode :: "string \<Rightarrow> string" where
  "hex_encode s = concat (map (\<lambda>c. [hex_digit (of_char c div 16), hex_digit (of_char c mod 16)]) s)"


subsection \<open>SHA-1\<close>

primrec sha1_expand :: "nat \<Rightarrow> u32 list \<Rightarrow> u32 list" where
  "sha1_expand 0 rs = rs"
| "sha1_expand (Suc n) rs =
     sha1_expand n (rotr 31 (rs ! 2 XOR rs ! 7 XOR rs ! 13 XOR rs ! 15) # rs)"

definition sha1_round :: "u32 list \<Rightarrow> nat \<times> u32 \<Rightarrow> u32 list" where
  "sha1_round st tw =
     (case st of
        [a, b, c, d, e] \<Rightarrow>
          (let (f, k) =
             (if fst tw < 20 then ((b AND c) XOR (NOT b AND d), 0x5a827999)
              else if fst tw < 40 then (b XOR c XOR d, 0x6ed9eba1)
              else if fst tw < 60 then ((b AND c) XOR (b AND d) XOR (c AND d), 0x8f1bbcdc)
              else (b XOR c XOR d, 0xca62c1d6))
           in [rotr 27 a + f + e + k + snd tw, a, rotr 2 b, c, d])
      | _ \<Rightarrow> st)"

definition sha1_block :: "u32 list \<Rightarrow> u32 list \<Rightarrow> u32 list" where
  "sha1_block st blk =
     (let w = rev (sha1_expand 64 (rev blk))
      in map2 (+) st (foldl sha1_round st (zip [0..<80] w)))"

definition sha1_init :: "u32 list" where
  "sha1_init = [0x67452301, 0xefcdab89, 0x98badcfe, 0x10325476, 0xc3d2e1f0]"

definition sha1 :: "string \<Rightarrow> string" where
  "sha1 m = concat (map word_bytes (foldl sha1_block sha1_init (blocks16 (words32 (md_pad m)))))"

subsection \<open>Digests have a fixed length\<close>

lemma length_be_bytes [simp]: "length (be_bytes k n) = k"
  by (simp add: be_bytes_def)

lemma length_word_bytes [simp]: "length (word_bytes w) = 4"
  by (simp add: word_bytes_def)

lemma length_concat_word_bytes: "length (concat (map word_bytes ws)) = 4 * length ws"
  by (induction ws) simp_all

lemma length_sha256_round: "length (sha256_round st kw) = length st"
  by (auto simp: sha256_round_def Let_def split: list.splits)

lemma length_sha256_rounds: "length (foldl sha256_round st kws) = length st"
  by (induction kws arbitrary: st) (simp_all add: length_sha256_round)

lemma length_sha256_block: "length (sha256_block st blk) = length st"
  by (simp add: sha256_block_def Let_def length_sha256_rounds)

lemma length_sha256_blocks: "length (foldl sha256_block st bs) = length st"
  by (induction bs arbitrary: st) (simp_all add: length_sha256_block)

lemma length_sha256 [simp]: "length (sha256 m) = 32"
  by (simp add: sha256_def length_concat_word_bytes length_sha256_blocks sha256_init_def)

lemma length_sha1_round: "length (sha1_round st tw) = length st"
  by (auto simp: sha1_round_def Let_def split: list.splits prod.splits)

lemma length_sha1_rounds: "length (foldl sha1_round st tws) = length st"
  by (induction tws arbitrary: st) (simp_all add: length_sha1_round)

lemma length_sha1_blocks: "length (foldl sha1_block st bs) = length st"
  by (induction bs arbitrary: st) (simp_all add: sha1_block_def Let_def length_sha1_rounds)

lemma length_sha1 [simp]: "length (sha1 m) = 20"
  by (simp add: sha1_def length_concat_word_bytes length_sha1_blocks sha1_init_def)

subsection \<open>Hexadecimal\<close>

definition hex_value :: "char \<Rightarrow> nat option" where
  "hex_value c =
     (let n = of_char c in
      if 48 \<le> n \<and> n \<le> 57 then Some (n - 48)
      else if 97 \<le> n \<and> n \<le> 102 then Some (n - 87)
      else if 65 \<le> n \<and> n \<le> 70 then Some (n - 55) else None)"

text \<open>\<open>hex.Decode\<close>: both letter cases are accepted, an odd length or any other byte is an error.\<close>

fun hex_decode :: "string \<Rightarrow> string option" where
  "hex_decode [] = Some []"
| "hex_decode [_] = None"
| "hex_decode (a # b # r) =
     (case (hex_value a, hex_value b, hex_decode r) of
        (Some x, Some y, Some t) \<Rightarrow> Some (char_of (16 * x + y) # t)
      | _ \<Rightarrow> None)"

lemma length_hex_encode [simp]: "length (hex_encode s) = 2 * length s"
  by (induction s) (simp_all add: hex_encode_def)

lemma hex_encode_Nil [simp]: "hex_encode [] = []"
  by (simp add: hex_encode_def)

lemma hex_encode_Cons:
  "hex_encode (c # s) = hex_digit (of_char c div 16) # hex_digit (of_char c mod 16) # hex_encode s"
  by (simp add: hex_encode_def)

lemma nibbles [simp]: "(of_char c :: nat) div 16 < 16" "(of_char c :: nat) mod 16 < 16"
proof -
  have "(of_char c :: nat) < 16 * 16" by simp
  then show "(of_char c :: nat) div 16 < 16" by (rule less_mult_imp_div_less)
qed simp

lemma lt16_cases: "n < 16 \<Longrightarrow> n \<in> set [0..<16::nat]"
  by simp

lemma hex_value_digit: "n < 16 \<Longrightarrow> hex_value (hex_digit n) = Some n"
  by (drule lt16_cases) (auto simp: hex_value_def hex_digit_def upt_rec)

lemma hex_digit_lhex: "n < 16 \<Longrightarrow> hex_digit n \<in> set ''0123456789abcdef''"
  unfolding hex_digit_def by (rule nth_mem) simp

lemma hex_decode_encode: "hex_decode (hex_encode s) = Some s"
proof (induction s)
  case (Cons c s)
  then show ?case by (simp add: hex_encode_Cons hex_value_digit)
qed simp

lemma hex_encode_inj: "hex_encode s = hex_encode t \<Longrightarrow> s = t"
  by (metis hex_decode_encode option.inject)

lemma is_lhex_hex_digit [simp]: "n < 16 \<Longrightarrow> is_lhex (hex_digit n)"
  unfolding is_lhex_def by (rule hex_digit_lhex)

lemma hex_value_lhex: "is_lhex c \<Longrightarrow> hex_value c \<noteq> None"
proof -
  have "list_all (\<lambda>c. hex_value c \<noteq> None) ''0123456789abcdef''" by code_simp
  then show "is_lhex c \<Longrightarrow> hex_value c \<noteq> None"
    unfolding list_all_iff is_lhex_def by blast
qed

lemma hex_encode_chars: "c \<in> set (hex_encode s) \<Longrightarrow> is_lhex c"
  by (induction s) (auto simp: hex_encode_Cons)

text \<open>The hexadecimal digests: 64 and 40 lower-case digits.\<close>

definition sha256_hex :: "string \<Rightarrow> string" where
  "sha256_hex b = hex_encode (sha256 b)"

definition sha1_hex :: "string \<Rightarrow> string" where
  "sha1_hex b = hex_encode (sha1 b)"

lemma length_sha256_hex [simp]: "length (sha256_hex b) = 64"
  by (simp add: sha256_hex_def)

lemma length_sha1_hex [simp]: "length (sha1_hex b) = 40"
  by (simp add: sha1_hex_def)

end
