(* ===== verification/Refs.thy ===== *)
theory Refs
  imports Prelude Sha
begin

text \<open>
  \<open>internal/ref\<close>: the reference grammar (spec 000). Parsing of \<open>shardr:///\<close> URIs,
  canonicalisation, selector and tag rules, digests, and the selection of an index member.
  Errors keep the class, the message and the candidate list the Go error carries.
\<close>

subsection \<open>Constants and data\<close>

definition SchemePrefix :: string where "SchemePrefix = ''shardr:///''"
definition DigestSchemePrefix :: string where "DigestSchemePrefix = ''sha256:''"
definition maxRefLen :: nat where "maxRefLen = 512"
definition digestHexLen :: nat where "digestHexLen = 64"

definition ErrLength :: string where "ErrLength = ''E_LENGTH''"
definition ErrParse :: string where "ErrParse = ''E_PARSE''"
definition ErrNoSelector :: string where "ErrNoSelector = ''E_NO_SELECTOR''"
definition ErrDigestFormat :: string where "ErrDigestFormat = ''E_DIGEST_FORMAT''"
definition ErrTagBanned :: string where "ErrTagBanned = ''E_TAG_BANNED''"
definition ErrAmbiguous :: string where "ErrAmbiguous = ''E_AMBIGUOUS_SELECTOR''"
definition ErrNoMember :: string where "ErrNoMember = ''E_NO_MEMBER''"
definition ErrPinMismatch :: string where "ErrPinMismatch = ''E_PIN_MISMATCH''"

lemmas err_class_defs = ErrLength_def ErrParse_def ErrNoSelector_def ErrDigestFormat_def
  ErrTagBanned_def ErrAmbiguous_def ErrNoMember_def ErrPinMismatch_def

record ref_error =
  Class :: string
  Message :: string
  Candidates :: "string list"

abbreviation rerr :: "string \<Rightarrow> string \<Rightarrow> ref_error" where
  "rerr c m \<equiv> \<lparr>Class = c, Message = m, Candidates = []\<rparr>"

record Ref =
  rCanonical :: string
  rNS :: string
  rName :: string
  rSel :: string
  rTag :: string
  rQuant :: string
  rDigest :: string

subsection \<open>Character-level rules\<close>

definition atom_char :: "char \<Rightarrow> bool" where
  "atom_char c = (is_lower c \<or> is_digit c \<or> c = CHR ''.'' \<or> c = CHR ''_'' \<or> c = CHR ''-'')"

definition isAtom :: "string \<Rightarrow> nat \<Rightarrow> bool" where
  "isAtom s maxLen =
     (case s of [] \<Rightarrow> False
      | first # rest \<Rightarrow>
          length s \<le> maxLen \<and> (is_lower first \<or> is_digit first) \<and> list_all atom_char rest)"

definition ValidNS :: "string \<Rightarrow> bool" where "ValidNS s = isAtom s 64"
definition ValidName :: "string \<Rightarrow> bool" where "ValidName s = isAtom s 128"

definition tag_char :: "char \<Rightarrow> bool" where
  "tag_char c = (is_upper c \<or> atom_char c)"

definition validTagShape :: "string \<Rightarrow> bool" where
  "validTagShape s =
     (case s of [] \<Rightarrow> False
      | first # rest \<Rightarrow>
          length s \<le> 128
          \<and> (is_lower first \<or> is_upper first \<or> is_digit first \<or> first = CHR ''_'')
          \<and> list_all tag_char rest)"

definition quant_char :: "char \<Rightarrow> bool" where
  "quant_char c = (is_lower c \<or> is_digit c \<or> c = CHR ''_'' \<or> c = CHR ''-'')"

definition quant_prefixes :: "string list" where
  "quant_prefixes = [''q'', ''iq'', ''tq'', ''ud-'', ''bf'', ''f'', ''fp'', ''mx'']"

definition QuantSyntax :: "string \<Rightarrow> bool" where
  "QuantSyntax s =
     (if s = ''raw'' then True
      else if s = [] \<or> length s > 24 then False
      else if \<not> list_all quant_char s then False
      else if \<not> list_ex (HasPrefix s) quant_prefixes then False
      else list_ex is_digit s)"

definition IsDigest :: "string \<Rightarrow> bool" where
  "IsDigest s =
     (if \<not> HasPrefix s DigestSchemePrefix
         \<or> length s \<noteq> length DigestSchemePrefix + digestHexLen then False
      else list_all is_lhex (drop (length DigestSchemePrefix) s))"

definition NormalizeDigest :: "string \<Rightarrow> ref_error + string" where
  "NormalizeDigest s =
     (if HasPrefix s DigestSchemePrefix then
        (if \<not> IsDigest s
         then Inl (rerr ErrDigestFormat ''sha256: digest must be 64 lowercase hex chars'')
         else Inr s)
      else
        (let cand = DigestSchemePrefix @ s in
         if \<not> IsDigest cand
         then Inl (rerr ErrDigestFormat ''digest must be sha256:<64 lowercase hex> or bare 64-hex'')
         else Inr cand))"

definition ValidNamespaceKey :: "string \<Rightarrow> bool" where
  "ValidNamespaceKey s =
     (case cut_at (CHR ''/'') s of
        None \<Rightarrow> False
      | Some (ns, name) \<Rightarrow>
          if CHR ''/'' \<in> set name then False else ValidNS ns \<and> ValidName name)"

definition TagBan :: "string \<Rightarrow> ref_error option" where
  "TagBan tag =
     (let low = ToLower tag in
      if HasPrefix low ''sha256-'' \<or> HasPrefix low ''sha256:''
      then Some (rerr ErrTagBanned ''tags may not start with sha256-/sha256:'')
      else if QuantSyntax low
      then Some (rerr ErrTagBanned ''quant-shaped strings select index members, they cannot be tags'')
      else None)"

definition ValidTag :: "string \<Rightarrow> ref_error option" where
  "ValidTag s =
     (if \<not> validTagShape s
      then Some (rerr ErrParse ''tag must match [a-zA-Z0-9_][a-zA-Z0-9._-]{0,127}'')
      else TagBan s)"

subsection \<open>Parsing\<close>

definition validateSelector :: "string \<Rightarrow> Ref \<Rightarrow> ref_error + Ref" where
  "validateSelector sel p =
     (let p = p\<lparr>rSel := sel\<rparr> in
      case cut_at (CHR ''+'') sel of
        Some (tag, quant) \<Rightarrow>
          (if \<not> validTagShape tag
           then Inl (rerr ErrParse ''tag must match [a-zA-Z0-9_][a-zA-Z0-9._-]{0,127}'')
           else case TagBan tag of
             Some e \<Rightarrow> Inl e
           | None \<Rightarrow>
               if \<not> QuantSyntax quant
               then Inl (rerr ErrParse ''quant part must match 000 Appendix A'')
               else Inr (p\<lparr>rTag := tag, rQuant := quant\<rparr>))
      | None \<Rightarrow>
          (if \<not> QuantSyntax sel
           then Inl (rerr ErrParse ''selector must be a quant or tag+quant; bare tags are not selectors'')
           else Inr (p\<lparr>rQuant := sel\<rparr>)))"

text \<open>The digest suffix, the selector and the path: the first three stages of \<open>Parse\<close>.\<close>

definition parse_digest :: "string \<Rightarrow> ref_error + (string \<times> string)" where
  "parse_digest rest =
     (case cut_at (CHR ''@'') rest of
        None \<Rightarrow> Inr (rest, [])
      | Some (rest, digest) \<Rightarrow>
          if digest = [] \<or> CHR ''@'' \<in> set digest
          then Inl (rerr ErrParse ''empty or repeated @digest'')
          else if \<not> IsDigest digest
          then Inl (rerr ErrDigestFormat ''digest must be sha256:<64 lowercase hex>'')
          else Inr (rest, digest))"

definition parse_selector :: "string \<Rightarrow> ref_error + (string \<times> string)" where
  "parse_selector rest =
     (case cut_at (CHR '':'') rest of
        None \<Rightarrow> Inr (rest, [])
      | Some (rest, sel) \<Rightarrow>
          if sel = [] then Inl (rerr ErrParse ''empty selector'') else Inr (rest, sel))"

definition parse_path :: "string \<Rightarrow> ref_error + (string \<times> string)" where
  "parse_path rest =
     (case cut_at (CHR ''/'') rest of
        None \<Rightarrow> Inl (rerr ErrParse ''missing ns/name separator'')
      | Some (ns, name) \<Rightarrow>
          if CHR ''/'' \<in> set name then Inl (rerr ErrParse ''too many path segments'')
          else
            (let ns = ToLower ns; name = ToLower name in
             if \<not> ValidNS ns
             then Inl (rerr ErrParse ''ns must match [a-z0-9][a-z0-9._-]{0,63} after lowercasing'')
             else if \<not> ValidName name
             then Inl (rerr ErrParse ''name must match [a-z0-9][a-z0-9._-]{0,127} after lowercasing'')
             else Inr (ns, name)))"

definition build_canonical :: "string \<Rightarrow> string \<Rightarrow> string \<Rightarrow> string \<Rightarrow> string" where
  "build_canonical ns name sel digest =
     SchemePrefix @ ns @ ''/'' @ name
       @ (if sel \<noteq> [] then '':'' @ sel else [])
       @ (if digest \<noteq> [] then ''@'' @ digest else [])"

definition Parse :: "string \<Rightarrow> ref_error + Ref" where
  "Parse input =
     (if length input > maxRefLen then Inl (rerr ErrLength ''reference exceeds 512 bytes'')
      else if \<not> HasPrefix input SchemePrefix
      then Inl (rerr ErrParse ''must start with shardr:/// (empty authority)'')
      else
        case parse_digest (drop (length SchemePrefix) input) of
          Inl e \<Rightarrow> Inl e
        | Inr (rest, digest) \<Rightarrow>
            (case parse_selector rest of
               Inl e \<Rightarrow> Inl e
             | Inr (rest, sel) \<Rightarrow>
                 (case parse_path rest of
                    Inl e \<Rightarrow> Inl e
                  | Inr (ns, name) \<Rightarrow>
                      let p = \<lparr>rCanonical = [], rNS = ns, rName = name, rSel = [], rTag = [],
                               rQuant = [], rDigest = digest\<rparr> in
                      (case (if sel \<noteq> [] then validateSelector sel p else Inr p) of
                         Inl e \<Rightarrow> Inl e
                       | Inr p \<Rightarrow>
                           if sel = [] \<and> digest = []
                           then Inl (rerr ErrNoSelector (''no default selector in the scheme (000 '' @ [CHR 0xC2, CHR 0xA7] @ ''2)''))
                           else Inr (p\<lparr>rCanonical := build_canonical ns name sel digest\<rparr>)))))"

definition ParseShort :: "string \<Rightarrow> ref_error + Ref" where
  "ParseShort input = Parse (SchemePrefix @ input)"

definition ParseAny :: "string \<Rightarrow> ref_error + Ref" where
  "ParseAny input = (if HasPrefix input SchemePrefix then Parse input else ParseShort input)"

subsection \<open>Member selection\<close>

record Member =
  mQuant :: string
  mManifest :: string

datatype 'a panic = Returns 'a | Panics

definition checkPin :: "Ref \<Rightarrow> Member \<Rightarrow> ref_error + Member" where
  "checkPin p m =
     (if rDigest p \<noteq> [] \<and> rDigest p \<noteq> mManifest m
      then Inl (rerr ErrPinMismatch
             (''pin '' @ rDigest p @ '' does not match resolved member '' @ mQuant m
                @ '' ('' @ mManifest m @ '')''))
      else Inr \<lparr>mQuant = mQuant m, mManifest = mManifest m\<rparr>)"

definition Resolve :: "Ref \<Rightarrow> Member list \<Rightarrow> (ref_error + Member option) panic" where
  "Resolve p members =
     (if rQuant p = [] then Returns (Inr None)
      else
        case find (\<lambda>m. mQuant m = rQuant p) members of
          Some m \<Rightarrow> Returns (map_sum id Some (checkPin p m))
        | None \<Rightarrow>
            (let candidates = map mQuant (filter (\<lambda>m. HasPrefix (mQuant m) (rQuant p)) members) in
             case candidates of
               [] \<Rightarrow> Returns (Inl (rerr ErrNoMember (''no index member matches '' @ rQuant p)))
             | [c] \<Rightarrow>
                 (case find (\<lambda>m. mQuant m = c) members of
                    Some m \<Rightarrow> Returns (map_sum id Some (checkPin p m))
                  | None \<Rightarrow> Panics)
             | _ \<Rightarrow>
                 Returns (Inl \<lparr>Class = ErrAmbiguous, Message = ''ambiguous prefix '' @ rQuant p,
                               Candidates = sort candidates\<rparr>)))"

subsection \<open>Character facts\<close>

lemma atom_char_special [simp]:
  "\<not> atom_char CHR '':''" "\<not> atom_char CHR ''/''" "\<not> atom_char CHR ''@''" "\<not> atom_char CHR ''+''"
  "\<not> atom_char CHR 0x5C"
  by (simp_all add: atom_char_def char_class_defs)

lemma quant_char_special [simp]:
  "\<not> quant_char CHR '':''" "\<not> quant_char CHR ''/''" "\<not> quant_char CHR ''@''" "\<not> quant_char CHR ''+''"
  "\<not> quant_char CHR ''.''"
  by (simp_all add: quant_char_def char_class_defs)

lemma tag_char_special [simp]:
  "\<not> tag_char CHR '':''" "\<not> tag_char CHR ''/''" "\<not> tag_char CHR ''@''" "\<not> tag_char CHR ''+''"
  by (simp_all add: tag_char_def is_upper_def)

lemma is_lhex_special [simp]:
  "\<not> is_lhex CHR '':''" "\<not> is_lhex CHR ''/''" "\<not> is_lhex CHR ''@''" "\<not> is_lhex CHR ''.''"
  by (simp_all add: is_lhex_def)

lemma lower_not_upper: "is_lower c \<Longrightarrow> \<not> is_upper c" "is_digit c \<Longrightarrow> \<not> is_upper c"
  by (auto simp: char_class_defs)

lemma lower_ascii: "is_lower c \<Longrightarrow> is_ascii c" "is_digit c \<Longrightarrow> is_ascii c" "is_upper c \<Longrightarrow> is_ascii c"
proof -
  have "list_all is_ascii ''abcdefghijklmnopqrstuvwxyz''" "list_all is_ascii ''0123456789''"
    "list_all is_ascii ''ABCDEFGHIJKLMNOPQRSTUVWXYZ''"
    by (simp_all add: is_ascii_def)
  then show "is_lower c \<Longrightarrow> is_ascii c" "is_digit c \<Longrightarrow> is_ascii c" "is_upper c \<Longrightarrow> is_ascii c"
    unfolding list_all_iff char_class_defs by blast+
qed

lemma atom_char_lower: "atom_char c \<Longrightarrow> \<not> is_upper c" "atom_char c \<Longrightarrow> is_ascii c"
proof -
  have "is_ascii CHR ''.''" "is_ascii CHR ''_''" "is_ascii CHR ''-''"
    by (simp_all add: is_ascii_def)
  moreover have "\<not> is_upper CHR ''.''" "\<not> is_upper CHR ''_''" "\<not> is_upper CHR ''-''"
    by (simp_all add: is_upper_def)
  ultimately show "atom_char c \<Longrightarrow> \<not> is_upper c" "atom_char c \<Longrightarrow> is_ascii c"
    by (auto simp: atom_char_def lower_ascii dest: lower_not_upper)
qed

lemma isAtom_iff:
  "isAtom s n \<longleftrightarrow> s \<noteq> [] \<and> length s \<le> n \<and> list_all atom_char s \<and> (is_lower (hd s) \<or> is_digit (hd s))"
  by (auto simp: isAtom_def atom_char_def split: list.splits)

lemma isAtom_chars: "isAtom s n \<Longrightarrow> c \<in> set s \<Longrightarrow> atom_char c"
  by (auto simp: isAtom_iff list_all_iff)

lemma isAtom_ToLower: "isAtom s n \<Longrightarrow> ToLower s = s"
  by (rule ToLower_id) (auto simp: isAtom_iff list_all_iff atom_char_lower)

lemma validTagShape_iff:
  "validTagShape s \<longleftrightarrow>
     s \<noteq> [] \<and> length s \<le> 128 \<and> list_all tag_char s \<and> hd s \<noteq> CHR ''.'' \<and> hd s \<noteq> CHR ''-''"
proof -
  have "\<not> is_lower CHR ''.''" "\<not> is_upper CHR ''.''" "\<not> is_digit CHR ''.''"
    "\<not> is_lower CHR ''-''" "\<not> is_upper CHR ''-''" "\<not> is_digit CHR ''-''"
    by (simp_all add: char_class_defs)
  then show ?thesis
    by (auto simp: validTagShape_def tag_char_def atom_char_def split: list.splits)
qed

lemma QuantSyntax_chars: "QuantSyntax s \<Longrightarrow> list_all quant_char s \<and> s \<noteq> [] \<and> length s \<le> 24"
  by (auto simp: QuantSyntax_def quant_char_def is_lower_def split: if_splits)

lemma QuantSyntax_notin: "QuantSyntax s \<Longrightarrow> \<not> quant_char c \<Longrightarrow> c \<notin> set s"
  by (auto dest!: QuantSyntax_chars simp: list_all_iff)

lemma validTagShape_notin: "validTagShape s \<Longrightarrow> \<not> tag_char c \<Longrightarrow> c \<notin> set s"
  by (auto simp: validTagShape_iff list_all_iff)

lemma isAtom_notin: "isAtom s n \<Longrightarrow> \<not> atom_char c \<Longrightarrow> c \<notin> set s"
  by (auto dest: isAtom_chars)

lemma IsDigest_iff:
  "IsDigest d \<longleftrightarrow> (\<exists>h. d = ''sha256:'' @ h \<and> length h = 64 \<and> list_all is_lhex h)"
proof
  assume "IsDigest d"
  then have "HasPrefix d ''sha256:''" "length d = 71" "list_all is_lhex (drop (length ''sha256:'') d)"
    by (simp_all only: IsDigest_def DigestSchemePrefix_def digestHexLen_def split: if_splits) simp_all
  then show "\<exists>h. d = ''sha256:'' @ h \<and> length h = 64 \<and> list_all is_lhex h"
    unfolding HasPrefix_iff by (elim exE) (simp only: append_eq_conv_conj, simp)
next
  assume "\<exists>h. d = ''sha256:'' @ h \<and> length h = 64 \<and> list_all is_lhex h"
  then show "IsDigest d"
    by (auto simp: IsDigest_def DigestSchemePrefix_def digestHexLen_def)
qed

lemma IsDigest_facts: "IsDigest d \<Longrightarrow> d \<noteq> [] \<and> length d = 71 \<and> CHR ''@'' \<notin> set d"
proof -
  assume "IsDigest d"
  then obtain h where d: "d = ''sha256:'' @ h" "length h = 64" "list_all is_lhex h"
    unfolding IsDigest_iff by blast
  have "CHR ''@'' \<notin> set h"
    using d(3) is_lhex_special(3) unfolding list_all_iff by blast
  then show ?thesis using d by simp
qed

lemma IsDigest_sha256_hex [simp]: "IsDigest (''sha256:'' @ sha256_hex b)"
  unfolding IsDigest_iff by (auto simp: list_all_iff sha256_hex_def intro: hex_encode_chars)

subsection \<open>Parsing and canonical forms\<close>

lemma length_ToLower: "length (ToLower s) \<le> length s"
  by (induction s rule: ToLower.induct) (auto simp: le_Suc_eq)

lemma build_canonical_prefix: "build_canonical ns name sel d = SchemePrefix @ drop 10 (build_canonical ns name sel d)"
  by (simp add: build_canonical_def SchemePrefix_def)

text \<open>What a parsed reference looks like: the grammar of spec 000, section 2, with the quants of the parser.\<close>

definition sel_wf :: "Ref \<Rightarrow> bool" where
  "sel_wf r =
     (rSel r = [] \<and> rTag r = [] \<and> rQuant r = [] \<and> rDigest r \<noteq> []
      \<or> rTag r = [] \<and> rSel r = rQuant r \<and> QuantSyntax (rQuant r)
      \<or> ValidTag (rTag r) = None \<and> QuantSyntax (rQuant r) \<and> rSel r = rTag r @ ''+'' @ rQuant r)"

definition ref_wf :: "Ref \<Rightarrow> bool" where
  "ref_wf r =
     (ValidNS (rNS r) \<and> ValidName (rName r) \<and> (rDigest r = [] \<or> IsDigest (rDigest r)) \<and> sel_wf r
      \<and> rCanonical r = build_canonical (rNS r) (rName r) (rSel r) (rDigest r))"

lemma validateSelector_Inr:
  "validateSelector sel p = Inr q \<longleftrightarrow>
     (CHR ''+'' \<notin> set sel \<and> QuantSyntax sel \<and> q = p\<lparr>rSel := sel, rQuant := sel\<rparr>)
     \<or> (\<exists>tag quant. sel = tag @ ''+'' @ quant \<and> ValidTag tag = None \<and> QuantSyntax quant
          \<and> q = p\<lparr>rSel := sel, rTag := tag, rQuant := quant\<rparr>)"
  (is "_ = (?A \<or> ?B)")
proof (cases "cut_at (CHR ''+'') sel")
  case None
  then have "validateSelector sel p =
      (if QuantSyntax sel then Inr (p\<lparr>rSel := sel, rQuant := sel\<rparr>) else
       Inl (rerr ErrParse ''selector must be a quant or tag+quant; bare tags are not selectors''))"
    by (simp add: validateSelector_def Let_def cut_at_notin)
  moreover from None have "CHR ''+'' \<notin> set sel" "\<not> ?B" by (auto simp: cut_at_None)
  ultimately show ?thesis by auto
next
  case (Some tq)
  obtain tag quant where tq: "tq = (tag, quant)" by (cases tq)
  with Some have sel: "sel = tag @ CHR ''+'' # quant" "CHR ''+'' \<notin> set tag"
    by (auto simp: cut_at_Some)
  have uniq: "t = tag \<and> u = quant" if "sel = t @ CHR ''+'' # u" "ValidTag t = None" for t u
  proof -
    have "CHR ''+'' \<notin> set t"
      using that(2) by (auto simp: ValidTag_def validTagShape_notin split: if_splits)
    then have "cut_at (CHR ''+'') sel = Some (t, u)"
      unfolding that(1) by (rule cut_at_append)
    then show ?thesis using Some tq by simp
  qed
  have "validateSelector sel p = Inr q \<longleftrightarrow>
     ValidTag tag = None \<and> QuantSyntax quant \<and> q = p\<lparr>rSel := sel, rTag := tag, rQuant := quant\<rparr>"
    using Some tq by (auto simp: validateSelector_def ValidTag_def Let_def split: if_splits option.splits)
  moreover have "\<not> ?A" using sel(1) by simp
  moreover have "?B \<longleftrightarrow>
     ValidTag tag = None \<and> QuantSyntax quant \<and> q = p\<lparr>rSel := sel, rTag := tag, rQuant := quant\<rparr>"
    using sel(1) uniq by (metis append_Cons append_Nil)
  ultimately show ?thesis by (simp only: simp_thms)
qed

lemma parse_digest_Inr:
  "parse_digest s = Inr (rest, d) \<longleftrightarrow>
     (d = [] \<and> rest = s \<and> CHR ''@'' \<notin> set s)
     \<or> (IsDigest d \<and> s = rest @ ''@'' @ d \<and> CHR ''@'' \<notin> set rest)"
  by (cases "cut_at (CHR ''@'') s")
    (auto simp: parse_digest_def cut_at_None cut_at_notin cut_at_Some cut_at_append IsDigest_facts split: if_splits option.splits)

lemma parse_selector_Inr:
  "parse_selector s = Inr (rest, sel) \<longleftrightarrow>
     CHR '':'' \<notin> set rest \<and> (if sel = [] then rest = s else s = rest @ '':'' @ sel)"
  by (cases "cut_at (CHR '':'') s")
    (auto simp: parse_selector_def cut_at_None cut_at_notin cut_at_Some cut_at_append split: if_splits option.splits)

lemma parse_path_Inr:
  "parse_path s = Inr (ns, name) \<longleftrightarrow>
     (\<exists>a b. cut_at (CHR ''/'') s = Some (a, b) \<and> CHR ''/'' \<notin> set b
        \<and> ns = ToLower a \<and> name = ToLower b \<and> ValidNS ns \<and> ValidName name)"
  by (auto simp: parse_path_def Let_def split: if_splits option.splits)

lemma build_canonical_eq:
  "build_canonical ns name sel d = SchemePrefix @ ns @ CHR ''/'' # name
     @ (if sel = [] then [] else CHR '':'' # sel) @ (if d = [] then [] else CHR ''@'' # d)"
  by (simp add: build_canonical_def)

lemma parse_path_build:
  "ValidNS ns \<Longrightarrow> ValidName name \<Longrightarrow> parse_path (ns @ CHR ''/'' # name) = Inr (ns, name)"
  by (auto simp: parse_path_Inr ValidNS_def ValidName_def cut_at_append isAtom_notin isAtom_ToLower)

lemma length_SchemePrefix: "length SchemePrefix = 10"
  by (simp add: SchemePrefix_def)

lemma Parse_stages:
  assumes "Parse s = Inr r"
  obtains rest1 d rest2 sel ns name p where
    "length s \<le> 512" "s = SchemePrefix @ drop 10 s"
    "parse_digest (drop 10 s) = Inr (rest1, d)" "parse_selector rest1 = Inr (rest2, sel)"
    "parse_path rest2 = Inr (ns, name)" "sel \<noteq> [] \<or> d \<noteq> []"
    "(if sel \<noteq> [] then validateSelector sel
        \<lparr>rCanonical = [], rNS = ns, rName = name, rSel = [], rTag = [], rQuant = [], rDigest = d\<rparr>
      else Inr \<lparr>rCanonical = [], rNS = ns, rName = name, rSel = [], rTag = [], rQuant = [], rDigest = d\<rparr>)
     = Inr p"
    "r = p\<lparr>rCanonical := build_canonical ns name sel d\<rparr>"
proof -
  have "HasPrefix s SchemePrefix" "length s \<le> 512"
    using assms by (auto simp: Parse_def maxRefLen_def split: if_splits)
  then have "s = SchemePrefix @ drop 10 s"
    by (auto simp: HasPrefix_iff SchemePrefix_def numeral_eq_Suc)
  note unf = Parse_def Let_def length_SchemePrefix
  obtain rest1 d where dg: "parse_digest (drop 10 s) = Inr (rest1, d)"
    using assms by (simp add: unf split: if_splits sum.splits prod.splits)
  obtain rest2 sel where sl: "parse_selector rest1 = Inr (rest2, sel)"
    using assms dg by (simp add: unf split: if_splits sum.splits prod.splits)
  obtain ns name where pp: "parse_path rest2 = Inr (ns, name)"
    using assms dg sl by (simp add: unf split: if_splits sum.splits prod.splits)
  let ?p = "\<lparr>rCanonical = [], rNS = ns, rName = name, rSel = [], rTag = [], rQuant = [], rDigest = d\<rparr>"
  obtain p where p: "(if sel \<noteq> [] then validateSelector sel ?p else Inr ?p) = Inr p"
    and "sel \<noteq> [] \<or> d \<noteq> []" "r = p\<lparr>rCanonical := build_canonical ns name sel d\<rparr>"
    using assms dg sl pp by (cases "sel = []") (auto simp: unf split: if_splits sum.splits prod.splits)
  then show ?thesis
    using that [OF \<open>length s \<le> 512\<close> \<open>s = SchemePrefix @ drop 10 s\<close> dg sl pp] by blast
qed

lemma Parse_wf:
  assumes "Parse s = Inr r"
  shows "ref_wf r \<and> length (rCanonical r) \<le> 512"
  using assms
proof (rule Parse_stages)
  fix rest1 d rest2 sel ns name p
  assume len: "length s \<le> 512" and s: "s = SchemePrefix @ drop 10 s"
    and dg: "parse_digest (drop 10 s) = Inr (rest1, d)"
    and sl: "parse_selector rest1 = Inr (rest2, sel)"
    and pp: "parse_path rest2 = Inr (ns, name)" and some: "sel \<noteq> [] \<or> d \<noteq> []"
    and p: "(if sel \<noteq> [] then validateSelector sel
        \<lparr>rCanonical = [], rNS = ns, rName = name, rSel = [], rTag = [], rQuant = [], rDigest = d\<rparr>
      else Inr \<lparr>rCanonical = [], rNS = ns, rName = name, rSel = [], rTag = [], rQuant = [], rDigest = d\<rparr>)
     = Inr p"
    and r: "r = p\<lparr>rCanonical := build_canonical ns name sel d\<rparr>"
  have d: "d = [] \<or> IsDigest d"
    using dg by (auto simp: parse_digest_Inr)
  from pp obtain a b where ab: "rest2 = a @ CHR ''/'' # b" "ns = ToLower a" "name = ToLower b"
    and v: "ValidNS ns" "ValidName name"
    by (auto simp: parse_path_Inr cut_at_Some)
  have "length (build_canonical ns name sel d) \<le> length s"
  proof -
    have "length s = 10 + length (drop 10 s)"
      using arg_cong [OF s, of length] by (simp add: SchemePrefix_def)
    moreover have "length (drop 10 s) = length rest1 + (if d = [] then 0 else 1 + length d)"
      using dg by (auto simp: parse_digest_Inr dest: IsDigest_facts simp del: length_drop)
    moreover have "length rest1 = length rest2 + (if sel = [] then 0 else 1 + length sel)"
      using sl by (auto simp: parse_selector_Inr split: if_splits)
    ultimately show ?thesis
      using length_ToLower [of a] length_ToLower [of b]
      by (simp add: build_canonical_def SchemePrefix_def ab)
  qed
  moreover have "ref_wf r"
    using p r d v some
    by (auto simp: ref_wf_def sel_wf_def validateSelector_Inr split: if_splits)
  ultimately show ?thesis using len r by simp
qed

lemma sel_not_colon_at: "sel_wf r \<Longrightarrow> CHR ''@'' \<notin> set (rSel r)"
  by (auto simp: sel_wf_def ValidTag_def QuantSyntax_notin validTagShape_notin split: if_splits)

lemma Parse_of_canonical:
  assumes wf: "ref_wf r" and len: "length (rCanonical r) \<le> 512"
  shows "Parse (rCanonical r) = Inr r"
proof -
  obtain c ns name sel tag quant d where
    r: "r = \<lparr>rCanonical = c, rNS = ns, rName = name, rSel = sel, rTag = tag, rQuant = quant, rDigest = d\<rparr>"
    by (cases r) blast
  let ?p = "\<lparr>rCanonical = [], rNS = ns, rName = name, rSel = [], rTag = [], rQuant = [], rDigest = d\<rparr>"
  let ?path = "ns @ CHR ''/'' # name"
  let ?s = "?path @ (if sel = [] then [] else CHR '':'' # sel)"
  from wf r have v: "ValidNS ns" "ValidName name" and d: "d = [] \<or> IsDigest d" and sw: "sel_wf r"
    and c: "c = build_canonical ns name sel d"
    by (auto simp: ref_wf_def)
  have nin: "x \<notin> set ns" "x \<notin> set name" if "\<not> atom_char x" for x
    using v that by (auto simp: ValidNS_def ValidName_def dest: isAtom_chars)
  have "parse_digest (drop 10 c) = Inr (?s, d)"
    using d nin sel_not_colon_at [OF sw] r
    by (auto simp: parse_digest_Inr c build_canonical_eq SchemePrefix_def)
  moreover have "parse_selector ?s = Inr (?path, sel)"
    using nin by (auto simp: parse_selector_Inr)
  moreover have "(if sel \<noteq> [] then validateSelector sel ?p else Inr ?p) = Inr (r\<lparr>rCanonical := []\<rparr>)"
    using sw r by (auto simp: sel_wf_def validateSelector_Inr QuantSyntax_notin)
  moreover have "sel \<noteq> [] \<or> d \<noteq> []"
    using sw r by (auto simp: sel_wf_def dest: QuantSyntax_chars)
  moreover have "HasPrefix c SchemePrefix" "length c \<le> 512" "length SchemePrefix = 10"
    using len r by (auto simp: c build_canonical_eq SchemePrefix_def)
  ultimately show ?thesis
    using parse_path_build [OF v] r c by (simp add: Parse_def maxRefLen_def Let_def)
qed

lemma ParseAny_canonical:
  assumes wf: "ref_wf r" and len: "length (rCanonical r) \<le> 512"
  shows "ParseAny (rCanonical r) = Inr r" "ParseAny (drop 10 (rCanonical r)) = Inr r"
proof -
  let ?c = "rCanonical r"
  have c: "?c = SchemePrefix @ drop 10 ?c" and ns: "ValidNS (rNS r)"
    and rest: "\<exists>t. drop 10 ?c = rNS r @ CHR ''/'' # t"
    using wf by (auto simp: ref_wf_def build_canonical_eq length_SchemePrefix)
  show "ParseAny ?c = Inr r"
    using c Parse_of_canonical [OF assms] by (metis HasPrefix_append ParseAny_def)
  have "\<not> HasPrefix (drop 10 ?c) SchemePrefix"
  proof
    assume "HasPrefix (drop 10 ?c) SchemePrefix"
    with rest obtain t v where "rNS r @ CHR ''/'' # t = SchemePrefix @ v"
      unfolding HasPrefix_iff by metis
    then obtain u where "rNS r @ CHR ''/'' # t = ''shardr:'' @ CHR ''/'' # u"
      by (simp add: SchemePrefix_def)
    moreover have "CHR ''/'' \<notin> set (rNS r)" "CHR '':'' \<notin> set (rNS r)"
      using ns by (auto simp: ValidNS_def dest: isAtom_chars)
    ultimately have "cut_at (CHR ''/'') (rNS r @ CHR ''/'' # t) = Some (''shardr:'', u)"
      by (simp add: cut_at_Some)
    then have "rNS r = ''shardr:''"
      using \<open>CHR ''/'' \<notin> set (rNS r)\<close> by (simp add: cut_at_append)
    then show False using \<open>CHR '':'' \<notin> set (rNS r)\<close> by simp
  qed
  then show "ParseAny (drop 10 ?c) = Inr r"
    using c Parse_of_canonical [OF assms] by (simp add: ParseAny_def ParseShort_def)
qed

subsection \<open>Properties\<close>

text \<open>
  The grammar as spec 000 states it. Its Appendix A knows three quant lineages that \<open>QuantSyntax\<close> does not
  have: \<open>gptq\<close>, \<open>awq\<close> and \<open>eetq\<close> are prefixes, and quants on their own without a digit.
\<close>

definition lineages :: "string list" where
  "lineages = [''gptq'', ''awq'', ''eetq'']"

definition spec_quant :: "string \<Rightarrow> bool" where
  "spec_quant s =
     (list_all quant_char s \<and> length s \<le> 24
      \<and> (s \<in> set (''raw'' # lineages) \<or> list_ex is_digit s \<and> list_ex (HasPrefix s) (quant_prefixes @ lineages)))"

definition spec_tag :: "string \<Rightarrow> bool" where
  "spec_tag t =
     (validTagShape t \<and> \<not> HasPrefix (ToLower t) ''sha256-'' \<and> \<not> HasPrefix (ToLower t) ''sha256:'' \<and> \<not> spec_quant (ToLower t))"

definition spec_wf :: "Ref \<Rightarrow> bool" where
  "spec_wf r =
     (ValidNS (rNS r) \<and> ValidName (rName r) \<and> (rDigest r = [] \<or> IsDigest (rDigest r))
      \<and> rCanonical r = build_canonical (rNS r) (rName r) (rSel r) (rDigest r)
      \<and> (rSel r = [] \<and> rTag r = [] \<and> rQuant r = [] \<and> rDigest r \<noteq> []
         \<or> spec_quant (rQuant r) \<and> (rTag r = [] \<and> rSel r = rQuant r \<or> spec_tag (rTag r) \<and> rSel r = rTag r @ ''+'' @ rQuant r)))"

text \<open>The two vocabularies differ by the lineages and by nothing else.\<close>

definition lineage_quant :: "string \<Rightarrow> bool" where
  "lineage_quant s =
     (list_all quant_char s \<and> length s \<le> 24
      \<and> (s \<in> set lineages \<or> list_ex is_digit s \<and> list_ex (HasPrefix s) lineages))"

lemma raw_spec: "spec_quant ''raw''"
  by code_simp

lemma spec_quant_QuantSyntax: "spec_quant s \<longleftrightarrow> QuantSyntax s \<or> lineage_quant s"
proof (cases "s = ''raw''")
  case False
  then show ?thesis
    by (cases s) (auto simp: spec_quant_def QuantSyntax_def lineage_quant_def)
qed (use raw_spec in \<open>simp add: QuantSyntax_def\<close>)

lemma QuantSyntax_lineages_apart: "QuantSyntax s \<Longrightarrow> \<not> lineage_quant s"
  by (auto simp: QuantSyntax_def lineage_quant_def lineages_def quant_prefixes_def HasPrefix_iff split: if_splits)

lemma spec_tag_ValidTag: "spec_tag t \<longleftrightarrow> ValidTag t = None \<and> \<not> lineage_quant (ToLower t)"
  by (auto simp: spec_tag_def ValidTag_def TagBan_def spec_quant_QuantSyntax Let_def)

lemma spec_wf_ref_wf:
  assumes "ref_wf r"
  shows "spec_wf r \<longleftrightarrow> \<not> lineage_quant (ToLower (rTag r))"
proof -
  have nil: "\<not> lineage_quant (ToLower [])" by code_simp
  have "\<not> QuantSyntax []" by code_simp
  moreover have "ValidTag [] \<noteq> None" by code_simp
  ultimately show ?thesis
    using assms nil unfolding ref_wf_def sel_wf_def spec_wf_def spec_quant_QuantSyntax spec_tag_ValidTag by auto
qed

text \<open>
  C1: every reference that parses obeys the grammar of spec 000 (the shapes of namespace, name and digest,
  a selector that is a quant or an unbanned tag with a quant, and always a selector or a digest),
  with one exception, which is exact: a tag that the specification bans as a quant of the lineages \<open>gptq\<close>, \<open>awq\<close> or \<open>eetq\<close>, which
  the parser does not know, is let through. The canonical form fits the length limit, and both the canonical form and its short form parse
  back to the same reference.
\<close>

theorem Parse_roundtrip:
  assumes "Parse s = Inr r"
  shows "(spec_wf r \<longleftrightarrow> \<not> lineage_quant (ToLower (rTag r)))
    \<and> length (rCanonical r) \<le> 512 \<and> Parse (rCanonical r) = Inr r
    \<and> ParseAny (rCanonical r) = Inr r \<and> ParseAny (drop 10 (rCanonical r)) = Inr r"
  using Parse_wf [OF assms] by (simp add: Parse_of_canonical ParseAny_canonical spec_wf_ref_wf)

lemma Parse_roundtrip_witness:
  "\<exists>r. Parse ''shardr:///Qwen/Coder-7B:v1.0+q4_k_m'' = Inr r \<and> spec_wf r \<and> ParseAny ''qwen/coder-7b:v1.0+q4_k_m'' = Inr r"
proof -
  let ?r = "\<lparr>rCanonical = ''shardr:///qwen/coder-7b:v1.0+q4_k_m'', rNS = ''qwen'', rName = ''coder-7b'',
    rSel = ''v1.0+q4_k_m'', rTag = ''v1.0'', rQuant = ''q4_k_m'', rDigest = []\<rparr>"
  have "Parse ''shardr:///Qwen/Coder-7B:v1.0+q4_k_m'' = Inr ?r"
    by code_simp
  moreover have "\<not> lineage_quant (ToLower ''v1.0'')" by code_simp
  ultimately show ?thesis using Parse_roundtrip [of _ ?r] by auto
qed

text \<open>
  The exception in the two directions: the quant \<open>gptq\<close> of the specification is refused as a selector, and accepted as a tag,
  which the specification bans.
\<close>

lemma gptq_gap:
  "spec_quant ''gptq''" "\<not> (\<exists>r. Parse ''shardr:///a/b:gptq'' = Inr r)"
  "\<exists>r. Parse ''shardr:///a/b:gptq+q8_0'' = Inr r \<and> rTag r = ''gptq'' \<and> \<not> spec_tag (rTag r)"
proof -
  show "spec_quant ''gptq''" by code_simp
  have "(case Parse ''shardr:///a/b:gptq'' of Inr r \<Rightarrow> False | Inl e \<Rightarrow> True)" by code_simp
  then show "\<not> (\<exists>r. Parse ''shardr:///a/b:gptq'' = Inr r)" by auto
  have "(case Parse ''shardr:///a/b:gptq+q8_0'' of Inr r \<Rightarrow> rTag r = ''gptq'' \<and> \<not> spec_tag (rTag r) | Inl e \<Rightarrow> False)" by code_simp
  then show "\<exists>r. Parse ''shardr:///a/b:gptq+q8_0'' = Inr r \<and> rTag r = ''gptq'' \<and> \<not> spec_tag (rTag r)"
    by (cases "Parse ''shardr:///a/b:gptq+q8_0''") (simp only: sum.case, simp only: sum.case, blast)
qed

text \<open>
  The references the parser can produce are exactly the ones well formed in its own vocabulary whose canonical form
  is at most 512 bytes long: nothing well formed is rejected, nothing else is accepted.
\<close>

lemma Parse_image:
  "(\<exists>s. Parse s = Inr r) \<longleftrightarrow> ref_wf r \<and> length (rCanonical r) \<le> 512"
  using Parse_wf Parse_of_canonical by blast

text \<open>
  A tag alias can never be mistaken for anything else that follows the colon or names an
  object: whatever the letter case, a valid tag is neither a quant selector nor a digest nor a
  legacy \<open>sha256-\<close> name.
\<close>

lemma ValidTag_not_selector:
  assumes "ValidTag t = None" and "ToLower u = ToLower t"
  shows "\<not> QuantSyntax u \<and> \<not> IsDigest u \<and> \<not> HasPrefix u ''sha256-'' \<and> t \<noteq> []"
proof -
  have ban: "\<not> HasPrefix (ToLower t) ''sha256-''" "\<not> HasPrefix (ToLower t) ''sha256:''"
    "\<not> QuantSyntax (ToLower t)" and shape: "validTagShape t"
    using assms(1) by (auto simp: ValidTag_def TagBan_def Let_def split: if_splits)
  have "ToLower v = v" if "QuantSyntax v" for v
  proof (rule ToLower_id)
    have "atom_char c" if "c \<in> set v" for c
      using QuantSyntax_chars [OF \<open>QuantSyntax v\<close>] that
      by (auto simp: list_all_iff quant_char_def atom_char_def)
    then show "list_all is_ascii v" "list_all (\<lambda>c. \<not> is_upper c) v"
      by (auto simp: list_all_iff atom_char_lower)
  qed
  then have "\<not> QuantSyntax u" using assms(2) ban(3) by metis
  moreover have low: "HasPrefix (ToLower (p @ w)) p" if "list_all is_ascii p" "list_all (\<lambda>c. \<not> is_upper c) p" for p w
    using that
  proof (induction p)
    case (Cons x p)
    then have "x \<noteq> CHR 0xE2" "x \<noteq> CHR 0xC4" by (auto simp: is_ascii_def)
    with Cons show ?case by (simp add: lower_char_id)
  qed simp
  have asc: "list_all is_ascii ''sha256:''" "list_all is_ascii ''sha256-''"
    "list_all (\<lambda>c. \<not> is_upper c) ''sha256:''" "list_all (\<lambda>c. \<not> is_upper c) ''sha256-''"
    by (simp_all add: is_ascii_def is_upper_def)
  have "\<not> IsDigest u"
    using low [OF asc(1,3)] ban(2) assms(2) by (metis IsDigest_iff)
  moreover have "\<not> HasPrefix u ''sha256-''"
    using low [OF asc(2,4)] ban(1) assms(2) by (metis HasPrefix_iff)
  ultimately show ?thesis using shape by (auto simp: validTagShape_iff)
qed

lemma ValidTag_not_selector_witness:
  "ValidTag ''Main'' = None \<and> \<not> QuantSyntax ''MAIN''"
proof -
  have "ValidTag ''Main'' = None" "ToLower ''MAIN'' = ToLower ''Main''"
    by code_simp+
  with ValidTag_not_selector [OF this] show ?thesis by simp
qed

text \<open>Selecting a member: the scan of \<open>Resolve\<close> in terms of the set of members.\<close>

lemma find_distinct:
  assumes "distinct (map f xs)" and "x \<in> set xs"
  shows "find (\<lambda>y. f y = f x) xs = Some x"
  using assms
  by (induction xs) (auto dest: image_eqI [where f = f])

lemma find_key_iff:
  assumes "distinct (map f xs)"
  shows "find (\<lambda>y. f y = k) xs = Some x \<longleftrightarrow> x \<in> set xs \<and> f x = k"
  using assms find_distinct [of f xs x] by (auto simp: find_Some_iff)

lemma Resolve_unique:
  assumes "rQuant p \<noteq> []" and "find (\<lambda>m. mQuant m = rQuant p) ms = None"
    and "filter (\<lambda>m. HasPrefix (mQuant m) (rQuant p)) ms = [m]"
  shows "Resolve p ms = Returns (map_sum id Some (checkPin p m))"
proof -
  have "m \<in> set (filter (\<lambda>m. HasPrefix (mQuant m) (rQuant p)) ms)"
    by (simp add: assms(3))
  then have m: "m \<in> set ms" "HasPrefix (mQuant m) (rQuant p)"
    by simp_all
  note \<open>m \<in> set ms\<close>
  moreover have "m' = m" if "m' \<in> set ms" "mQuant m' = mQuant m" for m'
  proof -
    have "m' \<in> set (filter (\<lambda>m. HasPrefix (mQuant m) (rQuant p)) ms)"
      using that m by simp
    then show ?thesis using assms(3) by simp
  qed
  ultimately have "find (\<lambda>m'. mQuant m' = mQuant m) ms = Some m"
    by (metis (mono_tags, lifting) find_None_iff find_Some_iff nth_mem option.exhaust)
  then show ?thesis using assms by (simp add: Resolve_def Let_def)
qed

lemma Resolve_not_Panics: "Resolve p ms \<noteq> Panics"
proof (cases "find (\<lambda>m. mQuant m = rQuant p) ms")
  case None
  let ?f = "filter (\<lambda>m. HasPrefix (mQuant m) (rQuant p)) ms"
  show ?thesis
  proof (cases "length ?f = 1 \<and> rQuant p \<noteq> []")
    case True
    then obtain m where "?f = [m]" by (auto simp: length_Suc_conv)
    with True None Resolve_unique [of p ms m] show ?thesis by simp
  next
    case False
    then show ?thesis using None by (cases ?f) (auto simp: Resolve_def Let_def split: list.splits)
  qed
qed (simp add: Resolve_def)

lemma checkPin_Inr: "checkPin p m = Inr r \<longleftrightarrow> r = m \<and> (rDigest p = [] \<or> rDigest p = mManifest m)"
  by (auto simp: checkPin_def)

lemma find_mset:
  assumes "distinct (map f xs)" and "mset xs = mset ys"
  shows "find (\<lambda>y. f y = k) xs = find (\<lambda>y. f y = k) ys"
proof -
  have "distinct (map f ys)"
    using assms by (metis distinct_count_atmost_1 mset_map set_mset_mset)
  then have "find (\<lambda>y. f y = k) xs = Some x \<longleftrightarrow> find (\<lambda>y. f y = k) ys = Some x" for x
    using assms by (auto simp: find_key_iff dest: mset_eq_setD)
  then show ?thesis by (metis option.exhaust)
qed

text \<open>
  On an index whose quants are distinct, \<open>Resolve\<close> selects a member exactly when it is
  the one whose quant equals the wanted one or, failing an exact match, the only one whose quant
  starts with it; and only when a digest pin, if any, names that member's manifest. The
  statement covers every list, and no input reaches the panic.
\<close>

lemma Resolve_selects:
  assumes "distinct (map mQuant ms)" and "rQuant p \<noteq> []"
  shows "Resolve p ms \<noteq> Panics \<and>
    (Resolve p ms = Returns (Inr (Some m)) \<longleftrightarrow>
       m \<in> set ms \<and> (rDigest p = [] \<or> rDigest p = mManifest m)
       \<and> (mQuant m = rQuant p
           \<or> rQuant p \<notin> mQuant ` set ms \<and> {k \<in> set ms. HasPrefix (mQuant k) (rQuant p)} = {m}))"
proof -
  let ?f = "filter (\<lambda>m. HasPrefix (mQuant m) (rQuant p)) ms"
  have "Resolve p ms = Returns (Inr (Some m)) \<longleftrightarrow>
       m \<in> set ms \<and> (rDigest p = [] \<or> rDigest p = mManifest m)
       \<and> (mQuant m = rQuant p
           \<or> rQuant p \<notin> mQuant ` set ms \<and> {k \<in> set ms. HasPrefix (mQuant k) (rQuant p)} = {m})"
  proof (cases "find (\<lambda>m. mQuant m = rQuant p) ms")
    case (Some k)
    then have "k \<in> set ms" "mQuant k = rQuant p" and u: "\<And>x. x \<in> set ms \<Longrightarrow> mQuant x = rQuant p \<Longrightarrow> x = k"
      using assms(1) by (auto simp: find_key_iff distinct_map inj_on_def)
    have "Resolve p ms = Returns (Inr (Some m)) \<longleftrightarrow> m = k \<and> (rDigest p = [] \<or> rDigest p = mManifest k)"
      using Some assms(2) by (auto simp: Resolve_def map_sum_Inr checkPin_Inr)
    moreover have "rQuant p \<in> mQuant ` set ms" using \<open>k \<in> set ms\<close> \<open>mQuant k = rQuant p\<close> by force
    moreover have "m \<in> set ms \<and> mQuant m = rQuant p \<longleftrightarrow> m = k"
      using u \<open>k \<in> set ms\<close> \<open>mQuant k = rQuant p\<close> by blast
    ultimately show ?thesis by blast
  next
    case None
    then have none: "rQuant p \<notin> mQuant ` set ms" by (auto simp: find_None_iff)
    have d: "distinct ?f" using assms(1) by (simp add: distinct_map)
    show ?thesis
    proof (cases "\<exists>k. ?f = [k]")
      case True
      then obtain k where k: "?f = [k]" ..
      then have "{x \<in> set ms. HasPrefix (mQuant x) (rQuant p)} = {k}"
        by (metis empty_set list.simps(15) set_filter)
      then show ?thesis
        using Resolve_unique [OF assms(2) None k] none
        by (auto simp: checkPin_Inr map_sum_Inr)
    next
      case False
      then have "Resolve p ms \<noteq> Returns (Inr (Some m))"
        using None assms(2) by (cases ?f) (auto simp: Resolve_def Let_def split: list.splits)
      moreover have "{x \<in> set ms. HasPrefix (mQuant x) (rQuant p)} \<noteq> {m}"
      proof
        assume "{x \<in> set ms. HasPrefix (mQuant x) (rQuant p)} = {m}"
        then have "set ?f = {m}" by simp
        with d have "length ?f = 1" by (metis card_1_singleton_iff distinct_card One_nat_def)
        then obtain k where "?f = [k]" by (metis One_nat_def length_0_conv length_Suc_conv)
        with False show False by blast
      qed
      moreover have "\<not> (m \<in> set ms \<and> mQuant m = rQuant p)" using none by (metis imageI)
      ultimately show ?thesis using none by blast
    qed
  qed
  then show ?thesis by (simp add: Resolve_not_Panics)
qed

lemma Resolve_selects_witness:
  "Resolve \<lparr>rCanonical = [], rNS = ''a'', rName = ''b'', rSel = ''q4'', rTag = [], rQuant = ''q4'', rDigest = []\<rparr>
     [\<lparr>mQuant = ''q8_0'', mManifest = ''x''\<rparr>, \<lparr>mQuant = ''q4_k_m'', mManifest = ''y''\<rparr>]
   = Returns (Inr (Some \<lparr>mQuant = ''q4_k_m'', mManifest = ''y''\<rparr>))"
  by (subst Resolve_selects [THEN conjunct2]) (auto simp: HasPrefix_def)

text \<open>
  The order in which an index lists its members does not matter: any permutation of an index
  with distinct quants gives the same selection, the same error class, the same message and the
  same sorted candidate list.
\<close>

lemma Resolve_order_independent:
  assumes "distinct (map mQuant ms)" and "mset ms = mset ms'"
  shows "Resolve p ms = Resolve p ms'"
proof (cases "rQuant p = []")
  case False
  let ?P = "\<lambda>m. HasPrefix (mQuant m) (rQuant p)"
  have find_eq: "find (\<lambda>m. mQuant m = rQuant p) ms = find (\<lambda>m. mQuant m = rQuant p) ms'"
    by (rule find_mset) fact+
  have fl: "mset (filter ?P ms) = mset (filter ?P ms')"
    using assms(2) by simp
  then have len: "length (filter ?P ms) = length (filter ?P ms')"
    by (metis size_mset)
  show ?thesis
  proof (cases "find (\<lambda>m. mQuant m = rQuant p) ms")
    case (Some m)
    then show ?thesis using find_eq by (simp add: Resolve_def)
  next
    case None
    have none': "find (\<lambda>m. mQuant m = rQuant p) ms' = None" using None find_eq by simp
    consider "filter ?P ms = []" | k where "filter ?P ms = [k]"
      | a b xs where "filter ?P ms = a # b # xs" by (metis remdups_adj.cases)
    then show ?thesis
    proof cases
      case 1
      with fl show ?thesis using None none' False by (simp add: Resolve_def)
    next
      case 2
      with fl have "mset (filter ?P ms') = {#k#}" by (simp only: mset.simps)
      then have "filter ?P ms' = [k]" by (simp only: mset_single_iff)
      with 2 show ?thesis using Resolve_unique [OF False None 2] Resolve_unique [OF False none'] by simp
    next
      case 3
      with len obtain a' b' xs' where 4: "filter ?P ms' = a' # b' # xs'"
        by (auto simp: length_Suc_conv Suc_length_conv)
      have "mset (map mQuant (filter ?P ms)) = mset (map mQuant (filter ?P ms'))"
        using fl by simp
      then have "sort (map mQuant (filter ?P ms)) = sort (map mQuant (filter ?P ms'))"
        by (metis sorted_list_of_multiset_mset)
      then show ?thesis
        using 3 4 None none' False by (simp add: Resolve_def Let_def)
    qed
  qed
qed (simp add: Resolve_def)

lemma Resolve_order_independent_witness:
  "\<forall>p. Resolve p [\<lparr>mQuant = ''q8_0'', mManifest = ''x''\<rparr>, \<lparr>mQuant = ''q4_k_m'', mManifest = ''y''\<rparr>]
   = Resolve p [\<lparr>mQuant = ''q4_k_m'', mManifest = ''y''\<rparr>, \<lparr>mQuant = ''q8_0'', mManifest = ''x''\<rparr>]"
  by (intro allI Resolve_order_independent) (auto simp: add_mset_commute)

text \<open>
  \<open>NormalizeDigest\<close> accepts exactly the protocol form and the bare 64 lower-case hex
  digits, and returns the protocol form of it.
\<close>

lemma NormalizeDigest_iff:
  "NormalizeDigest s = Inr d \<longleftrightarrow> IsDigest d \<and> (s = d \<or> ''sha256:'' @ s = d)"
proof (cases "HasPrefix s ''sha256:''")
  case True
  then obtain t where s: "s = ''sha256:'' @ t" by (auto simp: HasPrefix_iff)
  have "\<not> IsDigest (''sha256:'' @ s)"
  proof
    assume "IsDigest (''sha256:'' @ s)"
    then have "list_all is_lhex s" by (auto simp: IsDigest_iff)
    then show False unfolding s by simp
  qed
  then show ?thesis using True by (auto simp: NormalizeDigest_def DigestSchemePrefix_def)
next
  case False
  then show ?thesis
    by (auto simp: NormalizeDigest_def DigestSchemePrefix_def IsDigest_def Let_def)
qed

end
