(* ===== verification/Cas.thy ===== *)
theory Cas
  imports Refs "HOL-Library.AList"
begin

text \<open>
  \<open>internal/cas\<close>: the content-addressed store. The regular files under the store's root are an
  association list from slash-separated relative paths to files (\<open>cas.go\<close>); the JSON maps under
  \<open>state/\<close> are kept at the level of their decoded content (\<open>state.go\<close>). The operating system
  enters through a fault function that says which of a call's system calls fail, so every
  error return of the code is a branch here. A list order stands for the order in which a Go
  map is ranged over.
\<close>

subsection \<open>Files, faults and errors\<close>

record cfile =
  fContent :: string
  fMode :: nat
  fTime :: int

datatype state_file = Absent | Unreadable | Corrupt | Holds "(string \<times> string) list"

record store =
  sFiles :: "(string \<times> cfile) list"
  sState :: "string \<Rightarrow> state_file"

datatype syscall =
  SysMkIncoming | SysRand | SysCreate | SysCopy | SysSync | SysClose | SysStat | SysMkTarget
  | SysChmod | SysRename | SysSyncDir | SysRemove | SysRead | SysWrite | SysReadDir | SysInfo | SysMkLayout

datatype cas_error =
    BadLength string | BadHex string | UppercaseHex string
  | IOErr syscall | ErrDigestMismatch string | ErrBlobMissing string
  | InvalidNamespaceKey string | InvalidTag string ref_error | InvalidDigest string ref_error
  | LinkManifestDigest ref_error | LinkRecordDigest ref_error | HintsDigest ref_error
  | StateRead string | StateParse string

definition look :: "store \<Rightarrow> string \<Rightarrow> cfile option" where
  "look s p = map_of (sFiles s) p"

definition set_file :: "string \<Rightarrow> cfile \<Rightarrow> store \<Rightarrow> store" where
  "set_file p f s = s\<lparr>sFiles := AList.update p f (sFiles s)\<rparr>"

definition del_file :: "string \<Rightarrow> store \<Rightarrow> store" where
  "del_file p s = s\<lparr>sFiles := AList.delete p (sFiles s)\<rparr>"

lemma look_set_file [simp]: "look (set_file p f s) q = (if q = p then Some f else look s q)"
  by (simp add: look_def set_file_def update_conv')

lemma look_del_file [simp]: "look (del_file p s) q = (if q = p then None else look s q)"
  by (simp add: look_def del_file_def delete_conv')

lemma sState_set_file [simp]: "sState (set_file p f s) = sState s"
  by (simp add: set_file_def)

lemma sState_del_file [simp]: "sState (del_file p s) = sState s"
  by (simp add: del_file_def)

definition stalePartAge :: int where "stalePartAge = 24 * 3600 * 10 ^ 9"
definition blobMode :: nat where "blobMode = 292" \<comment> \<open>\<open>0o444\<close>\<close>
definition partMode :: nat where "partMode = 384" \<comment> \<open>\<open>0o600\<close>\<close>

subsection \<open>Paths\<close>

definition blobsDir :: string where "blobsDir = ''blobs/sha256''"
definition incomingDir :: string where "incomingDir = ''incoming''"

definition validateDigest :: "string \<Rightarrow> cas_error + unit" where
  "validateDigest d =
     (if length d \<noteq> 64 then Inl (BadLength d)
      else if hex_decode d = None then Inl (BadHex d)
      else if \<not> list_all is_lhex d then Inl (UppercaseHex d)
      else Inr ())"

definition BlobPath :: "string \<Rightarrow> cas_error + string" where
  "BlobPath digest =
     bind_res (validateDigest digest)
       (\<lambda>_. Inr (blobsDir @ ''/'' @ take 2 digest @ ''/'' @ drop 2 digest))"

text \<open>\<open>Has\<close> stats the path, \<open>OpenBlob\<close> opens it; \<open>bad\<close> are the paths the system fails on.\<close>

definition Has :: "(string \<Rightarrow> bool) \<Rightarrow> store \<Rightarrow> string \<Rightarrow> bool" where
  "Has bad s digest =
     (case BlobPath digest of
        Inl _ \<Rightarrow> False
      | Inr p \<Rightarrow> \<not> bad p \<and> look s p \<noteq> None)"

datatype open_result = NotExist | OpenErr cas_error | Opened cfile

definition OpenBlob :: "(string \<Rightarrow> bool) \<Rightarrow> store \<Rightarrow> string \<Rightarrow> open_result" where
  "OpenBlob bad s digest =
     (case BlobPath digest of
        Inl e \<Rightarrow> OpenErr e
      | Inr p \<Rightarrow> if bad p then OpenErr (IOErr SysRead)
                 else (case look s p of None \<Rightarrow> NotExist | Some f \<Rightarrow> Opened f))"

subsection \<open>Opening the store\<close>

text \<open>The base name of a path and the name of its directory.\<close>

definition base_name :: "string \<Rightarrow> string" where
  "base_name p = last (split_on (CHR ''/'') p)"

definition dir_base :: "string \<Rightarrow> string" where
  "dir_base p = (case rev (split_on (CHR ''/'') p) of _ # d # _ \<Rightarrow> d | _ \<Rightarrow> ''.'')"

definition in_incoming :: "string \<Rightarrow> bool" where
  "in_incoming p = (butlast (split_on (CHR ''/'') p) = [incomingDir])"

definition stale_part :: "int \<Rightarrow> string \<times> cfile \<Rightarrow> bool" where
  "stale_part now pf =
     (in_incoming (fst pf) \<and> HasSuffix (base_name (fst pf)) ''.part''
        \<and> now - fTime (snd pf) > stalePartAge)"

text \<open>One directory entry after the other; a failing \<open>Info\<close> or \<open>Remove\<close> ends the loop.\<close>

fun clean_entries :: "(string \<Rightarrow> syscall \<Rightarrow> bool) \<Rightarrow> int \<Rightarrow> (string \<times> cfile) list \<Rightarrow> store \<Rightarrow> store \<times> (cas_error + unit)" where
  "clean_entries fault now [] s = (s, Inr ())"
| "clean_entries fault now ((p, f) # es) s =
     (if \<not> (in_incoming p \<and> HasSuffix (base_name p) ''.part'') then clean_entries fault now es s
      else if fault p SysInfo then (s, Inl (IOErr SysInfo))
      else if now - fTime f > stalePartAge then
        (if fault p SysRemove then (s, Inl (IOErr SysRemove))
         else clean_entries fault now es (del_file p s))
      else clean_entries fault now es s)"

definition cleanStaleParts :: "(string \<Rightarrow> syscall \<Rightarrow> bool) \<Rightarrow> int \<Rightarrow> store \<Rightarrow> store \<times> (cas_error + unit)" where
  "cleanStaleParts fault now s =
     (if fault incomingDir SysReadDir then (s, Inl (IOErr SysReadDir))
      else clean_entries fault now (sFiles s) s)"

definition OpenStore :: "(string \<Rightarrow> syscall \<Rightarrow> bool) \<Rightarrow> int \<Rightarrow> store \<Rightarrow> store \<times> (cas_error + unit)" where
  "OpenStore fault now s =
     (if fault blobsDir SysMkLayout \<or> fault incomingDir SysMkLayout \<or> fault ''state'' SysMkLayout
      then (s, Inl (IOErr SysMkLayout))
      else cleanStaleParts fault now s)"

subsection \<open>The verifying write path\<close>

record put_env =
  peFault :: "syscall \<Rightarrow> bool"
  peWrote :: nat       \<comment> \<open>bytes written before a failing copy\<close>
  peRand :: string     \<comment> \<open>the eight random bytes of \<open>newPart\<close>\<close>
  peNow :: int

definition part_path :: "put_env \<Rightarrow> string" where
  "part_path env = incomingDir @ ''/'' @ hex_encode (peRand env) @ ''.part''"

definition newPart :: "put_env \<Rightarrow> store \<Rightarrow> cas_error + (string \<times> store)" where
  "newPart env s =
     (if peFault env SysRand then Inl (IOErr SysRand)
      else if peFault env SysCreate \<or> look s (part_path env) \<noteq> None then Inl (IOErr SysCreate)
      else Inr (part_path env,
                set_file (part_path env) \<lparr>fContent = [], fMode = partMode, fTime = peNow env\<rparr> s))"

definition write_file :: "put_env \<Rightarrow> string \<Rightarrow> string \<Rightarrow> store \<Rightarrow> store" where
  "write_file env p b s =
     (case look s p of
        None \<Rightarrow> s
      | Some f \<Rightarrow> set_file p (f\<lparr>fContent := b, fTime := peNow env\<rparr>) s)"

definition remove_file :: "put_env \<Rightarrow> string \<Rightarrow> store \<Rightarrow> store" where
  "remove_file env p s = (if peFault env SysRemove then s else del_file p s)"

definition chmod_file :: "put_env \<Rightarrow> string \<Rightarrow> nat \<Rightarrow> store \<Rightarrow> store option" where
  "chmod_file env p m s =
     (case look s p of
        None \<Rightarrow> None
      | Some f \<Rightarrow> if peFault env SysChmod then None else Some (set_file p (f\<lparr>fMode := m\<rparr>) s))"

definition rename_file :: "put_env \<Rightarrow> string \<Rightarrow> string \<Rightarrow> store \<Rightarrow> store option" where
  "rename_file env p q s =
     (case look s p of
        None \<Rightarrow> None
      | Some f \<Rightarrow> if peFault env SysRename then None else Some (set_file q f (del_file p s)))"

definition Put :: "put_env \<Rightarrow> string \<Rightarrow> string \<Rightarrow> store \<Rightarrow> store \<times> (cas_error + unit)" where
  "Put env expectedDigest r s =
     (case BlobPath expectedDigest of
        Inl e \<Rightarrow> (s, Inl e)
      | Inr target \<Rightarrow>
        if peFault env SysMkIncoming then (s, Inl (IOErr SysMkIncoming))
        else
        case newPart env s of
          Inl e \<Rightarrow> (s, Inl e)
        | Inr (part, s) \<Rightarrow>
          if peFault env SysCopy
          then (remove_file env part (write_file env part (take (peWrote env) r) s), Inl (IOErr SysCopy))
          else
          let s = write_file env part r s in
          if peFault env SysSync then (remove_file env part s, Inl (IOErr SysSync))
          else if peFault env SysClose then (remove_file env part s, Inl (IOErr SysClose))
          else
          let got = sha256_hex r in
          if got \<noteq> expectedDigest then (remove_file env part s, Inl (ErrDigestMismatch got))
          else if \<not> peFault env SysStat \<and> look s target \<noteq> None then (remove_file env part s, Inr ())
          else if peFault env SysMkTarget then (remove_file env part s, Inl (IOErr SysMkTarget))
          else
          case chmod_file env part blobMode s of
            None \<Rightarrow> (remove_file env part s, Inl (IOErr SysChmod))
          | Some s \<Rightarrow>
            (case rename_file env part target s of
               None \<Rightarrow> (remove_file env part s, Inl (IOErr SysRename))
             | Some s \<Rightarrow>
                 if peFault env SysSyncDir then (s, Inl (IOErr SysSyncDir)) else (s, Inr ())))"

subsection \<open>Verification\<close>

definition Verify :: "(string \<Rightarrow> bool) \<Rightarrow> store \<Rightarrow> string \<Rightarrow> cas_error + unit" where
  "Verify bad s digest =
     (case OpenBlob bad s digest of
        NotExist \<Rightarrow> Inl (ErrBlobMissing digest)
      | OpenErr e \<Rightarrow> Inl e
      | Opened f \<Rightarrow>
          (let got = sha256_hex (fContent f) in
           if got \<noteq> digest then Inl (ErrDigestMismatch got) else Inr ()))"

subsection \<open>Path facts\<close>

definition blob_path :: "string \<Rightarrow> string" where
  "blob_path d = blobsDir @ ''/'' @ take 2 d @ ''/'' @ drop 2 d"

definition is_digest_hex :: "string \<Rightarrow> bool" where
  "is_digest_hex d = (length d = 64 \<and> list_all is_lhex d)"

lemma hex_decode_lhex: "list_all is_lhex s \<Longrightarrow> even (length s) \<Longrightarrow> hex_decode s \<noteq> None"
  by (induction s rule: hex_decode.induct) (auto dest: hex_value_lhex split: option.splits)

lemma validateDigest_iff: "validateDigest d = Inr u \<longleftrightarrow> is_digest_hex d"
  using hex_decode_lhex [of d] by (auto simp: validateDigest_def is_digest_hex_def)

lemma validateDigest_valid [simp]: "is_digest_hex d \<Longrightarrow> validateDigest d = Inr ()"
  by (simp add: validateDigest_iff)

lemma BlobPath_Inr: "BlobPath d = Inr p \<longleftrightarrow> is_digest_hex d \<and> p = blob_path d"
  by (auto simp: BlobPath_def bind_res_Inr blob_path_def validateDigest_iff)

lemma BlobPath_valid: "is_digest_hex d \<Longrightarrow> BlobPath d = Inr (blob_path d)"
  by (simp add: BlobPath_Inr)

lemma BlobPath_Inl: "BlobPath d = Inl e \<Longrightarrow> \<not> is_digest_hex d"
  by (auto simp: BlobPath_def)

lemma is_digest_sha256_hex [simp]: "is_digest_hex (sha256_hex b)"
  by (auto simp: is_digest_hex_def list_all_iff sha256_hex_def intro: hex_encode_chars)

lemma blob_path_inj: "is_digest_hex c \<Longrightarrow> is_digest_hex d \<Longrightarrow> blob_path c = blob_path d \<longleftrightarrow> c = d"
  by (auto simp: blob_path_def is_digest_hex_def append_eq_append_conv)
    (metis append_take_drop_id)

lemma part_path_not_blob [simp]: "part_path env \<noteq> blob_path d" "blob_path d \<noteq> part_path env"
  by (simp_all add: part_path_def blob_path_def blobsDir_def incomingDir_def)

lemma split_blob_path:
  assumes "is_digest_hex d"
  shows "split_on (CHR ''/'') (blob_path d) = [''blobs'', ''sha256'', take 2 d, drop 2 d]"
proof -
  have "CHR ''/'' \<notin> set (take 2 d)" "CHR ''/'' \<notin> set (drop 2 d)"
    using assms is_lhex_special(2) in_set_takeD [of "CHR ''/''" 2 d] in_set_dropD [of "CHR ''/''" 2 d]
    unfolding is_digest_hex_def list_all_iff by blast+
  then show ?thesis
    by (simp add: blob_path_def blobsDir_def split_on_append split_on_no_sep)
qed

subsection \<open>What one \<open>Put\<close> changes\<close>

text \<open>The store invariant: a file under a digest's path hashes to the digest and is read-only.\<close>

definition store_ok :: "store \<Rightarrow> bool" where
  "store_ok s \<longleftrightarrow>
     (\<forall>d f. is_digest_hex d \<and> look s (blob_path d) = Some f
        \<longrightarrow> sha256_hex (fContent f) = d \<and> fMode f = blobMode)"

lemmas put_defs = Put_def newPart_def write_file_def remove_file_def chmod_file_def rename_file_def Let_def

definition put_changes :: "put_env \<Rightarrow> string \<Rightarrow> string \<Rightarrow> store \<Rightarrow> store \<Rightarrow> bool" where
  "put_changes env d r s s' \<longleftrightarrow>
     sState s' = sState s
     \<and> (\<forall>q. q \<noteq> part_path env \<and> q \<noteq> blob_path d \<longrightarrow> look s' q = look s q)
     \<and> (look s' (blob_path d) = look s (blob_path d)
        \<or> sha256_hex r = d
          \<and> look s' (blob_path d) = Some \<lparr>fContent = r, fMode = blobMode, fTime = peNow env\<rparr>)"

lemma Put_changes:
  assumes "Put env d r s = (s', res)"
  shows "put_changes env d r s s'"
proof (cases "BlobPath d")
  case (Inl e)
  then show ?thesis using assms by (auto simp: put_defs put_changes_def)
next
  case (Inr p)
  then have "p = blob_path d" by (simp add: BlobPath_Inr)
  then show ?thesis
    using assms Inr
    by (simp add: put_defs put_changes_def split: if_splits; (elim conjE)?; clarsimp split: if_splits)
qed

lemma Put_Inr:
  assumes "Put env d r s = (s', Inr ())"
  shows "is_digest_hex d \<and> sha256_hex r = d \<and> look s' (blob_path d) \<noteq> None"
proof (cases "BlobPath d")
  case (Inl e)
  then show ?thesis using assms by (simp add: put_defs)
next
  case (Inr p)
  then have "p = blob_path d" "is_digest_hex d" by (simp_all add: BlobPath_Inr)
  then show ?thesis
    using assms Inr by (auto simp: put_defs split: if_splits)
qed

lemma store_ok_changes:
  assumes "store_ok s" and "put_changes env d r s s'"
  shows "store_ok s'"
proof -
  have "sha256_hex (fContent f) = c \<and> fMode f = blobMode"
    if "is_digest_hex c" "look s' (blob_path c) = Some f" for c f
  proof (cases "blob_path c = blob_path d \<and> look s' (blob_path d) \<noteq> look s (blob_path d)")
    case True
    then have "sha256_hex r = d" "f = \<lparr>fContent = r, fMode = blobMode, fTime = peNow env\<rparr>"
      using assms(2) that(2) by (auto simp: put_changes_def)
    moreover have "is_digest_hex d" using \<open>sha256_hex r = d\<close> by (metis is_digest_sha256_hex)
    ultimately show ?thesis using True that blob_path_inj [of c d] by auto
  next
    case False
    then have "look s (blob_path c) = Some f"
      using assms(2) that(2) unfolding put_changes_def by (metis part_path_not_blob(1))
    then show ?thesis using assms(1) that(1) by (simp add: store_ok_def)
  qed
  then show ?thesis unfolding store_ok_def by blast
qed

subsection \<open>Concurrent writers\<close>

text \<open>
  The same routine cut at its system calls: a writer runs \<open>Put\<close> one call at a time, and other
  writers, a crash, a partially executed copy or the cleaning of stale parts may come in
  between. Running one writer alone from \<open>PcStart\<close> is \<open>Put\<close> (\<open>Put_is_run\<close> below).
\<close>

datatype put_pc =
  PcStart | PcCopy | PcSync | PcClose | PcCheck | PcStat | PcMkTarget | PcChmod | PcRename | PcSyncDir
  | PcDone "cas_error + unit" | PcCrashed

record writer =
  wEnv :: put_env
  wDigest :: string
  wData :: string
  wPC :: put_pc

definition part_of :: "writer \<Rightarrow> string" where
  "part_of w = part_path (wEnv w)"

definition goto :: "put_pc \<Rightarrow> writer \<Rightarrow> writer" where
  "goto pc w = w\<lparr>wPC := pc\<rparr>"

text \<open>Give up: remove the part, return the error.\<close>

definition give_up :: "cas_error + unit \<Rightarrow> writer \<Rightarrow> store \<Rightarrow> store \<times> writer" where
  "give_up res w s = (remove_file (wEnv w) (part_of w) s, goto (PcDone res) w)"

fun put_step :: "writer \<Rightarrow> store \<Rightarrow> store \<times> writer" where
  "put_step w s =
     (let env = wEnv w; fault = peFault env; part = part_of w; target = blob_path (wDigest w) in
      case wPC w of
        PcStart \<Rightarrow>
          (case BlobPath (wDigest w) of
             Inl e \<Rightarrow> (s, goto (PcDone (Inl e)) w)
           | Inr _ \<Rightarrow>
               if fault SysMkIncoming then (s, goto (PcDone (Inl (IOErr SysMkIncoming))) w)
               else (case newPart env s of
                       Inl e \<Rightarrow> (s, goto (PcDone (Inl e)) w)
                     | Inr (_, s) \<Rightarrow> (s, goto PcCopy w)))
      | PcCopy \<Rightarrow>
          if fault SysCopy
          then give_up (Inl (IOErr SysCopy)) w (write_file env part (take (peWrote env) (wData w)) s)
          else (write_file env part (wData w) s, goto PcSync w)
      | PcSync \<Rightarrow> if fault SysSync then give_up (Inl (IOErr SysSync)) w s else (s, goto PcClose w)
      | PcClose \<Rightarrow> if fault SysClose then give_up (Inl (IOErr SysClose)) w s else (s, goto PcCheck w)
      | PcCheck \<Rightarrow>
          (let got = sha256_hex (wData w) in
           if got \<noteq> wDigest w then give_up (Inl (ErrDigestMismatch got)) w s else (s, goto PcStat w))
      | PcStat \<Rightarrow>
          if \<not> fault SysStat \<and> look s target \<noteq> None then give_up (Inr ()) w s
          else (s, goto PcMkTarget w)
      | PcMkTarget \<Rightarrow>
          if fault SysMkTarget then give_up (Inl (IOErr SysMkTarget)) w s else (s, goto PcChmod w)
      | PcChmod \<Rightarrow>
          (case chmod_file env part blobMode s of
             None \<Rightarrow> give_up (Inl (IOErr SysChmod)) w s
           | Some s \<Rightarrow> (s, goto PcRename w))
      | PcRename \<Rightarrow>
          (case rename_file env part target s of
             None \<Rightarrow> give_up (Inl (IOErr SysRename)) w s
           | Some s \<Rightarrow> (s, goto PcSyncDir w))
      | PcSyncDir \<Rightarrow>
          (s, goto (PcDone (if fault SysSyncDir then Inl (IOErr SysSyncDir) else Inr ())) w)
      | PcDone _ \<Rightarrow> (s, w)
      | PcCrashed \<Rightarrow> (s, w))"

declare put_step.simps [simp del]

definition run_put :: "nat \<Rightarrow> writer \<Rightarrow> store \<Rightarrow> store \<times> writer" where
  "run_put n w s = ((\<lambda>(s, w). put_step w s) ^^ n) (s, w)"

text \<open>The machine: any enabled event of any writer, in any order.\<close>

inductive world_step :: "store \<times> writer list \<Rightarrow> store \<times> writer list \<Rightarrow> bool" where
  run: "i < length ws \<Longrightarrow> put_step (ws ! i) s = (s', w') \<Longrightarrow> world_step (s, ws) (s', ws[i := w'])"
| partial: "i < length ws \<Longrightarrow> wPC (ws ! i) = PcCopy \<Longrightarrow>
    world_step (s, ws) (write_file (wEnv (ws ! i)) (part_of (ws ! i)) (take n (wData (ws ! i))) s, ws)"
| crash: "i < length ws \<Longrightarrow> world_step (s, ws) (s, ws[i := goto PcCrashed (ws ! i)])"
| clean: "fst (cleanStaleParts fault now s) = s' \<Longrightarrow> world_step (s, ws) (s', ws)"
| spawn: "wPC w = PcStart \<Longrightarrow> part_of w \<notin> part_of ` set ws \<Longrightarrow> world_step (s, ws) (s, ws @ [w])"

inductive_cases world_stepE: "world_step (s, ws) t"

text \<open>What is known of a writer's part: its content after the copy, its digest after the check,
  its mode after the \<open>chmod\<close>.\<close>

definition after_copy :: "put_pc \<Rightarrow> bool" where
  "after_copy pc = (pc \<in> {PcSync, PcClose, PcCheck, PcStat, PcMkTarget, PcChmod, PcRename})"

definition after_check :: "put_pc \<Rightarrow> bool" where
  "after_check pc = (pc \<in> {PcStat, PcMkTarget, PcChmod, PcRename})"

definition writer_ok :: "store \<Rightarrow> writer \<Rightarrow> bool" where
  "writer_ok s w \<longleftrightarrow>
     (\<forall>f. look s (part_of w) = Some f \<longrightarrow>
        (after_copy (wPC w) \<longrightarrow> fContent f = wData w) \<and> (wPC w = PcRename \<longrightarrow> fMode f = blobMode))
     \<and> (after_check (wPC w) \<longrightarrow> sha256_hex (wData w) = wDigest w)
     \<and> (wPC w \<in> {PcSyncDir, PcDone (Inr ())} \<longrightarrow>
          sha256_hex (wData w) = wDigest w \<and> look s (blob_path (wDigest w)) \<noteq> None)"

definition world_ok :: "store \<times> writer list \<Rightarrow> bool" where
  "world_ok sw \<longleftrightarrow>
     store_ok (fst sw) \<and> distinct (map part_of (snd sw)) \<and> (\<forall>w \<in> set (snd sw). writer_ok (fst sw) w)"

text \<open>A single step writes its own part and, after the check, the target: nothing else.\<close>

definition step_changes :: "writer \<Rightarrow> store \<Rightarrow> store \<Rightarrow> bool" where
  "step_changes w s s' \<longleftrightarrow>
     (\<forall>q. q \<noteq> part_of w \<and> q \<noteq> blob_path (wDigest w) \<longrightarrow> look s' q = look s q)
     \<and> (look s' (blob_path (wDigest w)) = look s (blob_path (wDigest w))
        \<or> wPC w = PcRename \<and> look s (part_of w) \<noteq> None
          \<and> look s' (blob_path (wDigest w)) = look s (part_of w))"

lemmas step_defs = put_step.simps give_up_def goto_def newPart_def write_file_def remove_file_def
  chmod_file_def rename_file_def part_of_def step_changes_def

lemma put_step_changes: "put_step w s = (s', w') \<Longrightarrow> step_changes w s s'"
  by (cases "wPC w") (auto simp: step_defs Let_def split: if_splits sum.splits option.splits)

lemma put_step_same: "put_step w s = (s', w') \<Longrightarrow> part_of w' = part_of w \<and> wDigest w' = wDigest w \<and> wData w' = wData w"
  by (cases "wPC w") (auto simp: step_defs Let_def split: if_splits sum.splits option.splits)

lemma part_of_not_blob [simp]: "part_of w \<noteq> blob_path d" "blob_path d \<noteq> part_of w"
  by (simp_all add: part_of_def)

lemma put_step_writer_ok:
  "put_step w s = (s', w') \<Longrightarrow> writer_ok s w \<Longrightarrow> writer_ok s' w'"
  by (cases "wPC w"; clarsimp simp: step_defs Let_def writer_ok_def after_copy_def after_check_def
       split: if_splits sum.splits option.splits)

lemma put_step_store_ok:
  assumes st: "put_step w s = (s', w')" and ok: "store_ok s" and w: "writer_ok s w"
  shows "store_ok s'"
  unfolding store_ok_def
proof (intro allI impI)
  fix d f assume d: "is_digest_hex d \<and> look s' (blob_path d) = Some f"
  let ?t = "blob_path (wDigest w)"
  have ch: "step_changes w s s'" using st by (rule put_step_changes)
  show "sha256_hex (fContent f) = d \<and> fMode f = blobMode"
  proof (cases "look s (blob_path d) = Some f")
    case True
    then show ?thesis using ok d unfolding store_ok_def by blast
  next
    case False
    then have "blob_path d = ?t" and pc: "wPC w = PcRename" and "look s (part_of w) = Some f"
      using ch d unfolding step_changes_def by (metis part_of_not_blob(2))+
    moreover from this have "sha256_hex (wData w) = wDigest w" "fContent f = wData w" "fMode f = blobMode"
      using w by (auto simp: writer_ok_def after_copy_def after_check_def)
    moreover from this have "is_digest_hex (wDigest w)" by (metis is_digest_sha256_hex)
    ultimately show ?thesis using d blob_path_inj by auto
  qed
qed

text \<open>A writer's knowledge survives what leaves its part alone and removes no blob.\<close>

lemma writer_ok_frame:
  assumes "writer_ok s v" and "\<And>f. look s' (part_of v) = Some f \<Longrightarrow> look s (part_of v) = Some f"
    and "\<And>d. look s (blob_path d) \<noteq> None \<Longrightarrow> look s' (blob_path d) \<noteq> None"
  shows "writer_ok s' v"
  using assms unfolding writer_ok_def by blast

lemma step_keeps_blobs: "step_changes w s s' \<Longrightarrow> look s (blob_path d) \<noteq> None \<Longrightarrow> look s' (blob_path d) \<noteq> None"
  unfolding step_changes_def by (metis part_of_not_blob(2))

lemma world_run:
  assumes ok: "world_ok (s, ws)" and i: "i < length ws" and st: "put_step (ws ! i) s = (s', w')"
  shows "world_ok (s', ws[i := w'])"
proof -
  let ?w = "ws ! i"
  have w: "writer_ok s ?w" "store_ok s" "distinct (map part_of ws)"
    using ok i by (auto simp: world_ok_def)
  have ch: "step_changes ?w s s'" using st by (rule put_step_changes)
  have same: "map part_of (ws[i := w']) = map part_of ws"
    using put_step_same [OF st] i by (simp add: map_update list_update_same_conv)
  have "writer_ok s' v" if "v \<in> set (ws[i := w'])" for v
  proof -
    from that obtain j where j: "j < length ws" "v = ws[i := w'] ! j"
      by (metis in_set_conv_nth length_list_update)
    show ?thesis
    proof (cases "j = i")
      case True
      then show ?thesis using j put_step_writer_ok [OF st w(1)] by simp
    next
      case False
      then have v: "v = ws ! j" "writer_ok s v" using j ok by (auto simp: world_ok_def)
      have "part_of v \<noteq> part_of ?w"
        using w(3) i j(1) False v(1) by (simp add: distinct_conv_nth)
      then have "look s' (part_of v) = look s (part_of v)"
        using ch unfolding step_changes_def by (metis part_of_not_blob(1))
      then show ?thesis using v(2) step_keeps_blobs [OF ch] by (auto intro: writer_ok_frame)
    qed
  qed
  then show ?thesis
    using put_step_store_ok [OF st w(2,1)] same w(3) by (simp add: world_ok_def)
qed

lemma clean_entries_look:
  "clean_entries fault now es s = (s', r) \<Longrightarrow>
     look s' q = look s q \<or> look s' q = None \<and> in_incoming q"
proof (induction es arbitrary: s)
  case (Cons pf es)
  obtain p f where pf: "pf = (p, f)" by (cases pf)
  show ?case
    using Cons.prems Cons.IH [of s] Cons.IH [of "del_file p s"] unfolding pf
    by (auto split: if_splits)
qed simp

lemma cleanStaleParts_look:
  "look (fst (cleanStaleParts fault now s)) q = look s q
   \<or> look (fst (cleanStaleParts fault now s)) q = None \<and> in_incoming q"
  using clean_entries_look by (cases "clean_entries fault now (sFiles s) s") (auto simp: cleanStaleParts_def)

lemma blob_not_incoming [simp]: "\<not> in_incoming (blob_path d)"
  by (simp add: in_incoming_def blob_path_def blobsDir_def incomingDir_def split_on_append)

lemma world_step_ok: "world_step x y \<Longrightarrow> world_ok x \<Longrightarrow> world_ok y"
proof (induction rule: world_step.induct)
  case (run i ws s s' w')
  then show ?case using world_run by blast
next
  case (partial i ws s n)
  let ?w = "ws ! i"
  let ?s = "write_file (wEnv ?w) (part_of ?w) (take n (wData ?w)) s"
  have bl: "look ?s (blob_path d) = look s (blob_path d)" for d
    by (auto simp: write_file_def split: option.splits)
  have "writer_ok ?s v" if v: "v \<in> set ws" for v
  proof (cases "part_of v = part_of ?w")
    case True
    then have "v = ?w" using partial v
      by (metis (no_types, lifting) world_ok_def snd_conv distinct_map inj_on_eq_iff nth_mem)
    then show ?thesis using partial v bl by (auto simp: world_ok_def writer_ok_def after_copy_def after_check_def)
  next
    case False
    have "writer_ok s v" using partial v by (simp add: world_ok_def)
    then show ?thesis
      by (rule writer_ok_frame) (use False bl in \<open>auto simp: write_file_def split: option.splits if_splits\<close>)
  qed
  then show ?case using partial bl by (auto simp: world_ok_def store_ok_def)
next
  case (crash i ws s)
  then have "part_of (goto PcCrashed (ws ! i)) = part_of (ws ! i)" by (simp add: goto_def part_of_def)
  then have "map part_of (ws[i := goto PcCrashed (ws ! i)]) = map part_of ws"
    using crash by (simp add: map_update list_update_same_conv)
  then have "distinct (map part_of (ws[i := goto PcCrashed (ws ! i)]))"
    using crash by (simp add: world_ok_def)
  moreover have "writer_ok s (goto PcCrashed (ws ! i))"
    by (simp add: writer_ok_def goto_def after_copy_def after_check_def)
  ultimately show ?case using crash set_update_subset_insert [of ws i "goto PcCrashed (ws ! i)"]
    by (auto simp: world_ok_def)
next
  case (clean fault now s s' ws)
  have l: "look s' q = look s q \<or> look s' q = None \<and> in_incoming q" for q
    using cleanStaleParts_look [of fault now s q] by (simp add: clean(1))
  then have bl: "look s' (blob_path d) = look s (blob_path d)" for d
    using blob_not_incoming by blast
  have "writer_ok s' v" if "v \<in> set ws" for v
  proof (rule writer_ok_frame)
    show "writer_ok s v" using clean that by (simp add: world_ok_def)
  qed (use l bl in \<open>metis option.distinct(1)\<close>)+
  then show ?case using clean bl by (auto simp: world_ok_def store_ok_def)
next
  case (spawn w ws s)
  then have "writer_ok s w" by (auto simp: writer_ok_def after_copy_def after_check_def)
  then show ?case using spawn by (auto simp: world_ok_def)
qed

interpretation writers: step_system
  "\<lambda>sw. store_ok (fst sw) \<and> snd sw = []" world_step world_ok
proof unfold_locales
  show "world_ok t" if "world_ok s" "world_step s t" for s t
    by (rule world_step_ok [OF that(2,1)])
qed (simp add: world_ok_def)

lemma run_put_Suc: "run_put (Suc n) w s = (case put_step w s of (s', w') \<Rightarrow> run_put n w' s')"
  by (simp add: run_put_def funpow_swap1 split: prod.split)

lemma run_put_done: "wPC w = PcDone res \<Longrightarrow> run_put n w s = (s, w)"
  by (induction n) (simp_all add: run_put_Suc put_step.simps, simp add: run_put_def)

lemma run_put_steps: "run_put n w s = (s', w') \<Longrightarrow> world_step\<^sup>*\<^sup>* (s, [w]) (s', [w'])"
proof (induction n arbitrary: w s)
  case 0
  then show ?case by (simp add: run_put_def)
next
  case (Suc n)
  obtain s1 w1 where st: "put_step w s = (s1, w1)" by (cases "put_step w s")
  then have "world_step (s, [w]) (s1, [w1])"
    using world_step.run [of 0 "[w]" s s1 w1] by simp
  moreover have "world_step\<^sup>*\<^sup>* (s1, [w1]) (s', [w'])"
    using Suc st by (simp add: run_put_Suc)
  ultimately show ?case by (rule converse_rtranclp_into_rtranclp)
qed

subsection \<open>Properties\<close>

definition empty_store :: store where
  "empty_store = \<lparr>sFiles = [], sState = (\<lambda>_. Absent)\<rparr>"

lemma look_empty_store [simp]: "look empty_store p = None"
  by (simp add: empty_store_def look_def)

lemma store_ok_empty [simp]: "store_ok empty_store"
  by (simp add: store_ok_def)

abbreviation calm_env :: "string \<Rightarrow> put_env" where
  "calm_env rnd \<equiv> \<lparr>peFault = (\<lambda>_. False), peWrote = 0, peRand = rnd, peNow = 0\<rparr>"

text \<open>
  C2: whatever system calls fail, \<open>Put\<close> keeps the store's integrity: every file under a digest's
  path still hashes to that digest and is read-only. A reported success means that a verified
  blob is there, and bytes that do not hash to the expected digest are never promoted: the call
  fails and no blob path changes.
\<close>

theorem Put_integrity:
  assumes "store_ok s"
  shows "store_ok (fst (Put env d r s))
    \<and> (snd (Put env d r s) = Inr () \<longrightarrow>
         (\<exists>f. look (fst (Put env d r s)) (blob_path d) = Some f \<and> sha256_hex (fContent f) = d))
    \<and> (sha256_hex r \<noteq> d \<longrightarrow> snd (Put env d r s) \<noteq> Inr ()
         \<and> (\<forall>c. is_digest_hex c \<longrightarrow> look (fst (Put env d r s)) (blob_path c) = look s (blob_path c)))"
proof -
  obtain s' res where put: "Put env d r s = (s', res)" by (cases "Put env d r s")
  have ch: "put_changes env d r s s'" using put by (rule Put_changes)
  have ok': "store_ok s'" using assms ch by (rule store_ok_changes)
  have succ: "is_digest_hex d \<and> sha256_hex r = d \<and> look s' (blob_path d) \<noteq> None" if "res = Inr ()"
    using put that by (intro Put_Inr) simp
  moreover have "look s' (blob_path c) = look s (blob_path c)" if "sha256_hex r \<noteq> d" for c
    using ch that unfolding put_changes_def by (metis part_path_not_blob(2))
  ultimately show ?thesis
    using ok' unfolding put store_ok_def fst_conv snd_conv by blast
qed

lemma Put_integrity_witness:
  "store_ok (fst (Put (calm_env ''12345678'') (sha256_hex ''weights'') ''weights'' empty_store))"
  using Put_integrity [OF store_ok_empty] by blast

text \<open>
  With no failing call and a fresh part name, \<open>Put\<close> on a valid digest is exactly this: data
  with that digest ends in success with the blob in place (an existing blob wins, untouched);
  other data ends in \<open>ErrDigestMismatch\<close> with every file as before; no part is left behind.
\<close>

lemma Put_outcome:
  assumes "peFault env = (\<lambda>_. False)" and "look s (part_path env) = None" and "is_digest_hex d"
  shows "snd (Put env d r s) =
           (if sha256_hex r = d then Inr () else Inl (ErrDigestMismatch (sha256_hex r)))
    \<and> look (fst (Put env d r s)) =
        (if sha256_hex r = d \<and> look s (blob_path d) = None
         then (look s)(blob_path d \<mapsto> \<lparr>fContent = r, fMode = blobMode, fTime = peNow env\<rparr>)
         else look s)"
proof -
  have "BlobPath d = Inr (blob_path d)" using assms(3) by (simp add: BlobPath_Inr)
  then show ?thesis
    using assms(1,2) by (auto simp: put_defs fun_eq_iff)
qed

lemma Put_outcome_witness:
  "snd (Put (calm_env ''12345678'') (sha256_hex ''weights'') ''weights'' empty_store) = Inr ()"
  by (subst Put_outcome [THEN conjunct1]) simp_all

text \<open>
  \<open>Put\<close> is the ten-step run of the step machine: cutting the routine at its system calls
  loses nothing, so what holds of every interleaving of the machine's steps holds of \<open>Put\<close>.
\<close>

lemma Put_is_run:
  "run_put 10 \<lparr>wEnv = env, wDigest = d, wData = r, wPC = PcStart\<rparr> s
   = (fst (Put env d r s), \<lparr>wEnv = env, wDigest = d, wData = r, wPC = PcDone (snd (Put env d r s))\<rparr>)"
proof (cases "is_digest_hex d")
  case True
  then show ?thesis
    by (simp add: numeral_eq_Suc run_put_Suc run_put_done put_step.simps give_up_def goto_def
      part_of_def Put_def newPart_def Let_def BlobPath_valid split: option.split)
next
  case False
  then obtain e where "BlobPath d = Inl e" by (cases "BlobPath d") (auto simp: BlobPath_Inr)
  then show ?thesis
    by (simp add: numeral_eq_Suc run_put_Suc run_put_done put_step.simps goto_def Put_def Let_def)
qed

text \<open>
  C3: any number of concurrent writers, crashing at any point, with any failing calls, partial
  copies and cleaning of stale parts in between, leave a store in which every blob hashes to its
  name; and a writer that reported success has its verified blob in the store for good. (A writer starts with a part name
  that no other has: sixteen random hex digits, opened with \<open>O_EXCL\<close>.)
\<close>

theorem writers_integrity:
  assumes "store_ok s" and "world_step\<^sup>*\<^sup>* (s, []) (s', ws)"
  shows "store_ok s' \<and>
    (\<forall>w \<in> set ws. wPC w = PcDone (Inr ()) \<longrightarrow>
       (\<exists>f. look s' (blob_path (wDigest w)) = Some f \<and> sha256_hex (fContent f) = wDigest w))"
proof -
  have "world_ok (s', ws)"
    using assms writers.reachable_inv [of "(s, [])" "(s', ws)"] by simp
  then have ok: "store_ok s'" "\<forall>w \<in> set ws. writer_ok s' w" by (auto simp: world_ok_def)
  have "\<exists>f. look s' (blob_path (wDigest w)) = Some f \<and> sha256_hex (fContent f) = wDigest w"
    if "w \<in> set ws" "wPC w = PcDone (Inr ())" for w
  proof -
    have w: "sha256_hex (wData w) = wDigest w" "look s' (blob_path (wDigest w)) \<noteq> None"
      using ok(2) that by (auto simp: writer_ok_def)
    then have "is_digest_hex (wDigest w)" by (metis is_digest_sha256_hex)
    then show ?thesis using w(2) ok(1) unfolding store_ok_def by blast
  qed
  then show ?thesis using ok(1) by blast
qed


lemma writers_integrity_witness:
  "\<exists>s'. store_ok s' \<and> (\<exists>f. look s' (blob_path (sha256_hex ''weights'')) = Some f
     \<and> sha256_hex (fContent f) = sha256_hex ''weights'')"
proof -
  let ?w = "\<lparr>wEnv = calm_env ''12345678'', wDigest = sha256_hex ''weights'', wData = ''weights'', wPC = PcStart\<rparr>"
  obtain s' where s': "run_put 10 ?w empty_store = (s', ?w\<lparr>wPC := PcDone (Inr ())\<rparr>)"
  proof -
    have "\<exists>s'. run_put 10 ?w empty_store = (s', ?w\<lparr>wPC := PcDone (Inr ())\<rparr>)"
      by (simp add: numeral_eq_Suc run_put_Suc run_put_done put_step.simps give_up_def goto_def
          part_of_def newPart_def Let_def BlobPath_valid write_file_def
          chmod_file_def rename_file_def)
    with that show thesis by blast
  qed
  have "world_step (empty_store, []) (empty_store, [] @ [?w])"
    by (rule world_step.spawn) simp_all
  then have "world_step\<^sup>*\<^sup>* (empty_store, []) (s', [?w\<lparr>wPC := PcDone (Inr ())\<rparr>])"
    using run_put_steps [OF s'] by (simp add: converse_rtranclp_into_rtranclp)
  from writers_integrity [OF store_ok_empty this] show ?thesis by auto
qed

text \<open>
  A digest names its blob and nothing else: a path is only ever given to 64 lower-case hex
  digits, it stays inside \<open>blobs/sha256\<close> (two path segments of 2 and 62 hex digits below it, so
  no crafted digest leaves the directory), and different digests have different paths.
\<close>

lemma BlobPath_safe:
  assumes "BlobPath d = Inr p"
  shows "length d = 64 \<and> list_all is_lhex d
    \<and> split_on (CHR ''/'') p = [''blobs'', ''sha256'', take 2 d, drop 2 d]
    \<and> length (take 2 d) = 2 \<and> length (drop 2 d) = 62
    \<and> (\<forall>c. BlobPath c = Inr p \<longleftrightarrow> c = d)"
proof -
  have d: "is_digest_hex d" "p = blob_path d" using assms by (auto simp: BlobPath_Inr)
  then show ?thesis
    using split_blob_path [OF d(1)] blob_path_inj
    by (auto simp: BlobPath_Inr) (auto simp: is_digest_hex_def)
qed

lemma BlobPath_safe_witness:
  "split_on (CHR ''/'') (blob_path (sha256_hex ''weights''))
     = [''blobs'', ''sha256'', take 2 (sha256_hex ''weights''), drop 2 (sha256_hex ''weights'')]"
proof -
  have "BlobPath (sha256_hex ''weights'') = Inr (blob_path (sha256_hex ''weights''))"
    by (simp add: BlobPath_Inr)
  from BlobPath_safe [OF this] show ?thesis by blast
qed

end
