(* ===== verification/CasState.thy ===== *)
theory CasState
  imports Cas
begin

text \<open>
  \<open>internal/cas/state.go\<close>, the verification of the whole store (\<open>cas.go\<close>, \<open>VerifyAll\<close>) and the
  \<open>cas verify\<close> command (\<open>cmd/shardhive\<close>, \<open>runVerify\<close>). A state file is modelled by what
  decoding it gives: absent, unreadable, not JSON, or a map of strings. The load, mutate, save
  chain is one step, as the code's mutex makes it.
\<close>

subsection \<open>The maps under \<open>state/\<close>\<close>

definition namespacesFile :: string where "namespacesFile = ''namespaces.json''"
definition tagsFile :: string where "tagsFile = ''tags.json''"
definition distributionFile :: string where "distributionFile = ''distribution.json''"
definition hintsFile :: string where "hintsFile = ''swarm-hints.json''"

lemmas state_file_defs = namespacesFile_def tagsFile_def distributionFile_def hintsFile_def

definition loadMap :: "store \<Rightarrow> string \<Rightarrow> cas_error + (string \<times> string) list" where
  "loadMap s name =
     (case sState s name of
        Absent \<Rightarrow> Inr []
      | Unreadable \<Rightarrow> Inl (StateRead name)
      | Corrupt \<Rightarrow> Inl (StateParse name)
      | Holds m \<Rightarrow> Inr m)"

text \<open>Write a temporary file, sync it, rename it, sync the directory: only the rename replaces.\<close>

definition atomicWrite :: "(syscall \<Rightarrow> bool) \<Rightarrow> string \<Rightarrow> (string \<times> string) list \<Rightarrow> store \<Rightarrow> store \<times> (cas_error + unit)" where
  "atomicWrite fault name m s =
     (if fault SysCreate then (s, Inl (IOErr SysCreate))
      else if fault SysWrite then (s, Inl (IOErr SysWrite))
      else if fault SysSync then (s, Inl (IOErr SysSync))
      else if fault SysClose then (s, Inl (IOErr SysClose))
      else if fault SysRename then (s, Inl (IOErr SysRename))
      else
        let s = s\<lparr>sState := (sState s)(name := Holds m)\<rparr> in
        if fault SysSyncDir then (s, Inl (IOErr SysSyncDir)) else (s, Inr ()))"

definition updateMap ::
  "(syscall \<Rightarrow> bool) \<Rightarrow> string \<Rightarrow> ((string \<times> string) list \<Rightarrow> (string \<times> string) list) \<Rightarrow> store
     \<Rightarrow> store \<times> (cas_error + unit)" where
  "updateMap fault name mutate s =
     (case loadMap s name of
        Inl e \<Rightarrow> (s, Inl e)
      | Inr m \<Rightarrow> atomicWrite fault name (mutate m) s)"

definition get_str :: "(string \<times> string) list \<Rightarrow> string \<Rightarrow> string" where
  "get_str m k = (case map_of m k of None \<Rightarrow> [] | Some v \<Rightarrow> v)"

definition Namespaces :: "store \<Rightarrow> cas_error + (string \<times> string) list" where
  "Namespaces s = loadMap s namespacesFile"

definition SetNamespace :: "(syscall \<Rightarrow> bool) \<Rightarrow> string \<Rightarrow> string \<Rightarrow> store \<Rightarrow> store \<times> (cas_error + unit)" where
  "SetNamespace fault name digest s =
     (if \<not> ValidNamespaceKey name then (s, Inl (InvalidNamespaceKey name))
      else case NormalizeDigest digest of
             Inl e \<Rightarrow> (s, Inl (InvalidDigest name e))
           | Inr d \<Rightarrow> updateMap fault namespacesFile (AList.update name d) s)"

definition DeleteNamespace :: "(syscall \<Rightarrow> bool) \<Rightarrow> string \<Rightarrow> store \<Rightarrow> store \<times> (cas_error + unit)" where
  "DeleteNamespace fault name s = updateMap fault namespacesFile (AList.delete name) s"

definition TagAliases :: "store \<Rightarrow> cas_error + (string \<times> string) list" where
  "TagAliases s = loadMap s tagsFile"

definition DistributionLinks :: "store \<Rightarrow> cas_error + (string \<times> string) list" where
  "DistributionLinks s = loadMap s distributionFile"

definition SetDistributionLink :: "(syscall \<Rightarrow> bool) \<Rightarrow> string \<Rightarrow> string \<Rightarrow> store \<Rightarrow> store \<times> (cas_error + unit)" where
  "SetDistributionLink fault manifestDigest recordDigest s =
     (case NormalizeDigest manifestDigest of
        Inl e \<Rightarrow> (s, Inl (LinkManifestDigest e))
      | Inr md \<Rightarrow>
          if recordDigest = [] then updateMap fault distributionFile (AList.delete md) s
          else case NormalizeDigest recordDigest of
                 Inl e \<Rightarrow> (s, Inl (LinkRecordDigest e))
               | Inr rd \<Rightarrow> updateMap fault distributionFile (AList.update md rd) s)"

definition HintsFor :: "store \<Rightarrow> string \<Rightarrow> cas_error + string" where
  "HintsFor s manifestDigest =
     (case NormalizeDigest manifestDigest of
        Inl e \<Rightarrow> Inl (HintsDigest e)
      | Inr md \<Rightarrow> (case loadMap s hintsFile of Inl e \<Rightarrow> Inl e | Inr m \<Rightarrow> Inr (get_str m md)))"

definition SetHints :: "(syscall \<Rightarrow> bool) \<Rightarrow> string \<Rightarrow> string \<Rightarrow> store \<Rightarrow> store \<times> (cas_error + unit)" where
  "SetHints fault manifestDigest hintsJSON s =
     (case NormalizeDigest manifestDigest of
        Inl e \<Rightarrow> (s, Inl (HintsDigest e))
      | Inr md \<Rightarrow>
          if hintsJSON = [] then updateMap fault hintsFile (AList.delete md) s
          else updateMap fault hintsFile (AList.update md hintsJSON) s)"

definition RecordDigestForManifest :: "store \<Rightarrow> string \<Rightarrow> cas_error + string" where
  "RecordDigestForManifest s manifestDigest =
     (case NormalizeDigest manifestDigest of
        Inl e \<Rightarrow> Inl (LinkManifestDigest e)
      | Inr md \<Rightarrow> (case loadMap s distributionFile of Inl e \<Rightarrow> Inl e | Inr m \<Rightarrow> Inr (get_str m md)))"

definition tag_key :: "string \<Rightarrow> string \<Rightarrow> string" where
  "tag_key nsName tag = nsName @ '':'' @ tag"

definition SetTagAlias :: "(syscall \<Rightarrow> bool) \<Rightarrow> string \<Rightarrow> string \<Rightarrow> string \<Rightarrow> store \<Rightarrow> store \<times> (cas_error + unit)" where
  "SetTagAlias fault nsName tag digest s =
     (if \<not> ValidNamespaceKey nsName then (s, Inl (InvalidNamespaceKey nsName))
      else case ValidTag tag of
        Some e \<Rightarrow> (s, Inl (InvalidTag tag e))
      | None \<Rightarrow>
          (case NormalizeDigest digest of
             Inl e \<Rightarrow> (s, Inl (InvalidDigest tag e))
           | Inr d \<Rightarrow> updateMap fault tagsFile (AList.update (tag_key nsName tag) d) s))"

definition DeleteTagAlias :: "(syscall \<Rightarrow> bool) \<Rightarrow> string \<Rightarrow> string \<Rightarrow> store \<Rightarrow> store \<times> (cas_error + unit)" where
  "DeleteTagAlias fault nsName tag s = updateMap fault tagsFile (AList.delete (tag_key nsName tag)) s"

definition stateDigestHex :: "string \<Rightarrow> string" where
  "stateDigestHex d = TrimPrefix d DigestSchemePrefix"

subsection \<open>Verification of the whole store\<close>

datatype state_error =
    NamespacesErr cas_error | TagsErr cas_error | DistributionErr cas_error
  | LinkKeyErr string ref_error | LinkValueErr string string ref_error | HintsErr cas_error

record verify_result =
  Mismatched :: "string list"
  Missing :: "string list"
  StateErrors :: "state_error list"

definition dir_name :: "string \<Rightarrow> string" where
  "dir_name p = join_with ''/'' (butlast (split_on (CHR ''/'') p))"

text \<open>\<open>WalkDir\<close> visits the files below the directory, the entries of each directory in lexical order.\<close>

definition blob_walk :: "store \<Rightarrow> string list" where
  "blob_walk s =
     sort_key (split_on (CHR ''/'')) (remdups (filter (\<lambda>p. HasPrefix p (blobsDir @ ''/'')) (map fst (sFiles s))))"

fun walk_blobs :: "(string \<Rightarrow> bool) \<Rightarrow> store \<Rightarrow> string list \<Rightarrow> string list \<Rightarrow> string list \<times> (cas_error + unit)" where
  "walk_blobs bad s [] acc = (acc, Inr ())"
| "walk_blobs bad s (p # ps) acc =
     (if bad (dir_name p) then (acc, Inl (IOErr SysReadDir))
      else
        let digest = dir_base p @ base_name p in
        case validateDigest digest of
          Inl _ \<Rightarrow> walk_blobs bad s ps acc
        | Inr _ \<Rightarrow>
            (case Verify bad s digest of
               Inr _ \<Rightarrow> walk_blobs bad s ps acc
             | Inl (ErrDigestMismatch _) \<Rightarrow> walk_blobs bad s ps (acc @ [digest])
             | Inl e \<Rightarrow> (acc, Inl e)))"

text \<open>The distribution links: one entry gives missing blobs or a state error.\<close>

definition link_check :: "(string \<Rightarrow> bool) \<Rightarrow> store \<Rightarrow> string \<times> string \<Rightarrow> string list \<times> state_error list" where
  "link_check bad s l =
     (let (md, rd) = l in
      case NormalizeDigest md of
        Inl e \<Rightarrow> ([], [LinkKeyErr md e])
      | Inr _ \<Rightarrow>
          (case NormalizeDigest rd of
             Inl e \<Rightarrow> ([], [LinkValueErr md rd e])
           | Inr _ \<Rightarrow>
               ((if \<not> Has bad s (stateDigestHex rd) then [stateDigestHex rd] else [])
                  @ (if \<not> Has bad s (stateDigestHex md) then [stateDigestHex md] else []), [])))"

definition err_list :: "('e \<Rightarrow> 'x) \<Rightarrow> 'e + 'a \<Rightarrow> 'x list" where
  "err_list f r = (case r of Inl e \<Rightarrow> [f e] | Inr _ \<Rightarrow> [])"

definition or_empty :: "'e + 'a list \<Rightarrow> 'a list" where
  "or_empty r = (case r of Inl _ \<Rightarrow> [] | Inr m \<Rightarrow> m)"

definition VerifyAll :: "(string \<Rightarrow> bool) \<Rightarrow> store \<Rightarrow> verify_result \<times> (cas_error + unit)" where
  "VerifyAll bad s =
     (if bad blobsDir
      then (\<lparr>Mismatched = [], Missing = [], StateErrors = []\<rparr>, Inl (IOErr SysReadDir))
      else
      case walk_blobs bad s (blob_walk s) [] of
        (mm, Inl e) \<Rightarrow> (\<lparr>Mismatched = mm, Missing = [], StateErrors = []\<rparr>, Inl e)
      | (mm, Inr _) \<Rightarrow>
          let ns = Namespaces s; tags = TagAliases s; links = DistributionLinks s;
              checks = map (link_check bad s) (or_empty links);
              refs = remdups (map stateDigestHex (map snd (or_empty ns) @ map snd (or_empty tags)))
          in (\<lparr>Mismatched = mm,
               Missing = sort (concat (map fst checks) @ filter (\<lambda>d. \<not> Has bad s d) refs),
               StateErrors = err_list NamespacesErr ns @ err_list TagsErr tags
                 @ err_list DistributionErr links @ concat (map snd checks)
                 @ err_list HintsErr (loadMap s hintsFile)\<rparr>, Inr ()))"

subsection \<open>The \<open>cas verify\<close> command\<close>

definition exitVerifyClean :: nat where "exitVerifyClean = 0"
definition exitVerifyMismatch :: nat where "exitVerifyMismatch = 1"
definition exitVerifyMissing :: nat where "exitVerifyMissing = 2"

definition normalizeVerifyArg :: "string \<Rightarrow> string" where
  "normalizeVerifyArg arg = TrimPrefix arg ''sha256:''"

datatype verify_line =
    FailErr cas_error | OkDigest string | FailMismatch string | FailMissing string
  | WarnState state_error | Summary nat nat nat | AllClean | Stderr cas_error

definition runVerify ::
  "(string \<Rightarrow> syscall \<Rightarrow> bool) \<Rightarrow> int \<Rightarrow> (string \<Rightarrow> bool) \<Rightarrow> string \<Rightarrow> store \<Rightarrow> store \<times> verify_line list \<times> nat" where
  "runVerify fault now bad arg s =
     (case OpenStore fault now s of
        (s, Inl e) \<Rightarrow> (s, [Stderr e], exitVerifyMissing)
      | (s, Inr _) \<Rightarrow>
        if arg \<noteq> ''--all'' then
          (let d = normalizeVerifyArg arg in
           case Verify bad s d of
             Inl e \<Rightarrow> (s, [FailErr e],
               case e of ErrDigestMismatch _ \<Rightarrow> exitVerifyMismatch | _ \<Rightarrow> exitVerifyMissing)
           | Inr _ \<Rightarrow> (s, [OkDigest d], exitVerifyClean))
        else
          (case VerifyAll bad s of
             (_, Inl e) \<Rightarrow> (s, [Stderr e], exitVerifyMissing)
           | (res, Inr _) \<Rightarrow>
               let lines = map FailMismatch (Mismatched res) @ map FailMissing (Missing res)
                     @ map WarnState (StateErrors res)
                     @ [Summary (length (Mismatched res)) (length (Missing res)) (length (StateErrors res))]
               in if Mismatched res \<noteq> [] then (s, lines, exitVerifyMismatch)
                  else if Missing res \<noteq> [] then (s, lines, exitVerifyMissing)
                  else (s, lines @ [AllClean], exitVerifyClean)))"

subsection \<open>Lemmas on the state maps\<close>

abbreviation no_fault :: "'a \<Rightarrow> bool" where
  "no_fault \<equiv> \<lambda>_. False"

lemma atomicWrite_cases:
  "atomicWrite fault name m s = (s', r) \<Longrightarrow>
     (s' = s \<and> (\<exists>e. r = Inl (IOErr e) \<and> e \<noteq> SysSyncDir))
     \<or> (s' = s\<lparr>sState := (sState s)(name := Holds m)\<rparr> \<and> (r = Inr () \<or> r = Inl (IOErr SysSyncDir)))"
  by (auto simp: atomicWrite_def Let_def split: if_splits)

lemma updateMap_cases:
  assumes "updateMap fault name f s = (s', r)"
  shows "(s' = s \<and> r \<noteq> Inr ())
     \<or> (\<exists>m. loadMap s name = Inr m \<and> s' = s\<lparr>sState := (sState s)(name := Holds (f m))\<rparr>)"
proof (cases "loadMap s name")
  case (Inl e)
  then show ?thesis using assms by (auto simp: updateMap_def)
next
  case (Inr m)
  then have "atomicWrite fault name (f m) s = (s', r)" using assms by (simp add: updateMap_def)
  from atomicWrite_cases [OF this] show ?thesis using Inr by auto
qed

lemma updateMap_Inr:
  assumes "updateMap fault name f s = (s', Inr ())"
  obtains m where "loadMap s name = Inr m" "s' = s\<lparr>sState := (sState s)(name := Holds (f m))\<rparr>"
  using updateMap_cases [OF assms] by blast

lemma updateMap_no_fault:
  "loadMap s name = Inr m \<Longrightarrow>
     updateMap no_fault name f s = (s\<lparr>sState := (sState s)(name := Holds (f m))\<rparr>, Inr ())"
  by (simp add: updateMap_def atomicWrite_def Let_def)

lemma loadMap_update:
  "loadMap (s\<lparr>sState := (sState s)(name := Holds m)\<rparr>) name' = (if name' = name then Inr m else loadMap s name')"
  by (simp add: loadMap_def)

lemma state_files_distinct [simp]:
  "namespacesFile \<noteq> tagsFile" "namespacesFile \<noteq> distributionFile" "namespacesFile \<noteq> hintsFile"
  "tagsFile \<noteq> namespacesFile" "tagsFile \<noteq> distributionFile" "tagsFile \<noteq> hintsFile"
  "distributionFile \<noteq> namespacesFile" "distributionFile \<noteq> tagsFile" "distributionFile \<noteq> hintsFile"
  "hintsFile \<noteq> namespacesFile" "hintsFile \<noteq> tagsFile" "hintsFile \<noteq> distributionFile"
  by (simp_all add: state_file_defs)

lemma NormalizeDigest_Inr: "NormalizeDigest s = Inr d \<Longrightarrow> IsDigest d"
  by (auto simp: NormalizeDigest_def Let_def split: if_splits)

lemma get_str_update [simp]: "get_str (AList.update k v m) j = (if j = k then v else get_str m j)"
  by (simp add: get_str_def update_conv')

lemma get_str_delete [simp]: "get_str (AList.delete k m) j = (if j = k then [] else get_str m j)"
  by (simp add: get_str_def delete_conv')

subsection \<open>The state is well formed under any sequence of operations\<close>

datatype state_op =
    OpSetNamespace string string | OpDeleteNamespace string
  | OpSetTagAlias string string string | OpDeleteTagAlias string string
  | OpSetDistributionLink string string | OpSetHints string string

fun exec_op :: "(syscall \<Rightarrow> bool) \<Rightarrow> state_op \<Rightarrow> store \<Rightarrow> store \<times> (cas_error + unit)" where
  "exec_op fault (OpSetNamespace n d) s = SetNamespace fault n d s"
| "exec_op fault (OpDeleteNamespace n) s = DeleteNamespace fault n s"
| "exec_op fault (OpSetTagAlias n t d) s = SetTagAlias fault n t d s"
| "exec_op fault (OpDeleteTagAlias n t) s = DeleteTagAlias fault n t s"
| "exec_op fault (OpSetDistributionLink m r) s = SetDistributionLink fault m r s"
| "exec_op fault (OpSetHints m h) s = SetHints fault m h s"

definition map_ok :: "(string \<Rightarrow> bool) \<Rightarrow> (string \<Rightarrow> bool) \<Rightarrow> state_file \<Rightarrow> bool" where
  "map_ok kok vok sf =
     (case sf of
        Holds m \<Rightarrow> distinct (map fst m) \<and> list_all (\<lambda>(k, v). kok k \<and> vok v) m
      | Absent \<Rightarrow> True
      | _ \<Rightarrow> False)"

definition tag_key_ok :: "string \<Rightarrow> bool" where
  "tag_key_ok k =
     (case cut_at (CHR '':'') k of
        None \<Rightarrow> False
      | Some (nsName, tag) \<Rightarrow> ValidNamespaceKey nsName \<and> ValidTag tag = None)"

definition state_ok :: "store \<Rightarrow> bool" where
  "state_ok s \<longleftrightarrow>
     map_ok ValidNamespaceKey IsDigest (sState s namespacesFile)
     \<and> map_ok tag_key_ok IsDigest (sState s tagsFile)
     \<and> map_ok IsDigest IsDigest (sState s distributionFile)
     \<and> map_ok IsDigest (\<lambda>h. h \<noteq> []) (sState s hintsFile)"

lemma set_alist_update: "(k, v) \<in> set (AList.update k' v' m) \<Longrightarrow> (k = k' \<and> v = v') \<or> (k, v) \<in> set m"
  by (induction m) (auto split: if_splits)

lemma map_ok_update:
  "map_ok kok vok (Holds m) \<Longrightarrow> kok k \<Longrightarrow> vok v \<Longrightarrow> map_ok kok vok (Holds (AList.update k v m))"
  by (auto simp: map_ok_def list_all_iff distinct_update dest!: set_alist_update)

lemma set_alist_delete: "x \<in> set (AList.delete k m) \<Longrightarrow> x \<in> set m"
  by (auto simp: AList.delete_eq)

lemma map_ok_delete: "map_ok kok vok (Holds m) \<Longrightarrow> map_ok kok vok (Holds (AList.delete k m))"
  using set_alist_delete [of _ k m] by (force simp: map_ok_def list_all_iff AList.distinct_delete)

lemma map_ok_loaded: "loadMap s name = Inr m \<Longrightarrow> map_ok kok vok (sState s name) \<Longrightarrow> map_ok kok vok (Holds m)"
  by (auto simp: loadMap_def map_ok_def split: state_file.splits)

lemma updateMap_map_ok:
  assumes "updateMap fault name f s = (s', r)" and "map_ok kok vok (sState s nm)"
    and "\<And>m. nm = name \<Longrightarrow> map_ok kok vok (Holds m) \<Longrightarrow> map_ok kok vok (Holds (f m))"
  shows "map_ok kok vok (sState s' nm)"
  using updateMap_cases [OF assms(1)] assms(2,3) map_ok_loaded [of s nm _ kok vok] by fastforce

lemma ValidNamespaceKey_no_colon: "ValidNamespaceKey n \<Longrightarrow> CHR '':'' \<notin> set n"
  by (auto simp: ValidNamespaceKey_def ValidNS_def ValidName_def cut_at_Some isAtom_notin
      split: option.splits if_splits)

lemma tag_key_ok_tag_key: "ValidNamespaceKey n \<Longrightarrow> ValidTag t = None \<Longrightarrow> tag_key_ok (tag_key n t)"
  by (simp add: tag_key_ok_def tag_key_def cut_at_append ValidNamespaceKey_no_colon)

lemma exec_op_state_ok:
  assumes "state_ok s"
  shows "state_ok (fst (exec_op fault op s))"
proof -
  have upd: "state_ok s'" if "updateMap fault name f s = (s', r)"
    "\<And>m. name = namespacesFile \<Longrightarrow> map_ok ValidNamespaceKey IsDigest (Holds m) \<Longrightarrow> map_ok ValidNamespaceKey IsDigest (Holds (f m))"
    "\<And>m. name = tagsFile \<Longrightarrow> map_ok tag_key_ok IsDigest (Holds m) \<Longrightarrow> map_ok tag_key_ok IsDigest (Holds (f m))"
    "\<And>m. name = distributionFile \<Longrightarrow> map_ok IsDigest IsDigest (Holds m) \<Longrightarrow> map_ok IsDigest IsDigest (Holds (f m))"
    "\<And>m. name = hintsFile \<Longrightarrow> map_ok IsDigest (\<lambda>h. h \<noteq> []) (Holds m) \<Longrightarrow> map_ok IsDigest (\<lambda>h. h \<noteq> []) (Holds (f m))"
    for name f s' r
    unfolding state_ok_def
    using assms that(2-5) by (auto simp: state_ok_def intro: updateMap_map_ok [OF that(1)])
  have upd': "state_ok (fst (updateMap fault name f s))" if
    "\<And>m. name = namespacesFile \<Longrightarrow> map_ok ValidNamespaceKey IsDigest (Holds m) \<Longrightarrow> map_ok ValidNamespaceKey IsDigest (Holds (f m))"
    "\<And>m. name = tagsFile \<Longrightarrow> map_ok tag_key_ok IsDigest (Holds m) \<Longrightarrow> map_ok tag_key_ok IsDigest (Holds (f m))"
    "\<And>m. name = distributionFile \<Longrightarrow> map_ok IsDigest IsDigest (Holds m) \<Longrightarrow> map_ok IsDigest IsDigest (Holds (f m))"
    "\<And>m. name = hintsFile \<Longrightarrow> map_ok IsDigest (\<lambda>h. h \<noteq> []) (Holds m) \<Longrightarrow> map_ok IsDigest (\<lambda>h. h \<noteq> []) (Holds (f m))"
    for name f
    using upd [of name f "fst (updateMap fault name f s)" "snd (updateMap fault name f s)"] that by simp
  show ?thesis
    by (cases op)
      (auto simp: SetNamespace_def DeleteNamespace_def SetTagAlias_def DeleteTagAlias_def
        SetDistributionLink_def SetHints_def assms tag_key_ok_tag_key
        intro!: upd' map_ok_update map_ok_delete intro: NormalizeDigest_Inr
        split: sum.split option.split)
qed

definition state_step :: "store \<Rightarrow> store \<Rightarrow> bool" where
  "state_step s t \<longleftrightarrow> (\<exists>fault op. t = fst (exec_op fault op s))"

interpretation state: step_system "\<lambda>s. s = empty_store" state_step state_ok
  by unfold_locales
    (auto simp: state_step_def exec_op_state_ok, simp add: state_ok_def map_ok_def empty_store_def)

lemma exec_op_shape:
  "(\<exists>e. exec_op fault op s = (s, Inl e))
   \<or> (\<exists>name f. name \<in> {namespacesFile, tagsFile, distributionFile, hintsFile}
        \<and> exec_op fault op s = updateMap fault name f s)"
  by (cases op;
      simp add: SetNamespace_def DeleteNamespace_def SetTagAlias_def DeleteTagAlias_def
        SetDistributionLink_def SetHints_def split: sum.split option.split; blast)

subsection \<open>What the walk finds\<close>

definition path_digest :: "string \<Rightarrow> string" where
  "path_digest p = dir_base p @ base_name p"

text \<open>Files whose directory and file name spell a digest lie where that digest's blob lies.\<close>

definition blobs_placed :: "store \<Rightarrow> bool" where
  "blobs_placed s \<longleftrightarrow>
     (\<forall>p \<in> set (blob_walk s). is_digest_hex (path_digest p) \<longrightarrow> p = blob_path (path_digest p))"

definition corrupt :: "store \<Rightarrow> string \<Rightarrow> bool" where
  "corrupt s d \<longleftrightarrow> is_digest_hex d \<and> (\<exists>f. look s (blob_path d) = Some f \<and> sha256_hex (fContent f) \<noteq> d)"

definition present :: "store \<Rightarrow> string \<Rightarrow> bool" where
  "present s d \<longleftrightarrow> is_digest_hex d \<and> look s (blob_path d) \<noteq> None"

definition referenced :: "store \<Rightarrow> string set" where
  "referenced s =
     {d. \<exists>m k v. (Namespaces s = Inr m \<or> TagAliases s = Inr m) \<and> (k, v) \<in> set m \<and> d = stateDigestHex v}
     \<union> {d. \<exists>m md rd x y. DistributionLinks s = Inr m \<and> (md, rd) \<in> set m
          \<and> NormalizeDigest md = Inr x \<and> NormalizeDigest rd = Inr y \<and> d \<in> {stateDigestHex md, stateDigestHex rd}}"

lemma Has_present [simp]: "Has no_fault s d \<longleftrightarrow> present s d"
  by (auto simp: Has_def present_def BlobPath_Inr dest: BlobPath_Inl split: sum.split)

lemma path_digest_blob [simp]: "is_digest_hex d \<Longrightarrow> path_digest (blob_path d) = d"
  by (simp add: path_digest_def dir_base_def base_name_def split_blob_path)

lemma set_blob_walk: "p \<in> set (blob_walk s) \<longleftrightarrow> HasPrefix p (blobsDir @ ''/'') \<and> look s p \<noteq> None"
  by (auto simp: blob_walk_def look_def map_of_eq_None_iff)

lemma blob_in_walk: "look s (blob_path d) \<noteq> None \<Longrightarrow> blob_path d \<in> set (blob_walk s)"
  by (auto simp: set_blob_walk blob_path_def HasPrefix_iff)

lemma walk_blobs_placed:
  assumes "\<And>p. p \<in> set ps \<Longrightarrow> look s p \<noteq> None \<and> (is_digest_hex (path_digest p) \<longrightarrow> p = blob_path (path_digest p))"
  shows "walk_blobs no_fault s ps acc
    = (acc @ filter (corrupt s) (map path_digest ps), Inr ())"
  using assms
proof (induction ps arbitrary: acc)
  case (Cons p ps)
  let ?d = "path_digest p"
  have pd: "dir_base p @ base_name p = ?d" by (simp add: path_digest_def)
  have IH: "walk_blobs no_fault s ps a = (a @ filter (corrupt s) (map path_digest ps), Inr ())" for a
    using Cons by simp
  show ?case
  proof (cases "is_digest_hex ?d")
    case False
    then obtain e where "validateDigest ?d = Inl e"
      using validateDigest_iff [of ?d] by (cases "validateDigest ?d") auto
    moreover have "\<not> corrupt s ?d" using False by (simp add: corrupt_def)
    ultimately show ?thesis using IH by (simp add: Let_def pd)
  next
    case True
    then obtain f where f: "look s (blob_path ?d) = Some f" using Cons.prems [of p] by auto
    then have "Verify no_fault s ?d =
        (if sha256_hex (fContent f) \<noteq> ?d then Inl (ErrDigestMismatch (sha256_hex (fContent f))) else Inr ())"
      using True by (simp add: Verify_def OpenBlob_def BlobPath_valid Let_def)
    moreover have "corrupt s ?d \<longleftrightarrow> sha256_hex (fContent f) \<noteq> ?d"
      using f True by (simp add: corrupt_def)
    ultimately show ?thesis using IH True by (simp add: Let_def pd)
  qed
qed simp

lemma set_links_missing:
  "set (concat (map fst (map (link_check no_fault s) m)))
   = {d. \<exists>md rd x y. (md, rd) \<in> set m \<and> NormalizeDigest md = Inr x \<and> NormalizeDigest rd = Inr y
        \<and> d \<in> {stateDigestHex md, stateDigestHex rd} \<and> \<not> present s d}"
  by (force simp: link_check_def Let_def split: sum.splits prod.splits if_splits)

lemma or_empty_set: "x \<in> set (or_empty r) \<longleftrightarrow> (\<exists>m. r = Inr m \<and> x \<in> set m)"
  by (auto simp: or_empty_def split: sum.splits)

lemma VerifyAll_placed:
  assumes "blobs_placed s"
  shows "\<exists>res. VerifyAll no_fault s = (res, Inr ())
    \<and> set (Mismatched res) = {d. corrupt s d} \<and> distinct (Mismatched res)
    \<and> set (Missing res) = {d \<in> referenced s. \<not> present s d} \<and> sorted (Missing res)"
proof -
  let ?ps = "blob_walk s"
  have walk: "walk_blobs no_fault s ?ps [] = (filter (corrupt s) (map path_digest ?ps), Inr ())"
    using assms walk_blobs_placed [of ?ps s "[]"] by (auto simp: blobs_placed_def set_blob_walk)
  have mism: "set (filter (corrupt s) (map path_digest ?ps)) = {d. corrupt s d}"
  proof -
    have "d \<in> path_digest ` set ?ps" if "corrupt s d" for d
    proof -
      from that have "blob_path d \<in> set ?ps" "is_digest_hex d"
        by (auto simp: corrupt_def intro: blob_in_walk)
      then show ?thesis by (metis path_digest_blob imageI)
    qed
    then show ?thesis by auto
  qed
  have "inj_on path_digest {p \<in> set ?ps. corrupt s (path_digest p)}"
    using assms by (intro inj_onI) (metis (mono_tags, lifting) blobs_placed_def corrupt_def mem_Collect_eq)
  moreover have "distinct ?ps" by (simp add: blob_walk_def)
  ultimately have dist: "distinct (filter (corrupt s) (map path_digest ?ps))"
    by (simp add: filter_map distinct_map comp_def)
  let ?refs = "remdups (map stateDigestHex (map snd (or_empty (Namespaces s)) @ map snd (or_empty (TagAliases s))))"
  let ?ms = "concat (map fst (map (link_check no_fault s) (or_empty (DistributionLinks s))))
    @ filter (\<lambda>d. \<not> Has no_fault s d) ?refs"
  have snds: "x \<in> stateDigestHex ` snd ` set (or_empty r) \<longleftrightarrow>
      (\<exists>m k v. r = Inr m \<and> (k, v) \<in> set m \<and> x = stateDigestHex v)" for x and r :: "cas_error + (string \<times> string) list"
    by (cases r) (force simp: or_empty_def)+
  have refs: "set (filter (\<lambda>d. \<not> Has no_fault s d) ?refs) =
    {d. (\<exists>m k v. (Namespaces s = Inr m \<or> TagAliases s = Inr m) \<and> (k, v) \<in> set m \<and> d = stateDigestHex v) \<and> \<not> present s d}"
    unfolding set_filter set_remdups set_map set_append image_Un Un_iff snds Has_present by blast
  have "set ?ms = {d \<in> referenced s. \<not> present s d}"
    unfolding set_append set_links_missing refs referenced_def or_empty_set by blast
  then show ?thesis
    using walk mism dist by (simp add: VerifyAll_def Let_def)
qed

subsection \<open>Opening the store removes stale parts only\<close>

lemma clean_entries_state: "sState (fst (clean_entries fault now es s)) = sState s"
  by (induction fault now es s rule: clean_entries.induct) auto

lemma clean_entries_only_stale:
  "look (fst (clean_entries fault now es s)) q \<noteq> look s q \<Longrightarrow> \<exists>f. (q, f) \<in> set es \<and> stale_part now (q, f)"
proof (induction fault now es s rule: clean_entries.induct)
  case (2 fault now p f es s)
  show ?case
  proof (cases "q = p \<and> stale_part now (p, f)")
    case False
    then have "\<exists>g. (q, g) \<in> set es \<and> stale_part now (q, g)"
      using 2 by (auto simp: stale_part_def split: if_splits)
    then show ?thesis by auto
  qed auto
qed simp

lemma clean_entries_no_fault:
  "snd (clean_entries (\<lambda>_ _. False) now es s) = Inr ()
   \<and> look (fst (clean_entries (\<lambda>_ _. False) now es s)) q =
      (if \<exists>f. (q, f) \<in> set es \<and> stale_part now (q, f) then None else look s q)"
proof (induction es arbitrary: s)
  case (Cons pf es)
  obtain p f where pf: "pf = (p, f)" by (cases pf)
  show ?case
    using Cons.IH [of s] Cons.IH [of "del_file p s"] unfolding pf
    by (auto simp: stale_part_def)
qed simp

lemma OpenStore_no_fault:
  "OpenStore (\<lambda>_ _. False) now s = (s', r) \<Longrightarrow> r = Inr () \<and> sState s' = sState s
     \<and> (\<forall>d. look s' (blob_path d) = look s (blob_path d)) \<and> (\<forall>q. look s' q \<noteq> None \<longrightarrow> look s q \<noteq> None)"
proof -
  assume o: "OpenStore (\<lambda>_ _. False) now s = (s', r)"
  then have c: "cleanStaleParts (\<lambda>_ _. False) now s = (s', r)" by (simp add: OpenStore_def)
  then have "look s' q = look s q \<or> look s' q = None \<and> in_incoming q" for q
    using cleanStaleParts_look [of "\<lambda>_ _. False" now s q] by simp
  moreover have "sState s' = sState s" "r = Inr ()"
    using c clean_entries_state [of "\<lambda>_ _. False" now "sFiles s" s]
      clean_entries_no_fault [of now "sFiles s" s] by (simp_all add: cleanStaleParts_def)
  ultimately show ?thesis using blob_not_incoming by metis
qed

subsection \<open>What later theories use of the store\<close>

lemma store_ok_cong: "(\<And>d. look s' (blob_path d) = look s (blob_path d)) \<Longrightarrow> store_ok s' = store_ok s"
  by (simp add: store_ok_def)

lemma present_cong: "(\<And>d. look s' (blob_path d) = look s (blob_path d)) \<Longrightarrow> present s' = present s"
  by (simp add: present_def fun_eq_iff)

lemma Put_frame:
  assumes "Put env d r s = (s', res)"
  shows "(store_ok s \<longrightarrow> store_ok s') \<and> (\<forall>e. present s e \<longrightarrow> present s' e) \<and> (res = Inr () \<longrightarrow> present s' d \<and> sha256_hex r = d)"
proof -
  have ch: "put_changes env d r s s'" using assms by (rule Put_changes)
  have "present s' e" if "present s e" for e
    using ch that unfolding put_changes_def present_def by (metis option.distinct(1) part_path_not_blob(1))
  moreover have "present s' d \<and> sha256_hex r = d" if "res = Inr ()"
    using Put_Inr [of env d r s s'] assms that by (simp add: present_def)
  ultimately show ?thesis using store_ok_changes [OF _ ch] by blast
qed

lemma Has_imp_present: "Has bad s d \<Longrightarrow> present s d"
  by (auto simp: Has_def present_def BlobPath_Inr split: sum.splits)

lemma present_content:
  "store_ok s \<Longrightarrow> present s d \<Longrightarrow> \<exists>f. look s (blob_path d) = Some f \<and> sha256_hex (fContent f) = d"
  by (auto simp: store_ok_def present_def)

lemma Put_fresh:
  assumes "peFault env = (\<lambda>_. False)" and "look s (part_path env) = None"
  shows "snd (Put env (sha256_hex r) r s) = Inr () \<and> look (fst (Put env (sha256_hex r) r s)) (part_path env) = None"
  using assms by (auto simp: put_defs BlobPath_valid)

text \<open>What every operation does to the store.\<close>

definition keeps :: "store \<Rightarrow> store \<Rightarrow> bool" where
  "keeps s s' \<longleftrightarrow> (store_ok s \<longrightarrow> store_ok s') \<and> (\<forall>d. present s d \<longrightarrow> present s' d)"

lemma keeps_refl [simp]: "keeps s s"
  by (simp add: keeps_def)

lemma keeps_trans: "keeps s s' \<Longrightarrow> keeps s' s'' \<Longrightarrow> keeps s s''"
  by (simp add: keeps_def)

lemma keeps_blobs: "(\<And>d. look s' (blob_path d) = look s (blob_path d)) \<Longrightarrow> keeps s s'"
  using store_ok_cong [of s' s] present_cong [of s' s] by (simp add: keeps_def)

lemma Put_keeps: "Put env d r s = (s', res) \<Longrightarrow> keeps s s' \<and> (res = Inr () \<longrightarrow> present s' d \<and> sha256_hex r = d)"
  using Put_frame [of env d r s s' res] by (auto simp: keeps_def)

lemma Put_state [simp]: "sState (fst (Put env d r s)) = sState s"
  by (auto simp: put_defs split: sum.splits)

lemma keeps_state [simp]: "keeps s (s\<lparr>sState := st\<rparr>)"
  by (rule keeps_blobs) (simp add: look_def)

lemma updateMap_keeps: "updateMap fault name f s = (s', r) \<Longrightarrow> keeps s s' \<and> (\<forall>n. n \<noteq> name \<longrightarrow> sState s' n = sState s n)"
  using updateMap_cases [of fault name f s s' r] by auto

lemma SetDistributionLink_frame:
  assumes "SetDistributionLink fault md rd s = (s', r)" and "IsDigest md" and "IsDigest rd"
  shows "keeps s s' \<and> sState s' namespacesFile = sState s namespacesFile
    \<and> (r = Inr () \<longrightarrow> RecordDigestForManifest s' md = Inr rd
         \<and> (\<forall>m x. m \<noteq> md \<and> IsDigest m \<and> RecordDigestForManifest s m = Inr x \<longrightarrow> RecordDigestForManifest s' m = Inr x))"
proof -
  have rd: "rd \<noteq> []" using assms(3) by (auto simp: IsDigest_def DigestSchemePrefix_def)
  have n: "NormalizeDigest d = Inr d" if "IsDigest d" for d using that
    by (auto simp: NormalizeDigest_def IsDigest_def)
  have u: "updateMap fault distributionFile (AList.update md rd) s = (s', r)"
    using assms rd n by (simp add: SetDistributionLink_def)
  have "RecordDigestForManifest s' md = Inr rd
      \<and> (\<forall>m x. m \<noteq> md \<and> IsDigest m \<and> RecordDigestForManifest s m = Inr x \<longrightarrow> RecordDigestForManifest s' m = Inr x)"
    if "r = Inr ()"
  proof -
    have "updateMap fault distributionFile (AList.update md rd) s = (s', Inr ())" using u that by simp
    then obtain m where "loadMap s distributionFile = Inr m"
      "s' = s\<lparr>sState := (sState s)(distributionFile := Holds (AList.update md rd m))\<rparr>"
      by (rule updateMap_Inr)
    then show ?thesis using assms(2) n by (auto simp: RecordDigestForManifest_def loadMap_update)
  qed
  then show ?thesis using updateMap_keeps [OF u] by simp
qed

lemma RecordDigestForManifest_state:
  "sState s' distributionFile = sState s distributionFile \<Longrightarrow> RecordDigestForManifest s' m = RecordDigestForManifest s m"
proof -
  assume "sState s' distributionFile = sState s distributionFile"
  then have "loadMap s' distributionFile = loadMap s distributionFile" by (simp add: loadMap_def)
  then show ?thesis by (simp add: RecordDigestForManifest_def split: sum.split)
qed

lemma Put_sState: "Put env d r s = (s', res) \<Longrightarrow> sState s' = sState s"
  by (metis Put_state fst_conv)

subsection \<open>Properties\<close>

text \<open>
  C4: if no system call fails and every file of the store whose path spells a digest lies at that digest's
  path, \<open>VerifyAll\<close> runs to the end and is exact: the mismatches it reports are precisely the
  blobs whose content does not hash to their name, each once, and the missing digests are
  precisely those the namespaces, the tags and the well-formed distribution links refer to and
  the store does not hold, in sorted order. (The second condition is needed: lemma \<open>VerifyAll_stray_aborts\<close>.)
\<close>

theorem VerifyAll_exact:
  assumes "blobs_placed s"
  shows "\<exists>res. VerifyAll no_fault s = (res, Inr ())
    \<and> set (Mismatched res) = {d. corrupt s d} \<and> distinct (Mismatched res)
    \<and> set (Missing res) = {d \<in> referenced s. \<not> present s d} \<and> sorted (Missing res)"
  using assms by (rule VerifyAll_placed)

lemma blobs_placed_empty [simp]: "blobs_placed empty_store"
  by (auto simp: blobs_placed_def set_blob_walk)

text \<open>
  A store with a sound blob, one whose content does not hash to its name, and a namespace whose index is not there.
\<close>

definition ruined_hex :: string where
  "ruined_hex = (if sha256_hex ''bits'' = replicate 64 (CHR ''0'') then replicate 64 (CHR ''1'') else replicate 64 (CHR ''0''))"

definition gone_hex :: string where
  "gone_hex = (if sha256_hex ''weights'' = replicate 64 (CHR ''2'') then replicate 64 (CHR ''3'') else replicate 64 (CHR ''2''))"

definition ruined_store :: store where
  "ruined_store =
     \<lparr>sFiles = [(blob_path ruined_hex, \<lparr>fContent = ''bits'', fMode = blobMode, fTime = 0\<rparr>),
                (blob_path (sha256_hex ''weights''), \<lparr>fContent = ''weights'', fMode = blobMode, fTime = 0\<rparr>)],
      sState = (\<lambda>_. Absent)(namespacesFile := Holds [(''a/b'', ''sha256:'' @ gone_hex)])\<rparr>"

lemma digest_replicate: "c \<in> set ''0123'' \<Longrightarrow> is_digest_hex (replicate 64 c)" "c \<noteq> d \<Longrightarrow> replicate 64 c \<noteq> replicate 64 d"
  by (auto simp: is_digest_hex_def is_lhex_def list_all_iff replicate_eq_replicate)

lemma ruined_hex: "is_digest_hex ruined_hex" "sha256_hex ''bits'' \<noteq> ruined_hex"
  unfolding ruined_hex_def using digest_replicate by auto

lemma gone_hex: "is_digest_hex gone_hex" "gone_hex \<noteq> ruined_hex" "gone_hex \<noteq> sha256_hex ''weights''"
  unfolding gone_hex_def ruined_hex_def using digest_replicate by auto

lemma distinct_single: "distinct xs \<Longrightarrow> set xs = {x} \<Longrightarrow> xs = [x]"
  by (cases xs) (auto simp: subset_singleton_iff insert_eq_iff)

lemma look_ruined: "look ruined_store p =
    (if p = blob_path ruined_hex then Some \<lparr>fContent = ''bits'', fMode = blobMode, fTime = 0\<rparr>
     else if p = blob_path (sha256_hex ''weights'') then Some \<lparr>fContent = ''weights'', fMode = blobMode, fTime = 0\<rparr> else None)"
  by (simp add: ruined_store_def look_def)

lemma blobs_placed_ruined: "blobs_placed ruined_store"
  using ruined_hex(1) by (auto simp: blobs_placed_def set_blob_walk look_ruined split: if_splits)

lemma corrupt_ruined: "corrupt ruined_store d \<longleftrightarrow> d = ruined_hex"
  using ruined_hex(1,2) by (auto simp: corrupt_def look_ruined blob_path_inj split: if_splits)

lemma referenced_ruined: "referenced ruined_store = {gone_hex}"
proof -
  have maps: "Namespaces ruined_store = Inr [(''a/b'', ''sha256:'' @ gone_hex)]"
    "TagAliases ruined_store = Inr []" "DistributionLinks ruined_store = Inr []"
    by (simp_all add: Namespaces_def TagAliases_def DistributionLinks_def loadMap_def ruined_store_def
        namespacesFile_def tagsFile_def distributionFile_def)
  have "stateDigestHex (''sha256:'' @ gone_hex) = gone_hex" by (simp add: stateDigestHex_def TrimPrefix_def HasPrefix_def DigestSchemePrefix_def)
  then show ?thesis unfolding referenced_def maps by auto
qed

lemma VerifyAll_exact_witness:
  "\<exists>res. VerifyAll no_fault ruined_store = (res, Inr ())
    \<and> Mismatched res = [ruined_hex] \<and> set (Missing res) = {gone_hex}"
proof -
  obtain res where res: "VerifyAll no_fault ruined_store = (res, Inr ())"
    "set (Mismatched res) = {d. corrupt ruined_store d}" "distinct (Mismatched res)"
    "set (Missing res) = {d \<in> referenced ruined_store. \<not> present ruined_store d}"
    using VerifyAll_exact [OF blobs_placed_ruined] by blast
  have "Mismatched res = [ruined_hex]" using res(2,3) by (simp add: corrupt_ruined distinct_single)
  moreover have "\<not> present ruined_store gone_hex"
    using gone_hex ruined_hex(1) by (auto simp: present_def look_ruined blob_path_inj)
  ultimately show ?thesis using res(1,4) by (auto simp: referenced_ruined)
qed

text \<open>
  The exit code of \<open>cas verify --all\<close> on such a store: 1 exactly when some blob is corrupt
  (a mismatch outranks anything missing), else 2 exactly when something referenced is missing,
  else 0.
\<close>

lemma runVerify_all_exit:
  assumes "blobs_placed s"
  shows "snd (snd (runVerify (\<lambda>_ _. False) now no_fault ''--all'' s)) =
    (if \<exists>d. corrupt s d then exitVerifyMismatch
     else if \<exists>d \<in> referenced s. \<not> present s d then exitVerifyMissing
     else exitVerifyClean)"
proof -
  obtain s1 r where o: "OpenStore (\<lambda>_ _. False) now s = (s1, r)" by (cases "OpenStore (\<lambda>_ _. False) now s")
  note s1 = OpenStore_no_fault [OF o]
  have "blobs_placed s1"
    using assms s1 by (auto simp: blobs_placed_def set_blob_walk)
  then obtain res where v: "VerifyAll no_fault s1 = (res, Inr ())"
    "set (Mismatched res) = {d. corrupt s1 d}" "set (Missing res) = {d \<in> referenced s1. \<not> present s1 d}"
    using VerifyAll_placed by blast
  have "corrupt s1 = corrupt s" "present s1 = present s" "referenced s1 = referenced s"
    using s1 by (auto simp: corrupt_def present_def referenced_def Namespaces_def TagAliases_def
        DistributionLinks_def loadMap_def fun_eq_iff)
  then have "Mismatched res = [] \<longleftrightarrow> \<not> (\<exists>d. corrupt s d)"
    "Missing res = [] \<longleftrightarrow> \<not> (\<exists>d \<in> referenced s. \<not> present s d)"
    using v(2,3) by (auto simp flip: set_empty2)
  then show ?thesis using o s1 v(1) by (auto simp: runVerify_def Let_def)
qed

lemma runVerify_all_exit_witness:
  "snd (snd (runVerify (\<lambda>_ _. False) 0 no_fault ''--all'' empty_store)) = exitVerifyClean"
  unfolding runVerify_all_exit [OF blobs_placed_empty]
  by (auto simp: corrupt_def referenced_def Namespaces_def TagAliases_def DistributionLinks_def
      loadMap_def empty_store_def look_def)

text \<open>
  Without that placement the walk does not get to the end: a single stray file, whose
  directory and file name concatenate to 64 hex digits but split in the wrong place, makes
  \<open>VerifyAll\<close> abort with \<open>ErrBlobMissing\<close> instead of being skipped.
\<close>

lemma VerifyAll_stray_aborts:
  assumes "is_digest_hex h"
  shows "VerifyAll no_fault
      (set_file (blobsDir @ ''/'' @ take 1 h @ ''/'' @ drop 1 h) f empty_store)
    = (\<lparr>Mismatched = [], Missing = [], StateErrors = []\<rparr>, Inl (ErrBlobMissing h))"
proof -
  let ?p = "blobsDir @ ''/'' @ take 1 h @ ''/'' @ drop 1 h"
  let ?s = "set_file ?p f empty_store"
  have nin: "CHR ''/'' \<notin> set h"
    using assms is_lhex_special(2) unfolding is_digest_hex_def list_all_iff by blast
  then have "CHR ''/'' \<notin> set (take 1 h)" "CHR ''/'' \<notin> set (drop 1 h)"
    by (auto dest: in_set_takeD in_set_dropD)
  then have sp: "split_on (CHR ''/'') ?p = [''blobs'', ''sha256'', take 1 h, drop 1 h]"
    by (simp add: blobsDir_def split_on_append split_on_no_sep)
  then have dig: "dir_base ?p @ base_name ?p = h"
    by (simp add: dir_base_def base_name_def)
  have "blob_path h \<noteq> ?p"
  proof
    assume "blob_path h = ?p"
    then have "take 2 h = take 1 h"
      using split_blob_path [OF assms] sp by simp
    then have "length (take 2 h) = length (take 1 h)" by simp
    then show False using assms by (simp add: is_digest_hex_def)
  qed
  then have "Verify no_fault ?s h = Inl (ErrBlobMissing h)"
    using assms by (simp add: Verify_def OpenBlob_def BlobPath_valid)
  moreover have "blob_walk ?s = [?p]"
    by (simp add: blob_walk_def set_file_def empty_store_def HasPrefix_iff)
  ultimately show ?thesis
    using assms unfolding VerifyAll_def by (simp add: Let_def dig [simplified])
qed

lemma VerifyAll_stray_aborts_witness:
  "\<exists>p f. look (set_file p f empty_store) p = Some f
     \<and> snd (VerifyAll no_fault (set_file p f empty_store)) = Inl (ErrBlobMissing (sha256_hex ''x''))"
  using VerifyAll_stray_aborts [OF is_digest_sha256_hex [of "''x''"]] by (metis look_set_file snd_conv)

text \<open>
  Opening the store removes files for one reason only: a part in \<open>incoming\<close> older than
  24 hours. No blob and no state file changes, whatever fails; and when nothing fails every such
  part is gone and every other file is untouched.
\<close>

lemma cleanStaleParts_exact:
  "sState (fst (cleanStaleParts fault now s)) = sState s
   \<and> (look (fst (cleanStaleParts fault now s)) q = look s q
       \<or> (\<exists>f. (q, f) \<in> set (sFiles s) \<and> stale_part now (q, f)))
   \<and> snd (cleanStaleParts (\<lambda>_ _. False) now s) = Inr ()
   \<and> look (fst (cleanStaleParts (\<lambda>_ _. False) now s)) q =
       (if \<exists>f. (q, f) \<in> set (sFiles s) \<and> stale_part now (q, f) then None else look s q)"
  using clean_entries_only_stale [of fault now "sFiles s" s q] clean_entries_no_fault [of now "sFiles s" s q]
  by (auto simp: cleanStaleParts_def clean_entries_state)

text \<open>
  A state operation, whatever call fails, either leaves the store as it was or replaces
  exactly one of the four state files by a complete new map; and it replaces it without
  reporting success only when the one thing that failed is the final directory sync.
\<close>

lemma exec_op_atomic:
  "fst (exec_op fault op s) = s \<and> snd (exec_op fault op s) \<noteq> Inr ()
   \<or> (\<exists>name m. name \<in> {namespacesFile, tagsFile, distributionFile, hintsFile}
        \<and> fst (exec_op fault op s) = s\<lparr>sState := (sState s)(name := Holds m)\<rparr>
        \<and> snd (exec_op fault op s) \<in> {Inr (), Inl (IOErr SysSyncDir)})"
proof -
  have atomic: "fst (updateMap fault name f s) = s \<and> snd (updateMap fault name f s) \<noteq> Inr ()
     \<or> (\<exists>m. fst (updateMap fault name f s) = s\<lparr>sState := (sState s)(name := Holds m)\<rparr>
          \<and> snd (updateMap fault name f s) \<in> {Inr (), Inl (IOErr SysSyncDir)})" for name f
  proof (cases "loadMap s name")
    case (Inr m)
    then show ?thesis
      using atomicWrite_cases [of fault name "f m" s] by (cases "atomicWrite fault name (f m) s") (auto simp: updateMap_def)
  qed (simp add: updateMap_def)
  consider (err) e where "exec_op fault op s = (s, Inl e)"
    | (upd) name f where "name \<in> {namespacesFile, tagsFile, distributionFile, hintsFile}"
        "exec_op fault op s = updateMap fault name f s"
    using exec_op_shape [of fault op s] by blast
  then show ?thesis
  proof cases
    case err
    then show ?thesis by simp
  next
    case (upd name f)
    then show ?thesis
      using atomic [of name f] unfolding upd(2) by blast
  qed
qed

text \<open>
  C5: from an empty store, every sequence of state operations with any failing calls keeps the
  state well formed: namespace keys are \<open>ns/name\<close>, tag keys split uniquely into a namespace and an
  unbanned tag, every stored digest is in protocol form, no stored hint is empty, no key occurs
  twice. \<open>VerifyAll\<close> has no state error to report on such a store.
\<close>

theorem state_well_formed:
  assumes "state_step\<^sup>*\<^sup>* empty_store s"
  shows "state_ok s \<and> (\<forall>res. VerifyAll no_fault s = (res, Inr ()) \<longrightarrow> StateErrors res = [])"
proof -
  have ok: "state_ok s" using assms by (intro state.reachable_inv) auto
  have loaded: "\<exists>m. loadMap s nm = Inr m" if "map_ok k v (sState s nm)" for nm k v
    using that by (auto simp: map_ok_def loadMap_def split: state_file.splits)
  have "snd (link_check no_fault s l) = []" if "DistributionLinks s = Inr m" "l \<in> set m" for l m
  proof -
    obtain md rd where l: "l = (md, rd)" by (cases l)
    have "map_ok IsDigest IsDigest (Holds m)"
      using ok that(1) map_ok_loaded [of s distributionFile m IsDigest IsDigest] by (simp add: state_ok_def DistributionLinks_def)
    then have "IsDigest md" "IsDigest rd" using that(2) l by (auto simp: map_ok_def list_all_iff)
    then have "NormalizeDigest md = Inr md" "NormalizeDigest rd = Inr rd"
      by (auto simp: NormalizeDigest_def DigestSchemePrefix_def IsDigest_iff)
    then show ?thesis by (simp add: link_check_def l)
  qed
  then have "concat (map snd (map (link_check no_fault s) (or_empty (DistributionLinks s)))) = []"
    by (cases "DistributionLinks s") (auto simp: or_empty_def)
  moreover have "\<exists>m. Namespaces s = Inr m" "\<exists>m. TagAliases s = Inr m" "\<exists>m. DistributionLinks s = Inr m"
    "\<exists>m. loadMap s hintsFile = Inr m"
    using ok loaded by (auto simp: state_ok_def Namespaces_def TagAliases_def DistributionLinks_def)
  ultimately show ?thesis
    using ok by (auto simp: VerifyAll_def Let_def err_list_def split: prod.splits sum.splits)
qed

lemma state_well_formed_witness:
  "state_ok (fst (exec_op no_fault (OpSetTagAlias ''qwen/coder'' ''main'' (''sha256:'' @ sha256_hex ''x'')) empty_store))"
proof -
  have "state_step empty_store (fst (exec_op no_fault (OpSetTagAlias ''qwen/coder'' ''main'' (''sha256:'' @ sha256_hex ''x'')) empty_store))"
    unfolding state_step_def by blast
  from state_well_formed [OF r_into_rtranclp [of state_step, OF this]] show ?thesis by blast
qed

text \<open>
  Linking a manifest to a distribution record is read back under every spelling of the
  manifest's digest, in protocol form; unlinking (an empty record) reads back as no link; and no
  other manifest, namespace, tag, hint or file is affected.
\<close>

lemma SetDistributionLink_readback:
  assumes "SetDistributionLink fault m r s = (s', Inr ())"
  shows "\<exists>md rd. NormalizeDigest m = Inr md \<and> (if r = [] then rd = [] else NormalizeDigest r = Inr rd)
    \<and> (\<forall>m'. RecordDigestForManifest s' m' =
         (if NormalizeDigest m' = Inr md then Inr rd else RecordDigestForManifest s m'))
    \<and> Namespaces s' = Namespaces s \<and> TagAliases s' = TagAliases s
    \<and> (\<forall>m'. HintsFor s' m' = HintsFor s m') \<and> sFiles s' = sFiles s"
proof -
  obtain md where md: "NormalizeDigest m = Inr md"
    using assms by (auto simp: SetDistributionLink_def split: sum.splits)
  obtain rd where rd: "if r = [] then rd = [] else NormalizeDigest r = Inr rd"
    using assms md by (cases "r = []") (auto simp: SetDistributionLink_def split: sum.splits)
  let ?f = "if r = [] then AList.delete md else AList.update md rd"
  have "updateMap fault distributionFile ?f s = (s', Inr ())"
    using assms md rd by (auto simp: SetDistributionLink_def split: if_splits)
  then obtain mm where "loadMap s distributionFile = Inr mm"
    "s' = s\<lparr>sState := (sState s)(distributionFile := Holds (?f mm))\<rparr>"
    by (rule updateMap_Inr)
  then show ?thesis
    using md rd
    by (intro exI [of _ md] exI [of _ rd])
      (auto simp: RecordDigestForManifest_def HintsFor_def Namespaces_def TagAliases_def loadMap_update
        split: sum.split)
qed

lemma SetDistributionLink_readback_witness:
  "RecordDigestForManifest (fst (SetDistributionLink no_fault (sha256_hex ''m'') (sha256_hex ''r'') empty_store))
     (''sha256:'' @ sha256_hex ''m'') = Inr (''sha256:'' @ sha256_hex ''r'')"
proof -
  have np: "\<not> HasPrefix (sha256_hex b) ''sha256:''" for b
  proof
    assume "HasPrefix (sha256_hex b) ''sha256:''"
    then have "CHR '':'' \<in> set (sha256_hex b)" by (auto simp: HasPrefix_iff)
    then have "is_lhex CHR '':''" unfolding sha256_hex_def by (rule hex_encode_chars)
    then show False by simp
  qed
  have n: "NormalizeDigest (sha256_hex b) = Inr (''sha256:'' @ sha256_hex b)"
    "NormalizeDigest (''sha256:'' @ sha256_hex b) = Inr (''sha256:'' @ sha256_hex b)" for b
    using np IsDigest_sha256_hex [of b] by (simp_all add: NormalizeDigest_def DigestSchemePrefix_def)
  have ne: "sha256_hex b \<noteq> []" for b using length_sha256_hex [of b] by (metis list.size(3) zero_neq_numeral)
  let ?s' = "fst (SetDistributionLink no_fault (sha256_hex ''m'') (sha256_hex ''r'') empty_store)"
  have "SetDistributionLink no_fault (sha256_hex ''m'') (sha256_hex ''r'') empty_store = (?s', Inr ())"
    using n ne by (simp add: SetDistributionLink_def updateMap_def loadMap_def empty_store_def atomicWrite_def Let_def)
  from SetDistributionLink_readback [OF this] show ?thesis using n ne by auto
qed

end
