(* ===== verification/Artifact.thy ===== *)
theory Artifact
  imports Refs "HOL-Library.Product_Lexorder"
begin

text \<open>
  \<open>internal/artifact\<close>, the documents (\<open>artifact.go\<close>) and their validation (\<open>validate.go\<close>):
  manifests, indexes and distribution records, the canonical file order, the member rules. JSON
  serialization and RFC 8785 canonicalization are third-party code: a \<open>codec\<close> record supplies
  them where a document is turned into bytes or read back.
\<close>

unbundle bit_operations_syntax

subsection \<open>Documents\<close>

record File =
  fKind :: string
  fDigest :: string
  fSize :: int
  fName :: string
  fPart :: "int option"
  fRole :: string
  fVariant :: string
  fRuntime :: string
  fAdapterType :: string
  fCodeRole :: string
  fMerkleRoot :: string

record Manifest =
  mSchemaVersion :: int
  mArtifactType :: string
  mFiles :: "File list"
  mAnnotations :: "(string \<times> string) list"

record IndexMember =
  imManifest :: string
  imQuant :: string
  imWeightsFormat :: string
  imRevision :: string

record Index =
  iSchemaVersion :: int
  iArtifactType :: string
  iMembers :: "IndexMember list"

record Torrent =
  tInfohash :: string
  tPieceLength :: int
  tPieceLayersDigest :: string

record DistributionRecord =
  dSchemaVersion :: int
  dArtifactType :: string
  dManifestDigest :: string
  dTorrent :: Torrent

text \<open>The third-party codec: canonical bytes of a document, and decoding (an error is a message).\<close>

record codec =
  canonManifest :: "Manifest \<Rightarrow> string + string"
  canonIndex :: "Index \<Rightarrow> string + string"
  canonDist :: "DistributionRecord \<Rightarrow> string + string"
  decHead :: "string \<Rightarrow> string + (int \<times> string)"
  decManifest :: "string \<Rightarrow> string + Manifest"
  decIndex :: "string \<Rightarrow> string + Index"
  decDist :: "string \<Rightarrow> string + DistributionRecord"

definition Digest :: "string \<Rightarrow> string" where
  "Digest b = ''sha256:'' @ sha256_hex b"

subsection \<open>Validation errors\<close>

definition ClassValidation :: string where "ClassValidation = ''E_VALIDATION''"
definition ClassValidationKind :: string where "ClassValidationKind = ''E_VALIDATION_KIND''"
definition ClassValidationReserved :: string where "ClassValidationReserved = ''E_VALIDATION_RESERVED_PATH''"
definition ClassValidationWeightsM :: string where "ClassValidationWeightsM = ''E_VALIDATION_WEIGHTS_MIX''"
definition ClassValidationWeights0 :: string where "ClassValidationWeights0 = ''E_VALIDATION_WEIGHTS_MISSING''"
definition ClassValidationCard :: string where "ClassValidationCard = ''E_VALIDATION_CARDINALITY''"
definition ClassValidationParts :: string where "ClassValidationParts = ''E_VALIDATION_PARTS''"
definition ClassValidationRtDup :: string where "ClassValidationRtDup = ''E_VALIDATION_RUNTIME_DUP''"
definition ClassValidationOrder :: string where "ClassValidationOrder = ''E_VALIDATION_FILE_ORDER''"
definition ClassValidationQuantDup :: string where "ClassValidationQuantDup = ''E_VALIDATION_QUANT_DUP''"
definition ClassValidationInfohash :: string where "ClassValidationInfohash = ''E_VALIDATION_INFOHASH''"

lemmas v_class_defs = ClassValidation_def ClassValidationKind_def ClassValidationReserved_def
  ClassValidationWeightsM_def ClassValidationWeights0_def ClassValidationCard_def
  ClassValidationParts_def ClassValidationRtDup_def ClassValidationOrder_def
  ClassValidationQuantDup_def ClassValidationInfohash_def

text \<open>What the message says, with the values it is built from.\<close>

datatype why =
    NotADocument string | SchemaOrType | NoArtifactType | UnknownType string
  | ReservedPath string | InvalidName string | DotSegment string
  | NoFiles | DuplicateName string | BadDigest string | BadSize string | BadMerkleRoot string
  | MissingKind | ConfigName | WeightsMix string string | MissingRuntime string
  | RuntimeDup string | UnknownKind string string | OrderViolation nat string
  | ConfigCount nat | NoWeights | TokenizerCount nat | ChatCount nat
  | PathCollision string string | PartsGap string "int list"
  | NoMembers | MemberDigest nat | MemberQuant nat string | QuantDup string
  | DistManifestDigest | DistInfohash | DistPieceLength | DistLayersDigest

record validation_error =
  veClass :: string
  veWhy :: why

abbreviation verr :: "string \<Rightarrow> why \<Rightarrow> validation_error" where
  "verr c w \<equiv> \<lparr>veClass = c, veWhy = w\<rparr>"

subsection \<open>Canonical file order\<close>

definition derefPart :: "int option \<Rightarrow> int" where
  "derefPart p = (case p of None \<Rightarrow> -1 | Some i \<Rightarrow> i)"

definition kindRank :: "string \<Rightarrow> int" where
  "kindRank kind =
     (if kind = ''config'' then 0
      else if kind = ''weights.gguf'' \<or> kind = ''weights.safetensors'' then 1
      else if kind = ''weights.aux'' then 2
      else if kind = ''tokenizer'' then 3
      else if kind = ''chat-template'' then 4
      else if kind = ''adapter'' then 5
      else if kind = ''runtime-config'' then 6
      else if kind = ''code'' then 7
      else 8)"

definition Compare :: "string \<Rightarrow> string \<Rightarrow> int" where
  "Compare a b = (if a < b then -1 else if a = b then 0 else 1)"

definition fileOrder :: "File \<Rightarrow> File \<Rightarrow> int" where
  "fileOrder a b =
     (let ra = kindRank (fKind a); rb = kindRank (fKind b) in
      if ra \<noteq> rb then ra - rb
      else if fKind a = ''weights.gguf'' \<or> fKind a = ''weights.safetensors'' then
        (let ap = derefPart (fPart a); bp = derefPart (fPart b) in
         if ap \<noteq> bp then wrap64 (ap - bp) else Compare (fDigest a) (fDigest b))
      else if fKind a = ''weights.aux'' then Compare (fName a) (fName b)
      else if fKind a = ''runtime-config'' then Compare (fRuntime a) (fRuntime b)
      else if fKind a = ''code'' then
        (let c = Compare (fCodeRole a) (fCodeRole b) in
         if c \<noteq> 0 then c else Compare (fName a) (fName b))
      else Compare (fDigest a) (fDigest b))"

definition SortFiles :: "File list \<Rightarrow> File list" where
  "SortFiles files = sort_by (\<lambda>a b. fileOrder a b < 0) files"

subsection \<open>File names\<close>

definition ValidateFileName :: "string \<Rightarrow> validation_error option" where
  "ValidateFileName name =
     (if name = ''manifest'' \<or> HasPrefix name ''manifest/''
      then Some (verr ClassValidationReserved (ReservedPath name))
      else if name = [] \<or> HasPrefix name ''/'' \<or> HasSuffix name ''/''
              \<or> CHR 0x5C \<in> set name \<or> Contains name ''//''
      then Some (verr ClassValidation (InvalidName name))
      else if list_ex (\<lambda>seg. seg = ''.'' \<or> seg = ''..'') (split_on (CHR ''/'') name)
      then Some (verr ClassValidation (DotSegment name))
      else None)"

subsection \<open>Manifests\<close>

record vstate =
  vsSeen :: "string list"
  vsFormat :: string
  vsParts :: "string \<Rightarrow> int list"
  vsConfig :: nat
  vsTokenizer :: nat
  vsChat :: nat
  vsRuntimes :: "string list"
  vsPrev :: "File option"

definition vs_init :: vstate where
  "vs_init = \<lparr>vsSeen = [], vsFormat = [], vsParts = (\<lambda>_. []), vsConfig = 0, vsTokenizer = 0,
              vsChat = 0, vsRuntimes = [], vsPrev = None\<rparr>"

text \<open>The switch on the kind.\<close>

definition vm_kind :: "File \<Rightarrow> vstate \<Rightarrow> validation_error + vstate" where
  "vm_kind f st =
     (if fKind f = [] then Inl (verr ClassValidation MissingKind)
      else if fKind f = ''config'' then
        (if fName f \<noteq> ''modelconfig.json'' then Inl (verr ClassValidation ConfigName)
         else Inr (st\<lparr>vsConfig := vsConfig st + 1\<rparr>))
      else if fKind f = ''weights.gguf'' \<or> fKind f = ''weights.safetensors'' then
        (let format = TrimPrefix (fKind f) ''weights.'' in
         if vsFormat st \<noteq> [] \<and> vsFormat st \<noteq> format
         then Inl (verr ClassValidationWeightsM (WeightsMix (vsFormat st) format))
         else
           let st = (if vsFormat st = [] then st\<lparr>vsFormat := format\<rparr> else st) in
           Inr (case fPart f of
                  None \<Rightarrow> st
                | Some p \<Rightarrow> st\<lparr>vsParts := (vsParts st)(format := vsParts st format @ [p])\<rparr>))
      else if fKind f = ''tokenizer'' then Inr (st\<lparr>vsTokenizer := vsTokenizer st + 1\<rparr>)
      else if fKind f = ''chat-template'' then Inr (st\<lparr>vsChat := vsChat st + 1\<rparr>)
      else if fKind f = ''runtime-config'' then
        (if fRuntime f = [] then Inl (verr ClassValidation (MissingRuntime (fName f)))
         else if fRuntime f \<in> set (vsRuntimes st)
         then Inl (verr ClassValidationRtDup (RuntimeDup (fRuntime f)))
         else Inr (st\<lparr>vsRuntimes := fRuntime f # vsRuntimes st\<rparr>))
      else if fKind f = ''weights.aux'' \<or> fKind f = ''adapter'' \<or> fKind f = ''code'' then Inr st
      else Inl (verr ClassValidation (UnknownKind (fName f) (fKind f))))"

text \<open>One turn of the loop over the files.\<close>

definition vm_file :: "nat \<Rightarrow> File \<Rightarrow> vstate \<Rightarrow> validation_error + vstate" where
  "vm_file i f st =
     (case ValidateFileName (fName f) of
        Some e \<Rightarrow> Inl e
      | None \<Rightarrow>
        if fName f \<in> set (vsSeen st) then Inl (verr ClassValidation (DuplicateName (fName f)))
        else
        let st = st\<lparr>vsSeen := fName f # vsSeen st\<rparr> in
        if \<not> IsDigest (fDigest f) then Inl (verr ClassValidation (BadDigest (fName f)))
        else if fSize f \<le> 0 then Inl (verr ClassValidation (BadSize (fName f)))
        else if \<not> IsDigest (fMerkleRoot f) then Inl (verr ClassValidation (BadMerkleRoot (fName f)))
        else
        case vm_kind f st of
          Inl e \<Rightarrow> Inl e
        | Inr st \<Rightarrow>
          (case vsPrev st of
             Some prev \<Rightarrow>
               if fileOrder prev f > 0 then Inl (verr ClassValidationOrder (OrderViolation i (fName f)))
               else Inr (st\<lparr>vsPrev := Some f\<rparr>)
           | None \<Rightarrow> Inr (st\<lparr>vsPrev := Some f\<rparr>)))"

fun vm_loop :: "nat \<Rightarrow> File list \<Rightarrow> vstate \<Rightarrow> validation_error + vstate" where
  "vm_loop i [] st = Inr st"
| "vm_loop i (f # fs) st = bind_res (vm_file i f st) (vm_loop (Suc i) fs)"

text \<open>The proper path prefixes of a name, shortest first.\<close>

definition dir_prefixes :: "string \<Rightarrow> string list" where
  "dir_prefixes name =
     (let segs = split_on (CHR ''/'') name in
      map (\<lambda>i. join_with ''/'' (take i segs)) [1..<length segs])"

fun vm_collisions :: "string list \<Rightarrow> string list \<Rightarrow> (string \<times> string) option" where
  "vm_collisions names [] = None"
| "vm_collisions names (n # ns) =
     (case find (\<lambda>p. p \<in> set names) (dir_prefixes n) of
        Some p \<Rightarrow> Some (n, p)
      | None \<Rightarrow> vm_collisions names ns)"

definition parts_contiguous :: "int list \<Rightarrow> bool" where
  "parts_contiguous ps = (sort ps = map int [1..<Suc (length ps)])"

definition ValidateManifest :: "Manifest \<Rightarrow> validation_error option" where
  "ValidateManifest m =
     (if mSchemaVersion m \<noteq> 1 \<or> mArtifactType m \<noteq> ''model''
      then Some (verr ClassValidation SchemaOrType)
      else if mFiles m = [] then Some (verr ClassValidation NoFiles)
      else
      case vm_loop 0 (mFiles m) vs_init of
        Inl e \<Rightarrow> Some e
      | Inr st \<Rightarrow>
        if vsConfig st \<noteq> 1 then Some (verr ClassValidation (ConfigCount (vsConfig st)))
        else if vsFormat st = [] then Some (verr ClassValidationWeights0 NoWeights)
        else if vsTokenizer st > 1 then Some (verr ClassValidationCard (TokenizerCount (vsTokenizer st)))
        else if vsChat st > 1 then Some (verr ClassValidationCard (ChatCount (vsChat st)))
        else
        case vm_collisions (map fName (mFiles m)) (map fName (mFiles m)) of
          Some (n, p) \<Rightarrow> Some (verr ClassValidation (PathCollision n p))
        | None \<Rightarrow>
          (case find (\<lambda>format. \<not> parts_contiguous (vsParts st format)) [''gguf'', ''safetensors''] of
             Some format \<Rightarrow>
               Some (verr ClassValidationParts (PartsGap format (sort (vsParts st format))))
           | None \<Rightarrow> None))"

subsection \<open>Indexes and distribution records\<close>

fun vi_loop :: "nat \<Rightarrow> IndexMember list \<Rightarrow> string list \<Rightarrow> validation_error option" where
  "vi_loop i [] seen = None"
| "vi_loop i (m # ms) seen =
     (if \<not> IsDigest (imManifest m) then Some (verr ClassValidation (MemberDigest i))
      else if \<not> QuantSyntax (imQuant m) then Some (verr ClassValidation (MemberQuant i (imQuant m)))
      else if imQuant m \<in> set seen then Some (verr ClassValidationQuantDup (QuantDup (imQuant m)))
      else vi_loop (Suc i) ms (imQuant m # seen))"

definition ValidateIndexMembers :: "IndexMember list \<Rightarrow> validation_error option" where
  "ValidateIndexMembers members =
     (if members = [] then Some (verr ClassValidation NoMembers) else vi_loop 0 members [])"

definition ValidateIndex :: "Index \<Rightarrow> validation_error option" where
  "ValidateIndex idx =
     (if iSchemaVersion idx \<noteq> 1 \<or> iArtifactType idx \<noteq> ''model-index''
      then Some (verr ClassValidation SchemaOrType)
      else ValidateIndexMembers (iMembers idx))"

definition reInfohash :: "string \<Rightarrow> bool" where
  "reInfohash s =
     (HasPrefix s ''btmh:1220'' \<and> length s = 9 + 64 \<and> list_all is_lhex (drop 9 s))"

definition ValidateDistribution :: "DistributionRecord \<Rightarrow> validation_error option" where
  "ValidateDistribution d =
     (if dSchemaVersion d \<noteq> 1 \<or> dArtifactType d \<noteq> ''distribution''
      then Some (verr ClassValidation SchemaOrType)
      else if \<not> IsDigest (dManifestDigest d) then Some (verr ClassValidation DistManifestDigest)
      else if \<not> reInfohash (tInfohash (dTorrent d))
      then Some (verr ClassValidationInfohash DistInfohash)
      else
        let pl = tPieceLength (dTorrent d) in
        if pl < 16384 \<or> pl AND (pl - 1) \<noteq> 0 then Some (verr ClassValidation DistPieceLength)
        else if \<not> IsDigest (tPieceLayersDigest (dTorrent d))
        then Some (verr ClassValidation DistLayersDigest)
        else None)"

definition ValidateArtifact :: "codec \<Rightarrow> string \<Rightarrow> string \<times> validation_error option" where
  "ValidateArtifact c raw =
     (case decHead c raw of
        Inl e \<Rightarrow> ([], Some (verr ClassValidation (NotADocument e)))
      | Inr (schemaVersion, artifactType) \<Rightarrow>
        if schemaVersion \<noteq> 1 then ([], Some (verr ClassValidation SchemaOrType))
        else if artifactType = [] then ([], Some (verr ClassValidation NoArtifactType))
        else if artifactType = ''model'' then
          (case decManifest c raw of
             Inl e \<Rightarrow> ([], Some (verr ClassValidation (NotADocument e)))
           | Inr m \<Rightarrow> (artifactType, ValidateManifest m))
        else if artifactType = ''model-index'' then
          (case decIndex c raw of
             Inl e \<Rightarrow> ([], Some (verr ClassValidation (NotADocument e)))
           | Inr idx \<Rightarrow> (artifactType, ValidateIndex idx))
        else if artifactType = ''distribution'' then
          (case decDist c raw of
             Inl e \<Rightarrow> ([], Some (verr ClassValidation (NotADocument e)))
           | Inr d \<Rightarrow> (artifactType, ValidateDistribution d))
        else ([], Some (verr ClassValidationKind (UnknownType artifactType))))"

definition UpsertMember :: "IndexMember list \<Rightarrow> IndexMember \<Rightarrow> IndexMember list" where
  "UpsertMember members m =
     sort_by (\<lambda>a b. imQuant a < imQuant b) (filter (\<lambda>e. imQuant e \<noteq> imQuant m) members @ [m])"

definition SealIndex :: "codec \<Rightarrow> IndexMember list \<Rightarrow> string + string \<times> string" where
  "SealIndex c members =
     bind_res (canonIndex c \<lparr>iSchemaVersion = 1, iArtifactType = ''model-index'', iMembers = members\<rparr>)
       (\<lambda>b. Inr (b, Digest b))"

subsection \<open>The order of the files\<close>

text \<open>
  The comparator is the order of a key, as long as no part number is near the end of the
  \<open>int64\<close> range, where the difference of two parts would wrap around.
\<close>

definition file_key :: "File \<Rightarrow> int \<times> int \<times> string \<times> string" where
  "file_key f =
     (kindRank (fKind f),
      if fKind f = ''weights.gguf'' \<or> fKind f = ''weights.safetensors''
        then (derefPart (fPart f), fDigest f, [])
      else if fKind f = ''weights.aux'' then (0, fName f, [])
      else if fKind f = ''runtime-config'' then (0, fRuntime f, [])
      else if fKind f = ''code'' then (0, fCodeRole f, fName f)
      else (0, fDigest f, []))"

definition part_in_range :: "File \<Rightarrow> bool" where
  "part_in_range f = (- (2 ^ 62) \<le> derefPart (fPart f) \<and> derefPart (fPart f) < 2 ^ 62)"

lemma Compare_simps [simp]:
  "Compare a b < 0 \<longleftrightarrow> a < b" "Compare a b = 0 \<longleftrightarrow> a = b" "0 < Compare a b \<longleftrightarrow> b < a"
  by (auto simp: Compare_def)

lemma kindRank_eq:
  "kindRank k = kindRank l \<Longrightarrow>
     (k = ''weights.gguf'' \<or> k = ''weights.safetensors'') = (l = ''weights.gguf'' \<or> l = ''weights.safetensors'')"
  "kindRank k = kindRank l \<Longrightarrow> (k = ''weights.aux'') = (l = ''weights.aux'')"
  "kindRank k = kindRank l \<Longrightarrow> (k = ''runtime-config'') = (l = ''runtime-config'')"
  "kindRank k = kindRank l \<Longrightarrow> (k = ''code'') = (l = ''code'')"
  by (auto simp: kindRank_def split: if_splits)

lemma part_diff: "part_in_range a \<Longrightarrow> part_in_range b \<Longrightarrow>
   wrap64 (derefPart (fPart a) - derefPart (fPart b)) = derefPart (fPart a) - derefPart (fPart b)"
  by (rule wrap64_id) (auto simp: part_in_range_def is_int64_def)

lemma fileOrder_key:
  assumes "part_in_range a" "part_in_range b"
  shows "fileOrder a b < 0 \<longleftrightarrow> file_key a < file_key b" "fileOrder a b = 0 \<longleftrightarrow> file_key a = file_key b"
    "0 < fileOrder a b \<longleftrightarrow> file_key b < file_key a"
proof -
  have "(fileOrder a b < 0 \<longleftrightarrow> file_key a < file_key b) \<and> (fileOrder a b = 0 \<longleftrightarrow> file_key a = file_key b)
    \<and> (0 < fileOrder a b \<longleftrightarrow> file_key b < file_key a)"
  proof (cases "kindRank (fKind a) = kindRank (fKind b)")
    case True
    note k = kindRank_eq [OF True] and p = part_diff [OF assms]
    consider "fKind a = ''weights.gguf'' \<or> fKind a = ''weights.safetensors''" | "fKind a = ''weights.aux''"
      | "fKind a = ''runtime-config''" | "fKind a = ''code''"
      | "fKind a \<notin> {''weights.gguf'', ''weights.safetensors'', ''weights.aux'', ''runtime-config'', ''code''}"
      by blast
    then show ?thesis
    proof cases
      case 1
      then show ?thesis using k True p by (auto simp: fileOrder_def file_key_def Let_def)
    next
      case 2
      then show ?thesis using k True by (auto simp: fileOrder_def file_key_def Let_def)
    next
      case 3
      then show ?thesis using k True by (auto simp: fileOrder_def file_key_def Let_def)
    next
      case 4
      then show ?thesis using k True by (auto simp: fileOrder_def file_key_def Let_def)
    next
      case 5
      then show ?thesis using k True by (auto simp: fileOrder_def file_key_def Let_def)
    qed
  qed (auto simp: fileOrder_def file_key_def Let_def)
  then show "fileOrder a b < 0 \<longleftrightarrow> file_key a < file_key b" "fileOrder a b = 0 \<longleftrightarrow> file_key a = file_key b"
    "0 < fileOrder a b \<longleftrightarrow> file_key b < file_key a"
    by blast+
qed

interpretation file_order: comparator "\<lambda>a b. fileOrder a b < 0" part_in_range
  by unfold_locales (auto simp: fileOrder_key)

interpretation quant_order: comparator "\<lambda>a b. imQuant a < imQuant b" "\<lambda>_. True"
  by unfold_locales auto

subsection \<open>What a valid manifest is\<close>

definition is_weights :: "File \<Rightarrow> bool" where
  "is_weights f = (fKind f = ''weights.gguf'' \<or> fKind f = ''weights.safetensors'')"

definition known_kinds :: "string list" where
  "known_kinds = [''config'', ''weights.gguf'', ''weights.safetensors'', ''weights.aux'', ''tokenizer'',
     ''chat-template'', ''adapter'', ''runtime-config'', ''code'']"

definition entry_wf :: "File \<Rightarrow> bool" where
  "entry_wf f =
     (ValidateFileName (fName f) = None \<and> IsDigest (fDigest f) \<and> 0 < fSize f \<and> IsDigest (fMerkleRoot f)
      \<and> fKind f \<in> set known_kinds
      \<and> (fKind f = ''config'' \<longrightarrow> fName f = ''modelconfig.json'')
      \<and> (fKind f = ''runtime-config'' \<longrightarrow> fRuntime f \<noteq> []))"

definition of_kind :: "string \<Rightarrow> File list \<Rightarrow> File list" where
  "of_kind k fs = filter (\<lambda>f. fKind f = k) fs"

definition parts_of :: "string \<Rightarrow> File list \<Rightarrow> int list" where
  "parts_of k fs = concat (map (\<lambda>f. case fPart f of None \<Rightarrow> [] | Some p \<Rightarrow> [p]) (of_kind k fs))"

definition files_ok :: "File list \<Rightarrow> bool" where
  "files_ok fs \<longleftrightarrow>
     list_all entry_wf fs \<and> distinct (map fName fs)
     \<and> distinct (map fRuntime (of_kind ''runtime-config'' fs))
     \<and> (of_kind ''weights.gguf'' fs = [] \<or> of_kind ''weights.safetensors'' fs = [])
     \<and> successively (\<lambda>a b. fileOrder a b \<le> 0) fs"

definition manifest_ok :: "Manifest \<Rightarrow> bool" where
  "manifest_ok m \<longleftrightarrow>
     mSchemaVersion m = 1 \<and> mArtifactType m = ''model'' \<and> files_ok (mFiles m)
     \<and> length (of_kind ''config'' (mFiles m)) = 1
     \<and> (\<exists>f \<in> set (mFiles m). is_weights f)
     \<and> length (of_kind ''tokenizer'' (mFiles m)) \<le> 1 \<and> length (of_kind ''chat-template'' (mFiles m)) \<le> 1
     \<and> (\<forall>f \<in> set (mFiles m). \<forall>g \<in> set (mFiles m). \<not> HasPrefix (fName g) (fName f @ ''/''))
     \<and> parts_contiguous (parts_of ''weights.gguf'' (mFiles m))
     \<and> parts_contiguous (parts_of ''weights.safetensors'' (mFiles m))"

text \<open>The loop state after a prefix of the files.\<close>

definition format_of :: "File list \<Rightarrow> string" where
  "format_of fs = (if of_kind ''weights.gguf'' fs \<noteq> [] then ''gguf''
                   else if of_kind ''weights.safetensors'' fs \<noteq> [] then ''safetensors'' else [])"

definition state_of :: "File list \<Rightarrow> vstate" where
  "state_of fs =
     \<lparr>vsSeen = rev (map fName fs), vsFormat = format_of fs,
      vsParts = (\<lambda>fmt. if fmt = ''gguf'' then parts_of ''weights.gguf'' fs
                       else if fmt = ''safetensors'' then parts_of ''weights.safetensors'' fs else []),
      vsConfig = length (of_kind ''config'' fs), vsTokenizer = length (of_kind ''tokenizer'' fs),
      vsChat = length (of_kind ''chat-template'' fs),
      vsRuntimes = rev (map fRuntime (of_kind ''runtime-config'' fs)),
      vsPrev = (if fs = [] then None else Some (last fs))\<rparr>"

lemma of_kind_append [simp]: "of_kind k (xs @ ys) = of_kind k xs @ of_kind k ys"
  and of_kind_Cons: "of_kind k (x # xs) = (if fKind x = k then x # of_kind k xs else of_kind k xs)"
  and of_kind_Nil [simp]: "of_kind k [] = []"
  by (simp_all add: of_kind_def)

lemma parts_of_append [simp]: "parts_of k (xs @ ys) = parts_of k xs @ parts_of k ys"
  by (simp add: parts_of_def)

lemma vm_loop_append:
  "vm_loop i (xs @ ys) st = bind_res (vm_loop i xs st) (vm_loop (i + length xs) ys)"
proof (induction xs arbitrary: i st)
  case (Cons x xs)
  then show ?case by (cases "vm_file i x st") auto
qed simp

lemma Trim_weights [simp]:
  "TrimPrefix ''weights.gguf'' ''weights.'' = ''gguf''"
  "TrimPrefix ''weights.safetensors'' ''weights.'' = ''safetensors''"
  by (simp_all add: TrimPrefix_def HasPrefix_def)

definition kind_step :: "File list \<Rightarrow> File \<Rightarrow> bool" where
  "kind_step pre f \<longleftrightarrow>
     fKind f \<in> set known_kinds
     \<and> (fKind f = ''config'' \<longrightarrow> fName f = ''modelconfig.json'')
     \<and> (fKind f = ''runtime-config'' \<longrightarrow> fRuntime f \<noteq> [] \<and> fRuntime f \<notin> fRuntime ` set (of_kind ''runtime-config'' pre))
     \<and> (fKind f = ''weights.gguf'' \<longrightarrow> of_kind ''weights.safetensors'' pre = [])
     \<and> (fKind f = ''weights.safetensors'' \<longrightarrow> of_kind ''weights.gguf'' pre = [])"

definition add_seen :: "File \<Rightarrow> vstate \<Rightarrow> vstate" where
  "add_seen f st = st\<lparr>vsSeen := fName f # vsSeen st\<rparr>"

lemma state_snoc:
  assumes "fKind f \<noteq> ''weights.gguf''" "fKind f \<noteq> ''weights.safetensors''"
  shows "(state_of (pre @ [f]))\<lparr>vsPrev := vsPrev (state_of pre)\<rparr> =
    (add_seen f (state_of pre))
      \<lparr>vsConfig := vsConfig (state_of pre) + (if fKind f = ''config'' then 1 else 0),
       vsTokenizer := vsTokenizer (state_of pre) + (if fKind f = ''tokenizer'' then 1 else 0),
       vsChat := vsChat (state_of pre) + (if fKind f = ''chat-template'' then 1 else 0),
       vsRuntimes := (if fKind f = ''runtime-config'' then [fRuntime f] else []) @ vsRuntimes (state_of pre)\<rparr>"
  using assms by (simp add: state_of_def add_seen_def format_of_def parts_of_def of_kind_Cons fun_eq_iff)

lemma vm_kind_step:
  assumes "of_kind ''weights.gguf'' pre = [] \<or> of_kind ''weights.safetensors'' pre = []"
  shows "vm_kind f (add_seen f (state_of pre)) = Inr st \<longleftrightarrow>
     kind_step pre f \<and> st = (state_of (pre @ [f]))\<lparr>vsPrev := vsPrev (state_of pre)\<rparr>"
proof -
  have runtimes: "vsRuntimes (state_of pre) = rev (map fRuntime (of_kind ''runtime-config'' pre))"
    by (simp add: state_of_def)
  consider "fKind f = ''weights.gguf''" | "fKind f = ''weights.safetensors''" | "fKind f = ''config''"
    | "fKind f = ''tokenizer''" | "fKind f = ''chat-template''" | "fKind f = ''runtime-config''"
    | "fKind f = ''weights.aux''" | "fKind f = ''adapter''" | "fKind f = ''code''"
    | "fKind f \<notin> set known_kinds"
    by (auto simp: known_kinds_def)
  then show ?thesis
  proof cases
    case 1
    then show ?thesis using assms
      by (cases "fPart f")
        (auto simp: vm_kind_def add_seen_def state_of_def kind_step_def known_kinds_def format_of_def
          parts_of_def of_kind_Cons Let_def fun_eq_iff)
  next
    case 2
    then show ?thesis using assms
      by (cases "fPart f")
        (auto simp: vm_kind_def add_seen_def state_of_def kind_step_def known_kinds_def format_of_def
          parts_of_def of_kind_Cons Let_def fun_eq_iff)
  next
    case 3
    then show ?thesis by (auto simp: vm_kind_def kind_step_def known_kinds_def state_snoc add_seen_def runtimes)
  next
    case 4
    then show ?thesis by (auto simp: vm_kind_def kind_step_def known_kinds_def state_snoc add_seen_def runtimes)
  next
    case 5
    then show ?thesis by (auto simp: vm_kind_def kind_step_def known_kinds_def state_snoc add_seen_def runtimes)
  next
    case 6
    then show ?thesis by (auto simp: vm_kind_def kind_step_def known_kinds_def state_snoc add_seen_def runtimes)
  next
    case 7
    then show ?thesis by (auto simp: vm_kind_def kind_step_def known_kinds_def state_snoc add_seen_def runtimes)
  next
    case 8
    then show ?thesis by (auto simp: vm_kind_def kind_step_def known_kinds_def state_snoc add_seen_def runtimes)
  next
    case 9
    then show ?thesis by (auto simp: vm_kind_def kind_step_def known_kinds_def state_snoc add_seen_def runtimes)
  next
    case 10
    then show ?thesis by (auto simp: vm_kind_def kind_step_def known_kinds_def state_snoc add_seen_def runtimes)
  qed
qed

lemma files_ok_snoc:
  "files_ok (fs @ [f]) \<longleftrightarrow>
     files_ok fs \<and> ValidateFileName (fName f) = None \<and> fName f \<notin> fName ` set fs \<and> IsDigest (fDigest f)
     \<and> 0 < fSize f \<and> IsDigest (fMerkleRoot f) \<and> kind_step fs f
     \<and> (fs \<noteq> [] \<longrightarrow> fileOrder (last fs) f \<le> 0)"
  by (cases "fKind f = ''weights.gguf''"; cases "fKind f = ''weights.safetensors''";
      cases "fKind f = ''runtime-config''"; cases "fs = []")
    (auto simp: files_ok_def entry_wf_def kind_step_def of_kind_Cons successively_append_iff)

lemma vsPrev_state_of: "vsPrev (state_of fs) = (if fs = [] then None else Some (last fs))"
  and vsSeen_state_of: "vsSeen (state_of fs) = rev (map fName fs)"
  by (simp_all add: state_of_def)

lemma vm_file_eq:
  "vm_file i f st =
     (case ValidateFileName (fName f) of
        Some e \<Rightarrow> Inl e
      | None \<Rightarrow>
        if fName f \<in> set (vsSeen st) then Inl (verr ClassValidation (DuplicateName (fName f)))
        else if \<not> IsDigest (fDigest f) then Inl (verr ClassValidation (BadDigest (fName f)))
        else if fSize f \<le> 0 then Inl (verr ClassValidation (BadSize (fName f)))
        else if \<not> IsDigest (fMerkleRoot f) then Inl (verr ClassValidation (BadMerkleRoot (fName f)))
        else
        case vm_kind f (add_seen f st) of
          Inl e \<Rightarrow> Inl e
        | Inr st' \<Rightarrow>
          (case vsPrev st' of
             Some prev \<Rightarrow>
               if fileOrder prev f > 0 then Inl (verr ClassValidationOrder (OrderViolation i (fName f)))
               else Inr (st'\<lparr>vsPrev := Some f\<rparr>)
           | None \<Rightarrow> Inr (st'\<lparr>vsPrev := Some f\<rparr>)))"
  unfolding vm_file_def add_seen_def Let_def by (rule refl)

lemma vm_file_step:
  assumes "files_ok fs"
  shows "vm_file i f (state_of fs) = Inr st \<longleftrightarrow> files_ok (fs @ [f]) \<and> st = state_of (fs @ [f])"
proof -
  have wt: "of_kind ''weights.gguf'' fs = [] \<or> of_kind ''weights.safetensors'' fs = []"
    using assms by (simp add: files_ok_def)
  let ?st = "state_of (fs @ [f])"
  have prev: "(?st\<lparr>vsPrev := p\<rparr>)\<lparr>vsPrev := Some f\<rparr> = ?st" for p
    by (simp add: state_of_def)
  show ?thesis
  proof (cases "kind_step fs f")
    case True
    then have k: "vm_kind f (add_seen f (state_of fs)) = Inr (?st\<lparr>vsPrev := vsPrev (state_of fs)\<rparr>)"
      using vm_kind_step [OF wt] by simp
    show ?thesis
      using True k prev assms
      by (auto simp: vm_file_eq files_ok_snoc vsPrev_state_of vsSeen_state_of
          split: option.splits if_splits)
  next
    case False
    then have "vm_kind f (add_seen f (state_of fs)) \<noteq> Inr x" for x
      using vm_kind_step [OF wt] by simp
    then obtain e where "vm_kind f (add_seen f (state_of fs)) = Inl e"
      by (cases "vm_kind f (add_seen f (state_of fs))") auto
    then show ?thesis
      using False by (auto simp: vm_file_eq files_ok_snoc split: option.splits if_splits)
  qed
qed

lemma vm_loop_state: "vm_loop 0 fs vs_init = Inr st \<longleftrightarrow> files_ok fs \<and> st = state_of fs"
proof (induction fs arbitrary: st rule: rev_induct)
  case Nil
  have "state_of [] = vs_init"
    by (simp add: state_of_def vs_init_def format_of_def parts_of_def fun_eq_iff)
  then show ?case by (auto simp: files_ok_def)
next
  case (snoc f fs)
  have "vm_loop 0 (fs @ [f]) vs_init = Inr st \<longleftrightarrow>
      (\<exists>st0. vm_loop 0 fs vs_init = Inr st0 \<and> vm_file (length fs) f st0 = Inr st)"
    by (cases "vm_loop 0 fs vs_init"; cases "vm_file (length fs) f (projr (vm_loop 0 fs vs_init))")
      (auto simp: vm_loop_append)
  also have "\<dots> \<longleftrightarrow> files_ok (fs @ [f]) \<and> st = state_of (fs @ [f])"
    using snoc.IH vm_file_step [of fs "length fs" f st] by (auto simp: files_ok_snoc)
  finally show ?case .
qed

lemma dir_prefixes_iff: "p \<in> set (dir_prefixes n) \<longleftrightarrow> HasPrefix n (p @ ''/'')"
proof
  let ?segs = "split_on (CHR ''/'') n"
  assume "p \<in> set (dir_prefixes n)"
  then obtain i where i: "1 \<le> i" "i < length ?segs" "p = join_with ''/'' (take i ?segs)"
    by (auto simp: dir_prefixes_def Let_def)
  then have "join_with ''/'' (take i ?segs @ drop i ?segs) = p @ ''/'' @ join_with ''/'' (drop i ?segs)"
    by (subst join_with_append) auto
  then show "HasPrefix n (p @ ''/'')"
    by (simp add: join_split HasPrefix_iff) (metis append_Cons append_Nil)
next
  let ?segs = "split_on (CHR ''/'') n"
  assume "HasPrefix n (p @ ''/'')"
  then obtain t where "n = p @ CHR ''/'' # t" by (auto simp: HasPrefix_iff)
  then have segs: "?segs = split_on (CHR ''/'') p @ split_on (CHR ''/'') t"
    by (simp add: split_on_append_sep)
  let ?i = "length (split_on (CHR ''/'') p)"
  have "p = join_with ''/'' (take ?i ?segs)" by (simp add: segs join_split)
  moreover have "?i \<in> set [1..<length ?segs]"
    by (simp add: segs Suc_le_eq)
  ultimately show "p \<in> set (dir_prefixes n)"
    unfolding dir_prefixes_def Let_def set_map by (rule image_eqI)
qed

lemma vm_collisions_None:
  "vm_collisions names ns = None \<longleftrightarrow> (\<forall>n \<in> set ns. \<forall>p \<in> set names. \<not> HasPrefix n (p @ ''/''))"
proof (induction ns)
  case (Cons n ns)
  have "find (\<lambda>p. p \<in> set names) (dir_prefixes n) = None \<longleftrightarrow> (\<forall>p \<in> set names. \<not> HasPrefix n (p @ ''/''))"
    by (auto simp: find_None_iff dir_prefixes_iff)
  with Cons show ?case by (auto split: option.splits)
qed simp

lemma ValidateManifest_spec: "ValidateManifest m = None \<longleftrightarrow> manifest_ok m"
proof (cases "files_ok (mFiles m)")
  case False
  then have "\<nexists>st. vm_loop 0 (mFiles m) vs_init = Inr st" using vm_loop_state by blast
  then obtain e where "vm_loop 0 (mFiles m) vs_init = Inl e" by (cases "vm_loop 0 (mFiles m) vs_init") auto
  then show ?thesis using False by (simp add: ValidateManifest_def manifest_ok_def)
next
  case True
  let ?fs = "mFiles m"
  have st: "vm_loop 0 ?fs vs_init = Inr (state_of ?fs)" using True by (simp add: vm_loop_state)
  have w: "format_of ?fs = [] \<longleftrightarrow> \<not> (\<exists>f \<in> set ?fs. is_weights f)"
    by (auto simp: format_of_def is_weights_def of_kind_def filter_empty_conv)
  have parts: "vsParts (state_of ?fs) ''gguf'' = parts_of ''weights.gguf'' ?fs"
    "vsParts (state_of ?fs) ''safetensors'' = parts_of ''weights.safetensors'' ?fs"
    by (simp_all add: state_of_def)
  have coll: "vm_collisions (map fName ?fs) (map fName ?fs) = None \<longleftrightarrow>
      (\<forall>f \<in> set ?fs. \<forall>g \<in> set ?fs. \<not> HasPrefix (fName g) (fName f @ ''/''))"
    by (auto simp: vm_collisions_None)
  have rest: "vsConfig (state_of ?fs) = length (of_kind ''config'' ?fs)"
    "vsFormat (state_of ?fs) = format_of ?fs" "vsTokenizer (state_of ?fs) = length (of_kind ''tokenizer'' ?fs)"
    "vsChat (state_of ?fs) = length (of_kind ''chat-template'' ?fs)"
    by (simp_all add: state_of_def)
  have ne: "length (of_kind ''config'' ?fs) = 1 \<Longrightarrow> ?fs \<noteq> []" by auto
  have fnd: "find (\<lambda>format. \<not> parts_contiguous (vsParts (state_of ?fs) format)) [''gguf'', ''safetensors''] = None
    \<longleftrightarrow> parts_contiguous (parts_of ''weights.gguf'' ?fs) \<and> parts_contiguous (parts_of ''weights.safetensors'' ?fs)"
    by (simp add: parts)
  show ?thesis
    using True ne
    by (simp add: ValidateManifest_def manifest_ok_def st rest fnd coll [symmetric] w
        split: option.split prod.split) (use fnd in \<open>auto split: option.splits\<close>)
qed

subsection \<open>Properties\<close>

text \<open>
  C6: \<open>ValidateManifest\<close> accepts exactly the manifests of the specification: every entry well
  formed, names unique and none a directory of another, exactly one config, one weights format
  with at least one file, at most one tokenizer and one chat template, one runtime config per
  runtime, canonical order, and part numbers that are a permutation of \<open>1..n\<close>.
\<close>

theorem ValidateManifest_iff: "ValidateManifest m = None \<longleftrightarrow> manifest_ok m"
  by (rule ValidateManifest_spec)

text \<open>
  A file name is accepted exactly when it is a path of non-empty segments other than \<open>.\<close>
  and \<open>..\<close>, without a backslash, whose first segment is not the reserved \<open>manifest\<close>. So no
  accepted name can climb out of a directory or meet the embedded manifest in the torrent tree.
\<close>

lemma ValidateFileName_iff:
  "ValidateFileName n = None \<longleftrightarrow>
     (let segs = split_on (CHR ''/'') n in
      hd segs \<noteq> ''manifest'' \<and> CHR 0x5C \<notin> set n \<and> {[], ''.'', ''..''} \<inter> set segs = {})"
proof -
  have "hd (split_on (CHR ''/'') n) = ''manifest'' \<longleftrightarrow> n = ''manifest'' \<or> HasPrefix n ''manifest/''"
    using hd_split_on [of "CHR ''/''" n "''manifest''"] by simp
  moreover have "[] \<in> set (split_on (CHR ''/'') n) \<longleftrightarrow>
      n = [] \<or> HasPrefix n ''/'' \<or> HasSuffix n ''/'' \<or> Contains n ''//''"
    by (rule empty_segment)
  ultimately show ?thesis
    by (auto simp: ValidateFileName_def Let_def list_ex_iff)
qed

lemma sorted_wrt_successively: "sorted_wrt P xs \<Longrightarrow> successively P xs"
  by (induction xs rule: induct_list012) auto

lemma files_in_order: "successively (\<lambda>a b. \<not> fileOrder b a < 0) (SortFiles fs)"
  if "\<And>f. f \<in> set fs \<Longrightarrow> part_in_range f"
  using file_order.sort_in_order [of fs] that by (auto simp: SortFiles_def intro: sorted_wrt_successively)

lemma SortFiles_in_order:
  assumes "\<forall>f \<in> set fs. part_in_range f"
  shows "successively (\<lambda>a b. fileOrder a b \<le> 0) (SortFiles fs)"
proof -
  have r: "\<And>f. f \<in> set fs \<Longrightarrow> part_in_range f" using assms by blast
  show ?thesis
  proof (rule successively_mono [OF files_in_order [OF r], rotated])
    show "fileOrder a b \<le> 0" if "a \<in> set (SortFiles fs)" "b \<in> set (SortFiles fs)" "\<not> fileOrder b a < 0" for a b
      using that r by (simp add: SortFiles_def fileOrder_key linorder_not_less)
        (metis fileOrder_key(3) linorder_not_less)
  qed simp
qed

text \<open>
  \<open>SortFiles\<close> produces the order \<open>ValidateManifest\<close> asks for, without losing or inventing an
  entry; and when no two entries compare equal the result does not depend on the order the files
  came in, so a manifest sealed from the same files is the same manifest.
\<close>

lemma SortFiles_canonical:
  assumes "\<forall>f \<in> set fs. part_in_range f"
  shows "mset (SortFiles fs) = mset fs \<and> successively (\<lambda>a b. fileOrder a b \<le> 0) (SortFiles fs)
    \<and> (inj_on file_key (set fs) \<and> mset fs' = mset fs \<longrightarrow> SortFiles fs' = SortFiles fs)"
proof -
  have r: "\<And>f. f \<in> set fs \<Longrightarrow> part_in_range f" using assms by blast
  have "SortFiles fs' = SortFiles fs" if "inj_on file_key (set fs)" "mset fs' = mset fs"
    unfolding SortFiles_def
  proof (rule file_order.sort_by_unique)
    have s: "set fs' = set fs" using that(2) by (metis set_mset_mset)
    show "part_in_range f" if "f \<in> set fs'" for f using that s r by blast
    show "a = b" if "a \<in> set fs'" "b \<in> set fs'" "\<not> fileOrder a b < 0" "\<not> fileOrder b a < 0" for a b
      using that s r \<open>inj_on file_key (set fs)\<close> by (auto simp: fileOrder_key inj_on_def)
  qed (rule that(2))
  then show ?thesis using SortFiles_in_order [OF assms] by (auto simp: SortFiles_def)
qed

lemma SortFiles_canonical_witness:
  "mset (SortFiles [\<lparr>fKind = ''weights.gguf'', fDigest = ''d2'', fSize = 1, fName = ''b.gguf'', fPart = Some 2, fRole = [],
        fVariant = [], fRuntime = [], fAdapterType = [], fCodeRole = [], fMerkleRoot = []\<rparr>])
   = {#\<lparr>fKind = ''weights.gguf'', fDigest = ''d2'', fSize = 1, fName = ''b.gguf'', fPart = Some 2, fRole = [],
        fVariant = [], fRuntime = [], fAdapterType = [], fCodeRole = [], fMerkleRoot = []\<rparr>#}"
  by (subst SortFiles_canonical [THEN conjunct1]) (auto simp: part_in_range_def derefPart_def)

definition adapter_entry :: "string \<Rightarrow> File" where
  "adapter_entry name =
     \<lparr>fKind = ''adapter'', fDigest = Digest ''lora'', fSize = 4, fName = name, fPart = None, fRole = [],
      fVariant = [], fRuntime = [], fAdapterType = ''lora'', fCodeRole = [], fMerkleRoot = Digest ''r''\<rparr>"

definition base_entries :: "File list" where
  "base_entries =
     [\<lparr>fKind = ''config'', fDigest = Digest ''c'', fSize = 1, fName = ''modelconfig.json'', fPart = None, fRole = [],
       fVariant = [], fRuntime = [], fAdapterType = [], fCodeRole = [], fMerkleRoot = Digest ''r''\<rparr>,
      \<lparr>fKind = ''weights.gguf'', fDigest = Digest ''w'', fSize = 1, fName = ''w.gguf'', fPart = None, fRole = [],
       fVariant = [], fRuntime = [], fAdapterType = [], fCodeRole = [], fMerkleRoot = Digest ''r''\<rparr>]"

definition model_manifest :: "File list \<Rightarrow> Manifest" where
  "model_manifest fs =
     \<lparr>mSchemaVersion = 1, mArtifactType = ''model'', mFiles = fs, mAnnotations = []\<rparr>"

lemma IsDigest_Digest [simp]: "IsDigest (Digest b)"
  unfolding Digest_def by (rule IsDigest_sha256_hex)

text \<open>
  Without that condition the canonical order is not canonical. Adapters may occur any number
  of times and are compared by digest alone, so two adapter entries with the same content and
  different names may be listed either way round: both manifests are valid, \<open>SortFiles\<close> keeps
  whichever order it was given, and the two documents differ.
\<close>

lemma SortFiles_tie_order:
  "let ab = base_entries @ [adapter_entry ''a'', adapter_entry ''b''];
       ba = base_entries @ [adapter_entry ''b'', adapter_entry ''a''] in
   mset ab = mset ba \<and> SortFiles ab = ab \<and> SortFiles ba = ba \<and> ab \<noteq> ba
   \<and> ValidateManifest (model_manifest ab) = None \<and> ValidateManifest (model_manifest ba) = None"
proof -
  have name: "ValidateFileName ''a'' = None" "ValidateFileName ''b'' = None"
    "ValidateFileName ''w.gguf'' = None" "ValidateFileName ''modelconfig.json'' = None"
    by code_simp+
  have ok: "ValidateManifest (model_manifest (base_entries @ [adapter_entry x, adapter_entry y])) = None"
    if "(x = ''a'' \<and> y = ''b'') \<or> (x = ''b'' \<and> y = ''a'')" for x y
    unfolding ValidateManifest_spec manifest_ok_def files_ok_def
    using that name
    by (auto simp: model_manifest_def base_entries_def adapter_entry_def of_kind_def parts_of_def entry_wf_def
        known_kinds_def is_weights_def parts_contiguous_def fileOrder_def kindRank_def Compare_def HasPrefix_def)
  have sort: "SortFiles (base_entries @ [adapter_entry x, adapter_entry y]) = base_entries @ [adapter_entry x, adapter_entry y]" for x y
    by (simp add: SortFiles_def sort_by_def base_entries_def adapter_entry_def fileOrder_def kindRank_def Compare_def Let_def)
  show ?thesis
    unfolding Let_def using ok sort by (simp add: adapter_entry_def)
qed

subsection \<open>Index members\<close>

lemma vi_loop_None:
  "vi_loop i ms seen = None \<longleftrightarrow>
     (\<forall>m \<in> set ms. IsDigest (imManifest m) \<and> QuantSyntax (imQuant m))
     \<and> distinct (map imQuant ms) \<and> imQuant ` set ms \<inter> set seen = {}"
  by (induction ms arbitrary: i seen) auto

lemma ValidateIndexMembers_None:
  "ValidateIndexMembers ms = None \<longleftrightarrow>
     ms \<noteq> [] \<and> (\<forall>m \<in> set ms. IsDigest (imManifest m) \<and> QuantSyntax (imQuant m)) \<and> distinct (map imQuant ms)"
  by (auto simp: ValidateIndexMembers_def vi_loop_None)

lemma distinct_filter_append:
  "distinct (map imQuant ms) \<Longrightarrow> distinct (map imQuant (filter (\<lambda>e. imQuant e \<noteq> imQuant m) ms @ [m]))"
  by (auto simp: distinct_map_filter)

lemma mset_UpsertMember: "mset (UpsertMember ms m) = add_mset m (filter_mset (\<lambda>e. imQuant e \<noteq> imQuant m) (mset ms))"
  by (simp add: UpsertMember_def)

lemma set_UpsertMember: "set (UpsertMember ms m) = insert m {e \<in> set ms. imQuant e \<noteq> imQuant m}"
  by (auto simp: UpsertMember_def)

lemma distinct_UpsertMember:
  assumes "distinct (map imQuant ms)"
  shows "distinct (map imQuant (UpsertMember ms m))"
proof -
  have "mset (map imQuant (UpsertMember ms m)) = mset (map imQuant (filter (\<lambda>e. imQuant e \<noteq> imQuant m) ms @ [m]))"
    by (simp add: UpsertMember_def)
  then show ?thesis
    using distinct_filter_append [OF assms, of m] by (metis mset_eq_imp_distinct_iff)
qed

lemma UpsertMember_sorted: "sorted_wrt (\<lambda>a b. imQuant a \<le> imQuant b) (UpsertMember ms m)"
  using quant_order.sort_in_order [of "filter (\<lambda>e. imQuant e \<noteq> imQuant m) ms @ [m]"]
  by (simp add: UpsertMember_def not_less)

text \<open>
  Merging a member into a valid index gives a valid index, sorted by quant, that holds the
  new member, every member of another quant and nothing else; and members of different quants can
  be merged in either order with the same result, so the order of imports leaves no trace.
\<close>

lemma UpsertMember_merge:
  assumes "ValidateIndexMembers ms = None" and "IsDigest (imManifest a)" and "QuantSyntax (imQuant a)"
  shows "ValidateIndexMembers (UpsertMember ms a) = None
    \<and> set (UpsertMember ms a) = insert a {e \<in> set ms. imQuant e \<noteq> imQuant a}
    \<and> sorted_wrt (\<lambda>x y. imQuant x \<le> imQuant y) (UpsertMember ms a)
    \<and> (\<forall>b. imQuant b \<noteq> imQuant a \<longrightarrow>
         UpsertMember (UpsertMember ms a) b = UpsertMember (UpsertMember ms b) a)"
proof -
  have ms: "distinct (map imQuant ms)" using assms(1) by (simp add: ValidateIndexMembers_None)
  have comm: "UpsertMember (UpsertMember ms a) b = UpsertMember (UpsertMember ms b) a" if "imQuant b \<noteq> imQuant a" for b
  proof (rule quant_order.sorted_unique)
    show "mset (UpsertMember (UpsertMember ms a) b) = mset (UpsertMember (UpsertMember ms b) a)"
      using that by (auto simp: mset_UpsertMember filter_filter_mset conj_commute)
    have "distinct (map imQuant (UpsertMember (UpsertMember ms a) b))"
      using ms by (intro distinct_UpsertMember)
    then have inj: "inj_on imQuant (set (UpsertMember (UpsertMember ms a) b))" by (simp add: distinct_map)
    show "x = y" if "x \<in> set (UpsertMember (UpsertMember ms a) b)" "y \<in> set (UpsertMember (UpsertMember ms a) b)"
      "\<not> imQuant x < imQuant y" "\<not> imQuant y < imQuant x" for x y
      using inj that by (auto simp: inj_on_def)
  qed (use UpsertMember_sorted in \<open>simp_all add: not_less\<close>)
  show ?thesis
    using assms ms comm UpsertMember_sorted distinct_UpsertMember [OF ms, of a]
    by (auto simp: ValidateIndexMembers_None set_UpsertMember) (auto simp: UpsertMember_def simp flip: set_empty2)
qed

lemma UpsertMember_merge_witness:
  "ValidateIndexMembers (UpsertMember
      [\<lparr>imManifest = Digest ''m'', imQuant = ''q8_0'', imWeightsFormat = ''gguf'', imRevision = []\<rparr>]
      \<lparr>imManifest = Digest ''n'', imQuant = ''q4_k_m'', imWeightsFormat = ''gguf'', imRevision = []\<rparr>) = None"
proof -
  have q: "QuantSyntax ''q8_0''" "QuantSyntax ''q4_k_m''" by code_simp+
  then show ?thesis
    by (intro UpsertMember_merge [THEN conjunct1]) (simp_all add: ValidateIndexMembers_None)
qed

text \<open>
  A distribution record is accepted exactly when it is a version 1 record of canonical
  digests and a version 2 infohash whose piece length is a power of two of at least 16 KiB: the
  bit test of the code is that condition.
\<close>

lemma ValidateDistribution_iff:
  "ValidateDistribution d = None \<longleftrightarrow>
     dSchemaVersion d = 1 \<and> dArtifactType d = ''distribution'' \<and> IsDigest (dManifestDigest d)
     \<and> (\<exists>h. tInfohash (dTorrent d) = ''btmh:1220'' @ h \<and> length h = 64 \<and> list_all is_lhex h)
     \<and> (\<exists>k \<ge> 14. tPieceLength (dTorrent d) = 2 ^ k) \<and> IsDigest (tPieceLayersDigest (dTorrent d))"
proof -
  have ih: "reInfohash s \<longleftrightarrow> (\<exists>h. s = ''btmh:1220'' @ h \<and> length h = 64 \<and> list_all is_lhex h)" for s
  proof
    assume r: "reInfohash s"
    then obtain h where s: "s = ''btmh:1220'' @ h" unfolding reInfohash_def HasPrefix_iff by blast
    have "drop 9 s = h" unfolding s by simp
    with r s show "\<exists>h. s = ''btmh:1220'' @ h \<and> length h = 64 \<and> list_all is_lhex h"
      by (intro exI [of _ h]) (simp add: reInfohash_def)
  next
    assume "\<exists>h. s = ''btmh:1220'' @ h \<and> length h = 64 \<and> list_all is_lhex h"
    then show "reInfohash s" by (auto simp: reInfohash_def HasPrefix_def)
  qed
  have pl: "\<not> pl < 16384 \<and> pl AND (pl - 1) = 0 \<longleftrightarrow> (\<exists>k \<ge> 14. pl = 2 ^ k)" for pl :: int
  proof (cases "0 < pl")
    case True
    have k: "\<not> (2 ^ k :: int) < 16384 \<longleftrightarrow> 14 \<le> k" for k
      using power_increasing_iff [of "2 :: int" 14 k] by (simp add: not_less)
    then show ?thesis unfolding power_of_two_test [OF True] by blast
  next
    case False
    then have "pl \<noteq> 2 ^ k" for k by (metis zero_less_numeral zero_less_power)
    with False show ?thesis by auto
  qed
  show ?thesis
    unfolding ValidateDistribution_def Let_def ih [symmetric] pl [symmetric] by auto
qed

end
