(* ===== verification/Text.thy ===== *)
theory Text
  imports Sha
begin

text \<open>
  Text functions of the Go standard library the program parses its small formats with:
  \<open>strings.TrimSpace\<close>, \<open>strings.Fields\<close>, decimal numbers (\<open>strconv.ParseInt\<close>, \<open>strconv.Atoi\<close>) and their printing,
  and lexical path cleaning (\<open>filepath.Clean\<close>, \<open>filepath.Join\<close>). The lemmas are the facts the formats'
  round trips rest on.
\<close>

subsection \<open>White space\<close>

text \<open>
  The white space \<open>strings.TrimSpace\<close> removes: the ASCII characters, and the UTF-8 encodings of the
  other runes for which \<open>unicode.IsSpace\<close> holds.
\<close>

definition space_char :: "char \<Rightarrow> bool" where
  "space_char c = (c \<in> {CHR '' '', CHR 0x09, CHR 0x0A, CHR 0x0B, CHR 0x0C, CHR 0x0D})"

definition unicode_spaces :: "string list" where
  "unicode_spaces =
     [[CHR 0xC2, CHR 0x85], [CHR 0xC2, CHR 0xA0], [CHR 0xE1, CHR 0x9A, CHR 0x80],
      [CHR 0xE2, CHR 0x80, CHR 0x80], [CHR 0xE2, CHR 0x80, CHR 0x81], [CHR 0xE2, CHR 0x80, CHR 0x82],
      [CHR 0xE2, CHR 0x80, CHR 0x83], [CHR 0xE2, CHR 0x80, CHR 0x84], [CHR 0xE2, CHR 0x80, CHR 0x85],
      [CHR 0xE2, CHR 0x80, CHR 0x86], [CHR 0xE2, CHR 0x80, CHR 0x87], [CHR 0xE2, CHR 0x80, CHR 0x88],
      [CHR 0xE2, CHR 0x80, CHR 0x89], [CHR 0xE2, CHR 0x80, CHR 0x8A], [CHR 0xE2, CHR 0x80, CHR 0xA8],
      [CHR 0xE2, CHR 0x80, CHR 0xA9], [CHR 0xE2, CHR 0x80, CHR 0xAF], [CHR 0xE2, CHR 0x81, CHR 0x9F],
      [CHR 0xE3, CHR 0x80, CHR 0x80]]"

text \<open>The number of bytes of the white space at the start and at the end, 0 if there is none.\<close>

definition leading_space :: "string \<Rightarrow> nat" where
  "leading_space s =
     (if s = [] then 0 else if space_char (hd s) then 1
      else case find (HasPrefix s) unicode_spaces of None \<Rightarrow> 0 | Some w \<Rightarrow> length w)"

definition trailing_space :: "string \<Rightarrow> nat" where
  "trailing_space s =
     (if s = [] then 0 else if space_char (last s) then 1
      else case find (HasSuffix s) unicode_spaces of None \<Rightarrow> 0 | Some w \<Rightarrow> length w)"

function trim_left :: "string \<Rightarrow> string" where
  "trim_left s = (if leading_space s = 0 then s else trim_left (drop (leading_space s) s))"
  by pat_completeness auto
termination by (relation "measure length") (auto simp: leading_space_def split: if_splits)

function trim_right :: "string \<Rightarrow> string" where
  "trim_right s = (if trailing_space s = 0 then s else trim_right (take (length s - trailing_space s) s))"
  by pat_completeness auto
termination by (relation "measure length") (auto simp: trailing_space_def split: if_splits)

declare trim_left.simps [simp del] trim_right.simps [simp del]

definition TrimSpace :: "string \<Rightarrow> string" where
  "TrimSpace s = trim_right (trim_left s)"

text \<open>Text that trimming leaves alone.\<close>

definition trimmed :: "string \<Rightarrow> bool" where
  "trimmed s \<longleftrightarrow> leading_space s = 0 \<and> trailing_space s = 0"

lemma TrimSpace_id: "trimmed s \<Longrightarrow> TrimSpace s = s"
  by (simp add: TrimSpace_def trimmed_def trim_left.simps [of s] trim_right.simps [of s])

lemma trimmed_Nil [simp]: "trimmed []"
  by (simp add: trimmed_def leading_space_def trailing_space_def)

lemma TrimSpace_Nil [simp]: "TrimSpace [] = []"
  by (simp add: TrimSpace_id)

text \<open>An ASCII character that is not white space stops the trimming; it is in no encoded white space.\<close>

definition ascii :: "char \<Rightarrow> bool" where
  "ascii c = (of_char c < (128 :: nat))"

definition solid :: "char \<Rightarrow> bool" where
  "solid c = (ascii c \<and> \<not> space_char c)"

lemma unicode_spaces_not_ascii: "w \<in> set unicode_spaces \<Longrightarrow> w \<noteq> [] \<and> list_all (\<lambda>c. \<not> ascii c) w"
proof -
  have "list_all (\<lambda>w. w \<noteq> [] \<and> list_all (\<lambda>c. \<not> ascii c) w) unicode_spaces" by code_simp
  then show "w \<in> set unicode_spaces \<Longrightarrow> ?thesis" by (simp add: list_all_iff)
qed

lemma space_char_ascii: "space_char c \<Longrightarrow> ascii c"
  by (auto simp: space_char_def ascii_def)

lemma leading_space_0: "leading_space s = 0 \<longleftrightarrow>
    s = [] \<or> \<not> space_char (hd s) \<and> (\<forall>w \<in> set unicode_spaces. \<not> HasPrefix s w)"
proof (cases "find (HasPrefix s) unicode_spaces")
  case None
  then have "\<forall>w \<in> set unicode_spaces. \<not> HasPrefix s w" by (auto simp: find_None_iff)
  then show ?thesis using None by (auto simp: leading_space_def)
next
  case (Some w)
  then have "w \<in> set unicode_spaces" "HasPrefix s w" by (auto simp: find_Some_iff)
  then show ?thesis using Some unicode_spaces_not_ascii [of w] by (auto simp: leading_space_def)
qed

lemma trailing_space_0: "trailing_space s = 0 \<longleftrightarrow>
    s = [] \<or> \<not> space_char (last s) \<and> (\<forall>w \<in> set unicode_spaces. \<not> HasSuffix s w)"
proof (cases "find (HasSuffix s) unicode_spaces")
  case None
  then have "\<forall>w \<in> set unicode_spaces. \<not> HasSuffix s w" by (auto simp: find_None_iff)
  then show ?thesis using None by (auto simp: trailing_space_def)
next
  case (Some w)
  then have "w \<in> set unicode_spaces" "HasSuffix s w" by (auto simp: find_Some_iff)
  then show ?thesis using Some unicode_spaces_not_ascii [of w] by (auto simp: trailing_space_def)
qed

lemma leading_solid: "solid c \<Longrightarrow> leading_space (c # s) = 0"
  by (auto simp: leading_space_0 solid_def HasPrefix_iff Cons_eq_append_conv dest: unicode_spaces_not_ascii)

lemma trailing_solid:
  assumes "s \<noteq> []" and "solid (last s)"
  shows "trailing_space s = 0"
proof -
  have "\<not> HasSuffix s w" if "w \<in> set unicode_spaces" for w
    using unicode_spaces_not_ascii [OF that] assms by (auto simp: HasSuffix_iff solid_def list_all_iff)
  then show ?thesis using assms by (simp add: trailing_space_0 solid_def)
qed

lemma trimmed_solid: "solid c \<Longrightarrow> solid (last (c # s)) \<Longrightarrow> trimmed (c # s)"
  using trailing_solid [of "c # s"] by (simp add: trimmed_def leading_solid)

text \<open>Encoded white space does not straddle the border to an ASCII character.\<close>

lemma leading_append:
  assumes "leading_space s = 0" and "s \<noteq> []" and "ascii c"
  shows "leading_space (s @ c # r) = 0"
proof -
  have "\<not> HasPrefix (s @ c # r) w" if w: "w \<in> set unicode_spaces" for w
  proof
    assume "HasPrefix (s @ c # r) w"
    then obtain u where u: "s @ c # r = w @ u" by (auto simp: HasPrefix_iff)
    have "c \<notin> set w" using unicode_spaces_not_ascii [OF w] assms(3) by (auto simp: list_all_iff)
    then have "HasPrefix s w"
      using u by (auto simp: append_eq_append_conv2 Cons_eq_append_conv HasPrefix_iff)
    then show False using assms(1,2) w by (simp add: leading_space_0)
  qed
  then show ?thesis using assms(1,2) by (simp add: leading_space_0)
qed

lemma TrimSpace_snoc:
  assumes "trimmed s" and "space_char c"
  shows "TrimSpace (s @ [c]) = s"
proof -
  have r: "trim_right (s @ [c]) = s" if "trailing_space s = 0" for s
    using that assms(2) trim_right.simps [of s] trim_right.simps [of "s @ [c]"] by (simp add: trailing_space_def)
  show ?thesis
  proof (cases "s = []")
    case True
    have "trim_left [c] = []"
      using assms(2) trim_left.simps [of "[c]"] trim_left.simps [of "[]"] by (simp add: leading_space_def)
    then show ?thesis using True trim_right.simps [of "[]"] by (simp add: TrimSpace_def trailing_space_def)
  next
    case False
    then have "trim_left (s @ [c]) = s @ [c]"
      using assms leading_append [of s c "[]"] trim_left.simps [of "s @ [c]"] by (simp add: trimmed_def space_char_ascii)
    then show ?thesis using r assms(1) by (simp add: TrimSpace_def trimmed_def)
  qed
qed

lemma TrimSpace_Cons: "space_char c \<Longrightarrow> TrimSpace (c # s) = TrimSpace s"
  using trim_left.simps [of "c # s"] by (simp add: TrimSpace_def leading_space_def)

lemma trim_left_solid: "solid c \<Longrightarrow> c \<in> set s \<Longrightarrow> c \<in> set (trim_left s)"
proof (induction s rule: trim_left.induct)
  case (1 s)
  show ?case
  proof (cases "leading_space s = 0")
    case False
    then have ne: "s \<noteq> []" by (auto simp: leading_space_def)
    have "c \<notin> set (take (leading_space s) s)"
    proof (cases "space_char (hd s)")
      case True
      then show ?thesis using ne 1(2) by (cases s) (auto simp: leading_space_def solid_def)
    next
      case no: False
      then obtain w where "find (HasPrefix s) unicode_spaces = Some w" "leading_space s = length w"
        using False ne by (auto simp: leading_space_def split: option.splits)
      then show ?thesis using unicode_spaces_not_ascii [of w] 1(2)
        by (auto simp: find_Some_iff HasPrefix_def solid_def list_all_iff)
    qed
    then have "c \<in> set (drop (leading_space s) s)"
      using 1(3) by (metis Un_iff append_take_drop_id set_append)
    then show ?thesis using 1(1) [OF False 1(2)] trim_left.simps [of s] False by simp
  qed (use 1 trim_left.simps [of s] in simp)
qed

lemma trim_right_solid: "solid c \<Longrightarrow> c \<in> set s \<Longrightarrow> c \<in> set (trim_right s)"
proof (induction s rule: trim_right.induct)
  case (1 s)
  let ?n = "length s - trailing_space s"
  show ?case
  proof (cases "trailing_space s = 0")
    case False
    then have ne: "s \<noteq> []" by (auto simp: trailing_space_def)
    have "c \<notin> set (drop ?n s)"
    proof (cases "space_char (last s)")
      case True
      then show ?thesis using ne 1(2) by (cases s rule: rev_cases) (auto simp: trailing_space_def solid_def)
    next
      case no: False
      then obtain w where "find (HasSuffix s) unicode_spaces = Some w" "trailing_space s = length w"
        using False ne by (auto simp: trailing_space_def split: option.splits)
      then show ?thesis using unicode_spaces_not_ascii [of w] 1(2)
        by (auto simp: find_Some_iff HasSuffix_def solid_def list_all_iff)
    qed
    then have "c \<in> set (take ?n s)"
      using 1(3) by (metis Un_iff append_take_drop_id set_append)
    then show ?thesis using 1(1) [OF False 1(2)] trim_right.simps [of s] False by simp
  qed (use 1 trim_right.simps [of s] in simp)
qed

lemma TrimSpace_solid: "solid c \<Longrightarrow> c \<in> set s \<Longrightarrow> TrimSpace s \<noteq> []"
  using trim_left_solid [of c s] trim_right_solid [of c "trim_left s"] by (auto simp: TrimSpace_def)

lemma dropWhile_hd: "s \<noteq> [] \<Longrightarrow> \<not> P (hd s) \<Longrightarrow> dropWhile P (s @ t) = s @ t"
  by (cases s) auto

lemma fields_shorter:
  assumes "dropWhile space_char s \<noteq> []"
  shows "length (dropWhile (\<lambda>c. \<not> space_char c) (dropWhile space_char s)) < length s"
proof -
  let ?t = "dropWhile space_char s"
  have h: "\<not> space_char (hd ?t)" using assms by (rule hd_dropWhile)
  have "length (dropWhile (\<lambda>c. \<not> space_char c) ?t) \<le> length (tl ?t)"
    using assms h by (cases ?t) (simp_all add: length_dropWhile_le)
  also have "\<dots> < length ?t" using assms by simp
  also have "\<dots> \<le> length s" by (rule length_dropWhile_le)
  finally show ?thesis .
qed

text \<open>\<open>strings.Fields\<close> on ASCII text.\<close>

function Fields :: "string \<Rightarrow> string list" where
  "Fields s =
     (let t = dropWhile space_char s in
      if t = [] then [] else takeWhile (\<lambda>c. \<not> space_char c) t # Fields (dropWhile (\<lambda>c. \<not> space_char c) t))"
  by pat_completeness auto

termination
  by (relation "measure length") (use fields_shorter in auto)

declare Fields.simps [simp del]

subsection \<open>Decimal numbers\<close>

fun digits_value :: "nat \<Rightarrow> string \<Rightarrow> nat" where
  "digits_value acc [] = acc"
| "digits_value acc (c # cs) = digits_value (10 * acc + (of_char c - 48)) cs"

text \<open>
  \<open>strconv.ParseInt(s, 10, 64)\<close>: an optional sign, at least one digit and nothing else, and the
  value in the range of \<open>int64\<close>.
\<close>

definition ParseInt :: "string \<Rightarrow> int option" where
  "ParseInt s =
     (let neg = (s \<noteq> [] \<and> hd s = CHR ''-'');
          d = (if s \<noteq> [] \<and> hd s \<in> {CHR ''-'', CHR ''+''} then tl s else s);
          v = (if neg then - int (digits_value 0 d) else int (digits_value 0 d)) in
      if d = [] \<or> \<not> list_all is_digit d \<or> \<not> is_int64 v then None else Some v)"

lemma lt10_cases: "(d :: nat) < 10 \<Longrightarrow> d \<in> {0, 1, 2, 3, 4, 5, 6, 7, 8, 9}"
  by auto

lemma digit_char:
  assumes "d < (10 :: nat)"
  shows "is_digit (''0123456789'' ! d) \<and> (of_char (''0123456789'' ! d) :: nat) = 48 + d"
  using lt10_cases [OF assms] by (elim insertE) (simp_all add: is_digit_def of_char_def)

fun dec_nat :: "nat \<Rightarrow> string" where
  "dec_nat n = (if n < 10 then [hex_digit n] else dec_nat (n div 10) @ [hex_digit (n mod 10)])"

declare dec_nat.simps [simp del]

definition dec_int :: "int \<Rightarrow> string" where
  "dec_int i = (if i < 0 then ''-'' @ dec_nat (nat (- i)) else dec_nat (nat i))"

lemma hex_digit_decimal:
  assumes "d < 10"
  shows "is_digit (hex_digit d) \<and> (of_char (hex_digit d) :: nat) = 48 + d"
  using lt10_cases [OF assms] by (elim insertE) (simp_all add: hex_digit_def is_digit_def of_char_def)

lemma digits_value_append: "digits_value acc (a @ b) = digits_value (digits_value acc a) b"
  by (induction a arbitrary: acc) auto

lemma dec_nat_facts: "dec_nat n \<noteq> [] \<and> list_all is_digit (dec_nat n) \<and> digits_value 0 (dec_nat n) = n"
proof (induction n rule: less_induct)
  case (less n)
  show ?case
  proof (cases "n < 10")
    case True
    then show ?thesis using hex_digit_decimal [of n] by (simp add: dec_nat.simps [of n])
  next
    case False
    then have "n div 10 < n" by simp
    from less [OF this] False show ?thesis
      using hex_digit_decimal [of "n mod 10"] by (simp add: dec_nat.simps [of n] digits_value_append)
  qed
qed

lemma ParseInt_digits:
  assumes "d \<noteq> []" "list_all is_digit d"
  shows "ParseInt d = (if is_int64 (int (digits_value 0 d)) then Some (int (digits_value 0 d)) else None)"
proof -
  have "is_digit (hd d)" using assms by (cases d) auto
  then have "hd d \<noteq> CHR ''-''" "hd d \<noteq> CHR ''+''" by (auto simp: is_digit_def)
  then show ?thesis using assms by (simp add: ParseInt_def Let_def)
qed

lemma ParseInt_dec_int: "is_int64 i \<Longrightarrow> ParseInt (dec_int i) = Some i"
  using dec_nat_facts [of "nat i"] dec_nat_facts [of "nat (- i)"] ParseInt_digits [of "dec_nat (nat i)"]
  by (cases "i < 0") (simp_all add: dec_int_def ParseInt_def Let_def)

subsection \<open>Paths\<close>

text \<open>
  \<open>filepath.Clean\<close> on the segments of a path, last one first: empty and \<open>.\<close> segments go, \<open>..\<close> takes
  the segment before it, stays at the front of a relative path and goes at the root.
\<close>

definition clean_segment :: "bool \<Rightarrow> string \<Rightarrow> string list \<Rightarrow> string list" where
  "clean_segment rooted seg acc =
     (if seg = [] \<or> seg = ''.'' then acc
      else if seg = ''..'' then
        (case acc of
           [] \<Rightarrow> if rooted then [] else [seg]
         | x # xs \<Rightarrow> if x = ''..'' then seg # acc else xs)
      else seg # acc)"

definition Clean :: "string \<Rightarrow> string" where
  "Clean p =
     (let rooted = HasPrefix p ''/'';
          segs = rev (fold (clean_segment rooted) (split_on (CHR ''/'') p) []) in
      if rooted then ''/'' @ join_with ''/'' segs
      else if segs = [] then ''.'' else join_with ''/'' segs)"

text \<open>\<open>filepath.Join\<close> leaves empty elements out and cleans the rest.\<close>

definition Join :: "string list \<Rightarrow> string" where
  "Join elems =
     (let es = filter (\<lambda>e. e \<noteq> []) elems in
      if es = [] then [] else Clean (join_with ''/'' es))"

end
