(* ===== verification/Torrent.thy ===== *)
theory Torrent
  imports Artifact Text "HOL-Library.AList"
begin

text \<open>
  \<open>internal/artifact/torrent.go\<close>: bencoding, the BitTorrent v2 merkle tree of a file, the piece
  layers, the piece-length ladder and the construction of the info dictionary. Hashes are raw
  32-byte strings. A panic of the code is the value \<open>Panics\<close>.
\<close>

subsection \<open>Bencoding\<close>

text \<open>The values the encoder accepts; a dictionary is a Go map, an association list here.\<close>

datatype bval =
    BInt int
  | BStr string
  | BList "bval list"
  | BDict "(string \<times> bval) list"

definition benc_str :: "string \<Rightarrow> string" where
  "benc_str s = dec_nat (length s) @ '':'' @ s"

fun bencode :: "bval \<Rightarrow> string" where
  "bencode (BInt i) = ''i'' @ dec_int i @ ''e''"
| "bencode (BStr s) = benc_str s"
| "bencode (BList vs) = ''l'' @ concat (map bencode vs) @ ''e''"
| "bencode (BDict kvs) =
     ''d'' @ concat (map snd (sort_key fst (map (\<lambda>(k, v). (k, benc_str k @ bencode v)) kvs))) @ ''e''"

subsection \<open>The merkle tree\<close>

definition merkleBlockSize :: nat where "merkleBlockSize = 2 ^ 14"

function chunks :: "nat \<Rightarrow> 'a list \<Rightarrow> 'a list list" where
  "chunks n xs = (if xs = [] \<or> n = 0 then [] else take n xs # chunks n (drop n xs))"
  by pat_completeness auto
termination by (relation "measure (\<lambda>(n, xs). length xs)") auto

declare chunks.simps [simp del]

definition merkleLeaves :: "string \<Rightarrow> string list" where
  "merkleLeaves data = map sha256 (chunks merkleBlockSize data)"

function pow2_from :: "nat \<Rightarrow> nat \<Rightarrow> nat" where
  "pow2_from p n = (if 0 < p \<and> p < n then pow2_from (2 * p) n else p)"
  by pat_completeness auto
termination by (relation "measure (\<lambda>(p, n). n - p)") auto

declare pow2_from.simps [simp del]

definition nextPow2 :: "nat \<Rightarrow> nat" where
  "nextPow2 n = (if n < 1 then 1 else pow2_from 1 n)"

definition zero_hash :: string where
  "zero_hash = replicate 32 (CHR 0x00)"

definition pad_leaves :: "string list \<Rightarrow> string list" where
  "pad_leaves leaves = leaves @ replicate (nextPow2 (length leaves) - length leaves) zero_hash"

fun pair_up :: "string list \<Rightarrow> string list" where
  "pair_up (a # b # r) = sha256 (a @ b) # pair_up r"
| "pair_up _ = []"

lemma length_pair_up [simp]: "length (pair_up xs) = length xs div 2"
  by (induction xs rule: pair_up.induct) auto

function reduce_to :: "nat \<Rightarrow> string list \<Rightarrow> string list" where
  "reduce_to target xs =
     (if length xs > target \<and> length xs > 0 then reduce_to target (pair_up xs) else xs)"
  by pat_completeness auto
termination by (relation "measure (\<lambda>(t, xs). length xs)") auto

declare reduce_to.simps [simp del]

definition MerkleRoot :: "string \<Rightarrow> string" where
  "MerkleRoot data =
     (let leaves = merkleLeaves data in
      if leaves = [] then sha256 []
      else hd (reduce_to 1 (pad_leaves leaves)))"

definition PieceLayerHashes :: "string \<Rightarrow> int \<Rightarrow> string list panic" where
  "PieceLayerHashes data pieceLength =
     (let leaves = merkleLeaves data;
          nBlocks = length leaves;
          width = nextPow2 nBlocks;
          bpp = pieceLength div int merkleBlockSize
      in if bpp < 1 \<or> and bpp (bpp - 1) \<noteq> 0 then Panics
         else
           let target = max 1 (width div nat bpp);
               level = reduce_to target (pad_leaves leaves)
           in Returns (map snd (filter (\<lambda>(i, h). i * nat bpp < nBlocks) (enumerate 0 level))))"

definition LadderPieceLength :: "int \<Rightarrow> int" where
  "LadderPieceLength totalSize =
     (if totalSize \<le> 1 * 2 ^ 30 then 1 * 2 ^ 20
      else if totalSize \<le> 8 * 2 ^ 30 then 4 * 2 ^ 20
      else if totalSize \<le> 64 * 2 ^ 30 then 16 * 2 ^ 20
      else if totalSize \<le> 512 * 2 ^ 30 then 64 * 2 ^ 20
      else 256 * 2 ^ 20)"

subsection \<open>The info dictionary\<close>

definition DigestHex :: "string \<Rightarrow> string" where
  "DigestHex d = TrimPrefix d ''sha256:''"

text \<open>A file's entry: the map with the empty key.\<close>

definition file_node :: "int \<Rightarrow> string \<Rightarrow> bval" where
  "file_node sz root = BDict [([], BDict [(''length'', BInt sz), (''pieces root'', BStr root)])]"

fun insertFileTree :: "(string \<times> bval) list \<Rightarrow> string list \<Rightarrow> int \<Rightarrow> string \<Rightarrow> (string \<times> bval) list panic" where
  "insertFileTree node [] sz root = Panics"
| "insertFileTree node [name] sz root =
     (if map_of node name \<noteq> None then Panics
      else Returns (AList.update name (file_node sz root) node))"
| "insertFileTree node (seg # s # path) sz root =
     (let next = (case map_of node seg of Some (BDict d) \<Rightarrow> d | _ \<Rightarrow> []) in
      case insertFileTree next (s # path) sz root of
        Panics \<Rightarrow> Panics
      | Returns d \<Rightarrow> Returns (AList.update seg (BDict d) node))"

record TorrentResult =
  trName :: string
  trPieceLength :: int
  trTotalSize :: int
  trInfohash :: string
  trPieceLayersBencode :: string
  trPieceLayersDigest :: string

datatype build_error =
    ResolveErr string | ContentSize string int int | RootMismatch string string string
  | PinnedNotHex string string

text \<open>The tail both builders share: manifest entry, ladder, info dictionary, infohash.\<close>

definition manifest_entry :: "string \<Rightarrow> string \<Rightarrow> (string \<times> bval) list \<Rightarrow> (string \<times> bval) list" where
  "manifest_entry manifestBytes digestHex tree =
     AList.update ''manifest''
       (BDict [(''sha256-'' @ digestHex,
                BDict [([], BDict [(''length'', BInt (int (length manifestBytes))),
                                   (''pieces root'', BStr (MerkleRoot manifestBytes))])])]) tree"

definition torrent_name :: "string \<Rightarrow> string" where
  "torrent_name digestHex = ''shardr-sha256-'' @ take 12 digestHex"

definition info_dict :: "(string \<times> bval) list \<Rightarrow> string \<Rightarrow> int \<Rightarrow> bval" where
  "info_dict tree name pieceLength =
     BDict [(''file tree'', BDict tree), (''meta version'', BInt 2), (''name'', BStr name),
            (''piece length'', BInt pieceLength)]"

definition infohash_of :: "string \<Rightarrow> string" where
  "infohash_of infoBencode = ''btmh:1220'' @ sha256_hex infoBencode"

definition finish_torrent :: "(string \<times> bval) list \<Rightarrow> int \<Rightarrow> string \<Rightarrow> string \<Rightarrow> (string \<times> TorrentResult) panic" where
  "finish_torrent tree tot manifestBytes digestHex =
     (if length digestHex < 12 then Panics
      else
        let tree = manifest_entry manifestBytes digestHex tree;
            pieceLength = LadderPieceLength tot;
            name = torrent_name digestHex;
            infoBencode = bencode (info_dict tree name pieceLength)
        in Returns (infoBencode,
             \<lparr>trName = name, trPieceLength = pieceLength, trTotalSize = tot,
              trInfohash = infohash_of infoBencode, trPieceLayersBencode = [], trPieceLayersDigest = []\<rparr>))"

subsection \<open>From content: \<open>BuildTorrent\<close>\<close>

fun content_tree ::
  "(string \<Rightarrow> string + string) \<Rightarrow> File list \<Rightarrow> (string \<times> bval) list \<Rightarrow> int
     \<Rightarrow> (build_error + (string \<times> bval) list \<times> int) panic" where
  "content_tree resolve [] tree tot = Returns (Inr (tree, tot))"
| "content_tree resolve (f # fs) tree tot =
     (case resolve (fName f) of
        Inl e \<Rightarrow> Returns (Inl (ResolveErr e))
      | Inr data \<Rightarrow>
        if int (length data) \<noteq> fSize f
        then Returns (Inl (ContentSize (fName f) (int (length data)) (fSize f)))
        else
        let root = MerkleRoot data in
        if DigestHex (fMerkleRoot f) \<noteq> hex_encode root
        then Returns (Inl (RootMismatch (fName f) (hex_encode root) (fMerkleRoot f)))
        else
        case insertFileTree tree (split_on (CHR ''/'') (fName f)) (fSize f) root of
          Panics \<Rightarrow> Panics
        | Returns tree \<Rightarrow> content_tree resolve fs tree (wrap64 (tot + fSize f)))"

text \<open>\<open>addLayer\<close> for one file: nothing for a file that fits in one piece.\<close>

definition add_layer :: "int \<Rightarrow> int \<Rightarrow> string \<Rightarrow> string \<Rightarrow> (string \<times> bval) list \<Rightarrow> (string \<times> bval) list panic" where
  "add_layer pieceLength sz root data layers =
     (if sz \<le> pieceLength then Returns layers
      else case PieceLayerHashes data pieceLength of
             Panics \<Rightarrow> Panics
           | Returns hs \<Rightarrow> Returns (AList.update root (BStr (concat hs)) layers))"

text \<open>
  The second pass takes each file's root from the map of roots, in which the manifest's own entry
  has replaced the root of a file of the same name.
\<close>

fun content_layers ::
  "(string \<times> string) \<Rightarrow> (string \<Rightarrow> string + string) \<Rightarrow> int \<Rightarrow> File list \<Rightarrow> (string \<times> bval) list
     \<Rightarrow> (build_error + (string \<times> bval) list) panic" where
  "content_layers own resolve pieceLength [] layers = Returns (Inr layers)"
| "content_layers own resolve pieceLength (f # fs) layers =
     (case resolve (fName f) of
        Inl e \<Rightarrow> Returns (Inl (ResolveErr e))
      | Inr data \<Rightarrow>
        (case add_layer pieceLength (fSize f) (if fName f = fst own then snd own else MerkleRoot data) data layers of
           Panics \<Rightarrow> Panics
         | Returns layers \<Rightarrow> content_layers own resolve pieceLength fs layers))"

definition BuildTorrent ::
  "File list \<Rightarrow> string \<Rightarrow> string \<Rightarrow> (string \<Rightarrow> string + string) \<Rightarrow> (build_error + string \<times> TorrentResult) panic" where
  "BuildTorrent files manifestBytes digestHex resolve =
     (case content_tree resolve files [] (int (length manifestBytes)) of
        Panics \<Rightarrow> Panics
      | Returns (Inl e) \<Rightarrow> Returns (Inl e)
      | Returns (Inr (tree, tot)) \<Rightarrow>
        (case finish_torrent tree tot manifestBytes digestHex of
           Panics \<Rightarrow> Panics
         | Returns (infoBencode, res) \<Rightarrow>
           (case content_layers (''manifest/sha256-'' @ digestHex, MerkleRoot manifestBytes) resolve (trPieceLength res) files [] of
              Panics \<Rightarrow> Panics
            | Returns (Inl e) \<Rightarrow> Returns (Inl e)
            | Returns (Inr layers) \<Rightarrow>
              (case add_layer (trPieceLength res) (int (length manifestBytes)) (MerkleRoot manifestBytes)
                      manifestBytes layers of
                 Panics \<Rightarrow> Panics
               | Returns layers \<Rightarrow>
                 let plb = bencode (BDict layers) in
                 Returns (Inr (infoBencode,
                   res\<lparr>trPieceLayersBencode := plb, trPieceLayersDigest := Digest plb\<rparr>))))))"

subsection \<open>From the manifest alone: \<open>BuildTorrentFromManifest\<close>\<close>

text \<open>
  \<open>hex.Decode\<close> into a 32-byte array: pairs are decoded in turn; a bad pair or an odd rest is an
  error, a 33rd byte is out of range, and a short input leaves the rest of the array zero.
\<close>

fun hex_decode_into :: "nat \<Rightarrow> string \<Rightarrow> (unit + string) panic" where
  "hex_decode_into room [] = Returns (Inr (replicate room (CHR 0x00)))"
| "hex_decode_into room [_] = Returns (Inl ())"
| "hex_decode_into room (a # b # r) =
     (case (hex_value a, hex_value b) of
        (Some x, Some y) \<Rightarrow>
          (case room of
             0 \<Rightarrow> Panics
           | Suc room' \<Rightarrow>
               (case hex_decode_into room' r of
                  Panics \<Rightarrow> Panics
                | Returns (Inl u) \<Rightarrow> Returns (Inl u)
                | Returns (Inr t) \<Rightarrow> Returns (Inr (char_of (16 * x + y) # t))))
      | _ \<Rightarrow> Returns (Inl ()))"

fun pinned_tree :: "File list \<Rightarrow> (string \<times> bval) list \<Rightarrow> int \<Rightarrow> (build_error + (string \<times> bval) list \<times> int) panic" where
  "pinned_tree [] tree tot = Returns (Inr (tree, tot))"
| "pinned_tree (f # fs) tree tot =
     (case hex_decode_into 32 (DigestHex (fMerkleRoot f)) of
        Panics \<Rightarrow> Panics
      | Returns (Inl _) \<Rightarrow> Returns (Inl (PinnedNotHex (fName f) (fMerkleRoot f)))
      | Returns (Inr root) \<Rightarrow>
        (case insertFileTree tree (split_on (CHR ''/'') (fName f)) (fSize f) root of
           Panics \<Rightarrow> Panics
         | Returns tree \<Rightarrow> pinned_tree fs tree (wrap64 (tot + fSize f))))"

definition BuildTorrentFromManifest ::
  "File list \<Rightarrow> string \<Rightarrow> string \<Rightarrow> (build_error + string \<times> TorrentResult) panic" where
  "BuildTorrentFromManifest files manifestBytes digestHex =
     (case pinned_tree files [] (int (length manifestBytes)) of
        Panics \<Rightarrow> Panics
      | Returns (Inl e) \<Rightarrow> Returns (Inl e)
      | Returns (Inr (tree, tot)) \<Rightarrow>
        (case finish_torrent tree tot manifestBytes digestHex of
           Panics \<Rightarrow> Panics
         | Returns r \<Rightarrow> Returns (Inr r)))"

subsection \<open>The smallest power of two\<close>

lemma pow2_from_spec:
  "0 < p \<Longrightarrow> \<exists>k. pow2_from p n = p * 2 ^ k \<and> n \<le> p * 2 ^ k \<and> (k = 0 \<or> p * 2 ^ k < 2 * n)"
proof (induction p n rule: pow2_from.induct)
  case (1 p n)
  show ?case
  proof (cases "p < n")
    case False
    then have "pow2_from p n = p" by (subst pow2_from.simps) simp
    then show ?thesis using False by (intro exI [of _ 0]) auto
  next
    case True
    then obtain k where k: "pow2_from (2 * p) n = 2 * p * 2 ^ k" "n \<le> 2 * p * 2 ^ k"
      "k = 0 \<or> 2 * p * 2 ^ k < 2 * n"
      using 1 by auto
    have "pow2_from p n = pow2_from (2 * p) n" using True 1(2) by (subst pow2_from.simps) simp
    moreover have "p * 2 ^ Suc k < 2 * n" using k(3) True by (cases k) auto
    ultimately show ?thesis using k by (intro exI [of _ "Suc k"]) (simp add: mult_ac)
  qed
qed

lemma nextPow2_power: "\<exists>k. nextPow2 n = 2 ^ k \<and> n \<le> 2 ^ k \<and> (k = 0 \<or> 2 ^ k < 2 * n)"
proof (cases "n < 1")
  case True
  then show ?thesis by (intro exI [of _ 0]) (simp add: nextPow2_def)
next
  case False
  then show ?thesis using pow2_from_spec [of 1 n] by (simp add: nextPow2_def)
qed

lemma length_pad_leaves: "length (pad_leaves leaves) = nextPow2 (length leaves)"
  using nextPow2_power [of "length leaves"] by (auto simp: pad_leaves_def)

subsection \<open>The loop is the recursive tree hash\<close>

text \<open>The BEP 52 tree over \<open>2^k\<close> leaves, top down.\<close>

primrec tree_hash :: "nat \<Rightarrow> string list \<Rightarrow> string" where
  "tree_hash 0 xs = hd xs"
| "tree_hash (Suc k) xs = sha256 (tree_hash k (take (2 ^ k) xs) @ tree_hash k (drop (2 ^ k) xs))"

lemma take_pair_up: "take n (pair_up xs) = pair_up (take (2 * n) xs)"
  by (induction xs arbitrary: n rule: pair_up.induct; case_tac n; simp)

lemma drop_pair_up: "drop n (pair_up xs) = pair_up (drop (2 * n) xs)"
  by (induction xs arbitrary: n rule: pair_up.induct; case_tac n; simp)

lemma tree_hash_pair_up: "length xs = 2 ^ Suc k \<Longrightarrow> tree_hash (Suc k) xs = tree_hash k (pair_up xs)"
proof (induction k arbitrary: xs)
  case 0
  then obtain a b where "xs = [a, b]"
    by (metis One_nat_def length_0_conv length_Suc_conv numeral_2_eq_2 power_one_right)
  then show ?case by simp
next
  case (Suc k)
  have l: "length (take (2 ^ Suc k) xs) = 2 ^ Suc k" "length (drop (2 ^ Suc k) xs) = 2 ^ Suc k"
    using Suc.prems by simp_all
  have "tree_hash (Suc (Suc k)) xs
      = sha256 (tree_hash (Suc k) (take (2 ^ Suc k) xs) @ tree_hash (Suc k) (drop (2 ^ Suc k) xs))"
    by simp
  also have "\<dots> = tree_hash (Suc k) (pair_up xs)"
    unfolding Suc.IH [OF l(1)] Suc.IH [OF l(2)] by (simp add: take_pair_up drop_pair_up)
  finally show ?case .
qed

text \<open>Reducing to \<open>2^m\<close> nodes leaves the hashes of the \<open>2^m\<close> subtrees of height \<open>j\<close>.\<close>

definition subtrees :: "nat \<Rightarrow> nat \<Rightarrow> string list \<Rightarrow> string list" where
  "subtrees j m xs = map (\<lambda>i. tree_hash j (take (2 ^ j) (drop (i * 2 ^ j) xs))) [0..<2 ^ m]"

lemma subtrees_0: "length xs = 2 ^ m \<Longrightarrow> subtrees 0 m xs = xs"
  by (rule nth_equalityI) (auto simp: subtrees_def hd_drop_conv_nth hd_conv_nth)

lemma reduce_to_subtrees: "length xs = 2 ^ (j + m) \<Longrightarrow> reduce_to (2 ^ m) xs = subtrees j m xs"
proof (induction j arbitrary: xs)
  case 0
  then have "reduce_to (2 ^ m) xs = xs" by (subst reduce_to.simps) simp
  then show ?case using 0 by (simp add: subtrees_0)
next
  case (Suc j)
  have "2 ^ m < length xs" unfolding Suc.prems by (rule power_strict_increasing) auto
  then have "reduce_to (2 ^ m) xs = reduce_to (2 ^ m) (pair_up xs)"
    by (subst reduce_to.simps) auto
  also have "\<dots> = subtrees j m (pair_up xs)"
    using Suc.prems by (intro Suc.IH) simp
  also have "\<dots> = subtrees (Suc j) m xs"
  proof -
    have "tree_hash j (take (2 ^ j) (drop (i * 2 ^ j) (pair_up xs)))
        = tree_hash (Suc j) (take (2 ^ Suc j) (drop (i * 2 ^ Suc j) xs))" if "i < 2 ^ m" for i
    proof -
      have "(i + 1) * 2 ^ Suc j \<le> 2 ^ m * 2 ^ Suc j" using that by (intro mult_right_mono) auto
      then have "length (take (2 ^ Suc j) (drop (i * 2 ^ Suc j) xs)) = 2 ^ Suc j"
        using Suc.prems by (simp add: power_add algebra_simps)
      from tree_hash_pair_up [OF this] show ?thesis
        by (simp add: take_pair_up drop_pair_up mult.commute mult.left_commute)
    qed
    then show ?thesis by (simp add: subtrees_def del: tree_hash.simps)
  qed
  finally show ?case .
qed

lemma tree_hash_subtrees: "length xs = 2 ^ (j + m) \<Longrightarrow> tree_hash (j + m) xs = tree_hash m (subtrees j m xs)"
proof (induction j arbitrary: xs)
  case 0
  then show ?case by (simp add: subtrees_0)
next
  case (Suc j)
  have "tree_hash (Suc j + m) xs = tree_hash (j + m) (pair_up xs)"
    using Suc.prems tree_hash_pair_up [of xs "j + m"] by simp
  also have "\<dots> = tree_hash m (subtrees j m (pair_up xs))"
    using Suc.prems by (intro Suc.IH) simp
  also have "subtrees j m (pair_up xs) = reduce_to (2 ^ m) (pair_up xs)"
    using Suc.prems by (intro reduce_to_subtrees [symmetric]) simp
  also have "\<dots> = reduce_to (2 ^ m) xs"
  proof -
    have "2 ^ m < length xs" unfolding Suc.prems by (rule power_strict_increasing) auto
    then show ?thesis by (subst (2) reduce_to.simps) auto
  qed
  also have "\<dots> = subtrees (Suc j) m xs"
    using Suc.prems by (rule reduce_to_subtrees)
  finally show ?case .
qed

lemma length_chunks: "0 < n \<Longrightarrow> length (chunks n xs) = (length xs + n - 1) div n"
proof (induction n xs rule: chunks.induct)
  case (1 n xs)
  show ?case
  proof (cases "xs = []")
    case True
    then show ?thesis using 1(2) by (subst chunks.simps) (simp add: div_if)
  next
    case False
    then have "length (chunks n xs) = Suc ((length (drop n xs) + n - 1) div n)"
      using 1 by (subst chunks.simps) simp
    also have "\<dots> = (length xs + n - 1) div n"
    proof (cases "length xs \<le> n")
      case True
      have "0 < length xs" using False by simp
      then have "length xs + n - 1 = n + (length xs - 1)" by linarith
      then have "(length xs + n - 1) div n = Suc ((length xs - 1) div n)"
        using div_add_self1 [of n "length xs - 1"] 1(2) by (metis Suc_eq_plus1 neq0_conv)
      moreover have "(length xs - 1) div n = 0" "(n - 1) div n = 0"
      proof -
        have "length xs - 1 < n" "n - 1 < n" using True 1(2) \<open>0 < length xs\<close> by linarith+
        then show "(length xs - 1) div n = 0" "(n - 1) div n = 0" by (simp_all only: div_less)
      qed
      ultimately show ?thesis using True by simp
    next
      case False
      then have "length xs + n - 1 = n + (length (drop n xs) + n - 1)" using 1(2) by simp
      then show ?thesis
        using div_add_self1 [of n "length (drop n xs) + n - 1"] 1(2) by (metis Suc_eq_plus1 neq0_conv)
    qed
    finally show ?thesis .
  qed
qed

lemma nth_chunks: "i < length (chunks n xs) \<Longrightarrow> chunks n xs ! i = take n (drop (i * n) xs)"
proof (induction n xs arbitrary: i rule: chunks.induct)
  case (1 n xs)
  have ne: "\<not> (xs = [] \<or> n = 0)"
  proof
    assume "xs = [] \<or> n = 0"
    then have "chunks n xs = []" by (subst chunks.simps) simp
    with 1(2) show False by simp
  qed
  then have c: "chunks n xs = take n xs # chunks n (drop n xs)" by (subst chunks.simps) simp
  show ?case
  proof (cases i)
    case 0
    then show ?thesis by (simp add: c)
  next
    case (Suc j)
    then have "j < length (chunks n (drop n xs))" using 1(2) c by simp
    then have "chunks n (drop n xs) ! j = take n (drop (j * n) (drop n xs))"
      using 1(1) ne by blast
    then show ?thesis using Suc c by (simp add: add.commute)
  qed
qed

lemma chunks_Nil [simp]: "chunks n xs = [] \<longleftrightarrow> xs = [] \<or> n = 0"
  by (subst chunks.simps) simp

subsection \<open>The root and the piece layer\<close>

definition block_of :: "string \<Rightarrow> nat \<Rightarrow> string" where
  "block_of data i = take merkleBlockSize (drop (i * merkleBlockSize) data)"

definition block_count :: "string \<Rightarrow> nat" where
  "block_count data = (length data + merkleBlockSize - 1) div merkleBlockSize"

lemma merkleBlockSize_pos [simp]: "0 < merkleBlockSize"
  by (simp add: merkleBlockSize_def)

lemma length_merkleLeaves [simp]: "length (merkleLeaves data) = block_count data"
  by (simp add: merkleLeaves_def length_chunks block_count_def)

lemma merkleLeaves_eq: "merkleLeaves data = map (\<lambda>i. sha256 (block_of data i)) [0..<block_count data]"
proof (rule nth_equalityI)
  show "merkleLeaves data ! i = map (\<lambda>i. sha256 (block_of data i)) [0..<block_count data] ! i"
    if "i < length (merkleLeaves data)" for i
    using that by (simp add: merkleLeaves_def nth_chunks block_of_def length_chunks block_count_def)
qed simp

lemma block_count_pos: "0 < block_count data \<longleftrightarrow> data \<noteq> []"
proof
  assume "data \<noteq> []"
  then have "merkleLeaves data \<noteq> []" by (simp add: merkleLeaves_def)
  then show "0 < block_count data" by (metis length_merkleLeaves length_greater_0_conv)
next
  assume "0 < block_count data"
  then show "data \<noteq> []" by (cases data) (simp_all add: block_count_def)
qed

text \<open>The leaf layer: the block hashes, padded with zero hashes to a width of \<open>2^k\<close>.\<close>

definition leaf_layer :: "nat \<Rightarrow> string \<Rightarrow> string list" where
  "leaf_layer k data =
     map (\<lambda>i. sha256 (block_of data i)) [0..<block_count data] @ replicate (2 ^ k - block_count data) zero_hash"

lemma pad_leaves_eq: "nextPow2 (block_count data) = 2 ^ k \<Longrightarrow> pad_leaves (merkleLeaves data) = leaf_layer k data"
  by (simp add: pad_leaves_def leaf_layer_def merkleLeaves_eq)

lemma length_leaf_layer: "block_count data \<le> 2 ^ k \<Longrightarrow> length (leaf_layer k data) = 2 ^ k"
  by (simp add: leaf_layer_def)

lemma MerkleRoot_tree:
  assumes "data \<noteq> []" and k: "nextPow2 (block_count data) = 2 ^ k" "block_count data \<le> 2 ^ k"
  shows "MerkleRoot data = tree_hash k (leaf_layer k data)"
proof -
  let ?ls = "leaf_layer k data"
  have "merkleLeaves data \<noteq> []" using assms(1) by (simp add: merkleLeaves_def)
  moreover have "reduce_to (2 ^ 0) ?ls = subtrees k 0 ?ls"
    using length_leaf_layer [OF k(2)] by (intro reduce_to_subtrees) simp
  ultimately have "MerkleRoot data = hd (subtrees k 0 ?ls)"
    using pad_leaves_eq [OF k(1)] by (simp add: MerkleRoot_def)
  also have "\<dots> = tree_hash k ?ls"
    using length_leaf_layer [OF k(2)] by (simp add: subtrees_def)
  finally show ?thesis .
qed

lemma filter_enumerate_prefix:
  "map snd (filter (\<lambda>(i, h). i * b < n) (enumerate a xs)) = take (card {i. a \<le> i \<and> i < a + length xs \<and> i * b < n}) xs"
  if "0 < b"
proof (induction xs arbitrary: a)
  case Nil
  then show ?case by simp
next
  case (Cons x xs)
  show ?case
  proof (cases "a * b < n")
    case True
    have "{i. a \<le> i \<and> i < a + length (x # xs) \<and> i * b < n}
        = insert a {i. Suc a \<le> i \<and> i < Suc a + length xs \<and> i * b < n}"
      using True by (auto simp: Suc_le_eq le_less)
    then have "card {i. a \<le> i \<and> i < a + length (x # xs) \<and> i * b < n}
        = Suc (card {i. Suc a \<le> i \<and> i < Suc a + length xs \<and> i * b < n})"
      by simp
    then show ?thesis using True Cons.IH [of "Suc a"] by simp
  next
    case False
    have none: "\<not> i * b < n" if "a \<le> i" for i
      using False mult_le_mono1 [OF that, of b] by linarith
    then have "filter (\<lambda>(i, h). i * b < n) (enumerate a (x # xs)) = []"
      by (auto simp: filter_empty_conv in_set_enumerate_eq)
    moreover have "{i. a \<le> i \<and> i < a + length (x # xs) \<and> i * b < n} = {}" using none by auto
    ultimately show ?thesis by simp
  qed
qed

text \<open>Rounding up.\<close>

lemma less_ceil: "0 < b \<Longrightarrow> i * b < n \<longleftrightarrow> i < (n + b - 1) div b" for b n i :: nat
proof -
  assume b: "0 < b"
  have "i < (n + b - 1) div b \<longleftrightarrow> Suc i \<le> (n + b - 1) div b" by (simp add: Suc_le_eq)
  also have "\<dots> \<longleftrightarrow> Suc i * b \<le> n + b - 1" using b by (rule less_eq_div_iff_mult_less_eq)
  also have "\<dots> \<longleftrightarrow> i * b < n" using b by auto
  finally show ?thesis by simp
qed

lemma ceil_eqI: "0 < b \<Longrightarrow> (\<And>i. i < c \<longleftrightarrow> i * b < n) \<Longrightarrow> c = (n + b - 1) div b" for b c n :: nat
  using less_ceil [of b _ n] by (metis less_irrefl linorder_neqE_nat)

lemma ceil_ceil: "0 < a \<Longrightarrow> 0 < b \<Longrightarrow> ((n + a - 1) div a + b - 1) div b = (n + a * b - 1) div (a * b)" for a b n :: nat
proof (rule ceil_eqI)
  show "i < ((n + a - 1) div a + b - 1) div b \<longleftrightarrow> i * (a * b) < n" if "0 < a" "0 < b" for i
    using less_ceil [of b i "(n + a - 1) div a"] less_ceil [of a "i * b" n] that by (simp add: mult_ac)
qed simp

lemma subtrees_padding:
  assumes "length xs \<le> 2 ^ (j + m)" and c: "c = (length xs + 2 ^ j - 1) div 2 ^ j"
  shows "subtrees j m (xs @ replicate (2 ^ (j + m) - length xs) z)
    = take c (subtrees j m (xs @ replicate (2 ^ (j + m) - length xs) z))
      @ replicate (2 ^ m - c) (tree_hash j (replicate (2 ^ j) z))"
    and "c \<le> 2 ^ m"
proof -
  let ?ys = "xs @ replicate (2 ^ (j + m) - length xs) z"
  have i: "i < c \<longleftrightarrow> i * 2 ^ j < length xs" for i
    unfolding c by (rule less_ceil [symmetric]) simp
  show "c \<le> 2 ^ m"
  proof (rule ccontr)
    assume "\<not> c \<le> 2 ^ m"
    then have "2 ^ m * 2 ^ j < length xs" using i [of "2 ^ m"] by simp
    with assms(1) show False by (simp add: power_add mult.commute)
  qed
  have pad: "tree_hash j (take (2 ^ j) (drop (i * 2 ^ j) ?ys)) = tree_hash j (replicate (2 ^ j) z)"
    if "c \<le> i" "i < 2 ^ m" for i
  proof -
    have "length xs \<le> i * 2 ^ j" using i [of i] that(1) by simp
    moreover have "(i + 1) * 2 ^ j \<le> 2 ^ (j + m)"
      using mult_right_mono [of "i + 1" "2 ^ m" "2 ^ j"] that(2) by (simp add: power_add mult.commute)
    ultimately have "take (2 ^ j) (drop (i * 2 ^ j) ?ys) = replicate (2 ^ j) z"
      by (simp add: min_def algebra_simps)
    then show ?thesis by simp
  qed
  show "subtrees j m ?ys = take c (subtrees j m ?ys) @ replicate (2 ^ m - c) (tree_hash j (replicate (2 ^ j) z))"
  proof (rule nth_equalityI)
    show "length (subtrees j m ?ys) = length (take c (subtrees j m ?ys) @ replicate (2 ^ m - c) (tree_hash j (replicate (2 ^ j) z)))"
      using \<open>c \<le> 2 ^ m\<close> by (simp add: subtrees_def)
    show "subtrees j m ?ys ! i = (take c (subtrees j m ?ys) @ replicate (2 ^ m - c) (tree_hash j (replicate (2 ^ j) z))) ! i"
      if "i < length (subtrees j m ?ys)" for i
      using that pad [of i] \<open>c \<le> 2 ^ m\<close> by (auto simp: subtrees_def nth_append)
  qed
qed

text \<open>\<open>piece_layer k j data\<close>: the roots of the subtrees of \<open>2^j\<close> blocks that cover some content.\<close>

definition piece_layer :: "nat \<Rightarrow> nat \<Rightarrow> string \<Rightarrow> string list" where
  "piece_layer k j data =
     map (\<lambda>i. tree_hash j (take (2 ^ j) (drop (i * 2 ^ j) (leaf_layer k data))))
       [0..<(block_count data + 2 ^ j - 1) div 2 ^ j]"

lemma PieceLayerHashes_tree:
  assumes k: "nextPow2 (block_count data) = 2 ^ k" "block_count data \<le> 2 ^ k" and jk: "j \<le> k"
  shows "PieceLayerHashes data (2 ^ j * int merkleBlockSize) = Returns (piece_layer k j data)"
    and "tree_hash k (leaf_layer k data)
      = tree_hash (k - j) (piece_layer k j data
          @ replicate (2 ^ (k - j) - length (piece_layer k j data)) (tree_hash j (replicate (2 ^ j) zero_hash)))"
proof -
  define m where "m = k - j"
  have km: "k = j + m" using jk by (simp add: m_def)
  let ?ls = "leaf_layer k data" and ?n = "block_count data"
  define c where "c = (?n + 2 ^ j - 1) div 2 ^ j"
  have len: "length ?ls = 2 ^ (j + m)" using length_leaf_layer [OF k(2)] km by simp
  have red: "reduce_to (2 ^ m) ?ls = subtrees j m ?ls" using len by (rule reduce_to_subtrees)
  note pad = subtrees_padding(1) [of "map (\<lambda>i. sha256 (block_of data i)) [0..<?n]" j m c zero_hash]
    subtrees_padding(2) [of "map (\<lambda>i. sha256 (block_of data i)) [0..<?n]" j m c]
  have c: "c \<le> 2 ^ m" "subtrees j m ?ls = take c (subtrees j m ?ls) @ replicate (2 ^ m - c) (tree_hash j (replicate (2 ^ j) zero_hash))"
    using pad k(2) km by (simp_all add: leaf_layer_def c_def)
  have tk: "take c (subtrees j m ?ls) = piece_layer k j data"
    using c(1) by (simp add: subtrees_def piece_layer_def take_map c_def)
  have bpp: "2 ^ j * int merkleBlockSize div int merkleBlockSize = 2 ^ j"
    by (simp add: merkleBlockSize_def)
  have "and (2 ^ j) (2 ^ j - 1 :: int) = 0" using power_of_two_test [of "2 ^ j"] by auto
  moreover have "nextPow2 ?n div nat (2 ^ j) = 2 ^ m"
    using k(1) km by (simp add: power_add nat_power_eq)
  moreover have "card {i. i < 2 ^ m \<and> i * 2 ^ j < ?n} = c"
  proof -
    have "i * 2 ^ j < ?n \<longleftrightarrow> i < c" for i
      unfolding c_def by (rule less_ceil) simp
    then have "{i. i < 2 ^ m \<and> i * 2 ^ j < ?n} = {..<c}"
      using c(1) by (auto intro: less_le_trans)
    then show ?thesis by simp
  qed
  moreover have "length (subtrees j m ?ls) = 2 ^ m" by (simp add: subtrees_def)
  moreover have "max (1 :: nat) (2 ^ m) = 2 ^ m" "\<not> (2 ^ j :: int) < 1" by (simp_all add: max_def not_less)
  ultimately show "PieceLayerHashes data (2 ^ j * int merkleBlockSize) = Returns (piece_layer k j data)"
    using red tk filter_enumerate_prefix [of "2 ^ j" ?n 0 "subtrees j m ?ls"]
    by (simp add: PieceLayerHashes_def Let_def bpp pad_leaves_eq [OF k(1)] nat_power_eq)
  have "tree_hash k ?ls = tree_hash m (subtrees j m ?ls)"
    using tree_hash_subtrees [OF len] km by simp
  also have "\<dots> = tree_hash m (piece_layer k j data @ replicate (2 ^ m - c) (tree_hash j (replicate (2 ^ j) zero_hash)))"
    using c(2) tk by simp
  also have "c = length (piece_layer k j data)" by (simp add: piece_layer_def c_def)
  finally show "tree_hash k (leaf_layer k data)
      = tree_hash (k - j) (piece_layer k j data
          @ replicate (2 ^ (k - j) - length (piece_layer k j data)) (tree_hash j (replicate (2 ^ j) zero_hash)))"
    by (simp add: m_def)
qed

subsection \<open>The file tree\<close>

fun leaf_at :: "(string \<times> bval) list \<Rightarrow> string list \<Rightarrow> bval option" where
  "leaf_at node [] = None"
| "leaf_at node [name] = map_of node name"
| "leaf_at node (seg # s # path) =
     (case map_of node seg of Some (BDict d) \<Rightarrow> leaf_at d (s # path) | _ \<Rightarrow> None)"

lemma leaf_at_Nil [simp]: "leaf_at [] path = None"
  by (induction "[] :: (string \<times> bval) list" path rule: leaf_at.induct) auto

lemma insertFileTree_Returns:
  "path \<noteq> [] \<Longrightarrow> leaf_at node path = None \<Longrightarrow> \<exists>node'. insertFileTree node path sz root = Returns node'"
proof (induction node path sz root rule: insertFileTree.induct)
  case (3 node seg s path sz root)
  let ?next = "case map_of node seg of Some (BDict d) \<Rightarrow> d | _ \<Rightarrow> []"
  have "leaf_at ?next (s # path) = None"
    using 3(3) by (auto split: option.splits bval.splits)
  then obtain d where "insertFileTree ?next (s # path) sz root = Returns d"
    using 3(1) by auto
  then show ?case by (simp add: Let_def)
qed auto

lemma insertFileTree_leaf:
  "insertFileTree node path sz root = Returns node' \<Longrightarrow> leaf_at node' path = Some (file_node sz root)"
proof (induction node path sz root arbitrary: node' rule: insertFileTree.induct)
  case (3 node seg s path sz root)
  then show ?case by (auto simp: Let_def update_conv' split: panic.splits)
qed (auto simp: update_conv' split: if_splits)

lemma insertFileTree_other:
  assumes "insertFileTree node path sz root = Returns node'" and "\<not> prefix path q" and "\<not> prefix q path"
  shows "leaf_at node' q = leaf_at node q"
  using assms
proof (induction node path sz root arbitrary: node' q rule: insertFileTree.induct)
  case (2 node name sz root)
  then obtain x q' where q: "q = x # q'" "x \<noteq> name" by (cases q) auto
  then show ?case
    using 2 by (cases q') (auto simp: update_conv' split: if_splits)
next
  case (3 node seg s path sz root)
  let ?next = "case map_of node seg of Some (BDict d) \<Rightarrow> d | _ \<Rightarrow> []"
  obtain d where d: "insertFileTree ?next (s # path) sz root = Returns d"
    "node' = AList.update seg (BDict d) node"
    using 3(2) by (auto simp: Let_def split: panic.splits)
  from 3(4) obtain x q' where q: "q = x # q'" by (cases q) auto
  show ?case
  proof (cases "x = seg")
    case False
    then show ?thesis using q d(2) by (cases q') (auto simp: update_conv')
  next
    case True
    then have np: "\<not> prefix (s # path) q'" "\<not> prefix q' (s # path)" using 3(3,4) q by auto
    then obtain y q'' where q': "q' = y # q''" by (cases q') auto
    have "leaf_at d q' = leaf_at ?next q'" using 3(1) d(1) np by blast
    then show ?thesis
      using q q' True d(2) by (auto simp: update_conv' split: option.splits bval.splits)
  qed
qed auto

lemma hex_decode_into_exact:
  "length s = 2 * n \<Longrightarrow> list_all is_lhex s \<Longrightarrow> \<exists>b. hex_decode_into n s = Returns (Inr b) \<and> length b = n"
proof (induction n s rule: hex_decode_into.induct)
  case (3 room a b r)
  from 3(2) obtain room' where room: "room = Suc room'" by (cases room) auto
  obtain x y where xy: "hex_value a = Some x" "hex_value b = Some y"
    using 3(3) hex_value_lhex [of a] hex_value_lhex [of b] by auto
  then have "\<exists>t. hex_decode_into room' r = Returns (Inr t) \<and> length t = room'"
    using 3 room by auto
  then show ?case using room xy by auto
qed auto

lemma DigestHex_digest:
  "IsDigest d \<Longrightarrow> length (DigestHex d) = 64 \<and> list_all is_lhex (DigestHex d) \<and> d = ''sha256:'' @ DigestHex d"
proof -
  assume "IsDigest d"
  then obtain h where h: "d = ''sha256:'' @ h" "length h = 64" "list_all is_lhex h"
    unfolding IsDigest_iff by blast
  then have "DigestHex d = h" by (simp only: DigestHex_def TrimPrefix_append)
  with h show ?thesis by simp
qed

lemma hex_decode_into_encode: "hex_decode_into (length b) (hex_encode b) = Returns (Inr b)"
  by (induction b) (simp_all add: hex_encode_Cons hex_value_digit)

definition segs_of :: "File \<Rightarrow> string list" where
  "segs_of f = split_on (CHR ''/'') (fName f)"

text \<open>The pinned root of an entry, decoded.\<close>

definition pinned_root :: "File \<Rightarrow> string" where
  "pinned_root f =
     (case hex_decode_into 32 (DigestHex (fMerkleRoot f)) of Returns (Inr b) \<Rightarrow> b | _ \<Rightarrow> [])"

lemma pinned_root_digest:
  assumes "IsDigest (fMerkleRoot f)"
  shows "hex_decode_into 32 (DigestHex (fMerkleRoot f)) = Returns (Inr (pinned_root f))"
    and "length (pinned_root f) = 32"
proof -
  have h: "length (DigestHex (fMerkleRoot f)) = 2 * 32" "list_all is_lhex (DigestHex (fMerkleRoot f))"
    using DigestHex_digest [OF assms] by simp_all
  from hex_decode_into_exact [OF h]
  show "hex_decode_into 32 (DigestHex (fMerkleRoot f)) = Returns (Inr (pinned_root f))"
    "length (pinned_root f) = 32"
    by (auto simp: pinned_root_def)
qed

definition unrelated :: "File list \<Rightarrow> bool" where
  "unrelated fs \<longleftrightarrow> sorted_wrt (\<lambda>f g. \<not> prefix (segs_of f) (segs_of g) \<and> \<not> prefix (segs_of g) (segs_of f)) fs"

lemma pinned_tree_Returns:
  assumes "list_all (\<lambda>f. IsDigest (fMerkleRoot f)) fs" and "unrelated fs"
    and "\<And>f. f \<in> set fs \<Longrightarrow> leaf_at tree (segs_of f) = None"
  shows "\<exists>tree' tot'. pinned_tree fs tree tot = Returns (Inr (tree', tot'))
    \<and> (\<forall>f \<in> set fs. leaf_at tree' (segs_of f) = Some (file_node (fSize f) (pinned_root f)))
    \<and> (\<forall>q. (\<forall>f \<in> set fs. \<not> prefix (segs_of f) q \<and> \<not> prefix q (segs_of f)) \<longrightarrow> leaf_at tree' q = leaf_at tree q)"
  using assms
proof (induction fs arbitrary: tree tot)
  case (Cons f fs)
  have r: "hex_decode_into 32 (DigestHex (fMerkleRoot f)) = Returns (Inr (pinned_root f))"
    using Cons.prems(1) by (simp add: pinned_root_digest)
  obtain t1 where t1: "insertFileTree tree (segs_of f) (fSize f) (pinned_root f) = Returns t1"
    using insertFileTree_Returns [of "segs_of f" tree "fSize f" "pinned_root f"] Cons.prems(3) [of f]
    by (auto simp: segs_of_def)
  have rel: "\<not> prefix (segs_of f) (segs_of g) \<and> \<not> prefix (segs_of g) (segs_of f)" if "g \<in> set fs" for g
    using Cons.prems(2) that by (auto simp: unrelated_def)
  have none: "leaf_at t1 (segs_of g) = None" if "g \<in> set fs" for g
    using insertFileTree_other [OF t1] rel [OF that] Cons.prems(3) that by simp
  obtain tree' tot' where IH: "pinned_tree fs t1 (wrap64 (tot + fSize f)) = Returns (Inr (tree', tot'))"
    "\<forall>g \<in> set fs. leaf_at tree' (segs_of g) = Some (file_node (fSize g) (pinned_root g))"
    "\<forall>q. (\<forall>g \<in> set fs. \<not> prefix (segs_of g) q \<and> \<not> prefix q (segs_of g)) \<longrightarrow> leaf_at tree' q = leaf_at t1 q"
    using Cons.IH [of t1 "wrap64 (tot + fSize f)"] Cons.prems none by (auto simp: unrelated_def)
  have "leaf_at tree' (segs_of f) = leaf_at t1 (segs_of f)" using IH(3) rel by blast
  also have "\<dots> = Some (file_node (fSize f) (pinned_root f))" using t1 by (rule insertFileTree_leaf)
  finally show ?case
    using r t1 IH insertFileTree_other [OF t1] by (auto simp: segs_of_def)
qed auto

subsection \<open>Properties\<close>

text \<open>
  C7: the merkle root computed by the bottom-up loop is the BEP 52 tree: the root of the complete
  binary tree over the SHA-256 hashes of the 16 KiB blocks, padded with zero hashes to the
  smallest sufficient power of two.
\<close>

theorem MerkleRoot_is_tree:
  assumes "data \<noteq> []"
  shows "\<exists>k. block_count data \<le> 2 ^ k \<and> (k = 0 \<or> 2 ^ k < 2 * block_count data)
    \<and> MerkleRoot data = tree_hash k (leaf_layer k data)"
  using nextPow2_power [of "block_count data"] MerkleRoot_tree [OF assms] by blast

lemma MerkleRoot_is_tree_witness:
  "\<exists>k. MerkleRoot ''weights'' = tree_hash k (leaf_layer k ''weights'')"
  using MerkleRoot_is_tree [of "''weights''"] by blast

text \<open>
  The piece layer of a file longer than a piece has one hash per piece of content, and it is
  the layer a BitTorrent v2 client checks: padded with the root of an all-padding piece and
  hashed up the rest of the tree, it gives the file's merkle root.
\<close>

lemma PieceLayerHashes_verify:
  assumes "pieceLength = 2 ^ j * int merkleBlockSize" and "pieceLength < int (length data)"
  shows "\<exists>k hs. j < k \<and> PieceLayerHashes data pieceLength = Returns hs
    \<and> length hs = (length data + nat pieceLength - 1) div nat pieceLength
    \<and> MerkleRoot data = tree_hash (k - j)
        (hs @ replicate (2 ^ (k - j) - length hs) (tree_hash j (replicate (2 ^ j) zero_hash)))"
proof -
  obtain k where k: "nextPow2 (block_count data) = 2 ^ k" "block_count data \<le> 2 ^ k"
    using nextPow2_power [of "block_count data"] by blast
  have pl: "nat pieceLength = 2 ^ j * merkleBlockSize"
    using assms(1) by (simp add: nat_mult_distrib nat_power_eq)
  have "0 < pieceLength" using assms(1) by (simp add: merkleBlockSize_def)
  then have "2 ^ j * merkleBlockSize < length data" using assms(2) pl by linarith
  then have "2 ^ j < block_count data"
    using less_ceil [of merkleBlockSize "2 ^ j" "length data"] by (simp add: block_count_def)
  then have "(2 :: nat) ^ j < 2 ^ k" using k(2) by linarith
  then have jk: "j < k" by simp
  have "data \<noteq> []" using \<open>2 ^ j * merkleBlockSize < length data\<close> by auto
  moreover have "length (piece_layer k j data) = (length data + nat pieceLength - 1) div nat pieceLength"
    using ceil_ceil [of merkleBlockSize "2 ^ j" "length data"]
    by (simp add: piece_layer_def block_count_def pl mult.commute)
  ultimately show ?thesis
    using PieceLayerHashes_tree [OF k less_imp_le [OF jk]] MerkleRoot_tree [OF _ k] jk assms(1)
    by (intro exI [of _ k] exI [of _ "piece_layer k j data"]) simp
qed

lemma PieceLayerHashes_verify_witness:
  "\<exists>hs. PieceLayerHashes (replicate 40000 CHR ''w'') 16384 = Returns hs \<and> length hs = 3"
proof -
  have "(16384 :: int) = 2 ^ 0 * int merkleBlockSize" "16384 < int (length (replicate 40000 CHR ''w''))"
    by (simp_all add: merkleBlockSize_def)
  from PieceLayerHashes_verify [OF this] show ?thesis by auto
qed

text \<open>The ladder gives powers of two that grow with the size.\<close>

definition ladder_exp :: "int \<Rightarrow> nat" where
  "ladder_exp t = (if t \<le> 2 ^ 30 then 20 else if t \<le> 2 ^ 33 then 22 else if t \<le> 2 ^ 36 then 24
                   else if t \<le> 2 ^ 39 then 26 else 28)"

lemma LadderPieceLength_power: "LadderPieceLength t = 2 ^ ladder_exp t" "20 \<le> ladder_exp t"
  by (simp_all add: LadderPieceLength_def ladder_exp_def)

subsection \<open>Both builders agree\<close>

lemma content_tree_pinned:
  assumes "list_all (\<lambda>f. IsDigest (fMerkleRoot f)) fs"
  shows "content_tree resolve fs tree tot = Returns (Inr r) \<Longrightarrow> pinned_tree fs tree tot = Returns (Inr r)"
  using assms
proof (induction fs arbitrary: tree tot)
  case (Cons f fs)
  obtain data where d: "resolve (fName f) = Inr data" "int (length data) = fSize f"
    "DigestHex (fMerkleRoot f) = hex_encode (MerkleRoot data)"
    using Cons.prems(1) by (auto simp: Let_def split: sum.splits if_splits)
  have "hex_decode_into 32 (DigestHex (fMerkleRoot f)) = Returns (Inr (pinned_root f))"
    "length (pinned_root f) = 32"
    using Cons.prems(2) by (simp_all add: pinned_root_digest)
  moreover have "length (MerkleRoot data) = 32"
  proof -
    have "IsDigest (fMerkleRoot f)" using Cons.prems(2) by simp
    then have "2 * length (MerkleRoot data) = 64"
      using d(3) DigestHex_digest by (metis length_hex_encode)
    then show ?thesis by simp
  qed
  ultimately have "pinned_root f = MerkleRoot data"
    using d(3) hex_decode_into_encode [of "MerkleRoot data"] by simp
  then show ?case
    using Cons d pinned_root_digest [of f] by (auto simp: Let_def split: panic.splits)
qed simp

lemma BuildTorrent_same:
  assumes "\<forall>f \<in> set files. IsDigest (fMerkleRoot f)"
    and "BuildTorrent files mb dh resolve = Returns (Inr (info, res))"
  shows "BuildTorrentFromManifest files mb dh
    = Returns (Inr (info, res\<lparr>trPieceLayersBencode := [], trPieceLayersDigest := []\<rparr>))"
proof -
  obtain tree tot where ct: "content_tree resolve files [] (int (length mb)) = Returns (Inr (tree, tot))"
    using assms(2) by (auto simp: BuildTorrent_def split: panic.splits sum.splits)
  obtain res0 where ft: "finish_torrent tree tot mb dh = Returns (info, res0)"
    and res: "res = res0\<lparr>trPieceLayersBencode := trPieceLayersBencode res,
                         trPieceLayersDigest := trPieceLayersDigest res\<rparr>"
    using assms(2) ct by (auto simp: BuildTorrent_def Let_def split: panic.splits sum.splits)
  have "res0\<lparr>trPieceLayersBencode := [], trPieceLayersDigest := []\<rparr> = res0"
    using ft by (auto simp: finish_torrent_def Let_def split: if_splits)
  moreover have "res\<lparr>trPieceLayersBencode := [], trPieceLayersDigest := []\<rparr>
      = res0\<lparr>trPieceLayersBencode := [], trPieceLayersDigest := []\<rparr>"
    by (subst res) simp
  moreover have "pinned_tree files [] (int (length mb)) = Returns (Inr (tree, tot))"
    using content_tree_pinned [OF _ ct] assms(1) by (simp add: list_all_iff)
  ultimately show ?thesis using ft by (simp add: BuildTorrentFromManifest_def)
qed

text \<open>
  C8: the torrent derived from the content and the torrent derived from the manifest alone are
  the same torrent: byte-identical info dictionary, hence the same infohash, name, piece length
  and size. Only the piece layers need the content.
\<close>

theorem BuildTorrent_identity:
  assumes "\<forall>f \<in> set files. IsDigest (fMerkleRoot f)"
    and "BuildTorrent files mb dh resolve = Returns (Inr (info, res))"
  shows "BuildTorrentFromManifest files mb dh
    = Returns (Inr (info, res\<lparr>trPieceLayersBencode := [], trPieceLayersDigest := []\<rparr>))"
  using assms by (rule BuildTorrent_same)

lemma length_tree_hash: "\<forall>x \<in> set xs. length x = 32 \<Longrightarrow> length xs = 2 ^ k \<Longrightarrow> length (tree_hash k xs) = 32"
  by (cases k) (auto simp: length_Suc_conv)

lemma length_MerkleRoot: "length (MerkleRoot data) = 32"
proof (cases "data = []")
  case True
  then show ?thesis by (simp add: MerkleRoot_def merkleLeaves_def)
next
  case False
  obtain k where k: "nextPow2 (block_count data) = 2 ^ k" "block_count data \<le> 2 ^ k"
    using nextPow2_power [of "block_count data"] by blast
  have "\<forall>x \<in> set (leaf_layer k data). length x = 32"
    by (auto simp: leaf_layer_def zero_hash_def)
  then show ?thesis
    using MerkleRoot_tree [OF False k] length_leaf_layer [OF k(2)] by (simp add: length_tree_hash)
qed

definition small_file :: File where
  "small_file =
     \<lparr>fKind = ''weights.gguf'', fDigest = Digest ''w'', fSize = 1, fName = ''w.gguf'', fPart = None, fRole = [],
       fVariant = [], fRuntime = [], fAdapterType = [], fCodeRole = [],
       fMerkleRoot = ''sha256:'' @ hex_encode (MerkleRoot ''w'')\<rparr>"

lemma BuildTorrent_identity_witness:
  "\<exists>info res. BuildTorrent [small_file] ''{}'' (sha256_hex ''{}'') (\<lambda>_. Inr ''w'') = Returns (Inr (info, res))
     \<and> BuildTorrentFromManifest [small_file] ''{}'' (sha256_hex ''{}'')
       = Returns (Inr (info, res\<lparr>trPieceLayersBencode := [], trPieceLayersDigest := []\<rparr>))"
proof -
  have sp: "split_on (CHR ''/'') ''w.gguf'' = [''w.gguf'']" by simp
  have dh: "DigestHex (''sha256:'' @ h) = h" for h by (simp only: DigestHex_def TrimPrefix_append)
  have "length (hex_encode (MerkleRoot ''w'')) = 64" by (simp add: length_MerkleRoot)
  then have "IsDigest (''sha256:'' @ hex_encode (MerkleRoot ''w''))"
    unfolding IsDigest_iff list_all_iff using hex_encode_chars by blast
  then have ok: "\<forall>f \<in> set [small_file]. IsDigest (fMerkleRoot f)"
    by (simp only: small_file_def) simp
  have lad: "\<not> LadderPieceLength t < 2" "1 \<le> LadderPieceLength t" "\<not> LadderPieceLength t < 1" for t
    by (simp_all add: LadderPieceLength_def)
  obtain tree where tree: "content_tree (\<lambda>_. Inr ''w'') [small_file] [] 2 = Returns (Inr (tree, wrap64 3))"
    by (simp add: small_file_def dh [simplified])
  have sz: "fSize small_file = 1" by (simp add: small_file_def)
  obtain info res where "BuildTorrent [small_file] ''{}'' (sha256_hex ''{}'') (\<lambda>_. Inr ''w'') = Returns (Inr (info, res))"
    using tree lad sz by (simp add: BuildTorrent_def finish_torrent_def Let_def add_layer_def not_less)
  with BuildTorrent_identity [OF ok this] show ?thesis by blast
qed

lemma sorted_wrt_pairwise:
  "distinct xs \<Longrightarrow> (\<And>x y. x \<in> set xs \<Longrightarrow> y \<in> set xs \<Longrightarrow> x \<noteq> y \<Longrightarrow> P x y) \<Longrightarrow> sorted_wrt P xs"
  by (induction xs) auto

lemma valid_unrelated:
  assumes "manifest_ok m"
  shows "unrelated (mFiles m)"
proof -
  have np: "\<not> prefix (segs_of f) (segs_of g)" if "f \<in> set (mFiles m)" "g \<in> set (mFiles m)" "f \<noteq> g" for f g
  proof
    assume "prefix (segs_of f) (segs_of g)"
    then obtain t where t: "segs_of g = segs_of f @ t" by (auto simp: prefix_def)
    have "distinct (map fName (mFiles m))" using assms by (simp add: manifest_ok_def files_ok_def)
    then have "fName f \<noteq> fName g" using that by (auto simp: distinct_map inj_on_def)
    then have "t \<noteq> []" using t by (metis append_Nil2 segs_of_def split_on_inj)
    moreover have "segs_of f \<noteq> []" by (simp add: segs_of_def)
    ultimately have "join_with ''/'' (segs_of g) = join_with ''/'' (segs_of f) @ ''/'' @ join_with ''/'' t"
      unfolding t by (rule join_with_append [rotated])
    then have "HasPrefix (fName g) (fName f @ ''/'')"
      by (auto simp: segs_of_def join_split HasPrefix_iff)
    then show False using assms that(1,2) by (simp add: manifest_ok_def)
  qed
  have "distinct (mFiles m)" using assms by (simp add: manifest_ok_def files_ok_def distinct_map)
  then show ?thesis
    unfolding unrelated_def using np by (intro sorted_wrt_pairwise) auto
qed

lemma leaf_at_update_other:
  "q \<noteq> [] \<Longrightarrow> hd q \<noteq> k \<Longrightarrow> leaf_at (AList.update k v node) q = leaf_at node q"
  by (induction node q rule: leaf_at.induct) (auto simp: update_conv' split: option.splits bval.splits)

text \<open>
  The torrent of a valid manifest can always be built from the manifest alone: no panic, no
  error; its file tree holds, at the path of every entry, exactly that entry's size and pinned
  root, and the manifest itself at its reserved path, so no file shadows another.
\<close>

lemma valid_manifest_builds:
  assumes "ValidateManifest m = None" and "12 \<le> length dh"
  shows "\<exists>tree res.
    BuildTorrentFromManifest (mFiles m) mb dh
      = Returns (Inr (bencode (info_dict tree (torrent_name dh) (trPieceLength res)), res))
    \<and> trInfohash res = infohash_of (bencode (info_dict tree (torrent_name dh) (trPieceLength res)))
    \<and> (\<forall>f \<in> set (mFiles m). leaf_at tree (segs_of f) = Some (file_node (fSize f) (pinned_root f)))
    \<and> leaf_at tree [''manifest'', ''sha256-'' @ dh] = Some (file_node (int (length mb)) (MerkleRoot mb))"
proof -
  have ok: "manifest_ok m" using assms(1) by (simp add: ValidateManifest_spec)
  then have wf: "list_all entry_wf (mFiles m)" by (simp add: manifest_ok_def files_ok_def)
  then have mr: "list_all (\<lambda>f. IsDigest (fMerkleRoot f)) (mFiles m)"
    by (auto simp: list_all_iff entry_wf_def)
  obtain tree tot where t: "pinned_tree (mFiles m) [] (int (length mb)) = Returns (Inr (tree, tot))"
    "\<forall>f \<in> set (mFiles m). leaf_at tree (segs_of f) = Some (file_node (fSize f) (pinned_root f))"
    using pinned_tree_Returns [OF mr valid_unrelated [OF ok], of "[]" "int (length mb)"] by auto
  let ?tree = "manifest_entry mb dh tree"
  have "leaf_at ?tree (segs_of f) = Some (file_node (fSize f) (pinned_root f))" if "f \<in> set (mFiles m)" for f
  proof -
    have "ValidateFileName (fName f) = None" using wf that by (simp add: list_all_iff entry_wf_def)
    then have "fName f \<noteq> ''manifest''" "\<not> HasPrefix (fName f) ''manifest/''"
      by (auto simp: ValidateFileName_def)
    then have "hd (segs_of f) \<noteq> ''manifest''"
      using hd_split_on [of "CHR ''/''" "fName f" "''manifest''"] by (simp add: segs_of_def)
    then show ?thesis
      using t(2) that by (simp add: manifest_entry_def leaf_at_update_other segs_of_def)
  qed
  moreover have "leaf_at ?tree [''manifest'', ''sha256-'' @ dh] = Some (file_node (int (length mb)) (MerkleRoot mb))"
    by (simp add: manifest_entry_def update_conv' file_node_def)
  ultimately show ?thesis
    using t(1) assms(2) by (auto simp: BuildTorrentFromManifest_def finish_torrent_def Let_def)
qed

lemma valid_manifest_builds_witness:
  "\<exists>r. BuildTorrentFromManifest base_entries ''{}'' (sha256_hex ''{}'') = Returns (Inr r)"
proof -
  have name: "ValidateFileName ''w.gguf'' = None" "ValidateFileName ''modelconfig.json'' = None"
    by code_simp+
  have "ValidateManifest (model_manifest base_entries) = None"
    unfolding ValidateManifest_spec manifest_ok_def files_ok_def
    using name
    by (auto simp: model_manifest_def base_entries_def of_kind_def parts_of_def entry_wf_def
        known_kinds_def is_weights_def parts_contiguous_def fileOrder_def kindRank_def Compare_def HasPrefix_def)
  from valid_manifest_builds [OF this, of "sha256_hex ''{}''" "''{}''"] show ?thesis
    by (auto simp: model_manifest_def)
qed

end
