(* ===== verification/Seal.thy ===== *)
theory Seal
  imports Torrent
begin

text \<open>
  Sealing an artifact (\<open>internal/artifact/artifact.go\<close>, \<open>Seal\<close>) and the other side of the same
  contract: reconstructing the torrent from a manifest and checking it against its distribution
  record (\<open>internal/swarm/recon.go\<close>).
\<close>

subsection \<open>\<open>Seal\<close>\<close>

record Sealed =
  slManifest :: Manifest
  slManifestBytes :: string
  slManifestDigest :: string
  slTorrent :: TorrentResult
  slDistribution :: DistributionRecord
  slDistributionBytes :: string
  slDistributionDigest :: string

datatype seal_error = SealInvalid validation_error | SealCanonical string | SealBuild build_error

definition Seal ::
  "codec \<Rightarrow> File list \<Rightarrow> (string \<times> string) list \<Rightarrow> (string \<Rightarrow> string + string) \<Rightarrow> (seal_error + Sealed) panic" where
  "Seal c files annotations resolve =
     (let files = SortFiles files;
          m = \<lparr>mSchemaVersion = 1, mArtifactType = ''model'', mFiles = files, mAnnotations = annotations\<rparr> in
      case ValidateManifest m of
        Some e \<Rightarrow> Returns (Inl (SealInvalid e))
      | None \<Rightarrow>
        (case canonManifest c m of
           Inl e \<Rightarrow> Returns (Inl (SealCanonical e))
         | Inr manifestBytes \<Rightarrow>
           let manifestDigest = Digest manifestBytes in
           (case BuildTorrent files manifestBytes (DigestHex manifestDigest) resolve of
              Panics \<Rightarrow> Panics
            | Returns (Inl e) \<Rightarrow> Returns (Inl (SealBuild e))
            | Returns (Inr (_, tres)) \<Rightarrow>
              let dist = \<lparr>dSchemaVersion = 1, dArtifactType = ''distribution'',
                          dManifestDigest = manifestDigest,
                          dTorrent = \<lparr>tInfohash = trInfohash tres, tPieceLength = trPieceLength tres,
                                      tPieceLayersDigest = trPieceLayersDigest tres\<rparr>\<rparr> in
              (case canonDist c dist of
                 Inl e \<Rightarrow> Returns (Inl (SealCanonical e))
               | Inr distBytes \<Rightarrow>
                 Returns (Inr \<lparr>slManifest = m, slManifestBytes = manifestBytes,
                   slManifestDigest = manifestDigest, slTorrent = tres, slDistribution = dist,
                   slDistributionBytes = distBytes, slDistributionDigest = Digest distBytes\<rparr>)))))"

subsection \<open>Reconstruction and the binding gate\<close>

record FileSpec =
  fsDigest :: string
  fsSize :: int

record Recon =
  rcInfohashHex :: string
  rcInfohashBtmh :: string
  rcInfoBencode :: string
  rcPieceLength :: int
  rcTotalSize :: int
  rcName :: string
  rcManifestDigest :: string
  rcManifestHex :: string
  rcFileSpecs :: "(string \<times> FileSpec) list"

definition Reconstruct :: "Manifest \<Rightarrow> string \<Rightarrow> (build_error + Recon) panic" where
  "Reconstruct m manifestBytes =
     (let digestHex = sha256_hex manifestBytes in
      case BuildTorrentFromManifest (mFiles m) manifestBytes digestHex of
        Panics \<Rightarrow> Panics
      | Returns (Inl e) \<Rightarrow> Returns (Inl e)
      | Returns (Inr (infoBencode, res)) \<Rightarrow>
        let specs = fold (\<lambda>f. AList.update (fName f) \<lparr>fsDigest = DigestHex (fDigest f), fsSize = fSize f\<rparr>)
                      (mFiles m) [] in
        Returns (Inr \<lparr>rcInfohashHex = TrimPrefix (trInfohash res) ''btmh:1220'', rcInfohashBtmh = trInfohash res,
          rcInfoBencode = infoBencode, rcPieceLength = trPieceLength res, rcTotalSize = trTotalSize res,
          rcName = trName res, rcManifestDigest = ''sha256:'' @ digestHex, rcManifestHex = digestHex,
          rcFileSpecs = AList.update (''manifest/sha256-'' @ digestHex)
            \<lparr>fsDigest = digestHex, fsSize = int (length manifestBytes)\<rparr> specs\<rparr>))"

datatype binding_error =
  BindManifest string string | BindInfohash string string | BindPieceLength int int

definition CheckRecord :: "Recon \<Rightarrow> DistributionRecord \<Rightarrow> binding_error + unit" where
  "CheckRecord r rec =
     (if dManifestDigest rec \<noteq> rcManifestDigest r
      then Inl (BindManifest (dManifestDigest rec) (rcManifestDigest r))
      else if tInfohash (dTorrent rec) \<noteq> rcInfohashBtmh r
      then Inl (BindInfohash (rcInfohashBtmh r) (tInfohash (dTorrent rec)))
      else if tPieceLength (dTorrent rec) \<noteq> rcPieceLength r
      then Inl (BindPieceLength (rcPieceLength r) (tPieceLength (dTorrent rec)))
      else Inr ())"

definition normalizeWebseeds :: "string list \<Rightarrow> string list" where
  "normalizeWebseeds urls = map (\<lambda>u. if HasSuffix u ''/'' then u else u @ ''/'') urls"

text \<open>Magnet parsing is the torrent library's; it yields the version 2 infohash bytes, if any.\<close>

datatype infohash_error = BadMagnet string | NoV2 string | BadInfohashLength string | BadInfohashHex string

definition ParseInfohash :: "(string \<Rightarrow> (string option) option) \<Rightarrow> string \<Rightarrow> infohash_error + string" where
  "ParseInfohash parseMagnet s =
     (if HasPrefix s ''magnet:'' then
        (case parseMagnet s of
           None \<Rightarrow> Inl (BadMagnet s)
         | Some None \<Rightarrow> Inl (NoV2 s)
         | Some (Some v2) \<Rightarrow> Inr (hex_encode v2))
      else
        let hexPart = TrimPrefix (TrimPrefix (TrimPrefix s ''btmh:1220'') ''urn:btmh:1220'') ''sha256:'' in
        if length hexPart \<noteq> 64 then Inl (BadInfohashLength s)
        else if hex_decode hexPart = None then Inl (BadInfohashHex s)
        else Inr (ToLower hexPart))"

subsection \<open>The builders do not panic on valid manifests\<close>

lemma content_tree_no_panic:
  assumes "unrelated fs" and "\<And>f. f \<in> set fs \<Longrightarrow> leaf_at tree (segs_of f) = None"
  shows "content_tree resolve fs tree tot \<noteq> Panics"
  using assms
proof (induction fs arbitrary: tree tot)
  case (Cons f fs)
  have "content_tree resolve fs t1 n \<noteq> Panics"
    if "insertFileTree tree (segs_of f) sz root = Returns t1" for t1 n sz root
  proof (rule Cons.IH)
    show "unrelated fs" using Cons.prems(1) by (simp add: unrelated_def)
    show "leaf_at t1 (segs_of g) = None" if "g \<in> set fs" for g
    proof -
      have "\<not> prefix (segs_of f) (segs_of g) \<and> \<not> prefix (segs_of g) (segs_of f)"
        using Cons.prems(1) that by (auto simp: unrelated_def)
      then show ?thesis
        using insertFileTree_other [OF \<open>insertFileTree tree (segs_of f) sz root = Returns t1\<close>]
          Cons.prems(2) that by simp
    qed
  qed
  moreover have "\<exists>t1. insertFileTree tree (segs_of f) sz root = Returns t1" for sz root
    using insertFileTree_Returns [of "segs_of f" tree sz root] Cons.prems(2) [of f] by (auto simp: segs_of_def)
  ultimately show ?case
    by (auto simp: Let_def segs_of_def split: sum.split panic.split) (metis panic.distinct(1))
qed simp

lemma PieceLayerHashes_no_panic:
  assumes "14 \<le> k"
  shows "PieceLayerHashes data (2 ^ k) \<noteq> Panics"
proof -
  obtain i where k: "k = 14 + i" using assms le_Suc_ex by blast
  have "(2 :: int) ^ k div int merkleBlockSize = 2 ^ i"
    by (simp add: k power_add merkleBlockSize_def)
  moreover have "and (2 ^ i) (2 ^ i - 1 :: int) = 0" using power_of_two_test [of "2 ^ i"] by auto
  ultimately show ?thesis by (simp add: PieceLayerHashes_def Let_def not_less)
qed

lemma add_layer_no_panic: "add_layer (LadderPieceLength t) sz root data layers \<noteq> Panics"
  using PieceLayerHashes_no_panic [of "ladder_exp t" data] LadderPieceLength_power [of t]
  by (auto simp: add_layer_def split: panic.split)

lemma content_layers_no_panic: "content_layers own resolve (LadderPieceLength t) fs layers \<noteq> Panics"
  by (induction fs arbitrary: layers) (auto simp: add_layer_no_panic split: sum.split panic.split)

lemma BuildTorrent_no_panic:
  assumes "manifest_ok m" and "12 \<le> length dh"
  shows "BuildTorrent (mFiles m) mb dh resolve \<noteq> Panics"
proof -
  have "content_tree resolve (mFiles m) [] n \<noteq> Panics" for n
    using valid_unrelated [OF assms(1)] by (rule content_tree_no_panic) simp
  then show ?thesis
    using assms(2) content_layers_no_panic add_layer_no_panic
    by (auto simp: BuildTorrent_def finish_torrent_def Let_def split: panic.splits sum.splits)
qed

lemma vm_file_order_error:
  "vm_file i f (state_of pre) = Inl (verr c (OrderViolation j n)) \<Longrightarrow> files_ok pre
     \<Longrightarrow> pre \<noteq> [] \<and> 0 < fileOrder (last pre) f"
proof -
  assume a: "vm_file i f (state_of pre) = Inl (verr c (OrderViolation j n))" and ok: "files_ok pre"
  have k: "vm_kind f st \<noteq> Inl (verr c (OrderViolation j n))" for st
    by (auto simp: vm_kind_def Let_def split: if_splits)
  have p: "vsPrev st = vsPrev (state_of pre)" if "vm_kind f (add_seen f (state_of pre)) = Inr st" for st
    using that vm_kind_step [of pre f st] ok by (auto simp: files_ok_def)
  have v: "ValidateFileName (fName f) \<noteq> Some (verr c (OrderViolation j n))"
    by (auto simp: ValidateFileName_def split: if_splits)
  show ?thesis
    using a k v p by (auto simp: vm_file_eq vsPrev_state_of split: option.splits if_splits sum.splits)
qed

lemma vm_loop_order_error:
  "vm_loop 0 fs vs_init = Inl (verr c (OrderViolation j n)) \<Longrightarrow> \<not> successively (\<lambda>a b. fileOrder a b \<le> 0) fs"
proof (induction fs rule: rev_induct)
  case (snoc f fs)
  show ?case
  proof (cases "vm_loop 0 fs vs_init")
    case (Inl e)
    then show ?thesis using snoc by (auto simp: vm_loop_append successively_append_iff)
  next
    case (Inr st)
    then have st: "files_ok fs" "st = state_of fs" using vm_loop_state by auto
    then have "vm_file (length fs) f (state_of fs) = Inl (verr c (OrderViolation j n))"
      using snoc.prems Inr by (cases "vm_file (length fs) f (state_of fs)") (auto simp: vm_loop_append)
    from vm_file_order_error [OF this st(1)] show ?thesis
      by (auto simp: successively_append_iff)
  qed
qed (simp add: vs_init_def)

lemma Seal_Returns:
  assumes "Seal c files ann resolve = Returns (Inr sd)"
  obtains info where "mFiles (slManifest sd) = SortFiles files" "ValidateManifest (slManifest sd) = None"
    "canonManifest c (slManifest sd) = Inr (slManifestBytes sd)"
    "slManifestDigest sd = Digest (slManifestBytes sd)"
    "BuildTorrent (mFiles (slManifest sd)) (slManifestBytes sd) (DigestHex (Digest (slManifestBytes sd))) resolve
       = Returns (Inr (info, slTorrent sd))"
    "slDistribution sd = \<lparr>dSchemaVersion = 1, dArtifactType = ''distribution'',
        dManifestDigest = Digest (slManifestBytes sd),
        dTorrent = \<lparr>tInfohash = trInfohash (slTorrent sd), tPieceLength = trPieceLength (slTorrent sd),
                    tPieceLayersDigest = trPieceLayersDigest (slTorrent sd)\<rparr>\<rparr>"
  using assms that
  by (auto simp: Seal_def Let_def split: option.splits sum.splits panic.splits)

lemma DigestHex_Digest [simp]: "DigestHex (Digest b) = sha256_hex b"
  by (simp only: DigestHex_def Digest_def TrimPrefix_append)

lemma reInfohash_infohash_of: "reInfohash (infohash_of b)"
proof -
  have "list_all is_lhex (sha256_hex b)" by (auto simp: list_all_iff sha256_hex_def intro: hex_encode_chars)
  then show ?thesis by (simp add: reInfohash_def infohash_of_def HasPrefix_def numeral_eq_Suc)
qed

lemma BuildTorrent_result:
  assumes "BuildTorrent files mb dh resolve = Returns (Inr (info, res))"
  shows "reInfohash (trInfohash res) \<and> (\<exists>k \<ge> 20. trPieceLength res = 2 ^ k) \<and> IsDigest (trPieceLayersDigest res)
    \<and> trPieceLayersDigest res = Digest (trPieceLayersBencode res)"
proof -
  obtain tree tot res0 layers where ft: "finish_torrent tree tot mb dh = Returns (info, res0)"
    and res: "res = res0\<lparr>trPieceLayersBencode := bencode (BDict layers), trPieceLayersDigest := Digest (bencode (BDict layers))\<rparr>"
    using assms by (auto simp: BuildTorrent_def Let_def split: panic.splits sum.splits)
  then show ?thesis
    using LadderPieceLength_power [of tot] reInfohash_infohash_of
    by (auto simp: finish_torrent_def Let_def split: if_splits)
qed

subsection \<open>A concrete artifact\<close>

definition demo_codec :: codec where
  "demo_codec = \<lparr>canonManifest = (\<lambda>_. Inr ''{}''), canonIndex = (\<lambda>_. Inr ''{}''), canonDist = (\<lambda>_. Inr ''{}''),
     decHead = (\<lambda>_. Inl []), decManifest = (\<lambda>_. Inl []), decIndex = (\<lambda>_. Inl []), decDist = (\<lambda>_. Inl [])\<rparr>"

definition demo_config :: File where
  "demo_config = small_file\<lparr>fKind := ''config'', fName := ''modelconfig.json''\<rparr>"

lemma demo_fields:
  "fSize small_file = 1" "fName small_file = ''w.gguf''" "fKind small_file = ''weights.gguf''" "fPart small_file = None"
  "fSize demo_config = 1" "fName demo_config = ''modelconfig.json''" "fKind demo_config = ''config''"
  "DigestHex (fMerkleRoot small_file) = hex_encode (MerkleRoot ''w'')"
  "DigestHex (fMerkleRoot demo_config) = hex_encode (MerkleRoot ''w'')"
  "IsDigest (fMerkleRoot small_file)" "IsDigest (fMerkleRoot demo_config)"
  "IsDigest (fDigest small_file)" "IsDigest (fDigest demo_config)"
proof -
  have "length (hex_encode (MerkleRoot ''w'')) = 64" by (simp add: length_MerkleRoot)
  then have d: "IsDigest (''sha256:'' @ hex_encode (MerkleRoot ''w''))"
    unfolding IsDigest_iff list_all_iff using hex_encode_chars by blast
  have "DigestHex (''sha256:'' @ h) = h" for h by (simp only: DigestHex_def TrimPrefix_append)
  then show "DigestHex (fMerkleRoot small_file) = hex_encode (MerkleRoot ''w'')"
    "DigestHex (fMerkleRoot demo_config) = hex_encode (MerkleRoot ''w'')"
    by (simp_all only: small_file_def demo_config_def File.simps)
  show "IsDigest (fMerkleRoot small_file)" "IsDigest (fMerkleRoot demo_config)"
    using d by (simp_all only: small_file_def demo_config_def File.simps)
qed (simp_all add: small_file_def demo_config_def)

lemma demo_valid:
  "ValidateManifest \<lparr>mSchemaVersion = 1, mArtifactType = ''model'', mFiles = [demo_config, small_file], mAnnotations = ann\<rparr> = None"
proof -
  have name: "ValidateFileName ''w.gguf'' = None" "ValidateFileName ''modelconfig.json'' = None" by code_simp+
  show ?thesis
    unfolding ValidateManifest_spec manifest_ok_def files_ok_def
    using name
    by (auto simp: demo_fields of_kind_def parts_of_def entry_wf_def known_kinds_def is_weights_def
        parts_contiguous_def fileOrder_def kindRank_def HasPrefix_def)
qed

lemma demo_seal:
  assumes "resolve ''w.gguf'' = Inr ''w''" and "resolve ''modelconfig.json'' = Inr ''w''"
  shows "\<exists>sd. Seal demo_codec [demo_config, small_file] ann resolve = Returns (Inr sd)"
proof -
  have lad: "\<not> LadderPieceLength t < 2" "1 \<le> LadderPieceLength t" "\<not> LadderPieceLength t < 1" for t
    by (simp_all add: LadderPieceLength_def)
  have s: "SortFiles [demo_config, small_file] = [demo_config, small_file]"
    by (simp add: SortFiles_def sort_by_def demo_fields fileOrder_def kindRank_def Let_def)
  have "\<exists>info res. BuildTorrent [demo_config, small_file] ''{}'' (sha256_hex ''{}'') resolve = Returns (Inr (info, res))"
    using lad assms
    by (simp add: BuildTorrent_def finish_torrent_def Let_def add_layer_def not_less demo_fields)
  then show ?thesis
    using demo_valid [of ann] by (auto simp: Seal_def s demo_codec_def Let_def)
qed

subsection \<open>Properties\<close>

text \<open>
  C9: whatever \<open>Seal\<close> returns is bound together: the manifest is valid and lists exactly the given
  files, its digest is the digest of its bytes, the distribution record is a valid record, and a
  node that holds only the manifest reconstructs a torrent that passes the binding check against
  that record. The gate can only fire on documents that were not sealed together.
\<close>

theorem Seal_binds:
  assumes "Seal c files ann resolve = Returns (Inr sd)"
  shows "ValidateManifest (slManifest sd) = None \<and> mset (mFiles (slManifest sd)) = mset files
    \<and> slManifestDigest sd = Digest (slManifestBytes sd)
    \<and> ValidateDistribution (slDistribution sd) = None
    \<and> (\<exists>r. Reconstruct (slManifest sd) (slManifestBytes sd) = Returns (Inr r)
         \<and> CheckRecord r (slDistribution sd) = Inr ())"
proof -
  from assms obtain info where sd: "mFiles (slManifest sd) = SortFiles files" "ValidateManifest (slManifest sd) = None"
    "slManifestDigest sd = Digest (slManifestBytes sd)"
    and bt: "BuildTorrent (mFiles (slManifest sd)) (slManifestBytes sd) (sha256_hex (slManifestBytes sd)) resolve
       = Returns (Inr (info, slTorrent sd))"
    and dist: "slDistribution sd = \<lparr>dSchemaVersion = 1, dArtifactType = ''distribution'',
        dManifestDigest = Digest (slManifestBytes sd),
        dTorrent = \<lparr>tInfohash = trInfohash (slTorrent sd), tPieceLength = trPieceLength (slTorrent sd),
                    tPieceLayersDigest = trPieceLayersDigest (slTorrent sd)\<rparr>\<rparr>"
    by (rule Seal_Returns) simp
  have "list_all (\<lambda>f. IsDigest (fMerkleRoot f)) (mFiles (slManifest sd))"
    using sd(2) by (auto simp: ValidateManifest_spec manifest_ok_def files_ok_def list_all_iff entry_wf_def)
  then have man: "BuildTorrentFromManifest (mFiles (slManifest sd)) (slManifestBytes sd) (sha256_hex (slManifestBytes sd))
      = Returns (Inr (info, (slTorrent sd)\<lparr>trPieceLayersBencode := [], trPieceLayersDigest := []\<rparr>))"
    using bt by (intro BuildTorrent_same) (simp_all add: list_all_iff)
  obtain k where k: "20 \<le> k" "trPieceLength (slTorrent sd) = 2 ^ k"
    using BuildTorrent_result [OF bt] by blast
  have "\<not> (2 ^ k :: int) < 16384"
    using power_increasing_iff [of "2 :: int" 14 k] k(1) by (simp add: not_less)
  moreover have "and (2 ^ k) (2 ^ k - 1 :: int) = 0" using power_of_two_test [of "2 ^ k"] by auto
  ultimately have "ValidateDistribution (slDistribution sd) = None"
    using BuildTorrent_result [OF bt] k by (simp add: ValidateDistribution_def dist Let_def)
  moreover have "\<exists>r. Reconstruct (slManifest sd) (slManifestBytes sd) = Returns (Inr r)
         \<and> CheckRecord r (slDistribution sd) = Inr ()"
    by (simp add: Reconstruct_def man CheckRecord_def dist Digest_def Let_def)
  ultimately show ?thesis using sd by (simp add: SortFiles_def)
qed

lemma Seal_binds_witness:
  "\<exists>sd r. Seal demo_codec [demo_config, small_file] [] (\<lambda>_. Inr ''w'') = Returns (Inr sd)
     \<and> Reconstruct (slManifest sd) (slManifestBytes sd) = Returns (Inr r) \<and> CheckRecord r (slDistribution sd) = Inr ()"
proof -
  obtain sd where "Seal demo_codec [demo_config, small_file] [] (\<lambda>_. Inr ''w'') = Returns (Inr sd)"
    using demo_seal [of "\<lambda>_. Inr ''w''"] by auto
  with Seal_binds [OF this] show ?thesis by blast
qed

text \<open>
  \<open>Seal\<close> never panics, and with part numbers inside the range it never rejects the order of
  its own files: it sorts by the comparator the validation uses.
\<close>

lemma Seal_no_order_error:
  assumes "\<forall>f \<in> set files. part_in_range f"
  shows "Seal c files ann resolve \<noteq> Panics
    \<and> (\<forall>cls i n. Seal c files ann resolve \<noteq> Returns (Inl (SealInvalid (verr cls (OrderViolation i n)))))"
proof -
  let ?m = "\<lparr>mSchemaVersion = 1, mArtifactType = ''model'', mFiles = SortFiles files, mAnnotations = ann\<rparr>"
  have "Seal c files ann resolve \<noteq> Panics"
  proof (cases "ValidateManifest ?m")
    case None
    then have "manifest_ok ?m" by (simp add: ValidateManifest_spec)
    then have "BuildTorrent (SortFiles files) mb (sha256_hex mb) resolve \<noteq> Panics" for mb
      using BuildTorrent_no_panic [of ?m "sha256_hex mb" mb resolve] by simp
    then show ?thesis using None by (auto simp: Seal_def Let_def split: sum.splits panic.splits)
  qed (simp add: Seal_def Let_def)
  moreover have "ValidateManifest ?m \<noteq> Some (verr cls (OrderViolation i n))" for cls i n
  proof
    assume "ValidateManifest ?m = Some (verr cls (OrderViolation i n))"
    then have "vm_loop 0 (SortFiles files) vs_init = Inl (verr cls (OrderViolation i n))"
      by (auto simp: ValidateManifest_def split: if_splits sum.splits option.splits prod.splits)
    then have "\<not> successively (\<lambda>a b. fileOrder a b \<le> 0) (SortFiles files)" by (rule vm_loop_order_error)
    then show False using SortFiles_in_order assms by blast
  qed
  then have "Seal c files ann resolve \<noteq> Returns (Inl (SealInvalid (verr cls (OrderViolation i n))))" for cls i n
    by (auto simp: Seal_def Let_def split: option.splits sum.splits panic.splits)
  ultimately show ?thesis by blast
qed

lemma Seal_no_order_error_witness:
  "Seal demo_codec [small_file, demo_config] [] (\<lambda>_. Inr ''w'') \<noteq> Panics"
  by (rule Seal_no_order_error [THEN conjunct1]) (simp add: part_in_range_def demo_fields demo_config_def derefPart_def)

end
