(* ===== verification/SwarmStorage.thy ===== *)
theory SwarmStorage
  imports CasState Seal
begin

text \<open>
  \<open>internal/swarm/storage.go\<close>: the storage driver through which the BitTorrent engine writes
  directly into the content-addressed store. The engine is third-party code: it may call the
  driver's operations in any order and on any piece. The info dictionary it hands over is
  untrusted input, a record here. Each operation runs under the driver's lock, so it is one step.
\<close>

subsection \<open>Data\<close>

text \<open>The parsed info dictionary, as far as the driver looks at it.\<close>

record info_file =
  ifPath :: "string list"
  ifLength :: int
  ifOffset :: int

record info =
  inHasV1 :: bool
  inPieceLength :: int
  inFiles :: "info_file list"

datatype swarm_error =
    InfohashLength string | SpecDigestLength string
  | HasV1Fields | NotRegistered string | NonCanonicalPath "string list"
  | OpenSealed string | ReadUnstarted string | WriteSealed string | WriteUnpinned
  | TrackedNowhere string | SealNoPart string | CasErr cas_error | ReadPart
  | VerifyWriteFailed swarm_error | DriverClosed nat nat | EngineErr nat string | BadSealedPiece nat string

text \<open>An open part: its path and the content behind the file handle.\<close>

record fileState =
  stName :: string
  stDigest :: string
  stSize :: int
  stSealed :: bool
  stFailed :: "swarm_error option"
  stPart :: "(string \<times> string) option"
  stNumDone :: int
  stPieces :: "bool list option"

record fileSpan =
  spPath :: string
  spBegin :: int
  spEnd :: int

record casTorrent =
  ctKey :: string
  ctPieceLength :: int
  ctSpans :: "fileSpan list"
  ctFiles :: "(string \<times> fileState) list"
  ctClosed :: bool

record CASStorage =
  csStore :: store
  csVerified :: "string list"
  csRegistry :: "(string \<times> (string \<times> FileSpec) list) list"
  csOpen :: "(string \<times> casTorrent) list"

definition MarkVerified :: "string \<Rightarrow> CASStorage \<Rightarrow> CASStorage" where
  "MarkVerified d c = c\<lparr>csVerified := d # csVerified c\<rparr>"

definition WasVerified :: "CASStorage \<Rightarrow> string \<Rightarrow> bool" where
  "WasVerified c d = (d \<in> set (csVerified c))"

subsection \<open>Registration and opening\<close>

definition normalizeKey :: "string \<Rightarrow> string" where
  "normalizeKey ih = (if length ih > 40 then take 40 ih else ih)"

definition Register :: "string \<Rightarrow> (string \<times> FileSpec) list \<Rightarrow> CASStorage \<Rightarrow> CASStorage \<times> (swarm_error + unit)" where
  "Register ih files c =
     (if length ih \<noteq> 64 then (c, Inl (InfohashLength ih))
      else case find (\<lambda>(path, spec). length (fsDigest spec) \<noteq> 64) files of
             Some (path, spec) \<Rightarrow> (c, Inl (SpecDigestLength path))
           | None \<Rightarrow> (c\<lparr>csRegistry := AList.update (take 40 ih) files (csRegistry c)\<rparr>, Inr ()))"

definition canonicalTorrentPath :: "string list \<Rightarrow> bool" where
  "canonicalTorrentPath segs =
     (segs \<noteq> [] \<and> list_all (\<lambda>s. \<not> (s = [] \<or> s = ''.'' \<or> s = ''..'' \<or> CHR 0x5C \<in> set s)) segs)"

definition slashJoin :: "string list \<Rightarrow> string" where
  "slashJoin segs = join_with ''/'' segs"

text \<open>One file of the info dictionary: its span and its state.\<close>

text \<open>The number of pieces of a file, with the sums of untrusted numbers wrapping.\<close>

definition piece_count :: "int \<Rightarrow> int \<Rightarrow> int" where
  "piece_count pl len = div64 (wrap64 (wrap64 (len + pl) - 1)) pl"

definition new_file :: "(string \<Rightarrow> bool) \<Rightarrow> int \<Rightarrow> (string \<times> FileSpec) list \<Rightarrow> info_file \<Rightarrow> fileSpan \<times> fileState" where
  "new_file has pl files fi =
     (let path = slashJoin (ifPath fi);
          begin0 = div64 (ifOffset fi) pl;
          n = piece_count pl (ifLength fi);
          st = \<lparr>stName = path, stDigest = [], stSize = ifLength fi, stSealed = False, stFailed = None,
                stPart = None, stNumDone = 0, stPieces = None\<rparr> in
      (\<lparr>spPath = path, spBegin = begin0, spEnd = wrap64 (begin0 + n)\<rparr>,
       case map_of files path of
         None \<Rightarrow> st
       | Some spec \<Rightarrow>
           if has (fsDigest spec)
           then (if n = 1
                 then st\<lparr>stDigest := fsDigest spec, stSealed := True, stPieces := Some [True], stNumDone := 1\<rparr>
                 else st\<lparr>stDigest := fsDigest spec, stSealed := True, stPieces := Some (replicate (nat n) False)\<rparr>)
           else st\<lparr>stDigest := fsDigest spec, stPieces := Some (replicate (nat n) False)\<rparr>))"

fun new_files ::
  "(string \<Rightarrow> bool) \<Rightarrow> int \<Rightarrow> (string \<times> FileSpec) list \<Rightarrow> info_file list \<Rightarrow> casTorrent \<Rightarrow> (swarm_error + casTorrent) panic" where
  "new_files has pl files [] t = Returns (Inr t)"
| "new_files has pl files (fi # fis) t =
     (if \<not> canonicalTorrentPath (ifPath fi) then Returns (Inl (NonCanonicalPath (ifPath fi)))
      else if ifLength fi = 0 then new_files has pl files fis t
      else if pl = 0 \<or> ifOffset fi mod pl \<noteq> 0 then Panics
      else if map_of files (slashJoin (ifPath fi)) \<noteq> None \<and> piece_count pl (ifLength fi) < 0 then Panics
      else
        let (span, st) = new_file has pl files fi in
        new_files has pl files fis
          (t\<lparr>ctSpans := ctSpans t @ [span], ctFiles := AList.update (spPath span) st (ctFiles t)\<rparr>))"

definition newCASTorrent ::
  "(string \<Rightarrow> bool) \<Rightarrow> string \<Rightarrow> info \<Rightarrow> (string \<times> FileSpec) list \<Rightarrow> (swarm_error + casTorrent) panic" where
  "newCASTorrent has key ti files =
     new_files has (inPieceLength ti) files (sort_by (\<lambda>a b. ifOffset a < ifOffset b) (inFiles ti))
       \<lparr>ctKey = key, ctPieceLength = inPieceLength ti, ctSpans = [], ctFiles = [], ctClosed = False\<rparr>"

definition OpenTorrent :: "(string \<Rightarrow> bool) \<Rightarrow> info \<Rightarrow> string \<Rightarrow> CASStorage \<Rightarrow> (CASStorage \<times> (swarm_error + unit)) panic" where
  "OpenTorrent bad ti infoHash c =
     (if inHasV1 ti then Returns (c, Inl HasV1Fields)
      else
        let key = hex_encode infoHash in
        case map_of (csRegistry c) key of
          None \<Rightarrow> Returns (c, Inl (NotRegistered key))
        | Some files \<Rightarrow>
            (case newCASTorrent (Has bad (csStore c)) key ti files of
               Panics \<Rightarrow> Panics
             | Returns (Inl e) \<Rightarrow> Returns (c, Inl e)
             | Returns (Inr t) \<Rightarrow> Returns (c\<lparr>csOpen := AList.update key t (csOpen c)\<rparr>, Inr ())))"

definition driverFor :: "CASStorage \<Rightarrow> string \<Rightarrow> casTorrent option" where
  "driverFor c ih = map_of (csOpen c) (normalizeKey ih)"

definition spanFor :: "casTorrent \<Rightarrow> int \<Rightarrow> fileSpan panic" where
  "spanFor t idx =
     (case find (\<lambda>s. spBegin s \<le> idx \<and> idx < spEnd s) (ctSpans t) of
        Some s \<Rightarrow> Returns s
      | None \<Rightarrow> Panics)"

text \<open>The piece view: the file's path and the piece's index within the file.\<close>

definition piece :: "casTorrent \<Rightarrow> int \<Rightarrow> (string \<times> nat) panic" where
  "piece t idx =
     (case spanFor t idx of Panics \<Rightarrow> Panics | Returns s \<Rightarrow> Returns (spPath s, nat (idx - spBegin s)))"

subsection \<open>Reading and writing\<close>

definition write_at :: "string \<Rightarrow> nat \<Rightarrow> string \<Rightarrow> string" where
  "write_at content off b =
     take off (content @ replicate (off - length content) (CHR 0x00)) @ b @ drop (off + length b) content"

text \<open>\<open>File.ReadAt\<close>: up to \<open>n\<close> bytes; fewer only at the end of the file.\<close>

definition read_at :: "string \<Rightarrow> nat \<Rightarrow> nat \<Rightarrow> string" where
  "read_at content off n = take n (drop off content)"

definition ReadAt :: "(string \<Rightarrow> bool) \<Rightarrow> CASStorage \<Rightarrow> int \<Rightarrow> fileState \<Rightarrow> nat \<Rightarrow> nat \<Rightarrow> nat \<Rightarrow> swarm_error + string" where
  "ReadAt bad c pl st local off n =
     (let off = off + local * nat pl in
      if stSealed st then
        (case OpenBlob bad (csStore c) (stDigest st) of
           Opened f \<Rightarrow> Inr (read_at (fContent f) off n)
         | _ \<Rightarrow> Inl (OpenSealed (stDigest st)))
      else case stPart st of
             None \<Rightarrow> Inl (ReadUnstarted (stName st))
           | Some (name, content) \<Rightarrow> Inr (read_at content off n))"

definition swarm_part_path :: "put_env \<Rightarrow> string \<Rightarrow> string" where
  "swarm_part_path env digest = incomingDir @ ''/'' @ take 16 digest @ ''-'' @ peRand env @ ''.part''"

definition newSwarmPart :: "put_env \<Rightarrow> string \<Rightarrow> store \<Rightarrow> cas_error + (string \<times> store)" where
  "newSwarmPart env digest s =
     (let name = swarm_part_path env digest in
      if peFault env SysMkIncoming then Inl (IOErr SysMkIncoming)
      else if peFault env SysCreate \<or> look s name \<noteq> None then Inl (IOErr SysCreate)
      else Inr (name, set_file name \<lparr>fContent = [], fMode = partMode, fTime = peNow env\<rparr> s))"

text \<open>An operation on one file: the shared storage and the file's state, with its result.\<close>

type_synonym 'a file_op = "CASStorage \<times> fileState \<Rightarrow> (CASStorage \<times> fileState) \<times> (swarm_error + 'a)"

definition WriteAt :: "put_env \<Rightarrow> int \<Rightarrow> nat \<Rightarrow> string \<Rightarrow> nat \<Rightarrow> unit file_op" where
  "WriteAt env pl local b off = (\<lambda>(c, st).
     let off = off + local * nat pl in
     if stSealed st then ((c, st), Inl (WriteSealed (stDigest st)))
     else if stDigest st = [] then ((c, st), Inl WriteUnpinned)
     else case stFailed st of
       Some e \<Rightarrow> ((c, st), Inl e)
     | None \<Rightarrow>
       (case (case stPart st of
                Some p \<Rightarrow> Inr (p, csStore c)
              | None \<Rightarrow> map_sum id (\<lambda>(name, s). ((name, []), s)) (newSwarmPart env (stDigest st) (csStore c))) of
          Inl e \<Rightarrow> ((c, st), Inl (CasErr e))
        | Inr ((name, content), s) \<Rightarrow>
            if peFault env SysWrite
            then ((c\<lparr>csStore := s\<rparr>, st\<lparr>stPart := Some (name, content)\<rparr>), Inl (CasErr (IOErr SysWrite)))
            else
              let content = write_at content off b in
              ((c\<lparr>csStore := write_file env name content s\<rparr>, st\<lparr>stPart := Some (name, content)\<rparr>), Inr ())))"

subsection \<open>Completion and sealing\<close>

definition sealLocked :: "put_env \<Rightarrow> unit file_op" where
  "sealLocked env = (\<lambda>(c, st).
     case stPart st of
       None \<Rightarrow> ((c, st), Inl (SealNoPart (stDigest st)))
     | Some (name, content) \<Rightarrow>
       if peFault env SysRead then ((c, st), Inl ReadPart)
       else
         case Put env (stDigest st) content (csStore c) of
           (s, Inl e) \<Rightarrow> ((c\<lparr>csStore := remove_file env name s\<rparr>, st), Inl (CasErr e))
         | (s, Inr _) \<Rightarrow>
             ((MarkVerified (stDigest st) (c\<lparr>csStore := remove_file env name s\<rparr>),
               st\<lparr>stPart := None, stSealed := True\<rparr>), Inr ()))"

definition MarkComplete :: "put_env \<Rightarrow> nat \<Rightarrow> unit file_op" where
  "MarkComplete env local = (\<lambda>(c, st).
     let bits = (case stPieces st of None \<Rightarrow> [] | Some bs \<Rightarrow> bs) in
     if stSealed st then
       (if \<not> bits ! local then
          let st = st\<lparr>stPieces := Some (bits[local := True]), stNumDone := stNumDone st + 1\<rparr> in
          ((if stNumDone st = int (length bits) then MarkVerified (stDigest st) c else c, st), Inr ())
        else ((c, st), Inr ()))
     else case stFailed st of
       Some e \<Rightarrow> ((c, st), Inl e)
     | None \<Rightarrow>
       if stPieces st = None then ((c, st), Inl (TrackedNowhere (stName st)))
       else
         let st = (if \<not> bits ! local
                   then st\<lparr>stPieces := Some (bits[local := True]), stNumDone := stNumDone st + 1\<rparr> else st) in
         if stNumDone st < int (length bits) then ((c, st), Inr ())
         else case sealLocked env (c, st) of
                ((c, st), Inl e) \<Rightarrow> ((c, st\<lparr>stFailed := Some e\<rparr>), Inl e)
              | ((c, st), Inr u) \<Rightarrow> ((c, st), Inr u))"

definition MarkNotComplete :: "nat \<Rightarrow> unit file_op" where
  "MarkNotComplete local = (\<lambda>(c, st).
     case stPieces st of
       None \<Rightarrow> ((c, st), Inr ())
     | Some bits \<Rightarrow>
         if bits ! local
         then ((c, st\<lparr>stPieces := Some (bits[local := False]), stNumDone := stNumDone st - 1\<rparr>), Inr ())
         else ((c, st), Inr ()))"

record Completion =
  cpOk :: bool
  cpComplete :: bool
  cpErr :: "swarm_error option"

definition Completion_of :: "fileState \<Rightarrow> nat \<Rightarrow> Completion" where
  "Completion_of st local =
     (if stDigest st = [] then \<lparr>cpOk = False, cpComplete = False, cpErr = None\<rparr>
      else case stFailed st of
        Some e \<Rightarrow> \<lparr>cpOk = True, cpComplete = False, cpErr = Some e\<rparr>
      | None \<Rightarrow> \<lparr>cpOk = True,
                 cpComplete = (case stPieces st of None \<Rightarrow> False | Some bits \<Rightarrow> bits ! local),
                 cpErr = None\<rparr>)"

subsection \<open>Closing and waiting\<close>

definition close_file :: "put_env \<Rightarrow> fileState \<Rightarrow> store \<Rightarrow> store" where
  "close_file env st s =
     (case stPart st of
        Some (name, _) \<Rightarrow> if \<not> stSealed st then remove_file env name s else s
      | None \<Rightarrow> s)"

definition close_driver :: "put_env \<Rightarrow> string \<Rightarrow> CASStorage \<Rightarrow> CASStorage" where
  "close_driver env key c =
     (case map_of (csOpen c) key of
        None \<Rightarrow> c
      | Some t \<Rightarrow>
          c\<lparr>csStore := fold (\<lambda>(_, st). close_file env st) (ctFiles t) (csStore c),
            csOpen := AList.delete key (csOpen c)\<rparr>)"

definition SealedCount :: "casTorrent \<Rightarrow> nat" where
  "SealedCount t = length (filter (\<lambda>(_, st). stSealed st) (ctFiles t))"

text \<open>One turn of \<open>WaitSealed\<close>'s loop: a result, or wait for the next broadcast.\<close>

definition WaitSealed :: "casTorrent \<Rightarrow> nat \<Rightarrow> (swarm_error + unit) option" where
  "WaitSealed t n =
     (let failed = find (\<lambda>(_, st). stFailed st \<noteq> None) (ctFiles t);
          doneN = length (filter (\<lambda>(_, st). stFailed st = None \<and> stSealed st) (ctFiles t)) in
      case failed of
        Some (_, st) \<Rightarrow> Some (Inl (VerifyWriteFailed (the (stFailed st))))
      | None \<Rightarrow>
          if doneN \<ge> n then Some (Inr ())
          else if ctClosed t then Some (Inl (DriverClosed n doneN))
          else None)"

text \<open>\<open>VerifyPresent\<close>: the engine checks every piece of every sealed multi-piece file.\<close>

fun verify_pieces :: "(int \<Rightarrow> bool) \<Rightarrow> (int \<Rightarrow> bool) \<Rightarrow> string \<Rightarrow> int list \<Rightarrow> swarm_error + unit" where
  "verify_pieces fails complete path [] = Inr ()"
| "verify_pieces fails complete path (i # is) =
     (if fails i then Inl (EngineErr (nat i) path)
      else if \<not> complete i then Inl (BadSealedPiece (nat i) path)
      else verify_pieces fails complete path is)"

fun verify_spans :: "(int \<Rightarrow> bool) \<Rightarrow> (int \<Rightarrow> bool) \<Rightarrow> casTorrent \<Rightarrow> fileSpan list \<Rightarrow> swarm_error + unit" where
  "verify_spans fails complete t [] = Inr ()"
| "verify_spans fails complete t (s # ss) =
     (let sealed = (case map_of (ctFiles t) (spPath s) of None \<Rightarrow> False | Some st \<Rightarrow> stSealed st) in
      if \<not> sealed \<or> \<not> spEnd s - spBegin s > 1 then verify_spans fails complete t ss
      else bind_res (verify_pieces fails complete (spPath s) [spBegin s..spEnd s - 1])
             (\<lambda>_. verify_spans fails complete t ss))"

definition VerifyPresent :: "(int \<Rightarrow> bool) \<Rightarrow> (int \<Rightarrow> bool) \<Rightarrow> casTorrent \<Rightarrow> swarm_error + unit" where
  "VerifyPresent fails complete t = verify_spans fails complete t (ctSpans t)"

subsection \<open>The driver as a step system\<close>

text \<open>
  The engine obtains a piece view and calls an operation on it; \<open>in_range\<close> says that the view's
  index lies inside the file's bit list, as it does whenever the Go code does not panic. Other
  parts of the program may change the store meanwhile, keeping its integrity and its blobs.
\<close>

definition in_range :: "nat \<Rightarrow> fileState \<Rightarrow> bool" where
  "in_range local st = (case stPieces st of None \<Rightarrow> True | Some bits \<Rightarrow> local < length bits)"

definition put_file :: "string \<Rightarrow> string \<Rightarrow> fileState \<Rightarrow> CASStorage \<Rightarrow> CASStorage" where
  "put_file key path st c =
     (case map_of (csOpen c) key of
        None \<Rightarrow> c
      | Some t \<Rightarrow> c\<lparr>csOpen := AList.update key (t\<lparr>ctFiles := AList.update path st (ctFiles t)\<rparr>) (csOpen c)\<rparr>)"

definition file_at :: "CASStorage \<Rightarrow> string \<Rightarrow> string \<Rightarrow> fileState option" where
  "file_at c key path =
     (case map_of (csOpen c) key of None \<Rightarrow> None | Some t \<Rightarrow> map_of (ctFiles t) path)"

datatype piece_call = CallWrite string nat | CallComplete | CallNotComplete

fun call_op :: "put_env \<Rightarrow> int \<Rightarrow> nat \<Rightarrow> piece_call \<Rightarrow> unit file_op" where
  "call_op env pl local (CallWrite b off) = WriteAt env pl local b off"
| "call_op env pl local CallComplete = MarkComplete env local"
| "call_op env pl local CallNotComplete = MarkNotComplete local"

inductive storage_step :: "CASStorage \<Rightarrow> CASStorage \<Rightarrow> bool" where
  call: "map_of (csOpen c) key = Some t \<Longrightarrow> piece t idx = Returns (path, local) \<Longrightarrow>
    file_at c key path = Some st \<Longrightarrow> in_range local st \<Longrightarrow>
    call_op env (ctPieceLength t) local call (c, st) = ((c', st'), r) \<Longrightarrow>
    storage_step c (put_file key path st' c')"
| register: "Register ih files c = (c', r) \<Longrightarrow> storage_step c c'"
| open_torrent: "OpenTorrent bad ti ih c = Returns (c', r) \<Longrightarrow> storage_step c c'"
| close: "storage_step c (close_driver env key c)"
| others: "store_ok s' \<Longrightarrow> (\<And>d. present (csStore c) d \<Longrightarrow> present s' d) \<Longrightarrow> storage_step c (c\<lparr>csStore := s'\<rparr>)"

text \<open>A part's path is never a blob's path; kept as an invariant of the open parts.\<close>

definition part_ok :: "fileState \<Rightarrow> bool" where
  "part_ok st = (case stPart st of None \<Rightarrow> True | Some (name, _) \<Rightarrow> HasPrefix name ''incoming/'')"

definition file_ok :: "store \<Rightarrow> fileState \<Rightarrow> bool" where
  "file_ok s st \<longleftrightarrow>
     part_ok st \<and> (stSealed st \<longrightarrow> present s (stDigest st) \<and> stPart st = None \<and> stFailed st = None \<and> stPieces st \<noteq> None)
     \<and> (stDigest st = [] \<longrightarrow> stPart st = None \<and> \<not> stSealed st \<and> stPieces st = None)
     \<and> (\<forall>bits. stPieces st = Some bits \<longrightarrow> stNumDone st = int (length (filter id bits)))"

definition storage_ok :: "CASStorage \<Rightarrow> bool" where
  "storage_ok c \<longleftrightarrow>
     store_ok (csStore c) \<and> (\<forall>d \<in> set (csVerified c). present (csStore c) d)
     \<and> (\<forall>ih files path spec. map_of (csRegistry c) ih = Some files \<and> map_of files path = Some spec
          \<longrightarrow> length (fsDigest spec) = 64)
     \<and> (\<forall>key path st. file_at c key path = Some st \<longrightarrow> file_ok (csStore c) st)"

lemma file_ok_mono:
  "file_ok s st \<Longrightarrow> (\<And>d. present s d \<Longrightarrow> present s' d) \<Longrightarrow> file_ok s' st"
  by (auto simp: file_ok_def)

lemma file_at_put_file:
  assumes "map_of (csOpen c) key = Some t"
  shows "file_at (put_file key path st c) k p =
    (if k = key \<and> p = path then Some st else file_at c k p)"
  using assms by (auto simp: file_at_def put_file_def update_conv')

lemma put_file_simps [simp]:
  "csStore (put_file key path st c) = csStore c" "csVerified (put_file key path st c) = csVerified c"
  "csRegistry (put_file key path st c) = csRegistry c"
  by (simp_all add: put_file_def split: option.split)

text \<open>What an operation on a file does to the shared state.\<close>

definition op_frame :: "CASStorage \<Rightarrow> CASStorage \<Rightarrow> bool" where
  "op_frame c c' \<longleftrightarrow> csOpen c' = csOpen c \<and> csRegistry c' = csRegistry c
     \<and> (store_ok (csStore c) \<longrightarrow> store_ok (csStore c'))
     \<and> (\<forall>d. present (csStore c) d \<longrightarrow> present (csStore c') d)
     \<and> (\<forall>d \<in> set (csVerified c'). d \<in> set (csVerified c) \<or> present (csStore c') d)"

lemma swarm_part_not_blob [simp]: "swarm_part_path env d \<noteq> blob_path e" "blob_path e \<noteq> swarm_part_path env d"
  by (simp_all add: swarm_part_path_def blob_path_def blobsDir_def incomingDir_def)

lemma incoming_not_blob: "HasPrefix name ''incoming/'' \<Longrightarrow> name \<noteq> blob_path d"
  by (auto simp: HasPrefix_iff blob_path_def blobsDir_def)

lemma count_set_True:
  "i < length bits \<Longrightarrow> \<not> bits ! i \<Longrightarrow> length (filter id (bits[i := True])) = Suc (length (filter id bits))"
  by (induction bits arbitrary: i) (auto split: nat.split)

lemma count_set_False:
  "i < length bits \<Longrightarrow> bits ! i \<Longrightarrow> Suc (length (filter id (bits[i := False]))) = length (filter id bits)"
  by (induction bits arbitrary: i) (auto split: nat.split)

lemma count_set_False_int:
  "i < length bits \<Longrightarrow> bits ! i \<Longrightarrow> int (length (filter id (bits[i := False]))) = int (length (filter id bits)) - 1"
  using count_set_False [of i bits] by linarith

lemma op_frame_files:
  assumes "\<And>d. look (csStore c') (blob_path d) = look (csStore c) (blob_path d)"
    and "csOpen c' = csOpen c" "csRegistry c' = csRegistry c" "csVerified c' = csVerified c"
  shows "op_frame c c'"
  using assms store_ok_cong [of "csStore c'" "csStore c"] present_cong [of "csStore c'" "csStore c"]
  by (simp add: op_frame_def)

lemma op_frame_refl [simp]: "op_frame c c"
  by (rule op_frame_files) simp_all

lemma WriteAt_ok:
  assumes w: "WriteAt env pl local b off (c, st) = ((c', st'), r)" and st: "file_ok (csStore c) st"
  shows "op_frame c c' \<and> file_ok (csStore c') st' \<and> csVerified c' = csVerified c"
proof -
  consider "c' = c" "st' = st"
    | name content s where "stPart st = Some (name, content)" "\<not> stSealed st" "stDigest st \<noteq> []" "stFailed st = None"
        "s = csStore c"
        "(c' = c \<and> st' = st) \<or> (\<exists>x. c' = c\<lparr>csStore := write_file env name x s\<rparr> \<and> st' = st\<lparr>stPart := Some (name, x)\<rparr>)"
    | name s where "stPart st = None" "\<not> stSealed st" "stDigest st \<noteq> []" "stFailed st = None"
        "newSwarmPart env (stDigest st) (csStore c) = Inr (name, s)"
        "(c' = c\<lparr>csStore := s\<rparr> \<and> st' = st\<lparr>stPart := Some (name, [])\<rparr>)
          \<or> (\<exists>x. c' = c\<lparr>csStore := write_file env name x s\<rparr> \<and> st' = st\<lparr>stPart := Some (name, x)\<rparr>)"
    using w by (auto simp: WriteAt_def Let_def map_sum_Inr split: if_splits option.splits sum.splits prod.splits)
  then show ?thesis
  proof cases
    case 1
    then show ?thesis using st by simp
  next
    case (2 name content s)
    have n: "HasPrefix name ''incoming/''" using st 2(1) by (simp add: file_ok_def part_ok_def)
    have look: "look (write_file env name x s) (blob_path d) = look s (blob_path d)" for x d
      using incoming_not_blob [OF n, of d] by (auto simp: write_file_def split: option.split)
    show ?thesis
      using 2 st n look by (auto simp: file_ok_def part_ok_def intro!: op_frame_files)
  next
    case (3 name s)
    have nm: "name = swarm_part_path env (stDigest st)" and n: "HasPrefix name ''incoming/''"
      using 3(5) by (auto simp: newSwarmPart_def Let_def swarm_part_path_def incomingDir_def HasPrefix_def split: if_splits)
    have look: "look s (blob_path d) = look (csStore c) (blob_path d)" for d
      using 3(5) by (auto simp: newSwarmPart_def Let_def split: if_splits)
    have look': "look (write_file env name x s) (blob_path d) = look (csStore c) (blob_path d)" for x d
      using look incoming_not_blob [OF n, of d] by (auto simp: write_file_def split: option.split)
    show ?thesis
      using 3 st n look look' by (auto simp: file_ok_def part_ok_def intro!: op_frame_files)
  qed
qed

lemma sealLocked_ok:
  assumes "sealLocked env (c, st) = ((c', st'), r)" and "part_ok st"
  shows "op_frame c c' \<and> (r \<noteq> Inr () \<longrightarrow> st' = st)
    \<and> (r = Inr () \<longrightarrow> (\<exists>name content. stPart st = Some (name, content) \<and> sha256_hex content = stDigest st
         \<and> st' = st\<lparr>stPart := None, stSealed := True\<rparr> \<and> present (csStore c') (stDigest st)))"
proof (cases "stPart st")
  case None
  then show ?thesis using assms by (auto simp: sealLocked_def)
next
  case (Some nc)
  obtain name content where nc: "nc = (name, content)" by (cases nc)
  obtain s res where put: "Put env (stDigest st) content (csStore c) = (s, res)"
    by (cases "Put env (stDigest st) content (csStore c)")
  note fr = Put_frame [OF put]
  have n: "HasPrefix name ''incoming/''" using assms(2) Some nc by (simp add: part_ok_def)
  have rm: "look (remove_file env name s) (blob_path d) = look s (blob_path d)" for d
    using incoming_not_blob [OF n, of d] by (simp add: remove_file_def)
  note ok = store_ok_cong [OF rm] and pr = present_cong [OF rm]
  show ?thesis
    using assms(1) fr ok pr Some nc put
    by (auto simp: sealLocked_def op_frame_def MarkVerified_def split: if_splits sum.splits)
qed

lemma MarkComplete_unsealed:
  assumes "\<not> stSealed st" "stFailed st = None" "stPieces st = Some bits"
  shows "MarkComplete env local (c, st) =
    (let st1 = (if \<not> bits ! local
                then st\<lparr>stPieces := Some (bits[local := True]), stNumDone := stNumDone st + 1\<rparr> else st) in
     if stNumDone st1 < int (length bits) then ((c, st1), Inr ())
     else case sealLocked env (c, st1) of
            ((c, st), Inl e) \<Rightarrow> ((c, st\<lparr>stFailed := Some e\<rparr>), Inl e)
          | ((c, st), Inr u) \<Rightarrow> ((c, st), Inr u))"
  using assms by (simp add: MarkComplete_def Let_def)

lemma MarkComplete_ok:
  assumes m: "MarkComplete env local (c, st) = ((c', st'), r)" and st: "file_ok (csStore c) st" and "in_range local st"
  shows "op_frame c c' \<and> file_ok (csStore c') st'"
proof (cases "stSealed st")
  case True
  then have "present (csStore c) (stDigest st)" using st by (simp add: file_ok_def)
  then have "op_frame c (MarkVerified (stDigest st) c)" by (simp add: op_frame_def MarkVerified_def)
  moreover obtain bits where bits: "stPieces st = Some bits \<or> stPieces st = None" by blast
  ultimately show ?thesis
    using m st True assms(3) count_set_True
    by (cases "stPieces st") (auto simp: MarkComplete_def Let_def file_ok_def part_ok_def in_range_def MarkVerified_def split: if_splits)
next
  case False
  show ?thesis
  proof (cases "stFailed st \<noteq> None \<or> stPieces st = None")
    case True
    then show ?thesis using m st False by (auto simp: MarkComplete_def Let_def split: option.splits)
  next
    case nf: False
    then obtain bits where bits: "stPieces st = Some bits" "local < length bits" "stFailed st = None"
      using assms(3) by (auto simp: in_range_def)
    define st1 where "st1 = (if \<not> bits ! local then st\<lparr>stPieces := Some (bits[local := True]), stNumDone := stNumDone st + 1\<rparr> else st)"
    have st1: "file_ok (csStore c) st1" "\<not> stSealed st1" "stDigest st1 = stDigest st" "stFailed st1 = None" "part_ok st1"
      "stPieces st1 \<noteq> None"
      using st bits False count_set_True [of local bits] by (auto simp: st1_def file_ok_def part_ok_def)
    have m': "(if stNumDone st1 < int (length bits) then ((c, st1), Inr ())
        else case sealLocked env (c, st1) of
                ((c, st), Inl e) \<Rightarrow> ((c, st\<lparr>stFailed := Some e\<rparr>), Inl e)
              | ((c, st), Inr u) \<Rightarrow> ((c, st), Inr u)) = ((c', st'), r)"
      using m unfolding MarkComplete_unsealed [OF False bits(3,1)] Let_def st1_def .
    show ?thesis
    proof (cases "stNumDone st1 < int (length bits)")
      case True
      then show ?thesis using m' st1 by simp
    next
      case nl: False
      obtain c2 st2 r2 where sl: "sealLocked env (c, st1) = ((c2, st2), r2)" by (metis surj_pair)
      note so = sealLocked_ok [OF sl st1(5)]
      show ?thesis
      proof (cases r2)
        case (Inl e)
        then have "c' = c2" "st' = st1\<lparr>stFailed := Some e\<rparr>" using m' nl sl so by auto
        then show ?thesis using so st1 file_ok_mono [OF st1(1), of "csStore c2"]
          by (auto simp: file_ok_def op_frame_def part_ok_def)
      next
        case (Inr u)
        then have e: "c' = c2" "st' = st1\<lparr>stPart := None, stSealed := True\<rparr>" "present (csStore c2) (stDigest st1)" "op_frame c c2"
          using m' nl sl so by auto
        have "stDigest st1 \<noteq> []" using e(3) by (auto simp: present_def is_digest_hex_def)
        then show ?thesis using e st1 by (auto simp: file_ok_def part_ok_def)
      qed
    qed
  qed
qed

lemma MarkNotComplete_ok:
  assumes m: "MarkNotComplete local (c, st) = ((c', st'), r)" and st: "file_ok (csStore c) st" and "in_range local st"
  shows "c' = c \<and> file_ok (csStore c') st'"
  using assms count_set_False_int
  by (cases "stPieces st") (auto simp: MarkNotComplete_def file_ok_def part_ok_def in_range_def split: if_splits)

lemma call_op_ok:
  "call_op env pl local call (c, st) = ((c', st'), r) \<Longrightarrow> file_ok (csStore c) st \<Longrightarrow> in_range local st
     \<Longrightarrow> op_frame c c' \<and> file_ok (csStore c') st'"
proof -
  assume a: "call_op env pl local call (c, st) = ((c', st'), r)" "file_ok (csStore c) st" "in_range local st"
  show ?thesis
  proof (cases call)
    case (CallWrite b off)
    then show ?thesis using a WriteAt_ok [of env pl local b off c st c' st' r] by simp
  next
    case CallComplete
    then show ?thesis using a MarkComplete_ok [of env local c st c' st' r] by simp
  next
    case CallNotComplete
    then show ?thesis using a MarkNotComplete_ok [of local c st c' st' r] by auto
  qed
qed

lemmas int64_eval = piece_count_def div64_def wrap64_def signed_divide_int_def

lemma piece_count_small:
  assumes "0 \<le> len" and "0 < pl" and "len + pl < 2 ^ 63"
  shows "piece_count pl len = (len + pl - 1) div pl"
proof -
  have "is_int64 (len + pl)" "is_int64 (len + pl - 1)" using assms by (simp_all add: is_int64_def)
  then show ?thesis using assms by (simp add: piece_count_def div64_nonneg)
qed

lemma new_file_ok:
  assumes "\<And>d. has d \<Longrightarrow> present s d" and "\<And>path spec. map_of files path = Some spec \<Longrightarrow> length (fsDigest spec) = 64"
  shows "file_ok s (snd (new_file has pl files fi))"
proof (cases "map_of files (slashJoin (ifPath fi))")
  case (Some spec)
  then have ne: "fsDigest spec \<noteq> []" using assms(2) by force
  note defs = Some new_file_def Let_def file_ok_def part_ok_def ne
  show ?thesis
  proof (cases "has (fsDigest spec)")
    case True
    then have "present s (fsDigest spec)" by (rule assms(1))
    then show ?thesis using True
      by (cases "piece_count pl (ifLength fi) = 1") (simp_all add: defs)
  next
    case False
    then show ?thesis by (simp add: defs)
  qed
qed (simp add: new_file_def Let_def file_ok_def part_ok_def)

lemma new_files_ok:
  assumes "new_files has pl files fis t = Returns (Inr t')"
    and "\<And>d. has d \<Longrightarrow> present s d" and "\<And>path spec. map_of files path = Some spec \<Longrightarrow> length (fsDigest spec) = 64"
    and "\<And>p st. map_of (ctFiles t) p = Some st \<Longrightarrow> file_ok s st"
  shows "\<forall>p st. map_of (ctFiles t') p = Some st \<longrightarrow> file_ok s st"
  using assms(1,4)
proof (induction fis arbitrary: t)
  case (Cons fi fis)
  obtain span st where n: "new_file has pl files fi = (span, st)" by (cases "new_file has pl files fi")
  define t1 where "t1 = (if ifLength fi = 0 then t
    else t\<lparr>ctSpans := ctSpans t @ [span], ctFiles := AList.update (spPath span) st (ctFiles t)\<rparr>)"
  have "file_ok s st" using new_file_ok [of has s files pl fi] assms(2,3) n by simp
  then have "file_ok s st'" if "map_of (ctFiles t1) p = Some st'" for p st'
    using that Cons.prems(2) [of p st'] by (simp add: t1_def update_conv' split: if_splits)
  moreover have "new_files has pl files fis t1 = Returns (Inr t')"
    using Cons.prems(1) by (simp add: t1_def n split: if_splits)
  ultimately show ?case using Cons.IH by blast
qed simp

lemma fold_close_blobs:
  assumes "\<And>p st. (p, st) \<in> set fs \<Longrightarrow> part_ok st"
  shows "look (fold (\<lambda>(_, st). close_file env st) fs s) (blob_path d) = look s (blob_path d)"
  using assms
proof (induction fs arbitrary: s)
  case (Cons x fs)
  obtain p st where x: "x = (p, st)" by (cases x)
  have "part_ok st" using Cons.prems x by auto
  then have "look (close_file env st s) (blob_path d) = look s (blob_path d)"
    using incoming_not_blob [of _ d]
    by (auto simp: close_file_def remove_file_def part_ok_def split: option.splits)
  moreover have "look (fold (\<lambda>(_, st). close_file env st) fs s0) (blob_path d) = look s0 (blob_path d)" for s0
    using Cons by (meson list.set_intros(2))
  ultimately show ?case using x by simp
qed simp

text \<open>Parts are looked up by path; entries of the list shadowed by an update do not occur.\<close>

definition storage_inv :: "CASStorage \<Rightarrow> bool" where
  "storage_inv c \<longleftrightarrow> storage_ok c \<and> distinct (map fst (csOpen c))
     \<and> (\<forall>key t. (key, t) \<in> set (csOpen c) \<longrightarrow> distinct (map fst (ctFiles t)))"

lemma storage_ok_frame:
  assumes "storage_ok c" and "op_frame c c'"
  shows "storage_ok c'"
  using assms file_ok_mono [of "csStore c" _ "csStore c'"]
  by (auto simp: storage_ok_def op_frame_def file_at_def)

lemma new_files_distinct:
  "new_files has pl files fis t = Returns (Inr t') \<Longrightarrow> distinct (map fst (ctFiles t)) \<Longrightarrow> distinct (map fst (ctFiles t'))"
  by (induction fis arbitrary: t) (auto simp: distinct_update split: if_splits prod.splits)

lemma storage_step_inv: "storage_step c c' \<Longrightarrow> storage_inv c \<Longrightarrow> storage_inv c'"
proof (induction rule: storage_step.induct)
  case (call c key t idx path local st env call c' st' r)
  have fo: "file_ok (csStore c) st" using call by (auto simp: storage_inv_def storage_ok_def)
  have fr: "op_frame c c'" "file_ok (csStore c') st'"
    using call_op_ok [OF call(5) fo call(4)] by auto
  have so: "storage_ok c'" using storage_ok_frame [OF _ fr(1)] call by (simp add: storage_inv_def)
  have t: "map_of (csOpen c') key = Some t" using fr(1) call(1) by (simp add: op_frame_def)
  have "storage_ok (put_file key path st' c')"
    using so fr(2) file_at_put_file [OF t] by (auto simp: storage_ok_def split: if_splits)
  moreover have "(key, t) \<in> set (csOpen c)" using call(1) by (rule map_of_SomeD)
  ultimately show ?case
    using call fr(1) t
    by (auto simp: storage_inv_def put_file_def op_frame_def distinct_update dest!: set_alist_update)
next
  case (register ih files c c' r)
  show ?case
  proof (cases "c' = c")
    case True
    then show ?thesis using register by simp
  next
    case False
    then have len: "find (\<lambda>(path, spec). length (fsDigest spec) \<noteq> 64) files = None"
      and c': "c' = c\<lparr>csRegistry := AList.update (take 40 ih) files (csRegistry c)\<rparr>"
      using register(1) by (auto simp: Register_def split: if_splits option.splits prod.splits)
    have "length (fsDigest spec) = 64" if "map_of files path = Some spec" for path spec
      using map_of_SomeD [OF that] len by (auto simp: find_None_iff)
    then show ?thesis
      using register(2) unfolding c' by (auto simp: storage_inv_def storage_ok_def file_at_def update_conv' split: if_splits)
  qed
next
  case (open_torrent bad ti ih c c' r)
  have so: "storage_ok c" and d: "distinct (map fst (csOpen c))"
    "\<And>k t. (k, t) \<in> set (csOpen c) \<Longrightarrow> distinct (map fst (ctFiles t))"
    using open_torrent by (auto simp: storage_inv_def)
  show ?case
  proof (cases "c' = c")
    case True
    then show ?thesis using open_torrent by simp
  next
    case False
    then obtain files t where f: "map_of (csRegistry c) (hex_encode ih) = Some files"
      and n: "newCASTorrent (Has bad (csStore c)) (hex_encode ih) ti files = Returns (Inr t)"
      and c': "c' = c\<lparr>csOpen := AList.update (hex_encode ih) t (csOpen c)\<rparr>"
      using open_torrent by (auto simp: OpenTorrent_def Let_def split: if_splits option.splits panic.splits sum.splits)
    have "length (fsDigest spec) = 64" if "map_of files path = Some spec" for path spec
      using so f that unfolding storage_ok_def by blast
    then have fo: "\<forall>p st. map_of (ctFiles t) p = Some st \<longrightarrow> file_ok (csStore c) st"
      by (intro new_files_ok [OF n [unfolded newCASTorrent_def], of "csStore c"]) (simp_all add: Has_imp_present)
    moreover have "distinct (map fst (ctFiles t))"
      using n unfolding newCASTorrent_def by (rule new_files_distinct) simp
    ultimately show ?thesis
      using so d unfolding c'
      by (auto simp: storage_inv_def storage_ok_def file_at_def update_conv' distinct_update
          dest!: set_alist_update split: if_splits)
  qed
next
  case (close c env key)
  show ?case
  proof (cases "map_of (csOpen c) key")
    case None
    then show ?thesis using close by (simp add: close_driver_def)
  next
    case (Some t)
    then have "(key, t) \<in> set (csOpen c)" by (rule map_of_SomeD)
    have so: "storage_ok c" and dt: "distinct (map fst (ctFiles t))"
      using close \<open>(key, t) \<in> set (csOpen c)\<close> by (auto simp: storage_inv_def)
    have "part_ok st" if "(p, st) \<in> set (ctFiles t)" for p st
    proof -
      have "map_of (ctFiles t) p = Some st" using dt that by (rule map_of_is_SomeI)
      then have "file_at c key p = Some st" using Some by (simp add: file_at_def)
      then have "file_ok (csStore c) st" using so unfolding storage_ok_def by blast
      then show ?thesis by (simp add: file_ok_def)
    qed
    then have bl: "look (fold (\<lambda>(_, st). close_file env st) (ctFiles t) (csStore c)) (blob_path d) = look (csStore c) (blob_path d)" for d
      by (rule fold_close_blobs)
    note cong = store_ok_cong [OF bl] present_cong [OF bl]
    have dist: "distinct (map fst (csOpen c))" using close by (simp add: storage_inv_def)
    show ?thesis
      using close so cong dist unfolding close_driver_def
      by (auto simp: Some storage_inv_def storage_ok_def file_at_def file_ok_def delete_conv' AList.distinct_delete
          dest: set_alist_delete split: option.splits if_splits)
  qed
next
  case (others s' c)
  then have "op_frame c (c\<lparr>csStore := s'\<rparr>)" by (auto simp: op_frame_def storage_inv_def storage_ok_def)
  then show ?case using others storage_ok_frame by (auto simp: storage_inv_def)
qed

subsection \<open>What the driver guarantees\<close>

definition storage_init :: "CASStorage \<Rightarrow> bool" where
  "storage_init c \<longleftrightarrow> store_ok (csStore c) \<and> csVerified c = [] \<and> csRegistry c = [] \<and> csOpen c = []"

interpretation storage: step_system storage_init storage_step storage_inv
proof unfold_locales
  show "storage_inv t" if "storage_inv s" "storage_step s t" for s t
    by (rule storage_step_inv [OF that(2,1)])
qed (simp add: storage_init_def storage_inv_def storage_ok_def file_at_def)

text \<open>
  C10: whatever the BitTorrent engine calls, in whatever order, on whatever untrusted metadata,
  and whatever system calls fail: the store keeps its integrity; a file that counts as sealed,
  and a digest that counts as verified for seeding, has a blob with exactly the pinned content;
  a file without a pinned digest is never given a part and never sealed.
\<close>

theorem storage_integrity:
  assumes "storage_init c0" and "storage_step\<^sup>*\<^sup>* c0 c"
  shows "store_ok (csStore c)
    \<and> (\<forall>d. WasVerified c d \<longrightarrow> (\<exists>f. look (csStore c) (blob_path d) = Some f \<and> sha256_hex (fContent f) = d))
    \<and> (\<forall>key path st. file_at c key path = Some st \<longrightarrow>
         (stSealed st \<longrightarrow> (\<exists>f. look (csStore c) (blob_path (stDigest st)) = Some f
            \<and> sha256_hex (fContent f) = stDigest st))
         \<and> (stDigest st = [] \<longrightarrow> stPart st = None \<and> \<not> stSealed st))"
proof -
  have "storage_inv c" using assms by (rule storage.reachable_inv)
  then have inv: "storage_ok c" by (simp add: storage_inv_def)
  then have ok: "store_ok (csStore c)" by (simp add: storage_ok_def)
  have fo: "file_ok (csStore c) st" if "file_at c key path = Some st" for key path st
    using inv that unfolding storage_ok_def by blast
  have "present (csStore c) d" if "WasVerified c d" for d
    using inv that by (simp add: storage_ok_def WasVerified_def)
  then show ?thesis
    using ok present_content [OF ok] fo unfolding file_ok_def by blast
qed

definition demo_info :: info where
  "demo_info = \<lparr>inHasV1 = False, inPieceLength = 16384,
     inFiles = [\<lparr>ifPath = [''w''], ifLength = 2, ifOffset = 0\<rparr>]\<rparr>"

definition demo_driver :: "fileState \<Rightarrow> casTorrent" where
  "demo_driver st = \<lparr>ctKey = replicate 40 (CHR ''0''), ctPieceLength = 16384,
     ctSpans = [\<lparr>spPath = ''w'', spBegin = 0, spEnd = 1\<rparr>], ctFiles = [(''w'', st)], ctClosed = False\<rparr>"

definition demo_storage :: "store \<Rightarrow> string list \<Rightarrow> (string \<times> FileSpec) list \<Rightarrow> fileState option \<Rightarrow> CASStorage" where
  "demo_storage s v files st = \<lparr>csStore = s, csVerified = v, csRegistry = [(replicate 40 (CHR ''0''), files)],
     csOpen = (case st of None \<Rightarrow> [] | Some st \<Rightarrow> [(replicate 40 (CHR ''0''), demo_driver st)])\<rparr>"

lemma demo_key: "hex_encode (replicate 20 (CHR 0x00)) = replicate 40 (CHR ''0'')"
  by code_simp

lemma demo_open:
  assumes "\<not> Has (\<lambda>_. False) s d" and "files = [(''w'', \<lparr>fsDigest = d, fsSize = 2\<rparr>)]"
  shows "OpenTorrent (\<lambda>_. False) demo_info (replicate 20 (CHR 0x00)) (demo_storage s v files None)
    = Returns (demo_storage s v files (Some \<lparr>stName = ''w'', stDigest = d, stSize = 2, stSealed = False,
        stFailed = None, stPart = None, stNumDone = 0, stPieces = Some [False]\<rparr>), Inr ())"
  using assms
  by (simp add: OpenTorrent_def demo_info_def demo_storage_def demo_driver_def newCASTorrent_def new_file_def
      Let_def sort_by_def canonicalTorrentPath_def slashJoin_def demo_key int64_eval)

lemma demo_call:
  assumes "call_op env 16384 0 call (demo_storage s v files (Some st), st) = ((c', st'), r)" and "in_range 0 st"
  shows "storage_step (demo_storage s v files (Some st)) (put_file (replicate 40 (CHR ''0'')) ''w'' st' c')"
proof (rule storage_step.call [where t = "demo_driver st" and idx = 0 and local = 0 and st = st and r = r])
  show "piece (demo_driver st) 0 = Returns (''w'', 0)"
    by (simp add: piece_def spanFor_def demo_driver_def)
  show "call_op env (ctPieceLength (demo_driver st)) 0 call (demo_storage s v files (Some st), st) = ((c', st'), r)"
    using assms(1) by (simp add: demo_driver_def)
qed (use assms(2) in \<open>simp_all add: demo_storage_def file_at_def demo_driver_def\<close>)

text \<open>A run: the torrent of one two-byte file is registered, opened, written and completed.\<close>

lemma storage_integrity_witness:
  "\<exists>c. \<exists>st. WasVerified c (sha256_hex ''hi'') \<and> file_at c (replicate 40 (CHR ''0'')) ''w'' = Some st \<and> stSealed st
    \<and> (\<exists>f. look (csStore c) (blob_path (sha256_hex ''hi'')) = Some f \<and> sha256_hex (fContent f) = sha256_hex ''hi'')"
proof -
  define d where "d = sha256_hex ''hi''"
  define files where "files = [(''w'', \<lparr>fsDigest = d, fsSize = 2\<rparr>)]"
  let ?k = "replicate 40 (CHR ''0'')" and ?env = "calm_env ''12345678''"
  define c0 where "c0 = \<lparr>csStore = empty_store, csVerified = [], csRegistry = [], csOpen = []\<rparr>"
  define st1 where "st1 = \<lparr>stName = ''w'', stDigest = d, stSize = 2, stSealed = False,
        stFailed = None, stPart = None, stNumDone = 0, stPieces = Some [False]\<rparr>"
  let ?c1 = "demo_storage empty_store [] files None" and ?c2 = "demo_storage empty_store [] files (Some st1)"
  have len: "length d = 64" "is_digest_hex d" "d \<noteq> []"
    using is_digest_sha256_hex [of "''hi''"] unfolding d_def [symmetric] by (auto simp: is_digest_hex_def)
  have "Register (replicate 64 (CHR ''0'')) files c0 = (?c1, Inr ())"
    using len by (simp add: Register_def files_def c0_def demo_storage_def)
  then have s1: "storage_step c0 ?c1" by (rule storage_step.register)
  have "\<not> Has (\<lambda>_. False) empty_store d" using Has_imp_present [of _ empty_store d] by (auto simp: present_def)
  then have "OpenTorrent (\<lambda>_. False) demo_info (replicate 20 (CHR 0x00)) ?c1 = (Returns (?c2, Inr ()))"
    using demo_open [of empty_store d files "[]"] by (simp add: files_def st1_def)
  then have s2: "storage_step ?c1 ?c2" by (rule storage_step.open_torrent)
  define n where "n = swarm_part_path ?env d"
  define s3 where "s3 = write_file ?env n ''hi'' (set_file n \<lparr>fContent = [], fMode = partMode, fTime = peNow ?env\<rparr> empty_store)"
  have fresh: "look s3 (part_path ?env) = None"
    using arg_cong [of "hex_encode ''12345678''" "take 16 d @ ''-12345678''" length] len
    by (auto simp: s3_def n_def write_file_def part_path_def swarm_part_path_def incomingDir_def)
  define st3 where "st3 = st1\<lparr>stPart := Some (n, ''hi'')\<rparr>"
  let ?c3 = "demo_storage s3 [] files (Some st3)"
  have "call_op ?env 16384 0 (CallWrite ''hi'' 0) (?c2, st1) = ((?c2\<lparr>csStore := s3\<rparr>, st3), Inr ())"
    using len by (simp add: Let_def WriteAt_def st1_def st3_def s3_def n_def newSwarmPart_def write_at_def demo_storage_def)
  then have "storage_step ?c2 (put_file ?k ''w'' st3 (?c2\<lparr>csStore := s3\<rparr>))"
    by (rule demo_call) (simp add: in_range_def st1_def)
  moreover have "put_file ?k ''w'' st3 (?c2\<lparr>csStore := s3\<rparr>) = ?c3"
    by (simp add: put_file_def demo_storage_def demo_driver_def)
  ultimately have s3: "storage_step ?c2 ?c3" by simp
  obtain s4 where s4: "Put ?env d ''hi'' s3 = (s4, Inr ())"
    using Put_fresh [of ?env s3 "''hi''"] fresh by (cases "Put ?env d ''hi'' s3") (simp add: d_def)
  define c4 where "c4 = MarkVerified d (?c3\<lparr>csStore := remove_file ?env n s4\<rparr>)"
  define st4 where "st4 = st3\<lparr>stPieces := Some [True], stNumDone := 1, stPart := None, stSealed := True\<rparr>"
  have "call_op ?env 16384 0 CallComplete (?c3, st3) = ((c4, st4), Inr ())"
    using s4 by (simp add: Let_def MarkComplete_def st3_def st1_def st4_def sealLocked_def c4_def demo_storage_def)
  then have s4: "storage_step ?c3 (put_file ?k ''w'' st4 c4)"
    by (rule demo_call) (simp add: in_range_def st3_def st1_def)
  have "storage_step\<^sup>*\<^sup>* c0 (put_file ?k ''w'' st4 c4)"
    using s1 s2 s3 s4 by (meson converse_rtranclp_into_rtranclp rtranclp.rtrancl_refl)
  moreover have "storage_init c0" by (simp add: storage_init_def c0_def)
  moreover have "file_at (put_file ?k ''w'' st4 c4) ?k ''w'' = Some st4"
    by (simp add: file_at_put_file [where t = "demo_driver st3"] c4_def MarkVerified_def demo_storage_def)
  moreover have "WasVerified (put_file ?k ''w'' st4 c4) d"
    by (simp add: WasVerified_def c4_def MarkVerified_def)
  moreover have "stSealed st4" by (simp add: st4_def)
  ultimately show ?thesis
    using storage_integrity [of c0 "put_file ?k ''w'' st4 c4"] unfolding d_def by blast
qed

lemma all_done_count: "length (filter id bits) = length bits \<longleftrightarrow> (\<forall>b \<in> set bits. b)"
  by (metis filter_True id_apply length_filter_less less_irrefl)

text \<open>
  The operation that completes a file seals it exactly when it reports success with every
  piece complete; then the part's bytes hash to the pinned digest and are in the store. An error
  leaves the file unsealed and is latched: every later operation of the file reports it.
\<close>

lemma MarkComplete_seals:
  assumes "MarkComplete env local (c, st) = ((c', st'), r)"
    and "\<not> stSealed st" and "file_ok (csStore c) st" and "in_range local st"
  shows "(stSealed st' \<longleftrightarrow> r = Inr () \<and> stPieces st' \<noteq> None \<and> (\<forall>b \<in> set (the (stPieces st')). b))
    \<and> (stSealed st' \<longrightarrow> (\<exists>name content. stPart st = Some (name, content) \<and> sha256_hex content = stDigest st
         \<and> present (csStore c') (stDigest st) \<and> WasVerified c' (stDigest st)))
    \<and> (\<forall>e. r = Inl e \<and> stPieces st \<noteq> None \<longrightarrow>
         (\<forall>env' local' c2. MarkComplete env' local' (c2, st') = ((c2, st'), Inl e))
         \<and> (stDigest st \<noteq> [] \<longrightarrow> (\<forall>env' pl local' b off c2. WriteAt env' pl local' b off (c2, st') = ((c2, st'), Inl e))))"
proof (cases "stFailed st \<noteq> None \<or> stPieces st = None")
  case True
  then show ?thesis using assms
    by (auto simp: MarkComplete_def WriteAt_def Let_def split: option.splits)
next
  case False
  then obtain bits where bits: "stPieces st = Some bits" "local < length bits" "stFailed st = None"
    using assms(4) by (auto simp: in_range_def)
  define bits1 where "bits1 = bits[local := True]"
  define st1 where "st1 = (if \<not> bits ! local then st\<lparr>stPieces := Some (bits[local := True]), stNumDone := stNumDone st + 1\<rparr> else st)"
  have n: "stNumDone st1 = int (length (filter id bits1))" and p: "stPieces st1 = Some bits1"
    and "part_ok st1" and same: "\<not> stSealed st1" "stPart st1 = stPart st" "stDigest st1 = stDigest st" "stFailed st1 = None"
    using assms(2,3) bits count_set_True [of local bits] list_update_id [of bits local]
    by (auto simp: st1_def bits1_def file_ok_def part_ok_def) (metis list_update_id)+
  have all: "\<not> stNumDone st1 < int (length bits) \<longleftrightarrow> (\<forall>b \<in> set bits1. b)"
    using n length_filter_le [of id bits1] all_done_count [of bits1] by (auto simp: bits1_def)
  have m: "(if stNumDone st1 < int (length bits) then ((c, st1), Inr ())
      else case sealLocked env (c, st1) of
              ((c, st), Inl e) \<Rightarrow> ((c, st\<lparr>stFailed := Some e\<rparr>), Inl e)
            | ((c, st), Inr u) \<Rightarrow> ((c, st), Inr u)) = ((c', st'), r)"
    using assms(1) unfolding MarkComplete_unsealed [OF assms(2) bits(3,1)] Let_def st1_def .
  show ?thesis
  proof (cases "stNumDone st1 < int (length bits)")
    case True
    then show ?thesis using m same p all by auto
  next
    case nl: False
    obtain c2 st2 r2 where sl: "sealLocked env (c, st1) = ((c2, st2), r2)" by (metis surj_pair)
    note so = sealLocked_ok [OF sl \<open>part_ok st1\<close>]
    show ?thesis
    proof (cases r2)
      case (Inl e)
      then have "c' = c2" "st' = st1\<lparr>stFailed := Some e\<rparr>" "r = Inl e" using m nl sl so by auto
      then show ?thesis using same by (auto simp: MarkComplete_def WriteAt_def Let_def)
    next
      case (Inr u)
      then have e: "c' = c2" "st' = st1\<lparr>stPart := None, stSealed := True\<rparr>" "r = Inr ()" using m nl sl so by auto
      have "WasVerified c2 (stDigest st1)"
        using sl Inr by (auto simp: sealLocked_def WasVerified_def MarkVerified_def split: option.splits if_splits prod.splits sum.splits)
      then show ?thesis using e so Inr same p all nl by auto
    qed
  qed
qed

lemma MarkComplete_seals_witness:
  "\<exists>c' (st' :: fileState). stSealed st' \<and> present (csStore c') (sha256_hex ''hi'') \<and> WasVerified c' (sha256_hex ''hi'')"
proof -
  let ?env = "calm_env ''12345678''" and ?d = "sha256_hex ''hi''"
  let ?st = "\<lparr>stName = ''w'', stDigest = ?d, stSize = 2, stSealed = False, stFailed = None,
    stPart = Some (''incoming/p'', ''hi''), stNumDone = 1, stPieces = Some [True, False]\<rparr>"
  let ?c = "demo_storage empty_store [] [] None"
  have ok: "file_ok (csStore ?c) ?st"
    by (simp add: file_ok_def part_ok_def HasPrefix_def demo_storage_def)
      (metis is_digest_sha256_hex is_digest_hex_def list.size(3) zero_neq_numeral)
  obtain c' st' r where m: "MarkComplete ?env 1 (?c, ?st) = ((c', st'), r)" by (metis surj_pair)
  have "snd (Put ?env ?d ''hi'' empty_store) = Inr ()" by (rule Put_fresh [THEN conjunct1]) simp_all
  then obtain s4 where "Put ?env ?d ''hi'' empty_store = (s4, Inr ())" by (metis prod.collapse)
  then have "r = Inr () \<and> stPieces st' = Some [True, True]"
    using m by (auto simp: MarkComplete_def sealLocked_def demo_storage_def)
  moreover have "\<not> stSealed ?st" "in_range 1 ?st" by (simp_all add: in_range_def)
  note MarkComplete_seals [OF m this(1) ok this(2)]
  ultimately have "stSealed st' \<and> present (csStore c') ?d \<and> WasVerified c' ?d" by simp
  then show ?thesis by blast
qed

text \<open>
  The path check on untrusted metadata looks at whole segments and does not forbid a slash
  inside one, so it accepts segments that, joined, spell a parent directory, and different
  segment lists that join to the same path, whose files then share one entry of the driver.
\<close>

lemma canonicalTorrentPath_slashes:
  "canonicalTorrentPath [''../x''] \<and> canonicalTorrentPath [''a/b''] \<and> canonicalTorrentPath [''a'', ''b'']
   \<and> slashJoin [''a/b''] = slashJoin [''a'', ''b'']
   \<and> (\<forall>has files. \<exists>t. newCASTorrent has k \<lparr>inHasV1 = False, inPieceLength = 16384,
            inFiles = [\<lparr>ifPath = [''a/b''], ifLength = 1, ifOffset = 0\<rparr>,
                       \<lparr>ifPath = [''a'', ''b''], ifLength = 40000, ifOffset = 16384\<rparr>]\<rparr> files = Returns (Inr t)
          \<and> length (ctSpans t) = 2 \<and> length (ctFiles t) = 1)"
  by (auto simp: canonicalTorrentPath_def slashJoin_def newCASTorrent_def new_file_def Let_def sort_by_def int64_eval
      split: option.split)

end
