(* ===== verification/SwarmClient.thy ===== *)
theory SwarmClient
  imports Flow SwarmStorage
begin

text \<open>
  \<open>internal/swarm/fill.go\<close> and \<open>swarm.go\<close>: the swarm client. Filling an artifact whose record is
  linked, importing an artifact by a pinned manifest digest, seeding, and the web seed handlers.
  The BitTorrent engine is third-party code: it is a record of functions on the storage driver of
  \<open>SwarmStorage\<close>, of which the lemmas assume only that they act through the driver's operations.
\<close>

subsection \<open>The engine and the environment\<close>

text \<open>
  What the engine does to the storage: while it drops the live torrents of an infohash, while it
  adds a torrent (and its answer), while it checks pieces (with the pieces whose check errs or
  completes), and between two wake-ups of a waiting flow; the wait ends with the last round.
\<close>

record torrent_spec =
  tsInfoHashV2 :: string
  tsInfoBytes :: string
  tsPieceLayers :: "(string \<times> string) list"
  tsDisplayName :: string
  tsTrackers :: "string list list"
  tsWebseeds :: "string list"
  tsPeerAddrs :: "string list"

record engine =
  egDrop :: "string \<Rightarrow> CASStorage \<Rightarrow> CASStorage"
  egAdd :: "torrent_spec \<Rightarrow> CASStorage \<Rightarrow> CASStorage \<times> (string + unit)"
  egCheck :: "CASStorage \<Rightarrow> CASStorage \<times> (int \<Rightarrow> bool) \<times> (int \<Rightarrow> bool)"
  egRounds :: "(CASStorage \<Rightarrow> CASStorage) list"

record Hints =
  hnTrackers :: "string list"
  hnWebseeds :: "string list"
  hnPeers :: "string list"

text \<open>
  The JSON and bencode libraries, the magnet parser, HTTP (a failure, or status and body), the paths
  the system fails on, and what the \<open>i\<close>-th blob or state write meets.
\<close>

record swarm_env =
  seCodec :: codec
  seMagnet :: "string \<Rightarrow> string option option"
  seDecLayers :: "string \<Rightarrow> (string \<times> string) list option"
  seEncLayers :: "(string \<times> string) list \<Rightarrow> string"
  seDecHints :: "string \<Rightarrow> Hints option"
  seEncHints :: "Hints \<Rightarrow> string option"
  seHttp :: "string \<Rightarrow> string + nat \<times> string"
  seBad :: "string \<Rightarrow> bool"
  sePut :: "nat \<Rightarrow> put_env"
  seFault :: "nat \<Rightarrow> syscall \<Rightarrow> bool"

datatype http_error = HttpErr string | HttpStatus string nat

datatype client_error =
    CState cas_error | CHintsState string | RecordBlobMissing string | ParseRecord string
  | RecordCorrupt string string | RecordInvalid string validation_error | NoRecord string
  | CBuild build_error | CPanic | ErrBinding binding_error | JoinedOther string string
  | LayersNotInCAS string | OpenFailed string | DecodeLayers | BadInfohash string | CInfohash infohash_error
  | AddTorrent string | DriverNotOpen string | CSwarm swarm_error | Cancelled
  | PinPrefix string | PinLength string nat | PinUppercase string | PinHex string
  | NoWebseeds | AllWebseedsFailed "client_error option" | CHttp http_error
  | PinMismatch string string | CPut cas_error | ParseManifest | ManifestInvalid validation_error
  | CanonRecord string | ArtifactIncomplete string string | RehashFailed string string cas_error

record swarm_client =
  scSeed :: bool
  scNoSeedVerify :: bool
  scStorage :: CASStorage
  scSeeds :: "(string \<times> Recon) list"
  scWsFiles :: "(string \<times> FileSpec) list"
  scWsLayers :: "(string \<times> string) list"

type_synonym 'a client_flow = "(swarm_client, client_error, 'a) flow"

abbreviation scStore :: "swarm_client \<Rightarrow> store" where
  "scStore c \<equiv> csStore (scStorage c)"

definition on_storage :: "(CASStorage \<Rightarrow> CASStorage) \<Rightarrow> swarm_client \<Rightarrow> swarm_client" where
  "on_storage h c = c\<lparr>scStorage := h (scStorage c)\<rparr>"

text \<open>An operation of the store, with its error in the client's type.\<close>

definition store_op :: "(cas_error \<Rightarrow> client_error) \<Rightarrow> (store \<Rightarrow> store \<times> (cas_error + unit)) \<Rightarrow> unit client_flow" where
  "store_op w f = (\<lambda>c. case f (scStore c) of
     (s, r) \<Rightarrow> (on_storage (\<lambda>cs. cs\<lparr>csStore := s\<rparr>) c, map_sum w id r))"

subsection \<open>Reading the store\<close>

definition HintsForManifest :: "swarm_env \<Rightarrow> store \<Rightarrow> string \<Rightarrow> client_error + Hints" where
  "HintsForManifest env s manifestDigest =
     (let none = \<lparr>hnTrackers = [], hnWebseeds = [], hnPeers = []\<rparr> in
      case HintsFor s manifestDigest of
        Inl e \<Rightarrow> Inl (CState e)
      | Inr raw \<Rightarrow>
          if raw = [] then Inr none
          else case seDecHints env raw of None \<Rightarrow> Inl (CHintsState manifestDigest) | Some h \<Rightarrow> Inr h)"

definition MissingFiles :: "(string \<Rightarrow> bool) \<Rightarrow> store \<Rightarrow> Manifest \<Rightarrow> string list" where
  "MissingFiles bad s m = map fName (filter (\<lambda>f. \<not> Has bad s (DigestHex (fDigest f))) (mFiles m))"

definition RecordForManifest ::
  "swarm_env \<Rightarrow> store \<Rightarrow> string \<Rightarrow> client_error + (DistributionRecord \<times> string) option" where
  "RecordForManifest env s manifestDigest =
     (case RecordDigestForManifest s manifestDigest of
        Inl e \<Rightarrow> Inl (CState e)
      | Inr recDigest \<Rightarrow>
        if recDigest = [] then Inr None
        else case OpenBlob (seBad env) s (DigestHex recDigest) of
          Opened f \<Rightarrow>
            (let b = fContent f in
             case decDist (seCodec env) b of
               Inl _ \<Rightarrow> Inl (ParseRecord recDigest)
             | Inr rec \<Rightarrow>
                 if Digest b \<noteq> recDigest then Inl (RecordCorrupt recDigest (Digest b))
                 else case ValidateDistribution rec of
                        Some e \<Rightarrow> Inl (RecordInvalid recDigest e)
                      | None \<Rightarrow> Inr (Some (rec, b)))
        | _ \<Rightarrow> Inl (RecordBlobMissing recDigest))"

definition readBlob :: "(string \<Rightarrow> bool) \<Rightarrow> store \<Rightarrow> string \<Rightarrow> client_error + string" where
  "readBlob bad s hexDigest =
     (case OpenBlob bad s hexDigest of Opened f \<Rightarrow> Inr (fContent f) | _ \<Rightarrow> Inl (OpenFailed hexDigest))"

definition reconstruct :: "Manifest \<Rightarrow> string \<Rightarrow> client_error + Recon" where
  "reconstruct m mb =
     (case Reconstruct m mb of Panics \<Rightarrow> Inl CPanic | Returns (Inl e) \<Rightarrow> Inl (CBuild e) | Returns (Inr r) \<Rightarrow> Inr r)"

definition decode_manifest :: "swarm_env \<Rightarrow> string \<Rightarrow> client_error + Manifest" where
  "decode_manifest env b =
     (case decManifest (seCodec env) b of
        Inl _ \<Rightarrow> Inl ParseManifest
      | Inr m \<Rightarrow> (case ValidateManifest m of Some e \<Rightarrow> Inl (ManifestInvalid e) | None \<Rightarrow> Inr m))"

definition ReconstructFromStore :: "swarm_env \<Rightarrow> store \<Rightarrow> string \<Rightarrow> client_error + (Recon \<times> Manifest \<times> string)" where
  "ReconstructFromStore env s manifestDigest =
     bind_res (readBlob (seBad env) s (DigestHex manifestDigest)) (\<lambda>b.
     bind_res (decode_manifest env b) (\<lambda>m.
     bind_res (reconstruct m b) (\<lambda>recon. Inr (recon, m, b))))"

definition layersFor :: "swarm_env \<Rightarrow> swarm_client \<Rightarrow> Recon \<Rightarrow> DistributionRecord option \<Rightarrow> client_error + (string \<times> string) list" where
  "layersFor env c recon rec =
     (let digest = (case rec of
                      Some r \<Rightarrow> DigestHex (tPieceLayersDigest (dTorrent r))
                    | None \<Rightarrow> get_str (scWsLayers c) (rcManifestHex recon)) in
      if digest = [] then Inr []
      else if \<not> Has (seBad env) (scStore c) digest then Inl (LayersNotInCAS digest)
      else bind_res (readBlob (seBad env) (scStore c) digest)
             (\<lambda>blob. case seDecLayers env blob of None \<Rightarrow> Inl DecodeLayers | Some l \<Rightarrow> Inr l))"

subsection \<open>Joining a torrent\<close>

definition tiersOf :: "string list \<Rightarrow> string list list" where
  "tiersOf trackers = (if trackers = [] then [] else [trackers])"

definition specFromRecon ::
  "Recon \<Rightarrow> (string \<times> string) list \<Rightarrow> string list \<Rightarrow> string list \<Rightarrow> string list \<Rightarrow> client_error + torrent_spec" where
  "specFromRecon r layers trackers webseeds peerAddrs =
     (case hex_decode (rcInfohashHex r) of
        None \<Rightarrow> Inl (BadInfohash (rcInfohashHex r))
      | Some ih \<Rightarrow>
          Inr \<lparr>tsInfoHashV2 = ih, tsInfoBytes = rcInfoBencode r, tsPieceLayers = layers, tsDisplayName = rcName r,
               tsTrackers = tiersOf trackers, tsWebseeds = normalizeWebseeds webseeds, tsPeerAddrs = peerAddrs\<rparr>)"

definition dropTorrent :: "engine \<Rightarrow> string \<Rightarrow> swarm_client \<Rightarrow> swarm_client" where
  "dropTorrent eg ihHex = on_storage (egDrop eg (take 40 ihHex))"

definition addFreshTorrent :: "engine \<Rightarrow> torrent_spec \<Rightarrow> string \<Rightarrow> unit client_flow" where
  "addFreshTorrent eg spec ihHex = (\<lambda>c.
     let c = dropTorrent eg ihHex c in
     case egAdd eg spec (scStorage c) of
       (cs, r) \<Rightarrow> (c\<lparr>scStorage := cs\<rparr>, map_sum AddTorrent id r))"

definition register :: "Recon \<Rightarrow> swarm_client \<Rightarrow> swarm_client" where
  "register recon = on_storage (\<lambda>cs. fst (Register (rcInfohashHex recon) (rcFileSpecs recon) cs))"

text \<open>The driver behind a handle: once closed, its last state.\<close>

definition drv_now :: "casTorrent \<Rightarrow> CASStorage \<Rightarrow> casTorrent" where
  "drv_now t cs = (case map_of (csOpen cs) (ctKey t) of Some t' \<Rightarrow> t' | None \<Rightarrow> t\<lparr>ctClosed := True\<rparr>)"

definition verify_present :: "engine \<Rightarrow> casTorrent \<Rightarrow> unit client_flow" where
  "verify_present eg t = (\<lambda>c.
     case egCheck eg (scStorage c) of
       (cs, fails, complete) \<Rightarrow> (c\<lparr>scStorage := cs\<rparr>, map_sum CSwarm id (VerifyPresent fails complete t)))"

text \<open>\<open>WaitSealed\<close>: look, then sleep until the engine has done something; out of rounds, the context is over.\<close>

fun wait_sealed :: "(CASStorage \<Rightarrow> CASStorage) list \<Rightarrow> nat \<Rightarrow> casTorrent \<Rightarrow> unit client_flow" where
  "wait_sealed [] n t c = (c, Inl Cancelled)"
| "wait_sealed (round # rounds) n t c =
     (let t = drv_now t (scStorage c) in
      case WaitSealed t n of
        Some (Inl e) \<Rightarrow> (c, Inl (CSwarm e))
      | Some (Inr _) \<Rightarrow> (c, Inr ())
      | None \<Rightarrow> wait_sealed rounds n t (on_storage round c))"

definition driver :: "string \<Rightarrow> casTorrent client_flow" where
  "driver ihHex = asks (\<lambda>c. case driverFor (scStorage c) ihHex of None \<Rightarrow> Inl (DriverNotOpen ihHex) | Some t \<Rightarrow> Inr t)"

subsection \<open>Seeding\<close>

text \<open>The seed-start check of the files of the reconstruction, up to the first that fails.\<close>

fun seed_check :: "(string \<Rightarrow> bool) \<Rightarrow> bool \<Rightarrow> string \<Rightarrow> (string \<times> FileSpec) list \<Rightarrow> (CASStorage, client_error, unit) flow" where
  "seed_check bad noVerify manifestHex [] cs = (cs, Inr ())"
| "seed_check bad noVerify manifestHex ((path, spec) # specs) cs =
     (let d = fsDigest spec in
      if path = ''manifest/sha256-'' @ manifestHex then seed_check bad noVerify manifestHex specs cs
      else if \<not> Has bad (csStore cs) d then (cs, Inl (ArtifactIncomplete d path))
      else if noVerify \<or> WasVerified cs d then seed_check bad noVerify manifestHex specs cs
      else case Verify bad (csStore cs) d of
             Inl e \<Rightarrow> (cs, Inl (RehashFailed d path e))
           | Inr _ \<Rightarrow> seed_check bad noVerify manifestHex specs (MarkVerified d cs))"

definition check_files :: "swarm_env \<Rightarrow> Recon \<Rightarrow> unit client_flow" where
  "check_files env recon = (\<lambda>c.
     case seed_check (seBad env) (scNoSeedVerify c) (rcManifestHex recon) (rcFileSpecs recon) (scStorage c) of
       (cs, r) \<Rightarrow> (c\<lparr>scStorage := cs\<rparr>, r))"

definition check_record :: "Recon \<Rightarrow> DistributionRecord option \<Rightarrow> client_error + unit" where
  "check_record recon rec =
     (case rec of None \<Rightarrow> Inr () | Some r \<Rightarrow> map_sum ErrBinding id (CheckRecord recon r))"

text \<open>What becomes servable once the artifact is seeded.\<close>

definition announce :: "Recon \<Rightarrow> DistributionRecord option \<Rightarrow> string option \<Rightarrow> swarm_client \<Rightarrow> swarm_client" where
  "announce recon rec recordBytes c =
     (let layersKey = (case rec of Some r \<Rightarrow> DigestHex (tPieceLayersDigest (dTorrent r)) | None \<Rightarrow> []);
          files = fold (\<lambda>(path, spec). AList.update (rcName recon @ ''/'' @ path) spec) (rcFileSpecs recon) (scWsFiles c);
          files = (case (recordBytes, rec) of
                     (Some b, Some _) \<Rightarrow>
                       AList.update (''records/sha256-'' @ DigestHex (Digest b))
                         \<lparr>fsDigest = DigestHex (Digest b), fsSize = int (length b)\<rparr> files
                   | _ \<Rightarrow> files) in
      c\<lparr>scSeeds := AList.update (rcInfohashHex recon) recon (scSeeds c), scWsFiles := files,
        scWsLayers := (if layersKey = [] then scWsLayers c
                       else AList.update layersKey layersKey (AList.update (rcManifestHex recon) layersKey (scWsLayers c)))\<rparr>)"

definition SeedArtifact ::
  "swarm_env \<Rightarrow> engine \<Rightarrow> Manifest \<Rightarrow> string \<Rightarrow> DistributionRecord option \<Rightarrow> string option \<Rightarrow> unit client_flow" where
  "SeedArtifact env eg m manifestBytes rec recordBytes = (\<lambda>c.
     if \<not> scSeed c then (c, Inr ())
     else
       seq (asks (\<lambda>_. reconstruct m manifestBytes)) (\<lambda>recon.
       seq (asks (\<lambda>_. check_record recon rec)) (\<lambda>_.
       seq (check_files env recon) (\<lambda>_.
       seq (modify (register recon)) (\<lambda>_.
       seq (asks (\<lambda>c. layersFor env c recon rec)) (\<lambda>layers.
       seq (asks (\<lambda>_. specFromRecon recon layers [] [] [])) (\<lambda>spec.
       seq (addFreshTorrent eg spec (rcInfohashHex recon)) (\<lambda>_.
       on_error (dropTorrent eg (rcInfohashHex recon))
         (seq (driver (rcInfohashHex recon)) (\<lambda>drv.
          seq (verify_present eg drv) (\<lambda>_.
          modify (announce recon rec recordBytes))))))))))) c)"

definition SeedArtifactFromCAS :: "swarm_env \<Rightarrow> engine \<Rightarrow> string \<Rightarrow> unit client_flow" where
  "SeedArtifactFromCAS env eg manifestDigest =
     seq (asks (\<lambda>c. ReconstructFromStore env (scStore c) manifestDigest)) (\<lambda>(recon, m, mb).
     seq (asks (\<lambda>c. RecordForManifest env (scStore c) (rcManifestDigest recon))) (\<lambda>r.
     case r of
       None \<Rightarrow> fail (NoRecord (rcManifestDigest recon))
     | Some (rec, recBytes) \<Rightarrow> SeedArtifact env eg m mb (Some rec) (Some recBytes)))"

text \<open>The restart of a daemon: every linked artifact that is complete is seeded, the others are skipped.\<close>

fun seed_links :: "swarm_env \<Rightarrow> engine \<Rightarrow> (string \<times> string) list \<Rightarrow> swarm_client \<Rightarrow> swarm_client \<times> nat" where
  "seed_links env eg [] c = (c, 0)"
| "seed_links env eg ((md, _) # links) c =
     (case SeedArtifactFromCAS env eg md c of
        (c, Inl _) \<Rightarrow> seed_links env eg links c
      | (c, Inr _) \<Rightarrow> (case seed_links env eg links c of (c, n) \<Rightarrow> (c, Suc n)))"

definition StartupSeed :: "swarm_env \<Rightarrow> engine \<Rightarrow> swarm_client \<Rightarrow> swarm_client \<times> nat" where
  "StartupSeed env eg c =
     (if \<not> scSeed c then (c, 0)
      else case DistributionLinks (scStore c) of
             Inl _ \<Rightarrow> (c, 0)
           | Inr links \<Rightarrow> seed_links env eg links c)"

subsection \<open>Filling\<close>

definition Fill :: "swarm_env \<Rightarrow> engine \<Rightarrow> Manifest \<Rightarrow> string \<Rightarrow> Hints \<Rightarrow> unit client_flow" where
  "Fill env eg m manifestBytes hints =
     seq (asks (\<lambda>_. reconstruct m manifestBytes)) (\<lambda>recon.
     seq (asks (\<lambda>c. RecordForManifest env (scStore c) (rcManifestDigest recon))) (\<lambda>r.
     case r of
       None \<Rightarrow> fail (NoRecord (rcManifestDigest recon))
     | Some (rec, _) \<Rightarrow>
       seq (asks (\<lambda>_. check_record recon (Some rec))) (\<lambda>_.
       seq (asks (\<lambda>c. layersFor env c recon (Some rec))) (\<lambda>layers c.
       if MissingFiles (seBad env) (scStore c) m = [] then (c, Inr ())
       else
         seq (modify (register recon)) (\<lambda>_.
         seq (asks (\<lambda>_. specFromRecon recon layers (hnTrackers hints) [] (hnPeers hints))) (\<lambda>spec.
         seq (addFreshTorrent eg spec (rcInfohashHex recon)) (\<lambda>_.
         seq (driver (rcInfohashHex recon)) (\<lambda>drv.
         seq (on_error (dropTorrent eg (rcInfohashHex recon))
               (seq (verify_present eg drv) (\<lambda>_. wait_sealed (egRounds eg) (length (rcFileSpecs recon)) drv))) (\<lambda>_.
         seq (modify (dropTorrent eg (rcInfohashHex recon))) (\<lambda>_.
         SeedArtifact env eg m manifestBytes (Some rec) None)))))) c))))"

subsection \<open>The pinned import\<close>

text \<open>
  The pin is checked, never normalised. (A capital outside ASCII is a letter the model's \<open>ToLower\<close>
  leaves alone; it fails as not hexadecimal instead of as upper case.)
\<close>

definition pinHex :: "string \<Rightarrow> client_error + string" where
  "pinHex manifestDigest =
     (if \<not> HasPrefix manifestDigest ''sha256:'' then Inl (PinPrefix manifestDigest)
      else
        let s = drop 7 manifestDigest in
        if length s \<noteq> 64 then Inl (PinLength manifestDigest (length s))
        else if ToLower s \<noteq> s then Inl (PinUppercase manifestDigest)
        else if hex_decode s = None then Inl (PinHex manifestDigest)
        else Inr s)"

definition ValidatePin :: "string \<Rightarrow> client_error + unit" where
  "ValidatePin manifestDigest = map_sum id (\<lambda>_. ()) (pinHex manifestDigest)"

definition TrimRightSlash :: "string \<Rightarrow> string" where
  "TrimRightSlash s = rev (dropWhile (\<lambda>c. c = CHR ''/'') (rev s))"

text \<open>The body is cut off at the limit.\<close>

definition httpGet :: "swarm_env \<Rightarrow> string \<Rightarrow> nat \<Rightarrow> client_error + string" where
  "httpGet env url limit =
     (case seHttp env url of
        Inl e \<Rightarrow> Inl (CHttp (HttpErr e))
      | Inr (status, body) \<Rightarrow>
          if status \<noteq> 200 then Inl (CHttp (HttpStatus url status)) else Inr (take limit body))"

definition layers_url :: "string \<Rightarrow> string \<Rightarrow> string" where
  "layers_url manifestHex base = TrimRightSlash base @ ''/bt/piece-layers/'' @ manifestHex"

definition manifest_url :: "string \<Rightarrow> string \<Rightarrow> string" where
  "manifest_url pin base =
     TrimRightSlash base @ ''/'' @ (''shardr-sha256-'' @ take 12 pin) @ ''/manifest/sha256-'' @ pin"

text \<open>The first source that answers wins; the last error is kept.\<close>

fun first_source :: "(string \<Rightarrow> client_error + 'a) \<Rightarrow> client_error option \<Rightarrow> string list \<Rightarrow> client_error + 'a" where
  "first_source get lastErr [] = Inl (AllWebseedsFailed lastErr)"
| "first_source get lastErr (base # bases) =
     (case get base of Inl e \<Rightarrow> first_source get (Some e) bases | Inr x \<Rightarrow> Inr x)"

definition fetchLayersFromHints :: "swarm_env \<Rightarrow> string \<Rightarrow> Hints \<Rightarrow> client_error + (string \<times> string) list" where
  "fetchLayersFromHints env manifestHex hints =
     (if hnWebseeds hints = [] then Inl NoWebseeds
      else first_source
        (\<lambda>base. bind_res (httpGet env (layers_url manifestHex base) (8 * 2 ^ 20))
           (\<lambda>blob. case seDecLayers env blob of None \<Rightarrow> Inl DecodeLayers | Some l \<Rightarrow> Inr l))
        None (hnWebseeds hints))"

definition fetchManifestFromHints :: "swarm_env \<Rightarrow> string \<Rightarrow> Hints \<Rightarrow> client_error + string" where
  "fetchManifestFromHints env pin hints =
     (if hnWebseeds hints = [] then Inl NoWebseeds
      else first_source (\<lambda>base. httpGet env (manifest_url pin base) (2 ^ 20)) None (hnWebseeds hints))"

definition layersBlobOf :: "swarm_env \<Rightarrow> (string \<times> string) list \<Rightarrow> string" where
  "layersBlobOf env layers = seEncLayers env layers"

definition putLayers :: "swarm_env \<Rightarrow> nat \<Rightarrow> (string \<times> string) list \<Rightarrow> unit client_flow" where
  "putLayers env i layers =
     (let blob = layersBlobOf env layers in store_op CPut (Put (sePut env i) (DigestHex (Digest blob)) blob))"

definition derivedRecord :: "swarm_env \<Rightarrow> Recon \<Rightarrow> string \<Rightarrow> client_error + (DistributionRecord \<times> string)" where
  "derivedRecord env recon layersDigest =
     (let rec = \<lparr>dSchemaVersion = 1, dArtifactType = ''distribution'', dManifestDigest = rcManifestDigest recon,
                 dTorrent = \<lparr>tInfohash = rcInfohashBtmh recon, tPieceLength = rcPieceLength recon,
                             tPieceLayersDigest = layersDigest\<rparr>\<rparr> in
      case canonDist (seCodec env) rec of Inl e \<Rightarrow> Inl (CanonRecord e) | Inr b \<Rightarrow> Inr (rec, b))"

record ImportResult_bt =
  ibManifestDigest :: string
  ibInfohash :: string
  ibRecordDigest :: string
  ibFiles :: nat

text \<open>Phase 1: the manifest that hashes to the pin, stored; nothing is joined before.\<close>

definition import_manifest :: "swarm_env \<Rightarrow> string \<Rightarrow> Hints \<Rightarrow> (string \<times> (string \<times> string) list) client_flow" where
  "import_manifest env pin hints =
     seq (asks (\<lambda>_. fetchLayersFromHints env pin hints)) (\<lambda>layers.
     seq (asks (\<lambda>_. fetchManifestFromHints env pin hints)) (\<lambda>manifestBytes.
     seq (unless (Digest manifestBytes = ''sha256:'' @ pin) (PinMismatch (Digest manifestBytes) pin)) (\<lambda>_.
     seq (store_op CPut (Put (sePut env 0) pin manifestBytes)) (\<lambda>_. ret (manifestBytes, layers)))))"

text \<open>The full fetch through the engine; the torrent is dropped whatever happens.\<close>

definition fetch_all :: "engine \<Rightarrow> Recon \<Rightarrow> torrent_spec \<Rightarrow> unit client_flow" where
  "fetch_all eg recon spec =
     seq (addFreshTorrent eg spec (rcInfohashHex recon)) (\<lambda>_.
     seq (on_error (dropTorrent eg (rcInfohashHex recon))
           (seq (driver (rcInfohashHex recon)) (\<lambda>drv.
            seq (verify_present eg drv) (\<lambda>_. wait_sealed (egRounds eg) (length (rcFileSpecs recon)) drv)))) (\<lambda>_.
     modify (dropTorrent eg (rcInfohashHex recon))))"

text \<open>What a complete import makes permanent, in this order.\<close>

definition persist ::
  "swarm_env \<Rightarrow> Recon \<Rightarrow> (string \<times> string) list \<Rightarrow> string \<Rightarrow> Hints \<Rightarrow> unit client_flow" where
  "persist env recon layers recBytes hints =
     seq (putLayers env 1 layers) (\<lambda>_.
     seq (store_op CPut (Put (sePut env 2) (DigestHex (Digest recBytes)) recBytes)) (\<lambda>_.
     seq (store_op CState (SetDistributionLink (seFault env 0) (rcManifestDigest recon) (Digest recBytes))) (\<lambda>_.
     case seEncHints env hints of
       None \<Rightarrow> ret ()
     | Some hj \<Rightarrow> store_op CState (SetHints (seFault env 1) (rcManifestDigest recon) hj))))"

text \<open>Everything before the first permanent trace but the manifest blob: identity, binding, full fetch.\<close>

record bt_fetched =
  bfRecon :: Recon
  bfManifest :: Manifest
  bfBytes :: string
  bfLayers :: "(string \<times> string) list"
  bfRecord :: DistributionRecord
  bfRecordBytes :: string

definition import_fetch :: "swarm_env \<Rightarrow> engine \<Rightarrow> string \<Rightarrow> string \<Rightarrow> Hints \<Rightarrow> bt_fetched client_flow" where
  "import_fetch env eg magnetOrInfohash manifestDigest hints =
     seq (asks (\<lambda>_. pinHex manifestDigest)) (\<lambda>pin.
     seq (asks (\<lambda>_. map_sum CInfohash id (ParseInfohash (seMagnet env) magnetOrInfohash))) (\<lambda>ihHex.
     seq (import_manifest env pin hints) (\<lambda>(manifestBytes, layers).
     seq (asks (\<lambda>_. decode_manifest env manifestBytes)) (\<lambda>m.
     seq (asks (\<lambda>_. reconstruct m manifestBytes)) (\<lambda>recon.
     seq (unless (rcInfohashHex recon = ihHex) (JoinedOther ihHex (rcInfohashHex recon))) (\<lambda>_.
     seq (asks (\<lambda>_. derivedRecord env recon (Digest (layersBlobOf env layers)))) (\<lambda>(rec, recBytes).
     seq (modify (register recon)) (\<lambda>_.
     seq (asks (\<lambda>_. specFromRecon recon layers (hnTrackers hints) [] (hnPeers hints))) (\<lambda>spec.
     seq (fetch_all eg recon spec) (\<lambda>_.
     ret \<lparr>bfRecon = recon, bfManifest = m, bfBytes = manifestBytes, bfLayers = layers,
          bfRecord = rec, bfRecordBytes = recBytes\<rparr>))))))))))"

definition ImportBT :: "swarm_env \<Rightarrow> engine \<Rightarrow> string \<Rightarrow> string \<Rightarrow> Hints \<Rightarrow> ImportResult_bt client_flow" where
  "ImportBT env eg magnetOrInfohash manifestDigest hints =
     seq (import_fetch env eg magnetOrInfohash manifestDigest hints) (\<lambda>b.
     seq (persist env (bfRecon b) (bfLayers b) (bfRecordBytes b) hints) (\<lambda>_.
     seq (SeedArtifact env eg (bfManifest b) (bfBytes b) (Some (bfRecord b)) (Some (bfRecordBytes b))) (\<lambda>_.
     ret \<lparr>ibManifestDigest = rcManifestDigest (bfRecon b), ibInfohash = rcInfohashBtmh (bfRecon b),
          ibRecordDigest = Digest (bfRecordBytes b), ibFiles = length (mFiles (bfManifest b))\<rparr>)))"

subsection \<open>The web seed\<close>

datatype ws_response = WsStatus nat | WsBlob string

definition serveBlob :: "swarm_env \<Rightarrow> swarm_client \<Rightarrow> string \<Rightarrow> ws_response" where
  "serveBlob env c digest =
     (if \<not> scSeed c then WsStatus 503
      else case OpenBlob (seBad env) (scStore c) digest of Opened f \<Rightarrow> WsBlob (fContent f) | _ \<Rightarrow> WsStatus 404)"

definition handlePieceLayers :: "swarm_env \<Rightarrow> swarm_client \<Rightarrow> string \<Rightarrow> string \<Rightarrow> ws_response" where
  "handlePieceLayers env c http_method path =
     (if http_method \<noteq> ''GET'' then WsStatus 405
      else
        let key = TrimPrefix path ''/bt/piece-layers/''; digest = get_str (scWsLayers c) key in
        if digest = [] then
          (if length key = 64 then serveBlob env c key else WsStatus 404)
        else serveBlob env c digest)"

definition handleWebseedFile :: "swarm_env \<Rightarrow> swarm_client \<Rightarrow> string \<Rightarrow> string \<Rightarrow> ws_response" where
  "handleWebseedFile env c http_method path =
     (if http_method \<noteq> ''GET'' then WsStatus 405
      else case map_of (scWsFiles c) (TrimPrefix path ''/'') of
             None \<Rightarrow> WsStatus 404
           | Some spec \<Rightarrow> serveBlob env c (fsDigest spec))"

end
