(* ===== verification/SwarmFlows.thy ===== *)
theory SwarmFlows
  imports SwarmClient
begin

text \<open>
  What the flows of the swarm client guarantee, for every engine that acts through the driver: a
  pinned import is complete or leaves no trace in the state maps, seeding announces only what was
  checked, and the web seed serves only pinned content.
\<close>

subsection \<open>What the engine may do\<close>

text \<open>The engine acts on the storage through the driver: it calls piece operations, opens and closes torrents.\<close>

inductive engine_step :: "CASStorage \<Rightarrow> CASStorage \<Rightarrow> bool" where
  call: "map_of (csOpen c) key = Some t \<Longrightarrow> piece t idx = Returns (path, local) \<Longrightarrow>
    file_at c key path = Some st \<Longrightarrow> in_range local st \<Longrightarrow>
    call_op env (ctPieceLength t) local call (c, st) = ((c', st'), r) \<Longrightarrow>
    engine_step c (put_file key path st' c')"
| open_torrent: "OpenTorrent bad ti ih c = Returns (c', r) \<Longrightarrow> engine_step c c'"
| close: "engine_step c (close_driver env key c)"

definition engine_ok :: "engine \<Rightarrow> bool" where
  "engine_ok eg \<longleftrightarrow>
     (\<forall>ih cs. engine_step\<^sup>*\<^sup>* cs (egDrop eg ih cs))
     \<and> (\<forall>spec cs. engine_step\<^sup>*\<^sup>* cs (fst (egAdd eg spec cs)))
     \<and> (\<forall>cs. engine_step\<^sup>*\<^sup>* cs (fst (egCheck eg cs)))
     \<and> (\<forall>round \<in> set (egRounds eg). \<forall>cs. engine_step\<^sup>*\<^sup>* cs (round cs))"

lemma engine_step_storage: "engine_step c c' \<Longrightarrow> storage_step c c'"
  by (induction rule: engine_step.induct) (auto intro: storage_step.intros)

lemma engine_step_inv: "engine_step c c' \<Longrightarrow> storage_inv c \<Longrightarrow> storage_inv c'"
  by (blast intro: storage_step_inv engine_step_storage)

lemma sState_store [simp]: "sState (write_file env name x s) = sState s" "sState (remove_file env name s) = sState s"
  by (auto simp: write_file_def remove_file_def set_file_def del_file_def split: option.split)

text \<open>No operation of the driver changes the pinned digest of a file or the state maps.\<close>

lemma WriteAt_frame:
  "WriteAt env pl local b off (c, st) = ((c', st'), r) \<Longrightarrow>
     stDigest st' = stDigest st \<and> sState (csStore c') = sState (csStore c)"
  by (auto simp: WriteAt_def Let_def map_sum_Inr newSwarmPart_def set_file_def split: if_splits option.splits sum.splits prod.splits)

lemma sealLocked_frame:
  "sealLocked env (c, st) = ((c', st'), r) \<Longrightarrow> stDigest st' = stDigest st \<and> sState (csStore c') = sState (csStore c)"
  by (auto simp: sealLocked_def MarkVerified_def dest!: Put_sState split: if_splits option.splits sum.splits prod.splits)

lemma MarkComplete_frame:
  "MarkComplete env local (c, st) = ((c', st'), r) \<Longrightarrow>
     stDigest st' = stDigest st \<and> sState (csStore c') = sState (csStore c)"
  by (auto simp: MarkComplete_def Let_def MarkVerified_def dest!: sealLocked_frame
      split: if_splits option.splits sum.splits prod.splits)

lemma call_op_frame:
  "call_op env pl local call (c, st) = ((c', st'), r) \<Longrightarrow>
     stDigest st' = stDigest st \<and> sState (csStore c') = sState (csStore c)"
  by (cases call)
    (auto simp: MarkNotComplete_def Let_def dest: WriteAt_frame MarkComplete_frame split: option.splits if_splits)

lemma fold_close_state: "sState (fold (\<lambda>(_, st). close_file env st) fs s) = sState s"
  by (induction fs arbitrary: s) (auto simp: close_file_def split: option.splits)

lemma storage_inv_file: "storage_inv c \<Longrightarrow> file_at c key path = Some st \<Longrightarrow> file_ok (csStore c) st"
  unfolding storage_inv_def storage_ok_def by blast

lemma driver_parts:
  assumes "storage_inv c" and "map_of (csOpen c) key = Some t" and "(p, st) \<in> set (ctFiles t)"
  shows "file_ok (csStore c) st"
proof -
  have "distinct (map fst (ctFiles t))" using assms(1) map_of_SomeD [OF assms(2)] by (simp add: storage_inv_def)
  then have "map_of (ctFiles t) p = Some st" using assms(3) by (rule map_of_is_SomeI)
  then have "file_at c key p = Some st" using assms(2) by (simp add: file_at_def)
  with assms(1) show ?thesis by (rule storage_inv_file)
qed

lemma engine_step_frame:
  assumes "engine_step c c'" and "storage_inv c"
  shows "(\<forall>d. present (csStore c) d \<longrightarrow> present (csStore c') d) \<and> sState (csStore c') = sState (csStore c)
    \<and> csRegistry c' = csRegistry c"
  using assms
proof (induction rule: engine_step.induct)
  case (call c key t idx path local st env call c' st' r)
  have "op_frame c c'" using call_op_ok [OF call(5) storage_inv_file [OF call(6,3)] call(4)] by simp
  then show ?case using call_op_frame [OF call(5)] by (simp add: op_frame_def)
next
  case (open_torrent bad ti ih c c' r)
  then show ?case by (auto simp: OpenTorrent_def Let_def split: if_splits option.splits panic.splits sum.splits)
next
  case (close c env key)
  show ?case
  proof (cases "map_of (csOpen c) key")
    case (Some t)
    have "part_ok st" if "(p, st) \<in> set (ctFiles t)" for p st
      using driver_parts [OF close Some that] by (simp add: file_ok_def)
    then have "look (fold (\<lambda>(_, st). close_file env st) (ctFiles t) (csStore c)) (blob_path d) = look (csStore c) (blob_path d)" for d
      by (rule fold_close_blobs)
    note present_cong [OF this]
    then show ?thesis by (simp add: close_driver_def Some fold_close_state)
  qed (simp add: close_driver_def)
qed

text \<open>What runs of the engine keep.\<close>

definition engine_frame :: "CASStorage \<Rightarrow> CASStorage \<Rightarrow> bool" where
  "engine_frame c c' \<longleftrightarrow> (storage_inv c \<longrightarrow> storage_inv c'
     \<and> (\<forall>d. present (csStore c) d \<longrightarrow> present (csStore c') d) \<and> sState (csStore c') = sState (csStore c)
     \<and> csRegistry c' = csRegistry c)"

lemma engine_run_frame: "engine_step\<^sup>*\<^sup>* c c' \<Longrightarrow> engine_frame c c'"
proof (induction rule: rtranclp_induct)
  case (step c1 c2)
  then show ?case using engine_step_frame [of c1 c2] engine_step_inv [of c1 c2] by (auto simp: engine_frame_def)
qed (simp add: engine_frame_def)

subsection \<open>A torrent under its pins\<close>

text \<open>A driver opened under the registered pins, and what it knows of the store.\<close>

definition under_pins :: "(string \<times> FileSpec) list \<Rightarrow> casTorrent \<Rightarrow> bool" where
  "under_pins specs t \<longleftrightarrow>
     (\<forall>p st. map_of (ctFiles t) p = Some st \<and> stDigest st \<noteq> [] \<longrightarrow>
        (\<exists>spec. map_of specs p = Some spec \<and> fsDigest spec = stDigest st))"

definition pinned :: "string \<Rightarrow> (string \<times> FileSpec) list \<Rightarrow> CASStorage \<Rightarrow> bool" where
  "pinned key specs c \<longleftrightarrow>
     storage_inv c \<and> map_of (csRegistry c) key = Some specs
     \<and> (\<forall>t. map_of (csOpen c) key = Some t \<longrightarrow> ctKey t = key \<and> under_pins specs t)"

lemma new_file_digest:
  "stDigest (snd (new_file has pl files fi)) \<noteq> [] \<Longrightarrow>
     \<exists>spec. map_of files (spPath (fst (new_file has pl files fi))) = Some spec
        \<and> fsDigest spec = stDigest (snd (new_file has pl files fi))"
  by (auto simp: new_file_def Let_def split: option.splits if_splits)

lemma new_files_pins:
  "new_files has pl files fis t = Returns (Inr t') \<Longrightarrow> under_pins files t \<Longrightarrow> under_pins files t' \<and> ctKey t' = ctKey t"
proof (induction fis arbitrary: t)
  case (Cons fi fis)
  obtain span st where n: "new_file has pl files fi = (span, st)" by (cases "new_file has pl files fi")
  have "under_pins files (t\<lparr>ctSpans := ctSpans t @ [span], ctFiles := AList.update (spPath span) st (ctFiles t)\<rparr>)"
    using Cons.prems(2) new_file_digest [of has pl files fi] n by (auto simp: under_pins_def update_conv')
  note IH = Cons.IH [OF _ this]
  show ?case using Cons.prems IH Cons.IH [of t] n by (auto split: if_splits)
qed simp

lemma engine_step_pinned:
  assumes "engine_step c c'" and "pinned key specs c"
  shows "pinned key specs c'"
proof -
  have inv: "storage_inv c" using assms(2) by (simp add: pinned_def)
  have base: "storage_inv c'" "map_of (csRegistry c') key = Some specs"
    using engine_step_inv [OF assms(1) inv] engine_step_frame [OF assms(1) inv] assms(2) by (simp_all add: pinned_def)
  have "ctKey t = key \<and> under_pins specs t" if "map_of (csOpen c') key = Some t" for t
    using assms that
  proof (induction rule: engine_step.induct)
    case (call c k t0 idx path local st env call c' st' r)
    have o: "csOpen c' = csOpen c"
    proof -
      have "storage_inv c" using call(6) by (simp add: pinned_def)
      then have "file_ok (csStore c) st" using call(3) by (rule storage_inv_file)
      then have "op_frame c c'" using call_op_ok [OF call(5) _ call(4)] by simp
      then show ?thesis by (simp add: op_frame_def)
    qed
    have d: "stDigest st' = stDigest st" using call_op_frame [OF call(5)] by simp
    have st: "map_of (ctFiles t0) path = Some st" using call(1,3) by (simp add: file_at_def)
    show ?case
    proof (cases "k = key")
      case True
      have "t = t0\<lparr>ctFiles := AList.update path st' (ctFiles t0)\<rparr>"
        using call(7) o call(1) True by (simp add: put_file_def update_conv')
      then show ?thesis using call(6,1) True d st by (auto simp: pinned_def under_pins_def update_conv' split: if_splits)
    next
      case False
      then have "map_of (csOpen c) key = Some t" using call(7) o call(1) by (simp add: put_file_def update_conv')
      then show ?thesis using call(6) by (simp add: pinned_def)
    qed
  next
    case (open_torrent bad ti ih c c' r)
    show ?case
    proof (cases "map_of (csOpen c) key = Some t")
      case True
      then show ?thesis using open_torrent(2) by (simp add: pinned_def)
    next
      case False
      then obtain files where k: "hex_encode ih = key" "map_of (csRegistry c) key = Some files"
        and n: "newCASTorrent (Has bad (csStore c)) key ti files = Returns (Inr t)"
        using open_torrent(1,3)
        by (auto simp: OpenTorrent_def Let_def update_conv' split: if_splits option.splits panic.splits sum.splits)
      then have "files = specs" using open_torrent(2) by (simp add: pinned_def)
      then show ?thesis using new_files_pins [OF n [unfolded newCASTorrent_def]] by (simp add: under_pins_def)
    qed
  next
    case (close c env k)
    then have "map_of (csOpen c) key = Some t"
      by (auto simp: close_driver_def delete_conv' split: option.splits if_splits)
    then show ?case using close by (simp add: pinned_def)
  qed
  then show ?thesis using base by (simp add: pinned_def)
qed

lemma engine_run_pinned: "engine_step\<^sup>*\<^sup>* c c' \<Longrightarrow> pinned key specs c \<Longrightarrow> pinned key specs c'"
  by (induction rule: rtranclp_induct) (auto intro: engine_step_pinned)

text \<open>A driver as a flow holds it: opened under the pins, its sealed files present.\<close>

definition drv_ok :: "string \<Rightarrow> (string \<times> FileSpec) list \<Rightarrow> store \<Rightarrow> casTorrent \<Rightarrow> bool" where
  "drv_ok key specs s t \<longleftrightarrow>
     ctKey t = key \<and> under_pins specs t \<and> distinct (map fst (ctFiles t))
     \<and> (\<forall>p st. (p, st) \<in> set (ctFiles t) \<longrightarrow> file_ok s st)"

lemma drv_ok_open:
  assumes "pinned key specs c" and "map_of (csOpen c) key = Some t"
  shows "drv_ok key specs (csStore c) t"
proof -
  have inv: "storage_inv c" using assms(1) by (simp add: pinned_def)
  have "distinct (map fst (ctFiles t))" using inv map_of_SomeD [OF assms(2)] by (simp add: storage_inv_def)
  moreover have "ctKey t = key \<and> under_pins specs t" using assms by (simp add: pinned_def)
  ultimately show ?thesis using driver_parts [OF inv assms(2)] by (simp add: drv_ok_def)
qed

lemma drv_ok_now:
  assumes "pinned key specs c" and "drv_ok key specs s t" and "\<And>d. present s d \<Longrightarrow> present (csStore c) d"
  shows "drv_ok key specs (csStore c) (drv_now t c)"
proof -
  have k: "ctKey t = key" using assms(2) by (simp add: drv_ok_def)
  show ?thesis
  proof (cases "map_of (csOpen c) key")
    case None
    then show ?thesis
      using assms(2,3) k file_ok_mono [of s _ "csStore c"] by (auto simp: drv_now_def drv_ok_def under_pins_def)
  next
    case (Some t')
    then show ?thesis using drv_ok_open [OF assms(1)] k by (simp add: drv_now_def)
  qed
qed

text \<open>Once as many files are sealed as are pinned, every pinned digest is in the store.\<close>

lemma sealed_all:
  assumes ok: "drv_ok key specs s t" and w: "WaitSealed t n = Some (Inr ())" and n: "n = length specs"
    and d: "distinct (map fst specs)" and spec: "(p, spec) \<in> set specs"
  shows "present s (fsDigest spec)"
proof -
  let ?sealed = "filter (\<lambda>(_, st). stFailed st = None \<and> stSealed st) (ctFiles t)"
  have nf: "n \<le> length ?sealed"
    using w by (auto simp: WaitSealed_def Let_def split: option.splits if_splits)
  have dist: "distinct (map fst ?sealed)"
    using ok by (auto simp: drv_ok_def intro: distinct_map_filter)
  have in_specs: "\<exists>sp'. map_of specs q = Some sp' \<and> fsDigest sp' = stDigest st \<and> present s (stDigest st)"
    if "(q, st) \<in> set ?sealed" for q st
  proof -
    have m: "(q, st) \<in> set (ctFiles t)" "stSealed st" using that by auto
    have "map_of (ctFiles t) q = Some st" using ok m(1) by (auto simp: drv_ok_def intro: map_of_is_SomeI)
    moreover have "file_ok s st" using ok m(1) by (auto simp: drv_ok_def)
    then have p: "present s (stDigest st)" using m(2) by (simp add: file_ok_def)
    then have "stDigest st \<noteq> []" by (auto simp: present_def is_digest_hex_def)
    ultimately show ?thesis using ok p by (auto simp: drv_ok_def under_pins_def)
  qed
  have "set (map fst ?sealed) \<subseteq> set (map fst specs)"
  proof
    fix q
    assume "q \<in> set (map fst ?sealed)"
    then obtain st where "(q, st) \<in> set ?sealed" by auto
    then obtain sp' where "map_of specs q = Some sp'" using in_specs by blast
    then show "q \<in> set (map fst specs)" by (metis map_of_SomeD fst_conv image_eqI set_map)
  qed
  moreover have "card (set (map fst specs)) \<le> card (set (map fst ?sealed))"
    using nf n distinct_card [OF d] distinct_card [OF dist] by simp
  ultimately have "set (map fst ?sealed) = set (map fst specs)" by (rule card_seteq [OF finite_set])
  moreover have "p \<in> set (map fst specs)" using spec by force
  ultimately have "p \<in> set (map fst ?sealed)" by (simp only:)
  then obtain st where st: "(p, st) \<in> set ?sealed" unfolding set_map by (elim imageE) (metis prod.collapse)
  have "map_of specs p = Some spec" using d spec by (rule map_of_is_SomeI)
  with in_specs [OF st] show ?thesis by (elim exE conjE) simp
qed

subsection \<open>The pins of a valid manifest\<close>

lemma fold_update_map:
  "distinct (map k fs) \<Longrightarrow> f \<in> set fs \<Longrightarrow> map_of (fold (\<lambda>f. AList.update (k f) (v f)) fs acc) (k f) = Some (v f)"
proof (induction fs arbitrary: acc)
  case (Cons g fs)
  have other: "map_of (fold (\<lambda>f. AList.update (k f) (v f)) fs acc) x = map_of acc x" if "x \<notin> k ` set fs" for acc x
    using that by (induction fs arbitrary: acc) (auto simp: update_conv')
  show ?case
  proof (cases "f \<in> set fs")
    case True
    then show ?thesis using Cons.IH Cons.prems(1) by simp
  next
    case False
    then have "f = g" "k f \<notin> k ` set fs" using Cons.prems by auto
    then show ?thesis using other by (simp add: update_conv')
  qed
qed simp

lemma fold_update_entries:
  "(x, y) \<in> set (fold (\<lambda>f. AList.update (k f) (v f)) fs acc) \<Longrightarrow> (x, y) \<in> set acc \<or> (\<exists>f \<in> set fs. y = v f)"
  by (induction fs arbitrary: acc) (auto dest!: set_alist_update)

lemma fold_update_distinct:
  "distinct (map fst acc) \<Longrightarrow> distinct (map fst (fold (\<lambda>f. AList.update (k f) (v f)) fs acc))"
  by (induction fs arbitrary: acc) (auto simp: distinct_update)

lemma length_DigestHex: "IsDigest d \<Longrightarrow> length (DigestHex d) = 64"
  unfolding IsDigest_iff DigestHex_def by (metis TrimPrefix_append)

definition pins_of :: "Manifest \<Rightarrow> string \<Rightarrow> Recon \<Rightarrow> bool" where
  "pins_of m mb recon \<longleftrightarrow>
     rcManifestDigest recon = Digest mb \<and> rcManifestHex recon = sha256_hex mb
     \<and> rcInfohashHex recon = sha256_hex (rcInfoBencode recon) \<and> rcInfohashBtmh recon = ''btmh:1220'' @ rcInfohashHex recon
     \<and> distinct (map fst (rcFileSpecs recon)) \<and> (\<forall>(p, spec) \<in> set (rcFileSpecs recon). length (fsDigest spec) = 64)
     \<and> (\<forall>f \<in> set (mFiles m). \<exists>spec. (fName f, spec) \<in> set (rcFileSpecs recon) \<and> fsDigest spec = DigestHex (fDigest f))"

lemma reconstruct_Inr:
  assumes "reconstruct m mb = Inr recon" and "ValidateManifest m = None"
  shows "pins_of m mb recon"
proof -
  let ?h = "sha256_hex mb"
  let ?specs = "fold (\<lambda>f. AList.update (fName f) \<lparr>fsDigest = DigestHex (fDigest f), fsSize = fSize f\<rparr>) (mFiles m) []"
  have ok: "list_all entry_wf (mFiles m)" "distinct (map fName (mFiles m))"
    using assms(2) unfolding ValidateManifest_spec manifest_ok_def files_ok_def by auto
  obtain info res where bt: "BuildTorrentFromManifest (mFiles m) mb ?h = Returns (Inr (info, res))"
    and r: "recon = \<lparr>rcInfohashHex = TrimPrefix (trInfohash res) ''btmh:1220'', rcInfohashBtmh = trInfohash res,
          rcInfoBencode = info, rcPieceLength = trPieceLength res, rcTotalSize = trTotalSize res,
          rcName = trName res, rcManifestDigest = ''sha256:'' @ ?h, rcManifestHex = ?h,
          rcFileSpecs = AList.update (''manifest/sha256-'' @ ?h) \<lparr>fsDigest = ?h, fsSize = int (length mb)\<rparr> ?specs\<rparr>"
    using assms(1) by (auto simp: reconstruct_def Reconstruct_def Let_def split: panic.splits sum.splits)
  have ih: "trInfohash res = ''btmh:1220'' @ sha256_hex info"
    using bt by (auto simp: BuildTorrentFromManifest_def finish_torrent_def infohash_of_def Let_def
        split: panic.splits sum.splits if_splits)
  then have tp: "TrimPrefix (trInfohash res) ''btmh:1220'' = sha256_hex info" by (simp only: TrimPrefix_append)
  have dig: "length (DigestHex (fDigest f)) = 64" if "f \<in> set (mFiles m)" for f
    using ok(1) that by (auto simp: list_all_iff entry_wf_def intro: length_DigestHex)
  have name: "fName f \<noteq> ''manifest/sha256-'' @ ?h" if "f \<in> set (mFiles m)" for f
  proof
    assume "fName f = ''manifest/sha256-'' @ ?h"
    moreover have "ValidateFileName (fName f) = None" using ok(1) that by (simp add: list_all_iff entry_wf_def)
    ultimately show False by (simp add: ValidateFileName_def HasPrefix_iff split: if_splits)
  qed
  have "\<exists>spec. (fName f, spec) \<in> set (rcFileSpecs recon) \<and> fsDigest spec = DigestHex (fDigest f)" if "f \<in> set (mFiles m)" for f
  proof -
    have "map_of ?specs (fName f) = Some \<lparr>fsDigest = DigestHex (fDigest f), fsSize = fSize f\<rparr>"
      using ok(2) that by (rule fold_update_map)
    then have "map_of (rcFileSpecs recon) (fName f) = Some \<lparr>fsDigest = DigestHex (fDigest f), fsSize = fSize f\<rparr>"
      using name [OF that] by (simp add: r update_conv')
    then show ?thesis by (auto dest: map_of_SomeD)
  qed
  moreover have "length (fsDigest spec) = 64" if "(p, spec) \<in> set (rcFileSpecs recon)" for p spec
    using that dig by (auto simp: r dest!: set_alist_update fold_update_entries)
  moreover have "distinct (map fst (rcFileSpecs recon))"
    by (simp add: r distinct_update fold_update_distinct)
  ultimately show ?thesis using ih tp by (auto simp: pins_of_def r Digest_def)
qed

lemma register_pinned:
  assumes "pins_of m mb recon" and "storage_inv cs" and "map_of (csOpen cs) (take 40 (rcInfohashHex recon)) = None"
  shows "pinned (take 40 (rcInfohashHex recon)) (rcFileSpecs recon)
    (fst (Register (rcInfohashHex recon) (rcFileSpecs recon) cs))"
proof -
  let ?r = "Register (rcInfohashHex recon) (rcFileSpecs recon) cs"
  have "find (\<lambda>(path, spec). length (fsDigest spec) \<noteq> 64) (rcFileSpecs recon) = None"
    using assms(1) by (auto simp: pins_of_def find_None_iff)
  then have r: "?r = (cs\<lparr>csRegistry := AList.update (take 40 (rcInfohashHex recon)) (rcFileSpecs recon) (csRegistry cs)\<rparr>, Inr ())"
    using assms(1) by (simp add: Register_def pins_of_def)
  moreover have "storage_step cs (fst ?r)" by (rule storage_step.register [of _ _ _ _ "snd ?r"]) simp
  then have "storage_inv (fst ?r)" using assms(2) by (rule storage_step_inv)
  ultimately show ?thesis using assms(3) by (simp add: pinned_def update_conv')
qed

subsection \<open>What the flows keep\<close>

text \<open>Quiet flows may add blobs; they leave the state maps alone.\<close>

definition client_frame :: "swarm_client \<Rightarrow> swarm_client \<Rightarrow> bool" where
  "client_frame c c' \<longleftrightarrow> (storage_inv (scStorage c) \<longrightarrow>
     storage_inv (scStorage c') \<and> (\<forall>d. present (scStore c) d \<longrightarrow> present (scStore c') d))"

definition quiet_frame :: "swarm_client \<Rightarrow> swarm_client \<Rightarrow> bool" where
  "quiet_frame c c' \<longleftrightarrow> client_frame c c' \<and> (storage_inv (scStorage c) \<longrightarrow> sState (scStore c') = sState (scStore c))"

interpretation kept: frame client_frame
  by unfold_locales (auto simp: client_frame_def)

interpretation quiet: frame quiet_frame
  by unfold_locales (auto simp: quiet_frame_def client_frame_def)

lemma quiet_kept: "stays quiet_frame f \<Longrightarrow> stays client_frame f"
  by (auto simp: stays_def quiet_frame_def)

lemma engine_quiet: "engine_step\<^sup>*\<^sup>* (scStorage c) cs \<Longrightarrow> quiet_frame c (c\<lparr>scStorage := cs\<rparr>)"
  using engine_run_frame [of "scStorage c" cs] by (auto simp: quiet_frame_def client_frame_def engine_frame_def)

lemma dropTorrent_quiet: "engine_ok eg \<Longrightarrow> quiet_frame c (dropTorrent eg ih c)"
  unfolding dropTorrent_def on_storage_def by (rule engine_quiet) (simp add: engine_ok_def)

lemma register_quiet: "quiet_frame c (register recon c)"
proof -
  let ?r = "Register (rcInfohashHex recon) (rcFileSpecs recon) (scStorage c)"
  have "storage_step (scStorage c) (fst ?r)" by (rule storage_step.register [of _ _ _ _ "snd ?r"]) simp
  then have "storage_inv (scStorage c) \<Longrightarrow> storage_inv (fst ?r)" by (rule storage_step_inv)
  moreover have "csStore (fst ?r) = scStore c" by (simp add: Register_def split: option.split)
  ultimately show ?thesis by (auto simp: register_def on_storage_def quiet_frame_def client_frame_def)
qed

lemma addFreshTorrent_quiet:
  assumes "engine_ok eg"
  shows "stays quiet_frame (addFreshTorrent eg spec ih)"
proof (rule staysI)
  fix c c' r
  assume a: "addFreshTorrent eg spec ih c = (c', r)"
  let ?d = "dropTorrent eg ih c"
  have "c' = ?d\<lparr>scStorage := fst (egAdd eg spec (scStorage ?d))\<rparr>"
    using a by (auto simp: addFreshTorrent_def Let_def split: prod.splits)
  moreover have "quiet_frame ?d (?d\<lparr>scStorage := fst (egAdd eg spec (scStorage ?d))\<rparr>)"
    using assms by (intro engine_quiet) (simp add: engine_ok_def)
  ultimately show "quiet_frame c c'" using dropTorrent_quiet [OF assms, of c ih] quiet.R_trans by blast
qed

lemma verify_present_quiet: "engine_ok eg \<Longrightarrow> stays quiet_frame (verify_present eg t)"
proof (rule staysI)
  fix c c' r
  assume eg: "engine_ok eg" and a: "verify_present eg t c = (c', r)"
  have "c' = c\<lparr>scStorage := fst (egCheck eg (scStorage c))\<rparr>"
    using a by (auto simp: verify_present_def split: prod.splits)
  then show "quiet_frame c c'" using eg engine_quiet [of c] by (simp add: engine_ok_def)
qed

lemma wait_sealed_quiet:
  "engine_ok eg \<Longrightarrow> set rounds \<subseteq> set (egRounds eg) \<Longrightarrow> stays quiet_frame (wait_sealed rounds n t)"
proof (induction rounds arbitrary: t)
  case Nil
  then show ?case by (auto simp: stays_def quiet.R_refl)
next
  case (Cons round rounds)
  show ?case
  proof (rule staysI)
    fix c c' r
    assume a: "wait_sealed (round # rounds) n t c = (c', r)"
    have "quiet_frame c (on_storage round c)"
      unfolding on_storage_def using Cons.prems by (intro engine_quiet) (simp add: engine_ok_def)
    moreover have "stays quiet_frame (wait_sealed rounds n t')" for t'
      using Cons.IH [OF Cons.prems(1)] Cons.prems(2) by simp
    ultimately show "quiet_frame c c'"
      using a by (auto simp: Let_def quiet.R_refl split: option.splits sum.splits dest!: staysD intro: quiet.R_trans)
  qed
qed

lemma driver_quiet: "stays quiet_frame (driver ih)"
  unfolding driver_def by (rule quiet.stays_pure)

lemma seed_check_frame:
  "seed_check bad nv mh specs cs = (cs', r) \<Longrightarrow>
     csStore cs' = csStore cs \<and> csOpen cs' = csOpen cs \<and> csRegistry cs' = csRegistry cs
     \<and> (\<forall>d \<in> set (csVerified cs'). d \<in> set (csVerified cs) \<or> present (csStore cs) d)"
proof (induction specs arbitrary: cs)
  case (Cons ps specs)
  obtain path spec where ps: "ps = (path, spec)" by (cases ps)
  show ?case
    using Cons.prems Cons.IH Has_imp_present
    by (fastforce simp: ps Let_def MarkVerified_def split: if_splits sum.splits)
qed simp

lemma check_files_quiet: "stays quiet_frame (check_files env recon)"
proof (rule staysI)
  fix c c' r
  assume a: "check_files env recon c = (c', r)"
  obtain cs q where s: "seed_check (seBad env) (scNoSeedVerify c) (rcManifestHex recon) (rcFileSpecs recon) (scStorage c) = (cs, q)"
    by (metis surj_pair)
  note f = seed_check_frame [OF s]
  have "c' = c\<lparr>scStorage := cs\<rparr>" using a s by (simp add: check_files_def)
  moreover have "storage_inv (scStorage c) \<Longrightarrow> storage_inv cs"
    using f by (auto simp: storage_inv_def storage_ok_def file_at_def)
  ultimately show "quiet_frame c c'" using f by (simp add: quiet_frame_def client_frame_def)
qed

lemma announce_quiet: "quiet_frame c (announce recon rec rb c)"
  by (simp add: announce_def Let_def quiet_frame_def client_frame_def)

lemmas quiet_rules = quiet.flow_rules addFreshTorrent_quiet verify_present_quiet wait_sealed_quiet driver_quiet
  check_files_quiet dropTorrent_quiet register_quiet announce_quiet

lemma SeedArtifact_quiet:
  assumes "engine_ok eg"
  shows "stays quiet_frame (SeedArtifact env eg m mb rec rb)"
proof (rule staysI)
  fix c c' r
  assume a: "SeedArtifact env eg m mb rec rb c = (c', r)"
  show "quiet_frame c c'"
  proof (cases "scSeed c")
    case True
    show ?thesis
      using a unfolding SeedArtifact_def if_not_P [OF not_not [THEN iffD2, OF True]]
      by (rule staysD [rotated]) (intro quiet_rules assms)
  qed (use a in \<open>simp add: SeedArtifact_def quiet.R_refl\<close>)
qed

lemma fetch_all_quiet: "engine_ok eg \<Longrightarrow> stays quiet_frame (fetch_all eg recon spec)"
  unfolding fetch_all_def by (intro quiet_rules) (assumption | rule subset_refl)+

lemma store_op_kept:
  assumes "\<And>s s' r. f s = (s', r) \<Longrightarrow> keeps s s'"
  shows "stays client_frame (store_op w f)"
proof (rule staysI)
  fix c c' r
  assume a: "store_op w f c = (c', r)"
  obtain s q where s: "f (scStore c) = (s, q)" by (metis surj_pair)
  have k: "keeps (scStore c) s" using s by (rule assms)
  have c': "c' = c\<lparr>scStorage := (scStorage c)\<lparr>csStore := s\<rparr>\<rparr>" using a s by (simp add: store_op_def on_storage_def)
  show "client_frame c c'"
    unfolding client_frame_def c'
  proof (intro impI conjI allI)
    assume inv: "storage_inv (scStorage c)"
    then have "store_ok s" using k by (simp add: storage_inv_def storage_ok_def keeps_def)
    then have "storage_step (scStorage c) ((scStorage c)\<lparr>csStore := s\<rparr>)"
      using k by (intro storage_step.others) (simp_all add: keeps_def)
    then show "storage_inv (scStorage (c\<lparr>scStorage := (scStorage c)\<lparr>csStore := s\<rparr>\<rparr>))"
      using inv storage_step_inv by simp
  qed (use k in \<open>simp add: keeps_def\<close>)
qed

lemma store_op_Put_quiet: "stays quiet_frame (store_op w (Put env d b))"
proof (rule staysI)
  fix c c' r
  assume a: "store_op w (Put env d b) c = (c', r)"
  have "stays client_frame (store_op w (Put env d b))" by (rule store_op_kept) (blast dest: Put_keeps)
  then have "client_frame c c'" using a by (rule staysD)
  moreover have "sState (scStore c') = sState (scStore c)"
    using a by (auto simp: store_op_def on_storage_def dest: Put_sState split: prod.splits)
  ultimately show "quiet_frame c c'" by (simp add: quiet_frame_def)
qed

subsection \<open>Waiting until everything is there\<close>

lemma wait_sealed_all:
  assumes "engine_ok eg" and "distinct (map fst specs)"
  shows "wait_sealed rounds (length specs) t c = (c', Inr ()) \<Longrightarrow> set rounds \<subseteq> set (egRounds eg)
    \<Longrightarrow> pinned key specs (scStorage c) \<Longrightarrow> drv_ok key specs s t \<Longrightarrow> (\<And>d. present s d \<Longrightarrow> present (scStore c) d)
    \<Longrightarrow> \<forall>(p, spec) \<in> set specs. present (scStore c') (fsDigest spec)"
proof (induction rounds arbitrary: t c s)
  case (Cons round rounds)
  let ?t = "drv_now t (scStorage c)"
  have ok: "drv_ok key specs (scStore c) ?t" by (rule drv_ok_now [OF Cons.prems(3-5)])
  show ?case
  proof (cases "WaitSealed ?t (length specs)")
    case None
    have st: "engine_step\<^sup>*\<^sup>* (scStorage c) (scStorage (on_storage round c))"
      using assms(1) Cons.prems(2) by (simp add: engine_ok_def on_storage_def)
    have "wait_sealed rounds (length specs) ?t (on_storage round c) = (c', Inr ())"
      using Cons.prems(1) None by (simp add: Let_def)
    moreover have "pinned key specs (scStorage (on_storage round c))"
      using st Cons.prems(3) by (rule engine_run_pinned)
    moreover have "present (scStore (on_storage round c)) d" if "present (scStore c) d" for d
      using engine_run_frame [OF st] Cons.prems(3) that by (simp add: engine_frame_def pinned_def)
    ultimately show ?thesis using Cons.IH ok Cons.prems(2) by simp
  next
    case (Some w)
    then have w: "WaitSealed ?t (length specs) = Some (Inr ())" "c' = c"
      using Cons.prems(1) by (auto simp: Let_def split: sum.splits)
    show ?thesis using sealed_all [OF ok w(1) refl assms(2)] w(2) by auto
  qed
qed simp

lemma joined_present:
  assumes eg: "engine_ok eg" and pins: "pins_of m mb recon"
    and reg: "pinned (take 40 (rcInfohashHex recon)) (rcFileSpecs recon) (scStorage c)"
    and add: "addFreshTorrent eg spec (rcInfohashHex recon) c = (c1, Inr ())"
    and drv: "driverFor (scStorage c1) (rcInfohashHex recon) = Some t"
    and ver: "verify_present eg t c1 = (c2, Inr ())"
    and wait: "wait_sealed (egRounds eg) (length (rcFileSpecs recon)) t c2 = (c3, Inr ())"
  shows "\<forall>f \<in> set (mFiles m). present (scStore (dropTorrent eg ih c3)) (DigestHex (fDigest f))"
proof -
  let ?key = "take 40 (rcInfohashHex recon)" and ?specs = "rcFileSpecs recon"
  have st1: "engine_step\<^sup>*\<^sup>* (scStorage c) (scStorage c1)"
  proof -
    have "scStorage c1 = fst (egAdd eg spec (egDrop eg ?key (scStorage c)))"
      using add by (auto simp: addFreshTorrent_def Let_def dropTorrent_def on_storage_def split: prod.splits)
    then show ?thesis using eg unfolding engine_ok_def by (metis rtranclp_trans)
  qed
  have st2: "engine_step\<^sup>*\<^sup>* (scStorage c1) (scStorage c2)"
    using ver eg by (auto simp: verify_present_def engine_ok_def split: prod.splits) (metis fst_conv)
  have p1: "pinned ?key ?specs (scStorage c1)" using engine_run_pinned [OF st1 reg] .
  have p2: "pinned ?key ?specs (scStorage c2)" using engine_run_pinned [OF st2 p1] .
  have "map_of (csOpen (scStorage c1)) ?key = Some t"
    using drv pins by (simp add: driverFor_def normalizeKey_def pins_of_def)
  note dok = drv_ok_open [OF p1 this]
  have mono: "present (scStore c2) d" if "present (scStore c1) d" for d
    using engine_run_frame [OF st2] p1 that by (simp add: engine_frame_def pinned_def)
  have "distinct (map fst ?specs)" using pins by (simp add: pins_of_def)
  note all = wait_sealed_all [OF eg this wait order_refl p2 dok mono]
  have "quiet_frame c2 c3" using wait_sealed_quiet [OF eg order_refl] wait by (rule staysD)
  then have "storage_inv (scStorage c3)" using p2 by (simp add: quiet_frame_def client_frame_def pinned_def)
  then have last: "present (scStore (dropTorrent eg ih c3)) d" if "present (scStore c3) d" for d
    using dropTorrent_quiet [OF eg, of c3 ih] that by (simp add: quiet_frame_def client_frame_def)
  show ?thesis
  proof
    fix f
    assume "f \<in> set (mFiles m)"
    then obtain sp where "(fName f, sp) \<in> set ?specs" "fsDigest sp = DigestHex (fDigest f)"
      using pins unfolding pins_of_def by blast
    then show "present (scStore (dropTorrent eg ih c3)) (DigestHex (fDigest f))" using all last by fastforce
  qed
qed

lemma fetch_all_present:
  assumes "engine_ok eg" and "pins_of m mb recon"
    and "pinned (take 40 (rcInfohashHex recon)) (rcFileSpecs recon) (scStorage c)"
    and "fetch_all eg recon spec c = (c', Inr ())"
  shows "\<forall>f \<in> set (mFiles m). present (scStore c') (DigestHex (fDigest f))"
  using assms(4) by (auto simp: fetch_all_def seq_Inr driver_def split: option.splits dest: joined_present [OF assms(1-3)])

text \<open>An artifact all of which is in the store, under the digest of its manifest.\<close>

definition artifact_complete :: "codec \<Rightarrow> store \<Rightarrow> string \<Rightarrow> bool" where
  "artifact_complete cd s d \<longleftrightarrow>
     (\<exists>m mb. Digest mb = d \<and> decManifest cd mb = Inr m \<and> ValidateManifest m = None \<and> present s (DigestHex d)
        \<and> (\<forall>f \<in> set (mFiles m). present s (DigestHex (fDigest f))))"

lemma artifact_complete_mono:
  "artifact_complete cd s d \<Longrightarrow> (\<And>x. present s x \<Longrightarrow> present s' x) \<Longrightarrow> artifact_complete cd s' d"
  unfolding artifact_complete_def by blast

lemma pinHex_Inr: "pinHex d = Inr pin \<Longrightarrow> d = ''sha256:'' @ pin"
  by (auto simp: pinHex_def HasPrefix_iff Let_def split: if_splits)

lemma decode_manifest_Inr: "decode_manifest env b = Inr m \<Longrightarrow> decManifest (seCodec env) b = Inr m \<and> ValidateManifest m = None"
  by (auto simp: decode_manifest_def split: sum.splits option.splits)

lemma store_op_Inr:
  "store_op w f c = (c', Inr ()) \<longleftrightarrow>
     (\<exists>s. f (scStore c) = (s, Inr ()) \<and> c' = c\<lparr>scStorage := (scStorage c)\<lparr>csStore := s\<rparr>\<rparr>)"
  by (cases "f (scStore c)"; cases "snd (f (scStore c))") (auto simp: store_op_def on_storage_def)

lemma import_manifest_Inr:
  assumes "import_manifest env pin hints c = (c', Inr (mb, layers))"
  shows "Digest mb = ''sha256:'' @ pin \<and> present (scStore c') pin \<and> scStorage c' = (scStorage c)\<lparr>csStore := scStore c'\<rparr>"
proof -
  have p: "store_op CPut (Put (sePut env 0) pin mb) c = (c', Inr ())" and d: "Digest mb = ''sha256:'' @ pin"
    using assms by (auto simp: import_manifest_def seq_Inr split: if_splits)
  then show ?thesis
    by (auto simp: store_op_Inr dest: Put_keeps)
qed

lemma import_manifest_quiet: "stays quiet_frame (import_manifest env pin hints)"
  unfolding import_manifest_def by (intro quiet.flow_rules store_op_Put_quiet)

lemma import_fetch_quiet:
  assumes "engine_ok eg"
  shows "stays quiet_frame (import_fetch env eg mag md hints)"
  unfolding import_fetch_def
  by (intro quiet.flow_rules stays_split import_manifest_quiet fetch_all_quiet assms register_quiet)

lemma import_fetch_complete:
  assumes eg: "engine_ok eg" and inv: "storage_inv (scStorage c)"
    and free: "\<And>ih. ParseInfohash (seMagnet env) mag = Inr ih \<Longrightarrow> map_of (csOpen (scStorage c)) (take 40 ih) = None"
    and f: "import_fetch env eg mag md hints c = (c', Inr b)"
  shows "pins_of (bfManifest b) (bfBytes b) (bfRecon b) \<and> Digest (bfBytes b) = md
    \<and> ParseInfohash (seMagnet env) mag = Inr (rcInfohashHex (bfRecon b))
    \<and> reconstruct (bfManifest b) (bfBytes b) = Inr (bfRecon b)
    \<and> derivedRecord env (bfRecon b) (Digest (layersBlobOf env (bfLayers b))) = Inr (bfRecord b, bfRecordBytes b)
    \<and> artifact_complete (seCodec env) (scStore c') md"
proof -
  obtain pin ih mb layers c1 m recon rec rb spec where
    pin: "pinHex md = Inr pin" and ih: "ParseInfohash (seMagnet env) mag = Inr ih"
    and im: "import_manifest env pin hints c = (c1, Inr (mb, layers))"
    and dm: "decode_manifest env mb = Inr m" and rc: "reconstruct m mb = Inr recon" and eq: "rcInfohashHex recon = ih"
    and dr: "derivedRecord env recon (Digest (layersBlobOf env layers)) = Inr (rec, rb)"
    and fa: "fetch_all eg recon spec (register recon c1) = (c', Inr ())"
    and b: "b = \<lparr>bfRecon = recon, bfManifest = m, bfBytes = mb, bfLayers = layers, bfRecord = rec, bfRecordBytes = rb\<rparr>"
    using f by (auto simp: import_fetch_def seq_Inr map_sum_Inr split: if_splits prod.splits)
  note mi = import_manifest_Inr [OF im] and dmi = decode_manifest_Inr [OF dm] and md = pinHex_Inr [OF pin]
  note pins = reconstruct_Inr [OF rc dmi [THEN conjunct2]]
  have inv1: "storage_inv (scStorage c1)"
    using staysD [OF import_manifest_quiet im] inv by (simp add: quiet_frame_def client_frame_def)
  have "csOpen (scStorage c1) = csOpen (scStorage c)"
    using mi by (cases "scStorage c", cases "scStorage c1") simp
  then have "map_of (csOpen (scStorage c1)) (take 40 (rcInfohashHex recon)) = None" using free ih eq by simp
  note reg = register_pinned [OF pins inv1 this]
  have reg': "pinned (take 40 (rcInfohashHex recon)) (rcFileSpecs recon) (scStorage (register recon c1))"
    using reg by (simp add: register_def on_storage_def)
  note all = fetch_all_present [OF eg pins reg' fa]
  have "quiet_frame c1 (register recon c1)" by (rule register_quiet)
  moreover have "quiet_frame (register recon c1) c'" using fetch_all_quiet [OF eg] fa by (rule staysD)
  ultimately have "quiet_frame c1 c'" by (rule quiet.R_trans)
  then have pr: "present (scStore c') pin" using mi inv1 by (simp add: quiet_frame_def client_frame_def)
  have "DigestHex md = pin" unfolding md DigestHex_def by (rule TrimPrefix_append)
  then have "artifact_complete (seCodec env) (scStore c') md"
    unfolding artifact_complete_def using mi dmi md pr all by auto
  then show ?thesis using pins mi md ih eq rc dr by (simp add: b)
qed

lemma derivedRecord_Inr:
  "derivedRecord env recon ld = Inr (rec, b) \<Longrightarrow>
     canonDist (seCodec env) rec = Inr b \<and> dManifestDigest rec = rcManifestDigest recon
     \<and> tInfohash (dTorrent rec) = rcInfohashBtmh recon \<and> tPieceLength (dTorrent rec) = rcPieceLength recon
     \<and> tPieceLayersDigest (dTorrent rec) = ld"
  by (auto simp: derivedRecord_def Let_def split: sum.splits)

lemma persist_kept: "stays client_frame (persist env recon layers rb hints)"
proof -
  have link: "keeps s s'" if "SetDistributionLink fl md rd s = (s', r)" for fl md rd s s' r
    using that by (auto simp: SetDistributionLink_def dest!: updateMap_keeps split: sum.splits if_splits)
  have hint: "keeps s s'" if "SetHints fl md hj s = (s', r)" for fl md hj s s' r
    using that by (auto simp: SetHints_def dest!: updateMap_keeps split: sum.splits if_splits)
  show ?thesis
    unfolding persist_def putLayers_def Let_def
    by (intro kept.flow_rules quiet_kept [OF store_op_Put_quiet] store_op_kept; (erule link)?)
      (auto intro!: kept.flow_rules store_op_kept dest: hint split: option.split)
qed

lemma persist_mono:
  assumes "persist env recon layers rb hints c = (c', r)" and "storage_inv (scStorage c)" and "present (scStore c) d"
  shows "present (scStore c') d"
  using staysD [OF persist_kept assms(1)] assms(2,3) by (simp add: client_frame_def)

lemma persist_linked:
  assumes p: "persist env recon layers rb hints c = (c', Inr ())" and inv: "storage_inv (scStorage c)"
  shows "client_frame c c' \<and> storage_inv (scStorage c') \<and> present (scStore c') (DigestHex (Digest rb))
    \<and> (IsDigest (rcManifestDigest recon) \<longrightarrow>
         RecordDigestForManifest (scStore c') (rcManifestDigest recon) = Inr (Digest rb))"
proof -
  let ?md = "rcManifestDigest recon"
  have fr: "client_frame c c'" using persist_kept p by (rule staysD)
  obtain c1 c2 c3 where p1: "putLayers env 1 layers c = (c1, Inr ())"
    and p2: "store_op CPut (Put (sePut env 2) (DigestHex (Digest rb)) rb) c1 = (c2, Inr ())"
    and p3: "store_op CState (SetDistributionLink (seFault env 0) ?md (Digest rb)) c2 = (c3, Inr ())"
    and p4: "(case seEncHints env hints of None \<Rightarrow> ret () | Some hj \<Rightarrow> store_op CState (SetHints (seFault env 1) ?md hj)) c3
        = (c', Inr ())"
    using p by (auto simp: persist_def seq_Inr)
  have pr2: "present (scStore c2) (DigestHex (Digest rb))"
    using p2 by (auto simp: store_op_Inr dest: Put_keeps)
  have link: "keeps (scStore c2) (scStore c3)
      \<and> (IsDigest ?md \<longrightarrow> RecordDigestForManifest (scStore c3) ?md = Inr (Digest rb))"
    using p3 SetDistributionLink_frame [of "seFault env 0" ?md "Digest rb" "scStore c2"] 
    by (auto simp: store_op_Inr SetDistributionLink_def dest: updateMap_keeps split: sum.splits if_splits)
  have hints: "keeps (scStore c3) (scStore c') \<and> sState (scStore c') distributionFile = sState (scStore c3) distributionFile"
    using p4 by (auto simp: store_op_Inr SetHints_def dest!: updateMap_keeps split: option.splits sum.splits if_splits)
  have "RecordDigestForManifest (scStore c') ?md = RecordDigestForManifest (scStore c3) ?md"
    using hints by (intro RecordDigestForManifest_state) simp
  moreover have "present (scStore c') (DigestHex (Digest rb))" using pr2 link hints by (auto simp: keeps_def)
  ultimately show ?thesis using fr inv link by (simp add: client_frame_def)
qed

text \<open>
  C15: a pinned import that succeeds has what was asked for and nothing else: the manifest hashes to
  the pin and is valid, it reconstructs to the very torrent the caller named, the manifest and every
  file it lists are in the store under their digests, and the manifest is linked to a record that is
  in the store, binds this manifest to this torrent, and passes the binding check. This holds
  whatever the web seeds serve and whatever the peers send.
\<close>

theorem ImportBT_pinned:
  assumes "engine_ok eg" and "storage_inv (scStorage c)"
    and "\<And>ih. ParseInfohash (seMagnet env) mag = Inr ih \<Longrightarrow> map_of (csOpen (scStorage c)) (take 40 ih) = None"
    and "ImportBT env eg mag md hints c = (c', Inr res)"
  shows "ibManifestDigest res = md \<and> artifact_complete (seCodec env) (scStore c') md
    \<and> RecordDigestForManifest (scStore c') md = Inr (ibRecordDigest res)
    \<and> present (scStore c') (DigestHex (ibRecordDigest res))
    \<and> (\<exists>m mb recon rec b. Reconstruct m mb = Returns (Inr recon) \<and> Digest mb = md
         \<and> ParseInfohash (seMagnet env) mag = Inr (rcInfohashHex recon)
         \<and> canonDist (seCodec env) rec = Inr b \<and> ibRecordDigest res = Digest b \<and> CheckRecord recon rec = Inr ())"
proof -
  obtain b c1 c2 where f: "import_fetch env eg mag md hints c = (c1, Inr b)"
    and p: "persist env (bfRecon b) (bfLayers b) (bfRecordBytes b) hints c1 = (c2, Inr ())"
    and s: "SeedArtifact env eg (bfManifest b) (bfBytes b) (Some (bfRecord b)) (Some (bfRecordBytes b)) c2 = (c', Inr ())"
    and res: "res = \<lparr>ibManifestDigest = rcManifestDigest (bfRecon b), ibInfohash = rcInfohashBtmh (bfRecon b),
          ibRecordDigest = Digest (bfRecordBytes b), ibFiles = length (mFiles (bfManifest b))\<rparr>"
    using assms(4) by (auto simp: ImportBT_def seq_Inr)
  note fc = import_fetch_complete [OF assms(1-3) f]
  let ?md = "rcManifestDigest (bfRecon b)" and ?rb = "bfRecordBytes b"
  have md: "?md = md" "IsDigest md" using fc by (auto simp: pins_of_def)
  have q1: "quiet_frame c c1" using import_fetch_quiet [OF assms(1)] f by (rule staysD)
  then have inv1: "storage_inv (scStorage c1)" using assms(2) by (simp add: quiet_frame_def client_frame_def)
  note pf = persist_linked [OF p inv1] and md
  have q2: "quiet_frame c2 c'" using SeedArtifact_quiet [OF assms(1)] s by (rule staysD)
  have inv2: "storage_inv (scStorage c2)" using pf by (simp add: client_frame_def)
  have st: "sState (scStore c') = sState (scStore c2)" and mono: "present (scStore c2) d \<Longrightarrow> present (scStore c') d" for d
    using q2 inv2 by (simp_all add: quiet_frame_def client_frame_def)
  have rd: "RecordDigestForManifest (scStore c') md = Inr (Digest ?rb)"
    using pf md st RecordDigestForManifest_state [of "scStore c'" "scStore c2"] by simp
  have comp: "artifact_complete (seCodec env) (scStore c') md"
    using fc by (auto intro: artifact_complete_mono mono dest: persist_mono [OF p inv1])
  have "Reconstruct (bfManifest b) (bfBytes b) = Returns (Inr (bfRecon b))"
    using fc by (auto simp: reconstruct_def split: panic.splits sum.splits)
  moreover have "canonDist (seCodec env) (bfRecord b) = Inr ?rb \<and> CheckRecord (bfRecon b) (bfRecord b) = Inr ()"
    using derivedRecord_Inr [OF fc [THEN conjunct2, THEN conjunct2, THEN conjunct2, THEN conjunct2, THEN conjunct1]]
    by (simp add: CheckRecord_def)
  ultimately have "\<exists>m mb recon rec b'. Reconstruct m mb = Returns (Inr recon) \<and> Digest mb = md
         \<and> ParseInfohash (seMagnet env) mag = Inr (rcInfohashHex recon)
         \<and> canonDist (seCodec env) rec = Inr b' \<and> ibRecordDigest res = Digest b' \<and> CheckRecord recon rec = Inr ()"
    using fc by (intro exI [of _ "bfManifest b"] exI [of _ "bfBytes b"] exI [of _ "bfRecon b"] exI [of _ "bfRecord b"] exI [of _ ?rb])
      (simp add: res)
  moreover have "present (scStore c') (DigestHex (Digest ?rb))" using pf mono by blast
  ultimately show ?thesis using md rd comp by (simp add: res)
qed

text \<open>
  A pinned import that fails, or is cancelled, at any point leaves every state map as it was,
  unless the artifact is already complete in the store: no namespace, link or hint is ever written
  for an artifact that was not fetched in full.
\<close>

lemma ImportBT_publish_order:
  assumes "engine_ok eg" and "storage_inv (scStorage c)"
    and "\<And>ih. ParseInfohash (seMagnet env) mag = Inr ih \<Longrightarrow> map_of (csOpen (scStorage c)) (take 40 ih) = None"
    and "ImportBT env eg mag md hints c = (c', r)"
  shows "sState (scStore c') = sState (scStore c) \<or> artifact_complete (seCodec env) (scStore c') md"
proof -
  obtain c1 r1 where f: "import_fetch env eg mag md hints c = (c1, r1)" by (metis surj_pair)
  have q: "quiet_frame c c1" using import_fetch_quiet [OF assms(1)] f by (rule staysD)
  show ?thesis
  proof (cases r1)
    case (Inl e)
    then have "c' = c1" using assms(4) f by (simp add: ImportBT_def seq_def)
    then show ?thesis using q assms(2) by (simp add: quiet_frame_def)
  next
    case (Inr b)
    have comp: "artifact_complete (seCodec env) (scStore c1) md"
      using import_fetch_complete [OF assms(1-3)] f Inr by blast
    let ?rest = "seq (persist env (bfRecon b) (bfLayers b) (bfRecordBytes b) hints) (\<lambda>_.
      seq (SeedArtifact env eg (bfManifest b) (bfBytes b) (Some (bfRecord b)) (Some (bfRecordBytes b))) (\<lambda>_.
      ret \<lparr>ibManifestDigest = rcManifestDigest (bfRecon b), ibInfohash = rcInfohashBtmh (bfRecon b),
          ibRecordDigest = Digest (bfRecordBytes b), ibFiles = length (mFiles (bfManifest b))\<rparr>))"
    have "stays client_frame ?rest"
      by (intro kept.flow_rules persist_kept quiet_kept [OF SeedArtifact_quiet] assms(1))
    moreover have "?rest c1 = (c', r)" using assms(4) f Inr by (simp add: ImportBT_def seq_def)
    ultimately have "client_frame c1 c'" by (rule staysD)
    then show ?thesis
      using artifact_complete_mono [OF comp] q assms(2) by (simp add: quiet_frame_def client_frame_def)
  qed
qed

subsection \<open>Filling completes\<close>

text \<open>
  A fill that succeeds has every file of the manifest in the store, and has joined no swarm
  before the linked record was found to bind this manifest to its torrent; a failed binding changes
  nothing at all. The state maps are never touched.
\<close>

lemma Fill_completes:
  assumes eg: "engine_ok eg" and inv: "storage_inv (scStorage c)" and v: "ValidateManifest m = None"
    and free: "\<And>recon. reconstruct m mb = Inr recon \<Longrightarrow> map_of (csOpen (scStorage c)) (take 40 (rcInfohashHex recon)) = None"
    and f: "Fill env eg m mb hints c = (c', r)"
  shows "sState (scStore c') = sState (scStore c)
    \<and> (c' \<noteq> c \<longrightarrow> (\<exists>recon rec b. reconstruct m mb = Inr recon \<and> CheckRecord recon rec = Inr ()
          \<and> RecordForManifest env (scStore c) (Digest mb) = Inr (Some (rec, b))))
    \<and> (r = Inr () \<longrightarrow> (\<forall>f \<in> set (mFiles m). present (scStore c') (DigestHex (fDigest f))))"
proof (cases "reconstruct m mb")
  case (Inl e)
  then have "c' = c" "r = Inl e" using f by (simp_all add: Fill_def seq_def asks_def)
  then show ?thesis by simp
next
  case (Inr recon)
  note pins = reconstruct_Inr [OF Inr v]
  have md: "rcManifestDigest recon = Digest mb" using pins by (simp add: pins_of_def)
  show ?thesis
  proof (cases "\<exists>rec b layers. RecordForManifest env (scStore c) (Digest mb) = Inr (Some (rec, b))
      \<and> CheckRecord recon rec = Inr () \<and> layersFor env c recon (Some rec) = Inr layers")
    case False
    then have "c' = c \<and> r \<noteq> Inr ()"
      using f Inr md
      by (auto simp: Fill_def seq_def asks_def check_record_def fail_def map_sum_def split: sum.splits option.splits prod.splits)
    then show ?thesis by simp
  next
    case True
    then obtain rec b layers where rec: "RecordForManifest env (scStore c) (Digest mb) = Inr (Some (rec, b))"
      "CheckRecord recon rec = Inr ()" "layersFor env c recon (Some rec) = Inr layers" by blast
    let ?ih = "rcInfohashHex recon"
    let ?rest = "seq (modify (register recon)) (\<lambda>_.
         seq (asks (\<lambda>_. specFromRecon recon layers (hnTrackers hints) [] (hnPeers hints))) (\<lambda>spec.
         seq (addFreshTorrent eg spec ?ih) (\<lambda>_.
         seq (driver ?ih) (\<lambda>drv.
         seq (on_error (dropTorrent eg ?ih)
               (seq (verify_present eg drv) (\<lambda>_. wait_sealed (egRounds eg) (length (rcFileSpecs recon)) drv))) (\<lambda>_.
         seq (modify (dropTorrent eg ?ih)) (\<lambda>_. SeedArtifact env eg m mb (Some rec) None))))))"
    show ?thesis
    proof (cases "MissingFiles (seBad env) (scStore c) m = []")
      case True
      then have "c' = c" "r = Inr ()"
        using f Inr md rec by (simp_all add: Fill_def seq_def asks_def check_record_def)
      moreover have "present (scStore c) (DigestHex (fDigest f))" if "f \<in> set (mFiles m)" for f
        using True that Has_imp_present by (auto simp: MissingFiles_def filter_empty_conv)
      ultimately show ?thesis by simp
    next
      case False
      then have rest: "?rest c = (c', r)"
        using f Inr md rec by (simp add: Fill_def seq_asks check_record_def)
      have "stays quiet_frame ?rest"
        by (intro quiet_rules SeedArtifact_quiet) (assumption | rule subset_refl eg)+
      then have q: "quiet_frame c c'" using rest by (rule staysD)
      have "present (scStore c') (DigestHex (fDigest g))" if ok: "r = Inr ()" and g: "g \<in> set (mFiles m)" for g
      proof -
        obtain spec c1 t c2 c3 where add: "addFreshTorrent eg spec ?ih (register recon c) = (c1, Inr ())"
          and drv: "driverFor (scStorage c1) ?ih = Some t"
          and ver: "verify_present eg t c1 = (c2, Inr ())"
          and wait: "wait_sealed (egRounds eg) (length (rcFileSpecs recon)) t c2 = (c3, Inr ())"
          and seed: "SeedArtifact env eg m mb (Some rec) None (dropTorrent eg ?ih c3) = (c', Inr ())"
          using rest ok by (auto simp: seq_Inr driver_def split: option.splits)
        have reg: "pinned (take 40 ?ih) (rcFileSpecs recon) (scStorage (register recon c))"
          using register_pinned [OF pins inv free [OF Inr]] by (simp add: register_def on_storage_def)
        note all = joined_present [OF eg pins reg add drv ver wait]
        have q3: "quiet_frame c (dropTorrent eg ?ih c3)"
          using register_quiet [of c recon] staysD [OF addFreshTorrent_quiet [OF eg] add]
            staysD [OF verify_present_quiet [OF eg] ver] staysD [OF wait_sealed_quiet [OF eg order_refl] wait]
            dropTorrent_quiet [OF eg] by (meson quiet.R_trans)
        have "quiet_frame (dropTorrent eg ?ih c3) c'" using SeedArtifact_quiet [OF eg] seed by (rule staysD)
        then show ?thesis using all g q3 inv by (auto simp: quiet_frame_def client_frame_def)
      qed
      then show ?thesis using q inv Inr rec by (auto simp: quiet_frame_def)
    qed
  qed
qed

subsection \<open>Seeding only what was checked\<close>

definition unannounced :: "swarm_client \<Rightarrow> swarm_client \<Rightarrow> bool" where
  "unannounced c c' \<longleftrightarrow> scSeeds c' = scSeeds c \<and> scWsFiles c' = scWsFiles c \<and> scWsLayers c' = scWsLayers c
     \<and> scSeed c' = scSeed c"

interpretation silent: frame unannounced
  by unfold_locales (auto simp: unannounced_def)

lemma silent_steps:
  "unannounced c (dropTorrent eg ih c)" "unannounced c (register recon c)"
  "stays unannounced (addFreshTorrent eg spec ih)" "stays unannounced (verify_present eg t)"
  "stays unannounced (check_files env recon)" "stays unannounced (driver ih)"
  by (auto simp: unannounced_def dropTorrent_def register_def on_storage_def stays_def addFreshTorrent_def
      verify_present_def check_files_def driver_def Let_def split: prod.splits)

lemma seed_check_Inr:
  "seed_check bad nv mh specs cs = (cs', Inr ()) \<Longrightarrow> (p, spec) \<in> set specs \<Longrightarrow> p \<noteq> ''manifest/sha256-'' @ mh
    \<Longrightarrow> present (csStore cs) (fsDigest spec)
       \<and> (nv \<or> WasVerified cs (fsDigest spec) \<or> Verify bad (csStore cs) (fsDigest spec) = Inr ())"
proof (induction specs arbitrary: cs)
  case (Cons ps specs)
  obtain path sp where ps: "ps = (path, sp)" by (cases ps)
  show ?case
  proof (cases "(p, spec) = ps")
    case True
    then show ?thesis using Cons.prems ps Has_imp_present by (auto simp: Let_def split: if_splits sum.splits)
  next
    case False
    then have "(p, spec) \<in> set specs" using Cons.prems(2) by simp
    then show ?thesis
      using Cons.prems(1,3) Cons.IH by (fastforce simp: ps Let_def MarkVerified_def WasVerified_def split: if_splits sum.splits)
  qed
qed simp

text \<open>
  C16: seeding announces an artifact only if its record binds it, every blob but the manifest is in
  the store and, unless the escape hatch is set, was verified in this process or hashes to its name
  right now; a seeding that fails announces nothing: no seed, no web seed file, no layers.
\<close>

theorem SeedArtifact_gate:
  assumes "SeedArtifact env eg m mb rec rb c = (c', r)" and "scSeed c"
  shows "(\<forall>e. r = Inl e \<longrightarrow> scSeeds c' = scSeeds c \<and> scWsFiles c' = scWsFiles c \<and> scWsLayers c' = scWsLayers c)
    \<and> (r = Inr () \<longrightarrow> (\<exists>recon. reconstruct m mb = Inr recon \<and> map_of (scSeeds c') (rcInfohashHex recon) = Some recon
         \<and> (\<forall>d. rec = Some d \<longrightarrow> CheckRecord recon d = Inr ())
         \<and> (\<forall>(p, spec) \<in> set (rcFileSpecs recon). p \<noteq> ''manifest/sha256-'' @ rcManifestHex recon \<longrightarrow>
              present (scStore c) (fsDigest spec)
              \<and> (scNoSeedVerify c \<or> WasVerified (scStorage c) (fsDigest spec)
                 \<or> Verify (seBad env) (scStore c) (fsDigest spec) = Inr ()))))"
proof -
  let ?flow = "seq (asks (\<lambda>_. reconstruct m mb)) (\<lambda>recon.
       seq (asks (\<lambda>_. check_record recon rec)) (\<lambda>_.
       seq (check_files env recon) (\<lambda>_.
       seq (modify (register recon)) (\<lambda>_.
       seq (asks (\<lambda>c. layersFor env c recon rec)) (\<lambda>layers.
       seq (asks (\<lambda>_. specFromRecon recon layers [] [] [])) (\<lambda>spec.
       seq (addFreshTorrent eg spec (rcInfohashHex recon)) (\<lambda>_.
       on_error (dropTorrent eg (rcInfohashHex recon))
         (seq (driver (rcInfohashHex recon)) (\<lambda>drv.
          seq (verify_present eg drv) (\<lambda>_.
          modify (announce recon rec rb)))))))))))"
  have f: "?flow c = (c', r)" using assms by (simp add: SeedArtifact_def)
  have "errs unannounced ?flow"
    by (intro silent.errs_seq silent.flow_rules silent.errs_on_error silent.errs_modify silent_steps)
  then have "unannounced c c'" if "r = Inl e" for e using f that by (auto dest: errsD)
  moreover have "\<exists>recon. reconstruct m mb = Inr recon \<and> map_of (scSeeds c') (rcInfohashHex recon) = Some recon
         \<and> (\<forall>d. rec = Some d \<longrightarrow> CheckRecord recon d = Inr ())
         \<and> (\<forall>(p, spec) \<in> set (rcFileSpecs recon). p \<noteq> ''manifest/sha256-'' @ rcManifestHex recon \<longrightarrow>
              present (scStore c) (fsDigest spec)
              \<and> (scNoSeedVerify c \<or> WasVerified (scStorage c) (fsDigest spec)
                 \<or> Verify (seBad env) (scStore c) (fsDigest spec) = Inr ()))" if ok: "r = Inr ()"
  proof -
    obtain recon c1 c2 where rc: "reconstruct m mb = Inr recon" and cr: "check_record recon rec = Inr ()"
      and cf: "check_files env recon c = (c1, Inr ())" and an: "c' = announce recon rec rb c2"
      using f ok by (auto simp: seq_Inr)
    have sc: "seed_check (seBad env) (scNoSeedVerify c) (rcManifestHex recon) (rcFileSpecs recon) (scStorage c) = (scStorage c1, Inr ())"
      using cf by (auto simp: check_files_def split: prod.splits)
    have "map_of (scSeeds c') (rcInfohashHex recon) = Some recon" by (simp add: an announce_def Let_def update_conv')
    moreover have "\<forall>d. rec = Some d \<longrightarrow> CheckRecord recon d = Inr ()" using cr by (auto simp: check_record_def)
    ultimately show ?thesis using rc seed_check_Inr [OF sc] by blast
  qed
  ultimately show ?thesis by (auto simp: unannounced_def)
qed

subsection \<open>The web seed and its hints\<close>

text \<open>
  What the web seed serves for a torrent path is, byte for byte, the content pinned for that
  path by a seeded artifact; nothing is served while seeding is off.
\<close>

lemma webseed_serves_pins:
  assumes "store_ok (scStore c)" and "handleWebseedFile env c http_method path = WsBlob b"
  shows "scSeed c \<and> (\<exists>spec. map_of (scWsFiles c) (TrimPrefix path ''/'') = Some spec \<and> sha256_hex b = fsDigest spec)"
proof -
  obtain spec f where s: "map_of (scWsFiles c) (TrimPrefix path ''/'') = Some spec" "scSeed c"
    and o: "OpenBlob (seBad env) (scStore c) (fsDigest spec) = Opened f" "b = fContent f"
    using assms(2) by (auto simp: handleWebseedFile_def serveBlob_def split: if_splits option.splits open_result.splits)
  then have "is_digest_hex (fsDigest spec)" "look (scStore c) (blob_path (fsDigest spec)) = Some f"
    by (auto simp: OpenBlob_def BlobPath_Inr split: sum.splits if_splits option.splits)
  then show ?thesis using assms(1) s o by (auto simp: store_ok_def)
qed

text \<open>
  The piece-layers path is not limited to piece layers: whatever blob of the store a caller names by
  its digest is served, whether or not any seeded artifact refers to it.
\<close>

lemma handlePieceLayers_any_blob:
  assumes "is_digest_hex d" and "look (scStore c) (blob_path d) = Some f"
    and "scSeed c" and "seBad env = (\<lambda>_. False)" and "map_of (scWsLayers c) d = None"
  shows "handlePieceLayers env c ''GET'' (''/bt/piece-layers/'' @ d) = WsBlob (fContent f)"
proof -
  have "TrimPrefix (''/bt/piece-layers/'' @ d) ''/bt/piece-layers/'' = d" by (rule TrimPrefix_append)
  moreover have "length d = 64" using assms(1) by (simp add: is_digest_hex_def)
  ultimately show ?thesis
    using assms by (simp only: handlePieceLayers_def Let_def) (simp add: get_str_def serveBlob_def OpenBlob_def BlobPath_valid)
qed

text \<open>
  The manifest is taken from the first web seed that answers at all: if those bytes miss the pin the
  import ends there, and no other source is asked, although the message speaks of every source.
\<close>

lemma ImportBT_first_answer:
  assumes "pinHex md = Inr pin" and "ParseInfohash (seMagnet env) mag = Inr ih"
    and "fetchLayersFromHints env pin hints = Inr layers" and "hnWebseeds hints = base # bases"
    and "seHttp env (manifest_url pin base) = Inr (200, body)" and "Digest (take (2 ^ 20) body) \<noteq> md"
  shows "ImportBT env eg mag md hints c = (c, Inl (PinMismatch (Digest (take (2 ^ 20) body)) pin))"
proof -
  let ?d = "Digest (take (2 ^ 20) body)"
  have "fetchManifestFromHints env pin hints = Inr (take (2 ^ 20) body)"
    using assms by (simp add: fetchManifestFromHints_def httpGet_def)
  moreover have "?d \<noteq> ''sha256:'' @ pin" using pinHex_Inr [OF assms(1)] assms(6) by metis
  ultimately have "import_manifest env pin hints c = (c, Inl (PinMismatch ?d pin))"
    using assms(3) unfolding import_manifest_def by (simp add: seq_def asks_def unless_def fail_def)
  then have "import_fetch env eg mag md hints c = (c, Inl (PinMismatch ?d pin))"
    using assms(1,2) by (simp add: import_fetch_def seq_def asks_def)
  then show ?thesis by (simp add: ImportBT_def seq_def)
qed

subsection \<open>A pinned import\<close>

lemma reconstruct_total: "ValidateManifest m = None \<Longrightarrow> \<exists>recon. reconstruct m mb = Inr recon"
proof -
  assume v: "ValidateManifest m = None"
  then have ok: "manifest_ok m" by (simp add: ValidateManifest_spec)
  then have mr: "list_all (\<lambda>f. IsDigest (fMerkleRoot f)) (mFiles m)"
    by (auto simp: list_all_iff entry_wf_def manifest_ok_def files_ok_def)
  obtain tree tot where "pinned_tree (mFiles m) [] (int (length mb)) = Returns (Inr (tree, tot))"
    using pinned_tree_Returns [OF mr valid_unrelated [OF ok], of "[]" "int (length mb)"] by auto
  then show ?thesis
    by (auto simp: reconstruct_def Reconstruct_def BuildTorrentFromManifest_def finish_torrent_def Let_def)
qed

definition bt_manifest :: Manifest where
  "bt_manifest = \<lparr>mSchemaVersion = 1, mArtifactType = ''model'', mFiles = [demo_config, small_file], mAnnotations = []\<rparr>"

definition bt_env :: swarm_env where
  "bt_env = \<lparr>seCodec = demo_codec\<lparr>decManifest := (\<lambda>_. Inr bt_manifest)\<rparr>, seMagnet = (\<lambda>_. None),
     seDecLayers = (\<lambda>_. Some []), seEncLayers = (\<lambda>_. ''de''), seDecHints = (\<lambda>_. None), seEncHints = (\<lambda>_. None),
     seHttp = (\<lambda>_. Inr (200, ''{}'')), seBad = (\<lambda>_. False), sePut = (\<lambda>_. calm_env ''12345678''), seFault = (\<lambda>_. no_fault)\<rparr>"

definition bt_info :: info where
  "bt_info = \<lparr>inHasV1 = False, inPieceLength = 16384,
     inFiles = [\<lparr>ifPath = [''modelconfig.json''], ifLength = 1, ifOffset = 0\<rparr>,
                \<lparr>ifPath = [''w.gguf''], ifLength = 1, ifOffset = 16384\<rparr>,
                \<lparr>ifPath = [''manifest'', ''sha256-'' @ sha256_hex ''{}''], ifLength = 2, ifOffset = 32768\<rparr>]\<rparr>"

text \<open>An engine that opens the torrent it is given and finds its pieces good.\<close>

definition bt_engine :: engine where
  "bt_engine = \<lparr>egDrop = (\<lambda>_ cs. cs),
     egAdd = (\<lambda>spec cs. case OpenTorrent (\<lambda>_. False) bt_info (take 20 (tsInfoHashV2 spec)) cs of
                Panics \<Rightarrow> (cs, Inl []) | Returns (cs', r) \<Rightarrow> (cs', case r of Inl _ \<Rightarrow> Inl [] | Inr _ \<Rightarrow> Inr ())),
     egCheck = (\<lambda>cs. (cs, \<lambda>_. False, \<lambda>_. True)), egRounds = [\<lambda>cs. cs]\<rparr>"

lemma bt_engine_ok: "engine_ok bt_engine"
proof -
  have "engine_step\<^sup>*\<^sup>* cs (fst (egAdd bt_engine spec cs))" for spec cs
    by (auto simp: bt_engine_def split: panic.split intro: engine_step.open_torrent)
  then show ?thesis by (simp add: engine_ok_def) (simp add: bt_engine_def)
qed

definition bt_client :: "store \<Rightarrow> (string \<times> (string \<times> FileSpec) list) list \<Rightarrow> (string \<times> casTorrent) list \<Rightarrow> swarm_client" where
  "bt_client s reg open_torrents = \<lparr>scSeed = False, scNoSeedVerify = False,
     scStorage = \<lparr>csStore = s, csVerified = [], csRegistry = reg, csOpen = open_torrents\<rparr>,
     scSeeds = [], scWsFiles = [], scWsLayers = []\<rparr>"

definition bt_specs :: "(string \<times> FileSpec) list" where
  "bt_specs = [(''modelconfig.json'', \<lparr>fsDigest = sha256_hex ''w'', fsSize = 1\<rparr>), (''w.gguf'', \<lparr>fsDigest = sha256_hex ''w'', fsSize = 1\<rparr>),
     (''manifest/sha256-'' @ sha256_hex ''{}'', \<lparr>fsDigest = sha256_hex ''{}'', fsSize = 2\<rparr>)]"

lemma bt_recon:
  obtains recon where "reconstruct bt_manifest ''{}'' = Inr recon" "rcFileSpecs recon = bt_specs"
    "pins_of bt_manifest ''{}'' recon"
proof -
  have v: "ValidateManifest bt_manifest = None" unfolding bt_manifest_def by (rule demo_valid)
  obtain recon where r: "reconstruct bt_manifest ''{}'' = Inr recon" using reconstruct_total [OF v] by blast
  have "DigestHex (fDigest small_file) = sha256_hex ''w''" "DigestHex (fDigest demo_config) = sha256_hex ''w''"
    by (simp_all add: demo_config_def small_file_def)
  then have "rcFileSpecs recon = bt_specs"
    using r by (auto simp: reconstruct_def Reconstruct_def Let_def bt_manifest_def bt_specs_def demo_fields
        split: panic.splits sum.splits)
  then show thesis using that r reconstruct_Inr [OF r v] by blast
qed

definition bt_file :: "string \<Rightarrow> string \<Rightarrow> int \<Rightarrow> string \<times> fileState" where
  "bt_file path d n = (path, \<lparr>stName = path, stDigest = d, stSize = n, stSealed = True, stFailed = None, stPart = None,
     stNumDone = 1, stPieces = Some [True]\<rparr>)"

definition bt_driver :: "string \<Rightarrow> casTorrent" where
  "bt_driver key = \<lparr>ctKey = key, ctPieceLength = 16384,
     ctSpans = [\<lparr>spPath = ''modelconfig.json'', spBegin = 0, spEnd = 1\<rparr>, \<lparr>spPath = ''w.gguf'', spBegin = 1, spEnd = 2\<rparr>,
       \<lparr>spPath = ''manifest/sha256-'' @ sha256_hex ''{}'', spBegin = 2, spEnd = 3\<rparr>],
     ctFiles = [bt_file ''modelconfig.json'' (sha256_hex ''w'') 1, bt_file ''w.gguf'' (sha256_hex ''w'') 1,
       bt_file (''manifest/sha256-'' @ sha256_hex ''{}'') (sha256_hex ''{}'') 2], ctClosed = False\<rparr>"

lemma sha256_hex_no_special: "c \<in> set (sha256_hex b) \<Longrightarrow> is_lhex c"
  using is_digest_sha256_hex [of b] by (simp add: is_digest_hex_def list_all_iff)

lemma bt_open:
  assumes "present s (sha256_hex ''w'')" and "present s (sha256_hex ''{}'')" and "hex_encode ih = key"
  shows "OpenTorrent (\<lambda>_. False) bt_info ih (scStorage (bt_client s [(key, bt_specs)] []))
    = Returns (scStorage (bt_client s [(key, bt_specs)] [(key, bt_driver key)]), Inr ())"
proof -
  have h: "Has (\<lambda>_. False) s (sha256_hex ''w'')" "Has (\<lambda>_. False) s (sha256_hex ''{}'')"
    using assms(1,2) by simp_all
  have bs: "CHR 0x5C \<notin> set (sha256_hex ''{}'')"
    using sha256_hex_no_special [of "CHR 0x5C"] by (auto simp: is_lhex_def is_digit_def)
  have cp: "canonicalTorrentPath [''manifest'', ''sha256-'' @ sha256_hex ''{}'']"
    using bs by (simp add: canonicalTorrentPath_def)
  have sj: "slashJoin [''manifest'', ''sha256-'' @ sha256_hex ''{}''] = ''manifest/sha256-'' @ sha256_hex ''{}''"
    by (simp add: slashJoin_def)
  show ?thesis
    using h cp sj assms(3)
    by (simp add: OpenTorrent_def bt_info_def bt_client_def newCASTorrent_def new_file_def Let_def sort_by_def
        canonicalTorrentPath_def slashJoin_def bt_specs_def bt_driver_def bt_file_def int64_eval)
qed

lemma take_hex_encode: "take (2 * n) (hex_encode b) = hex_encode (take n b)"
proof (induction b arbitrary: n)
  case (Cons x b)
  then show ?case by (cases n) (simp_all add: hex_encode_def)
qed (simp add: hex_encode_def)

lemma bt_fetch:
  assumes "present s (sha256_hex ''w'')" and "present s (sha256_hex ''{}'')"
    and "hex_encode ih = rcInfohashHex recon" and "rcFileSpecs recon = bt_specs" and "tsInfoHashV2 spec = ih"
    and "length (rcInfohashHex recon) = 64"
  shows "fetch_all bt_engine recon spec (bt_client s [(take 40 (rcInfohashHex recon), bt_specs)] [])
    = (bt_client s [(take 40 (rcInfohashHex recon), bt_specs)]
         [(take 40 (rcInfohashHex recon), bt_driver (take 40 (rcInfohashHex recon)))], Inr ())"
proof -
  let ?k = "take 40 (rcInfohashHex recon)"
  let ?c = "bt_client s [(?k, bt_specs)] []" and ?d = "bt_client s [(?k, bt_specs)] [(?k, bt_driver ?k)]"
  have k: "hex_encode (take 20 ih) = ?k"
    using take_hex_encode [of 20 ih] assms(3) by simp
  have sc: "?d = ?c\<lparr>scStorage := scStorage ?d\<rparr>" by (simp add: bt_client_def)
  have drop: "dropTorrent bt_engine h c = c" for h c by (simp add: dropTorrent_def on_storage_def bt_engine_def)
  have "addFreshTorrent bt_engine spec (rcInfohashHex recon) ?c = (?d, Inr ())"
    using bt_open [OF assms(1,2) k] assms(5) sc by (simp add: addFreshTorrent_def drop Let_def) (simp add: bt_engine_def)
  moreover have "driver (rcInfohashHex recon) ?d = (?d, Inr (bt_driver ?k))"
    using assms(6) by (simp add: driver_def driverFor_def normalizeKey_def) (simp add: bt_client_def)
  moreover have "verify_present bt_engine (bt_driver ?k) ?d = (?d, Inr ())"
    by (simp add: verify_present_def bt_engine_def VerifyPresent_def bt_driver_def Let_def)
  moreover have "wait_sealed (egRounds bt_engine) (length (rcFileSpecs recon)) (bt_driver ?k) ?d = (?d, Inr ())"
  proof -
    have "drv_now (bt_driver ?k) (scStorage ?d) = bt_driver ?k" by (simp add: drv_now_def bt_driver_def bt_client_def)
    moreover have "WaitSealed (bt_driver ?k) 3 = Some (Inr ())"
      by (simp add: WaitSealed_def bt_driver_def bt_file_def)
    moreover have "length (rcFileSpecs recon) = 3" by (simp add: assms(4) bt_specs_def)
    ultimately show ?thesis by (simp add: bt_engine_def)
  qed
  ultimately show ?thesis
    by (simp add: fetch_all_def seq_def on_error_def modify_def drop)
qed

lemma ToLower_lhex: "list_all is_lhex s \<Longrightarrow> ToLower s = s"
proof (rule ToLower_id)
  assume s: "list_all is_lhex s"
  have "list_all (\<lambda>c. is_ascii c \<and> \<not> is_upper c) ''0123456789abcdef''" by code_simp
  then have "is_ascii c \<and> \<not> is_upper c" if "is_lhex c" for c
    using that unfolding list_all_iff is_lhex_def by blast
  then show "list_all is_ascii s" "list_all (\<lambda>c. \<not> is_upper c) s"
    using s unfolding list_all_iff by blast+
qed

lemma hex_no_prefix: "is_digest_hex h \<Longrightarrow> \<not> is_lhex x \<Longrightarrow> \<not> HasPrefix h (x # xs)"
  by (auto simp: HasPrefix_iff is_digest_hex_def)

lemma ParseInfohash_hex:
  assumes "is_digest_hex h"
  shows "ParseInfohash mg h = Inr h"
proof -
  have n: "\<not> is_lhex (CHR ''m'')" "\<not> is_lhex (CHR ''u'')" "\<not> is_lhex (CHR ''s'')" by (simp_all add: is_lhex_def is_digit_def)
  have t: "TrimPrefix h ''btmh:1220'' = h" "TrimPrefix h ''urn:btmh:1220'' = h" "TrimPrefix h ''sha256:'' = h"
  proof -
    have "\<not> HasPrefix h ''btmh:1220''"
    proof
      assume "HasPrefix h ''btmh:1220''"
      then have "CHR ''t'' \<in> set h" by (auto simp: HasPrefix_iff)
      then have "is_lhex (CHR ''t'')" using assms by (simp add: is_digest_hex_def list_all_iff)
      then show False by (simp add: is_lhex_def is_digit_def)
    qed
    then show "TrimPrefix h ''btmh:1220'' = h" by (simp add: TrimPrefix_def)
    show "TrimPrefix h ''urn:btmh:1220'' = h" "TrimPrefix h ''sha256:'' = h"
      using hex_no_prefix [OF assms n(2)] hex_no_prefix [OF assms n(3)] by (simp_all add: TrimPrefix_def)
  qed
  have "hex_decode h \<noteq> None" using assms by (intro hex_decode_lhex) (simp_all add: is_digest_hex_def)
  moreover have "ToLower h = h" using assms by (intro ToLower_lhex) (simp add: is_digest_hex_def)
  ultimately show ?thesis
    using t hex_no_prefix [OF assms n(1)] assms by (simp add: ParseInfohash_def Let_def is_digest_hex_def)
qed

lemma pinHex_Digest: "pinHex (Digest b) = Inr (sha256_hex b)"
proof -
  have h: "is_digest_hex (sha256_hex b)" by simp
  then have "hex_decode (sha256_hex b) \<noteq> None" by (intro hex_decode_lhex) (simp_all add: is_digest_hex_def)
  moreover have "ToLower (sha256_hex b) = sha256_hex b" using h by (intro ToLower_lhex) (simp add: is_digest_hex_def)
  ultimately show ?thesis by (simp add: pinHex_def Digest_def HasPrefix_def Let_def)
qed

text \<open>The concrete run: the file contents are already in the store, the manifest is fetched.\<close>

lemma bt_run:
  obtains s c' res and recon :: Recon where "store_ok s" "is_digest_hex (rcInfohashHex recon)"
    "ImportBT bt_env bt_engine (rcInfohashHex recon) (Digest ''{}'') \<lparr>hnTrackers = [], hnWebseeds = [''http://s''], hnPeers = []\<rparr>
       (bt_client s [] []) = (c', Inr res)"
proof -
  let ?e = "calm_env ''12345678''" and ?hints = "\<lparr>hnTrackers = [], hnWebseeds = [''http://s''], hnPeers = []\<rparr>"
  let ?pin = "sha256_hex ''{}''"
  have f: "peFault ?e = (\<lambda>_. False)" by simp
  obtain recon where recon: "reconstruct bt_manifest ''{}'' = Inr recon" "rcFileSpecs recon = bt_specs"
    "pins_of bt_manifest ''{}'' recon"
    by (rule bt_recon)
  let ?ih = "rcInfohashHex recon" and ?k = "take 40 (rcInfohashHex recon)"
  have ih: "is_digest_hex ?ih" using recon(3) by (simp add: pins_of_def)
  have le: "look empty_store p = None" for p by (simp add: empty_store_def look_def)
  obtain s where s: "Put ?e (sha256_hex ''w'') ''w'' empty_store = (s, Inr ())" "look s (part_path ?e) = None"
    using Put_fresh [of ?e empty_store "''w''"] f le by (metis prod.collapse)
  obtain s1 where s1: "Put ?e ?pin ''{}'' s = (s1, Inr ())" "look s1 (part_path ?e) = None"
    using Put_fresh [of ?e s "''{}''"] s(2) by (metis f prod.collapse)
  have k0: "keeps empty_store s \<and> present s (sha256_hex ''w'')" using Put_keeps [OF s(1)] by simp
  have k1: "keeps s s1 \<and> present s1 ?pin" using Put_keeps [OF s1(1)] by simp
  have ok: "store_ok s" using k0 by (simp add: keeps_def)
  have pr: "present s1 (sha256_hex ''w'')" "present s1 ?pin" using k0 k1 by (auto simp: keeps_def)
  have be: "seHttp bt_env = (\<lambda>_. Inr (200, ''{}''))" "seDecLayers bt_env = (\<lambda>_. Some [])" "sePut bt_env = (\<lambda>_. ?e)"
    "seFault bt_env = (\<lambda>_. no_fault)" "seEncHints bt_env = (\<lambda>_. None)" "decManifest (seCodec bt_env) = (\<lambda>_. Inr bt_manifest)"
    "canonDist (seCodec bt_env) = (\<lambda>_. Inr ''{}'')" "seEncLayers bt_env = (\<lambda>_. ''de'')"
    by (simp_all add: bt_env_def demo_codec_def)
  have im: "import_manifest bt_env ?pin ?hints (bt_client s [] []) = (bt_client s1 [] [], Inr (''{}'', []))"
  proof -
    have "fetchLayersFromHints bt_env ?pin ?hints = Inr []"
      by (simp add: fetchLayersFromHints_def httpGet_def be)
    moreover have "fetchManifestFromHints bt_env ?pin ?hints = Inr ''{}''"
      by (simp add: fetchManifestFromHints_def httpGet_def be)
    moreover have "store_op CPut (Put ?e ?pin ''{}'') (bt_client s [] []) = (bt_client s1 [] [], Inr ())"
      using s1(1) by (simp add: store_op_def on_storage_def bt_client_def)
    ultimately show ?thesis
      unfolding import_manifest_def be by (simp add: seq_def asks_def unless_def Digest_def ret_def)
  qed
  obtain b where hd: "hex_decode ?ih = Some b" "hex_encode b = ?ih"
    using recon(3) by (auto simp: pins_of_def sha256_hex_def hex_decode_encode)
  define spec where "spec = \<lparr>tsInfoHashV2 = b, tsInfoBytes = rcInfoBencode recon, tsPieceLayers = [], tsDisplayName = rcName recon,
      tsTrackers = [], tsWebseeds = [], tsPeerAddrs = []\<rparr>"
  have sp: "specFromRecon recon [] [] [] [] = Inr spec"
    by (simp add: specFromRecon_def hd spec_def tiersOf_def normalizeWebseeds_def)
  have "Register ?ih bt_specs \<lparr>csStore = s1, csVerified = [], csRegistry = [], csOpen = []\<rparr>
      = (\<lparr>csStore = s1, csVerified = [], csRegistry = [(?k, bt_specs)], csOpen = []\<rparr>, Inr ())"
    using ih by (simp add: Register_def bt_specs_def is_digest_hex_def)
  then have reg: "register recon (bt_client s1 [] []) = bt_client s1 [(?k, bt_specs)] []"
    by (simp add: register_def on_storage_def bt_client_def recon(2))
  let ?d = "\<lambda>s. bt_client s [(?k, bt_specs)] [(?k, bt_driver ?k)]"
  have fa: "fetch_all bt_engine recon spec (bt_client s1 [(?k, bt_specs)] []) = (?d s1, Inr ())"
    using bt_fetch [OF pr hd(2) recon(2), of spec] ih by (simp add: spec_def is_digest_hex_def)
  obtain rec where dr: "derivedRecord bt_env recon (Digest (layersBlobOf bt_env [])) = Inr (rec, ''{}'')"
    by (simp add: derivedRecord_def be)
  define bf where "bf = \<lparr>bfRecon = recon, bfManifest = bt_manifest, bfBytes = ''{}'', bfLayers = [], bfRecord = rec, bfRecordBytes = ''{}''\<rparr>"
  have dm: "decode_manifest bt_env ''{}'' = Inr bt_manifest"
    using demo_valid by (simp add: decode_manifest_def be bt_manifest_def)
  have fetched: "import_fetch bt_env bt_engine ?ih (Digest ''{}'') ?hints (bt_client s [] []) = (?d s1, Inr bf)"
    unfolding import_fetch_def
    using pinHex_Digest [of "''{}''"] ParseInfohash_hex [OF ih] im dm recon(1) dr reg sp fa
    by (simp add: seq_def asks_def unless_def ret_def modify_def bf_def)
  obtain s2 where s2: "Put ?e (sha256_hex ''de'') ''de'' s1 = (s2, Inr ())" "look s2 (part_path ?e) = None"
    using Put_fresh [of ?e s1 "''de''"] s1(2) by (metis f prod.collapse)
  obtain s3 where s3: "Put ?e ?pin ''{}'' s2 = (s3, Inr ())"
    using Put_fresh [of ?e s2 "''{}''"] s2(2) by (metis f prod.collapse)
  have "sState s3 = sState empty_store"
    using s(1) s1(1) s2(1) s3 by (auto dest!: Put_sState)
  then have lm: "loadMap s3 distributionFile = Inr []" by (simp add: loadMap_def empty_store_def)
  have nd: "NormalizeDigest (Digest x) = Inr (Digest x)" for x
    using IsDigest_Digest [of x] by (auto simp: NormalizeDigest_def IsDigest_def)
  have md: "rcManifestDigest recon = Digest ''{}''" using recon(3) by (simp add: pins_of_def)
  obtain s4 where s4: "SetDistributionLink no_fault (rcManifestDigest recon) (Digest ''{}'') s3 = (s4, Inr ())"
    using updateMap_no_fault [OF lm] nd [of "''{}''"] md by (simp add: SetDistributionLink_def Digest_def)
  have so: "store_op w g (?d t) = (case g t of (t', r) \<Rightarrow> (?d t', map_sum w id r))" for w g t
    by (simp add: store_op_def on_storage_def bt_client_def split: prod.split)
  have per: "persist bt_env recon [] ''{}'' ?hints (?d s1) = (?d s4, Inr ())"
    using s2(1) s3 s4 by (simp add: persist_def putLayers_def layersBlobOf_def be seq_def so ret_def Let_def)
  then obtain res where "ImportBT bt_env bt_engine ?ih (Digest ''{}'') ?hints (bt_client s [] []) = (?d s4, Inr res)"
    using fetched per by (simp add: ImportBT_def seq_def bf_def SeedArtifact_def ret_def) (simp add: bt_client_def)
  then show thesis by (rule that [OF ok ih])
qed

lemma ImportBT_pinned_witness:
  "\<exists>c c' mag hints res. ImportBT bt_env bt_engine mag (Digest ''{}'') hints c = (c', Inr res)
    \<and> artifact_complete (seCodec bt_env) (scStore c') (Digest ''{}'')"
proof -
  obtain s c' res and recon :: Recon where run: "store_ok s" "is_digest_hex (rcInfohashHex recon)"
    "ImportBT bt_env bt_engine (rcInfohashHex recon) (Digest ''{}'') \<lparr>hnTrackers = [], hnWebseeds = [''http://s''], hnPeers = []\<rparr>
       (bt_client s [] []) = (c', Inr res)"
    by (rule bt_run)
  have "storage_inv (scStorage (bt_client s [] []))"
    using run(1) by (simp add: bt_client_def storage_inv_def storage_ok_def file_at_def)
  then show ?thesis
    using ImportBT_pinned [OF bt_engine_ok _ _ run(3)] run(3) by (fastforce simp: bt_client_def)
qed

lemma ImportBT_publish_order_witness:
  "\<exists>c' r. ImportBT bt_env bt_engine (sha256_hex ''x'') (Digest ''{}'') \<lparr>hnTrackers = [], hnWebseeds = [], hnPeers = []\<rparr>
      (bt_client empty_store [] []) = (c', r)
    \<and> (sState (scStore c') = sState empty_store \<or> artifact_complete (seCodec bt_env) (scStore c') (Digest ''{}''))"
proof -
  let ?c = "bt_client empty_store [] []"
  obtain c' r where run: "ImportBT bt_env bt_engine (sha256_hex ''x'') (Digest ''{}'') \<lparr>hnTrackers = [], hnWebseeds = [], hnPeers = []\<rparr> ?c = (c', r)"
    by (metis surj_pair)
  have "store_ok empty_store" by (simp add: store_ok_def empty_store_def look_def)
  then have "storage_inv (scStorage ?c)"
    by (simp add: bt_client_def storage_inv_def storage_ok_def file_at_def)
  from ImportBT_publish_order [OF bt_engine_ok this _ run] run show ?thesis
    by (auto simp: bt_client_def)
qed

lemma SeedArtifact_gate_witness:
  "\<exists>c' e. SeedArtifact bt_env bt_engine bt_manifest ''{}'' None None ((bt_client empty_store [] [])\<lparr>scSeed := True\<rparr>) = (c', Inl e)
    \<and> scSeeds c' = []"
proof -
  let ?c = "(bt_client empty_store [] [])\<lparr>scSeed := True\<rparr>"
  obtain recon where recon: "reconstruct bt_manifest ''{}'' = Inr recon" "rcFileSpecs recon = bt_specs" by (rule bt_recon)
  have "\<not> Has (seBad bt_env) empty_store d" for d
    using Has_imp_present [of _ empty_store d] by (auto simp: present_def empty_store_def look_def)
  then have cf: "check_files bt_env recon ?c = (?c, Inl (ArtifactIncomplete (sha256_hex ''w'') ''modelconfig.json''))"
    by (simp add: check_files_def recon(2) bt_specs_def bt_client_def Let_def)
  have run: "SeedArtifact bt_env bt_engine bt_manifest ''{}'' None None ?c
      = (?c, Inl (ArtifactIncomplete (sha256_hex ''w'') ''modelconfig.json''))"
    using recon(1) cf by (simp add: SeedArtifact_def seq_def asks_def check_record_def)
  show ?thesis using SeedArtifact_gate [OF run] run by (simp add: bt_client_def)
qed

lemma webseed_serves_pins_witness:
  "\<exists>s. handleWebseedFile bt_env ((bt_client s [] [])\<lparr>scSeed := True, scWsFiles := bt_specs\<rparr>) ''GET'' ''/w.gguf'' = WsBlob ''w''
    \<and> sha256_hex ''w'' = fsDigest (the (map_of bt_specs ''w.gguf''))"
proof -
  obtain s where s: "Put (calm_env ''12345678'') (sha256_hex ''w'') ''w'' empty_store = (s, Inr ())"
    using Put_fresh [of "calm_env ''12345678''" empty_store "''w''"]
    by (cases "Put (calm_env ''12345678'') (sha256_hex ''w'') ''w'' empty_store") (simp add: empty_store_def look_def)
  let ?c = "(bt_client s [] [])\<lparr>scSeed := True, scWsFiles := bt_specs\<rparr>"
  have "look empty_store p = None" for p by (simp add: empty_store_def look_def)
  then have f: "\<exists>f. look s (blob_path (sha256_hex ''w'')) = Some f \<and> fContent f = ''w''"
    using Put_changes [OF s] Put_Inr [OF s] by (auto simp: put_changes_def)
  have tp: "TrimPrefix ''/w.gguf'' ''/'' = ''w.gguf''" by code_simp
  have "store_ok s" using Put_keeps [OF s] by (simp add: keeps_def)
  moreover have run: "handleWebseedFile bt_env ?c ''GET'' ''/w.gguf'' = WsBlob ''w''"
    using f by (auto simp: handleWebseedFile_def tp bt_specs_def bt_client_def serveBlob_def OpenBlob_def BlobPath_valid bt_env_def)
  ultimately have "sha256_hex ''w'' = fsDigest (the (map_of bt_specs ''w.gguf''))"
    using webseed_serves_pins [of ?c bt_env "''GET''" "''/w.gguf''" "''w''"] by (auto simp: bt_client_def tp)
  with run show ?thesis by blast
qed

lemma Fill_completes_witness:
  "\<exists>c' r. Fill bt_env bt_engine bt_manifest ''{}'' \<lparr>hnTrackers = [], hnWebseeds = [], hnPeers = []\<rparr> (bt_client empty_store [] []) = (c', r)
    \<and> sState (scStore c') = sState empty_store \<and> (r = Inr () \<longrightarrow> present (scStore c') (sha256_hex ''w''))"
proof -
  let ?c = "bt_client empty_store [] []"
  obtain c' r where run: "Fill bt_env bt_engine bt_manifest ''{}'' \<lparr>hnTrackers = [], hnWebseeds = [], hnPeers = []\<rparr> ?c = (c', r)"
    by (metis surj_pair)
  have "store_ok empty_store" by (simp add: store_ok_def empty_store_def look_def)
  then have inv: "storage_inv (scStorage ?c)"
    by (simp add: bt_client_def storage_inv_def storage_ok_def file_at_def)
  have v: "ValidateManifest bt_manifest = None" unfolding bt_manifest_def by (rule demo_valid)
  have "small_file \<in> set (mFiles bt_manifest)" "DigestHex (fDigest small_file) = sha256_hex ''w''"
    by (simp_all add: bt_manifest_def small_file_def)
  with Fill_completes [OF bt_engine_ok inv v _ run] run show ?thesis
    by (auto simp: bt_client_def)
qed

end
