(* ===== verification/Foreign.thy ===== *)
theory Foreign
  imports SwarmStorage
begin

text \<open>
  \<open>internal/swarm/foreign.go\<close>: the storage driver for community torrents. They are BitTorrent v1
  torrents with a layout of their own: pieces are ranges of the concatenated files and may span
  several of them. A file is sealed into the store when the last piece covering it completes,
  after its bytes have been checked against the anchor. As with the native driver, the engine is
  third-party code that may call the operations in any order.
\<close>

subsection \<open>Data\<close>

record ForeignFile =
  ffPath :: string
  ffSize :: int
  ffSHA256 :: string
  ffGitSHA1 :: string

record foreignReg =
  rgFiles :: "(string \<times> ForeignFile) list"
  rgStrict :: bool

record foreignFileRange =
  rnPath :: string
  rnBegin :: int
  rnEnd :: int

datatype foreign_error =
    RegInfohash string | RegDigest string
  | HasV2Fields | Unregistered string | BadPath "string list" | OutsideAnchor string
  | AnchorSize string int int | AnchorEmptyDigest string string | AnchorEmptyGit string string
  | FCas cas_error | WritePast int | NilState string | NegativeOffset | SealWithoutPart string
  | SizeMismatch string int int | AnchorMismatch string string string | GitMismatch string string string
  | UnstartedRead string int | OpenSealedBlob string | ShortRead | EmptyRead int
  | AnchorFailed foreign_error | ClosedEarly nat nat | VerifyPiece nat | PieceIncomplete nat
  | SlicePanic

record foreignState =
  frName :: string
  frAnchor :: ForeignFile
  frPart :: "(string \<times> string) option"
  frSealed :: bool
  frDigest :: string
  frFailed :: "foreign_error option"
  frPieces :: "bool list"
  frNumDone :: int

text \<open>The parsed info dictionary of a v1 torrent, as far as the driver looks at it.\<close>

record v1_info =
  viHasV2 :: bool
  viPieceLength :: int
  viFiles :: "info_file list"
  viNumPieces :: nat
  viTotal :: int

record foreignTorrent =
  ftKey :: string
  ftPieceLength :: int
  ftStrict :: bool
  ftFiles :: "foreignFileRange list"
  ftStates :: "(string \<times> foreignState) list"
  ftClosed :: bool

record ForeignStorage =
  fsStore :: store
  fsReg :: "(string \<times> foreignReg) list"
  fsOpen :: "(string \<times> foreignTorrent) list"

definition emptyContentSHA256 :: string where
  "emptyContentSHA256 = ''e3b0c44298fc1c149afbf4c8996fb92427ae41e4649b934ca495991b7852b855''"

definition emptyGitBlobSHA1 :: string where
  "emptyGitBlobSHA1 = ''e69de29bb2d1d6434b8b29ae775ad8c2e48c5391''"

subsection \<open>Registration and opening\<close>

definition RegisterForeign ::
  "string \<Rightarrow> (string \<times> ForeignFile) list \<Rightarrow> bool \<Rightarrow> ForeignStorage \<Rightarrow> ForeignStorage \<times> (foreign_error + unit)" where
  "RegisterForeign ih files strict s =
     (if length ih \<noteq> 40 then (s, Inl (RegInfohash ih))
      else case find (\<lambda>(path, f). ffSHA256 f \<noteq> [] \<and> length (ffSHA256 f) \<noteq> 64) files of
             Some (path, f) \<Rightarrow> (s, Inl (RegDigest path))
           | None \<Rightarrow> (s\<lparr>fsReg := AList.update ih \<lparr>rgFiles = files, rgStrict = strict\<rparr> (fsReg s)\<rparr>, Inr ()))"

definition no_anchor :: ForeignFile where
  "no_anchor = \<lparr>ffPath = [], ffSize = 0, ffSHA256 = [], ffGitSHA1 = []\<rparr>"

text \<open>An empty file is sealed at once under the digest of no bytes.\<close>

definition open_empty :: "put_env \<Rightarrow> (string \<Rightarrow> bool) \<Rightarrow> string \<Rightarrow> ForeignFile \<Rightarrow> store \<Rightarrow> store \<times> (foreign_error + foreignState)" where
  "open_empty env bad path a s =
     (if ffSHA256 a \<noteq> [] \<and> ffSHA256 a \<noteq> emptyContentSHA256
      then (s, Inl (AnchorEmptyDigest (ffSHA256 a) path))
      else if ffGitSHA1 a \<noteq> [] \<and> ffGitSHA1 a \<noteq> emptyGitBlobSHA1
      then (s, Inl (AnchorEmptyGit (ffGitSHA1 a) path))
      else
        let st = \<lparr>frName = path,
                  frAnchor = \<lparr>ffPath = path, ffSize = 0, ffSHA256 = emptyContentSHA256, ffGitSHA1 = []\<rparr>,
                  frPart = None, frSealed = True, frDigest = emptyContentSHA256, frFailed = None,
                  frPieces = [], frNumDone = 0\<rparr> in
        if Has bad s emptyContentSHA256 then (s, Inr st)
        else case Put env emptyContentSHA256 [] s of
               (s, Inl e) \<Rightarrow> (s, Inl (FCas e))
             | (s, Inr _) \<Rightarrow> (s, Inr st))"

definition open_file :: "(string \<Rightarrow> bool) \<Rightarrow> string \<Rightarrow> ForeignFile \<Rightarrow> int \<Rightarrow> nat \<Rightarrow> store \<Rightarrow> foreignState" where
  "open_file bad path a len n s =
     (let hit = ffSHA256 a \<noteq> [] \<and> Has bad s (ffSHA256 a) in
      \<lparr>frName = path,
       frAnchor = \<lparr>ffPath = path, ffSize = len, ffSHA256 = ffSHA256 a, ffGitSHA1 = ffGitSHA1 a\<rparr>,
       frPart = None, frSealed = hit, frDigest = (if hit then ffSHA256 a else []), frFailed = None,
       frPieces = replicate n False, frNumDone = 0\<rparr>)"

text \<open>
  The loop over the files in stream order; \<open>off\<close> is the end of the stream so far. The lengths
  come from untrusted metadata and the sums are \<open>int64\<close>, so the end of a range may wrap; a
  negative number of pieces makes \<open>make\<close> panic.
\<close>

fun open_files ::
  "(nat \<Rightarrow> put_env) \<Rightarrow> (string \<Rightarrow> bool) \<Rightarrow> int \<Rightarrow> foreignReg \<Rightarrow> info_file list \<Rightarrow> int \<Rightarrow> foreignTorrent \<Rightarrow> store
     \<Rightarrow> (store \<times> (foreign_error + foreignTorrent)) panic" where
  "open_files env bad pl reg [] off t s = Returns (s, Inr t)"
| "open_files env bad pl reg (fi # fis) off t s =
     (if \<not> canonicalTorrentPath (ifPath fi) then Returns (s, Inl (BadPath (ifPath fi)))
      else
        let path = slashJoin (ifPath fi);
            anchored = map_of (rgFiles reg) path;
            a = (case anchored of None \<Rightarrow> no_anchor | Some a \<Rightarrow> a) in
        if anchored = None \<and> rgStrict reg then Returns (s, Inl (OutsideAnchor path))
        else if anchored \<noteq> None \<and> ffSize a \<noteq> 0 \<and> ffSize a \<noteq> ifLength fi
        then Returns (s, Inl (AnchorSize path (ffSize a) (ifLength fi)))
        else if ifLength fi = 0 then
          (case open_empty (env 0) bad path a s of
             (s, Inl e) \<Rightarrow> Returns (s, Inl e)
           | (s, Inr st) \<Rightarrow>
               open_files (\<lambda>i. env (Suc i)) bad pl reg fis off
                 (t\<lparr>ftStates := AList.update path st (ftStates t)\<rparr>) s)
        else
          let fin = wrap64 (off + ifLength fi);
              n = wrap64 (wrap64 (div64 (wrap64 (fin - 1)) pl - div64 off pl) + 1) in
          if pl = 0 \<or> n < 0 then Panics
          else
            open_files (\<lambda>i. env (Suc i)) bad pl reg fis fin
              (t\<lparr>ftFiles := ftFiles t @ [\<lparr>rnPath = path, rnBegin = off, rnEnd = fin\<rparr>],
                 ftStates := AList.update path (open_file bad path a (ifLength fi) (nat n) s) (ftStates t)\<rparr>) s)"

definition newForeignTorrent ::
  "(nat \<Rightarrow> put_env) \<Rightarrow> (string \<Rightarrow> bool) \<Rightarrow> string \<Rightarrow> v1_info \<Rightarrow> foreignReg \<Rightarrow> store
     \<Rightarrow> (store \<times> (foreign_error + foreignTorrent)) panic" where
  "newForeignTorrent env bad key vi reg s =
     open_files env bad (viPieceLength vi) reg (sort_by (\<lambda>a b. ifOffset a < ifOffset b) (viFiles vi)) 0
       \<lparr>ftKey = key, ftPieceLength = viPieceLength vi, ftStrict = rgStrict reg,
        ftFiles = [], ftStates = [], ftClosed = False\<rparr> s"

definition OpenForeign ::
  "(nat \<Rightarrow> put_env) \<Rightarrow> (string \<Rightarrow> bool) \<Rightarrow> v1_info \<Rightarrow> string \<Rightarrow> ForeignStorage
     \<Rightarrow> (ForeignStorage \<times> (foreign_error + unit)) panic" where
  "OpenForeign env bad vi infoHash fs =
     (if viHasV2 vi then Returns (fs, Inl HasV2Fields)
      else
        let key = hex_encode infoHash in
        case map_of (fsReg fs) key of
          None \<Rightarrow> Returns (fs, Inl (Unregistered key))
        | Some reg \<Rightarrow>
            (case newForeignTorrent env bad key vi reg (fsStore fs) of
               Panics \<Rightarrow> Panics
             | Returns (s, Inl e) \<Rightarrow> Returns (fs\<lparr>fsStore := s\<rparr>, Inl e)
             | Returns (s, Inr t) \<Rightarrow>
                 Returns (fs\<lparr>fsStore := s, fsOpen := AList.update key t (fsOpen fs)\<rparr>, Inr ())))"

definition driverForForeign :: "ForeignStorage \<Rightarrow> string \<Rightarrow> foreignTorrent option" where
  "driverForForeign fs ih = map_of (fsOpen fs) ih"

subsection \<open>The stream\<close>

definition filesInRange :: "foreignFileRange list \<Rightarrow> int \<Rightarrow> int \<Rightarrow> foreignFileRange list" where
  "filesInRange files b e = filter (\<lambda>f. b < rnEnd f) (takeWhile (\<lambda>f. rnBegin f < e) files)"

definition pieceBits :: "foreignFileRange \<Rightarrow> int \<Rightarrow> int \<Rightarrow> int \<Rightarrow> int \<times> int" where
  "pieceBits f b e pl =
     (if rnBegin f > b then div64 (rnBegin f) pl else div64 b pl,
      if rnEnd f < e then div64 (wrap64 (rnEnd f - 1)) pl else div64 (wrap64 (e - 1)) pl)"

lemma filesInRange_hd: "filesInRange files b e = f # fs \<Longrightarrow> b < rnEnd f \<and> rnBegin f < e \<and> f \<in> set files"
proof -
  assume "filesInRange files b e = f # fs"
  then have "f \<in> set (filter (\<lambda>f. b < rnEnd f) (takeWhile (\<lambda>f. rnBegin f < e) files))"
    by (simp add: filesInRange_def)
  then show ?thesis by (auto dest: set_takeWhileD)
qed

definition foreign_part_path :: "put_env \<Rightarrow> string" where
  "foreign_part_path env = incomingDir @ ''/foreign-'' @ peRand env @ ''.part''"

definition newForeignPart :: "put_env \<Rightarrow> store \<Rightarrow> cas_error + (string \<times> store)" where
  "newForeignPart env s =
     (let name = foreign_part_path env in
      if peFault env SysMkIncoming then Inl (IOErr SysMkIncoming)
      else if peFault env SysCreate \<or> look s name \<noteq> None then Inl (IOErr SysCreate)
      else Inr (name, set_file name \<lparr>fContent = [], fMode = partMode, fTime = peNow env\<rparr> s))"

definition set_state :: "string \<Rightarrow> foreignState \<Rightarrow> foreignTorrent \<Rightarrow> foreignTorrent" where
  "set_state path st t = t\<lparr>ftStates := AList.update path st (ftStates t)\<rparr>"

type_synonym foreign_op =
  "store \<times> foreignTorrent \<Rightarrow> (store \<times> foreignTorrent) \<times> (foreign_error + unit)"

text \<open>
  One file's share of a write: open its part if there is none, and write the first \<open>n\<close> bytes into
  it. Where the difference of two offsets has wrapped, \<open>n\<close> is negative and slicing with it panics:
  \<open>SlicePanic\<close> is that panic, which ends the process.
\<close>

definition write_share :: "put_env \<Rightarrow> foreignFileRange \<Rightarrow> foreignState \<Rightarrow> int \<Rightarrow> int \<Rightarrow> string \<Rightarrow> foreign_op" where
  "write_share env f st at n b = (\<lambda>(s, t).
     case (case frPart st of
             Some p \<Rightarrow> Inr (p, s)
           | None \<Rightarrow> map_sum id (\<lambda>(name, s). ((name, []), s)) (newForeignPart env s)) of
       Inl e \<Rightarrow> ((s, t), Inl (FCas e))
     | Inr ((name, content), s) \<Rightarrow>
         let t = set_state (rnPath f) (st\<lparr>frPart := Some (name, content)\<rparr>) t in
         if n \<le> 0 then ((s, t), Inl SlicePanic)
         else if wrap64 (at - rnBegin f) < 0 then ((s, t), Inl NegativeOffset)
         else if peFault env SysWrite then ((s, t), Inl (FCas (IOErr SysWrite)))
         else
           let content = write_at content (nat (wrap64 (at - rnBegin f))) (take (nat n) b) in
           ((write_file env name content s, set_state (rnPath f) (st\<lparr>frPart := Some (name, content)\<rparr>) t), Inr ()))"

lemma write_share_done: "write_share env f st at n b st0 = (st1, Inr u) \<Longrightarrow> 0 < n"
  by (auto simp: write_share_def Let_def split: prod.splits sum.splits if_splits)

definition share :: "foreignFileRange \<Rightarrow> int \<Rightarrow> nat \<Rightarrow> int" where
  "share f at n = (if wrap64 (rnEnd f - at) < int n then wrap64 (rnEnd f - at) else int n)"

function writeAtLocked :: "(nat \<Rightarrow> put_env) \<Rightarrow> int \<Rightarrow> string \<Rightarrow> foreign_op" where
  "writeAtLocked env at b (s, t) =
     (if b = [] then ((s, t), Inr ())
      else case filesInRange (ftFiles t) at (wrap64 (at + int (length b))) of
        [] \<Rightarrow> ((s, t), Inl (WritePast at))
      | f # _ \<Rightarrow>
        let n = share f at (length b); at' = wrap64 (at + n) in
        (case map_of (ftStates t) (rnPath f) of
           None \<Rightarrow> ((s, t), Inl (NilState (rnPath f)))
         | Some st \<Rightarrow>
           (case frFailed st of
              Some e \<Rightarrow> ((s, t), Inl e)
            | None \<Rightarrow>
              if frSealed st then
                (if n \<le> 0 then ((s, t), Inl SlicePanic)
                 else writeAtLocked (\<lambda>i. env (Suc i)) at' (drop (nat n) b) (s, t))
              else
                (case write_share (env 0) f st at n b (s, t) of
                   ((s, t), Inl e) \<Rightarrow> ((s, t), Inl e)
                 | ((s, t), Inr _) \<Rightarrow> writeAtLocked (\<lambda>i. env (Suc i)) at' (drop (nat n) b) (s, t)))))"
  by pat_completeness auto
termination
  by (relation "measure (\<lambda>(env, at, b, st). length b)") (auto dest!: write_share_done [OF sym])

declare writeAtLocked.simps [simp del]

definition ForeignWriteAt :: "(nat \<Rightarrow> put_env) \<Rightarrow> int \<Rightarrow> string \<Rightarrow> int \<Rightarrow> foreign_op" where
  "ForeignWriteAt env pieceOff b off = writeAtLocked env (wrap64 (pieceOff + off)) b"

text \<open>The bytes read and the error the loop stopped with; \<open>None\<close> when it ran out of stream.\<close>

function read_stream ::
  "(string \<Rightarrow> bool) \<Rightarrow> store \<Rightarrow> foreignTorrent \<Rightarrow> int \<Rightarrow> nat \<Rightarrow> string \<times> foreign_error option" where
  "read_stream bad s t at n =
     (if n = 0 then ([], None)
      else case filesInRange (ftFiles t) at (wrap64 (at + int n)) of
        [] \<Rightarrow> ([], None)
      | f # _ \<Rightarrow>
        let m = share f at n in
        if m \<le> 0 then ([], None)
        else
        (case map_of (ftStates t) (rnPath f) of
           None \<Rightarrow> ([], Some (NilState (rnPath f)))
         | Some st \<Rightarrow>
           (case (if frSealed st
                  then (case OpenBlob bad s (frDigest st) of
                          Opened c \<Rightarrow> Inr (fContent c) | _ \<Rightarrow> Inl (OpenSealedBlob (frDigest st)))
                  else (case frPart st of
                          None \<Rightarrow> Inl (UnstartedRead (rnPath f) at) | Some (_, c) \<Rightarrow> Inr c)) of
              Inl e \<Rightarrow> ([], Some e)
            | Inr content \<Rightarrow>
              if wrap64 (at - rnBegin f) < 0 then ([], Some NegativeOffset)
              else
                let got = read_at content (nat (wrap64 (at - rnBegin f))) (nat m) in
                if int (length got) < m then (got, Some ShortRead)
                else
                  let (r, e) = read_stream bad s t (wrap64 (at + m)) (n - nat m) in (got @ r, e))))"
  by pat_completeness auto
termination
  by (relation "measure (\<lambda>(bad, s, t, at, n). n)") auto

declare read_stream.simps [simp del]

definition ForeignReadAt ::
  "(string \<Rightarrow> bool) \<Rightarrow> store \<Rightarrow> foreignTorrent \<Rightarrow> int \<Rightarrow> int \<Rightarrow> nat \<Rightarrow> string \<times> foreign_error option" where
  "ForeignReadAt bad s t pieceOff off n =
     (let at = wrap64 (pieceOff + off) in
      case read_stream bad s t at n of
        (r, Some e) \<Rightarrow> (r, Some e)
      | (r, None) \<Rightarrow> if r = [] then ([], Some (EmptyRead at)) else (r, None))"

subsection \<open>Completion and the anchor gate\<close>

text \<open>The id git gives a blob: the SHA-1 of a header with the length, and the content.\<close>

definition git_blob_id :: "string \<Rightarrow> string" where
  "git_blob_id content = sha1_hex (''blob '' @ dec_int (int (length content)) @ [CHR 0x00] @ content)"

definition drop_part :: "put_env \<Rightarrow> string \<Rightarrow> foreignState \<Rightarrow> store \<Rightarrow> store \<times> foreignState" where
  "drop_part env name st s = (remove_file env name s, st\<lparr>frPart := None\<rparr>)"

definition sealForeign :: "put_env \<Rightarrow> foreignState \<Rightarrow> store \<Rightarrow> (store \<times> foreignState) \<times> (foreign_error + unit)" where
  "sealForeign env st s =
     (case frPart st of
        None \<Rightarrow> ((s, st), Inl (SealWithoutPart (frName st)))
      | Some (name, content) \<Rightarrow>
        let a = frAnchor st; got = sha256_hex content in
        if peFault env SysStat then ((s, st), Inl (FCas (IOErr SysStat)))
        else if int (length content) \<noteq> ffSize a
        then ((s, st), Inl (SizeMismatch (frName st) (int (length content)) (ffSize a)))
        else if peFault env SysRead then ((s, st), Inl (FCas (IOErr SysRead)))
        else if ffSHA256 a \<noteq> [] \<and> got \<noteq> ffSHA256 a
        then (drop_part env name st s, Inl (AnchorMismatch (frName st) got (ffSHA256 a)))
        else if ffGitSHA1 a \<noteq> [] \<and> git_blob_id content \<noteq> ffGitSHA1 a
        then (drop_part env name st s, Inl (GitMismatch (frName st) (git_blob_id content) (ffGitSHA1 a)))
        else
          case Put env got content s of
            (s, Inl e) \<Rightarrow> ((s, st), Inl (FCas e))
          | (s, Inr _) \<Rightarrow>
              let (s, st) = drop_part env name st s in
              ((s, st\<lparr>frSealed := True, frDigest := got\<rparr>), Inr ()))"

text \<open>The (file, bit) pairs a piece \<open>[b, e)\<close> touches, in the order of the code's two loops.\<close>

definition touched_bits :: "foreignTorrent \<Rightarrow> int \<Rightarrow> int \<Rightarrow> (string \<times> int) list" where
  "touched_bits t b e =
     concat (map (\<lambda>f. let (lo, hi) = pieceBits f b e (ftPieceLength t) in
                      map (\<lambda>i. (rnPath f, wrap64 (i - div64 (rnBegin f) (ftPieceLength t)))) [lo..hi])
              (filesInRange (ftFiles t) b e))"

definition bit_set :: "foreignState \<Rightarrow> int \<Rightarrow> bool" where
  "bit_set st k = (0 \<le> k \<and> k < int (length (frPieces st)) \<and> frPieces st ! nat k)"

definition set_bit_of :: "int \<Rightarrow> bool \<Rightarrow> foreignState \<Rightarrow> foreignState" where
  "set_bit_of k v st =
     st\<lparr>frPieces := (frPieces st)[nat k := v], frNumDone := frNumDone st + (if v then 1 else - 1)\<rparr>"

text \<open>One bit of \<open>MarkComplete\<close>: set it, and seal the file when it was the last one.\<close>

definition complete_bit :: "put_env \<Rightarrow> int \<Rightarrow> foreignState \<Rightarrow> store \<Rightarrow> (store \<times> foreignState) \<times> (foreign_error + unit)" where
  "complete_bit env k st s =
     (if k < 0 \<or> k \<ge> int (length (frPieces st)) \<or> bit_set st k then ((s, st), Inr ())
      else
        let st = set_bit_of k True st in
        if frNumDone st = int (length (frPieces st)) \<and> \<not> frSealed st then
          (case sealForeign env st s of
             ((s, st), Inl e) \<Rightarrow> ((s, st\<lparr>frFailed := Some e\<rparr>), Inl e)
           | r \<Rightarrow> r)
        else ((s, st), Inr ()))"

fun complete_bits :: "(nat \<Rightarrow> put_env) \<Rightarrow> (string \<times> int) list \<Rightarrow> foreign_op" where
  "complete_bits env [] (s, t) = ((s, t), Inr ())"
| "complete_bits env ((path, k) # bs) (s, t) =
     (case map_of (ftStates t) path of
        None \<Rightarrow> ((s, t), Inl (NilState path))
      | Some st \<Rightarrow>
        (case complete_bit (env 0) k st s of
           ((s, st), Inl e) \<Rightarrow> ((s, set_state path st t), Inl e)
         | ((s, st), Inr _) \<Rightarrow> complete_bits (\<lambda>i. env (Suc i)) bs (s, set_state path st t)))"

definition ForeignMarkComplete :: "(nat \<Rightarrow> put_env) \<Rightarrow> int \<Rightarrow> int \<Rightarrow> foreign_op" where
  "ForeignMarkComplete env off len = (\<lambda>(s, t). complete_bits env (touched_bits t off (wrap64 (off + len))) (s, t))"

fun clear_bits :: "(string \<times> int) list \<Rightarrow> foreignTorrent \<Rightarrow> foreignTorrent \<times> (foreign_error + unit)" where
  "clear_bits [] t = (t, Inr ())"
| "clear_bits ((path, k) # bs) t =
     (case map_of (ftStates t) path of
        None \<Rightarrow> (t, Inl (NilState path))
      | Some st \<Rightarrow>
          if \<not> bit_set st k then clear_bits bs t
          else clear_bits bs (set_state path (set_bit_of k False st) t))"

definition ForeignMarkNotComplete :: "int \<Rightarrow> int \<Rightarrow> foreignTorrent \<Rightarrow> foreignTorrent \<times> (foreign_error + unit)" where
  "ForeignMarkNotComplete off len t = clear_bits (touched_bits t off (wrap64 (off + len))) t"

record ForeignCompletion =
  fcOk :: bool
  fcComplete :: bool
  fcErr :: "foreign_error option"

definition ForeignCompletion_of :: "foreignTorrent \<Rightarrow> int \<Rightarrow> int \<Rightarrow> ForeignCompletion" where
  "ForeignCompletion_of t off len =
     (case find (\<lambda>(_, st). frFailed st \<noteq> None) (ftStates t) of
        Some (_, st) \<Rightarrow> \<lparr>fcOk = True, fcComplete = False, fcErr = frFailed st\<rparr>
      | None \<Rightarrow>
          \<lparr>fcOk = True,
           fcComplete = list_all (\<lambda>(path, k). case map_of (ftStates t) path of
                                     None \<Rightarrow> False | Some st \<Rightarrow> bit_set st k)
                          (touched_bits t off (wrap64 (off + len))),
           fcErr = None\<rparr>)"

subsection \<open>Closing and waiting\<close>

definition close_foreign :: "put_env \<Rightarrow> string \<Rightarrow> ForeignStorage \<Rightarrow> ForeignStorage" where
  "close_foreign env key fs =
     (case map_of (fsOpen fs) key of
        None \<Rightarrow> fs
      | Some t \<Rightarrow>
          fs\<lparr>fsStore := fold (\<lambda>(_, st) s. case frPart st of
                                  Some (name, _) \<Rightarrow> if \<not> frSealed st then remove_file env name s else s
                                | None \<Rightarrow> s) (ftStates t) (fsStore fs),
             fsOpen := AList.delete key (fsOpen fs)\<rparr>)"

definition ForeignSealedCount :: "foreignTorrent \<Rightarrow> nat" where
  "ForeignSealedCount t = length (filter (\<lambda>(_, st). frSealed st) (ftStates t))"

definition SealedFiles :: "foreignTorrent \<Rightarrow> (string \<times> string) list" where
  "SealedFiles t = map (\<lambda>(path, st). (path, frDigest st)) (filter (\<lambda>(_, st). frSealed st) (ftStates t))"

text \<open>One turn of the waiting loop: a result, or wait for the next broadcast.\<close>

definition WaitSealedWanted :: "foreignTorrent \<Rightarrow> string list \<Rightarrow> (foreign_error + unit) option" where
  "WaitSealedWanted t wanted =
     (let doneN = length (filter (\<lambda>(path, st). frSealed st \<and> path \<in> set wanted) (ftStates t)) in
      case find (\<lambda>(_, st). frFailed st \<noteq> None) (ftStates t) of
        Some (_, st) \<Rightarrow> Some (Inl (AnchorFailed (the (frFailed st))))
      | None \<Rightarrow>
          if doneN \<ge> length (remdups wanted) then Some (Inr ())
          else if ftClosed t then Some (Inl (ClosedEarly (length (remdups wanted)) doneN))
          else None)"

text \<open>The pieces that overlap a sealed file.\<close>

definition piece_overlaps_sealed :: "foreignTorrent \<Rightarrow> int \<Rightarrow> nat \<Rightarrow> bool" where
  "piece_overlaps_sealed t tot i =
     (let b = wrap64 (int i * ftPieceLength t);
          e = (if wrap64 (b + ftPieceLength t) > tot then tot else wrap64 (b + ftPieceLength t)) in
      list_ex (\<lambda>f. case map_of (ftStates t) (rnPath f) of None \<Rightarrow> False | Some st \<Rightarrow> frSealed st)
        (filesInRange (ftFiles t) b e))"

definition VerifyPreSealed :: "foreignTorrent \<Rightarrow> v1_info \<Rightarrow> nat list" where
  "VerifyPreSealed t vi = filter (piece_overlaps_sealed t (viTotal vi)) [0..<viNumPieces vi]"

fun verify_foreign :: "(nat \<Rightarrow> bool) \<Rightarrow> (nat \<Rightarrow> bool) \<Rightarrow> nat list \<Rightarrow> foreign_error + unit" where
  "verify_foreign fails complete [] = Inr ()"
| "verify_foreign fails complete (i # is) =
     (if fails i then Inl (VerifyPiece i)
      else if \<not> complete i then Inl (PieceIncomplete i)
      else verify_foreign fails complete is)"

definition VerifySealed :: "(nat \<Rightarrow> bool) \<Rightarrow> (nat \<Rightarrow> bool) \<Rightarrow> foreignTorrent \<Rightarrow> v1_info \<Rightarrow> foreign_error + unit" where
  "VerifySealed fails complete t vi =
     verify_foreign fails complete (filter (piece_overlaps_sealed t (viTotal vi)) [0..<viNumPieces vi])"

subsection \<open>The driver as a step system\<close>

definition put_torrent :: "string \<Rightarrow> store \<Rightarrow> foreignTorrent \<Rightarrow> ForeignStorage \<Rightarrow> ForeignStorage" where
  "put_torrent key s t fs = fs\<lparr>fsStore := s, fsOpen := AList.update key t (fsOpen fs)\<rparr>"

inductive foreign_step :: "ForeignStorage \<Rightarrow> ForeignStorage \<Rightarrow> bool" where
  write_piece: "map_of (fsOpen fs) key = Some t \<Longrightarrow>
    ForeignWriteAt env off b pos (fsStore fs, t) = ((s', t'), r) \<Longrightarrow> foreign_step fs (put_torrent key s' t' fs)"
| complete: "map_of (fsOpen fs) key = Some t \<Longrightarrow>
    ForeignMarkComplete env off len (fsStore fs, t) = ((s', t'), r) \<Longrightarrow> foreign_step fs (put_torrent key s' t' fs)"
| not_complete: "map_of (fsOpen fs) key = Some t \<Longrightarrow>
    ForeignMarkNotComplete off len t = (t', r) \<Longrightarrow> foreign_step fs (put_torrent key (fsStore fs) t' fs)"
| register: "RegisterForeign ih files strict fs = (fs', r) \<Longrightarrow> foreign_step fs fs'"
| open_torrent: "OpenForeign env bad vi ih fs = Returns (fs', r) \<Longrightarrow> foreign_step fs fs'"
| close: "foreign_step fs (close_foreign env key fs)"
| others: "store_ok s' \<Longrightarrow> (\<And>d. present (fsStore fs) d \<Longrightarrow> present s' d) \<Longrightarrow> foreign_step fs (fs\<lparr>fsStore := s'\<rparr>)"

definition foreign_ok :: "store \<Rightarrow> foreignState \<Rightarrow> bool" where
  "foreign_ok s st \<longleftrightarrow>
     (\<forall>name c. frPart st = Some (name, c) \<longrightarrow> HasPrefix name ''incoming/'')
     \<and> (frSealed st \<longrightarrow> present s (frDigest st)
          \<and> (ffSHA256 (frAnchor st) \<noteq> [] \<longrightarrow> frDigest st = ffSHA256 (frAnchor st))
          \<and> (ffSHA256 (frAnchor st) = [] \<and> ffGitSHA1 (frAnchor st) \<noteq> [] \<longrightarrow>
               (\<exists>content. sha256_hex content = frDigest st \<and> git_blob_id content = ffGitSHA1 (frAnchor st))))"

definition torrent_ok :: "store \<Rightarrow> foreignTorrent \<Rightarrow> bool" where
  "torrent_ok s t \<longleftrightarrow> distinct (map fst (ftStates t)) \<and> (\<forall>p st. (p, st) \<in> set (ftStates t) \<longrightarrow> foreign_ok s st)"

definition foreign_inv :: "ForeignStorage \<Rightarrow> bool" where
  "foreign_inv fs \<longleftrightarrow> store_ok (fsStore fs) \<and> (\<forall>key t. map_of (fsOpen fs) key = Some t \<longrightarrow> torrent_ok (fsStore fs) t)
     \<and> distinct (map fst (fsOpen fs))"

lemma foreign_ok_keeps: "foreign_ok s st \<Longrightarrow> keeps s s' \<Longrightarrow> foreign_ok s' st"
  unfolding foreign_ok_def keeps_def by blast

lemma torrent_ok_keeps: "torrent_ok s t \<Longrightarrow> keeps s s' \<Longrightarrow> torrent_ok s' t"
  unfolding torrent_ok_def using foreign_ok_keeps by blast

lemma torrent_ok_state: "torrent_ok s t \<Longrightarrow> map_of (ftStates t) p = Some st \<Longrightarrow> foreign_ok s st"
  by (auto simp: torrent_ok_def dest: map_of_SomeD)

lemma torrent_ok_set_state:
  "torrent_ok s t \<Longrightarrow> foreign_ok s st \<Longrightarrow> torrent_ok s (set_state p st t)"
  by (auto simp: torrent_ok_def set_state_def distinct_update dest!: set_alist_update)

lemma write_share_keeps:
  assumes "write_share env f st pos k b (s, t) = ((s', t'), r)" and "torrent_ok s t" and "foreign_ok s st" and "\<not> frSealed st"
  shows "keeps s s' \<and> torrent_ok s' t'"
proof (cases "(case frPart st of Some p \<Rightarrow> Inr (p, s)
    | None \<Rightarrow> map_sum id (\<lambda>(name, s). ((name, []), s)) (newForeignPart env s))")
  case (Inl e)
  then show ?thesis using assms by (auto simp: write_share_def)
next
  case (Inr x)
  obtain name content s1 where x: "x = ((name, content), s1)" by (cases x) auto
  have n: "HasPrefix name ''incoming/''" and s1: "look s1 (blob_path d) = look s (blob_path d)" for d
    using Inr x assms(3) incoming_not_blob [of name d]
    by (auto simp: foreign_ok_def newForeignPart_def Let_def map_sum_Inr foreign_part_path_def incomingDir_def HasPrefix_def
        split: option.splits if_splits)
  have wf: "look (write_file env name c s1) (blob_path d) = look s (blob_path d)" for c d
    using s1 [of d] incoming_not_blob [OF n, of d] by (auto simp: write_file_def split: option.split)
  have k: "keeps s s1" "keeps s (write_file env name c s1)" for c
    using s1 wf by (auto intro: keeps_blobs)
  have ok: "torrent_ok s2 (set_state p (st\<lparr>frPart := Some (name, c)\<rparr>) t2)"
    if "torrent_ok s2 t2" for p c s2 t2
    using that n assms(4) by (intro torrent_ok_set_state) (auto simp: foreign_ok_def)
  show ?thesis
    using assms(1,2) Inr x k ok torrent_ok_keeps [OF assms(2)]
    by (auto simp: write_share_def Let_def split: if_splits)
qed

text \<open>One turn of the loop over the files in range.\<close>

lemma writeAtLocked_Nil [simp]: "writeAtLocked env pos [] (s, t) = ((s, t), Inr ())"
  by (simp add: writeAtLocked.simps)

lemma writeAtLocked_past:
  "b \<noteq> [] \<Longrightarrow> filesInRange (ftFiles t) pos (wrap64 (pos + int (length b))) = []
     \<Longrightarrow> writeAtLocked env pos b (s, t) = ((s, t), Inl (WritePast pos))"
  by (simp add: writeAtLocked.simps)

lemma writeAtLocked_turn:
  assumes "b \<noteq> []" and "filesInRange (ftFiles t) pos (wrap64 (pos + int (length b))) = f # fs"
  shows "writeAtLocked env pos b (s, t) =
    (let n = share f pos (length b); pos' = wrap64 (pos + n); env' = (\<lambda>i. env (Suc i)) in
     case map_of (ftStates t) (rnPath f) of
       None \<Rightarrow> ((s, t), Inl (NilState (rnPath f)))
     | Some st \<Rightarrow>
       (case frFailed st of
          Some e \<Rightarrow> ((s, t), Inl e)
        | None \<Rightarrow>
          if frSealed st then
            (if n \<le> 0 then ((s, t), Inl SlicePanic) else writeAtLocked env' pos' (drop (nat n) b) (s, t))
          else
            (case write_share (env 0) f st pos n b (s, t) of
               ((s, t), Inl e) \<Rightarrow> ((s, t), Inl e)
             | ((s, t), Inr _) \<Rightarrow> writeAtLocked env' pos' (drop (nat n) b) (s, t))))"
  using assms by (subst writeAtLocked.simps) (simp add: Let_def)

lemma writeAtLocked_keeps:
  "writeAtLocked env pos b (s, t) = ((s', t'), r) \<Longrightarrow> torrent_ok s t \<Longrightarrow> keeps s s' \<and> torrent_ok s' t'"
proof (induction "length b" arbitrary: env pos b s t rule: less_induct)
  case less
  note tok = less.prems(2)
  show ?case
  proof (cases "b = [] \<or> filesInRange (ftFiles t) pos (wrap64 (pos + int (length b))) = []")
    case True
    then show ?thesis using less.prems by (cases "b = []") (auto simp: writeAtLocked_past)
  next
    case False
    then obtain f fs where f: "b \<noteq> []" "filesInRange (ftFiles t) pos (wrap64 (pos + int (length b))) = f # fs"
      by (cases "filesInRange (ftFiles t) pos (wrap64 (pos + int (length b)))") auto
    let ?n = "share f pos (length b)"
    have small: "length (drop (nat ?n) b) < length b" if "0 < ?n" using that f(1) by simp
    note w = less.prems(1) [unfolded writeAtLocked_turn [OF f] Let_def]
    show ?thesis
    proof (cases "map_of (ftStates t) (rnPath f)")
      case None
      then show ?thesis using w tok by simp
    next
      case (Some st)
      have ok: "foreign_ok s st" using tok Some by (rule torrent_ok_state)
      show ?thesis
      proof (cases "frFailed st \<noteq> None \<or> frSealed st")
        case True
        then show ?thesis using w tok Some less.hyps [OF small] by (auto split: option.splits if_splits)
      next
        case False
        obtain s1 t1 r1 where ws: "write_share (env 0) f st pos ?n b (s, t) = ((s1, t1), r1)"
          by (metis surj_pair)
        then have k: "keeps s s1 \<and> torrent_ok s1 t1" using write_share_keeps tok ok False by blast
        show ?thesis
          using w ws k Some False less.hyps [OF small, of _ _ s1 t1] keeps_trans [of s s1 s'] write_share_done [of "env 0" f st]
          by (cases r1) auto
      qed
    qed
  qed
qed

lemma sealForeign_keeps:
  assumes "sealForeign env st s = ((s', st'), r)" and "foreign_ok s st" and "\<not> frSealed st"
  shows "keeps s s' \<and> foreign_ok s' st' \<and> foreign_ok s' (st'\<lparr>frFailed := e\<rparr>)"
proof (cases "frPart st")
  case None
  then show ?thesis using assms by (auto simp: sealForeign_def foreign_ok_def)
next
  case (Some nc)
  obtain name content where nc: "nc = (name, content)" by (cases nc)
  have n: "HasPrefix name ''incoming/''" using assms(2) Some nc by (simp add: foreign_ok_def)
  have rm: "look (remove_file env name s2) (blob_path d) = look s2 (blob_path d)" for s2 d
    using incoming_not_blob [OF n, of d] by (simp add: remove_file_def)
  have k: "keeps s2 (remove_file env name s2)" for s2 using rm by (rule keeps_blobs)
  obtain s1 res where put: "Put env (sha256_hex content) content s = (s1, res)"
    by (cases "Put env (sha256_hex content) content s")
  have kp: "keeps s s1" and pr: "res = Inr () \<Longrightarrow> present s1 (sha256_hex content)"
    using Put_frame [OF put] by (auto simp: keeps_def)
  have pr2: "present (remove_file env name s1) d = present s1 d" for d
    using present_cong [OF rm] by simp
  note tr = keeps_trans [OF kp k]
  consider (same) "s' = s" "st' = st"
    | (dropped) "s' = remove_file env name s" "st' = st\<lparr>frPart := None\<rparr>"
    | (failed) "s' = s1" "st' = st"
    | (sealed) "s' = remove_file env name s1" "st' = st\<lparr>frPart := None, frSealed := True, frDigest := sha256_hex content\<rparr>"
        "res = Inr ()" "ffSHA256 (frAnchor st) \<noteq> [] \<longrightarrow> sha256_hex content = ffSHA256 (frAnchor st)"
        "ffGitSHA1 (frAnchor st) \<noteq> [] \<longrightarrow> git_blob_id content = ffGitSHA1 (frAnchor st)"
    using assms(1) Some nc put
    by (auto simp: sealForeign_def Let_def drop_part_def split: if_splits sum.splits)
  then show ?thesis
  proof cases
    case sealed
    then show ?thesis using tr pr pr2 by (auto simp: foreign_ok_def)
  qed (use assms(2,3) k kp in \<open>auto simp: foreign_ok_def\<close>)
qed

lemma complete_bit_keeps:
  assumes "complete_bit env k st s = ((s', st'), r)" and "foreign_ok s st"
  shows "keeps s s' \<and> foreign_ok s' st'"
proof -
  have set: "foreign_ok s (set_bit_of k v st)" for v
    using assms(2) by (simp add: foreign_ok_def set_bit_of_def)
  obtain s1 st1 r1 where se: "sealForeign env (set_bit_of k True st) s = ((s1, st1), r1)" by (metis surj_pair)
  show ?thesis
    using assms set [of True] se sealForeign_keeps [OF se set]
    by (auto simp: complete_bit_def Let_def split: if_splits sum.splits)
qed

lemma complete_bits_keeps:
  "complete_bits env bs (s, t) = ((s', t'), r) \<Longrightarrow> torrent_ok s t \<Longrightarrow> keeps s s' \<and> torrent_ok s' t'"
proof (induction bs arbitrary: env s t)
  case (Cons x bs)
  obtain path k where x: "x = (path, k)" by (cases x)
  show ?case
  proof (cases "map_of (ftStates t) path")
    case None
    then show ?thesis using Cons x by simp
  next
    case (Some st)
    have ok: "foreign_ok s st" using Cons.prems(2) Some by (rule torrent_ok_state)
    obtain s1 st1 r1 where c: "complete_bit (env 0) k st s = ((s1, st1), r1)" by (metis surj_pair)
    have k: "keeps s s1" "foreign_ok s1 st1" using complete_bit_keeps [OF c ok] by auto
    then have "torrent_ok s1 (set_state path st1 t)"
      using torrent_ok_keeps [OF Cons.prems(2)] by (simp add: torrent_ok_set_state)
    then show ?thesis
      using Cons.prems(1) x Some c k Cons.IH [of "\<lambda>i. env (Suc i)" s1 "set_state path st1 t"] keeps_trans [of s s1 s']
      by (cases r1) auto
  qed
qed simp

lemma clear_bits_ok:
  "clear_bits bs t = (t', r) \<Longrightarrow> torrent_ok s t \<Longrightarrow> torrent_ok s t'"
proof (induction bs arbitrary: t)
  case (Cons x bs)
  obtain path k where x: "x = (path, k)" by (cases x)
  have "torrent_ok s (set_state path (set_bit_of k v st) t)" if "map_of (ftStates t) path = Some st" for st v
    using torrent_ok_state [OF Cons.prems(2) that] Cons.prems(2)
    by (intro torrent_ok_set_state) (auto simp: foreign_ok_def set_bit_of_def)
  then show ?case using Cons x by (auto split: option.splits if_splits)
qed simp

lemma open_empty_keeps:
  assumes "open_empty env bad path a s = (s', r)"
  shows "keeps s s' \<and> (\<forall>st. r = Inr st \<longrightarrow> foreign_ok s' st)"
proof -
  obtain s1 res where put: "Put env emptyContentSHA256 [] s = (s1, res)" by (metis surj_pair)
  show ?thesis
    using assms put Put_frame [OF put] Has_imp_present [of bad s emptyContentSHA256]
    by (auto simp: open_empty_def Let_def keeps_def foreign_ok_def split: if_splits sum.splits)
qed

lemma open_file_ok: "foreign_ok s (open_file bad path a len n s)"
  using Has_imp_present [of bad s "ffSHA256 a"] by (auto simp: open_file_def foreign_ok_def Let_def)

lemma open_files_keeps:
  "open_files env bad pl reg fis off t s = Returns (s', r) \<Longrightarrow> torrent_ok s t
     \<Longrightarrow> keeps s s' \<and> (\<forall>t'. r = Inr t' \<longrightarrow> torrent_ok s' t')"
proof (induction fis arbitrary: env off t s)
  case (Cons fi fis)
  have set: "torrent_ok s1 (t1\<lparr>ftStates := AList.update p st (ftStates t1)\<rparr>)"
    if "torrent_ok s1 t1" "foreign_ok s1 st" for s1 t1 p st
    using torrent_ok_set_state [OF that] by (simp add: set_state_def)
  define path where "path = slashJoin (ifPath fi)"
  define a where "a = (case map_of (rgFiles reg) path of None \<Rightarrow> no_anchor | Some a \<Rightarrow> a)"
  note o = Cons.prems(1) [unfolded open_files.simps Let_def, folded path_def, folded a_def]
  show ?case
  proof (cases "ifLength fi = 0")
    case True
    obtain s1 r1 where e: "open_empty (env 0) bad path a s = (s1, r1)" by (metis surj_pair)
    note k = open_empty_keeps [OF e]
    have "torrent_ok s1 t" using torrent_ok_keeps Cons.prems(2) k by blast
    then show ?thesis
      using o True e k Cons.prems(2) set [of s1 t] keeps_trans [of s s1 s']
        Cons.IH [of "\<lambda>i. env (Suc i)" off "t\<lparr>ftStates := AList.update path (projr r1) (ftStates t)\<rparr>" s1]
      by (auto split: if_splits sum.splits)
  next
    case False
    have ok: "torrent_ok s (t\<lparr>ftFiles := fs, ftStates := AList.update path (open_file bad path a len n s) (ftStates t)\<rparr>)" for fs len n
      using set [OF Cons.prems(2) open_file_ok] by (simp add: torrent_ok_def)
    show ?thesis
      using o False Cons.IH [OF _ ok] by (auto split: if_splits)
  qed
qed auto

lemma fold_keeps_blobs:
  assumes "\<And>x s. x \<in> set xs \<Longrightarrow> look (f x s) p = look s p"
  shows "look (fold f xs s) p = look s p"
  using assms by (induction xs arbitrary: s) auto

lemma close_foreign_keeps:
  assumes "map_of (fsOpen fs) key = Some t" and "torrent_ok (fsStore fs) t"
  shows "keeps (fsStore fs) (fsStore (close_foreign env key fs))"
proof (rule keeps_blobs)
  fix d
  have part: "look (case frPart st of Some (name, _) \<Rightarrow> if \<not> frSealed st then remove_file env name s else s | None \<Rightarrow> s)
      (blob_path d) = look s (blob_path d)" if "(p, st) \<in> set (ftStates t)" for p st s
  proof -
    have "foreign_ok (fsStore fs) st" using assms(2) that by (auto simp: torrent_ok_def)
    then show ?thesis using incoming_not_blob [of _ d]
      by (auto simp: foreign_ok_def remove_file_def split: option.split)
  qed
  show "look (fsStore (close_foreign env key fs)) (blob_path d) = look (fsStore fs) (blob_path d)"
    unfolding close_foreign_def using assms(1) part by (auto intro!: fold_keeps_blobs)
qed

lemma foreign_inv_put:
  assumes "foreign_inv fs" and "keeps (fsStore fs) s" and "torrent_ok s t"
  shows "foreign_inv (put_torrent key s t fs)"
  using assms torrent_ok_keeps [of "fsStore fs" _ s]
  by (auto simp: foreign_inv_def put_torrent_def keeps_def update_conv' distinct_update split: if_splits)

lemma foreign_inv_keeps:
  assumes "foreign_inv fs" and "keeps (fsStore fs) s"
  shows "foreign_inv (fs\<lparr>fsStore := s\<rparr>)"
  using assms torrent_ok_keeps [of "fsStore fs" _ s] by (auto simp: foreign_inv_def keeps_def)

lemma foreign_step_inv: "foreign_step fs fs' \<Longrightarrow> foreign_inv fs \<Longrightarrow> foreign_inv fs'"
proof (induction rule: foreign_step.induct)
  case (write_piece fs key t env off b pos s' t' r)
  then show ?case
    using writeAtLocked_keeps [of env "wrap64 (off + pos)" b "fsStore fs" t s' t' r] foreign_inv_put
    by (auto simp: ForeignWriteAt_def foreign_inv_def)
next
  case (complete fs key t env off len s' t' r)
  then show ?case
    using complete_bits_keeps [of env _ "fsStore fs" t s' t' r] foreign_inv_put
    by (auto simp: ForeignMarkComplete_def foreign_inv_def)
next
  case (not_complete fs key t off len t' r)
  then show ?case
    using clear_bits_ok [of _ t t' r "fsStore fs"] foreign_inv_put [of fs "fsStore fs" t']
    by (auto simp: ForeignMarkNotComplete_def foreign_inv_def)
next
  case (register ih files strict fs fs' r)
  then show ?case
    by (auto simp: RegisterForeign_def foreign_inv_def split: if_splits option.splits prod.splits)
next
  case (open_torrent env bad vi ih fs fs' r)
  show ?case
  proof (cases "fs' = fs")
    case True
    then show ?thesis using open_torrent by simp
  next
    case False
    obtain reg where reg: "map_of (fsReg fs) (hex_encode ih) = Some reg"
      using open_torrent(1) False by (auto simp: OpenForeign_def Let_def split: if_splits option.splits)
    obtain s' r' where n: "newForeignTorrent env bad (hex_encode ih) vi reg (fsStore fs) = Returns (s', r')"
      using open_torrent(1) False reg by (auto simp: OpenForeign_def Let_def split: if_splits panic.splits)
    have k: "keeps (fsStore fs) s' \<and> (\<forall>t'. r' = Inr t' \<longrightarrow> torrent_ok s' t')"
      using n unfolding newForeignTorrent_def by (rule open_files_keeps) (simp add: torrent_ok_def)
    then show ?thesis
      using open_torrent reg n False foreign_inv_put [of fs s'] foreign_inv_keeps [of fs s']
      by (auto simp: OpenForeign_def Let_def put_torrent_def split: if_splits sum.splits)
  qed
next
  case (close fs env key)
  show ?case
  proof (cases "map_of (fsOpen fs) key")
    case None
    then show ?thesis using close by (simp add: close_foreign_def)
  next
    case (Some t)
    then have k: "keeps (fsStore fs) (fsStore (close_foreign env key fs))"
      using close by (intro close_foreign_keeps) (auto simp: foreign_inv_def)
    have "foreign_inv (fs\<lparr>fsStore := fsStore (close_foreign env key fs)\<rparr>)"
      using close k by (rule foreign_inv_keeps)
    then show ?thesis using Some close
      by (auto simp: foreign_inv_def close_foreign_def AList.delete_conv' AList.distinct_delete split: if_splits)
  qed
next
  case (others s' fs)
  then show ?case by (intro foreign_inv_keeps) (auto simp: keeps_def foreign_inv_def)
qed

definition foreign_init :: "ForeignStorage \<Rightarrow> bool" where
  "foreign_init fs \<longleftrightarrow> store_ok (fsStore fs) \<and> fsReg fs = [] \<and> fsOpen fs = []"

interpretation foreign: step_system foreign_init foreign_step foreign_inv
proof unfold_locales
  show "foreign_inv t" if "foreign_inv s" "foreign_step s t" for s t
    by (rule foreign_step_inv [OF that(2,1)])
qed (simp add: foreign_init_def foreign_inv_def)

text \<open>
  C11: whatever the engine does with a community torrent, on whatever untrusted metadata and under
  whatever faults, the store keeps its integrity and every file that counts as sealed is what its
  anchor describes: its blob hashes to the recorded digest, that digest is the anchored one where
  the anchor has a SHA-256, and where the anchor only has a git id, content with that id and that
  digest was downloaded.
\<close>

theorem foreign_anchor_gate:
  assumes "foreign_init fs0" and "foreign_step\<^sup>*\<^sup>* fs0 fs"
    and "map_of (fsOpen fs) key = Some t" and "map_of (ftStates t) path = Some st" and "frSealed st"
  shows "store_ok (fsStore fs)
    \<and> (\<exists>f. look (fsStore fs) (blob_path (frDigest st)) = Some f \<and> sha256_hex (fContent f) = frDigest st)
    \<and> (ffSHA256 (frAnchor st) \<noteq> [] \<longrightarrow> frDigest st = ffSHA256 (frAnchor st))
    \<and> (ffSHA256 (frAnchor st) = [] \<and> ffGitSHA1 (frAnchor st) \<noteq> [] \<longrightarrow>
         (\<exists>content. sha256_hex content = frDigest st \<and> git_blob_id content = ffGitSHA1 (frAnchor st)))"
proof -
  have inv: "foreign_inv fs" using assms(1,2) by (rule foreign.reachable_inv)
  then have so: "store_ok (fsStore fs)" and "torrent_ok (fsStore fs) t"
    using assms(3) by (auto simp: foreign_inv_def)
  then have ok: "foreign_ok (fsStore fs) st" using assms(4) by (simp add: torrent_ok_state)
  then show ?thesis using present_content [OF so] so assms(5) unfolding foreign_ok_def by blast
qed

text \<open>A run: one pinned file of two bytes is opened, written and completed.\<close>

definition demo_pin :: "string \<Rightarrow> ForeignFile" where
  "demo_pin content = \<lparr>ffPath = ''w'', ffSize = 2, ffSHA256 = sha256_hex content, ffGitSHA1 = git_blob_id content\<rparr>"

definition demo_single :: "foreignState \<Rightarrow> foreignTorrent" where
  "demo_single st = \<lparr>ftKey = replicate 40 (CHR ''0''), ftPieceLength = 16384, ftStrict = True,
     ftFiles = [\<lparr>rnPath = ''w'', rnBegin = 0, rnEnd = 2\<rparr>], ftStates = [(''w'', st)], ftClosed = False\<rparr>"

lemma foreign_anchor_gate_witness:
  "\<exists>(fs :: ForeignStorage) (t :: foreignTorrent) (st :: foreignState). map_of (fsOpen fs) (replicate 40 (CHR ''0'')) = Some t \<and> map_of (ftStates t) ''w'' = Some st
    \<and> frSealed st \<and> frDigest st = sha256_hex ''hi''
    \<and> (\<exists>f. look (fsStore fs) (blob_path (sha256_hex ''hi'')) = Some f \<and> sha256_hex (fContent f) = sha256_hex ''hi'')"
proof -
  let ?k = "replicate 40 (CHR ''0'')" and ?env = "\<lambda>i. calm_env (replicate i (CHR ''1''))" and ?c = "''hi''"
  let ?d = "sha256_hex ?c"
  have d: "?d \<noteq> []" "length ?d = 64"
    using is_digest_sha256_hex [of ?c] by (metis is_digest_hex_def list.size(3) zero_neq_numeral)
      (metis is_digest_sha256_hex is_digest_hex_def)
  define reg where "reg = \<lparr>rgFiles = [(''w'', demo_pin ?c)], rgStrict = True\<rparr>"
  define fs0 where "fs0 = \<lparr>fsStore = empty_store, fsReg = [], fsOpen = []\<rparr>"
  define fs1 where "fs1 = fs0\<lparr>fsReg := [(?k, reg)]\<rparr>"
  define st1 where "st1 = \<lparr>frName = ''w'', frAnchor = demo_pin ?c, frPart = None, frSealed = False, frDigest = [],
      frFailed = None, frPieces = [False], frNumDone = 0\<rparr>"
  define vi where "vi = \<lparr>viHasV2 = False, viPieceLength = 16384,
      viFiles = [\<lparr>ifPath = [''w''], ifLength = 2, ifOffset = 0\<rparr>], viNumPieces = 1, viTotal = 2\<rparr>"
  have s1: "foreign_step fs0 fs1"
    by (rule foreign_step.register [of ?k "[(''w'', demo_pin ?c)]" True])
      (simp add: RegisterForeign_def demo_pin_def d fs0_def fs1_def reg_def)
  have nh: "\<not> Has (\<lambda>_. False) empty_store ?d"
    using Has_imp_present [of _ empty_store ?d] by (auto simp: present_def)
  define fs2 where "fs2 = fs1\<lparr>fsOpen := [(?k, demo_single st1)]\<rparr>"
  have "OpenForeign ?env (\<lambda>_. False) vi (replicate 20 (CHR 0x00)) fs1 = Returns (fs2, Inr ())"
    using nh by (simp add: OpenForeign_def vi_def fs1_def fs0_def fs2_def demo_key newForeignTorrent_def reg_def
        sort_by_def canonicalTorrentPath_def slashJoin_def Let_def demo_pin_def open_file_def st1_def demo_single_def
        int64_eval)
  then have s2: "foreign_step fs1 fs2" by (rule foreign_step.open_torrent)
  define n where "n = foreign_part_path (?env 0)"
  define store3 where "store3 = write_file (?env 0) n ?c (set_file n \<lparr>fContent = [], fMode = partMode, fTime = 0\<rparr> empty_store)"
  define st3 where "st3 = st1\<lparr>frPart := Some (n, ?c)\<rparr>"
  define fs3 where "fs3 = put_torrent ?k store3 (demo_single st3) fs2"
  have "ForeignWriteAt ?env 0 ?c 0 (fsStore fs2, demo_single st1) = ((store3, demo_single st3), Inr ())"
    by (simp add: ForeignWriteAt_def writeAtLocked_turn [where f = "\<lparr>rnPath = ''w'', rnBegin = 0, rnEnd = 2\<rparr>" and fs = "[]"]
        demo_single_def filesInRange_def share_def Let_def st1_def write_share_def newForeignPart_def set_state_def
        write_at_def st3_def store3_def n_def fs2_def fs1_def fs0_def wrap64_def)
  then have s3: "foreign_step fs2 fs3"
    unfolding fs3_def by (rule foreign_step.write_piece [rotated]) (simp add: fs2_def)
  have fresh: "look store3 (part_path (?env 0)) = None"
    by (simp add: store3_def n_def write_file_def part_path_def foreign_part_path_def incomingDir_def)
  obtain s4 where s4: "Put (?env 0) ?d ?c store3 = (s4, Inr ())"
    using Put_fresh [of "?env 0" store3 ?c] fresh by (cases "Put (?env 0) ?d ?c store3") simp
  define st4 where "st4 = st3\<lparr>frPieces := [True], frNumDone := 1, frPart := None, frSealed := True, frDigest := ?d\<rparr>"
  define fs4 where "fs4 = put_torrent ?k (remove_file (?env 0) n s4) (demo_single st4) fs3"
  have tb: "touched_bits (demo_single st3) 0 2 = [(''w'', 0)]"
    by (simp add: touched_bits_def demo_single_def filesInRange_def pieceBits_def int64_eval)
  have "ForeignMarkComplete ?env 0 2 (fsStore fs3, demo_single st3) = ((remove_file (?env 0) n s4, demo_single st4), Inr ())"
    using s4 by (simp add: ForeignMarkComplete_def tb fs3_def put_torrent_def wrap64_def)
      (simp add: demo_single_def complete_bit_def bit_set_def
        set_bit_of_def st3_def st1_def st4_def sealForeign_def Let_def demo_pin_def drop_part_def set_state_def)
  then have s4: "foreign_step fs3 fs4"
    unfolding fs4_def by (rule foreign_step.complete [rotated]) (simp add: fs3_def put_torrent_def fs2_def)
  have init: "foreign_init fs0" by (simp add: foreign_init_def fs0_def)
  have run: "foreign_step\<^sup>*\<^sup>* fs0 fs4"
    using s1 s2 s3 s4 by (meson converse_rtranclp_into_rtranclp rtranclp.rtrancl_refl)
  have at: "map_of (fsOpen fs4) ?k = Some (demo_single st4)"
    by (simp add: fs4_def fs3_def put_torrent_def fs2_def)
  have sealed: "map_of (ftStates (demo_single st4)) ''w'' = Some st4" "frSealed st4" "frDigest st4 = ?d"
    by (simp_all add: demo_single_def st4_def)
  show ?thesis
    using foreign_anchor_gate [OF init run at sealed(1,2)] at sealed
    by (intro exI [of _ fs4] exI [of _ "demo_single st4"] exI [of _ st4]) simp
qed

end
