(* ===== verification/ForeignLayout.thy ===== *)
theory ForeignLayout
  imports Foreign
begin

text \<open>
  The layout of a community torrent: the file ranges are contiguous, and each piece touches
  exactly one bit of every file it overlaps.
\<close>

subsection \<open>Contiguous ranges\<close>

fun contiguous :: "int \<Rightarrow> foreignFileRange list \<Rightarrow> bool" where
  "contiguous off [] = True"
| "contiguous off (f # fs) = (rnBegin f = off \<and> off < rnEnd f \<and> contiguous (rnEnd f) fs)"

fun stream_end :: "int \<Rightarrow> foreignFileRange list \<Rightarrow> int" where
  "stream_end off [] = off"
| "stream_end off (f # fs) = stream_end (rnEnd f) fs"

lemma contiguous_append:
  "contiguous off (fs @ gs) \<longleftrightarrow> contiguous off fs \<and> contiguous (stream_end off fs) gs"
  by (induction fs arbitrary: off) auto

lemma stream_end_append: "stream_end off (fs @ gs) = stream_end (stream_end off fs) gs"
  by (induction fs arbitrary: off) auto

lemma contiguous_bounds:
  "contiguous off fs \<Longrightarrow> off \<le> stream_end off fs"
  "contiguous off fs \<Longrightarrow> f \<in> set fs \<Longrightarrow> off \<le> rnBegin f \<and> rnBegin f < rnEnd f \<and> rnEnd f \<le> stream_end off fs"
  by (induction fs arbitrary: off) force+

lemma contiguous_begins_sorted: "contiguous off fs \<Longrightarrow> sorted_wrt (\<lambda>f g. rnEnd f \<le> rnBegin g) fs"
  by (induction fs arbitrary: off) (auto dest: contiguous_bounds(2))

lemma takeWhile_filter_sorted:
  "sorted_wrt R xs \<Longrightarrow> (\<And>x y. R x y \<Longrightarrow> P y \<Longrightarrow> P x) \<Longrightarrow> takeWhile P xs = filter P xs"
  by (induction xs) (auto intro!: filter_False [symmetric])

lemma filesInRange_contiguous:
  assumes "contiguous off fs"
  shows "filesInRange fs b e = filter (\<lambda>f. rnBegin f < e \<and> b < rnEnd f) fs"
proof -
  have "sorted_wrt (\<lambda>f g. rnEnd f \<le> rnBegin g \<and> rnBegin f < rnEnd f) fs"
    using assms by (induction fs arbitrary: off) (auto dest: contiguous_bounds(2))
  then have "takeWhile (\<lambda>f. rnBegin f < e) fs = filter (\<lambda>f. rnBegin f < e) fs"
    by (rule takeWhile_filter_sorted) auto
  then show ?thesis by (simp add: filesInRange_def conj_commute)
qed

lemma wrap64_nonneg: "0 \<le> k \<Longrightarrow> k < 2 ^ 63 \<Longrightarrow> wrap64 k = k"
  by (simp add: is_int64_def)

lemma div_le_self: "0 \<le> (k :: int) \<Longrightarrow> 0 < l \<Longrightarrow> k div l \<le> k"
  using zdiv_mono2 [of k 1 l] by simp

text \<open>Piece \<open>i\<close> covers the stream from \<open>i * pl\<close> up to \<open>e\<close>.\<close>

definition overlaps :: "int \<Rightarrow> int \<Rightarrow> foreignFileRange \<Rightarrow> bool" where
  "overlaps pl i f \<longleftrightarrow> rnBegin f div pl \<le> i \<and> i \<le> (rnEnd f - 1) div pl"

lemma le_div_iff: "0 < (p :: int) \<Longrightarrow> i \<le> y div p \<longleftrightarrow> i * p \<le> y"
proof
  assume p: "0 < p"
  show "i * p \<le> y" if "i \<le> y div p"
    using mult_right_mono [OF that, of p] p div_mult_mod_eq [of y p] pos_mod_sign [OF p, of y] by linarith
  show "i \<le> y div p" if "i * p \<le> y"
    using zdiv_mono1 [OF that p] p by simp
qed

lemma div_le_iff: "0 < (p :: int) \<Longrightarrow> x div p \<le> i \<longleftrightarrow> x < (i + 1) * p"
  using le_div_iff [of p "i + 1" x] by linarith

lemma in_range_overlaps:
  assumes "0 < pl" and "e = min ((i + 1) * pl) tot" and "rnEnd f \<le> tot" and "rnBegin f < rnEnd f"
  shows "rnBegin f < e \<and> i * pl < rnEnd f \<longleftrightarrow> overlaps pl i f"
  using assms div_le_iff [OF assms(1), of "rnBegin f" i] le_div_iff [OF assms(1), of i "rnEnd f - 1"]
  by (auto simp: overlaps_def min_def)

lemma piece_bit_exact:
  assumes "0 < pl" and "e = min ((i + 1) * pl) tot" and "rnEnd f \<le> tot" and "overlaps pl i f"
    and "0 \<le> rnBegin f" and "rnBegin f < rnEnd f" and "0 \<le> i" and "tot < 2 ^ 63"
  shows "pieceBits f (i * pl) e pl = (i, i)"
proof -
  have e: "rnBegin f < e" "i * pl < rnEnd f" using in_range_overlaps [OF assms(1-3,6)] assms(4) by auto
  have nn: "0 \<le> i * pl" using assms(1,7) by simp
  have "rnBegin f div pl = i" if "i * pl < rnBegin f"
    using that assms(1,4) le_div_iff [OF assms(1), of i "rnBegin f"] by (simp add: overlaps_def)
  moreover have "(rnEnd f - 1) div pl = i" if "rnEnd f < e"
    using that assms(1,2,4) div_le_iff [OF assms(1), of "rnEnd f - 1" i] by (simp add: overlaps_def)
  moreover have "(e - 1) div pl = i"
    using div_le_iff [OF assms(1), of "e - 1" i] le_div_iff [OF assms(1), of i "e - 1"] assms(1,2,3) e
    by (auto simp: algebra_simps)
  moreover have "e \<le> tot" using assms(2) by simp
  moreover have "i * pl div pl = i" using assms(1) by simp
  ultimately show ?thesis using assms(1,3,5,6,8) e nn
    by (simp add: pieceBits_def div64_nonneg wrap64_nonneg)
qed

lemma touched_bits_overlaps:
  assumes "contiguous 0 (ftFiles t)" and "0 < ftPieceLength t" and "0 \<le> i"
    and "e = min ((i + 1) * ftPieceLength t) (stream_end 0 (ftFiles t))" and "stream_end 0 (ftFiles t) < 2 ^ 63"
  shows "touched_bits t (i * ftPieceLength t) e =
      map (\<lambda>f. (rnPath f, i - rnBegin f div ftPieceLength t)) (filter (overlaps (ftPieceLength t) i) (ftFiles t))"
proof -
  let ?pl = "ftPieceLength t"
  have f: "0 \<le> rnBegin f" "rnBegin f < rnEnd f" "rnEnd f \<le> stream_end 0 (ftFiles t)" if "f \<in> set (ftFiles t)" for f
    using contiguous_bounds(2) [OF assms(1) that] by auto
  have fr: "filesInRange (ftFiles t) (i * ?pl) e = filter (overlaps ?pl i) (ftFiles t)"
    unfolding filesInRange_contiguous [OF assms(1)]
    by (rule filter_cong [OF refl]) (rule in_range_overlaps [OF assms(2,4)]; simp add: f)
  have "(let (lo, hi) = pieceBits g (i * ?pl) e ?pl
         in map (\<lambda>j. (rnPath g, wrap64 (j - div64 (rnBegin g) ?pl))) [lo..hi])
      = [(rnPath g, i - rnBegin g div ?pl)]" if g: "g \<in> set (filter (overlaps ?pl i) (ftFiles t))" for g
  proof -
    have o: "overlaps ?pl i g" and b: "0 \<le> rnBegin g" "rnBegin g < rnEnd g" "rnEnd g \<le> stream_end 0 (ftFiles t)"
      using g f [of g] by auto
    have "0 \<le> i - rnBegin g div ?pl" "i - rnBegin g div ?pl < 2 ^ 63"
      using o b assms(2,5) div_le_self [of "rnEnd g - 1" ?pl] pos_imp_zdiv_nonneg_iff [of ?pl "rnBegin g"]
      by (simp_all add: overlaps_def)
    then show ?thesis
      using piece_bit_exact [OF assms(2,4) b(3) o b(1,2) assms(3,5)] b assms(2,5)
      by (simp add: div64_nonneg wrap64_nonneg)
  qed
  then have "touched_bits t (i * ?pl) e = concat (map (\<lambda>g. [(rnPath g, i - rnBegin g div ?pl)]) (filter (overlaps ?pl i) (ftFiles t)))"
    unfolding touched_bits_def fr by (intro arg_cong [of _ _ concat] map_cong) auto
  then show ?thesis by simp
qed

subsection \<open>What opening establishes\<close>

text \<open>The ranges are contiguous, and each range has a state with one bit for each piece it overlaps.\<close>

definition layout_ok :: "foreignTorrent \<Rightarrow> bool" where
  "layout_ok t \<longleftrightarrow> contiguous 0 (ftFiles t) \<and> distinct (map rnPath (ftFiles t))
     \<and> (\<forall>f \<in> set (ftFiles t). \<exists>st. map_of (ftStates t) (rnPath f) = Some st
          \<and> int (length (frPieces st)) = (rnEnd f - 1) div ftPieceLength t - rnBegin f div ftPieceLength t + 1)"

lemma open_files_layout:
  assumes "open_files env bad pl reg fis off t s = Returns (s', Inr t')"
    and "ftPieceLength t = pl" and "0 < pl" and "\<forall>fi \<in> set fis. 0 \<le> ifLength fi" and "0 \<le> off"
    and "layout_ok t" and "off = stream_end 0 (ftFiles t)"
    and "distinct (map (\<lambda>fi. slashJoin (ifPath fi)) fis)"
    and "rnPath ` set (ftFiles t) \<inter> (\<lambda>fi. slashJoin (ifPath fi)) ` set fis = {}"
    and "off + sum_list (map ifLength fis) < 2 ^ 63"
  shows "layout_ok t' \<and> ftPieceLength t' = pl
    \<and> stream_end 0 (ftFiles t') = off + sum_list (map ifLength fis)"
  using assms
proof (induction fis arbitrary: env off t s)
  case (Cons fi fis)
  define path where "path = slashJoin (ifPath fi)"
  define a where "a = (case map_of (rgFiles reg) path of None \<Rightarrow> no_anchor | Some a \<Rightarrow> a)"
  note o = Cons.prems(1) [unfolded open_files.simps Let_def, folded path_def, folded a_def]
  have new: "path \<notin> rnPath ` set (ftFiles t)" using Cons.prems(9) by (auto simp: path_def)
  then have other: "rnPath f \<noteq> path" if "f \<in> set (ftFiles t)" for f using that by auto
  show ?case
  proof (cases "ifLength fi = 0")
    case True
    obtain s1 st where e: "open_empty (env 0) bad path a s = (s1, Inr st)"
      "open_files (\<lambda>i. env (Suc i)) bad pl reg fis off (t\<lparr>ftStates := AList.update path st (ftStates t)\<rparr>) s1 = Returns (s', Inr t')"
      using o True by (auto split: if_splits sum.splits prod.splits)
    show ?thesis
      using Cons.IH [OF e(2)] Cons.prems True other by (auto simp: layout_ok_def update_conv')
  next
    case False
    define fin where "fin = off + ifLength fi"
    define n where "n = (fin - 1) div pl - off div pl + 1"
    have len: "0 < ifLength fi" "off < fin" using Cons.prems(4) False by (auto simp: fin_def)
    have "0 \<le> sum_list (map ifLength fis)" using Cons.prems(4) by (intro sum_list_nonneg) auto
    then have fin: "fin < 2 ^ 63" using Cons.prems(10) by (simp add: fin_def)
    have ends: "0 \<le> off div pl" "off div pl \<le> (fin - 1) div pl" "(fin - 1) div pl \<le> fin - 1"
      using len Cons.prems(3,5) zdiv_mono1 [of off "fin - 1" pl] div_le_self [of "fin - 1" pl]
      by (auto simp: pos_imp_zdiv_nonneg_iff)
    have w: "wrap64 (off + ifLength fi) = fin"
      "wrap64 (wrap64 (div64 (wrap64 (fin - 1)) pl - div64 off pl) + 1) = n"
      using fin len Cons.prems(3,5) ends by (simp_all add: n_def wrap64_nonneg div64_nonneg flip: fin_def)
    define t1 where "t1 = t\<lparr>ftFiles := ftFiles t @ [\<lparr>rnPath = path, rnBegin = off, rnEnd = fin\<rparr>],
                 ftStates := AList.update path (open_file bad path a (ifLength fi) (nat n) s) (ftStates t)\<rparr>"
    have e: "open_files (\<lambda>i. env (Suc i)) bad pl reg fis fin t1 s = Returns (s', Inr t')"
      using o [unfolded w] False by (auto simp: t1_def split: if_splits)
    have n: "n = (fin - 1) div pl - off div pl + 1" "0 \<le> n" using ends by (auto simp: n_def)
    have t1: "ftPieceLength t1 = pl" "stream_end 0 (ftFiles t1) = fin"
      "rnPath ` set (ftFiles t1) \<inter> (\<lambda>fi. slashJoin (ifPath fi)) ` set fis = {}"
      using Cons.prems by (auto simp: t1_def stream_end_append path_def)
    have "layout_ok t1"
      using Cons.prems(2,6,7) len n new other
      by (auto simp: layout_ok_def t1_def contiguous_append open_file_def update_conv' Let_def)
    then show ?thesis
      using Cons.IH [OF e t1(1) Cons.prems(3)] Cons.prems t1 len by (auto simp: fin_def)
  qed
qed auto

definition open_layout :: "v1_info \<Rightarrow> bool" where
  "open_layout vi \<longleftrightarrow> 0 < viPieceLength vi \<and> (\<forall>fi \<in> set (viFiles vi). 0 \<le> ifLength fi)
     \<and> sum_list (map ifLength (viFiles vi)) < 2 ^ 63
     \<and> distinct (map (\<lambda>fi. slashJoin (ifPath fi)) (viFiles vi))"

lemma distinct_sort_by_map: "distinct (map h (sort_by l xs)) = distinct (map h xs)"
  by (rule mset_eq_imp_distinct_iff) simp

lemma sum_list_sort_by: "sum_list (map h (sort_by l xs)) = sum_list (map h xs :: int list)"
  by (simp flip: sum_mset_sum_list)

lemma newForeignTorrent_layout:
  assumes "newForeignTorrent env bad key vi reg s = Returns (s', Inr t)" and "open_layout vi"
  shows "layout_ok t \<and> ftPieceLength t = viPieceLength vi
    \<and> stream_end 0 (ftFiles t) = sum_list (map ifLength (viFiles vi))"
proof -
  have "layout_ok t \<and> ftPieceLength t = viPieceLength vi
    \<and> stream_end 0 (ftFiles t) = 0 + sum_list (map ifLength (sort_by (\<lambda>a b. ifOffset a < ifOffset b) (viFiles vi)))"
    by (rule open_files_layout [OF assms(1) [unfolded newForeignTorrent_def]])
      (use assms(2) in \<open>simp_all add: open_layout_def layout_ok_def distinct_sort_by_map sum_list_sort_by\<close>)
  then show ?thesis by (simp add: sum_list_sort_by)
qed

text \<open>
  C12: after a torrent with a positive piece length, non-negative lengths that sum to an \<open>int64\<close>,
  and distinct paths has been opened, each piece of the stream touches exactly the files it overlaps
  and one bit of each, the piece's index within the file, and that bit is inside the file's bit list:
  no \<open>int64\<close> sum wraps, no update is out of range, and a file has a bit for every piece that overlaps
  it. The code checks none of these conditions on the untrusted metadata; \<open>open_files_wraps\<close> below is
  a torrent whose lengths wrap the sum.
\<close>

theorem touched_bits_exact:
  assumes "newForeignTorrent env bad key vi reg s = Returns (s', Inr t)" and "open_layout vi"
    and "0 \<le> i" and "e = min ((i + 1) * viPieceLength vi) (sum_list (map ifLength (viFiles vi)))"
  shows "touched_bits t (i * viPieceLength vi) e =
      map (\<lambda>f. (rnPath f, i - rnBegin f div viPieceLength vi)) (filter (overlaps (viPieceLength vi) i) (ftFiles t))
    \<and> (\<forall>(path, k) \<in> set (touched_bits t (i * viPieceLength vi) e).
         \<exists>st. map_of (ftStates t) path = Some st \<and> 0 \<le> k \<and> k < int (length (frPieces st)))
    \<and> (\<forall>f \<in> set (ftFiles t). \<exists>st. map_of (ftStates t) (rnPath f) = Some st
         \<and> {k. 0 \<le> k \<and> k < int (length (frPieces st))}
             = {j - rnBegin f div viPieceLength vi | j. 0 \<le> j \<and> overlaps (viPieceLength vi) j f})"
proof -
  have l: "layout_ok t" and pl: "ftPieceLength t = viPieceLength vi" "0 < viPieceLength vi"
    and e: "stream_end 0 (ftFiles t) = sum_list (map ifLength (viFiles vi))" "stream_end 0 (ftFiles t) < 2 ^ 63"
    using newForeignTorrent_layout [OF assms(1,2)] assms(2) by (auto simp: open_layout_def)
  have c: "contiguous 0 (ftFiles t)" using l by (simp add: layout_ok_def)
  have tb: "touched_bits t (i * viPieceLength vi) e =
      map (\<lambda>f. (rnPath f, i - rnBegin f div viPieceLength vi)) (filter (overlaps (viPieceLength vi) i) (ftFiles t))"
    using touched_bits_overlaps [OF c, of i e] pl assms(3,4) e by simp
  have st: "\<exists>st. map_of (ftStates t) (rnPath f) = Some st
      \<and> int (length (frPieces st)) = (rnEnd f - 1) div viPieceLength vi - rnBegin f div viPieceLength vi + 1"
    if "f \<in> set (ftFiles t)" for f
    using l that pl by (auto simp: layout_ok_def)
  have nn: "0 \<le> rnBegin f div viPieceLength vi" if "f \<in> set (ftFiles t)" for f
    using contiguous_bounds(2) [OF c that] pl(2) by (simp add: pos_imp_zdiv_nonneg_iff)
  have bits: "{k. 0 \<le> k \<and> k < int (length (frPieces st))}
      = {j - rnBegin f div viPieceLength vi | j. 0 \<le> j \<and> overlaps (viPieceLength vi) j f}"
    if "f \<in> set (ftFiles t)"
      "int (length (frPieces st)) = (rnEnd f - 1) div viPieceLength vi - rnBegin f div viPieceLength vi + 1" for f st
  proof (intro set_eqI iffI)
    fix k assume "k \<in> {k. 0 \<le> k \<and> k < int (length (frPieces st))}"
    then show "k \<in> {j - rnBegin f div viPieceLength vi | j. 0 \<le> j \<and> overlaps (viPieceLength vi) j f}"
      using nn [OF that(1)] that(2)
      by (auto simp: overlaps_def intro!: exI [of _ "k + rnBegin f div viPieceLength vi"])
  qed (use that in \<open>auto simp: overlaps_def\<close>)
  have range: "\<exists>st. map_of (ftStates t) path = Some st \<and> 0 \<le> k \<and> k < int (length (frPieces st))"
    if tk: "(path, k) \<in> set (touched_bits t (i * viPieceLength vi) e)" for path k
  proof -
    obtain f where f: "f \<in> set (ftFiles t)" "overlaps (viPieceLength vi) i f" "path = rnPath f"
      "k = i - rnBegin f div viPieceLength vi"
      using tk unfolding tb by auto
    show ?thesis using st [OF f(1)] f by (auto simp: overlaps_def)
  qed
  have "\<exists>st. map_of (ftStates t) (rnPath f) = Some st
         \<and> {k. 0 \<le> k \<and> k < int (length (frPieces st))}
             = {j - rnBegin f div viPieceLength vi | j. 0 \<le> j \<and> overlaps (viPieceLength vi) j f}"
    if "f \<in> set (ftFiles t)" for f
    using st [OF that] bits [OF that] by blast
  then show ?thesis using tb range by blast
qed

definition demo_v1 :: v1_info where
  "demo_v1 = \<lparr>viHasV2 = False, viPieceLength = 4,
     viFiles = [\<lparr>ifPath = [''a''], ifLength = 3, ifOffset = 0\<rparr>, \<lparr>ifPath = [''b''], ifLength = 5, ifOffset = 3\<rparr>],
     viNumPieces = 2, viTotal = 8\<rparr>"

definition trust_reg :: foreignReg where
  "trust_reg = \<lparr>rgFiles = [], rgStrict = False\<rparr>"

definition demo_foreign :: foreignTorrent where
  "demo_foreign = \<lparr>ftKey = ''k'', ftPieceLength = 4, ftStrict = False,
     ftFiles = [\<lparr>rnPath = ''a'', rnBegin = 0, rnEnd = 3\<rparr>, \<lparr>rnPath = ''b'', rnBegin = 3, rnEnd = 8\<rparr>],
     ftStates = [(''a'', open_file (\<lambda>_. False) ''a'' no_anchor 3 1 empty_store),
                 (''b'', open_file (\<lambda>_. False) ''b'' no_anchor 5 2 empty_store)], ftClosed = False\<rparr>"

lemma demo_foreign_open:
  "newForeignTorrent env (\<lambda>_. False) ''k'' demo_v1 trust_reg empty_store = Returns (empty_store, Inr demo_foreign)"
  by (simp add: newForeignTorrent_def demo_v1_def trust_reg_def demo_foreign_def sort_by_def canonicalTorrentPath_def
      slashJoin_def Let_def wrap64_nonneg div64_nonneg)

text \<open>
  Without the bound on the lengths the sum wraps: two files of \<open>2^63 - 1\<close> and 5 bytes with pieces of
  \<open>2^62\<close> bytes give the second file a negative number of pieces, and opening the torrent panics.
\<close>

definition wrap_v1 :: v1_info where
  "wrap_v1 = \<lparr>viHasV2 = False, viPieceLength = 2 ^ 62,
     viFiles = [\<lparr>ifPath = [''a''], ifLength = 2 ^ 63 - 1, ifOffset = 0\<rparr>, \<lparr>ifPath = [''b''], ifLength = 5, ifOffset = 2 ^ 63 - 1\<rparr>],
     viNumPieces = 3, viTotal = 4 - 2 ^ 63\<rparr>"

lemma open_files_wraps: "newForeignTorrent env (\<lambda>_. False) ''k'' wrap_v1 trust_reg empty_store = Panics"
proof -
  have "wrap64 (9223372036854775807 + 5) = - 9223372036854775804" "wrap64 (- 9223372036854775805) = - 9223372036854775805"
    "wrap64 (- 2) = - 2" "wrap64 (- 1) = - 1" "div64 (- 9223372036854775805) 4611686018427387904 = - 1"
    by (code_simp)+
  then show ?thesis
    by (simp add: newForeignTorrent_def wrap_v1_def trust_reg_def sort_by_def canonicalTorrentPath_def
        slashJoin_def Let_def wrap64_nonneg div64_nonneg)
qed

text \<open>The second piece of two files of 3 and 5 bytes touches the second bit of the second file.\<close>

lemma touched_bits_exact_witness: "touched_bits demo_foreign 4 8 = [(''b'', 1)]"
proof -
  have "open_layout demo_v1" by (simp add: open_layout_def demo_v1_def slashJoin_def)
  from touched_bits_exact [OF demo_foreign_open this, of 1 8] show ?thesis
    by (simp add: demo_v1_def demo_foreign_def overlaps_def)
qed

end
