(* ===== verification/Classify.thy ===== *)
theory Classify
  imports Refs Text "HOL-Library.AList"
begin

text \<open>
  \<open>internal/importer/classify.go\<close> and \<open>quant.go\<close>: the classification of upstream files by name
  (default deny), the split and quant tokens of weights names, and the quant derivation chain. A
  source is its name and the outcome of opening and reading it. Regular expressions are written
  out as the character tests they stand for. The JSON decoder of the standard library appears as
  its result, the decoded document.
\<close>

subsection \<open>Paths\<close>

text \<open>\<open>path.Base\<close> and \<open>path.Ext\<close>.\<close>

definition PathBase :: "string \<Rightarrow> string" where
  "PathBase p =
     (if p = [] then ''.''
      else let s = rev (dropWhile (\<lambda>c. c = CHR ''/'') (rev p)) in
           if s = [] then ''/'' else last (split_on (CHR ''/'') s))"

definition PathExt :: "string \<Rightarrow> string" where
  "PathExt p =
     (case last_cut (CHR ''.'') (last (split_on (CHR ''/'') p)) of
        None \<Rightarrow> [] | Some (_, e) \<Rightarrow> CHR ''.'' # e)"

definition dirOf :: "string \<Rightarrow> string" where
  "dirOf name = (case last_cut (CHR ''/'') name of None \<Rightarrow> [] | Some (d, _) \<Rightarrow> d)"

definition path_base :: "string \<Rightarrow> string" where
  "path_base p = (case last_cut (CHR ''/'') p of None \<Rightarrow> p | Some (_, b) \<Rightarrow> b)"

subsection \<open>What is skipped\<close>

definition checkpointDir :: "string \<Rightarrow> bool" where
  "checkpointDir name =
     list_ex (\<lambda>seg. HasPrefix seg ''checkpoint-'' \<and> drop 11 seg \<noteq> [] \<and> list_all is_digit (drop 11 seg))
       (split_on (CHR ''/'') name)"

definition rngState :: "string \<Rightarrow> bool" where
  "rngState name =
     (let seg = last (split_on (CHR ''/'') name) in
      HasPrefix seg ''rng_state'' \<and> HasSuffix seg ''.pth'' \<and> length seg \<ge> 13)"

definition hasDirSeg :: "string \<Rightarrow> string list \<Rightarrow> bool" where
  "hasDirSeg name segs = list_ex (\<lambda>s. s \<in> set segs) (split_on (CHR ''/'') name)"

definition skip_dirs :: "string list" where
  "skip_dirs = [''training_state'', ''wandb'', ''runs'', ''logs'', ''assets'', ''.eval_results'', ''__pycache__'', ''benchmarks'']"

text \<open>Whether a file is skipped, and whether it is a licence file.\<close>

definition skipRule :: "string \<Rightarrow> bool \<times> bool" where
  "skipRule name =
     (let base = PathBase name; low = ToLower base in
      if checkpointDir name \<or> hasDirSeg name skip_dirs
         \<or> low \<in> set [''.gitattributes'', ''generation_config.json'', ''trainer_state.json'',
                       ''training_args.bin'', ''optimizer.pt'', ''scheduler.pt'']
         \<or> rngState name \<or> HasSuffix low ''.pyc'' \<or> HasPrefix base ''README''
      then (True, False)
      else if HasPrefix low ''license'' \<or> HasPrefix low ''licence'' \<or> low = ''copying''
      then (True, True)
      else (False, False))"

definition tokenizerSetFiles :: "string list" where
  "tokenizerSetFiles = [''tokenizer.json'', ''tokenizer_config.json'', ''special_tokens_map.json'',
     ''added_tokens.json'', ''preprocessor_config.json'', ''processor_config.json'']"

definition tokenizerSetMember :: "string \<Rightarrow> bool" where
  "tokenizerSetMember name =
     (let base = PathBase name in
      if base \<in> set tokenizerSetFiles then True
      else if HasPrefix base ''vocab.'' \<or> HasPrefix base ''merges.'' then True
      else HasSuffix base ''.model'' \<and> base \<noteq> ''adapter_model.safetensors'')"

definition codeFilePatterns :: "string list" where
  "codeFilePatterns = [''modeling_'', ''tokenization_'', ''configuration_'']"

definition code_role :: "string \<Rightarrow> string" where
  "code_role base =
     (if Contains base ''_processor'' then ''processor''
      else case find (HasPrefix base) codeFilePatterns of
             Some p \<Rightarrow> TrimSuffix p ''_''
           | None \<Rightarrow> [])"

subsection \<open>Split and quant tokens\<close>

definition is_sep :: "char \<Rightarrow> bool" where
  "is_sep c = (c = CHR ''-'' \<or> c = CHR ''_'')"

text \<open>The match of the split suffix: the text before it, and the five digits of the part.\<close>

definition splitSuffix :: "string \<Rightarrow> (string \<times> string) option" where
  "splitSuffix n =
     (let k = length n; long = drop (k - 15) n; short = drop (k - 6) n in
      if 15 \<le> k \<and> is_sep (hd long) \<and> list_all is_digit (take 5 (drop 1 long))
         \<and> take 4 (drop 6 long) = ''-of-'' \<and> list_all is_digit (drop 10 long)
      then Some (take (k - 15) n, take 5 (drop 1 long))
      else if 6 \<le> k \<and> is_sep (hd short) \<and> list_all is_digit (drop 1 short)
      then Some (take (k - 6) n, drop 1 short)
      else None)"

definition strip_split :: "string \<Rightarrow> string \<times> nat" where
  "strip_split n =
     (case splitSuffix n of Some (front, digits) \<Rightarrow> (front, digits_value 0 digits) | None \<Rightarrow> (n, 0))"

definition splitGGUF :: "string \<Rightarrow> string \<times> nat \<times> string" where
  "splitGGUF base =
     (let (n, part) = strip_split (TrimSuffix base ''.gguf'');
          tokens = split_on (CHR ''-'') n;
          cand = (\<lambda>t. join_with ''-'' (drop (length tokens - t) tokens)) in
      case find (\<lambda>t. QuantSyntax (cand t)) (rev [1..<Suc (length tokens)]) of
        Some t \<Rightarrow> (join_with ''-'' (take (length tokens - t) tokens), part, cand t)
      | None \<Rightarrow> (n, part, []))"

definition splitSafetensors :: "string \<Rightarrow> string \<times> nat" where
  "splitSafetensors base = strip_split (TrimSuffix base ''.safetensors'')"

subsection \<open>Licences\<close>

definition is_space :: "char \<Rightarrow> bool" where
  "is_space c = (c \<in> {CHR '' '', CHR 0x09, CHR 0x0A, CHR 0x0C, CHR 0x0D})"

text \<open>The first place where the SPDX tag is followed by a word.\<close>

fun spdx_find :: "string \<Rightarrow> string option" where
  "spdx_find [] = None"
| "spdx_find (c # cs) =
     (let word = takeWhile (\<lambda>c. \<not> is_space c) (dropWhile is_space (drop 24 (c # cs))) in
      if HasPrefix (c # cs) ''SPDX-License-Identifier:'' \<and> word \<noteq> [] then Some word else spdx_find cs)"

definition extractLicense :: "string \<Rightarrow> string \<Rightarrow> string \<times> string" where
  "extractLicense name b =
     (if length b > 64 * 1024 then (name, [])
      else case spdx_find b of Some w \<Rightarrow> (name, w) | None \<Rightarrow> (name, []))"

subsection \<open>The classification\<close>

record Source =
  srName :: string
  srRead :: "string option"

record entry =
  enName :: string
  enKind :: string
  enPart :: nat
  enRole :: string
  enCodeRole :: string
  enGroup :: string
  enQuant :: string
  enRead :: "string option"
  enTokenizer :: "string list"
  enAdapterFiles :: "string list"
  enAdapterSource :: "(string \<times> string option) list"

definition blank_entry :: entry where
  "blank_entry = \<lparr>enName = [], enKind = [], enPart = 0, enRole = [], enCodeRole = [], enGroup = [],
     enQuant = [], enRead = None, enTokenizer = [], enAdapterFiles = [], enAdapterSource = []\<rparr>"

datatype import_warning =
    WarnNonLora | WarnChat string string | WarnPeft string | WarnQuant string

record classification =
  clEntries :: "entry list"
  clSkipped :: nat
  clWarnings :: "import_warning list"
  clUpstream :: string
  clLicenseName :: string
  clLicenseSPDX :: string

text \<open>The classification in progress, with the loop's collections. An adapter pair is its files.\<close>

record cstate = classification +
  csTokenizer :: "string list"
  csChat :: "string list"
  csAdapters :: "(string \<times> (string \<times> string option) list) list"

definition cstate0 :: cstate where
  "cstate0 = \<lparr>clEntries = [], clSkipped = 0, clWarnings = [], clUpstream = [], clLicenseName = [],
     clLicenseSPDX = [], csTokenizer = [], csChat = [], csAdapters = []\<rparr>"

definition add_entry :: "entry \<Rightarrow> cstate \<Rightarrow> cstate" where
  "add_entry e c = c\<lparr>clEntries := clEntries c @ [e]\<rparr>"

definition skip_one :: "cstate \<Rightarrow> cstate" where
  "skip_one c = c\<lparr>clSkipped := Suc (clSkipped c)\<rparr>"

definition adapterAdd :: "Source \<Rightarrow> cstate \<Rightarrow> cstate" where
  "adapterAdd src c =
     (let dir = dirOf (srName src);
          old = (case map_of (csAdapters c) dir of None \<Rightarrow> [] | Some fs \<Rightarrow> fs) in
      c\<lparr>csAdapters := AList.update dir (old @ [(srName src, srRead src)]) (csAdapters c)\<rparr>)"

definition skip_license :: "Source \<Rightarrow> cstate \<Rightarrow> cstate" where
  "skip_license src c =
     (case srRead src of
        Some b \<Rightarrow>
          (let (n, spdx) = extractLicense (PathBase (srName src)) b in
           c\<lparr>clLicenseName := n, clLicenseSPDX := spdx\<rparr>)
      | None \<Rightarrow> c)"

definition gguf_entry :: "Source \<Rightarrow> entry" where
  "gguf_entry src =
     (let name = srName src; base = PathBase name; low = ToLower base;
          e = blank_entry\<lparr>enName := name, enRead := srRead src\<rparr> in
      if HasPrefix low ''mmproj'' then e\<lparr>enKind := ''weights.aux'', enRole := ''vision-projector''\<rparr>
      else if HasPrefix low ''imatrix'' then e\<lparr>enKind := ''weights.aux'', enRole := ''imatrix''\<rparr>
      else
        let (stamm, part, quant) = splitGGUF base in
        e\<lparr>enKind := ''weights.gguf'', enPart := part, enQuant := quant,
          enGroup := quant @ [CHR 0x00] @ stamm\<rparr>)"

definition safetensors_entry :: "Source \<Rightarrow> entry" where
  "safetensors_entry src =
     (let (stamm, part) = splitSafetensors (PathBase (srName src)) in
      blank_entry\<lparr>enName := srName src, enRead := srRead src, enKind := ''weights.safetensors'',
        enPart := part, enGroup := ''st'' @ [CHR 0x00] @ stamm\<rparr>)"

text \<open>Where a file goes that is neither skipped by rule nor a configuration.\<close>

definition place :: "Source \<Rightarrow> cstate \<Rightarrow> cstate" where
  "place src c =
     (let name = srName src; base = PathBase name; low = ToLower base;
          e = blank_entry\<lparr>enName := name, enRead := srRead src\<rparr> in
      if Contains low ''imatrix'' \<and> \<not> HasSuffix low ''.gguf''
      then add_entry (e\<lparr>enKind := ''weights.aux'', enRole := ''imatrix''\<rparr>) c
      else if HasPrefix low ''mmproj'' \<and> \<not> HasSuffix low ''.gguf''
      then add_entry (e\<lparr>enKind := ''weights.aux'', enRole := ''vision-projector''\<rparr>) c
      else if HasSuffix low ''.gguf'' then add_entry (gguf_entry src) c
      else if HasSuffix low ''.safetensors''
      then (if base = ''adapter_model.safetensors'' then adapterAdd src c
            else add_entry (safetensors_entry src) c)
      else if base = ''model.safetensors.index.json''
      then add_entry (e\<lparr>enKind := ''weights.aux'', enRole := ''weights-index''\<rparr>) c
      else if base = ''adapter_config.json'' then adapterAdd src c
      else if base \<in> set [''chat_template.jinja'', ''chat_template.json'', ''chat_template'']
      then c\<lparr>csChat := csChat c @ [name]\<rparr>
      else if tokenizerSetMember name then c\<lparr>csTokenizer := csTokenizer c @ [name]\<rparr>
      else if HasSuffix low ''.py''
      then (if code_role base = [] then skip_one c
            else add_entry (e\<lparr>enKind := ''code'', enCodeRole := code_role base\<rparr>) c)
      else if base = ''non_lora_trainables.bin''
      then (skip_one c)\<lparr>clWarnings := clWarnings c @ [WarnNonLora]\<rparr>
      else skip_one c)"

text \<open>One turn of the loop; the only error is an unreadable root \<open>config.json\<close>.\<close>

definition classify_one :: "Source \<Rightarrow> cstate \<Rightarrow> cstate option" where
  "classify_one src c =
     (let name = srName src; (skip, isLicense) = skipRule name in
      if skip then
        (let c = skip_one c in
         Some (if isLicense \<and> clLicenseSPDX c = [] then skip_license src c else c))
      else if PathBase name = ''config.json'' then
        (if name \<noteq> ''config.json'' then Some (skip_one c)
         else case srRead src of None \<Rightarrow> None | Some b \<Rightarrow> Some (c\<lparr>clUpstream := b\<rparr>))
      else Some (place src c))"

fun classify_loop :: "Source list \<Rightarrow> cstate \<Rightarrow> cstate option" where
  "classify_loop [] c = Some c"
| "classify_loop (s # ss) c = (case classify_one s c of None \<Rightarrow> None | Some c \<Rightarrow> classify_loop ss c)"

definition sourceByName :: "Source list \<Rightarrow> string \<Rightarrow> string option" where
  "sourceByName sources n = (case find (\<lambda>s. srName s = n) sources of None \<Rightarrow> None | Some s \<Rightarrow> srRead s)"

definition sort_strings :: "string list \<Rightarrow> string list" where
  "sort_strings = sort_by (<)"

definition add_tokenizer :: "cstate \<Rightarrow> cstate" where
  "add_tokenizer c =
     (if csTokenizer c = [] then c
      else add_entry (blank_entry\<lparr>enName := ''tokenizer.tar'', enKind := ''tokenizer'',
             enTokenizer := sort_strings (csTokenizer c)\<rparr>) c)"

text \<open>Of several chat templates one is kept: the last \<open>.jinja\<close> of the sorted names, else the first.\<close>

definition kept_chat :: "string list \<Rightarrow> string" where
  "kept_chat names =
     (let jinja = filter (\<lambda>n. PathBase n = ''chat_template.jinja'') names in
      if jinja = [] then hd names else last jinja)"

definition add_chat :: "Source list \<Rightarrow> cstate \<Rightarrow> cstate" where
  "add_chat sources c =
     (let names = (if length (csChat c) > 1 then sort_strings (csChat c) else csChat c);
          kept = kept_chat names;
          dropped = (if length names > 1 then filter (\<lambda>n. n \<noteq> kept) names else []);
          chosen = (if length names > 1 then [kept] else names);
          c = c\<lparr>clSkipped := clSkipped c + length dropped,
                clWarnings := clWarnings c @ map (WarnChat kept) dropped\<rparr> in
      fold (\<lambda>n. add_entry (blank_entry\<lparr>enName := n, enKind := ''chat-template'', enRead := sourceByName sources n\<rparr>))
        chosen c)"

definition adapter_tar :: "string \<Rightarrow> string" where
  "adapter_tar dir = (if dir = [] then ''adapter.tar'' else dir @ ''/adapter.tar'')"

definition add_adapter :: "string \<times> (string \<times> string option) list \<Rightarrow> cstate \<Rightarrow> cstate" where
  "add_adapter p c =
     (let (dir, fs) = p; names = sort_strings (map fst fs) in
      if \<not> list_ex (\<lambda>n. PathBase n = ''adapter_model.safetensors'') names
         \<or> \<not> list_ex (\<lambda>n. PathBase n = ''adapter_config.json'') names
      then c\<lparr>clSkipped := clSkipped c + length names, clWarnings := clWarnings c @ [WarnPeft dir]\<rparr>
      else add_entry (blank_entry\<lparr>enName := adapter_tar dir, enKind := ''adapter'', enAdapterFiles := names,
             enAdapterSource := fs\<rparr>) c)"

definition add_adapters :: "cstate \<Rightarrow> cstate" where
  "add_adapters c = fold add_adapter (sort_by (\<lambda>a b. fst a < fst b) (csAdapters c)) c"

definition classify :: "Source list \<Rightarrow> classification option" where
  "classify sources =
     (case classify_loop sources cstate0 of
        None \<Rightarrow> None
      | Some c \<Rightarrow> Some (classification.truncate (add_adapters (add_chat sources (add_tokenizer c)))))"

subsection \<open>The quant chain\<close>

text \<open>The part of an upstream \<open>config.json\<close> and of a safetensors header that is read.\<close>

record quant_config =
  qcMethod :: string
  qcFormat :: string

record upstream_config =
  ucModelType :: string
  ucMaxPositions :: int
  ucQuant :: "quant_config option"

definition quantToken :: "string \<Rightarrow> string" where
  "quantToken base = snd (snd (splitGGUF base))"

definition QuantFromUpstreamConfig :: "upstream_config option \<Rightarrow> string" where
  "QuantFromUpstreamConfig c =
     (case c of None \<Rightarrow> [] | Some uc \<Rightarrow>
      (case ucQuant uc of None \<Rightarrow> [] | Some q \<Rightarrow>
         (case find (\<lambda>v. v \<noteq> [] \<and> QuantSyntax (ToLower v)) [qcFormat q, qcMethod q] of
            Some v \<Rightarrow> ToLower v | None \<Rightarrow> [])))"

type_synonym tensor_header = "(string \<times> string \<times> int list) list"

fun dtype_bytes :: "tensor_header \<Rightarrow> (string \<times> int) list \<Rightarrow> (string \<times> int) list" where
  "dtype_bytes [] acc = acc"
| "dtype_bytes ((k, dt, offs) # h) acc =
     (if k = ''__metadata__'' \<or> length offs \<noteq> 2 then dtype_bytes h acc
      else
        let d = ToUpper dt; old = (case map_of acc d of None \<Rightarrow> 0 | Some n \<Rightarrow> n) in
        dtype_bytes h (AList.update d (wrap64 (old + wrap64 (offs ! 1 - offs ! 0))) acc))"

definition dtype_quant :: "string \<Rightarrow> string" where
  "dtype_quant dt =
     (if dt = ''BF16'' then ''bf16'' else if dt = ''F16'' then ''f16'' else if dt = ''F32'' then ''f32'' else [])"

definition DominantDtype :: "tensor_header option \<Rightarrow> string" where
  "DominantDtype h =
     (case h of None \<Rightarrow> [] | Some h \<Rightarrow>
      (let names = sort_by (\<lambda>a b. if snd a \<noteq> snd b then snd a > snd b else fst a < fst b) (dtype_bytes h []) in
       case find (\<lambda>dn. dtype_quant (fst dn) \<noteq> []) names of
         Some dn \<Rightarrow> dtype_quant (fst dn) | None \<Rightarrow> []))"

text \<open>The whole chain: the quant and the warning it leaves, if any.\<close>

definition DeriveQuant :: "string \<Rightarrow> upstream_config option \<Rightarrow> tensor_header option \<Rightarrow> string \<times> import_warning list" where
  "DeriveQuant filename upstream header =
     (if quantToken filename \<noteq> [] then (quantToken filename, [])
      else if QuantFromUpstreamConfig upstream \<noteq> [] then (QuantFromUpstreamConfig upstream, [])
      else if DominantDtype header \<noteq> [] then (DominantDtype header, [])
      else
        (''raw'',
         case upstream of None \<Rightarrow> [] | Some uc \<Rightarrow>
           (case ucQuant uc of None \<Rightarrow> [] | Some q \<Rightarrow>
              (let v = (if qcFormat q = [] then qcMethod q else qcFormat q) in
               if v \<noteq> [] then [WarnQuant (ToLower v)] else []))))"

subsection \<open>Every source is accounted for\<close>

text \<open>The source names an entry stands for.\<close>

definition members_of :: "entry \<Rightarrow> string list" where
  "members_of e =
     (if enKind e = ''tokenizer'' then enTokenizer e
      else if enKind e = ''adapter'' then enAdapterFiles e else [enName e])"

definition covered :: "entry list \<Rightarrow> string multiset" where
  "covered es = mset (concat (map members_of es))"

definition adapter_names :: "(string \<times> (string \<times> string option) list) list \<Rightarrow> string multiset" where
  "adapter_names al = mset (concat (map (\<lambda>(_, fs). map fst fs) al))"

text \<open>All names the classification in progress holds, apart from the skipped ones.\<close>

definition held :: "cstate \<Rightarrow> string multiset" where
  "held c = covered (clEntries c) + mset (csTokenizer c) + mset (csChat c) + adapter_names (csAdapters c)"

definition config_count :: "Source list \<Rightarrow> nat" where
  "config_count ss = length (filter (\<lambda>s. srName s = ''config.json'') ss)"

lemma covered_append [simp]: "covered (es @ fs) = covered es + covered fs"
  by (simp add: covered_def)

lemma covered_single [simp]: "covered [e] = mset (members_of e)"
  by (simp add: covered_def)

lemma covered_Nil [simp]: "covered [] = {#}"
  by (simp add: covered_def)

lemma adapter_names_update:
  "adapter_names (AList.update d ((case map_of al d of None \<Rightarrow> [] | Some fs \<Rightarrow> fs) @ [x]) al)
     = add_mset (fst x) (adapter_names al)"
  by (induction al) (auto simp: adapter_names_def)

lemma held_add_entry [simp]: "held (add_entry e c) = held c + mset (members_of e)"
  by (simp add: held_def add_entry_def)

lemma held_frame [simp]:
  "held (skip_one c) = held c" "clSkipped (skip_one c) = Suc (clSkipped c)" "clSkipped (add_entry e c) = clSkipped c"
  "held (skip_license src c) = held c" "clSkipped (skip_license src c) = clSkipped c"
  "held (c\<lparr>clUpstream := b\<rparr>) = held c" "held (c\<lparr>clWarnings := w\<rparr>) = held c"
  by (auto simp: held_def skip_one_def add_entry_def skip_license_def split: option.split prod.split)

lemma held_adapterAdd [simp]:
  "held (adapterAdd src c) = add_mset (srName src) (held c)" "clSkipped (adapterAdd src c) = clSkipped c"
  using adapter_names_update [of "dirOf (srName src)" "csAdapters c" "(srName src, srRead src)"]
  by (simp_all add: adapterAdd_def held_def Let_def)

lemma members_of_source [simp]:
  "members_of (gguf_entry src) = [srName src]" "members_of (safetensors_entry src) = [srName src]"
  by (auto simp: gguf_entry_def safetensors_entry_def members_of_def blank_entry_def Let_def split: prod.split)

lemma members_of_kinds:
  "members_of (blank_entry\<lparr>enName := n, enRead := r, enKind := ''weights.aux'', enRole := x\<rparr>) = [n]"
  "members_of (blank_entry\<lparr>enName := n, enRead := r, enKind := ''code'', enCodeRole := x\<rparr>) = [n]"
  "members_of (blank_entry\<lparr>enName := n, enKind := ''chat-template'', enRead := r\<rparr>) = [n]"
  "members_of (blank_entry\<lparr>enName := n, enKind := ''tokenizer'', enTokenizer := ts\<rparr>) = ts"
  "members_of (blank_entry\<lparr>enName := n, enKind := ''adapter'', enAdapterFiles := ts, enAdapterSource := fs\<rparr>) = ts"
  by (simp_all add: members_of_def blank_entry_def)

lemma config_not_skipped: "skipRule ''config.json'' = (False, False)" "PathBase ''config.json'' = ''config.json''"
  by code_simp+

lemma held_lists:
  "held (c\<lparr>csChat := csChat c @ [n]\<rparr>) = add_mset n (held c)"
  "held (c\<lparr>csTokenizer := csTokenizer c @ [n]\<rparr>) = add_mset n (held c)"
  "clSkipped (c\<lparr>clWarnings := w\<rparr>) = clSkipped c"
  by (simp_all add: held_def)

lemma place_accounts:
  "(held (place src c) = add_mset (srName src) (held c) \<and> clSkipped (place src c) = clSkipped c)
   \<or> (held (place src c) = held c \<and> clSkipped (place src c) = Suc (clSkipped c))"
  by (simp add: place_def Let_def members_of_kinds held_lists)

text \<open>A source is held, or counted as skipped, or is the root configuration.\<close>

lemma classify_one_accounts:
  assumes "classify_one src c = Some c'"
  shows "(held c' = add_mset (srName src) (held c) \<and> clSkipped c' = clSkipped c \<and> srName src \<noteq> ''config.json'')
    \<or> (held c' = held c \<and> clSkipped c' = Suc (clSkipped c) \<and> srName src \<noteq> ''config.json'')
    \<or> (held c' = held c \<and> clSkipped c' = clSkipped c \<and> srName src = ''config.json'')"
proof -
  have "srName src \<noteq> ''config.json''" if "fst (skipRule (srName src)) \<or> PathBase (srName src) \<noteq> ''config.json''"
    using that config_not_skipped by auto
  then show ?thesis using assms place_accounts [of src c]
    by (auto simp: classify_one_def Let_def split: prod.splits if_splits option.splits)
qed

lemma classify_loop_accounts:
  "classify_loop ss c = Some c' \<Longrightarrow>
     \<exists>hs. held c' = held c + hs \<and> hs \<subseteq># mset (map srName ss)
       \<and> clSkipped c' + size hs + config_count ss = clSkipped c + length ss"
proof (induction ss arbitrary: c)
  case (Cons s ss)
  obtain c1 where c1: "classify_one s c = Some c1" "classify_loop ss c1 = Some c'"
    using Cons.prems by (auto split: option.splits)
  obtain hs where hs: "held c' = held c1 + hs" "hs \<subseteq># mset (map srName ss)"
    "clSkipped c' + size hs + config_count ss = clSkipped c1 + length ss"
    using Cons.IH [OF c1(2)] by blast
  have sub: "hs \<subseteq># mset (map srName (s # ss))"
    using hs(2) subset_mset.order_trans [OF hs(2), of "mset (map srName (s # ss))"] by simp
  from classify_one_accounts [OF c1(1)] show ?case
  proof (elim disjE conjE)
    assume "held c1 = add_mset (srName s) (held c)" "clSkipped c1 = clSkipped c" "srName s \<noteq> ''config.json''"
    then show ?thesis using hs by (intro exI [of _ "add_mset (srName s) hs"]) (simp add: config_count_def)
  qed (use hs sub in \<open>auto simp: config_count_def\<close>)
qed (simp add: config_count_def)

lemma fold_add_entry:
  "clEntries (fold (\<lambda>n. add_entry (f n)) ns c) = clEntries c @ map f ns"
  "clSkipped (fold (\<lambda>n. add_entry (f n)) ns c) = clSkipped c"
  "csAdapters (fold (\<lambda>n. add_entry (f n)) ns c) = csAdapters c"
  by (induction ns arbitrary: c) (simp_all add: add_entry_def)

lemma kept_chat_in: "names \<noteq> [] \<Longrightarrow> kept_chat names \<in> set names"
proof -
  assume "names \<noteq> []"
  moreover have "last (filter P names) \<in> set names" if "filter P names \<noteq> []" for P
    using last_in_set [OF that] by simp
  ultimately show ?thesis by (simp add: kept_chat_def Let_def)
qed

lemma sort_strings_mset [simp]: "mset (sort_strings xs) = mset xs" "set (sort_strings xs) = set xs"
  "length (sort_strings xs) = length xs"
  by (simp_all add: sort_strings_def)

lemma add_tokenizer_frame:
  "covered (clEntries (add_tokenizer c)) = covered (clEntries c) + mset (csTokenizer c)
   \<and> clSkipped (add_tokenizer c) = clSkipped c \<and> csChat (add_tokenizer c) = csChat c
   \<and> csAdapters (add_tokenizer c) = csAdapters c"
  by (simp add: add_tokenizer_def add_entry_def members_of_kinds)

lemma filter_kept: "distinct ns \<Longrightarrow> k \<in> set ns \<Longrightarrow> add_mset k (mset (filter (\<lambda>n. n \<noteq> k) ns)) = mset ns"
  by (induction ns) (auto simp: filter_mset_eq_conv)

lemma distinct_submset:
  assumes "mset xs \<subseteq># mset ys" and "distinct ys"
  shows "distinct xs"
proof -
  obtain zs where "mset ys = mset (xs @ zs)"
    using assms(1) by (metis ex_mset mset_append subset_mset.le_iff_add)
  then show ?thesis using assms(2) mset_eq_imp_distinct_iff [of ys "xs @ zs"] by simp
qed

lemma length_filter_sort_strings:
  "length (filter P (sort_strings xs)) = size (filter_mset P (mset xs))"
  by (metis mset_filter size_mset sort_strings_mset(1))

lemma add_chat_frame:
  assumes "distinct (csChat c)"
  shows "\<exists>dropped. covered (clEntries (add_chat sources c)) + dropped = covered (clEntries c) + mset (csChat c)
    \<and> clSkipped (add_chat sources c) = clSkipped c + size dropped \<and> csAdapters (add_chat sources c) = csAdapters c"
proof (cases "length (csChat c) > 1")
  case False
  have "covered (map (\<lambda>n. blank_entry\<lparr>enName := n, enKind := ''chat-template'', enRead := r n\<rparr>) ns) = mset ns" for r ns
    by (induction ns) (simp_all add: covered_def members_of_kinds)
  then show ?thesis using False
    by (intro exI [of _ "{#}"]) (simp add: add_chat_def Let_def fold_add_entry)
next
  case True
  let ?ns = "sort_strings (csChat c)"
  have "?ns \<noteq> []" using True by (metis length_0_conv not_less_zero sort_strings_mset(3))
  then have k: "kept_chat ?ns \<in> set ?ns" by (rule kept_chat_in)
  have "distinct ?ns" using assms by (metis mset_eq_imp_distinct_iff sort_strings_mset(1))
  then have "add_mset (kept_chat ?ns) (mset (filter (\<lambda>n. n \<noteq> kept_chat ?ns) ?ns)) = mset (csChat c)"
    using filter_kept k by (metis sort_strings_mset(1))
  then show ?thesis using True
    by (intro exI [of _ "mset (filter (\<lambda>n. n \<noteq> kept_chat ?ns) ?ns)"])
      (simp add: add_chat_def Let_def add_entry_def members_of_kinds length_filter_sort_strings)
qed

lemma fold_add_adapter:
  "\<exists>dropped. covered (clEntries (fold add_adapter ps c)) + dropped = covered (clEntries c) + adapter_names ps
    \<and> clSkipped (fold add_adapter ps c) = clSkipped c + size dropped"
proof (induction ps arbitrary: c)
  case (Cons p ps)
  obtain dir fs where p: "p = (dir, fs)" by (cases p)
  obtain d1 where d1: "covered (clEntries (add_adapter p c)) + d1 = covered (clEntries c) + mset (map fst fs)"
    "clSkipped (add_adapter p c) = clSkipped c + size d1"
  proof (cases "clEntries (add_adapter p c) = clEntries c")
    case True
    then show thesis using that [of "mset (map fst fs)"] by (auto simp: p add_adapter_def Let_def add_entry_def split: if_splits)
  next
    case False
    then show thesis using that [of "{#}"]
      by (auto simp: p add_adapter_def Let_def add_entry_def members_of_kinds split: if_splits)
  qed
  obtain d2 where d2: "covered (clEntries (fold add_adapter ps (add_adapter p c))) + d2
      = covered (clEntries (add_adapter p c)) + adapter_names ps"
    "clSkipped (fold add_adapter ps (add_adapter p c)) = clSkipped (add_adapter p c) + size d2"
    using Cons.IH by blast
  have "covered (clEntries (fold add_adapter ps (add_adapter p c))) + (d2 + d1)
      = covered (clEntries (add_adapter p c)) + d1 + adapter_names ps"
    using d2(1) by (metis add.assoc add.commute)
  also have "\<dots> = covered (clEntries c) + adapter_names (p # ps)"
    using d1(1) by (simp add: p adapter_names_def add.assoc)
  finally show ?case using d1(2) d2(2) by (intro exI [of _ "d2 + d1"]) simp
qed (simp add: adapter_names_def)

lemma adapter_names_sort: "adapter_names (sort_by lt al) = adapter_names al"
proof -
  have "adapter_names xs = (\<Sum>p\<in>#mset xs. mset (map fst (snd p)))" for xs
    by (induction xs) (auto simp: adapter_names_def)
  then show ?thesis by simp
qed

text \<open>
  The classification accounts for every source exactly once: a file stands in one entry (as
  itself, in the tokenizer archive or in an adapter archive), or is counted as skipped, or is the
  root configuration; no file is lost, none is used twice, and no entry names a file that was not
  among the sources.
\<close>

lemma classify_accounts:
  assumes "classify sources = Some c" and "distinct (map srName sources)"
  shows "covered (clEntries c) \<subseteq># mset (map srName sources)
    \<and> distinct (concat (map members_of (clEntries c)))
    \<and> clSkipped c + length (concat (map members_of (clEntries c))) + config_count sources = length sources"
proof -
  obtain c1 where c1: "classify_loop sources cstate0 = Some c1"
    and c: "c = classification.truncate (add_adapters (add_chat sources (add_tokenizer c1)))"
    using assms(1) by (auto simp: classify_def split: option.splits)
  obtain hs where hs: "held c1 = hs" "hs \<subseteq># mset (map srName sources)"
    "clSkipped c1 + size hs + config_count sources = length sources"
    using classify_loop_accounts [OF c1] by (auto simp: cstate0_def held_def adapter_names_def)
  have "mset (csChat c1) \<subseteq># mset (map srName sources)"
    using hs(1,2) subset_mset.order_trans [of "mset (csChat c1)" hs] by (force simp: held_def)
  then have dc: "distinct (csChat (add_tokenizer c1))"
    using assms(2) add_tokenizer_frame [of c1] distinct_submset by metis
  note tk = add_tokenizer_frame [of c1]
  obtain d1 where d1: "covered (clEntries (add_chat sources (add_tokenizer c1))) + d1
      = covered (clEntries (add_tokenizer c1)) + mset (csChat c1)"
    "clSkipped (add_chat sources (add_tokenizer c1)) = clSkipped c1 + size d1"
    "csAdapters (add_chat sources (add_tokenizer c1)) = csAdapters c1"
    using add_chat_frame [OF dc, of sources] tk by auto
  let ?c3 = "add_chat sources (add_tokenizer c1)"
  obtain d2 where d2: "covered (clEntries (add_adapters ?c3)) + d2 = covered (clEntries ?c3) + adapter_names (csAdapters c1)"
    "clSkipped (add_adapters ?c3) = clSkipped ?c3 + size d2"
    using fold_add_adapter [of "sort_by (\<lambda>a b. fst a < fst b) (csAdapters ?c3)" ?c3] d1(3)
    by (auto simp: add_adapters_def adapter_names_sort)
  have tot: "covered (clEntries c) + (d1 + d2) = hs"
  proof -
    have "covered (clEntries c) + d2 + d1 = covered (clEntries ?c3) + d1 + adapter_names (csAdapters c1)"
      using d2(1) by (simp add: c classification.defs add.assoc add.commute [of d1])
    also have "\<dots> = hs" using d1(1) tk hs(1) by (simp add: held_def add.assoc)
    finally show ?thesis by (simp add: add.assoc add.commute [of d1])
  qed
  then have sub: "covered (clEntries c) \<subseteq># hs" by (metis mset_subset_eq_add_left)
  have sk: "clSkipped c = clSkipped c1 + size (d1 + d2)" using d1(2) d2(2) by (simp add: c classification.defs)
  have "size (covered (clEntries c)) + size (d1 + d2) = size hs" using tot by (metis size_union)
  then have "clSkipped c + size (covered (clEntries c)) + config_count sources = length sources"
    using sk hs(3) by linarith
  moreover have "covered (clEntries c) \<subseteq># mset (map srName sources)"
    using sub hs(2) by (rule subset_mset.order_trans)
  moreover from this have "distinct (concat (map members_of (clEntries c)))"
    using assms(2) distinct_submset unfolding covered_def by blast
  ultimately show ?thesis by (simp add: covered_def)
qed

definition demo_sources :: "Source list" where
  "demo_sources = map (\<lambda>n. \<lparr>srName = n, srRead = Some ''x''\<rparr>)
     [''README.md'', ''config.json'', ''m-q8_0.gguf'', ''tokenizer.json'', ''vocab.json'']"

lemma classify_accounts_witness:
  "\<exists>c. classify demo_sources = Some c
    \<and> clSkipped c + length (concat (map members_of (clEntries c))) + config_count demo_sources = 5"
proof -
  have "classify demo_sources \<noteq> None" by code_simp
  then obtain c where c: "classify demo_sources = Some c" by blast
  have "distinct (map srName demo_sources)" "length demo_sources = 5" by code_simp+
  then show ?thesis using classify_accounts [OF c] c by auto
qed

subsection \<open>Reading back split and quant tokens\<close>

definition five_digits :: "nat \<Rightarrow> string" where
  "five_digits k = map (\<lambda>e. ''0123456789'' ! (k div 10 ^ e mod 10)) [4, 3, 2, 1, 0]"

lemma five_digits_facts:
  "length (five_digits k) = 5" "list_all is_digit (five_digits k)"
  using digit_char by (simp_all add: five_digits_def del: nth_Cons_numeral)

lemma digits_value_five:
  assumes "k < 100000"
  shows "digits_value 0 (five_digits k) = k"
proof -
  have v: "of_char (''0123456789'' ! (m mod 10)) - 48 = m mod 10" for m :: nat
    using digit_char [of "m mod 10"] by simp
  have "k = 10 * (k div 10) + k mod 10" "k div 10 = 10 * (k div 100) + k div 10 mod 10"
    "k div 100 = 10 * (k div 1000) + k div 100 mod 10" "k div 1000 = 10 * (k div 10000) + k div 1000 mod 10"
    using mult_div_mod_eq [of 10 k] mult_div_mod_eq [of 10 "k div 10"] mult_div_mod_eq [of 10 "k div 100"]
      mult_div_mod_eq [of 10 "k div 1000"]
    by (simp_all flip: div_mult2_eq)
  moreover have "k div 10000 mod 10 = k div 10000" using assms by simp
  moreover have "digits_value 0 (five_digits k) = 10 * (10 * (10 * (10 * (10 * 0 + k div 10 ^ 4 mod 10)
      + k div 10 ^ 3 mod 10) + k div 10 ^ 2 mod 10) + k div 10 ^ 1 mod 10) + k div 10 ^ 0 mod 10"
    unfolding five_digits_def list.map digits_value.simps v ..
  ultimately show ?thesis by simp
qed

lemma splitSuffix_numbered:
  assumes "is_sep c"
  shows "splitSuffix (front @ c # five_digits k @ ''-of-'' @ five_digits n) = Some (front, five_digits k)"
  using assms five_digits_facts [of k] five_digits_facts [of n] by (simp add: splitSuffix_def Let_def)

lemma find_rev_upt:
  "1 \<le> m \<Longrightarrow> m \<le> N \<Longrightarrow> P m \<Longrightarrow> (\<And>t. m < t \<Longrightarrow> t \<le> N \<Longrightarrow> \<not> P t) \<Longrightarrow> find P (rev [1..<Suc N]) = Some m"
proof (induction N)
  case (Suc N)
  then show ?case by (cases "m = Suc N") auto
qed simp

definition gguf_front :: "string list \<Rightarrow> string \<Rightarrow> string" where
  "gguf_front ts quant = (if ts = [] then quant else join_with ''-'' ts @ ''-'' @ quant)"

text \<open>No suffix run of the tokens longer than the quant itself is a quant.\<close>

definition longest_quant :: "string list \<Rightarrow> string \<Rightarrow> bool" where
  "longest_quant ts quant \<longleftrightarrow>
     (\<forall>t \<in> set ts. CHR ''-'' \<notin> set t) \<and> QuantSyntax quant
     \<and> (\<forall>i < length ts. \<not> QuantSyntax (gguf_front (drop i ts) quant))"

lemma split_gguf_front:
  "(\<forall>t \<in> set ts. CHR ''-'' \<notin> set t) \<Longrightarrow>
     split_on (CHR ''-'') (gguf_front ts quant) = ts @ split_on (CHR ''-'') quant"
  by (induction ts) (auto simp: gguf_front_def join_with_Cons split_on_append split: if_splits)

lemma splitGGUF_front:
  assumes "longest_quant ts quant" and "strip_split n = (gguf_front ts quant, part)"
  shows "splitGGUF (n @ ''.gguf'') = (join_with ''-'' ts, part, quant)"
proof -
  let ?q = "split_on (CHR ''-'') quant" and ?tk = "ts @ split_on (CHR ''-'') quant"
  define cand where "cand t = join_with ''-'' (drop (length ?tk - t) ?tk)" for t
  have tok: "split_on (CHR ''-'') (gguf_front ts quant) = ?tk"
    using assms(1) by (simp add: longest_quant_def split_gguf_front)
  have "?q \<noteq> []" by simp
  then have len: "1 \<le> length ?q" by (metis One_nat_def Suc_leI length_greater_0_conv)
  have cq: "cand (length ?q) = quant" by (simp add: cand_def join_split)
  have "\<not> QuantSyntax (cand t)" if "length ?q < t" "t \<le> length ?tk" for t
  proof -
    let ?i = "length ?tk - t"
    have i: "?i < length ts" using that by auto
    then have "cand t = gguf_front (drop ?i ts) quant"
      by (simp add: cand_def gguf_front_def join_with_append join_split)
    then show ?thesis using assms(1) i by (simp add: longest_quant_def)
  qed
  then have "find (\<lambda>t. QuantSyntax (cand t)) (rev [1..<Suc (length ?tk)]) = Some (length ?q)"
    using assms(1) cq len by (intro find_rev_upt) (auto simp: longest_quant_def)
  then have f: "find (\<lambda>t. QuantSyntax (join_with ''-'' (drop (length ?tk - t) ?tk))) (rev [1..<Suc (length ?tk)]) = Some (length ?q)"
    by (simp add: cand_def [abs_def])
  show ?thesis
    using f cq [unfolded cand_def] by (simp add: splitGGUF_def assms(2) tok Let_def del: upt_Suc rev.simps)
qed



text \<open>
  The vocabulary accepts any lower-case word that starts with \<open>q\<close> or \<open>f\<close> and has a digit, and
  the longest run wins, so a plain lower-case model name is swallowed by its quant: the same
  weights under a capitalised name have the quant \<open>q8_0\<close>. The stem is lost too, and the family
  falls back to the whole file name.
\<close>

lemma splitGGUF_swallows_name:
  "splitGGUF ''qwen3-8b-q8_0.gguf'' = ([], 0, ''qwen3-8b-q8_0'')
   \<and> splitGGUF ''Qwen3-8b-q8_0.gguf'' = (''Qwen3-8b'', 0, ''q8_0'')
   \<and> splitGGUF ''falcon-7b-q4_0.gguf'' = ([], 0, ''falcon-7b-q4_0'')
   \<and> DeriveQuant ''qwen3-8b-q8_0.gguf'' None None = (''qwen3-8b-q8_0'', [])"
  by code_simp

lemma find_SomeD: "find P xs = Some x \<Longrightarrow> P x"
  by (auto simp: find_Some_iff)

text \<open>
  C14: every derived quant is in the vocabulary of the reference grammar, so the index member of
  an import can be selected by its quant; a warning is left exactly when the fallback is taken
  although the upstream configuration names a quantisation.
\<close>

theorem DeriveQuant_in_vocabulary:
  "QuantSyntax (fst (DeriveQuant filename upstream header))
   \<and> (snd (DeriveQuant filename upstream header) \<noteq> [] \<longleftrightarrow>
        quantToken filename = [] \<and> QuantFromUpstreamConfig upstream = [] \<and> DominantDtype header = []
        \<and> (\<exists>uc q. upstream = Some uc \<and> ucQuant uc = Some q \<and> \<not> (qcFormat q = [] \<and> qcMethod q = [])))"
proof -
  have 1: "QuantSyntax (quantToken filename)" if "quantToken filename \<noteq> []"
    using that by (auto simp: quantToken_def splitGGUF_def Let_def dest: find_SomeD simp del: upt_Suc
        split: prod.splits option.splits)
  have 2: "QuantSyntax (QuantFromUpstreamConfig upstream)" if "QuantFromUpstreamConfig upstream \<noteq> []"
    using that by (auto simp: QuantFromUpstreamConfig_def split: option.splits if_splits)
  have vocab: "QuantSyntax ''bf16''" "QuantSyntax ''f16''" "QuantSyntax ''f32''" "QuantSyntax ''raw''" by code_simp+
  then have "QuantSyntax (dtype_quant d)" if "dtype_quant d \<noteq> []" for d
    using that by (auto simp: dtype_quant_def)
  moreover have "DominantDtype header = [] \<or> (\<exists>d. DominantDtype header = dtype_quant d)"
    by (auto simp: DominantDtype_def Let_def split: option.split)
  ultimately have 3: "QuantSyntax (DominantDtype header)" if "DominantDtype header \<noteq> []"
    using that by metis
  show ?thesis
    using 1 2 3 vocab(4) by (auto simp: DeriveQuant_def Let_def split: option.splits if_splits)
qed

end
