(* ===== verification/Importer.thy ===== *)
theory Importer
  imports Classify Seal CasState
begin

text \<open>
  \<open>internal/importer/importer.go\<close>, \<open>modelconfig.go\<close>, \<open>tar.go\<close> and \<open>local.go\<close>: the import pipeline
  from classified sources to a published index. Content is held in memory; the store is written
  blob by blob, then the distribution link of each artifact, and the namespace last. The third-party
  codec, the JSON decoders and the archive writer of the standard library, and the outcome of each
  system call are arguments.
\<close>

subsection \<open>Options, environment and results\<close>

record ImportOptions =
  opAs :: string
  opHFRepo :: string
  opHFRevision :: string

record modelConfig =
  mcFamily :: string
  mcWeightsFormat :: string
  mcQuantization :: string
  mcSelfContained :: bool
  mcContextLength :: int
  mcLicense :: string
  mcSource :: "(string \<times> string) option"
  mcLlamaCtx :: "int option"

text \<open>
  The environment: \<open>iePut g i\<close> is what the \<open>i\<close>-th blob write of group \<open>g\<close> meets, \<open>ieFault g\<close> the
  state write of the group; the index and the namespace are the write of the number of groups.
\<close>

record import_env =
  ieCodec :: codec
  ieConfig :: "modelConfig \<Rightarrow> string + string"
  ieUpstream :: "string \<Rightarrow> upstream_config option"
  ieHeader :: "string \<Rightarrow> tensor_header option"
  ieTar :: "(string \<times> string) list \<Rightarrow> string"
  iePut :: "nat \<Rightarrow> nat \<Rightarrow> put_env"
  ieFault :: "nat \<Rightarrow> syscall \<Rightarrow> bool"
  ieBad :: "string \<Rightarrow> bool"
  ieCancelled :: "nat \<Rightarrow> bool"

datatype import_error =
    ErrNoFiles | ErrNotImportable | ReadConfig | Cancelled | ReadMember string string | ReadEntry string
  | QuantConflict string string string | ConfigErr string | SealFailed seal_error | SealPanic
  | PutFailed string cas_error | LinkFailed cas_error
  | StateFailed cas_error | IndexMissing string | IndexOpen string | IndexDecode string string
  | IndexCorrupt string validation_error | IndexCanon string | MergedInvalid validation_error
  | NamespaceFailed cas_error

record ArtifactInfo =
  aiManifest :: string
  aiQuant :: string
  aiRecord :: string
  aiPieceLayers :: string

record ImportResult =
  irIndexDigest :: string
  irMembers :: "IndexMember list"
  irArtifacts :: "ArtifactInfo list"
  irWarnings :: "import_warning list"
  irSkipped :: nat

subsection \<open>Content\<close>

definition blob_of :: "(string \<times> string) list \<Rightarrow> string \<Rightarrow> string" where
  "blob_of blobs name = (case map_of blobs name of None \<Rightarrow> [] | Some b \<Rightarrow> b)"

definition buildDeterministicTar :: "((string \<times> string) list \<Rightarrow> string) \<Rightarrow> (string \<times> string) list \<Rightarrow> string" where
  "buildDeterministicTar tar contents = tar (sort_by (\<lambda>a b. fst a < fst b) contents)"

fun read_members :: "string \<Rightarrow> (string \<Rightarrow> string) \<Rightarrow> (string \<Rightarrow> string option) \<Rightarrow> string list \<Rightarrow> (string \<times> string) list
    \<Rightarrow> import_error + (string \<times> string) list" where
  "read_members kind key read [] acc = Inr acc"
| "read_members kind key read (n # ns) acc =
     (case read n of
        None \<Rightarrow> Inl (ReadMember kind n)
      | Some b \<Rightarrow> read_members kind key read ns (AList.update (key n) b acc))"

definition entry_content :: "import_env \<Rightarrow> Source list \<Rightarrow> entry \<Rightarrow> import_error + string" where
  "entry_content ie sources e =
     (if enKind e = ''tokenizer'' then
        map_sum id (buildDeterministicTar (ieTar ie))
          (read_members ''tokenizer'' id (sourceByName sources) (enTokenizer e) [])
      else if enKind e = ''adapter'' then
        map_sum id (buildDeterministicTar (ieTar ie))
          (read_members ''adapter'' path_base
             (\<lambda>n. case map_of (enAdapterSource e) n of None \<Rightarrow> None | Some r \<Rightarrow> r) (enAdapterFiles e) [])
      else case enRead e of None \<Rightarrow> Inl (ReadEntry (enName e)) | Some b \<Rightarrow> Inr b)"

fun ingest :: "import_env \<Rightarrow> Source list \<Rightarrow> nat \<Rightarrow> entry list \<Rightarrow> (string \<times> string) list
    \<Rightarrow> import_error + (string \<times> string) list" where
  "ingest ie sources i [] blobs = Inr blobs"
| "ingest ie sources i (e # es) blobs =
     (if ieCancelled ie i then Inl Cancelled
      else case entry_content ie sources e of
             Inl err \<Rightarrow> Inl err
           | Inr b \<Rightarrow> ingest ie sources (Suc i) es (AList.update (enName e) b blobs))"

definition safetensorsHeaderBytes :: "string \<Rightarrow> string" where
  "safetensorsHeaderBytes b =
     (if length b < 8 then []
      else
        let n = foldr (\<lambda>c acc. of_char c + 256 * acc) (take 8 b) (0 :: nat) in
        if n = 0 \<or> n > length b - 8 \<or> n > 100 * 2 ^ 20 then [] else take n (drop 8 b))"

subsection \<open>Manifest entries\<close>

definition fileFromBytes :: "string \<Rightarrow> string \<Rightarrow> (string \<times> string) list \<Rightarrow> File" where
  "fileFromBytes name kind blobs =
     (let b = blob_of blobs name in
      \<lparr>fKind = kind, fDigest = Digest b, fSize = int (length b), fName = name, fPart = None, fRole = [],
       fVariant = [], fRuntime = [], fAdapterType = [], fCodeRole = [],
       fMerkleRoot = ''sha256:'' @ hex_encode (MerkleRoot b)\<rparr>)"

definition fileFromEntry :: "entry \<Rightarrow> (string \<times> string) list \<Rightarrow> File" where
  "fileFromEntry e blobs =
     (fileFromBytes (enName e) (enKind e) blobs)
       \<lparr>fRole := enRole e, fCodeRole := enCodeRole e,
        fPart := (if enPart e > 0 then Some (int (enPart e)) else None)\<rparr>"

subsection \<open>The model configuration\<close>

definition parseUpstreamConfig :: "import_env \<Rightarrow> string \<Rightarrow> upstream_config option" where
  "parseUpstreamConfig ie b = (if b = [] then None else ieUpstream ie b)"

definition parseHeader :: "import_env \<Rightarrow> string \<Rightarrow> tensor_header option" where
  "parseHeader ie b = (if b = [] then None else ieHeader ie b)"

definition family_of_name :: "string \<Rightarrow> string" where
  "family_of_name firstWeightsName =
     (let base = PathBase firstWeightsName;
          stamm = fst (splitGGUF base);
          stamm = (if stamm = [] then fst (splitSafetensors base) else stamm);
          stamm = TrimSuffix stamm ''-'' in
      if stamm = [] then TrimSuffix base (PathExt base) else stamm)"

definition deriveFamily :: "upstream_config option \<Rightarrow> string \<Rightarrow> string" where
  "deriveFamily upstream firstWeightsName =
     (case upstream of
        Some uc \<Rightarrow> if ucModelType uc \<noteq> [] then ucModelType uc else family_of_name firstWeightsName
      | None \<Rightarrow> family_of_name firstWeightsName)"

definition buildModelConfig :: "import_env \<Rightarrow> ImportOptions \<Rightarrow> string \<Rightarrow> string \<Rightarrow> string \<Rightarrow> int \<Rightarrow> string \<Rightarrow> string + string" where
  "buildModelConfig ie opts weightsFormat quant family ctxLen license =
     ieConfig ie
       \<lparr>mcFamily = family, mcWeightsFormat = weightsFormat, mcQuantization = quant,
        mcSelfContained = (weightsFormat = ''gguf''),
        mcContextLength = (if ctxLen > 0 then ctxLen else 0), mcLicense = license,
        mcSource = (if opHFRepo opts \<noteq> [] then Some (opHFRepo opts, opHFRevision opts) else None),
        mcLlamaCtx = (if ctxLen > 0 then Some ctxLen else None)\<rparr>"

text \<open>The text of a warning; the section sign is the two bytes of its UTF-8 form.\<close>

definition warning_text :: "import_warning \<Rightarrow> string" where
  "warning_text w =
     (case w of
        WarnNonLora \<Rightarrow> ''skipped non_lora_trainables.bin (001 '' @ [CHR 0xC2, CHR 0xA7] @ ''8.8)''
      | WarnChat kept n \<Rightarrow> ''multiple chat templates; kept '' @ kept @ '', skipped '' @ n
      | WarnPeft dir \<Rightarrow> ''incomplete PEFT pair in \"'' @ dir @ ''\": skipped''
      | WarnQuant v \<Rightarrow> ''quantization_config '' @ v @ '' is outside the quant vocabulary (000 App. A); falling back'')"

definition import_annotations :: "ImportOptions \<Rightarrow> classification \<Rightarrow> import_warning list \<Rightarrow> (string \<times> string) list" where
  "import_annotations opts c warnings =
     [(''io.shardr.import.specVersion'', ''0''),
      (''io.shardr.import.skipped'', dec_nat (clSkipped c))]
     @ (if warnings \<noteq> [] then [(''io.shardr.import.warnings'', join_with ''; '' (map warning_text warnings))] else [])
     @ (if opHFRepo opts \<noteq> [] then [(''io.shardr.hf.repo'', opHFRepo opts), (''io.shardr.hf.revision'', opHFRevision opts)] else [])
     @ (if clLicenseName c \<noteq> []
        then (''io.shardr.license.name'', clLicenseName c)
             # (if clLicenseSPDX c \<noteq> [] then [(''io.shardr.license'', clLicenseSPDX c)] else [])
        else [])"

subsection \<open>Writing an artifact\<close>

definition putCanonical :: "put_env \<Rightarrow> string \<Rightarrow> string \<Rightarrow> store \<Rightarrow> store \<times> (cas_error + unit)" where
  "putCanonical env digest b s = Put env (DigestHex digest) b s"

text \<open>Blob writes in order, up to the first that fails.\<close>

fun put_all :: "(nat \<Rightarrow> put_env) \<Rightarrow> (string \<times> string \<times> string) list \<Rightarrow> store \<Rightarrow> store \<times> (import_error + unit)" where
  "put_all env [] s = (s, Inr ())"
| "put_all env ((what, digest, b) # ps) s =
     (case putCanonical (env 0) digest b s of
        (s, Inl e) \<Rightarrow> (s, Inl (PutFailed what e))
      | (s, Inr _) \<Rightarrow> put_all (\<lambda>i. env (Suc i)) ps s)"

text \<open>The blobs of a sealed artifact: its files, the manifest, the piece layers and the record.\<close>

definition sealed_blobs :: "(string \<times> string) list \<Rightarrow> Sealed \<Rightarrow> (string \<times> string \<times> string) list" where
  "sealed_blobs blobs sd =
     map (\<lambda>f. (fName f, fDigest f, blob_of blobs (fName f))) (mFiles (slManifest sd))
     @ [(''manifest'', slManifestDigest sd, slManifestBytes sd),
        (''piece layers'', trPieceLayersDigest (slTorrent sd), trPieceLayersBencode (slTorrent sd)),
        (''record'', slDistributionDigest sd, slDistributionBytes sd)]"

definition publish :: "(nat \<Rightarrow> put_env) \<Rightarrow> (syscall \<Rightarrow> bool) \<Rightarrow> (string \<times> string) list \<Rightarrow> Sealed \<Rightarrow> store
    \<Rightarrow> store \<times> (import_error + unit)" where
  "publish env fault blobs sd s =
     (case put_all env (sealed_blobs blobs sd) s of
        (s, Inl e) \<Rightarrow> (s, Inl e)
      | (s, Inr _) \<Rightarrow>
        (case SetDistributionLink fault (slManifestDigest sd) (slDistributionDigest sd) s of
           (s, Inl e) \<Rightarrow> (s, Inl (LinkFailed e))
         | (s, Inr _) \<Rightarrow> (s, Inr ())))"

definition is_weights_entry :: "entry \<Rightarrow> bool" where
  "is_weights_entry e = (enKind e = ''weights.gguf'' \<or> enKind e = ''weights.safetensors'')"

definition groupOrder :: "entry list \<Rightarrow> string list" where
  "groupOrder es = sort_strings (remdups (map enGroup (filter is_weights_entry es)))"

definition group_entries :: "entry list \<Rightarrow> string \<Rightarrow> entry list" where
  "group_entries es g = filter (\<lambda>e. is_weights_entry e \<and> enGroup e = g) es"

definition group_files :: "entry list \<Rightarrow> string \<Rightarrow> string \<Rightarrow> (string \<times> string) list \<Rightarrow> File list" where
  "group_files es g weightsFormat blobs =
     (let kind = (\<lambda>ks. filter (\<lambda>e. enKind e \<in> set ks) es) in
      fileFromBytes ''modelconfig.json'' ''config'' blobs
      # map (\<lambda>e. fileFromEntry e blobs)
          (group_entries es g @ kind [''weights.aux'', ''code'', ''runtime-config'']
           @ (if weightsFormat \<noteq> ''gguf'' then kind [''tokenizer''] @ kind [''chat-template''] else []))
      @ map (\<lambda>e. (fileFromEntry e blobs)\<lparr>fAdapterType := ''lora''\<rparr>) (kind [''adapter'']))"

text \<open>What the loop over the groups carries along.\<close>

record group_state =
  gsBlobs :: "(string \<times> string) list"
  gsTaken :: "(string \<times> string) list"
  gsWarnings :: "import_warning list"
  gsMembers :: "IndexMember list"
  gsArtifacts :: "ArtifactInfo list"

text \<open>One group up to its sealed artifact; the store is not touched.\<close>

definition prepare_group ::
  "import_env \<Rightarrow> ImportOptions \<Rightarrow> classification \<Rightarrow> string \<Rightarrow> group_state
     \<Rightarrow> import_error + (string \<times> string \<times> Sealed \<times> group_state)" where
  "prepare_group ie opts c g gs =
     (let weights = group_entries (clEntries c) g;
          first = hd weights;
          weightsFormat = (if enKind first = ''weights.gguf'' then ''gguf'' else ''safetensors'');
          header = parseHeader ie
            (if weightsFormat = ''safetensors''
             then safetensorsHeaderBytes (blob_of (gsBlobs gs) (enName first)) else []);
          upstream = parseUpstreamConfig ie (clUpstream c);
          (quant, warned) = DeriveQuant (path_base (enName first)) upstream header;
          warnings = gsWarnings gs @ warned in
      case map_of (gsTaken gs) quant of
        Some other \<Rightarrow> Inl (QuantConflict other g quant)
      | None \<Rightarrow>
        let ctxLen = (case upstream of None \<Rightarrow> 0 | Some uc \<Rightarrow> ucMaxPositions uc) in
        (case buildModelConfig ie opts weightsFormat quant (deriveFamily upstream (enName first)) ctxLen (clLicenseSPDX c) of
           Inl e \<Rightarrow> Inl (ConfigErr e)
         | Inr cfgBytes \<Rightarrow>
           let blobs = AList.update ''modelconfig.json'' cfgBytes (gsBlobs gs) in
           (case Seal (ieCodec ie) (group_files (clEntries c) g weightsFormat blobs)
                   (import_annotations opts c warnings)
                   (\<lambda>name. case map_of blobs name of None \<Rightarrow> Inl name | Some b \<Rightarrow> Inr b) of
              Panics \<Rightarrow> Inl SealPanic
            | Returns (Inl e) \<Rightarrow> Inl (SealFailed e)
            | Returns (Inr sd) \<Rightarrow>
                Inr (quant, weightsFormat, sd,
                     gs\<lparr>gsBlobs := blobs, gsTaken := AList.update quant g (gsTaken gs), gsWarnings := warnings\<rparr>))))"

definition group_done :: "ImportOptions \<Rightarrow> string \<Rightarrow> string \<Rightarrow> Sealed \<Rightarrow> group_state \<Rightarrow> group_state" where
  "group_done opts quant weightsFormat sd gs =
     gs\<lparr>gsMembers := gsMembers gs @
          [\<lparr>imManifest = slManifestDigest sd, imQuant = quant, imWeightsFormat = weightsFormat,
            imRevision = opHFRevision opts\<rparr>],
        gsArtifacts := gsArtifacts gs @
          [\<lparr>aiManifest = slManifestDigest sd, aiQuant = quant, aiRecord = slDistributionDigest sd,
            aiPieceLayers = trPieceLayersDigest (slTorrent sd)\<rparr>]\<rparr>"

fun import_groups ::
  "import_env \<Rightarrow> ImportOptions \<Rightarrow> classification \<Rightarrow> nat \<Rightarrow> string list \<Rightarrow> group_state \<Rightarrow> store
     \<Rightarrow> store \<times> (import_error + group_state)" where
  "import_groups ie opts c k [] gs s = (s, Inr gs)"
| "import_groups ie opts c k (g # gps) gs s =
     (case prepare_group ie opts c g gs of
        Inl e \<Rightarrow> (s, Inl e)
      | Inr (quant, weightsFormat, sd, gs) \<Rightarrow>
        (case publish (iePut ie k) (ieFault ie k) (gsBlobs gs) sd s of
           (s, Inl e) \<Rightarrow> (s, Inl e)
         | (s, Inr _) \<Rightarrow> import_groups ie opts c (Suc k) gps (group_done opts quant weightsFormat sd gs) s))"

subsection \<open>The index\<close>

definition existingMembers :: "import_env \<Rightarrow> string \<Rightarrow> store \<Rightarrow> import_error + IndexMember list" where
  "existingMembers ie nsKey s =
     (case Namespaces s of
        Inl e \<Rightarrow> Inl (StateFailed e)
      | Inr ns \<Rightarrow>
        (case map_of ns nsKey of
           None \<Rightarrow> Inr []
         | Some d \<Rightarrow>
           let h = DigestHex d in
           if \<not> Has (ieBad ie) s h then Inl (IndexMissing d)
           else
             (case OpenBlob (ieBad ie) s h of
                Opened f \<Rightarrow>
                  (case decIndex (ieCodec ie) (fContent f) of
                     Inl e \<Rightarrow> Inl (IndexDecode d e)
                   | Inr idx \<Rightarrow>
                     (case ValidateIndex idx of
                        Some e \<Rightarrow> Inl (IndexCorrupt d e)
                      | None \<Rightarrow> Inr (iMembers idx)))
              | _ \<Rightarrow> Inl (IndexOpen d))))"

text \<open>The merge and the publication of the index, under the namespace's lock.\<close>

definition publish_index ::
  "import_env \<Rightarrow> nat \<Rightarrow> string \<Rightarrow> IndexMember list \<Rightarrow> store \<Rightarrow> store \<times> (import_error + string)" where
  "publish_index ie k nsKey new s =
     (case existingMembers ie nsKey s of
        Inl e \<Rightarrow> (s, Inl e)
      | Inr old \<Rightarrow>
        let members = fold (\<lambda>m ms. UpsertMember ms m) new old in
        (case SealIndex (ieCodec ie) members of
           Inl e \<Rightarrow> (s, Inl (IndexCanon e))
         | Inr (idxBytes, idxDigest) \<Rightarrow>
           (case ValidateIndexMembers members of
              Some e \<Rightarrow> (s, Inl (MergedInvalid e))
            | None \<Rightarrow>
              (case putCanonical (iePut ie k 0) idxDigest idxBytes s of
                 (s, Inl e) \<Rightarrow> (s, Inl (PutFailed ''index'' e))
               | (s, Inr _) \<Rightarrow>
                 (case SetNamespace (ieFault ie k) nsKey idxDigest s of
                    (s, Inl e) \<Rightarrow> (s, Inl (NamespaceFailed e))
                  | (s, Inr _) \<Rightarrow> (s, Inr idxDigest))))))"

definition Import :: "import_env \<Rightarrow> ImportOptions \<Rightarrow> Source list \<Rightarrow> store \<Rightarrow> store \<times> (import_error + ImportResult)" where
  "Import ie opts sources s =
     (if sources = [] then (s, Inl ErrNoFiles)
      else
        let sources = sort_by (\<lambda>a b. srName a < srName b) sources in
        case classify sources of
          None \<Rightarrow> (s, Inl ReadConfig)
        | Some c \<Rightarrow>
          if \<not> list_ex is_weights_entry (clEntries c) then (s, Inl ErrNotImportable)
          else
            (case ingest ie sources 0 (clEntries c) [] of
               Inl e \<Rightarrow> (s, Inl e)
             | Inr blobs \<Rightarrow>
               let gps = groupOrder (clEntries c);
                   gs = \<lparr>gsBlobs = blobs, gsTaken = [], gsWarnings = clWarnings c, gsMembers = [], gsArtifacts = []\<rparr> in
               (case import_groups ie opts c 0 gps gs s of
                  (s, Inl e) \<Rightarrow> (s, Inl e)
                | (s, Inr gs) \<Rightarrow>
                  (case publish_index ie (length gps) (opAs opts) (gsMembers gs) s of
                     (s, Inl e) \<Rightarrow> (s, Inl e)
                   | (s, Inr idxDigest) \<Rightarrow>
                     (s, Inr \<lparr>irIndexDigest = idxDigest, irMembers = gsMembers gs, irArtifacts = gsArtifacts gs,
                              irWarnings = gsWarnings gs, irSkipped = clSkipped c\<rparr>)))))"

subsection \<open>Lemmas on the pipeline\<close>

lemma put_all_frame:
  "put_all env ps s = (s', r) \<Longrightarrow>
     keeps s s' \<and> sState s' = sState s \<and> (r = Inr () \<longrightarrow> (\<forall>(w, d, b) \<in> set ps. present s' (DigestHex d)))"
proof (induction ps arbitrary: env s)
  case (Cons p ps)
  obtain w d b where p: "p = (w, d, b)" by (cases p)
  obtain s1 r1 where put: "Put (env 0) (DigestHex d) b s = (s1, r1)" by (metis surj_pair)
  have st: "sState s1 = sState s" using Put_state [of "env 0" "DigestHex d" b s] put by simp
  note k = Put_keeps [OF put]
  show ?case
  proof (cases r1)
    case (Inl e)
    then show ?thesis using Cons.prems p put k st by (auto simp: putCanonical_def)
  next
    case (Inr u)
    then have "put_all (\<lambda>i. env (Suc i)) ps s1 = (s', r)" using Cons.prems p put by (simp add: putCanonical_def)
    note IH = Cons.IH [OF this]
    have "present s' (DigestHex d)" using k Inr IH by (auto simp: keeps_def)
    then show ?thesis using IH k st keeps_trans [of s s1 s'] p by auto
  qed
qed simp

text \<open>A published artifact: a valid manifest, its blob and every blob it names are in the store.\<close>

definition published :: "import_env \<Rightarrow> store \<Rightarrow> ArtifactInfo \<Rightarrow> bool" where
  "published ie s ai \<longleftrightarrow>
     (\<exists>m bytes. canonManifest (ieCodec ie) m = Inr bytes \<and> aiManifest ai = Digest bytes \<and> ValidateManifest m = None
        \<and> (\<forall>f \<in> set (mFiles m). present s (DigestHex (fDigest f))))
     \<and> present s (DigestHex (aiManifest ai)) \<and> present s (DigestHex (aiRecord ai))
     \<and> present s (DigestHex (aiPieceLayers ai))"

lemma published_keeps: "published ie s ai \<Longrightarrow> keeps s s' \<Longrightarrow> published ie s' ai"
  unfolding published_def keeps_def by blast

text \<open>The distribution link of each artifact leads to the record of an artifact of the same manifest.\<close>

definition linked :: "store \<Rightarrow> ArtifactInfo list \<Rightarrow> ArtifactInfo \<Rightarrow> bool" where
  "linked s ais ai \<longleftrightarrow>
     IsDigest (aiManifest ai)
     \<and> (\<exists>ai' \<in> set ais. aiManifest ai' = aiManifest ai \<and> RecordDigestForManifest s (aiManifest ai) = Inr (aiRecord ai'))"

definition groups_ok :: "import_env \<Rightarrow> store \<Rightarrow> group_state \<Rightarrow> bool" where
  "groups_ok ie s gs \<longleftrightarrow>
     (\<forall>ai \<in> set (gsArtifacts gs). published ie s ai \<and> linked s (gsArtifacts gs) ai)
     \<and> map (\<lambda>m. (imManifest m, imQuant m)) (gsMembers gs) = map (\<lambda>a. (aiManifest a, aiQuant a)) (gsArtifacts gs)
     \<and> distinct (map imQuant (gsMembers gs)) \<and> imQuant ` set (gsMembers gs) \<subseteq> fst ` set (gsTaken gs)"

lemma publish_frame:
  assumes "publish env fault blobs sd s = (s', r)" and "Seal c files ann resolve = Returns (Inr sd)"
  shows "keeps s s' \<and> sState s' namespacesFile = sState s namespacesFile
    \<and> (r = Inr () \<longrightarrow>
        (\<forall>(w, d, b) \<in> set (sealed_blobs blobs sd). present s' (DigestHex d))
        \<and> RecordDigestForManifest s' (slManifestDigest sd) = Inr (slDistributionDigest sd)
        \<and> (\<forall>m x. m \<noteq> slManifestDigest sd \<and> IsDigest m \<and> RecordDigestForManifest s m = Inr x
             \<longrightarrow> RecordDigestForManifest s' m = Inr x))"
proof -
  obtain s1 r1 where p: "put_all env (sealed_blobs blobs sd) s = (s1, r1)" by (metis surj_pair)
  note k = put_all_frame [OF p]
  have d: "IsDigest (slManifestDigest sd)" "IsDigest (slDistributionDigest sd)"
    using assms(2) IsDigest_Digest by (auto simp: Seal_def Let_def split: option.splits sum.splits panic.splits)
  show ?thesis
  proof (cases r1)
    case (Inl e)
    then show ?thesis using assms(1) p k by (auto simp: publish_def)
  next
    case (Inr u)
    obtain s2 r2 where l: "SetDistributionLink fault (slManifestDigest sd) (slDistributionDigest sd) s1 = (s2, r2)"
      by (metis surj_pair)
    note f = SetDistributionLink_frame [OF l d]
    have "RecordDigestForManifest s1 m = RecordDigestForManifest s m" for m
      using k by (intro RecordDigestForManifest_state) simp
    moreover have "s' = s2" "r = Inr () \<longleftrightarrow> r2 = Inr ()" using assms(1) p Inr l by (auto simp: publish_def split: sum.splits)
    moreover have "present s2 e" if "present s1 e" for e using f that by (simp add: keeps_def)
    ultimately show ?thesis using f k Inr keeps_trans [of s s1 s2] by fastforce
  qed
qed

lemma prepare_group_Inr:
  assumes "prepare_group ie opts c g gs = Inr (quant, fmt, sd, gs')"
  obtains ann resolve blobs where
    "Seal (ieCodec ie) (group_files (clEntries c) g fmt blobs) ann resolve = Returns (Inr sd)"
    "gsBlobs gs' = blobs" "map_of (gsTaken gs) quant = None" "gsTaken gs' = AList.update quant g (gsTaken gs)"
    "gsMembers gs' = gsMembers gs" "gsArtifacts gs' = gsArtifacts gs"
  using assms by (auto simp: prepare_group_def Let_def split: prod.splits option.splits sum.splits panic.splits)

lemma group_done_ok:
  assumes ok: "groups_ok ie s gs" and prep: "prepare_group ie opts c g gs = Inr (quant, fmt, sd, gs1)"
    and pub: "publish env fault (gsBlobs gs1) sd s = (s', Inr ())"
  shows "groups_ok ie s' (group_done opts quant fmt sd gs1)"
proof -
  obtain ann resolve blobs where seal: "Seal (ieCodec ie) (group_files (clEntries c) g fmt blobs) ann resolve = Returns (Inr sd)"
    and gs1: "gsBlobs gs1 = blobs" "map_of (gsTaken gs) quant = None" "gsTaken gs1 = AList.update quant g (gsTaken gs)"
      "gsMembers gs1 = gsMembers gs" "gsArtifacts gs1 = gsArtifacts gs"
    using prep by (rule prepare_group_Inr)
  note f = publish_frame [OF pub seal]
  have k: "keeps s s'" using f by simp
  let ?ai = "\<lparr>aiManifest = slManifestDigest sd, aiQuant = quant, aiRecord = slDistributionDigest sd,
    aiPieceLayers = trPieceLayersDigest (slTorrent sd)\<rparr>"
  from seal have sd: "mFiles (slManifest sd) = SortFiles (group_files (clEntries c) g fmt blobs)"
    "ValidateManifest (slManifest sd) = None" "canonManifest (ieCodec ie) (slManifest sd) = Inr (slManifestBytes sd)"
    "slManifestDigest sd = Digest (slManifestBytes sd)"
    by (auto elim: Seal_Returns)
  have pr: "present s' (DigestHex d)" if "(w, d, b) \<in> set (sealed_blobs blobs sd)" for w d b
    using f that gs1(1) by blast
  have new: "published ie s' ?ai"
    unfolding published_def
  proof (intro conjI exI [of _ "slManifest sd"] exI [of _ "slManifestBytes sd"] ballI)
    show "present s' (DigestHex (fDigest f))" if "f \<in> set (mFiles (slManifest sd))" for f
      using that by (intro pr [of "fName f" _ "blob_of blobs (fName f)"]) (auto simp: sealed_blobs_def)
    show "present s' (DigestHex (aiManifest ?ai))"
      using pr [of "''manifest''" _ "slManifestBytes sd"] by (simp add: sealed_blobs_def)
    show "present s' (DigestHex (aiRecord ?ai))"
      using pr [of "''record''" _ "slDistributionBytes sd"] by (simp add: sealed_blobs_def)
    show "present s' (DigestHex (aiPieceLayers ?ai))"
      using pr [of "''piece layers''" _ "trPieceLayersBencode (slTorrent sd)"] by (simp add: sealed_blobs_def)
  qed (use sd in simp_all)
  have md: "IsDigest (slManifestDigest sd)" using sd(4) IsDigest_Digest by simp
  have link: "linked s' (gsArtifacts gs @ [?ai]) ?ai"
    using f md by (auto simp: linked_def)
  have old: "linked s' (gsArtifacts gs @ [?ai]) ai" if "ai \<in> set (gsArtifacts gs)" for ai
  proof (cases "aiManifest ai = slManifestDigest sd")
    case True
    then show ?thesis using link by (auto simp: linked_def)
  next
    case False
    have "linked s (gsArtifacts gs) ai" using ok that by (simp add: groups_ok_def)
    then show ?thesis using f False by (auto simp: linked_def)
  qed
  have "quant \<notin> fst ` set (gsTaken gs)" using gs1(2) by (auto simp: map_of_eq_None_iff)
  then show ?thesis
    using ok new link old gs1 published_keeps [OF _ k]
    by (auto simp: groups_ok_def group_done_def dom_update)
qed

lemma import_groups_frame:
  "import_groups ie opts c k gps gs s = (s', r) \<Longrightarrow> groups_ok ie s gs \<Longrightarrow>
     keeps s s' \<and> sState s' namespacesFile = sState s namespacesFile
     \<and> (\<forall>gs'. r = Inr gs' \<longrightarrow> groups_ok ie s' gs' \<and> length (gsArtifacts gs') = length (gsArtifacts gs) + length gps)"
proof (induction gps arbitrary: k gs s)
  case (Cons g gps)
  show ?case
  proof (cases "prepare_group ie opts c g gs")
    case (Inl e)
    then show ?thesis using Cons.prems by auto
  next
    case (Inr x)
    obtain quant fmt sd gs1 where x: "x = (quant, fmt, sd, gs1)" by (cases x)
    note prep = Inr [unfolded x]
    obtain s1 r1 where pub: "publish (iePut ie k) (ieFault ie k) (gsBlobs gs1) sd s = (s1, r1)" by (metis surj_pair)
    obtain ann resolve blobs where seal: "Seal (ieCodec ie) (group_files (clEntries c) g fmt blobs) ann resolve = Returns (Inr sd)"
      and same: "gsArtifacts gs1 = gsArtifacts gs"
      using prep by (rule prepare_group_Inr)
    note f = publish_frame [OF pub seal]
    show ?thesis
    proof (cases r1)
      case (Inl e)
      then show ?thesis using Cons.prems prep pub f by auto
    next
      case (Inr u)
      then have ok: "groups_ok ie s1 (group_done opts quant fmt sd gs1)"
        using group_done_ok [OF Cons.prems(2) prep] pub by simp
      have "import_groups ie opts c (Suc k) gps (group_done opts quant fmt sd gs1) s1 = (s', r)"
        using Cons.prems(1) prep pub Inr by simp
      from Cons.IH [OF this ok] show ?thesis
        using f same keeps_trans [of s s1 s'] by (auto simp: group_done_def)
    qed
  qed
qed auto

lemma fold_UpsertMember:
  "distinct (map imQuant new) \<Longrightarrow>
     set (fold (\<lambda>m ms. UpsertMember ms m) new old) = set new \<union> {e \<in> set old. imQuant e \<notin> imQuant ` set new}"
proof (induction new arbitrary: old)
  case (Cons m new)
  then show ?case by (auto simp: set_UpsertMember)
qed simp

lemma SetNamespace_frame:
  assumes "SetNamespace fault name d s = (s', r)" and "IsDigest d"
  shows "keeps s s'
    \<and> (\<forall>e. r = Inl e \<and> e \<noteq> IOErr SysSyncDir \<longrightarrow> s' = s)
    \<and> (r = Inr () \<longrightarrow> (\<exists>m. Namespaces s = Inr m \<and> Namespaces s' = Inr (AList.update name d m)))"
proof -
  have n: "NormalizeDigest d = Inr d" using assms(2) by (auto simp: NormalizeDigest_def IsDigest_def)
  show ?thesis
  proof (cases "ValidNamespaceKey name")
    case False
    then show ?thesis using assms(1) by (auto simp: SetNamespace_def)
  next
    case True
    then have u: "updateMap fault namespacesFile (AList.update name d) s = (s', r)"
      using assms(1) n by (simp add: SetNamespace_def)
    have "s' = s" if "r = Inl e" "e \<noteq> IOErr SysSyncDir" for e
      using u that atomicWrite_cases by (fastforce simp: updateMap_def split: sum.splits)
    moreover have "\<exists>m. Namespaces s = Inr m \<and> Namespaces s' = Inr (AList.update name d m)" if "r = Inr ()"
    proof -
      have "updateMap fault namespacesFile (AList.update name d) s = (s', Inr ())" using u that by simp
      then show ?thesis by (rule updateMap_Inr) (simp add: Namespaces_def loadMap_update)
    qed
    ultimately show ?thesis using updateMap_keeps [OF u] by blast
  qed
qed

text \<open>A published index: valid members, its blob is in the store, and the namespace leads to it.\<close>

definition index_published :: "import_env \<Rightarrow> string \<Rightarrow> store \<Rightarrow> store \<Rightarrow> IndexMember list \<Rightarrow> string \<Rightarrow> bool" where
  "index_published ie nsKey s s' new d \<longleftrightarrow>
     (\<exists>ms b. canonIndex (ieCodec ie) \<lparr>iSchemaVersion = 1, iArtifactType = ''model-index'', iMembers = ms\<rparr> = Inr b
        \<and> d = Digest b \<and> present s' (DigestHex d) \<and> ValidateIndexMembers ms = None \<and> set new \<subseteq> set ms)
     \<and> (\<exists>m. Namespaces s = Inr m \<and> Namespaces s' = Inr (AList.update nsKey d m))"

lemma publish_index_frame:
  assumes "publish_index ie k nsKey new s = (s', r)" and "distinct (map imQuant new)"
  shows "keeps s s'
    \<and> (\<forall>e. r = Inl e \<and> e \<noteq> NamespaceFailed (IOErr SysSyncDir) \<longrightarrow> sState s' = sState s)
    \<and> (\<forall>d. r = Inr d \<longrightarrow> index_published ie nsKey s s' new d \<and> sState s' distributionFile = sState s distributionFile)"
proof (cases "existingMembers ie nsKey s")
  case (Inl e)
  then show ?thesis using assms(1) by (auto simp: publish_index_def)
next
  case (Inr old)
  let ?ms = "fold (\<lambda>m ms. UpsertMember ms m) new old"
  show ?thesis
  proof (cases "SealIndex (ieCodec ie) ?ms")
    case (Inl e)
    then show ?thesis using assms(1) Inr by (auto simp: publish_index_def Let_def)
  next
    case si: (Inr bd)
    obtain b where b: "bd = (b, Digest b)"
      and cb: "canonIndex (ieCodec ie) \<lparr>iSchemaVersion = 1, iArtifactType = ''model-index'', iMembers = ?ms\<rparr> = Inr b"
      using si by (auto simp: SealIndex_def bind_res_Inr)
    show ?thesis
    proof (cases "ValidateIndexMembers ?ms")
      case (Some e)
      then show ?thesis using assms(1) Inr si b by (auto simp: publish_index_def Let_def)
    next
      case None
      obtain s1 r1 where put: "Put (iePut ie k 0) (DigestHex (Digest b)) b s = (s1, r1)" by (metis surj_pair)
      have st: "sState s1 = sState s" by (metis Put_state put fst_conv)
      note kp = Put_keeps [OF put]
      show ?thesis
      proof (cases r1)
        case (Inl e)
        then show ?thesis using assms(1) Inr si b None put kp st by (auto simp: publish_index_def Let_def putCanonical_def)
      next
        case r1: (Inr u)
        obtain s2 r2 where sn: "SetNamespace (ieFault ie k) nsKey (Digest b) s1 = (s2, r2)" by (metis surj_pair)
        note f = SetNamespace_frame [OF sn IsDigest_Digest]
        have ns: "Namespaces s1 = Namespaces s" using st by (simp add: Namespaces_def loadMap_def)
        have s2: "s' = s2" "(\<exists>e. r = Inl (NamespaceFailed e) \<and> r2 = Inl e) \<or> (r = Inr (Digest b) \<and> r2 = Inr ())"
          using assms(1) Inr si b None put r1 sn by (auto simp: publish_index_def Let_def putCanonical_def split: sum.splits)
        have df: "sState s2 distributionFile = sState s1 distributionFile"
          using sn by (auto simp: SetNamespace_def dest!: updateMap_keeps split: if_splits sum.splits)
        have "present s2 (DigestHex (Digest b))" using kp r1 f by (auto simp: keeps_def)
        then have "index_published ie nsKey s s2 new (Digest b)" if "r2 = Inr ()"
          using cb None fold_UpsertMember [OF assms(2), of old] f that ns unfolding index_published_def by auto
        then show ?thesis
          using s2 f kp keeps_trans [of s s1 s2] st df by auto
      qed
    qed
  qed
qed

subsection \<open>Properties\<close>

text \<open>The stages of a successful import.\<close>

lemma Import_stages:
  assumes "Import ie opts sources s = (s', r)"
  shows "(s' = s \<and> (\<exists>e. r = Inl e \<and> e \<noteq> NamespaceFailed (IOErr SysSyncDir)))
    \<or> (\<exists>c blobs s1 r1.
         import_groups ie opts c 0 (groupOrder (clEntries c))
           \<lparr>gsBlobs = blobs, gsTaken = [], gsWarnings = clWarnings c, gsMembers = [], gsArtifacts = []\<rparr> s = (s1, r1)
         \<and> groupOrder (clEntries c) \<noteq> []
         \<and> ((\<exists>e. r1 = Inl e \<and> s' = s1 \<and> r = Inl e)
            \<or> (\<exists>gs r2. r1 = Inr gs
                 \<and> publish_index ie (length (groupOrder (clEntries c))) (opAs opts) (gsMembers gs) s1 = (s', r2)
                 \<and> map_sum id (\<lambda>d. \<lparr>irIndexDigest = d, irMembers = gsMembers gs, irArtifacts = gsArtifacts gs,
                              irWarnings = gsWarnings gs, irSkipped = clSkipped c\<rparr>) r2 = r)))"
proof (cases "sources = []")
  case True
  then show ?thesis using assms by (auto simp: Import_def)
next
  case ne: False
  let ?ss = "sort_by (\<lambda>a b. srName a < srName b) sources"
  note i = assms [unfolded Import_def Let_def, simplified ne, simplified]
  show ?thesis
  proof (cases "classify ?ss")
    case None
    then show ?thesis using i by auto
  next
    case (Some c)
    show ?thesis
    proof (cases "list_ex is_weights_entry (clEntries c)")
      case False
      then show ?thesis using i Some by auto
    next
      case w: True
      show ?thesis
      proof (cases "ingest ie ?ss 0 (clEntries c) []")
        case (Inl e)
        have "e \<noteq> NamespaceFailed x" for x
        proof -
          have mem: "read_members k key rd ns acc = Inl e \<Longrightarrow> \<exists>a b. e = ReadMember a b" for k key rd ns acc
            by (induction ns arbitrary: acc) (auto split: option.splits)
          have "entry_content ie ss en = Inl e \<Longrightarrow> (\<exists>a b. e = ReadMember a b) \<or> (\<exists>a. e = ReadEntry a)" for ss en
            by (auto simp: entry_content_def map_sum_def dest!: mem split: if_splits sum.splits option.splits)
          then have "ingest ie ss j es bl = Inl e \<Longrightarrow> e = Cancelled \<or> (\<exists>a b. e = ReadMember a b) \<or> (\<exists>a. e = ReadEntry a)" for ss j es bl
            by (induction ss j es bl rule: ingest.induct [of _ ie]) (auto split: if_splits sum.splits)
          then show ?thesis using Inl by blast
        qed
        then show ?thesis using i Some w Inl by auto
      next
        case (Inr blobs)
        have "groupOrder (clEntries c) \<noteq> []"
        proof -
          obtain e where "e \<in> set (clEntries c)" "is_weights_entry e" using w by (auto simp: list_ex_iff)
          then have "enGroup e \<in> set (groupOrder (clEntries c))" by (simp add: groupOrder_def)
          then show ?thesis by auto
        qed
        then show ?thesis using i Some w Inr
          by (intro disjI2 exI [of _ c] exI [of _ blobs]) (auto simp: map_sum_Inr split: prod.splits sum.splits)
      qed
    qed
  qed
qed

lemma groups_ok_init:
  "groups_ok ie s \<lparr>gsBlobs = b, gsTaken = [], gsWarnings = w, gsMembers = [], gsArtifacts = []\<rparr>"
  by (simp add: groups_ok_def)

text \<open>
  A successful import has published what it reports: at least one artifact; each has a valid
  manifest whose canonical bytes are in the store together with every file the manifest names, the
  piece layers and the distribution record; the distribution link of its manifest is set; and the
  namespace, the only one changed, leads to the blob of a valid index that holds every new member.
  No blob that was in the store is lost, and the store stays sound.
\<close>

lemma Import_published:
  assumes "Import ie opts sources s = (s', Inr res)"
  shows "irArtifacts res \<noteq> [] \<and> (\<forall>ai \<in> set (irArtifacts res). published ie s' ai \<and> linked s' (irArtifacts res) ai)
    \<and> map (\<lambda>m. (imManifest m, imQuant m)) (irMembers res) = map (\<lambda>a. (aiManifest a, aiQuant a)) (irArtifacts res)
    \<and> index_published ie (opAs opts) s s' (irMembers res) (irIndexDigest res)
    \<and> keeps s s'"
proof -
  obtain c blobs s1 gs where
    g: "import_groups ie opts c 0 (groupOrder (clEntries c))
          \<lparr>gsBlobs = blobs, gsTaken = [], gsWarnings = clWarnings c, gsMembers = [], gsArtifacts = []\<rparr> s = (s1, Inr gs)"
      "groupOrder (clEntries c) \<noteq> []"
    and p: "publish_index ie (length (groupOrder (clEntries c))) (opAs opts) (gsMembers gs) s1 = (s', Inr (irIndexDigest res))"
    and res: "irMembers res = gsMembers gs" "irArtifacts res = gsArtifacts gs"
    using Import_stages [OF assms] by (auto simp: map_sum_Inr)
  have fg: "keeps s s1" "sState s1 namespacesFile = sState s namespacesFile" "groups_ok ie s1 gs"
    "length (gsArtifacts gs) = length (groupOrder (clEntries c))"
    using import_groups_frame [OF g(1) groups_ok_init] by auto
  then have d: "distinct (map imQuant (gsMembers gs))" by (simp add: groups_ok_def)
  note fp = publish_index_frame [OF p d]
  have ns: "Namespaces s1 = Namespaces s" using fg(2) by (simp add: Namespaces_def loadMap_def)
  have link: "linked s' ais ai" if "linked s1 ais ai" for ais ai
  proof -
    have "RecordDigestForManifest s' m = RecordDigestForManifest s1 m" for m
      using fp by (intro RecordDigestForManifest_state) simp
    then show ?thesis using that by (simp add: linked_def)
  qed
  have "gsArtifacts gs \<noteq> []" using fg(4) g(2) by auto
  then show ?thesis
    using fg(1,3) fp res link published_keeps [of ie s1 _ s'] keeps_trans [of s s1 s'] ns
    unfolding groups_ok_def index_published_def by auto
qed

subsection \<open>A concrete import\<close>

lemma put_all_calm:
  "(\<And>i. peFault (env i) = (\<lambda>_. False) \<and> part_path (env i) = pp) \<Longrightarrow> look s pp = None
    \<Longrightarrow> (\<And>w d b. (w, d, b) \<in> set ps \<Longrightarrow> DigestHex d = sha256_hex b)
    \<Longrightarrow> \<exists>s'. put_all env ps s = (s', Inr ()) \<and> look s' pp = None"
proof (induction ps arbitrary: env s)
  case (Cons p ps)
  obtain w d b where p: "p = (w, d, b)" by (cases p)
  have d: "DigestHex d = sha256_hex b" using Cons.prems(3) [of w d b] p by simp
  obtain s1 where s1: "Put (env 0) (sha256_hex b) b s = (s1, Inr ())" "look s1 pp = None"
    using Put_fresh [of "env 0" s b] Cons.prems(1) [of 0] Cons.prems(2) by (metis prod.collapse)
  have e: "peFault (env (Suc i)) = (\<lambda>_. False) \<and> part_path (env (Suc i)) = pp" for i by (rule Cons.prems(1))
  have "\<exists>s'. put_all (\<lambda>i. env (Suc i)) ps s1 = (s', Inr ()) \<and> look s' pp = None"
    using Cons.IH [OF e s1(2)] Cons.prems(3) by (meson list.set_intros(2))
  then show ?case using p d s1 by (simp add: putCanonical_def)
qed simp

definition demo_ie :: import_env where
  "demo_ie = \<lparr>ieCodec = demo_codec, ieConfig = (\<lambda>_. Inr ''w''), ieUpstream = (\<lambda>_. None), ieHeader = (\<lambda>_. None),
     ieTar = (\<lambda>_. []), iePut = (\<lambda>_ _. calm_env ''12345678''), ieFault = (\<lambda>_. no_fault), ieBad = (\<lambda>_. False),
     ieCancelled = (\<lambda>_. False)\<rparr>"

definition demo_opts :: ImportOptions where
  "demo_opts = \<lparr>opAs = ''ns/name'', opHFRepo = [], opHFRevision = []\<rparr>"

definition demo_weights :: "Source list" where
  "demo_weights = [\<lparr>srName = ''w.gguf'', srRead = Some ''w''\<rparr>]"

definition demo_class :: classification where
  "demo_class = \<lparr>clEntries = [gguf_entry \<lparr>srName = ''w.gguf'', srRead = Some ''w''\<rparr>], clSkipped = 0, clWarnings = [],
     clUpstream = [], clLicenseName = [], clLicenseSPDX = []\<rparr>"

lemma demo_classify: "classify demo_weights = Some demo_class"
  by code_simp

lemma demo_entry:
  "gguf_entry \<lparr>srName = ''w.gguf'', srRead = Some ''w''\<rparr> =
     blank_entry\<lparr>enName := ''w.gguf'', enKind := ''weights.gguf'', enGroup := [CHR 0x00] @ ''w'', enRead := Some ''w''\<rparr>"
  by code_simp

lemma demo_quant: "DeriveQuant (path_base ''w.gguf'') None None = (''raw'', [])"
  by code_simp

lemma demo_prepare:
  assumes "gsBlobs gs = [(''w.gguf'', ''w'')]" and "gsTaken gs = []"
  obtains sd gs1 ann resolve where
    "prepare_group demo_ie demo_opts demo_class ([CHR 0x00] @ ''w'') gs = Inr (''raw'', ''gguf'', sd, gs1)"
    "Seal demo_codec [demo_config, small_file] ann resolve = Returns (Inr sd)"
    "gsBlobs gs1 = [(''w.gguf'', ''w''), (''modelconfig.json'', ''w'')]" "gsMembers gs1 = gsMembers gs"
    "gsArtifacts gs1 = gsArtifacts gs"
proof -
  let ?g = "[CHR 0x00] @ ''w''" and ?blobs = "[(''w.gguf'', ''w''), (''modelconfig.json'', ''w'')]"
  have ge: "group_entries (clEntries demo_class) ?g = [gguf_entry \<lparr>srName = ''w.gguf'', srRead = Some ''w''\<rparr>]"
    by (simp add: group_entries_def demo_class_def demo_entry is_weights_entry_def blank_entry_def)
  have gf: "group_files (clEntries demo_class) ?g ''gguf'' ?blobs = [demo_config, small_file]"
    unfolding group_files_def ge Let_def
    by (simp add: demo_class_def demo_entry blank_entry_def fileFromEntry_def fileFromBytes_def Let_def blob_of_def
        demo_config_def small_file_def)
  let ?res = "\<lambda>name. case map_of ?blobs name of None \<Rightarrow> Inl name | Some b \<Rightarrow> Inr b"
  let ?ann = "import_annotations demo_opts demo_class (gsWarnings gs)"
  obtain sd where sd: "Seal demo_codec [demo_config, small_file] ?ann ?res = Returns (Inr sd)"
    using demo_seal [of ?res ?ann] by auto
  have "prepare_group demo_ie demo_opts demo_class ?g gs = Inr (''raw'', ''gguf'', sd,
      gs\<lparr>gsBlobs := ?blobs, gsTaken := [(''raw'', ?g)], gsWarnings := gsWarnings gs\<rparr>)"
    unfolding prepare_group_def ge
    using sd assms gf demo_quant
    by (simp add: Let_def demo_entry blank_entry_def parseUpstreamConfig_def parseHeader_def demo_class_def
        buildModelConfig_def demo_ie_def demo_quant)
  then show thesis using that sd by simp
qed

lemma demo_import:
  assumes "look s (part_path (calm_env ''12345678'')) = None" and "sState s = sState empty_store"
  shows "\<exists>s' res. Import demo_ie demo_opts demo_weights s = (s', Inr res)"
proof -
  let ?g = "[CHR 0x00] @ ''w''" and ?pp = "part_path (calm_env ''12345678'')"
  define gs where "gs = \<lparr>gsBlobs = [(''w.gguf'', ''w'')], gsTaken = [], gsWarnings = [], gsMembers = [], gsArtifacts = []\<rparr>"
  obtain sd gs1 ann resolve where prep:
    "prepare_group demo_ie demo_opts demo_class ?g gs = Inr (''raw'', ''gguf'', sd, gs1)"
    and seal: "Seal demo_codec [demo_config, small_file] ann resolve = Returns (Inr sd)"
    and gs1: "gsBlobs gs1 = [(''w.gguf'', ''w''), (''modelconfig.json'', ''w'')]" "gsMembers gs1 = []" "gsArtifacts gs1 = []"
    by (rule demo_prepare [of gs]) (simp_all add: gs_def)
  obtain info where sd: "mFiles (slManifest sd) = SortFiles [demo_config, small_file]" "slManifestDigest sd = Digest (slManifestBytes sd)"
    and bt: "BuildTorrent (mFiles (slManifest sd)) (slManifestBytes sd) (sha256_hex (slManifestBytes sd)) resolve
       = Returns (Inr (info, slTorrent sd))"
    using seal by (rule Seal_Returns) simp
  have dd: "slDistributionDigest sd = Digest (slDistributionBytes sd)" 
    using seal by (auto simp: Seal_def Let_def split: option.splits sum.splits panic.splits)
  have "DigestHex d = sha256_hex b" if "(n, d, b) \<in> set (sealed_blobs (gsBlobs gs1) sd)" for n d b
    using that sd dd BuildTorrent_result [OF bt] gs1(1)
    by (auto simp: sealed_blobs_def SortFiles_def blob_of_def demo_config_def small_file_def)
  then obtain s1 where s1: "put_all (iePut demo_ie 0) (sealed_blobs (gsBlobs gs1) sd) s = (s1, Inr ())" "look s1 ?pp = None"
    using put_all_calm [of "iePut demo_ie 0" ?pp s "sealed_blobs (gsBlobs gs1) sd"] assms(1) by (auto simp: demo_ie_def)
  have st1: "sState s1 = sState empty_store" using put_all_frame [OF s1(1)] assms(2) by simp
  define s2 where "s2 = s1\<lparr>sState := (sState s1)(distributionFile := Holds [(slManifestDigest sd, slDistributionDigest sd)])\<rparr>"
  have n: "NormalizeDigest (Digest b) = Inr (Digest b)" for b
    using IsDigest_Digest [of b] by (auto simp: NormalizeDigest_def IsDigest_def)
  have rd: "slDistributionDigest sd \<noteq> []" using dd by (simp add: Digest_def)
  have "loadMap s1 distributionFile = Inr []" using st1 by (simp add: loadMap_def empty_store_def)
  then have "SetDistributionLink no_fault (slManifestDigest sd) (slDistributionDigest sd) s1 = (s2, Inr ())"
    using rd by (simp add: SetDistributionLink_def sd(2) dd n updateMap_no_fault s2_def)
  then have pub: "publish (iePut demo_ie 0) (ieFault demo_ie 0) (gsBlobs gs1) sd s = (s2, Inr ())"
    using s1(1) by (simp add: publish_def demo_ie_def)
  define gs2 where "gs2 = group_done demo_opts ''raw'' ''gguf'' sd gs1"
  have groups: "import_groups demo_ie demo_opts demo_class 0 [?g] gs s = (s2, Inr gs2)"
    using prep pub by (simp add: gs2_def)
  define m where "m = \<lparr>imManifest = slManifestDigest sd, imQuant = ''raw'', imWeightsFormat = ''gguf'', imRevision = []\<rparr>"
  have mem: "gsMembers gs2 = [m]" by (simp add: gs2_def group_done_def gs1 m_def demo_opts_def)
  have ns2: "Namespaces s2 = Inr []"
    using st1 by (simp add: Namespaces_def s2_def loadMap_def empty_store_def)
  have ex: "existingMembers demo_ie ''ns/name'' s2 = Inr []" using ns2 by (simp add: existingMembers_def)
  have up: "UpsertMember [] m = [m]" by (simp add: UpsertMember_def sort_by_def)
  have "QuantSyntax ''raw''" by code_simp
  then have val: "ValidateIndexMembers [m] = None"
    using sd(2) IsDigest_Digest by (simp add: ValidateIndexMembers_None m_def)
  have "look s2 ?pp = None" using s1(2) by (simp add: s2_def look_def)
  then obtain s3 where put: "Put (calm_env ''12345678'') (sha256_hex ''{}'') ''{}'' s2 = (s3, Inr ())"
    using Put_fresh [of "calm_env ''12345678''" s2 "''{}''"] by (cases "Put (calm_env ''12345678'') (sha256_hex ''{}'') ''{}'' s2") simp
  have "sState s3 = sState s2" by (metis Put_state put fst_conv)
  then have "loadMap s3 namespacesFile = Inr []" using ns2 by (simp add: Namespaces_def loadMap_def)
  moreover have "ValidNamespaceKey ''ns/name''" by code_simp
  ultimately obtain s4 where sn: "SetNamespace no_fault ''ns/name'' (Digest ''{}'') s3 = (s4, Inr ())"
    by (simp add: SetNamespace_def n updateMap_no_fault)
  have pe: "ieCodec demo_ie = demo_codec" "iePut demo_ie 1 0 = calm_env ''12345678''" "ieFault demo_ie 1 = no_fault"
    "canonIndex demo_codec = (\<lambda>_. Inr ''{}'')"
    by (simp_all add: demo_ie_def demo_codec_def)
  have seal_ix: "SealIndex (ieCodec demo_ie) [m] = Inr (''{}'', Digest ''{}'')"
    by (simp add: SealIndex_def pe)
  have idx: "publish_index demo_ie 1 ''ns/name'' [m] s2 = (s4, Inr (Digest ''{}''))"
    by (simp add: publish_index_def Let_def ex up val put sn seal_ix [unfolded pe] putCanonical_def pe [unfolded One_nat_def]
        DigestHex_Digest)
  have order: "groupOrder (clEntries demo_class) = [?g]"
    by (simp add: groupOrder_def demo_class_def demo_entry is_weights_entry_def blank_entry_def sort_strings_def sort_by_def)
  have we: "list_ex is_weights_entry (clEntries demo_class)"
    by (simp add: demo_class_def demo_entry is_weights_entry_def blank_entry_def)
  have ing: "ingest demo_ie demo_weights 0 (clEntries demo_class) [] = Inr [(''w.gguf'', ''w'')]"
    by (simp add: demo_class_def demo_entry blank_entry_def entry_content_def demo_ie_def)
  have sorted: "sort_by (\<lambda>a b. srName a < srName b) demo_weights = demo_weights" "demo_weights \<noteq> []"
    by (simp_all add: demo_weights_def sort_by_def)
  have dc: "clWarnings demo_class = []" "opAs demo_opts = ''ns/name''" by (simp_all add: demo_class_def demo_opts_def)
  have "\<exists>res. Import demo_ie demo_opts demo_weights s = (s4, Inr res)"
    unfolding Import_def Let_def sorted demo_classify order
    using groups [unfolded gs_def] idx by (simp add: sorted we ing dc order mem del: import_groups.simps)
  then show ?thesis by blast
qed

lemma Import_published_witness:
  "\<exists>s' res. Import demo_ie demo_opts demo_weights empty_store = (s', Inr res)
    \<and> (\<forall>ai \<in> set (irArtifacts res). published demo_ie s' ai)"
proof -
  have "look empty_store (part_path (calm_env ''12345678'')) = None" by simp
  then show ?thesis using demo_import [of empty_store] Import_published by blast
qed

text \<open>
  A failed import leaves every namespace as it was, so a half-written import is never visible
  under a name; what it has already written are sound blobs and distribution links. (Only a failing
  sync of the directory after the rename leaves the new namespace in place and reports an error.)
\<close>

lemma Import_error_frame:
  assumes "Import ie opts sources s = (s', Inl e)" and "e \<noteq> NamespaceFailed (IOErr SysSyncDir)"
  shows "sState s' namespacesFile = sState s namespacesFile \<and> Namespaces s' = Namespaces s \<and> keeps s s'"
proof -
  have "sState s' namespacesFile = sState s namespacesFile \<and> keeps s s'"
    using Import_stages [OF assms(1)]
  proof (elim disjE exE conjE)
    fix c blobs s1 r1
    assume "import_groups ie opts c 0 (groupOrder (clEntries c))
      \<lparr>gsBlobs = blobs, gsTaken = [], gsWarnings = clWarnings c, gsMembers = [], gsArtifacts = []\<rparr> s = (s1, r1)"
    note fg = import_groups_frame [OF this groups_ok_init]
    show ?thesis if "s' = s1" using fg that by simp
    show ?thesis if "r1 = Inr gs" "publish_index ie (length (groupOrder (clEntries c))) (opAs opts) (gsMembers gs) s1 = (s', r2)"
      "map_sum id (\<lambda>d. \<lparr>irIndexDigest = d, irMembers = gsMembers gs,
         irArtifacts = gsArtifacts gs, irWarnings = gsWarnings gs, irSkipped = clSkipped c\<rparr>) r2 = Inl e" for gs r2
    proof -
      have "distinct (map imQuant (gsMembers gs))" using fg that(1) by (simp add: groups_ok_def)
      note fp = publish_index_frame [OF that(2) this]
      have "r2 = Inl e" using that(3) by (cases r2) auto
      then show ?thesis using fg fp assms(2) keeps_trans [of s s1 s'] by auto
    qed
  qed auto
  then show ?thesis by (simp add: Namespaces_def loadMap_def)
qed

lemma Import_error_frame_witness:
  "\<exists>s'. Import demo_ie demo_opts [] empty_store = (s', Inl ErrNoFiles) \<and> Namespaces s' = Namespaces empty_store"
  using Import_error_frame [of demo_ie demo_opts "[]" empty_store empty_store ErrNoFiles]
  by (simp add: Import_def)

interpretation source_order: comparator "\<lambda>a b. srName a < srName b" "\<lambda>_. True"
  by unfold_locales auto

text \<open>
  The order in which a source lists its files does not matter: the same files give the same
  artifacts, the same index and the same store.
\<close>

lemma Import_convergent:
  assumes "mset sources' = mset sources" and "distinct (map srName sources)"
  shows "Import ie opts sources' s = Import ie opts sources s"
proof -
  have "sort_by (\<lambda>a b. srName a < srName b) sources' = sort_by (\<lambda>a b. srName a < srName b) sources"
  proof (rule source_order.sort_by_unique [OF assms(1)])
    have s: "set sources' = set sources" using assms(1) by (metis set_mset_mset)
    show "a = b" if "a \<in> set sources'" "b \<in> set sources'" "\<not> srName a < srName b" "\<not> srName b < srName a" for a b
    proof -
      have "srName a = srName b" using that(3,4) by simp
      then show ?thesis using that(1,2) s assms(2) by (metis distinct_map inj_onD)
    qed
  qed simp
  moreover have "sources' = [] \<longleftrightarrow> sources = []" using assms(1) by (metis mset_zero_iff)
  ultimately show ?thesis by (simp add: Import_def)
qed

definition demo_pair :: "Source list" where
  "demo_pair = [\<lparr>srName = ''w.gguf'', srRead = Some ''w''\<rparr>, \<lparr>srName = ''LICENSE'', srRead = Some ''MIT''\<rparr>]"

lemma Import_convergent_witness:
  "Import demo_ie demo_opts (rev demo_pair) empty_store = Import demo_ie demo_opts demo_pair empty_store"
  by (rule Import_convergent) (simp_all add: demo_pair_def)

end
