(* ===== verification/Config.thy ===== *)
theory Config
  imports Text "HOL-Library.AList"
begin

text \<open>
  Configuration: \<open>internal/config/config.go\<close>, the parser of the small TOML subset shared by the
  daemon and the command line, and \<open>cmd/shardhive/config.go\<close> with \<open>catalog/url.go\<close>, the settings the
  daemon draws from it. A Go map is an association list with distinct keys; where the code iterates
  over one, the order is an argument. The URL parser is a parameter.
\<close>

subsection \<open>Values and files\<close>

datatype Kind = KindString | KindBool | KindInt

record Value =
  vStr :: string
  vBool :: bool
  vInt :: int
  vKind :: Kind

definition zero_value :: Value where
  "zero_value = \<lparr>vStr = [], vBool = False, vInt = 0, vKind = KindString\<rparr>"

definition StrVal :: "string \<Rightarrow> Value" where "StrVal s = zero_value\<lparr>vStr := s, vKind := KindString\<rparr>"
definition BoolVal :: "bool \<Rightarrow> Value" where "BoolVal b = zero_value\<lparr>vBool := b, vKind := KindBool\<rparr>"
definition IntVal :: "int \<Rightarrow> Value" where "IntVal n = zero_value\<lparr>vInt := n, vKind := KindInt\<rparr>"

type_synonym section_map = "(string \<times> Value) list"
type_synonym config_file = "(string \<times> section_map) list"

text \<open>Errors name the line, counted from 1.\<close>

datatype config_error =
    MalformedHeader nat string | ExpectedKeyValue nat string | UnterminatedString nat
  | BadScalar nat string | DuplicateKey nat string string

subsection \<open>The parser\<close>

text \<open>The text before a comment: a \<open>#\<close> outside double quotes.\<close>

fun comment_cut :: "bool \<Rightarrow> string \<Rightarrow> string option" where
  "comment_cut q [] = None"
| "comment_cut q (c # s) =
     (if c = CHR 0x22 then map_option ((#) c) (comment_cut (\<not> q) s)
      else if c = CHR 0x23 \<and> \<not> q then Some []
      else map_option ((#) c) (comment_cut q s))"

definition stripComment :: "string \<Rightarrow> string" where
  "stripComment v = (case comment_cut False v of None \<Rightarrow> v | Some p \<Rightarrow> TrimSpace p)"

definition parseValue :: "nat \<Rightarrow> string \<Rightarrow> config_error + Value" where
  "parseValue ln val =
     (if HasPrefix val [CHR 0x22] then
        if length val < 2 \<or> \<not> HasSuffix val [CHR 0x22] then Inl (UnterminatedString (ln + 1))
        else Inr (StrVal (take (length val - 2) (drop 1 val)))
      else if val = ''true'' then Inr (BoolVal True)
      else if val = ''false'' then Inr (BoolVal False)
      else case ParseInt val of
             Some n \<Rightarrow> Inr (IntVal n)
           | None \<Rightarrow> Inl (BadScalar (ln + 1) val))"

text \<open>\<open>f[section]\<close>, empty when absent.\<close>

definition sec_of :: "config_file \<Rightarrow> string \<Rightarrow> section_map" where
  "sec_of f s = (case map_of f s of None \<Rightarrow> [] | Some m \<Rightarrow> m)"

definition parse_header :: "nat \<Rightarrow> string \<Rightarrow> string \<Rightarrow> config_file \<Rightarrow> config_error + config_file \<times> string" where
  "parse_header ln raw line f =
     (let line = stripComment line in
      if \<not> HasSuffix line '']'' then Inl (MalformedHeader (ln + 1) raw)
      else
        let s = TrimSpace (take (length line - 2) (drop 1 line)) in
        Inr (if map_of f s = None then AList.update s [] f else f, s))"

definition parse_entry :: "nat \<Rightarrow> string \<Rightarrow> config_file \<Rightarrow> string \<Rightarrow> config_error + config_file \<times> string" where
  "parse_entry ln line f sect =
     (case cut_at (CHR ''='') line of
        None \<Rightarrow> Inl (ExpectedKeyValue (ln + 1) line)
      | Some (key, val) \<Rightarrow>
          let key = TrimSpace key in
          bind_res (parseValue ln (stripComment (TrimSpace val))) (\<lambda>v.
          if map_of (sec_of f sect) key \<noteq> None then Inl (DuplicateKey (ln + 1) key sect)
          else Inr (AList.update sect (AList.update key v (sec_of f sect)) f, sect)))"

definition parse_line :: "nat \<Rightarrow> string \<Rightarrow> config_file \<times> string \<Rightarrow> config_error + config_file \<times> string" where
  "parse_line ln raw = (\<lambda>(f, sect).
     let line = TrimSpace raw in
     if line = [] \<or> HasPrefix line [CHR 0x23] then Inr (f, sect)
     else if HasPrefix line ''['' then parse_header ln raw line f
     else parse_entry ln line f sect)"

fun parse_lines :: "nat \<Rightarrow> string list \<Rightarrow> config_file \<times> string \<Rightarrow> config_error + config_file \<times> string" where
  "parse_lines ln [] st = Inr st"
| "parse_lines ln (raw # rest) st = bind_res (parse_line ln raw st) (parse_lines (ln + 1) rest)"

definition ParseConfig :: "string \<Rightarrow> config_error + config_file" where
  "ParseConfig data = map_sum id fst (parse_lines 0 (split_on (CHR 0x0A) data) ([], []))"

subsection \<open>Where the file is\<close>

definition ConfigPath :: "(string \<Rightarrow> string) \<Rightarrow> string option \<Rightarrow> string option" where
  "ConfigPath env home =
     (if env ''SHARDR_CONFIG'' \<noteq> [] then Some (env ''SHARDR_CONFIG'')
      else if env ''XDG_CONFIG_HOME'' \<noteq> [] then Some (Join [env ''XDG_CONFIG_HOME'', ''shardr'', ''config.toml''])
      else map_option (\<lambda>h. Join [h, ''.config'', ''shardr'', ''config.toml'']) home)"

datatype file_read = FileMissing | FileUnreadable | FileContent string

datatype load_error = NoHome | Unreadable string | ParseFailed config_error

definition LoadConfig :: "(string \<Rightarrow> string) \<Rightarrow> string option \<Rightarrow> (string \<Rightarrow> file_read) \<Rightarrow> load_error + config_file" where
  "LoadConfig env home read =
     (case ConfigPath env home of
        None \<Rightarrow> Inl NoHome
      | Some path \<Rightarrow>
        (case read path of
           FileMissing \<Rightarrow> Inr []
         | FileUnreadable \<Rightarrow> Inl (Unreadable path)
         | FileContent data \<Rightarrow> map_sum ParseFailed id (ParseConfig data)))"

subsection \<open>The daemon's settings\<close>

definition swarmSection :: string where "swarmSection = ''swarm''"
definition catalogSection :: string where "catalogSection = ''catalog''"

definition swarmKeys :: "string list" where
  "swarmKeys = [''enabled'', ''seed'', ''upload_limit'', ''dht'', ''no_seed_verify'', ''webseed_addr'']"

definition catalogKeys :: "string list" where
  "catalogKeys = [''upload_limit'', ''url'']"

record swarm_config =
  scEnabled :: bool
  scSeed :: bool
  scUploadLimit :: int
  scDHT :: bool
  scNoSeedVerify :: bool
  scWebseedAddr :: string
  scCatalogUploadLimit :: int

definition DefaultConfig :: swarm_config where
  "DefaultConfig = \<lparr>scEnabled = True, scSeed = True, scUploadLimit = 0, scDHT = True, scNoSeedVerify = False,
     scWebseedAddr = ''127.0.0.1:0'', scCatalogUploadLimit = 0\<rparr>"

datatype setting_error =
    LoadFailed load_error | UnknownKey string string | WantBool string | WantInt string
  | NegativeLimit string | WantString string | BadURL string | NoSwarm

definition sortedKeys :: "section_map \<Rightarrow> string list" where
  "sortedKeys sec = sort_by (<) (map fst sec)"

definition wantBool :: "string \<Rightarrow> Value \<Rightarrow> setting_error + bool" where
  "wantBool key v = (if vKind v \<noteq> KindBool then Inl (WantBool key) else Inr (vBool v))"

definition wantInt :: "string \<Rightarrow> Value \<Rightarrow> setting_error + int" where
  "wantInt key v = (if vKind v \<noteq> KindInt then Inl (WantInt key) else Inr (vInt v))"

definition set_swarm_key :: "string \<times> Value \<Rightarrow> swarm_config \<Rightarrow> setting_error + swarm_config" where
  "set_swarm_key = (\<lambda>(key, v) cfg.
     if key = ''enabled'' then map_sum id (\<lambda>b. cfg\<lparr>scEnabled := b\<rparr>) (wantBool key v)
     else if key = ''seed'' then map_sum id (\<lambda>b. cfg\<lparr>scSeed := b\<rparr>) (wantBool key v)
     else if key = ''dht'' then map_sum id (\<lambda>b. cfg\<lparr>scDHT := b\<rparr>) (wantBool key v)
     else if key = ''no_seed_verify'' then map_sum id (\<lambda>b. cfg\<lparr>scNoSeedVerify := b\<rparr>) (wantBool key v)
     else if key = ''upload_limit'' then
       bind_res (wantInt key v) (\<lambda>n. if n < 0 then Inl (NegativeLimit key) else Inr (cfg\<lparr>scUploadLimit := n\<rparr>))
     else if key = ''webseed_addr'' then Inr (cfg\<lparr>scWebseedAddr := vStr v\<rparr>)
     else Inr cfg)"

fun set_swarm_keys :: "section_map \<Rightarrow> swarm_config \<Rightarrow> setting_error + swarm_config" where
  "set_swarm_keys [] cfg = Inr cfg"
| "set_swarm_keys (kv # kvs) cfg = bind_res (set_swarm_key kv cfg) (set_swarm_keys kvs)"

text \<open>\<open>order\<close> is the order in which the runtime iterates over the section.\<close>

definition loadSwarmConfig ::
  "(section_map \<Rightarrow> section_map) \<Rightarrow> load_error + config_file \<Rightarrow> setting_error + swarm_config" where
  "loadSwarmConfig order loaded =
     (case loaded of
        Inl e \<Rightarrow> Inl (LoadFailed e)
      | Inr f \<Rightarrow>
        (case map_of f swarmSection of
           None \<Rightarrow> Inr DefaultConfig
         | Some sec \<Rightarrow>
           (case find (\<lambda>key. key \<notin> set swarmKeys) (sortedKeys sec) of
              Some key \<Rightarrow> Inl (UnknownKey swarmSection key)
            | None \<Rightarrow> set_swarm_keys (order sec) DefaultConfig)))"

definition unknownCatalogKey :: "section_map \<Rightarrow> setting_error + unit" where
  "unknownCatalogKey sec =
     (case find (\<lambda>key. key \<notin> set catalogKeys) (sortedKeys sec) of
        Some key \<Rightarrow> Inl (UnknownKey catalogSection key)
      | None \<Rightarrow> Inr ())"

definition resolveCatalogUploadLimit :: "config_file \<Rightarrow> int \<Rightarrow> setting_error + int" where
  "resolveCatalogUploadLimit f swarmLimit =
     (case map_of f catalogSection of
        None \<Rightarrow> Inr swarmLimit
      | Some sec \<Rightarrow>
        bind_res (unknownCatalogKey sec) (\<lambda>_.
        case map_of sec ''upload_limit'' of
          None \<Rightarrow> Inr swarmLimit
        | Some v \<Rightarrow>
            if vKind v \<noteq> KindInt then Inl (WantInt ''upload_limit'')
            else if vInt v < 0 then Inl (NegativeLimit ''upload_limit'')
            else Inr (vInt v)))"

text \<open>What \<open>url.Parse\<close> makes of an address, as far as the check looks at it.\<close>

record parsed_url =
  puScheme :: string
  puHost :: string
  puPath :: string
  puRawQuery :: string
  puFragment :: string
  puUser :: bool

definition ValidateBaseURL :: "(string \<Rightarrow> parsed_url option) \<Rightarrow> string \<Rightarrow> setting_error + unit" where
  "ValidateBaseURL parse raw =
     (case parse raw of
        None \<Rightarrow> Inl (BadURL raw)
      | Some u \<Rightarrow>
          if puScheme u \<noteq> ''https'' \<or> puHost u = [] \<or> puPath u \<noteq> [] \<or> puRawQuery u \<noteq> [] \<or> puFragment u \<noteq> [] \<or> puUser u
          then Inl (BadURL raw) else Inr ())"

definition ResolveConfigURL :: "(string \<Rightarrow> parsed_url option) \<Rightarrow> config_file \<Rightarrow> setting_error + string" where
  "ResolveConfigURL parse f =
     (case map_of f ''catalog'' of
        None \<Rightarrow> Inr []
      | Some sec \<Rightarrow>
        (case map_of sec ''url'' of
           None \<Rightarrow> Inr []
         | Some v \<Rightarrow>
             if vKind v \<noteq> KindString then Inl (WantString ''url'')
             else map_sum id (\<lambda>_. vStr v) (ValidateBaseURL parse (vStr v))))"

definition resolveCatalogURL :: "(string \<Rightarrow> parsed_url option) \<Rightarrow> config_file \<Rightarrow> setting_error + string" where
  "resolveCatalogURL parse f =
     (case map_of f catalogSection of
        None \<Rightarrow> Inr []
      | Some sec \<Rightarrow> bind_res (unknownCatalogKey sec) (\<lambda>_. ResolveConfigURL parse f))"

definition DefaultPiratefaceURL :: string where
  "DefaultPiratefaceURL = ''https://pirateface.co''"

definition NewPiratefaceAt :: "(string \<Rightarrow> string) \<Rightarrow> string \<Rightarrow> string" where
  "NewPiratefaceAt env base =
     (let base = (if base = [] then env ''SHARDR_CATALOG_URL'' else base) in
      if base = [] then DefaultPiratefaceURL else base)"

definition newCatalogProvider ::
  "(string \<Rightarrow> string) \<Rightarrow> (string \<Rightarrow> parsed_url option) \<Rightarrow> load_error + config_file \<Rightarrow> setting_error + string" where
  "newCatalogProvider env parse loaded =
     (case loaded of
        Inl e \<Rightarrow> Inl (LoadFailed e)
      | Inr f \<Rightarrow> map_sum id (NewPiratefaceAt env) (resolveCatalogURL parse f))"

text \<open>
  The settings \<open>serve\<close> starts the swarm client with; \<open>flag\<close> is \<open>--seed-no-verify\<close>. The file is
  read once per setting, here it is the same each time.
\<close>

definition serve_settings ::
  "(section_map \<Rightarrow> section_map) \<Rightarrow> load_error + config_file \<Rightarrow> bool \<Rightarrow> setting_error + swarm_config" where
  "serve_settings order loaded flag =
     bind_res (loadSwarmConfig order loaded) (\<lambda>cfg.
     bind_res (case loaded of
                 Inl e \<Rightarrow> Inl (LoadFailed e)
               | Inr f \<Rightarrow> resolveCatalogUploadLimit f (scUploadLimit cfg)) (\<lambda>lim.
     let cfg = cfg\<lparr>scCatalogUploadLimit := lim\<rparr> in
     if flag then if \<not> scEnabled cfg then Inl NoSwarm else Inr (cfg\<lparr>scNoSeedVerify := True\<rparr>)
     else Inr cfg))"


subsection \<open>Printing and reading back\<close>

definition print_value :: "Value \<Rightarrow> string" where
  "print_value v =
     (case vKind v of
        KindString \<Rightarrow> CHR 0x22 # vStr v @ [CHR 0x22]
      | KindBool \<Rightarrow> if vBool v then ''true'' else ''false''
      | KindInt \<Rightarrow> dec_int (vInt v))"

definition print_entry :: "string \<times> Value \<Rightarrow> string" where
  "print_entry = (\<lambda>(key, v). key @ '' = '' @ print_value v @ [CHR 0x0A])"

definition print_section :: "string \<times> section_map \<Rightarrow> string" where
  "print_section = (\<lambda>(s, kvs). ''['' @ s @ '']'' @ [CHR 0x0A] @ concat (map print_entry kvs))"

definition print_config :: "config_file \<Rightarrow> string" where
  "print_config f = concat (map print_section f)"

definition value_wf :: "Value \<Rightarrow> bool" where
  "value_wf v \<longleftrightarrow>
     (\<exists>s. v = StrVal s \<and> CHR 0x22 \<notin> set s \<and> CHR 0x0A \<notin> set s) \<or> (\<exists>b. v = BoolVal b)
     \<or> (\<exists>n. v = IntVal n \<and> is_int64 n)"

definition key_wf :: "string \<Rightarrow> bool" where
  "key_wf k \<longleftrightarrow> k \<noteq> [] \<and> trimmed k \<and> CHR ''='' \<notin> set k \<and> CHR 0x0A \<notin> set k \<and> hd k \<noteq> CHR ''['' \<and> hd k \<noteq> CHR 0x23"

definition name_wf :: "string \<Rightarrow> bool" where
  "name_wf s \<longleftrightarrow> trimmed s \<and> CHR 0x23 \<notin> set s \<and> CHR 0x0A \<notin> set s"

definition section_wf :: "section_map \<Rightarrow> bool" where
  "section_wf kvs \<longleftrightarrow> distinct (map fst kvs) \<and> list_all (\<lambda>(k, v). key_wf k \<and> value_wf v) kvs"

definition config_wf :: "config_file \<Rightarrow> bool" where
  "config_wf f \<longleftrightarrow> distinct (map fst f) \<and> list_all (\<lambda>(s, kvs). name_wf s \<and> section_wf kvs) f"

lemma comment_cut_none: "CHR 0x23 \<notin> set s \<Longrightarrow> comment_cut q s = None"
  by (induction s arbitrary: q) auto

lemma comment_cut_quoted: "CHR 0x22 \<notin> set s \<Longrightarrow> comment_cut True (s @ [CHR 0x22]) = None"
  by (induction s) auto

lemma dec_int_digits: "c \<in> set (dec_int n) \<Longrightarrow> c = CHR ''-'' \<or> is_digit c"
  using dec_nat_facts [of "nat n"] dec_nat_facts [of "nat (- n)"]
  by (auto simp: dec_int_def list_all_iff split: if_splits)

lemma dec_int_Nil [simp]: "dec_int n \<noteq> []"
  using dec_nat_facts [of "nat n"] by (simp add: dec_int_def)

lemma digit_chars: "is_digit c \<Longrightarrow> c \<noteq> CHR 0x23 \<and> c \<noteq> CHR 0x0A \<and> c \<noteq> CHR 0x22 \<and> solid c \<and> c \<noteq> CHR ''t'' \<and> c \<noteq> CHR ''f''"
  by (auto simp: is_digit_def solid_def ascii_def space_char_def)

lemma dec_int_chars:
  assumes "c \<in> set (dec_int n)"
  shows "c \<noteq> CHR 0x23 \<and> c \<noteq> CHR 0x0A \<and> c \<noteq> CHR 0x22 \<and> solid c \<and> c \<noteq> CHR ''t'' \<and> c \<noteq> CHR ''f''"
  using dec_int_digits [OF assms]
proof
  assume "c = CHR ''-''"
  then show ?thesis by (simp add: solid_def ascii_def space_char_def)
qed (rule digit_chars)

lemma print_value_facts:
  assumes "value_wf v"
  shows "parseValue ln (print_value v) = Inr v" "stripComment (print_value v) = print_value v"
    "solid (hd (print_value v)) \<and> solid (last (print_value v))" "CHR 0x0A \<notin> set (print_value v)" "print_value v \<noteq> []"
proof -
  consider s where "v = StrVal s" "CHR 0x22 \<notin> set s" "CHR 0x0A \<notin> set s" | b where "v = BoolVal b"
    | n where "v = IntVal n" "is_int64 n"
    using assms by (auto simp: value_wf_def)
  then have "parseValue ln (print_value v) = Inr v \<and> stripComment (print_value v) = print_value v
    \<and> (solid (hd (print_value v)) \<and> solid (last (print_value v))) \<and> CHR 0x0A \<notin> set (print_value v) \<and> print_value v \<noteq> []"
  proof cases
    case 1
    have "comment_cut False (print_value v) = None"
      using comment_cut_quoted [OF 1(2)] 1(1) by (simp add: print_value_def StrVal_def)
    then show ?thesis using 1
      by (simp add: print_value_def StrVal_def parseValue_def stripComment_def solid_def ascii_def space_char_def HasPrefix_def HasSuffix_def)
  next
    case 2
    then show ?thesis by (cases b; simp; code_simp)
  next
    case 3
    let ?d = "dec_int n"
    have p: "print_value v = ?d" using 3 by (simp add: print_value_def IntVal_def)
    have c: "CHR 0x23 \<notin> set ?d" "CHR 0x0A \<notin> set ?d" using dec_int_chars by blast+
    have h: "hd ?d \<in> set ?d" "last ?d \<in> set ?d" by simp_all
    then have t: "solid (hd ?d) \<and> solid (last ?d)" using dec_int_chars [OF h(1)] dec_int_chars [OF h(2)] by simp
    have "hd ?d \<noteq> CHR 0x22" "hd ?d \<noteq> CHR ''t''" "hd ?d \<noteq> CHR ''f''" using dec_int_chars [OF h(1)] by simp_all
    then have "\<not> HasPrefix ?d [CHR 0x22]" "?d \<noteq> ''true''" "?d \<noteq> ''false''"
      by (auto simp: HasPrefix_iff)
    then have "parseValue ln ?d = Inr v" using ParseInt_dec_int [OF 3(2)] 3(1) by (simp add: parseValue_def)
    then show ?thesis using p c t comment_cut_none [OF c(1), of False] by (simp add: stripComment_def)
  qed
  then show "parseValue ln (print_value v) = Inr v" "stripComment (print_value v) = print_value v"
    "solid (hd (print_value v)) \<and> solid (last (print_value v))" "CHR 0x0A \<notin> set (print_value v)" "print_value v \<noteq> []" by blast+
qed

lemma parse_print_entry:
  assumes "key_wf k" "value_wf v" "k \<notin> fst ` set kvs" "s \<notin> fst ` set f"
  shows "parse_line ln (k @ '' = '' @ print_value v) (f @ [(s, kvs)], s) = Inr (f @ [(s, kvs @ [(k, v)])], s)"
proof -
  define line where "line = k @ '' = '' @ print_value v"
  note v = print_value_facts [OF assms(2)]
  have "trimmed k" "k \<noteq> []" using assms(1) by (auto simp: key_wf_def)
  then have t: "trimmed line"
    using v(3,5) leading_append [of k "CHR '' ''" "''= '' @ print_value v"] trailing_solid [of line]
    by (simp add: trimmed_def line_def ascii_def)
  have h: "\<not> HasPrefix line [CHR 0x23]" "\<not> HasPrefix line ''[''" "line \<noteq> []"
    using assms(1) by (auto simp: key_wf_def HasPrefix_iff neq_Nil_conv line_def)
  have c: "cut_at (CHR ''='') line = Some (k @ '' '', '' '' @ print_value v)"
    using assms(1) cut_at_append [of "CHR ''=''" "k @ '' ''" "'' '' @ print_value v"] by (simp add: key_wf_def line_def)
  have pv: "trimmed (print_value v)" using v(3,5) trimmed_solid by (cases "print_value v") auto
  have k: "TrimSpace (k @ '' '') = k" "TrimSpace ('' '' @ print_value v) = print_value v"
    using assms(1) TrimSpace_snoc [of k "CHR '' ''"] TrimSpace_Cons [of "CHR '' ''" "print_value v"] TrimSpace_id [OF pv]
    by (simp_all add: key_wf_def space_char_def)
  have "map_of f s = None" using assms(4) by (simp add: map_of_eq_None_iff)
  then have m: "sec_of (f @ [(s, kvs)]) s = kvs" by (simp add: sec_of_def map_add_def)
  have u: "AList.update s m (f @ [(s, kvs)]) = f @ [(s, m)]" for m :: section_map
    using assms(4) by (induction f) auto
  have w: "AList.update k v kvs = kvs @ [(k, v)]" using assms(3) by (induction kvs) auto
  have "map_of kvs k = None" using assms(3) by (simp add: map_of_eq_None_iff)
  then show ?thesis
    unfolding line_def [symmetric] using h
    by (simp add: parse_line_def TrimSpace_id [OF t] parse_entry_def c k [simplified] v m u w Let_def)
qed

lemma parse_lines_cut:
  "CHR 0x0A \<notin> set l \<Longrightarrow>
     parse_lines ln (split_on (CHR 0x0A) (l @ CHR 0x0A # rest)) st
       = bind_res (parse_line ln l st) (parse_lines (ln + 1) (split_on (CHR 0x0A) rest))"
  by (simp add: split_on_append)

lemma parse_print_entries:
  assumes "section_wf (kvs @ new)" "s \<notin> fst ` set f"
  shows "\<exists>ln'. parse_lines ln (split_on (CHR 0x0A) (concat (map print_entry new) @ rest)) (f @ [(s, kvs)], s)
    = parse_lines ln' (split_on (CHR 0x0A) rest) (f @ [(s, kvs @ new)], s)"
  using assms(1)
proof (induction new arbitrary: kvs ln)
  case (Cons kv new)
  obtain k v where kv: "kv = (k, v)" by (cases kv)
  have wf: "key_wf k" "value_wf v" "k \<notin> fst ` set kvs" using Cons.prems by (auto simp: kv section_wf_def)
  then have "CHR 0x0A \<notin> set (k @ '' = '' @ print_value v)"
    using print_value_facts(4) [OF wf(2)] by (simp add: key_wf_def)
  from parse_lines_cut [OF this] have
    "parse_lines ln (split_on (CHR 0x0A) (concat (map print_entry (kv # new)) @ rest)) (f @ [(s, kvs)], s)
     = parse_lines (ln + 1) (split_on (CHR 0x0A) (concat (map print_entry new) @ rest)) (f @ [(s, kvs @ [(k, v)])], s)"
    using parse_print_entry [OF wf assms(2)] by (simp add: kv print_entry_def)
  moreover have "section_wf ((kvs @ [(k, v)]) @ new)" using Cons.prems by (simp add: kv)
  ultimately show ?case using Cons.IH [of "kvs @ [(k, v)]" "ln + 1"] by (simp add: kv)
qed auto

lemma parse_print_header:
  assumes "name_wf s" "s \<notin> fst ` set f"
  shows "parse_line ln (''['' @ s @ '']'') (f, sect) = Inr (f @ [(s, [])], s)"
proof -
  let ?line = "''['' @ s @ '']''"
  have t: "trimmed ?line" by (simp add: trimmed_solid solid_def ascii_def space_char_def)
  have c: "stripComment ?line = ?line"
    using comment_cut_none [of ?line False] assms(1) by (simp add: stripComment_def name_wf_def)
  have u: "AList.update s ([] :: section_map) f = f @ [(s, [])]" using assms(2) by (induction f) auto
  have "map_of f s = None" using assms(2) by (simp add: map_of_eq_None_iff)
  moreover have "HasSuffix ?line '']''" using HasSuffix_append [of "''['' @ s" "'']''"] by simp
  moreover have "TrimSpace s = s" using assms(1) by (simp add: name_wf_def TrimSpace_id)
  ultimately show ?thesis
    by (simp add: parse_line_def TrimSpace_id [OF t, simplified] parse_header_def c [simplified] u Let_def)
qed

lemma parse_print_sections:
  assumes "config_wf (f @ new)"
  shows "map_sum id fst (parse_lines ln (split_on (CHR 0x0A) (print_config new)) (f, sect)) = Inr (f @ new)"
  using assms
proof (induction new arbitrary: f ln sect)
  case Nil
  then show ?case by (simp add: print_config_def parse_line_def)
next
  case (Cons sc new)
  obtain s kvs where sc: "sc = (s, kvs)" by (cases sc)
  have wf: "name_wf s" "s \<notin> fst ` set f" "section_wf kvs" using Cons.prems by (auto simp: sc config_wf_def)
  have "CHR 0x0A \<notin> set (''['' @ s @ '']'')" using wf(1) by (simp add: name_wf_def)
  from parse_lines_cut [OF this, of ln "concat (map print_entry kvs) @ print_config new" "(f, sect)"]
  have "parse_lines ln (split_on (CHR 0x0A) (print_config (sc # new))) (f, sect)
    = parse_lines (ln + 1) (split_on (CHR 0x0A) (concat (map print_entry kvs) @ print_config new)) (f @ [(s, [])], s)"
    using parse_print_header [OF wf(1,2)] by (simp add: sc print_config_def print_section_def)
  moreover obtain ln' where
    "parse_lines (ln + 1) (split_on (CHR 0x0A) (concat (map print_entry kvs) @ print_config new)) (f @ [(s, [])], s)
     = parse_lines ln' (split_on (CHR 0x0A) (print_config new)) (f @ [(s, kvs)], s)"
    using parse_print_entries [of "[]" kvs s f "ln + 1" "print_config new"] wf by auto
  moreover have "config_wf ((f @ [(s, kvs)]) @ new)" using Cons.prems by (simp add: sc)
  ultimately show ?case using Cons.IH [of "f @ [(s, kvs)]" ln' s] by (simp add: sc)
qed

text \<open>
  C18: a configuration written out section by section and key by key is read back as it is: strings
  with any character but quotes and line ends (comment signs included), both booleans and every
  64-bit integer; duplicate keys are what the format cannot hold.
\<close>

theorem ParseConfig_print: "config_wf f \<Longrightarrow> ParseConfig (print_config f) = Inr f"
  using parse_print_sections [of "[]" f 0 "[]"] by (simp add: ParseConfig_def)

definition demo_config :: config_file where
  "demo_config = [(''swarm'', [(''enabled'', BoolVal True), (''upload_limit'', IntVal 4096)]),
     (''catalog'', [(''url'', StrVal ''https://h#1'')])]"

lemma ParseConfig_print_witness: "ParseConfig (print_config demo_config) = Inr demo_config"
proof (rule ParseConfig_print)
  have k: "key_wf ''enabled''" "key_wf ''upload_limit''" "key_wf ''url''" "name_wf ''swarm''" "name_wf ''catalog''"
    by code_simp+
  have v: "value_wf (BoolVal True)" "value_wf (IntVal 4096)" "value_wf (StrVal ''https://h#1'')"
    by (auto simp: value_wf_def is_int64_def)
  show "config_wf demo_config" using k v by (simp add: demo_config_def config_wf_def section_wf_def)
qed


subsection \<open>The settings in effect\<close>

definition swarm_entry_ok :: "string \<times> Value \<Rightarrow> bool" where
  "swarm_entry_ok = (\<lambda>(k, v).
     if k \<in> {''enabled'', ''seed'', ''dht'', ''no_seed_verify''} then vKind v = KindBool
     else if k = ''upload_limit'' then vKind v = KindInt \<and> 0 \<le> vInt v
     else k = ''webseed_addr'' \<and> vKind v = KindString)"

definition catalog_ok :: "section_map \<Rightarrow> bool" where
  "catalog_ok sec \<longleftrightarrow>
     fst ` set sec \<subseteq> set catalogKeys
     \<and> (case map_of sec ''upload_limit'' of None \<Rightarrow> True | Some v \<Rightarrow> vKind v = KindInt \<and> 0 \<le> vInt v)"

text \<open>The address of the catalog: an \<open>https\<close> address of a host and nothing else; \<open>parse\<close> is the URL parser.\<close>

definition base_url_ok :: "(string \<Rightarrow> parsed_url option) \<Rightarrow> string \<Rightarrow> bool" where
  "base_url_ok parse s \<longleftrightarrow>
     (case parse s of
        None \<Rightarrow> False
      | Some u \<Rightarrow> puScheme u = ''https'' \<and> puHost u \<noteq> [] \<and> \<not> puUser u \<and> puPath u = [] \<and> puRawQuery u = [] \<and> puFragment u = [])"

definition url_ok :: "(string \<Rightarrow> parsed_url option) \<Rightarrow> section_map \<Rightarrow> bool" where
  "url_ok parse sec \<longleftrightarrow>
     (case map_of sec ''url'' of None \<Rightarrow> True | Some v \<Rightarrow> vKind v = KindString \<and> base_url_ok parse (vStr v))"

text \<open>The kind of the listening address is the one that the code does not check.\<close>

definition addr_is_string :: "section_map \<Rightarrow> bool" where
  "addr_is_string sec \<longleftrightarrow> (\<forall>v. (''webseed_addr'', v) \<in> set sec \<longrightarrow> vKind v = KindString)"

text \<open>A key's value, with the default for an absent one.\<close>

definition val_or :: "(string \<rightharpoonup> Value) \<Rightarrow> string \<Rightarrow> (Value \<Rightarrow> 'a) \<Rightarrow> 'a \<Rightarrow> 'a" where
  "val_or m k g d = (case m k of None \<Rightarrow> d | Some v \<Rightarrow> g v)"

definition overlay :: "(string \<rightharpoonup> Value) \<Rightarrow> swarm_config \<Rightarrow> swarm_config" where
  "overlay m cfg =
     cfg\<lparr>scEnabled := val_or m ''enabled'' vBool (scEnabled cfg),
         scSeed := val_or m ''seed'' vBool (scSeed cfg),
         scDHT := val_or m ''dht'' vBool (scDHT cfg),
         scNoSeedVerify := val_or m ''no_seed_verify'' vBool (scNoSeedVerify cfg),
         scUploadLimit := val_or m ''upload_limit'' vInt (scUploadLimit cfg),
         scWebseedAddr := val_or m ''webseed_addr'' vStr (scWebseedAddr cfg)\<rparr>"

text \<open>The settings a file stands for, and the files that stand for some.\<close>

definition settings_of :: "config_file \<Rightarrow> bool \<Rightarrow> swarm_config" where
  "settings_of f flag =
     (let cfg = overlay (map_of (sec_of f ''swarm'')) DefaultConfig in
      cfg\<lparr>scCatalogUploadLimit := val_or (map_of (sec_of f ''catalog'')) ''upload_limit'' vInt (scUploadLimit cfg),
          scNoSeedVerify := (flag \<or> scNoSeedVerify cfg)\<rparr>)"

definition provider_of :: "(string \<Rightarrow> string) \<Rightarrow> config_file \<Rightarrow> string" where
  "provider_of env f =
     hd (filter (\<lambda>u. u \<noteq> []) [val_or (map_of (sec_of f ''catalog'')) ''url'' vStr [], env ''SHARDR_CATALOG_URL'', DefaultPiratefaceURL])"

definition settings_ok :: "(string \<Rightarrow> parsed_url option) \<Rightarrow> config_file \<Rightarrow> bool \<Rightarrow> bool" where
  "settings_ok parse f flag \<longleftrightarrow>
     list_all swarm_entry_ok (sec_of f ''swarm'') \<and> catalog_ok (sec_of f ''catalog'') \<and> url_ok parse (sec_of f ''catalog'')
     \<and> (flag \<longrightarrow> scEnabled (settings_of f False))"

lemma set_swarm_key_Inr:
  assumes "fst kv \<in> set swarmKeys" and "addr_is_string [kv]"
  shows "set_swarm_key kv cfg = Inr cfg' \<longleftrightarrow> swarm_entry_ok kv \<and> cfg' = overlay [fst kv \<mapsto> snd kv] cfg"
proof -
  obtain k v where kv: "kv = (k, v)" by (cases kv)
  show ?thesis
  proof (cases "k = ''webseed_addr''")
    case True
    then have "vKind v = KindString" using assms(2) by (simp add: kv addr_is_string_def)
    then have "swarm_entry_ok (''webseed_addr'', v)" by (simp add: swarm_entry_ok_def)
    moreover have "overlay [''webseed_addr'' \<mapsto> v] cfg = cfg\<lparr>scWebseedAddr := vStr v\<rparr>" by (cases cfg) (simp add: overlay_def val_or_def)
    moreover have "set_swarm_key (''webseed_addr'', v) cfg = Inr (cfg\<lparr>scWebseedAddr := vStr v\<rparr>)" by (simp add: set_swarm_key_def)
    ultimately show ?thesis unfolding kv True fst_conv snd_conv by (simp only: sum.inject) blast
  next
    case False
    moreover have "k \<in> set swarmKeys" using assms(1) by (simp add: kv)
    ultimately have "k \<in> {''enabled'', ''seed'', ''upload_limit'', ''dht'', ''no_seed_verify''}"
      unfolding swarmKeys_def by (simp only: list.set insert_iff empty_iff) blast
    then show ?thesis
      unfolding kv fst_conv snd_conv
      by (elim insertE emptyE; hypsubst)
        (auto simp: set_swarm_key_def swarm_entry_ok_def overlay_def val_or_def wantBool_def wantInt_def)
  qed
qed

lemma overlay_empty [simp]: "overlay Map.empty cfg = cfg"
  by (simp add: overlay_def val_or_def)

lemma overlay_overlay: "m k = None \<Longrightarrow> overlay m (overlay [k \<mapsto> v] cfg) = overlay (m(k \<mapsto> v)) cfg"
  by (auto simp: overlay_def val_or_def split: option.splits)

lemma set_swarm_keys_Inr:
  "fst ` set kvs \<subseteq> set swarmKeys \<Longrightarrow> distinct (map fst kvs) \<Longrightarrow> addr_is_string kvs \<Longrightarrow>
     set_swarm_keys kvs cfg = Inr cfg' \<longleftrightarrow> list_all swarm_entry_ok kvs \<and> cfg' = overlay (map_of kvs) cfg"
proof (induction kvs arbitrary: cfg)
  case (Cons kv kvs)
  obtain k v where kv: "kv = (k, v)" by (cases kv)
  have "map_of kvs k = None" using Cons.prems(2) by (simp add: kv map_of_eq_None_iff)
  note ov = overlay_overlay [of "map_of kvs", OF this]
  have addr: "addr_is_string [kv]" "addr_is_string kvs"
    using Cons.prems(3) unfolding addr_is_string_def list.set by blast+
  have "set_swarm_keys (kv # kvs) cfg = Inr cfg' \<longleftrightarrow>
    (\<exists>c. set_swarm_key kv cfg = Inr c \<and> set_swarm_keys kvs c = Inr cfg')"
    by (simp add: bind_res_Inr)
  also have "\<dots> \<longleftrightarrow> swarm_entry_ok kv \<and> list_all swarm_entry_ok kvs \<and> cfg' = overlay (map_of kvs) (overlay [k \<mapsto> v] cfg)"
    using Cons.IH Cons.prems(1,2) addr set_swarm_key_Inr [of kv cfg] by (auto simp: kv)
  finally show ?case by (simp only: ov kv list.pred_inject map_of.simps fst_conv snd_conv conj_assoc)
qed auto

lemma swarm_entry_key: "swarm_entry_ok kv \<Longrightarrow> fst kv \<in> set swarmKeys"
  by (cases kv, rule ccontr) (simp add: swarm_entry_ok_def swarmKeys_def)

lemma swarm_entry_known: "list_all swarm_entry_ok kvs \<Longrightarrow> fst ` set kvs \<subseteq> set swarmKeys"
  using swarm_entry_key by (auto simp only: list_all_iff image_subset_iff)

lemma find_unknown: "find (\<lambda>k. k \<notin> A) xs = None \<longleftrightarrow> set xs \<subseteq> A"
  by (auto simp: find_None_iff)

lemma set_sortedKeys [simp]: "set (sortedKeys sec) = fst ` set sec"
  by (simp add: sortedKeys_def)

lemma loadSwarmConfig_Inr:
  assumes "\<And>m. mset (order m) = mset m" "distinct (map fst (sec_of f ''swarm''))" "addr_is_string (sec_of f ''swarm'')"
  shows "loadSwarmConfig order (Inr f) = Inr cfg \<longleftrightarrow>
    list_all swarm_entry_ok (sec_of f ''swarm'') \<and> cfg = overlay (map_of (sec_of f ''swarm'')) DefaultConfig"
proof (cases "map_of f ''swarm''")
  case None
  then show ?thesis by (auto simp: loadSwarmConfig_def swarmSection_def sec_of_def)
next
  case (Some sec)
  have s: "sec_of f ''swarm'' = sec" using Some by (simp add: sec_of_def)
  have st: "set (order sec) = set sec" using assms(1) by (metis set_mset_mset)
  have "distinct (map fst (order sec))"
    using assms by (metis s mset_map mset_eq_imp_distinct_iff)
  moreover from this have "map_of (order sec) = map_of sec"
    using assms(2) s st by (metis map_of_inject_set)
  moreover have "list_all swarm_entry_ok (order sec) = list_all swarm_entry_ok sec" by (simp add: list_all_iff st)
  moreover have "addr_is_string (order sec)" using assms(3) by (simp add: addr_is_string_def st s)
  ultimately have keys: "set_swarm_keys (order sec) DefaultConfig = Inr cfg \<longleftrightarrow>
      list_all swarm_entry_ok sec \<and> cfg = overlay (map_of sec) DefaultConfig"
    if "fst ` set sec \<subseteq> set swarmKeys"
    using set_swarm_keys_Inr [of "order sec" DefaultConfig cfg] that st by simp
  show ?thesis
  proof (cases "find (\<lambda>key. key \<notin> set swarmKeys) (sortedKeys sec)")
    case None
    then have "fst ` set sec \<subseteq> set swarmKeys" by (simp only: find_unknown set_sortedKeys)
    then show ?thesis using keys None Some s by (simp add: loadSwarmConfig_def swarmSection_def)
  next
    case (Some key)
    then have "\<not> fst ` set sec \<subseteq> set swarmKeys" by (metis find_unknown set_sortedKeys option.distinct(1))
    then have "\<not> list_all swarm_entry_ok sec" using swarm_entry_known by blast
    then show ?thesis using Some \<open>map_of f ''swarm'' = Some sec\<close> s
      by (simp add: loadSwarmConfig_def swarmSection_def)
  qed
qed

lemma resolveCatalogUploadLimit_Inr:
  "resolveCatalogUploadLimit f d = Inr n \<longleftrightarrow>
     catalog_ok (sec_of f ''catalog'') \<and> n = val_or (map_of (sec_of f ''catalog'')) ''upload_limit'' vInt d"
proof (cases "map_of f ''catalog''")
  case None
  then show ?thesis by (auto simp: resolveCatalogUploadLimit_def catalogSection_def sec_of_def catalog_ok_def val_or_def)
next
  case (Some sec)
  have "unknownCatalogKey sec = Inr () \<longleftrightarrow> fst ` set sec \<subseteq> set catalogKeys"
    using find_unknown [of "set catalogKeys" "sortedKeys sec"] by (cases "find (\<lambda>k. k \<notin> set catalogKeys) (sortedKeys sec)") (simp_all add: unknownCatalogKey_def)
  then show ?thesis using Some
    by (auto simp: resolveCatalogUploadLimit_def catalogSection_def sec_of_def catalog_ok_def val_or_def bind_res_Inr
        split: option.splits if_splits)
qed

lemma unknownCatalogKey_Inr: "unknownCatalogKey sec = Inr () \<longleftrightarrow> fst ` set sec \<subseteq> set catalogKeys"
  using find_unknown [of "set catalogKeys" "sortedKeys sec"]
  by (cases "find (\<lambda>k. k \<notin> set catalogKeys) (sortedKeys sec)") (simp_all add: unknownCatalogKey_def)

lemma ValidateBaseURL_Inr: "ValidateBaseURL parse s = Inr () \<longleftrightarrow> base_url_ok parse s"
  by (auto simp: ValidateBaseURL_def base_url_ok_def split: option.splits)

lemma newCatalogProvider_Inr:
  "newCatalogProvider env parse (Inr f) = Inr u \<longleftrightarrow>
     fst ` set (sec_of f ''catalog'') \<subseteq> set catalogKeys \<and> url_ok parse (sec_of f ''catalog'') \<and> u = provider_of env f"
proof (cases "map_of f ''catalog''")
  case None
  then show ?thesis
    by (auto simp: newCatalogProvider_def resolveCatalogURL_def catalogSection_def sec_of_def url_ok_def provider_of_def
        NewPiratefaceAt_def val_or_def DefaultPiratefaceURL_def)
next
  case (Some sec)
  have s: "sec_of f ''catalog'' = sec" using Some by (simp add: sec_of_def)
  have "resolveCatalogURL parse f = Inr v \<longleftrightarrow>
      fst ` set sec \<subseteq> set catalogKeys \<and> url_ok parse sec \<and> v = val_or (map_of sec) ''url'' vStr []" for v
    using Some by (auto simp: resolveCatalogURL_def catalogSection_def ResolveConfigURL_def bind_res_Inr unknownCatalogKey_Inr
        url_ok_def val_or_def map_sum_Inr ValidateBaseURL_Inr split: option.splits)
  then show ?thesis
    by (auto simp: newCatalogProvider_def map_sum_Inr s provider_of_def NewPiratefaceAt_def DefaultPiratefaceURL_def)
qed

text \<open>
  C19: the daemon starts with exactly the settings the file stands for. Take a file whose listening address, if it has one, is
  a string. The daemon comes up only if every key of its two sections is known and its value of the kind the documents give,
  no limit is negative, the address of the catalog is an \<open>https\<close> address of a host and \<open>--seed-no-verify\<close> goes
  with an enabled swarm; then each setting is the file's or its default, the catalog limit falls back
  to the swarm's and the catalog's address to the environment's, and the order in which the runtime iterates over a section makes no
  difference. (The kind of the listening address is not checked: lemma \<open>webseed_addr_any_kind\<close>.)
\<close>

theorem serve_settings_exact:
  assumes "\<And>m. mset (order m) = mset m" "distinct (map fst (sec_of f ''swarm''))" "addr_is_string (sec_of f ''swarm'')"
  shows "serve_settings order (Inr f) flag = Inr cfg \<and> newCatalogProvider env parse (Inr f) = Inr url
    \<longleftrightarrow> settings_ok parse f flag \<and> cfg = settings_of f flag \<and> url = provider_of env f"
proof -
  have "serve_settings order (Inr f) flag = Inr cfg \<longleftrightarrow>
      list_all swarm_entry_ok (sec_of f ''swarm'') \<and> catalog_ok (sec_of f ''catalog'')
      \<and> (flag \<longrightarrow> scEnabled (settings_of f False)) \<and> cfg = settings_of f flag"
    by (cases flag)
      (auto simp: serve_settings_def bind_res_Inr loadSwarmConfig_Inr [OF assms] resolveCatalogUploadLimit_Inr
        settings_of_def Let_def overlay_def)
  then show ?thesis unfolding newCatalogProvider_Inr settings_ok_def by (auto simp: catalog_ok_def)
qed

lemma serve_settings_exact_witness:
  "serve_settings rev (Inr demo_config) True
     = Inr (DefaultConfig\<lparr>scUploadLimit := 4096, scCatalogUploadLimit := 4096, scNoSeedVerify := True\<rparr>)
   \<and> newCatalogProvider (\<lambda>_. []) (\<lambda>s. Some \<lparr>puScheme = ''https'', puHost = s, puPath = [], puRawQuery = [], puFragment = [], puUser = False\<rparr>)
       (Inr demo_config) = Inr ''https://h#1''"
proof -
  let ?parse = "\<lambda>s. Some \<lparr>puScheme = ''https'', puHost = s, puPath = [], puRawQuery = [], puFragment = [], puUser = False\<rparr>"
  have d: "distinct (map fst (sec_of demo_config ''swarm''))" by code_simp
  have a: "addr_is_string (sec_of demo_config ''swarm'')"
    by (simp add: addr_is_string_def demo_config_def sec_of_def)
  have "settings_ok ?parse demo_config True
    \<and> settings_of demo_config True = DefaultConfig\<lparr>scUploadLimit := 4096, scCatalogUploadLimit := 4096, scNoSeedVerify := True\<rparr>"
    by (simp add: demo_config_def settings_ok_def settings_of_def sec_of_def swarm_entry_ok_def catalog_ok_def url_ok_def base_url_ok_def
        catalogKeys_def overlay_def val_or_def DefaultConfig_def BoolVal_def IntVal_def StrVal_def zero_value_def Let_def)
  moreover have "provider_of (\<lambda>_. []) demo_config = ''https://h#1''" by code_simp
  ultimately show ?thesis using serve_settings_exact [of rev demo_config True _ "\<lambda>_. []" ?parse, OF mset_rev d a] by metis
qed

text \<open>
  The kind of the listening address is the one the daemon does not check: a number or a boolean
  there is taken for the empty address, which switches the listener off.
\<close>

lemma webseed_addr_any_kind:
  "loadSwarmConfig order (Inr [(''swarm'', [(''webseed_addr'', BoolVal True)])])
     = set_swarm_keys (order [(''webseed_addr'', BoolVal True)]) DefaultConfig"
  "set_swarm_keys [(''webseed_addr'', BoolVal True)] DefaultConfig = Inr (DefaultConfig\<lparr>scWebseedAddr := []\<rparr>)"
  by (simp add: loadSwarmConfig_def swarmSection_def sortedKeys_def sort_by_def swarmKeys_def) code_simp

end
