(* ===== verification/Hub.thy ===== *)
theory Hub
  imports Classify
begin

text \<open>
  The sources of an import: \<open>internal/importer/hf.go\<close>, the client of the Hugging Face API, and
  \<open>local.go\<close>, the expansion of local paths. HTTP and the JSON decoders are parameters; what is
  modelled is how request URLs are built from untrusted names, how answers are read, the pagination
  loop, and the boundary check on local files.
\<close>

subsection \<open>Percent encoding\<close>

text \<open>\<open>url.PathEscape\<close> of the standard library.\<close>

definition should_escape :: "char \<Rightarrow> bool" where
  "should_escape c = (\<not> (is_digit c \<or> is_lower c \<or> is_upper c \<or> c \<in> set ''-_.~'' \<or> c \<in> set ''$&+=:@''))"

definition upper_hex :: "nat \<Rightarrow> char" where
  "upper_hex n = ''0123456789ABCDEF'' ! n"

definition escape_char :: "char \<Rightarrow> string" where
  "escape_char c =
     (if should_escape c then [CHR ''%'', upper_hex (of_char c div 16), upper_hex (of_char c mod 16)] else [c])"

definition PathEscape :: "string \<Rightarrow> string" where
  "PathEscape s = concat (map escape_char s)"

datatype segment_error = EmptyPath | BadSegment string

definition bad_segment :: "string \<Rightarrow> bool" where
  "bad_segment seg = (seg = [] \<or> seg = ''.'' \<or> seg = ''..'' \<or> CHR 0x5C \<in> set seg)"

definition escapeSegments :: "string \<Rightarrow> segment_error + string" where
  "escapeSegments s =
     (if s = [] then Inl EmptyPath
      else
        let segs = split_on (CHR ''/'') s in
        case find bad_segment segs of
          Some seg \<Rightarrow> Inl (BadSegment seg)
        | None \<Rightarrow> Inr (join_with ''/'' (map PathEscape segs)))"

definition repo_char :: "char \<Rightarrow> bool" where
  "repo_char c = (is_digit c \<or> is_lower c \<or> is_upper c \<or> c \<in> set ''/.-_'')"

definition ValidRepoID :: "string \<Rightarrow> bool" where
  "ValidRepoID repo =
     (\<not> (length repo < 3 \<or> length repo > 200 \<or> Contains repo ''..'') \<and> list_all repo_char repo
      \<and> length (filter (\<lambda>c. c = CHR ''/'') repo) = 1)"

subsection \<open>The Link header\<close>

definition TrimQuotes :: "string \<Rightarrow> string" where
  "TrimQuotes s = rev (dropWhile (\<lambda>c. c = CHR 0x22) (rev (dropWhile (\<lambda>c. c = CHR 0x22) s)))"

definition link_param :: "string \<Rightarrow> string \<times> string \<Rightarrow> string \<times> string" where
  "link_param p = (\<lambda>(url, rel).
     let p = TrimSpace p in
     (if HasPrefix p ''<'' \<and> HasSuffix p ''>'' then take (length p - 2) (drop 1 p) else url,
      if HasPrefix p ''rel='' then TrimQuotes (TrimPrefix p ''rel='') else rel))"

definition link_part :: "string \<Rightarrow> string option" where
  "link_part part =
     (let (url, rel) = fold link_param (split_on (CHR '';'') (TrimSpace part)) ([], []) in
      if rel = ''next'' \<and> url \<noteq> [] then Some url else None)"

fun first_link :: "string list \<Rightarrow> string" where
  "first_link [] = []"
| "first_link (part # parts) = (case link_part part of Some url \<Rightarrow> url | None \<Rightarrow> first_link parts)"

definition nextLink :: "string \<Rightarrow> string" where
  "nextLink h = first_link (split_on (CHR '','') h)"

subsection \<open>The client\<close>

datatype hf_error =
    ErrRateLimited | ErrForbidden | ErrUnknownRepo | ErrHFUnreachable string
  | InvalidRepo string | InvalidRevision string segment_error | InvalidPath string segment_error
  | BadRequest string | HFDecode | EmptyListing string string

record response =
  rsStatus :: nat
  rsLink :: string
  rsBody :: string

record TreeFile =
  tfPath :: string
  tfSize :: int
  tfGitOID :: string
  tfLFSOID :: string

text \<open>An entry of the tree API as the decoder yields it.\<close>

record tree_entry =
  teType :: string
  tePath :: string
  teOID :: string
  teSize :: int
  teLFS :: "string option"

text \<open>
  A request is a URL and the value of the authorization header, if it has one; \<open>hcParse\<close> is the
  error of a URL that does not parse.
\<close>

record HFClient =
  hcBaseURL :: string
  hcToken :: string
  hcParse :: "string \<Rightarrow> string option"
  hcHTTP :: "string \<times> string option \<Rightarrow> string + response"
  hcDecTree :: "string \<Rightarrow> tree_entry list option"
  hcDecRepo :: "string \<Rightarrow> (string \<times> string list) option"

definition hf_do :: "HFClient \<Rightarrow> string \<Rightarrow> hf_error + response" where
  "hf_do c url =
     (case hcParse c url of
        Some e \<Rightarrow> Inl (BadRequest e)
      | None \<Rightarrow>
     case hcHTTP c (url, if hcToken c \<noteq> [] then Some (''Bearer '' @ hcToken c) else None) of
        Inl e \<Rightarrow> Inl (ErrHFUnreachable e)
      | Inr resp \<Rightarrow>
          if rsStatus resp = 200 then Inr resp
          else if rsStatus resp = 429 then Inl ErrRateLimited
          else if rsStatus resp = 401 \<or> rsStatus resp = 403 then Inl ErrForbidden
          else if rsStatus resp = 404 then Inl ErrUnknownRepo
          else Inl (ErrHFUnreachable (TrimSpace (take 512 (rsBody resp)))))"

definition main_revision :: "string \<Rightarrow> string" where
  "main_revision revision = (if revision = [] then ''main'' else revision)"

text \<open>Both listing calls and the download check the repository and the revision first.\<close>

definition repo_revision :: "string \<Rightarrow> string \<Rightarrow> hf_error + string" where
  "repo_revision repo revision =
     (let revision = main_revision revision in
      if \<not> ValidRepoID repo then Inl (InvalidRepo repo)
      else case escapeSegments revision of
             Inl e \<Rightarrow> Inl (InvalidRevision revision e)
           | Inr r \<Rightarrow> Inr r)"

definition repo_url :: "HFClient \<Rightarrow> string \<Rightarrow> string \<Rightarrow> string" where
  "repo_url c repo rv = hcBaseURL c @ ''/api/models/'' @ repo @ ''/revision/'' @ rv"

definition ListRepo :: "HFClient \<Rightarrow> string \<Rightarrow> string \<Rightarrow> hf_error + (string list \<times> string)" where
  "ListRepo c repo revision =
     bind_res (repo_revision repo revision) (\<lambda>rv.
     bind_res (hf_do c (repo_url c repo rv)) (\<lambda>resp.
     case hcDecRepo c (rsBody resp) of
       None \<Rightarrow> Inl HFDecode
     | Some (sha, siblings) \<Rightarrow>
         let files = filter (\<lambda>n. n \<noteq> []) siblings in
         if files = [] then Inl (EmptyListing repo (main_revision revision)) else Inr (files, sha)))"

definition tree_files :: "tree_entry list \<Rightarrow> TreeFile list" where
  "tree_files entries =
     map (\<lambda>e. \<lparr>tfPath = tePath e, tfSize = teSize e, tfGitOID = teOID e,
                tfLFSOID = (case teLFS e of Some oid \<Rightarrow> if length oid = 64 then ToLower oid else [] | None \<Rightarrow> [])\<rparr>)
       (filter (\<lambda>e. teType e = ''file'') entries)"

text \<open>One page: its files and the URL of the next one.\<close>

definition tree_page :: "HFClient \<Rightarrow> string \<Rightarrow> hf_error + (TreeFile list \<times> string)" where
  "tree_page c url =
     bind_res (hf_do c url) (\<lambda>resp.
     case hcDecTree c (rsBody resp) of
       None \<Rightarrow> Inl HFDecode
     | Some entries \<Rightarrow> Inr (tree_files entries, nextLink (rsLink resp)))"

text \<open>The pagination loop ends only when the server says so; \<open>None\<close> is a loop that never does.\<close>

partial_function (option) tree_loop ::
  "HFClient \<Rightarrow> string \<Rightarrow> TreeFile list \<Rightarrow> (hf_error + TreeFile list) option" where
  "tree_loop c url files =
     (if url = [] then Some (Inr files)
      else case tree_page c url of
             Inl e \<Rightarrow> Some (Inl e)
           | Inr (page, next) \<Rightarrow> tree_loop c next (files @ page))"

definition tree_url :: "HFClient \<Rightarrow> string \<Rightarrow> string \<Rightarrow> string" where
  "tree_url c repo rv = hcBaseURL c @ ''/api/models/'' @ repo @ ''/tree/'' @ rv @ ''?recursive=true''"

definition ListRepoTree :: "HFClient \<Rightarrow> string \<Rightarrow> string \<Rightarrow> (hf_error + TreeFile list) option" where
  "ListRepoTree c repo revision =
     (case repo_revision repo revision of
        Inl e \<Rightarrow> Some (Inl e)
      | Inr rv \<Rightarrow>
        (case tree_loop c (tree_url c repo rv) [] of
           None \<Rightarrow> None
         | Some (Inl e) \<Rightarrow> Some (Inl e)
         | Some (Inr files) \<Rightarrow>
             Some (if files = [] then Inl (EmptyListing repo (main_revision revision)) else Inr files)))"

definition file_url :: "HFClient \<Rightarrow> string \<Rightarrow> string \<Rightarrow> string \<Rightarrow> string" where
  "file_url c repo rv path = hcBaseURL c @ ''/'' @ repo @ ''/resolve/'' @ rv @ ''/'' @ path"

definition OpenFile :: "HFClient \<Rightarrow> string \<Rightarrow> string \<Rightarrow> string \<Rightarrow> hf_error + string" where
  "OpenFile c repo revision path =
     bind_res (repo_revision repo revision) (\<lambda>rv.
     case escapeSegments path of
       Inl e \<Rightarrow> Inl (InvalidPath path e)
     | Inr p \<Rightarrow> map_sum id rsBody (hf_do c (file_url c repo rv p)))"

subsection \<open>Local files\<close>

datatype file_type = IsRegular | IsDir | IsOther

datatype local_error = StatErr string | WalkErr string | ErrSourceNotRegular string | DuplicateName string string string

text \<open>
  What the file system says: \<open>Lstat\<close> of a path, and the walk of a directory in the order of
  \<open>filepath.WalkDir\<close>: path below the root, path as opened, and the entry's type, unless reading it fails.
\<close>

record local_fs =
  lfLstat :: "string \<Rightarrow> file_type option"
  lfWalk :: "string \<Rightarrow> (string \<times> string \<times> file_type option) list"

type_synonym expansion = "(string \<times> string) list"

definition add_source :: "string \<Rightarrow> string \<Rightarrow> expansion \<Rightarrow> local_error + expansion" where
  "add_source name path out =
     (case map_of out name of
        Some prev \<Rightarrow> Inl (DuplicateName name prev path)
      | None \<Rightarrow> Inr (out @ [(name, path)]))"

fun walkRoot :: "(string \<times> string \<times> file_type option) list \<Rightarrow> expansion \<Rightarrow> local_error + expansion" where
  "walkRoot [] out = Inr out"
| "walkRoot ((rel, path, ty) # entries) out =
     (case ty of
        None \<Rightarrow> Inl (WalkErr path)
      | Some IsDir \<Rightarrow> walkRoot entries out
      | Some IsOther \<Rightarrow> Inl (ErrSourceNotRegular path)
      | Some IsRegular \<Rightarrow> bind_res (add_source rel path out) (walkRoot entries))"

fun expand_paths :: "local_fs \<Rightarrow> string list \<Rightarrow> expansion \<Rightarrow> local_error + expansion" where
  "expand_paths fs [] out = Inr out"
| "expand_paths fs (p # ps) out =
     (case lfLstat fs p of
        None \<Rightarrow> Inl (StatErr p)
      | Some IsDir \<Rightarrow> bind_res (walkRoot (lfWalk fs p) out) (expand_paths fs ps)
      | Some IsRegular \<Rightarrow> bind_res (add_source (PathBase p) p out) (expand_paths fs ps)
      | Some IsOther \<Rightarrow> Inl (ErrSourceNotRegular p))"

definition LocalSources :: "local_fs \<Rightarrow> string list \<Rightarrow> local_error + expansion" where
  "LocalSources fs paths =
     map_sum id (sort_by (\<lambda>a b. fst a < fst b)) (expand_paths fs paths [])"

text \<open>
  Opening a source: the open file and the path must still be the same regular file. \<open>opened\<close> is the
  outcome of \<open>Open\<close> and \<open>Stat\<close> (type, identity, content), \<open>now\<close> that of \<open>Lstat\<close>.
\<close>

definition open_source ::
  "string \<Rightarrow> (string + string + file_type \<times> nat \<times> string) \<Rightarrow> (string + file_type \<times> nat) \<Rightarrow> local_error + string" where
  "open_source p opened now =
     (case opened of
        Inl e \<Rightarrow> Inl (StatErr p)
      | Inr (Inl e) \<Rightarrow> Inl (StatErr p)
      | Inr (Inr (ty, ino, content)) \<Rightarrow>
        (case now of
           Inl e \<Rightarrow> Inl (StatErr p)
         | Inr (lty, lino) \<Rightarrow>
             if ty = IsRegular \<and> lty = IsRegular \<and> ino = lino then Inr content
             else Inl (ErrSourceNotRegular p)))"

subsection \<open>Escaping is reversible and opaque\<close>

fun PathUnescape :: "string \<Rightarrow> string option" where
  "PathUnescape [] = Some []"
| "PathUnescape (c # s) =
     (if c \<noteq> CHR ''%'' then map_option ((#) c) (PathUnescape s)
      else case s of
             a # b # r \<Rightarrow>
               (case (hex_value a, hex_value b, PathUnescape r) of
                  (Some x, Some y, Some t) \<Rightarrow> Some (char_of (16 * x + y) # t)
                | _ \<Rightarrow> None)
           | _ \<Rightarrow> None)"

lemma upper_hex_facts:
  assumes "n < 16"
  shows "hex_value (upper_hex n) = Some n" "is_digit (upper_hex n) \<or> is_upper (upper_hex n)"
proof -
  have "list_all (\<lambda>n. hex_value (upper_hex n) = Some n \<and> (is_digit (upper_hex n) \<or> is_upper (upper_hex n))) [0..<16]"
    by code_simp
  moreover have "n \<in> set [0..<16]" using assms by simp
  ultimately show "hex_value (upper_hex n) = Some n" "is_digit (upper_hex n) \<or> is_upper (upper_hex n)"
    unfolding list_all_iff by blast+
qed

lemma percent_escaped: "should_escape (CHR ''%'')" "should_escape (CHR ''/'')"
  by code_simp+

lemma PathUnescape_escape: "PathUnescape (PathEscape s) = Some s"
proof (induction s)
  case (Cons c s)
  show ?case
  proof (cases "should_escape c")
    case True
    then show ?thesis
      using Cons upper_hex_facts(1) by (simp add: PathEscape_def escape_char_def)
  next
    case False
    then have "c \<noteq> CHR ''%''" using percent_escaped by auto
    then show ?thesis using Cons False by (simp add: PathEscape_def escape_char_def)
  qed
qed (simp add: PathEscape_def)

lemma PathEscape_chars: "c \<in> set (PathEscape s) \<Longrightarrow> c = CHR ''%'' \<or> \<not> should_escape c"
proof -
  have h: "\<not> should_escape (upper_hex n)" if "n < 16" for n
    using upper_hex_facts(2) [OF that] by (auto simp: should_escape_def)
  show "c \<in> set (PathEscape s) \<Longrightarrow> c = CHR ''%'' \<or> \<not> should_escape c"
    by (induction s) (auto simp: PathEscape_def escape_char_def h split: if_splits)
qed

lemma PathEscape_no_slash: "CHR ''/'' \<notin> set (PathEscape s)"
  using PathEscape_chars [of "CHR ''/''" s] percent_escaped by auto

lemma PathUnescape_dots: "PathUnescape [] = Some []" "PathUnescape ''.'' = Some ''.''" "PathUnescape ''..'' = Some ''..''"
  by simp_all

lemma set_join_with: "c \<in> set (join_with sep xs) \<Longrightarrow> c \<in> set sep \<or> (\<exists>x \<in> set xs. c \<in> set x)"
  by (induction sep xs rule: join_with.induct) auto

lemma in_split_on: "c \<in> set s \<Longrightarrow> c \<noteq> d \<Longrightarrow> \<exists>seg \<in> set (split_on d s). c \<in> set seg"
  using set_join_with [of c "[d]" "split_on d s"] by (simp add: join_split)

text \<open>
  A path that passes the check becomes a URL path with the same segments and nothing else: each
  segment decodes to the original one, none is empty, \<open>.\<close> or \<open>..\<close>, and besides the separators
  the text holds only percent signs and characters that need no escaping, so no query, fragment or
  extra segment can be smuggled into a request; a path is refused exactly when it has such a segment.
\<close>

lemma escapeSegments_opaque:
  "(\<forall>u. escapeSegments s = Inr u \<longrightarrow>
      map PathUnescape (split_on (CHR ''/'') u) = map Some (split_on (CHR ''/'') s)
      \<and> {[], ''.'', ''..''} \<inter> set (split_on (CHR ''/'') u) = {}
      \<and> (\<forall>c \<in> set u. c = CHR ''/'' \<or> c = CHR ''%'' \<or> \<not> should_escape c))
   \<and> ((\<exists>u. escapeSegments s = Inr u) \<longleftrightarrow>
      {[], ''.'', ''..''} \<inter> set (split_on (CHR ''/'') s) = {} \<and> CHR 0x5C \<notin> set s)"
proof (intro conjI allI impI)
  fix u
  assume "escapeSegments s = Inr u"
  then have none: "find bad_segment (split_on (CHR ''/'') s) = None"
    and u: "u = join_with ''/'' (map PathEscape (split_on (CHR ''/'') s))"
    by (auto simp: escapeSegments_def Let_def split: if_splits option.splits)
  let ?segs = "split_on (CHR ''/'') s"
  have sp: "split_on (CHR ''/'') u = map PathEscape ?segs"
    unfolding u using PathEscape_no_slash by (intro split_join) auto
  show "map PathUnescape (split_on (CHR ''/'') u) = map Some ?segs"
    by (simp add: sp PathUnescape_escape)
  show "{[], ''.'', ''..''} \<inter> set (split_on (CHR ''/'') u) = {}"
  proof -
    have "PathEscape seg \<notin> {[], ''.'', ''..''}" if "seg \<in> set ?segs" for seg
    proof
      assume "PathEscape seg \<in> {[], ''.'', ''..''}"
      then have "seg \<in> {[], ''.'', ''..''}" using PathUnescape_escape [of seg] PathUnescape_dots by auto
      then show False using none that by (auto simp: find_None_iff bad_segment_def)
    qed
    then show ?thesis unfolding sp by fastforce
  qed
  show "\<forall>c \<in> set u. c = CHR ''/'' \<or> c = CHR ''%'' \<or> \<not> should_escape c"
  proof
    fix c
    assume "c \<in> set u"
    then have "c = CHR ''/'' \<or> (\<exists>seg. c \<in> set (PathEscape seg))"
      unfolding u by (fastforce dest: set_join_with)
    then show "c = CHR ''/'' \<or> c = CHR ''%'' \<or> \<not> should_escape c" using PathEscape_chars by blast
  qed
next
  have bs: "CHR 0x5C \<in> set s \<longleftrightarrow> (\<exists>seg \<in> set (split_on (CHR ''/'') s). CHR 0x5C \<in> set seg)"
    using in_split_on [of "CHR 0x5C" s "CHR ''/''"] set_split_on by fastforce
  have "(\<exists>u. escapeSegments s = Inr u) \<longleftrightarrow> s \<noteq> [] \<and> find bad_segment (split_on (CHR ''/'') s) = None"
    by (auto simp: escapeSegments_def Let_def split: option.split)
  also have "\<dots> \<longleftrightarrow> s \<noteq> [] \<and> (\<forall>seg \<in> set (split_on (CHR ''/'') s). \<not> bad_segment seg)"
    by (auto simp: find_None_iff)
  also have "\<dots> \<longleftrightarrow> (\<forall>seg \<in> set (split_on (CHR ''/'') s). \<not> bad_segment seg)"
    by (cases s) (auto simp: bad_segment_def)
  finally show "(\<exists>u. escapeSegments s = Inr u) \<longleftrightarrow>
      {[], ''.'', ''..''} \<inter> set (split_on (CHR ''/'') s) = {} \<and> CHR 0x5C \<notin> set s"
    unfolding bs bad_segment_def by blast
qed

lemma escapeSegments_opaque_witness:
  "\<exists>u. escapeSegments ''v1 a?b'' = Inr u \<and> map PathUnescape (split_on (CHR ''/'') u) = [Some ''v1 a?b'']"
proof -
  have e: "escapeSegments ''v1 a?b'' = Inr ''v1%20a%3Fb''" by code_simp
  then have "map PathUnescape (split_on (CHR ''/'') ''v1%20a%3Fb'') = map Some (split_on (CHR ''/'') ''v1 a?b'')"
    using escapeSegments_opaque [of "''v1 a?b''"] by blast
  with e show ?thesis by (intro exI [of _ "''v1%20a%3Fb''"]) simp
qed

subsection \<open>The pagination loop\<close>

text \<open>The loop cut off after a number of pages.\<close>

fun tree_fuel :: "nat \<Rightarrow> HFClient \<Rightarrow> string \<Rightarrow> TreeFile list \<Rightarrow> (hf_error + TreeFile list) option" where
  "tree_fuel 0 c url files = None"
| "tree_fuel (Suc n) c url files =
     (if url = [] then Some (Inr files)
      else case tree_page c url of
             Inl e \<Rightarrow> Some (Inl e)
           | Inr (page, next) \<Rightarrow> tree_fuel n c next (files @ page))"

lemma tree_fuel_loop: "tree_fuel n c url files = Some r \<Longrightarrow> tree_loop c url files = Some r"
proof (induction n arbitrary: url files)
  case (Suc n)
  then show ?case by (subst tree_loop.simps) (auto split: if_splits sum.splits)
qed simp

lemma tree_loop_fuel:
  assumes "tree_loop c url files = Some r"
  shows "\<exists>n. tree_fuel n c url files = Some r"
proof (rule tree_loop.raw_induct [of "\<lambda>c url files r. \<exists>n. tree_fuel n c url files = Some r", OF _ assms])
  fix f :: "HFClient \<Rightarrow> string \<Rightarrow> TreeFile list \<Rightarrow> (hf_error + TreeFile list) option"
    and c url files r
  assume 1: "\<And>c url files r. f c url files = Some r \<Longrightarrow> \<exists>n. tree_fuel n c url files = Some r"
    "(if url = [] then Some (Inr files)
      else case tree_page c url of Inl e \<Rightarrow> Some (Inl e) | Inr (page, next) \<Rightarrow> f c next (files @ page)) = Some r"
  show "\<exists>n. tree_fuel n c url files = Some r"
  proof (cases "url = []")
    case True
    then show ?thesis using 1(2) by (intro exI [of _ 1]) simp
  next
    case False
    show ?thesis
    proof (cases "tree_page c url")
      case (Inl e)
      then show ?thesis using 1(2) False by (intro exI [of _ 1]) simp
    next
      case (Inr pn)
      obtain page nxt where pn: "pn = (page, nxt)" by (cases pn)
      then have "f c nxt (files @ page) = Some r" using 1(2) False Inr by simp
      then obtain n where "tree_fuel n c nxt (files @ page) = Some r" using 1(1) by blast
      then show ?thesis using False Inr pn by (intro exI [of _ "Suc n"]) simp
    qed
  qed
qed

text \<open>The pages a server serves from a URL on: each leads to the next, the last to nowhere.\<close>

fun pages_from :: "HFClient \<Rightarrow> string \<Rightarrow> TreeFile list list \<Rightarrow> bool" where
  "pages_from c url [] \<longleftrightarrow> url = []"
| "pages_from c url (page # pages) \<longleftrightarrow>
     url \<noteq> [] \<and> (\<exists>nxt. tree_page c url = Inr (page, nxt) \<and> pages_from c nxt pages)"

lemma tree_fuel_pages:
  "tree_fuel n c url files = Some (Inr out) \<Longrightarrow> \<exists>pages. pages_from c url pages \<and> out = files @ concat pages"
proof (induction n arbitrary: url files)
  case (Suc n)
  show ?case
  proof (cases "url = []")
    case True
    then show ?thesis using Suc.prems by (intro exI [of _ "[]"]) simp
  next
    case False
    then obtain page nxt where p: "tree_page c url = Inr (page, nxt)" "tree_fuel n c nxt (files @ page) = Some (Inr out)"
      using Suc.prems by (auto split: sum.splits)
    from Suc.IH [OF p(2)] obtain pages where "pages_from c nxt pages" "out = (files @ page) @ concat pages" by blast
    then show ?thesis using False p(1) by (intro exI [of _ "page # pages"]) auto
  qed
qed simp

lemma pages_loop: "pages_from c url pages \<Longrightarrow> tree_loop c url files = Some (Inr (files @ concat pages))"
proof (induction pages arbitrary: url files)
  case Nil
  then show ?case by (simp add: tree_loop.simps)
next
  case (Cons page pages)
  then show ?case by (subst tree_loop.simps) auto
qed

lemma tree_fuel_cycle:
  assumes "\<And>u. u \<in> us \<Longrightarrow> u \<noteq> [] \<and> (\<exists>page nxt. tree_page c u = Inr (page, nxt) \<and> nxt \<in> us)"
  shows "url \<in> us \<Longrightarrow> tree_fuel n c url files = None"
proof (induction n arbitrary: url files)
  case (Suc n)
  then show ?case using assms [of url] by auto
qed simp

text \<open>
  C17: the loop over the pages returns the files of all pages, in order, exactly when the links the
  server sends lead to an end without an error on the way, however many pages there are; on links
  that lead back to pages already seen it never returns, as nothing counts or remembers them.
\<close>

theorem tree_loop_returns:
  "(tree_loop c url [] = Some (Inr files) \<longleftrightarrow> (\<exists>pages. pages_from c url pages \<and> files = concat pages))
   \<and> ((\<exists>us. url \<in> us \<and> (\<forall>u \<in> us. u \<noteq> [] \<and> (\<exists>page nxt. tree_page c u = Inr (page, nxt) \<and> nxt \<in> us)))
        \<longrightarrow> tree_loop c url [] = None)"
proof (intro conjI impI)
  show "tree_loop c url [] = Some (Inr files) \<longleftrightarrow> (\<exists>pages. pages_from c url pages \<and> files = concat pages)"
    using tree_loop_fuel [of c url "[]" "Inr files"] tree_fuel_pages [of _ c url "[]" files] pages_loop [of c url _ "[]"]
    by fastforce
next
  assume "\<exists>us. url \<in> us \<and> (\<forall>u \<in> us. u \<noteq> [] \<and> (\<exists>page nxt. tree_page c u = Inr (page, nxt) \<and> nxt \<in> us))"
  then obtain us where us: "url \<in> us" "\<And>u. u \<in> us \<Longrightarrow> u \<noteq> [] \<and> (\<exists>page nxt. tree_page c u = Inr (page, nxt) \<and> nxt \<in> us)"
    by blast
  show "tree_loop c url [] = None"
  proof (rule ccontr)
    assume "tree_loop c url [] \<noteq> None"
    then obtain r where "tree_loop c url [] = Some r" by blast
    then obtain n where "tree_fuel n c url [] = Some r" using tree_loop_fuel by blast
    then show False using tree_fuel_cycle [OF us(2) us(1), of n "[]"] by simp
  qed
qed

text \<open>A server whose second page is the last, and one whose page links to itself.\<close>

definition demo_server :: "string \<Rightarrow> HFClient" where
  "demo_server second = \<lparr>hcBaseURL = ''h'', hcToken = [], hcParse = (\<lambda>_. None),
     hcHTTP = (\<lambda>(url, _). Inr \<lparr>rsStatus = 200, rsLink = (if url = ''a'' then ''<'' @ second @ ''>; rel=next'' else []), rsBody = url\<rparr>),
     hcDecTree = (\<lambda>b. Some [\<lparr>teType = ''file'', tePath = b, teOID = [], teSize = 1, teLFS = None\<rparr>]), hcDecRepo = (\<lambda>_. None)\<rparr>"

lemma demo_pages:
  "tree_page (demo_server ''b'') ''a'' = Inr ([\<lparr>tfPath = ''a'', tfSize = 1, tfGitOID = [], tfLFSOID = []\<rparr>], ''b'')"
  "tree_page (demo_server ''b'') ''b'' = Inr ([\<lparr>tfPath = ''b'', tfSize = 1, tfGitOID = [], tfLFSOID = []\<rparr>], [])"
  "tree_page (demo_server ''a'') ''a'' = Inr ([\<lparr>tfPath = ''a'', tfSize = 1, tfGitOID = [], tfLFSOID = []\<rparr>], ''a'')"
  by code_simp+

lemma tree_loop_returns_witness:
  "tree_loop (demo_server ''b'') ''a'' [] = Some (Inr [\<lparr>tfPath = ''a'', tfSize = 1, tfGitOID = [], tfLFSOID = []\<rparr>,
      \<lparr>tfPath = ''b'', tfSize = 1, tfGitOID = [], tfLFSOID = []\<rparr>])
   \<and> tree_loop (demo_server ''a'') ''a'' [] = None"
proof
  have p: "pages_from (demo_server ''b'') ''a'' [[\<lparr>tfPath = ''a'', tfSize = 1, tfGitOID = [], tfLFSOID = []\<rparr>],
      [\<lparr>tfPath = ''b'', tfSize = 1, tfGitOID = [], tfLFSOID = []\<rparr>]]"
    by (simp add: demo_pages)
  show "tree_loop (demo_server ''b'') ''a'' [] = Some (Inr [\<lparr>tfPath = ''a'', tfSize = 1, tfGitOID = [], tfLFSOID = []\<rparr>,
      \<lparr>tfPath = ''b'', tfSize = 1, tfGitOID = [], tfLFSOID = []\<rparr>])"
    by (rule tree_loop_returns [THEN conjunct1, THEN iffD2], rule exI, rule conjI, rule p, simp)
  show "tree_loop (demo_server ''a'') ''a'' [] = None"
    by (rule tree_loop_returns [THEN conjunct2, THEN mp]) (rule exI [of _ "{''a''}"], simp add: demo_pages)
qed

subsection \<open>The import boundary\<close>

text \<open>What an expansion is meant to be: every regular file of every root, if nothing else is there.\<close>

fun admissible_root :: "local_fs \<Rightarrow> string \<Rightarrow> bool" where
  "admissible_root fs p \<longleftrightarrow>
     (case lfLstat fs p of
        Some IsRegular \<Rightarrow> True
      | Some IsDir \<Rightarrow> (\<forall>(rel, path, ty) \<in> set (lfWalk fs p). ty = Some IsRegular \<or> ty = Some IsDir)
      | _ \<Rightarrow> False)"

definition regulars :: "(string \<times> string \<times> file_type option) list \<Rightarrow> expansion" where
  "regulars es = map (\<lambda>(rel, path, ty). (rel, path)) (filter (\<lambda>(rel, path, ty). ty = Some IsRegular) es)"

definition root_files :: "local_fs \<Rightarrow> string \<Rightarrow> expansion" where
  "root_files fs p =
     (case lfLstat fs p of
        Some IsRegular \<Rightarrow> [(PathBase p, p)]
      | Some IsDir \<Rightarrow> regulars (lfWalk fs p)
      | _ \<Rightarrow> [])"

lemma walkRoot_Inr:
  "distinct (map fst out) \<Longrightarrow>
     walkRoot es out = Inr r \<longleftrightarrow>
       (\<forall>(rel, path, ty) \<in> set es. ty = Some IsRegular \<or> ty = Some IsDir)
       \<and> distinct (map fst (out @ regulars es)) \<and> r = out @ regulars es"
proof (induction es arbitrary: out)
  case (Cons e es)
  obtain rel path ty where e: "e = (rel, path, ty)" by (cases e)
  consider "ty = None" | "ty = Some IsDir" | "ty = Some IsOther" | "ty = Some IsRegular"
    by (metis file_type.exhaust option.exhaust)
  then show ?case
  proof cases
    case 2
    then show ?thesis using Cons.IH [OF Cons.prems] by (simp add: e regulars_def)
  next
    case 4
    have rg: "regulars (e # es) = (rel, path) # regulars es" using 4 by (simp add: e regulars_def)
    show ?thesis
    proof (cases "map_of out rel")
      case None
      then have n: "rel \<notin> fst ` set out" by (simp add: map_of_eq_None_iff)
      then have "distinct (map fst (out @ [(rel, path)]))" using Cons.prems by simp
      note IH = Cons.IH [OF this]
      have w: "walkRoot (e # es) out = walkRoot es (out @ [(rel, path)])"
        using None 4 by (simp add: e add_source_def)
      show ?thesis unfolding w IH rg using 4 by (simp add: e)
    next
      case (Some prev)
      then have "rel \<in> fst ` set out" by (metis map_of_SomeD fst_conv image_eqI)
      then have "\<not> distinct (map fst (out @ (rel, path) # regulars es))" by simp
      moreover have "walkRoot (e # es) out \<noteq> Inr r" using Some 4 by (simp add: e add_source_def)
      ultimately show ?thesis unfolding rg by blast
    qed
  qed (auto simp: e)
qed (auto simp: regulars_def)

lemma expand_paths_Inr:
  "distinct (map fst out) \<Longrightarrow>
     expand_paths fs ps out = Inr r \<longleftrightarrow>
       list_all (admissible_root fs) ps
       \<and> distinct (map fst (out @ concat (map (root_files fs) ps))) \<and> r = out @ concat (map (root_files fs) ps)"
proof (induction ps arbitrary: out)
  case (Cons p ps)
  consider "lfLstat fs p = None" | "lfLstat fs p = Some IsDir" | "lfLstat fs p = Some IsOther" | "lfLstat fs p = Some IsRegular"
    by (metis file_type.exhaust option.exhaust)
  then show ?case
  proof cases
    case 2
    have rf: "root_files fs p = regulars (lfWalk fs p)" using 2 by (simp add: root_files_def)
    show ?thesis
    proof (cases "walkRoot (lfWalk fs p) out")
      case (Inl e)
      then have "\<not> ((\<forall>(rel, path, ty) \<in> set (lfWalk fs p). ty = Some IsRegular \<or> ty = Some IsDir)
          \<and> distinct (map fst (out @ regulars (lfWalk fs p))))"
        using walkRoot_Inr [OF Cons.prems, of "lfWalk fs p" "out @ regulars (lfWalk fs p)"] by auto
      then show ?thesis using 2 Inl rf by auto
    next
      case (Inr o')
      then have w: "\<forall>(rel, path, ty) \<in> set (lfWalk fs p). ty = Some IsRegular \<or> ty = Some IsDir"
        "distinct (map fst (out @ regulars (lfWalk fs p)))" "o' = out @ regulars (lfWalk fs p)"
        using walkRoot_Inr [OF Cons.prems] by blast+
      show ?thesis using Cons.IH [OF w(2)] 2 Inr w(1,3) rf by simp
    qed
  next
    case 4
    have rf: "root_files fs p = [(PathBase p, p)]" using 4 by (simp add: root_files_def)
    show ?thesis
    proof (cases "map_of out (PathBase p)")
      case None
      then have n: "PathBase p \<notin> fst ` set out" by (simp add: map_of_eq_None_iff)
      then have "distinct (map fst (out @ [(PathBase p, p)]))" using Cons.prems by simp
      note IH = Cons.IH [OF this]
      show ?thesis using IH None 4 by (simp add: add_source_def rf)
    next
      case (Some prev)
      then have "PathBase p \<in> fst ` set out" by (metis map_of_SomeD fst_conv image_eqI)
      then show ?thesis using Some 4 by (simp add: add_source_def rf)
    qed
  qed auto
qed auto

text \<open>
  The expansion of local paths succeeds exactly when every root and everything below it is a
  regular file or a directory and no two files have the same name, and then it is exactly those
  files, sorted by name: a symbolic link, pipe or device anywhere fails the whole import.
\<close>

lemma LocalSources_exact:
  "LocalSources fs paths = Inr out \<longleftrightarrow>
     list_all (admissible_root fs) paths \<and> distinct (map fst (concat (map (root_files fs) paths)))
     \<and> out = sort_by (\<lambda>a b. fst a < fst b) (concat (map (root_files fs) paths))"
  using expand_paths_Inr [of "[]" fs paths]
  by (auto simp: LocalSources_def map_sum_Inr)

end
