(* ===== verification/Catalog.thy ===== *)
theory Catalog
  imports Hub
begin

text \<open>
  The community catalog: \<open>internal/catalog/pirateface.go\<close>, the provider's listing and checksum
  formats, and \<open>anchor.go\<close>, the digests of record a pull is checked against. HTTP, URL parsing and
  the magnet parser are parameters.
\<close>

subsection \<open>Listings and anchors\<close>

record FileChecksum =
  fkPath :: string
  fkSHA256 :: string

record Model =
  mdRepo :: string
  mdSize :: string
  mdSeeds :: int
  mdMagnet :: string

record Resolved =
  rvRepo :: string
  rvRevision :: string
  rvInfohash :: string
  rvMagnet :: string
  rvTrackers :: "string list"
  rvWebseeds :: "string list"
  rvSize :: string
  rvSeeds :: int

record AnchorFile =
  afPath :: string
  afSize :: int
  afSHA256 :: string
  afGitSHA1 :: string

record Anchor =
  anRepo :: string
  anRevision :: string
  anSource :: string
  anRescued :: bool
  anFiles :: "AnchorFile list"

text \<open>What a parsed magnet says: the v1 infohash in hex, the trackers, the webseeds.\<close>

record magnet =
  mgInfohash :: string
  mgTrackers :: "string list"
  mgWebseeds :: "string list"

datatype bad_listing =
    EmptyTerms | BadRepo string | FieldCount string nat | LineRepo string | SeedCount string | NotMagnet string
  | MagnetError string | NoInfohash string | NoRevision string | NoChecksums | ChecksumLine string

datatype catalog_error =
    ErrCatalogUnreachable string | ErrNotListed string | ErrBadListing bad_listing | CatalogRequest string
  | AnchorFetch string string hf_error | RescuedAnchor string catalog_error | ErrNotAnchored

text \<open>
  The provider's client. \<open>pfParse\<close> is the error of a URL that does not parse; a response is its
  status and the outcome of reading its body; \<open>pfMagnet\<close> and \<open>pfURLPath\<close> are the parsers of the
  torrent library and of \<open>net/url\<close> (the decoded path).
\<close>

record Pirateface =
  pfBaseURL :: string
  pfParse :: "string \<Rightarrow> string option"
  pfHTTP :: "string \<Rightarrow> string + nat \<times> (string + string)"
  pfMagnet :: "string \<Rightarrow> string + magnet"
  pfURLPath :: "string \<Rightarrow> string option"

definition bodyLimit :: nat where "bodyLimit = 8 * 2 ^ 20"

definition pf_get :: "Pirateface \<Rightarrow> string \<Rightarrow> catalog_error + string" where
  "pf_get p path =
     (let url = pfBaseURL p @ path in
      case pfParse p url of
        Some e \<Rightarrow> Inl (CatalogRequest e)
      | None \<Rightarrow>
        (case pfHTTP p url of
           Inl e \<Rightarrow> Inl (ErrCatalogUnreachable e)
         | Inr (status, body) \<Rightarrow>
             if status = 404 then Inl (ErrNotListed [])
             else if status \<noteq> 200 then Inl (ErrCatalogUnreachable path)
             else case body of
                    Inl e \<Rightarrow> Inl (ErrCatalogUnreachable e)
                  | Inr b \<Rightarrow> Inr (take bodyLimit b)))"

subsection \<open>The search format\<close>

text \<open>\<open>url.QueryEscape\<close> of the standard library.\<close>

definition query_char :: "char \<Rightarrow> string" where
  "query_char c =
     (if is_digit c \<or> is_lower c \<or> is_upper c \<or> c \<in> set ''-_.~'' then [c]
      else if c = CHR '' '' then ''+''
      else [CHR ''%'', upper_hex (of_char c div 16), upper_hex (of_char c mod 16)])"

definition QueryEscape :: "string \<Rightarrow> string" where
  "QueryEscape s = concat (map query_char s)"

text \<open>\<open>strings.Split\<close> and \<open>strings.SplitN(_, _, 2)\<close> for a separator of two characters.\<close>

fun split2 :: "char \<Rightarrow> char \<Rightarrow> string \<Rightarrow> string list" where
  "split2 a b [] = [[]]"
| "split2 a b [c] = [[c]]"
| "split2 a b (c # d # s) =
     (if c = a \<and> d = b then [] # split2 a b s
      else case split2 a b (d # s) of [] \<Rightarrow> [[c]] | x # xs \<Rightarrow> (c # x) # xs)"

fun cut2 :: "char \<Rightarrow> char \<Rightarrow> string \<Rightarrow> (string \<times> string) option" where
  "cut2 a b [] = None"
| "cut2 a b [c] = None"
| "cut2 a b (c # d # s) =
     (if c = a \<and> d = b then Some ([], s) else map_option (\<lambda>(x, y). (c # x, y)) (cut2 a b (d # s)))"

definition magnet_prefix :: string where "magnet_prefix = ''magnet:?xt=urn:btih:''"

definition ParseSearchLine :: "string \<Rightarrow> catalog_error + Model" where
  "ParseSearchLine ln =
     (let fields = split2 (CHR '' '') (CHR '' '') ln in
      if length fields \<noteq> 4 then Inl (ErrBadListing (FieldCount ln (length fields)))
      else
        let repo = fields ! 0; size = fields ! 1; seeds = fields ! 2; magnet = fields ! 3 in
        if \<not> ValidRepoID repo then Inl (ErrBadListing (LineRepo ln))
        else case ParseInt (TrimSpace (TrimSuffix (TrimSuffix seeds ''s'') '' seed'')) of
               None \<Rightarrow> Inl (ErrBadListing (SeedCount ln))
             | Some n \<Rightarrow>
                 if n < 0 then Inl (ErrBadListing (SeedCount ln))
                 else if \<not> HasPrefix magnet magnet_prefix then Inl (ErrBadListing (NotMagnet ln))
                 else Inr \<lparr>mdRepo = repo, mdSize = size, mdSeeds = n, mdMagnet = magnet\<rparr>)"

definition trim_right :: "char \<Rightarrow> string \<Rightarrow> string" where
  "trim_right c s = rev (dropWhile (\<lambda>x. x = c) (rev s))"

definition trim_both :: "char \<Rightarrow> string \<Rightarrow> string" where
  "trim_both c s = trim_right c (dropWhile (\<lambda>x. x = c) s)"

text \<open>Lines that do not parse are skipped.\<close>

definition search_lines :: "string \<Rightarrow> Model list" where
  "search_lines body =
     concat (map (\<lambda>ln. let ln = trim_right (CHR 0x0D) ln in
                    if ln = [] then [] else case ParseSearchLine ln of Inl _ \<Rightarrow> [] | Inr m \<Rightarrow> [m])
       (split_on (CHR 0x0A) body))"

definition Search :: "Pirateface \<Rightarrow> string \<Rightarrow> catalog_error + Model list" where
  "Search p terms =
     (if TrimSpace terms = [] then Inl (ErrBadListing EmptyTerms)
      else map_sum id search_lines (pf_get p (''/s/'' @ QueryEscape terms)))"

subsection \<open>From a listing to a pull\<close>

definition revisionFromWebseed :: "(string \<Rightarrow> string option) \<Rightarrow> string \<Rightarrow> string option" where
  "revisionFromWebseed url_path ws =
     (case url_path ws of
        None \<Rightarrow> None
      | Some path \<Rightarrow>
          if path = [] then None
          else
            let rv = last (split_on (CHR ''/'') (trim_both (CHR ''/'') path)) in
            if length rv \<noteq> 40 then None else if list_all is_lhex rv then Some rv else None)"

fun first_revision :: "(string \<Rightarrow> string option) \<Rightarrow> string list \<Rightarrow> string" where
  "first_revision url_path [] = []"
| "first_revision url_path (ws # wss) =
     (case revisionFromWebseed url_path ws of Some rv \<Rightarrow> rv | None \<Rightarrow> first_revision url_path wss)"

definition FromListing :: "Pirateface \<Rightarrow> Model \<Rightarrow> catalog_error + Resolved" where
  "FromListing p m =
     (case pfMagnet p (mdMagnet m) of
        Inl e \<Rightarrow> Inl (ErrBadListing (MagnetError e))
      | Inr mag \<Rightarrow>
          if length (mgInfohash mag) \<noteq> 40 then Inl (ErrBadListing (NoInfohash (mdRepo m)))
          else
            let r = \<lparr>rvRepo = mdRepo m, rvRevision = first_revision (pfURLPath p) (mgWebseeds mag),
                     rvInfohash = ToLower (mgInfohash mag), rvMagnet = mdMagnet m, rvTrackers = mgTrackers mag,
                     rvWebseeds = mgWebseeds mag, rvSize = mdSize m, rvSeeds = mdSeeds m\<rparr> in
            if rvRevision r = [] then Inl (ErrBadListing (NoRevision (mdRepo m))) else Inr r)"

definition ResolveListing :: "Pirateface \<Rightarrow> string \<Rightarrow> catalog_error + Resolved" where
  "ResolveListing p repo =
     (if \<not> ValidRepoID repo then Inl (ErrBadListing (BadRepo repo))
      else
        bind_res (Search p repo) (\<lambda>models.
        case find (\<lambda>m. mdRepo m = repo) models of
          None \<Rightarrow> Inl (ErrNotListed repo)
        | Some m \<Rightarrow> FromListing p m))"

subsection \<open>The checksum record\<close>

text \<open>
  The record in a model page, as the regular expression has it: the mark, then lines of 64
  hexadecimal digits, two spaces and a path, separated by a backslash and an \<open>n\<close>, then a backslash
  and a quote. A path holds no backslash, quote or line end, so the match is found by reading ahead.
\<close>

definition record_mark :: string where
  "record_mark = [CHR 0x5C, CHR 0x22] @ ''manifest'' @ [CHR 0x5C, CHR 0x22, CHR '':'', CHR 0x5C, CHR 0x22]"

definition path_char :: "char \<Rightarrow> bool" where
  "path_char c = (c \<noteq> CHR 0x5C \<and> c \<noteq> CHR 0x22 \<and> c \<noteq> CHR 0x0A)"

text \<open>One line of the record and the text after it.\<close>

definition record_line :: "string \<Rightarrow> (string \<times> string) option" where
  "record_line s =
     (let path = takeWhile path_char (drop 66 s) in
      if length s \<ge> 66 \<and> list_all is_lhex (take 64 s) \<and> take 2 (drop 64 s) = ''  '' \<and> path \<noteq> []
      then Some (take 66 s @ path, drop (66 + length path) s) else None)"

text \<open>The record up to the closing quote; the fuel is the length of the text.\<close>

fun record_body :: "nat \<Rightarrow> string \<Rightarrow> string option" where
  "record_body 0 s = None"
| "record_body (Suc n) s =
     (case record_line s of
        None \<Rightarrow> None
      | Some (line, rest) \<Rightarrow>
          if HasPrefix rest [CHR 0x5C, CHR 0x22] then Some line
          else if HasPrefix rest [CHR 0x5C, CHR ''n'']
          then map_option (\<lambda>more. line @ [CHR 0x5C, CHR ''n''] @ more) (record_body n (drop 2 rest))
          else None)"

definition record_at :: "string \<Rightarrow> string option" where
  "record_at s = (if HasPrefix s record_mark then record_body (length s) (drop (length record_mark) s) else None)"

text \<open>The leftmost match.\<close>

fun find_record :: "string \<Rightarrow> string option" where
  "find_record [] = None"
| "find_record (c # s) = (case record_at (c # s) of Some r \<Rightarrow> Some r | None \<Rightarrow> find_record s)"

definition checksum_line :: "string \<Rightarrow> catalog_error + FileChecksum" where
  "checksum_line ln =
     (case cut2 (CHR '' '') (CHR '' '') ln of
        None \<Rightarrow> Inl (ErrBadListing (ChecksumLine ln))
      | Some (d, path) \<Rightarrow>
          if length d \<noteq> 64 \<or> path = [] then Inl (ErrBadListing (ChecksumLine ln))
          else Inr \<lparr>fkPath = path, fkSHA256 = d\<rparr>)"

definition ParseChecksumRecord :: "string \<Rightarrow> catalog_error + FileChecksum list" where
  "ParseChecksumRecord html =
     (case find_record html of
        None \<Rightarrow> Inl (ErrBadListing NoChecksums)
      | Some r \<Rightarrow> list_res checksum_line (split2 (CHR 0x5C) (CHR ''n'') r))"

definition Checksums :: "Pirateface \<Rightarrow> string \<Rightarrow> catalog_error + FileChecksum list" where
  "Checksums p repo =
     (if \<not> ValidRepoID repo then Inl (ErrBadListing (BadRepo repo))
      else bind_res (pf_get p (''/'' @ repo)) ParseChecksumRecord)"

subsection \<open>The anchor of record\<close>

definition live_file :: "TreeFile \<Rightarrow> AnchorFile" where
  "live_file tf =
     (if tfLFSOID tf \<noteq> []
      then \<lparr>afPath = tfPath tf, afSize = tfSize tf, afSHA256 = tfLFSOID tf, afGitSHA1 = []\<rparr>
      else \<lparr>afPath = tfPath tf, afSize = tfSize tf, afSHA256 = [], afGitSHA1 = tfGitOID tf\<rparr>)"

definition live_anchor :: "Resolved \<Rightarrow> TreeFile list \<Rightarrow> Anchor" where
  "live_anchor r tree =
     \<lparr>anRepo = rvRepo r, anRevision = rvRevision r, anSource = ''huggingface'', anRescued = False,
      anFiles = map live_file (filter (\<lambda>tf. tfPath tf \<noteq> ''.gitattributes'') tree)\<rparr>"

definition catalog_anchor :: "Resolved \<Rightarrow> FileChecksum list \<Rightarrow> Anchor" where
  "catalog_anchor r cs =
     \<lparr>anRepo = rvRepo r, anRevision = rvRevision r, anSource = ''catalog'', anRescued = True,
      anFiles = map (\<lambda>c. \<lparr>afPath = fkPath c, afSize = 0, afSHA256 = fkSHA256 c, afGitSHA1 = []\<rparr>) cs\<rparr>"

text \<open>\<open>None\<close> when the listing of the tree never ends.\<close>

definition ResolveAnchor ::
  "HFClient \<Rightarrow> Pirateface \<Rightarrow> Resolved \<Rightarrow> bool \<Rightarrow> (catalog_error + Anchor) option" where
  "ResolveAnchor hf pf r trustCatalog =
     map_option (\<lambda>tree.
       case tree of
         Inr files \<Rightarrow> Inr (live_anchor r files)
       | Inl terr \<Rightarrow>
           if terr \<noteq> ErrUnknownRepo then Inl (AnchorFetch (rvRepo r) (rvRevision r) terr)
           else if \<not> trustCatalog then Inl ErrNotAnchored
           else case Checksums pf (rvRepo r) of
                  Inl e \<Rightarrow> Inl (RescuedAnchor (rvRepo r) e)
                | Inr cs \<Rightarrow> Inr (catalog_anchor r cs))
       (ListRepoTree hf (rvRepo r) (rvRevision r))"

definition trust_notice :: "string \<Rightarrow> string" where
  "trust_notice source =
     ''trust shifts from Hugging Face to the catalog provider ('' @ source @ '' anchor): weight files verify against the catalog-recorded SHA-256s; files without a recorded digest ride on the listed torrent''
     @ [CHR 0x27] @ ''s own piece hashes''"

definition Warning :: "Anchor \<Rightarrow> string" where
  "Warning a = (if \<not> anRescued a then [] else trust_notice (anSource a))"

text \<open>The index by path: the last file of a path wins.\<close>

definition ByPath :: "Anchor \<Rightarrow> (string \<times> AnchorFile) list" where
  "ByPath a = fold (\<lambda>f m. AList.update (afPath f) f m) (anFiles a) []"


subsection \<open>The checksum format read back\<close>

definition checksum_ok :: "FileChecksum \<Rightarrow> bool" where
  "checksum_ok c \<longleftrightarrow>
     length (fkSHA256 c) = 64 \<and> list_all is_lhex (fkSHA256 c) \<and> fkPath c \<noteq> [] \<and> list_all path_char (fkPath c)"

definition checksum_row :: "FileChecksum \<Rightarrow> string" where
  "checksum_row c = fkSHA256 c @ ''  '' @ fkPath c"

definition checksum_text :: "FileChecksum list \<Rightarrow> string" where
  "checksum_text cs = join_with [CHR 0x5C, CHR ''n''] (map checksum_row cs)"

lemma is_lhex_not: "\<not> is_lhex CHR 0x5C" "\<not> is_lhex CHR '' ''"
  by (simp_all add: is_lhex_def)

lemma split2_no_sep: "a \<notin> set x \<Longrightarrow> split2 a b x = [x]"
  by (induction a b x rule: split2.induct) auto

lemma split2_sep: "a \<notin> set x \<Longrightarrow> a \<noteq> b \<Longrightarrow> split2 a b (x @ a # b # s) = x # split2 a b s"
proof (induction x)
  case (Cons c x)
  have "split2 a b (c # x @ a # b # s) = (c # x) # split2 a b s"
    using Cons by (cases x) auto
  then show ?case by simp
qed simp

lemma cut2_sep: "a \<notin> set x \<Longrightarrow> cut2 a b (x @ a # b # s) = Some (x, s)"
proof (induction x)
  case (Cons c x)
  have "cut2 a b (c # x @ a # b # s) = Some (c # x, s)" using Cons by (cases x) auto
  then show ?case by simp
qed simp

lemma checksum_row_facts:
  assumes "checksum_ok c"
  shows "CHR 0x5C \<notin> set (checksum_row c)" "checksum_line (checksum_row c) = Inr c"
proof -
  have d: "CHR 0x5C \<notin> set (fkSHA256 c)" "CHR '' '' \<notin> set (fkSHA256 c)" "CHR 0x5C \<notin> set (fkPath c)"
    using assms is_lhex_not by (auto simp: checksum_ok_def list_all_iff path_char_def)
  show "CHR 0x5C \<notin> set (checksum_row c)" using d by (simp add: checksum_row_def)
  show "checksum_line (checksum_row c) = Inr c"
    using cut2_sep [OF d(2), of "CHR '' ''" "fkPath c"] assms by (simp add: checksum_line_def checksum_row_def checksum_ok_def)
qed

lemma list_res_lines:
  assumes "list_all checksum_ok cs" "cs \<noteq> []"
  shows "list_res checksum_line (split2 (CHR 0x5C) (CHR ''n'') (checksum_text cs)) = Inr cs"
  using assms(2,1)
proof (induction cs rule: list_nonempty_induct)
  case (single c)
  then show ?case using checksum_row_facts [of c] by (simp add: checksum_text_def split2_no_sep)
next
  case (cons c cs)
  then have "checksum_text (c # cs) = checksum_row c @ CHR 0x5C # CHR ''n'' # checksum_text cs"
    by (simp add: checksum_text_def join_with_Cons)
  then show ?case using cons checksum_row_facts [of c] by (simp add: split2_sep)
qed

lemma record_line_print:
  assumes "checksum_ok c" "rest = [] \<or> \<not> path_char (hd rest)"
  shows "record_line (checksum_row c @ rest) = Some (checksum_row c, rest)"
proof -
  have l: "length (fkSHA256 c) = 64" "list_all is_lhex (fkSHA256 c)" "fkPath c \<noteq> []" "list_all path_char (fkPath c)"
    using assms(1) by (simp_all add: checksum_ok_def)
  have "takeWhile path_char (fkPath c @ rest) = fkPath c"
    using l(4) assms(2) by (cases rest) (auto simp: list_all_iff takeWhile_append2 takeWhile_tail)
  then show ?thesis using l by (simp add: record_line_def checksum_row_def Let_def)
qed

lemma record_line_Some:
  assumes "record_line s = Some (line, rest)"
  shows "\<exists>c. checksum_ok c \<and> line = checksum_row c"
proof -
  let ?path = "takeWhile path_char (drop 66 s)"
  have l: "length s \<ge> 66" "list_all is_lhex (take 64 s)" "take 2 (drop 64 s) = ''  ''" "?path \<noteq> []" "line = take 66 s @ ?path"
    using assms by (auto simp: record_line_def Let_def split: if_splits)
  have "take 66 s = take 64 s @ take 2 (drop 64 s)" by (simp flip: take_add)
  moreover have "list_all path_char ?path" by (auto simp: list_all_iff dest: set_takeWhileD)
  ultimately show ?thesis using l
    by (intro exI [of _ "\<lparr>fkPath = ?path, fkSHA256 = take 64 s\<rparr>"]) (simp add: checksum_ok_def checksum_row_def)
qed

lemma record_body_print:
  assumes "list_all checksum_ok cs" "cs \<noteq> []" "length cs \<le> n"
  shows "record_body n (checksum_text cs @ CHR 0x5C # CHR 0x22 # post) = Some (checksum_text cs)"
  using assms(2,1,3)
proof (induction cs arbitrary: n rule: list_nonempty_induct)
  case (single c)
  then obtain m where n: "n = Suc m" by (cases n) auto
  have "record_line (checksum_row c @ CHR 0x5C # CHR 0x22 # post) = Some (checksum_row c, CHR 0x5C # CHR 0x22 # post)"
    using single by (intro record_line_print) (auto simp: path_char_def)
  then show ?case by (simp add: n checksum_text_def)
next
  case (cons c cs)
  then obtain m where n: "n = Suc m" "length cs \<le> m" by (cases n) auto
  have p: "checksum_text (c # cs) = checksum_row c @ CHR 0x5C # CHR ''n'' # checksum_text cs"
    using cons by (simp add: checksum_text_def join_with_Cons)
  have "record_line (checksum_row c @ CHR 0x5C # CHR ''n'' # checksum_text cs @ CHR 0x5C # CHR 0x22 # post)
    = Some (checksum_row c, CHR 0x5C # CHR ''n'' # checksum_text cs @ CHR 0x5C # CHR 0x22 # post)"
    using cons by (intro record_line_print) (auto simp: path_char_def)
  then show ?case using cons.IH [of m] cons.prems n by (simp add: p)
qed

lemma record_body_Some: "record_body n s = Some r \<Longrightarrow> \<exists>cs. cs \<noteq> [] \<and> list_all checksum_ok cs \<and> r = checksum_text cs"
proof (induction n arbitrary: s r)
  case (Suc n)
  then obtain line rest where l: "record_line s = Some (line, rest)" by (auto split: option.splits)
  obtain c where c: "checksum_ok c" "line = checksum_row c" using record_line_Some [OF l] by blast
  show ?case
  proof (cases "HasPrefix rest [CHR 0x5C, CHR 0x22]")
    case True
    then show ?thesis using Suc.prems l c by (intro exI [of _ "[c]"]) (simp add: checksum_text_def)
  next
    case False
    then obtain more where m: "record_body n (drop 2 rest) = Some more" "r = line @ [CHR 0x5C, CHR ''n''] @ more"
      using Suc.prems l by (auto split: if_splits)
    obtain cs where "cs \<noteq> []" "list_all checksum_ok cs" "more = checksum_text cs" using Suc.IH [OF m(1)] by blast
    then show ?thesis using m c by (intro exI [of _ "c # cs"]) (simp add: checksum_text_def join_with_Cons)
  qed
qed simp

lemma find_record_Some: "find_record s = Some r \<Longrightarrow> \<exists>cs. cs \<noteq> [] \<and> list_all checksum_ok cs \<and> r = checksum_text cs"
proof (induction s)
  case (Cons c s)
  show ?case
  proof (cases "record_at (c # s)")
    case None
    then show ?thesis using Cons by simp
  next
    case (Some r')
    then have "r' = r" "record_at (c # s) = Some r" using Cons.prems by simp_all
    then have "record_body (length (c # s)) (drop (length record_mark) (c # s)) = Some r"
      by (simp add: record_at_def del: record_body.simps split: if_splits)
    then show ?thesis by (rule record_body_Some)
  qed
qed simp

lemma find_record_skip: "CHR 0x5C \<notin> set pre \<Longrightarrow> find_record (pre @ s) = find_record s"
proof (induction pre)
  case (Cons c pre)
  then have "\<not> HasPrefix (c # pre @ s) record_mark" by (auto simp: record_mark_def)
  then show ?case using Cons by (simp add: record_at_def)
qed simp

lemma length_checksum_text: "cs \<noteq> [] \<Longrightarrow> length cs \<le> Suc (length (checksum_text cs))"
  by (induction cs rule: list_nonempty_induct) (auto simp: checksum_text_def join_with_Cons)

lemma ParseChecksumRecord_wf:
  assumes "ParseChecksumRecord html = Inr out"
  shows "out \<noteq> [] \<and> list_all checksum_ok out"
proof -
  obtain r where r: "find_record html = Some r" using assms by (auto simp: ParseChecksumRecord_def split: option.splits)
  obtain cs where "cs \<noteq> []" "list_all checksum_ok cs" "r = checksum_text cs" using find_record_Some [OF r] by blast
  then show ?thesis using assms r list_res_lines by (simp add: ParseChecksumRecord_def)
qed

text \<open>
  A checksum record embedded in a model page is read back entry for entry, wherever in the page
  it stands, and nothing is read that is not one: every entry of an accepted record has a digest of
  64 hexadecimal digits and a path, so no anchor built from it can carry a malformed digest.
\<close>

lemma ParseChecksumRecord_roundtrip:
  "(cs \<noteq> [] \<and> list_all checksum_ok cs \<and> CHR 0x5C \<notin> set pre \<longrightarrow>
      ParseChecksumRecord (pre @ record_mark @ checksum_text cs @ [CHR 0x5C, CHR 0x22] @ post) = Inr cs)
   \<and> (\<forall>out. ParseChecksumRecord html = Inr out \<longrightarrow> out \<noteq> [] \<and> list_all checksum_ok out)"
proof (intro conjI impI allI; (elim conjE)?)
  assume cs: "cs \<noteq> []" "list_all checksum_ok cs" and pre: "CHR 0x5C \<notin> set pre"
  let ?s = "record_mark @ checksum_text cs @ [CHR 0x5C, CHR 0x22] @ post"
  have "length cs \<le> length ?s" using length_checksum_text [OF cs(1)] by simp
  then have "record_at ?s = Some (checksum_text cs)"
    using record_body_print [OF cs(2,1), of "length ?s" post] by (simp add: record_at_def)
  moreover obtain c s' where "?s = c # s'" by (cases ?s) (auto simp: record_mark_def)
  ultimately have "find_record ?s = Some (checksum_text cs)" by simp
  then show "ParseChecksumRecord (pre @ ?s) = Inr cs"
    using find_record_skip [OF pre, of ?s] list_res_lines [OF cs(2,1)] by (simp add: ParseChecksumRecord_def)
qed (use ParseChecksumRecord_wf in blast)+

definition demo_checksum :: FileChecksum where
  "demo_checksum = \<lparr>fkPath = ''w.gguf'', fkSHA256 = replicate 64 (CHR ''a'')\<rparr>"

lemma ParseChecksumRecord_roundtrip_witness:
  "ParseChecksumRecord (''<html>'' @ record_mark @ checksum_text [demo_checksum] @ [CHR 0x5C, CHR 0x22] @ ''</html>'')
     = Inr [demo_checksum]"
proof -
  have "checksum_ok demo_checksum" "CHR 0x5C \<notin> set ''<html>''"
    by (simp_all add: demo_checksum_def checksum_ok_def is_lhex_def path_char_def list_all_iff)
  then show ?thesis
    using ParseChecksumRecord_roundtrip [of "[demo_checksum]" "''<html>''" "''</html>''" "[]"] by simp
qed

subsection \<open>Whose word the anchor is\<close>

lemma tree_fuel_error:
  "tree_fuel n c url files = Some (Inl e) \<Longrightarrow> \<exists>u. tree_page c u = Inl e"
  by (induction n arbitrary: url files) (auto split: if_splits sum.splits)

lemma tree_page_unknown:
  assumes "tree_page c u = Inl ErrUnknownRepo"
  shows "\<exists>auth resp. hcHTTP c (u, auth) = Inr resp \<and> rsStatus resp = 404"
proof -
  have "hf_do c u = Inl ErrUnknownRepo" using assms by (auto simp: tree_page_def bind_res_Inl split: option.splits)
  then show ?thesis by (auto simp: hf_do_def split: option.splits sum.splits if_splits)
qed

lemma repo_revision_not_unknown: "repo_revision repo rv \<noteq> Inl ErrUnknownRepo"
  by (auto simp: repo_revision_def Let_def split: sum.splits)

lemma ListRepoTree_unknown:
  assumes "ListRepoTree c repo rv = Some (Inl ErrUnknownRepo)"
  shows "\<exists>u auth resp. hcHTTP c (u, auth) = Inr resp \<and> rsStatus resp = 404"
proof -
  obtain r where "repo_revision repo rv = Inr r"
    using assms repo_revision_not_unknown by (cases "repo_revision repo rv") (auto simp: ListRepoTree_def)
  then have "tree_loop c (tree_url c repo r) [] = Some (Inl ErrUnknownRepo)"
    using assms by (auto simp: ListRepoTree_def split: option.splits sum.splits if_splits)
  then show ?thesis using tree_loop_fuel tree_fuel_error tree_page_unknown by blast
qed

lemma ListRepoTree_pages:
  assumes "ListRepoTree c repo rv = Some (Inr tree)"
  shows "\<exists>r pages. repo_revision repo rv = Inr r \<and> pages_from c (tree_url c repo r) pages \<and> tree = concat pages"
proof -
  obtain r where r: "repo_revision repo rv = Inr r"
    using assms by (auto simp: ListRepoTree_def split: sum.splits)
  then have "tree_loop c (tree_url c repo r) [] = Some (Inr tree)"
    using assms by (auto simp: ListRepoTree_def split: option.splits sum.splits if_splits)
  then obtain pages where "pages_from c (tree_url c repo r) pages" "tree = concat pages"
    using tree_loop_fuel tree_fuel_pages by fastforce
  then show ?thesis using r by blast
qed

definition pinned_by :: "TreeFile \<Rightarrow> AnchorFile \<Rightarrow> bool" where
  "pinned_by tf f \<longleftrightarrow>
     afPath f = tfPath tf \<and> afSize f = tfSize tf
     \<and> (if tfLFSOID tf \<noteq> [] then afSHA256 f = tfLFSOID tf \<and> afGitSHA1 f = [] else afSHA256 f = [] \<and> afGitSHA1 f = tfGitOID tf)"

text \<open>
  C21: the catalog's own digests become the anchor only if the caller shifted trust to it and Hugging
  Face answered that the repository or revision is not there, and then the notice is not empty; a
  failure, a refusal or a malformed answer never shifts trust. Otherwise the anchor pins every file
  of every page of the listing at the pinned revision, except the repository's own bookkeeping: a
  large file by its content digest, any other by its git id.
\<close>

theorem ResolveAnchor_trust:
  assumes "ResolveAnchor hf pf r trust = Some (Inr a)"
  shows "anRevision a = rvRevision r \<and>
    (if anRescued a
     then trust \<and> Warning a \<noteq> [] \<and> anSource a = ''catalog''
       \<and> (\<exists>url auth resp. hcHTTP hf (url, auth) = Inr resp \<and> rsStatus resp = 404)
       \<and> anFiles a \<noteq> [] \<and> (\<forall>f \<in> set (anFiles a). length (afSHA256 f) = 64 \<and> list_all is_lhex (afSHA256 f))
     else Warning a = [] \<and> anSource a = ''huggingface''
       \<and> (\<exists>rv pages. repo_revision (rvRepo r) (rvRevision r) = Inr rv
            \<and> pages_from hf (tree_url hf (rvRepo r) rv) pages
            \<and> list_all2 pinned_by (filter (\<lambda>tf. tfPath tf \<noteq> ''.gitattributes'') (concat pages)) (anFiles a)))"
proof -
  obtain res where res: "ListRepoTree hf (rvRepo r) (rvRevision r) = Some res"
    using assms by (auto simp: ResolveAnchor_def)
  show ?thesis
  proof (cases res)
    case (Inr tree)
    then have a: "a = live_anchor r tree" using assms res by (simp add: ResolveAnchor_def)
    have "list_all2 pinned_by ts (map live_file ts)" for ts
      by (simp add: list_all2_map2 list_all2_refl pinned_by_def live_file_def)
    then show ?thesis using ListRepoTree_pages [of hf "rvRepo r" "rvRevision r" tree] res Inr
      by (auto simp: a live_anchor_def Warning_def)
  next
    case (Inl e)
    then have e: "e = ErrUnknownRepo" "trust" using assms res by (auto simp: ResolveAnchor_def split: if_splits)
    then obtain cs where cs: "Checksums pf (rvRepo r) = Inr cs" "a = catalog_anchor r cs"
      using assms res Inl by (auto simp: ResolveAnchor_def split: sum.splits)
    then obtain html where "ParseChecksumRecord html = Inr cs"
      by (auto simp: Checksums_def bind_res_Inr split: if_splits)
    then have "cs \<noteq> []" "list_all checksum_ok cs" using ParseChecksumRecord_wf by blast+
    then show ?thesis using ListRepoTree_unknown [of hf "rvRepo r" "rvRevision r"] res Inl e cs
      by (auto simp: catalog_anchor_def Warning_def trust_notice_def checksum_ok_def list_all_iff)
  qed
qed

text \<open>A repository that is gone, and a catalog that recorded one file of it.\<close>

definition gone_server :: HFClient where
  "gone_server = (demo_server [])\<lparr>hcHTTP := (\<lambda>_. Inr \<lparr>rsStatus = 404, rsLink = [], rsBody = []\<rparr>)\<rparr>"

definition demo_page :: string where
  "demo_page = record_mark @ checksum_text [demo_checksum] @ [CHR 0x5C, CHR 0x22]"

definition demo_catalog :: Pirateface where
  "demo_catalog = \<lparr>pfBaseURL = ''h'', pfParse = (\<lambda>_. None), pfHTTP = (\<lambda>_. Inr (200, Inr demo_page)),
     pfMagnet = (\<lambda>_. Inl []), pfURLPath = (\<lambda>_. None)\<rparr>"

definition demo_listing :: Resolved where
  "demo_listing = \<lparr>rvRepo = ''a/b'', rvRevision = ''main'', rvInfohash = [], rvMagnet = [], rvTrackers = [],
     rvWebseeds = [], rvSize = [], rvSeeds = 0\<rparr>"

lemma demo_rescued:
  "ResolveAnchor gone_server demo_catalog demo_listing True = Some (Inr (catalog_anchor demo_listing [demo_checksum]))"
proof -
  have ok: "checksum_ok demo_checksum"
    by (simp add: demo_checksum_def checksum_ok_def is_lhex_def path_char_def list_all_iff)
  have v: "ValidRepoID ''a/b''" "escapeSegments ''main'' = Inr ''main''" by code_simp+
  have l: "length record_mark = 15" by (simp add: record_mark_def)
  have "length demo_page \<le> bodyLimit"
    by (simp add: demo_page_def bodyLimit_def checksum_text_def checksum_row_def demo_checksum_def l)
  then have b: "take bodyLimit demo_page = demo_page" by simp
  have "record_at demo_page = Some (checksum_text [demo_checksum])"
    using record_body_print [of "[demo_checksum]" "length demo_page" "[]"] ok by (simp add: record_at_def demo_page_def l)
  moreover obtain c s where "demo_page = c # s" by (cases demo_page) (auto simp: demo_page_def record_mark_def)
  ultimately have "find_record demo_page = Some (checksum_text [demo_checksum])" by (metis find_record.simps(2) option.simps(5))
  then have "ParseChecksumRecord demo_page = Inr [demo_checksum]"
    using list_res_lines [of "[demo_checksum]"] ok by (simp add: ParseChecksumRecord_def)
  then have cs: "Checksums demo_catalog ''a/b'' = Inr [demo_checksum]"
    using v b by (simp add: Checksums_def pf_get_def demo_catalog_def)
  have "tree_page gone_server u = Inl ErrUnknownRepo" for u
    by (simp add: tree_page_def hf_do_def gone_server_def demo_server_def)
  then have "ListRepoTree gone_server ''a/b'' ''main'' = Some (Inl ErrUnknownRepo)"
    using v by (simp add: ListRepoTree_def repo_revision_def main_revision_def tree_loop.simps tree_url_def
        gone_server_def demo_server_def)
  then show ?thesis using cs by (simp add: ResolveAnchor_def demo_listing_def)
qed

lemma ResolveAnchor_trust_witness:
  "anRevision (catalog_anchor demo_listing [demo_checksum]) = ''main''
   \<and> Warning (catalog_anchor demo_listing [demo_checksum]) \<noteq> []"
  using ResolveAnchor_trust [OF demo_rescued] by (simp add: catalog_anchor_def demo_listing_def)

end
