(* ===== verification/CatalogPull.thy ===== *)
theory CatalogPull
  imports Catalog Foreign Importer Flow
begin

text \<open>
  The catalog pull, \<open>internal/swarm/catalog.go\<close>: a community torrent is registered with its anchor,
  downloaded by the foreign engine through the storage driver of \<open>Foreign\<close>, waited for, re-checked
  and handed to the importer, and then kept seeding. The torrent engine is a parameter: what it does
  to the storage between the calls the code makes. Priorities, limits and progress are left out.
\<close>

subsection \<open>The pull\<close>

record CatalogPull =
  plResolved :: "Resolved option"
  plAnchor :: "Anchor option"
  plQuant :: string
  plAs :: string

record CatalogResult =
  crImport :: ImportResult
  crInfohash :: string
  crSeededForeign :: bool
  crWarning :: string

datatype pull_error =
    CallerBug | EngineFailed string | RegisterFailed foreign_error | BadMagnet string | AddFailed string
  | NoMetadata | ListedV2 string | DriverNotOpen string | NothingToFilter string | QuantNotListed string nat
  | PullCancelled | WaitFailed foreign_error | PullVerify foreign_error | ImportFailed import_error

text \<open>
  The engine. \<open>ceJoin\<close> adds the torrent and waits for its metadata, \<open>ceSettle\<close> is what hashing the
  pieces of files already sealed makes it do, \<open>ceTurn\<close> what it does between two looks of the waiting
  loop, which the caller cancels after \<open>ceRounds\<close> of them, \<open>ceCheck\<close> what the final piece check does
  and \<open>ceFails\<close>, \<open>ceComplete\<close> how that ends for each piece.
\<close>

record catalog_env =
  ceEngine :: "string option"
  ceMagnet :: "string \<Rightarrow> string option"
  ceAdd :: "string option"
  ceJoin :: "ForeignStorage \<Rightarrow> ForeignStorage \<times> v1_info option"
  ceSettle :: "ForeignStorage \<Rightarrow> ForeignStorage"
  ceTurn :: "nat \<Rightarrow> ForeignStorage \<Rightarrow> ForeignStorage"
  ceRounds :: nat
  ceCheck :: "ForeignStorage \<Rightarrow> ForeignStorage"
  ceFails :: "nat \<Rightarrow> bool"
  ceComplete :: "nat \<Rightarrow> bool"
  ceDrop :: "ForeignStorage \<Rightarrow> ForeignStorage"
  ceBad :: "string \<Rightarrow> bool"
  ceImport :: import_env

text \<open>The anchor as the driver takes it: a map by path, the last file of a path wins.\<close>

definition foreign_file :: "AnchorFile \<Rightarrow> ForeignFile" where
  "foreign_file f = \<lparr>ffPath = afPath f, ffSize = afSize f, ffSHA256 = afSHA256 f, ffGitSHA1 = afGitSHA1 f\<rparr>"

definition anchorFiles :: "Anchor \<Rightarrow> (string \<times> ForeignFile) list" where
  "anchorFiles a = fold (\<lambda>f m. AList.update (afPath f) (foreign_file f) m) (anFiles a) []"

subsection \<open>What is wanted\<close>

text \<open>One file of the torrent: the wanted paths, the number of GGUF files and of those that match.\<close>

definition want_file :: "string \<Rightarrow> info_file \<Rightarrow> string list \<times> nat \<times> nat \<Rightarrow> string list \<times> nat \<times> nat" where
  "want_file quant fi = (\<lambda>(wanted, total, matched).
     let path = slashJoin (ifPath fi);
         base = (case last_cut (CHR ''/'') path of Some (_, b) \<Rightarrow> b | None \<Rightarrow> path);
         low = ToLower base;
         isWeights = (HasSuffix low ''.gguf'' \<or> HasSuffix low ''.safetensors'') in
     if \<not> isWeights \<or> quant = [] then (wanted @ [path], total, matched)
     else if \<not> HasSuffix low ''.gguf'' then (wanted, total, matched)
     else
       let token = quantToken base in
       if token = ToLower quant \<or> token = [] \<and> quant = ''raw''
       then (wanted @ [path], total + 1, matched + 1)
       else (wanted, total + 1, matched))"

definition wantedFiles :: "v1_info \<Rightarrow> string \<Rightarrow> pull_error + string list" where
  "wantedFiles vi quant =
     (let (wanted, total, matched) = fold (want_file quant) (viFiles vi) ([], 0, 0) in
      if quant \<noteq> [] \<and> matched = 0 then
        if total = 0 then Inl (NothingToFilter quant) else Inl (QuantNotListed quant total)
      else Inr wanted)"

subsection \<open>Fetching\<close>

type_synonym 'a pull_flow = "(ForeignStorage, pull_error, 'a) flow"

text \<open>The driver as it is now; a driver that is gone was closed as it was last seen.\<close>

definition driver_now :: "string \<Rightarrow> foreignTorrent \<Rightarrow> ForeignStorage \<Rightarrow> foreignTorrent" where
  "driver_now ih t fs = (case driverForForeign fs ih of Some t' \<Rightarrow> t' | None \<Rightarrow> t\<lparr>ftClosed := True\<rparr>)"

fun wait_wanted ::
  "(nat \<Rightarrow> ForeignStorage \<Rightarrow> ForeignStorage) \<Rightarrow> nat \<Rightarrow> string \<Rightarrow> string list \<Rightarrow> foreignTorrent \<Rightarrow> foreignTorrent pull_flow" where
  "wait_wanted turn 0 ih wanted t = fail PullCancelled"
| "wait_wanted turn (Suc n) ih wanted t =
     (\<lambda>fs. let t = driver_now ih t fs in
       case WaitSealedWanted t wanted of
         Some (Inl e) \<Rightarrow> (fs, Inl (WaitFailed e))
       | Some (Inr _) \<Rightarrow> (fs, Inr t)
       | None \<Rightarrow> wait_wanted turn n ih wanted t (turn n fs))"

definition register_anchor :: "Resolved \<Rightarrow> Anchor \<Rightarrow> unit pull_flow" where
  "register_anchor r a = wrap RegisterFailed (RegisterForeign (rvInfohash r) (anchorFiles a) (\<not> anRescued a))"

definition metadata :: "catalog_env \<Rightarrow> v1_info pull_flow" where
  "metadata ce = (\<lambda>fs. case ceJoin ce fs of (fs, None) \<Rightarrow> (fs, Inl NoMetadata) | (fs, Some vi) \<Rightarrow> (fs, Inr vi))"

definition open_driver :: "string \<Rightarrow> foreignTorrent pull_flow" where
  "open_driver ih =
     asks (\<lambda>fs. case driverForForeign fs ih of None \<Rightarrow> Inl (DriverNotOpen ih) | Some t \<Rightarrow> Inr t)"

text \<open>From the joined torrent to the paths and digests of its sealed files.\<close>

definition download :: "catalog_env \<Rightarrow> CatalogPull \<Rightarrow> Resolved \<Rightarrow> (string \<times> string) list pull_flow" where
  "download ce pl r =
     seq (metadata ce) (\<lambda>vi.
     seq (unless (\<not> viHasV2 vi) (ListedV2 (rvRepo r))) (\<lambda>_.
     seq (open_driver (rvInfohash r)) (\<lambda>t.
     seq (modify (ceSettle ce)) (\<lambda>_.
     seq (asks (\<lambda>_. wantedFiles vi (plQuant pl))) (\<lambda>wanted.
     seq (wait_wanted (ceTurn ce) (ceRounds ce) (rvInfohash r) wanted t) (\<lambda>t.
     seq (modify (ceCheck ce)) (\<lambda>_.
     seq (asks (\<lambda>fs. map_sum PullVerify id (VerifySealed (ceFails ce) (ceComplete ce) (driver_now (rvInfohash r) t fs) vi))) (\<lambda>_.
     asks (\<lambda>fs. Inr (SealedFiles (driver_now (rvInfohash r) t fs)))))))))))"

text \<open>\<open>openBlob\<close>: the importer reads each source from the store.\<close>

definition blob_source :: "(string \<Rightarrow> bool) \<Rightarrow> store \<Rightarrow> string \<times> string \<Rightarrow> Source" where
  "blob_source bad s = (\<lambda>(path, digest).
     \<lparr>srName = path, srRead = (case OpenBlob bad s digest of Opened c \<Rightarrow> Some (fContent c) | _ \<Rightarrow> None)\<rparr>)"

definition pull_sources :: "(string \<Rightarrow> bool) \<Rightarrow> store \<Rightarrow> (string \<times> string) list \<Rightarrow> Source list" where
  "pull_sources bad s sealed = map (blob_source bad s) (sort_by (\<lambda>a b. fst a < fst b) sealed)"

definition pull_options :: "CatalogPull \<Rightarrow> Resolved \<Rightarrow> ImportOptions" where
  "pull_options pl r =
     \<lparr>opAs = (if plAs pl = [] then ToLower (rvRepo r) else plAs pl), opHFRepo = rvRepo r, opHFRevision = rvRevision r\<rparr>"

definition import_sealed ::
  "catalog_env \<Rightarrow> CatalogPull \<Rightarrow> Resolved \<Rightarrow> (string \<times> string) list \<Rightarrow> ImportResult pull_flow" where
  "import_sealed ce pl r sealed = (\<lambda>fs.
     let sources = pull_sources (ceBad ce) (fsStore fs) sealed in
     case Import (ceImport ce) (pull_options pl r) sources (fsStore fs) of
       (s, res) \<Rightarrow> (fs\<lparr>fsStore := s\<rparr>, map_sum ImportFailed id res))"

definition pull_fetch ::
  "catalog_env \<Rightarrow> CatalogPull \<Rightarrow> Resolved \<Rightarrow> Anchor \<Rightarrow> ((string \<times> string) list \<times> ImportResult) pull_flow" where
  "pull_fetch ce pl r a =
     seq (register_anchor r a) (\<lambda>_.
     seq (asks (\<lambda>_. case ceMagnet ce (rvMagnet r) of Some e \<Rightarrow> Inl (BadMagnet e) | None \<Rightarrow> Inr ())) (\<lambda>_.
     seq (asks (\<lambda>_. case ceAdd ce of Some e \<Rightarrow> Inl (AddFailed e) | None \<Rightarrow> Inr ())) (\<lambda>_.
     on_error (ceDrop ce)
       (seq (download ce pl r) (\<lambda>sealed.
        seq (import_sealed ce pl r sealed) (\<lambda>imp.
        ret (sealed, imp)))))))"

text \<open>The seeds of the client: infohash, and path and digest of each file seeded.\<close>

record catalog_client =
  ccForeign :: ForeignStorage
  ccSeeds :: "(string \<times> (string \<times> string) list) list"

definition ImportCatalog ::
  "catalog_env \<Rightarrow> CatalogPull \<Rightarrow> catalog_client \<Rightarrow> catalog_client \<times> (pull_error + CatalogResult)" where
  "ImportCatalog ce pl c =
     (case (plResolved pl, plAnchor pl) of
        (Some r, Some a) \<Rightarrow>
          (case ceEngine ce of
             Some e \<Rightarrow> (c, Inl (EngineFailed e))
           | None \<Rightarrow>
             (case pull_fetch ce pl r a (ccForeign c) of
                (fs, Inl e) \<Rightarrow> (c\<lparr>ccForeign := fs\<rparr>, Inl e)
              | (fs, Inr (sealed, imp)) \<Rightarrow>
                  (c\<lparr>ccForeign := fs, ccSeeds := AList.update (rvInfohash r) sealed (ccSeeds c)\<rparr>,
                   Inr \<lparr>crImport = imp, crInfohash = rvInfohash r, crSeededForeign = True, crWarning = Warning a\<rparr>)))
      | _ \<Rightarrow> (c, Inl CallerBug))"


subsection \<open>Anchors stay what they were when the torrent was opened\<close>

definition anchors :: "(string \<Rightarrow> ForeignFile \<Rightarrow> bool) \<Rightarrow> foreignTorrent \<Rightarrow> bool" where
  "anchors q t \<longleftrightarrow> (\<forall>p st. (p, st) \<in> set (ftStates t) \<longrightarrow> q p (frAnchor st))"

lemma anchors_state: "anchors q t \<Longrightarrow> map_of (ftStates t) p = Some st \<Longrightarrow> q p (frAnchor st)"
  by (auto simp: anchors_def dest: map_of_SomeD)

lemma anchors_set_state: "anchors q t \<Longrightarrow> q p (frAnchor st) \<Longrightarrow> anchors q (set_state p st t)"
  by (auto simp: anchors_def set_state_def dest!: set_alist_update)

lemma write_share_anchors:
  assumes "write_share env f st pos k b (s, t) = ((s', t'), r)" and "anchors q t" and "q (rnPath f) (frAnchor st)"
  shows "anchors q t'"
proof -
  have "anchors q (set_state (rnPath f) (st\<lparr>frPart := x\<rparr>) t1)" if "anchors q t1" for x t1
    using that assms(3) by (simp add: anchors_set_state)
  then show ?thesis
    using assms(1,2) by (auto simp: write_share_def Let_def split: option.splits sum.splits if_splits)
qed

lemma writeAtLocked_anchors:
  "writeAtLocked env pos b (s, t) = ((s', t'), r) \<Longrightarrow> anchors q t \<Longrightarrow> anchors q t'"
proof (induction "length b" arbitrary: env pos b s t rule: less_induct)
  case less
  show ?case
  proof (cases "b = [] \<or> filesInRange (ftFiles t) pos (wrap64 (pos + int (length b))) = []")
    case True
    then show ?thesis using less.prems by (cases "b = []") (auto simp: writeAtLocked_past)
  next
    case False
    then obtain f fs where f: "b \<noteq> []" "filesInRange (ftFiles t) pos (wrap64 (pos + int (length b))) = f # fs"
      by (cases "filesInRange (ftFiles t) pos (wrap64 (pos + int (length b)))") auto
    let ?n = "share f pos (length b)"
    have small: "length (drop (nat ?n) b) < length b" if "0 < ?n" using that f(1) by simp
    note w = less.prems(1) [unfolded writeAtLocked_turn [OF f] Let_def]
    show ?thesis
    proof (cases "map_of (ftStates t) (rnPath f)")
      case None
      then show ?thesis using w less.prems(2) by simp
    next
      case (Some st)
      note a = anchors_state [OF less.prems(2) Some]
      show ?thesis
      proof (cases "frFailed st \<noteq> None \<or> frSealed st")
        case True
        then show ?thesis using w less.prems(2) Some less.hyps [OF small] by (auto split: option.splits if_splits)
      next
        case False
        obtain s1 t1 r1 where ws: "write_share (env 0) f st pos ?n b (s, t) = ((s1, t1), r1)"
          by (metis surj_pair)
        then have "anchors q t1" using write_share_anchors less.prems(2) a by blast
        then show ?thesis
          using w ws Some False less.hyps [OF small, of _ _ s1 t1] write_share_done [of "env 0" f st] by (cases r1) auto
      qed
    qed
  qed
qed

lemma complete_bit_anchor:
  "complete_bit env k st s = ((s', st'), r) \<Longrightarrow> frAnchor st' = frAnchor st"
  by (auto simp: complete_bit_def sealForeign_def set_bit_of_def drop_part_def Let_def
      split: if_splits sum.splits option.splits prod.splits)

lemma complete_bits_anchors:
  "complete_bits env bs (s, t) = ((s', t'), r) \<Longrightarrow> anchors q t \<Longrightarrow> anchors q t'"
proof (induction bs arbitrary: env s t)
  case (Cons x bs)
  obtain path k where x: "x = (path, k)" by (cases x)
  show ?case
  proof (cases "map_of (ftStates t) path")
    case None
    then show ?thesis using Cons x by simp
  next
    case (Some st)
    obtain s1 st1 r1 where c: "complete_bit (env 0) k st s = ((s1, st1), r1)" by (metis surj_pair)
    have "anchors q (set_state path st1 t)"
      using complete_bit_anchor [OF c] anchors_state [OF Cons.prems(2) Some] Cons.prems(2) by (simp add: anchors_set_state)
    then show ?thesis
      using Cons.prems(1) x Some c Cons.IH [of "\<lambda>i. env (Suc i)" s1 "set_state path st1 t"] by (cases r1) auto
  qed
qed simp

lemma clear_bits_anchors: "clear_bits bs t = (t', r) \<Longrightarrow> anchors q t \<Longrightarrow> anchors q t'"
proof (induction bs arbitrary: t)
  case (Cons x bs)
  obtain path k where x: "x = (path, k)" by (cases x)
  have "anchors q (set_state path (set_bit_of k v st) t)" if "map_of (ftStates t) path = Some st" for st v
    using anchors_state [OF Cons.prems(2) that] Cons.prems(2) by (intro anchors_set_state) (auto simp: set_bit_of_def)
  then show ?case using Cons x by (auto split: option.splits if_splits)
qed simp

text \<open>
  How the anchor a driver holds follows from the registration: the registered digests, or for an
  empty file the digest of no bytes, if the registered digests agree with that.
\<close>

definition anchor_at :: "foreignReg \<Rightarrow> string \<Rightarrow> ForeignFile" where
  "anchor_at reg p = (case map_of (rgFiles reg) p of None \<Rightarrow> no_anchor | Some a \<Rightarrow> a)"

definition follows :: "foreignReg \<Rightarrow> string \<Rightarrow> ForeignFile \<Rightarrow> bool" where
  "follows reg p a \<longleftrightarrow>
     (rgStrict reg \<longrightarrow> map_of (rgFiles reg) p \<noteq> None)
     \<and> (ffSHA256 a = ffSHA256 (anchor_at reg p) \<and> ffGitSHA1 a = ffGitSHA1 (anchor_at reg p)
        \<or> ffSHA256 a = emptyContentSHA256 \<and> ffSHA256 (anchor_at reg p) \<in> {[], emptyContentSHA256}
          \<and> ffGitSHA1 (anchor_at reg p) \<in> {[], emptyGitBlobSHA1})"

lemma open_files_follows:
  "open_files env bad pl reg fis off t s = Returns (s', Inr t') \<Longrightarrow> anchors (follows reg) t \<Longrightarrow> anchors (follows reg) t'"
proof (induction fis arbitrary: env off t s)
  case (Cons fi fis)
  define path where "path = slashJoin (ifPath fi)"
  define a where "a = (case map_of (rgFiles reg) path of None \<Rightarrow> no_anchor | Some a \<Rightarrow> a)"
  note o = Cons.prems(1) [unfolded open_files.simps Let_def, folded path_def, folded a_def]
  have a: "anchor_at reg path = a" by (simp add: anchor_at_def a_def)
  have strict: "rgStrict reg \<longrightarrow> map_of (rgFiles reg) path \<noteq> None" using o by (auto split: if_splits)
  have set: "anchors (follows reg) (t1\<lparr>ftStates := AList.update path st (ftStates t1)\<rparr>)"
    if "anchors (follows reg) t1" "follows reg path (frAnchor st)" for t1 st
    using anchors_set_state [OF that] by (simp add: set_state_def)
  show ?case
  proof (cases "ifLength fi = 0")
    case True
    obtain s1 r1 where e: "open_empty (env 0) bad path a s = (s1, r1)" by (metis surj_pair)
    have "follows reg path (frAnchor st)" if "r1 = Inr st" for st
      using e that strict a by (auto simp: open_empty_def follows_def Let_def split: if_splits sum.splits prod.splits)
    then show ?thesis
      using o True e Cons.prems(2) set [of t]
        Cons.IH [of "\<lambda>i. env (Suc i)" off "t\<lparr>ftStates := AList.update path (projr r1) (ftStates t)\<rparr>" s1]
      by (auto split: if_splits sum.splits)
  next
    case False
    have fo: "follows reg path (frAnchor (open_file bad path a len n s))" for len n
      using strict a by (simp add: follows_def open_file_def Let_def)
    have ok: "anchors (follows reg) (t\<lparr>ftFiles := fs, ftStates := AList.update path (open_file bad path a len n s) (ftStates t)\<rparr>)"
      for fs len n
      using set [OF Cons.prems(2) fo] by (simp add: anchors_def)
    show ?thesis using o False Cons.IH [OF _ ok] by (auto split: if_splits)
  qed
qed simp

text \<open>Whatever the engine does between two calls of the pull, as long as nobody re-registers its torrent.\<close>

definition pull_step :: "string \<Rightarrow> ForeignStorage \<Rightarrow> ForeignStorage \<Rightarrow> bool" where
  "pull_step ih fs fs' \<longleftrightarrow> foreign_step fs fs' \<and> map_of (fsReg fs') ih = map_of (fsReg fs) ih"

definition pull_inv :: "string \<Rightarrow> foreignReg \<Rightarrow> ForeignStorage \<Rightarrow> bool" where
  "pull_inv ih reg fs \<longleftrightarrow>
     foreign_inv fs \<and> map_of (fsReg fs) ih = Some reg
     \<and> (\<forall>t. map_of (fsOpen fs) ih = Some t \<longrightarrow> anchors (follows reg) t)"

lemma pull_step_inv:
  assumes "pull_step ih fs fs'" and "pull_inv ih reg fs"
  shows "pull_inv ih reg fs'"
proof -
  have inv: "foreign_inv fs'" using assms foreign_step_inv by (auto simp: pull_step_def pull_inv_def)
  have reg: "map_of (fsReg fs') ih = Some reg" using assms by (simp add: pull_step_def pull_inv_def)
  note old = assms(2) [unfolded pull_inv_def, THEN conjunct2, THEN conjunct2, rule_format]
  have "anchors (follows reg) t" if now: "map_of (fsOpen fs') ih = Some t" for t
    using assms(1) [unfolded pull_step_def, THEN conjunct1] now
  proof (cases rule: foreign_step.cases)
    case (write_piece key t0 env off b pos s' t' r)
    then show ?thesis using now old writeAtLocked_anchors [of env "wrap64 (off + pos)" b "fsStore fs" t0 s' t' r "follows reg"]
      by (auto simp: put_torrent_def update_conv' ForeignWriteAt_def split: if_splits)
  next
    case (complete key t0 env off len s' t' r)
    then show ?thesis using now old complete_bits_anchors [of env _ "fsStore fs" t0 s' t' r "follows reg"]
      by (auto simp: put_torrent_def update_conv' ForeignMarkComplete_def split: if_splits)
  next
    case (not_complete key t0 off len t' r)
    then show ?thesis using now old clear_bits_anchors [of _ t0 t' r "follows reg"]
      by (auto simp: put_torrent_def update_conv' ForeignMarkNotComplete_def split: if_splits)
  next
    case (register ih' files strict r)
    then show ?thesis using now old
      by (auto simp: RegisterForeign_def split: if_splits option.splits prod.splits)
  next
    case (open_torrent env bad vi ih' r)
    have fsReg: "map_of (fsReg fs) ih = Some reg" using assms(2) by (simp add: pull_inv_def)
    show ?thesis
    proof (cases "map_of (fsOpen fs') ih = map_of (fsOpen fs) ih")
      case True
      then show ?thesis using now old by simp
    next
      case False
      then obtain s1 where "hex_encode ih' = ih" "newForeignTorrent env bad ih vi reg (fsStore fs) = Returns (s1, Inr t)"
        using open_torrent now fsReg
        by (auto simp: OpenForeign_def Let_def update_conv' split: if_splits option.splits panic.splits sum.splits prod.splits)
      then show ?thesis
        using open_files_follows [of env bad "viPieceLength vi" reg _ 0 _ "fsStore fs" s1 t]
        by (simp add: newForeignTorrent_def anchors_def)
    qed
  next
    case (close env key)
    then show ?thesis using now old
      by (auto simp: close_foreign_def AList.delete_conv' split: option.splits if_splits)
  next
    case (others s')
    then show ?thesis using now old by simp
  qed
  then show ?thesis using inv reg by (simp add: pull_inv_def)
qed

lemma pull_steps_inv: "(pull_step ih)\<^sup>*\<^sup>* fs fs' \<Longrightarrow> pull_inv ih reg fs \<Longrightarrow> pull_inv ih reg fs'"
  by (induction rule: rtranclp_induct) (auto intro: pull_step_inv)


lemma foreign_step_keeps:
  assumes "foreign_step fs fs'" and "foreign_inv fs"
  shows "keeps (fsStore fs) (fsStore fs')"
  using assms(1)
proof (cases rule: foreign_step.cases)
  case (write_piece key t env off b pos s' t' r)
  then show ?thesis using assms(2) writeAtLocked_keeps [of env "wrap64 (off + pos)" b "fsStore fs" t s' t' r]
    by (simp add: put_torrent_def ForeignWriteAt_def foreign_inv_def)
next
  case (complete key t env off len s' t' r)
  then show ?thesis using assms(2) complete_bits_keeps [of env _ "fsStore fs" t s' t' r]
    by (simp add: put_torrent_def ForeignMarkComplete_def foreign_inv_def)
next
  case (register ih files strict r)
  then show ?thesis by (auto simp: RegisterForeign_def split: if_splits option.splits prod.splits)
next
  case (open_torrent env bad vi ih r)
  show ?thesis
  proof (cases "fs' = fs")
    case False
    obtain reg where reg: "map_of (fsReg fs) (hex_encode ih) = Some reg"
      using open_torrent(1) False by (auto simp: OpenForeign_def Let_def split: if_splits option.splits)
    obtain s' r' where n: "newForeignTorrent env bad (hex_encode ih) vi reg (fsStore fs) = Returns (s', r')"
      using open_torrent(1) False reg by (auto simp: OpenForeign_def Let_def split: if_splits panic.splits)
    have "keeps (fsStore fs) s'"
      using open_files_keeps [OF n [unfolded newForeignTorrent_def]] by (simp add: torrent_ok_def)
    moreover have "fsStore fs' = s'"
      using open_torrent reg n False by (auto simp: OpenForeign_def Let_def split: if_splits sum.splits)
    ultimately show ?thesis by simp
  qed simp
next
  case (close env key)
  then show ?thesis using assms(2) close_foreign_keeps [of fs key]
    by (cases "map_of (fsOpen fs) key") (auto simp: foreign_inv_def close_foreign_def)
qed (auto simp: put_torrent_def keeps_def)

subsection \<open>The engine's share of a pull\<close>

definition engine_runs :: "string \<Rightarrow> ForeignStorage \<Rightarrow> ForeignStorage \<Rightarrow> bool" where
  "engine_runs ih = (pull_step ih)\<^sup>*\<^sup>*"

interpretation pull: frame "engine_runs ih" for ih
  by unfold_locales (auto simp: engine_runs_def)

definition pull_engine :: "catalog_env \<Rightarrow> string \<Rightarrow> bool" where
  "pull_engine ce ih \<longleftrightarrow>
     (\<forall>fs. engine_runs ih fs (fst (ceJoin ce fs)) \<and> engine_runs ih fs (ceSettle ce fs)
        \<and> (\<forall>k. engine_runs ih fs (ceTurn ce k fs)) \<and> engine_runs ih fs (ceCheck ce fs))"

text \<open>What holds of a driver, live or closed, as long as the engine runs.\<close>

definition driver_good :: "foreignReg \<Rightarrow> foreignTorrent \<Rightarrow> ForeignStorage \<Rightarrow> bool" where
  "driver_good reg t fs \<longleftrightarrow> torrent_ok (fsStore fs) t \<and> anchors (follows reg) t"

lemma engine_runs_keeps:
  "engine_runs ih fs fs' \<Longrightarrow> pull_inv ih reg fs \<Longrightarrow> pull_inv ih reg fs' \<and> keeps (fsStore fs) (fsStore fs')"
  unfolding engine_runs_def
proof (induction rule: rtranclp_induct)
  case (step fs1 fs2)
  then have i: "pull_inv ih reg fs1" and k: "keeps (fsStore fs) (fsStore fs1)" by simp_all
  have "foreign_step fs1 fs2" "foreign_inv fs1" using step(2) i by (simp_all add: pull_step_def pull_inv_def)
  then have "keeps (fsStore fs1) (fsStore fs2)" by (rule foreign_step_keeps)
  with k have "keeps (fsStore fs) (fsStore fs2)" by (rule keeps_trans)
  then show ?case using pull_step_inv [OF step(2) i] by simp
qed simp

lemma driver_good_runs: "driver_good reg t fs \<Longrightarrow> keeps (fsStore fs) (fsStore fs') \<Longrightarrow> driver_good reg t fs'"
  using torrent_ok_keeps by (auto simp: driver_good_def)

lemma driver_good_open: "pull_inv ih reg fs \<Longrightarrow> map_of (fsOpen fs) ih = Some t \<Longrightarrow> driver_good reg t fs"
  by (auto simp: pull_inv_def driver_good_def foreign_inv_def)

lemma driver_good_now:
  "pull_inv ih reg fs \<Longrightarrow> driver_good reg t fs \<Longrightarrow> driver_good reg (driver_now ih t fs) fs"
  using driver_good_open [of ih reg fs]
  by (auto simp: driver_now_def driverForForeign_def driver_good_def torrent_ok_def anchors_def split: option.split)

lemma wait_wanted_runs:
  assumes "\<And>k fs. engine_runs ih fs (turn k fs)"
  shows "wait_wanted turn n ih wanted t fs = (fs', x) \<Longrightarrow> pull_inv ih reg fs \<Longrightarrow> driver_good reg t fs
    \<Longrightarrow> engine_runs ih fs fs' \<and> (\<forall>t'. x = Inr t' \<longrightarrow> driver_good reg t' fs')"
proof (induction n arbitrary: t fs)
  case (Suc n)
  let ?t = "driver_now ih t fs"
  have good: "driver_good reg ?t fs" using Suc.prems driver_good_now by blast
  show ?case
  proof (cases "WaitSealedWanted ?t wanted")
    case None
    have run: "engine_runs ih fs (turn n fs)" by (rule assms)
    note k = engine_runs_keeps [OF run Suc.prems(2)]
    have "driver_good reg ?t (turn n fs)" using good k driver_good_runs by blast
    moreover have "wait_wanted turn n ih wanted ?t (turn n fs) = (fs', x)" using Suc.prems(1) None by (simp add: Let_def)
    ultimately show ?thesis using Suc.IH k run pull.R_trans by blast
  next
    case (Some r)
    then show ?thesis using Suc.prems(1) good by (cases r) (auto simp: Let_def pull.R_refl)
  qed
qed (auto simp: pull.R_refl)

lemma download_runs:
  assumes "download ce pl r fs = (fs', Inr sealed)" and "pull_engine ce (rvInfohash r)" and "pull_inv (rvInfohash r) reg fs"
  shows "engine_runs (rvInfohash r) fs fs' \<and> (\<exists>t. driver_good reg t fs' \<and> sealed = SealedFiles t)"
proof -
  let ?ih = "rvInfohash r"
  note eng = assms(2) [unfolded pull_engine_def]
  obtain vi fs1 t wanted fs2 t2 where
    j: "ceJoin ce fs = (fs1, Some vi)" and d: "map_of (fsOpen fs1) ?ih = Some t"
    and w: "wait_wanted (ceTurn ce) (ceRounds ce) ?ih wanted t (ceSettle ce fs1) = (fs2, Inr t2)"
    and e: "fs' = ceCheck ce fs2" "sealed = SealedFiles (driver_now ?ih t2 fs')"
    using assms(1)
    by (auto simp: download_def seq_Inr metadata_def open_driver_def driverForForeign_def split: prod.splits option.splits if_splits)
  have r1: "engine_runs ?ih fs fs1" using eng j by (metis fst_conv)
  have r2: "engine_runs ?ih fs1 (ceSettle ce fs1)" using eng by blast
  note k1 = engine_runs_keeps [OF r1 assms(3)]
  note k2 = engine_runs_keeps [OF r2 k1 [THEN conjunct1]]
  have "driver_good reg t (ceSettle ce fs1)"
    using driver_good_open [OF _ d] k1 k2 driver_good_runs by blast
  then have w2: "engine_runs ?ih (ceSettle ce fs1) fs2 \<and> driver_good reg t2 fs2"
    using wait_wanted_runs [OF _ w] eng k2 by blast
  note k3 = engine_runs_keeps [OF w2 [THEN conjunct1] k2 [THEN conjunct1]]
  have r4: "engine_runs ?ih fs2 fs'" using eng e by blast
  note k4 = engine_runs_keeps [OF r4 k3 [THEN conjunct1]]
  have "driver_good reg (driver_now ?ih t2 fs') fs'"
    using driver_good_now driver_good_runs w2 k4 by blast
  then show ?thesis using r1 r2 w2 r4 e pull.R_trans by blast
qed

subsection \<open>The digests of a pull\<close>

lemma OpenBlob_hash: "OpenBlob bad s d = Opened f \<Longrightarrow> store_ok s \<Longrightarrow> sha256_hex (fContent f) = d"
  by (auto simp: OpenBlob_def BlobPath_Inr store_ok_def split: sum.splits if_splits option.splits)

lemma map_of_anchorFiles: "map_of (anchorFiles a) p = map_option foreign_file (map_of (ByPath a) p)"
proof -
  have "map_of (fold (\<lambda>f m. AList.update (afPath f) (foreign_file f) m) fs m) p
    = map_option foreign_file (map_of (fold (\<lambda>f m. AList.update (afPath f) f m) fs m') p)"
    if "\<And>p. map_of m p = map_option foreign_file (map_of m' p)" for fs m m'
    using that by (induction fs arbitrary: m m') (auto simp: update_conv')
  then show ?thesis by (simp add: anchorFiles_def ByPath_def)
qed

text \<open>
  A sealed file of a pull is what its anchor says; an empty file anchored by a git id has the id and
  the digest the code takes for those of no bytes.
\<close>

definition pull_file_ok :: "Anchor \<Rightarrow> store \<Rightarrow> string \<times> string \<Rightarrow> bool" where
  "pull_file_ok a s = (\<lambda>(p, d).
     present s d
     \<and> (\<not> anRescued a \<longrightarrow> map_of (ByPath a) p \<noteq> None)
     \<and> (case map_of (ByPath a) p of
          None \<Rightarrow> True
        | Some f \<Rightarrow>
            (afSHA256 f \<noteq> [] \<longrightarrow> d = afSHA256 f)
            \<and> (afSHA256 f = [] \<and> afGitSHA1 f \<noteq> [] \<longrightarrow>
                 (\<exists>content. sha256_hex content = d \<and> git_blob_id content = afGitSHA1 f)
                 \<or> d = emptyContentSHA256 \<and> afGitSHA1 f = emptyGitBlobSHA1)))"

lemma sealed_file_ok:
  assumes "driver_good \<lparr>rgFiles = anchorFiles a, rgStrict = \<not> anRescued a\<rparr> t fs" and "(p, d) \<in> set (SealedFiles t)"
  shows "pull_file_ok a (fsStore fs) (p, d)"
proof -
  let ?reg = "\<lparr>rgFiles = anchorFiles a, rgStrict = \<not> anRescued a\<rparr>"
  obtain st where st: "(p, st) \<in> set (ftStates t)" "frSealed st" "d = frDigest st"
    using assms(2) by (auto simp: SealedFiles_def)
  have ok: "foreign_ok (fsStore fs) st" and fol: "follows ?reg p (frAnchor st)"
    using assms(1) st(1) by (auto simp: driver_good_def torrent_ok_def anchors_def)
  have "map_of (ByPath a) p \<noteq> None" if "\<not> anRescued a"
    using fol that by (auto simp: follows_def map_of_anchorFiles)
  moreover have "(afSHA256 f \<noteq> [] \<longrightarrow> d = afSHA256 f)
      \<and> (afSHA256 f = [] \<and> afGitSHA1 f \<noteq> [] \<longrightarrow>
           (\<exists>content. sha256_hex content = d \<and> git_blob_id content = afGitSHA1 f)
           \<or> d = emptyContentSHA256 \<and> afGitSHA1 f = emptyGitBlobSHA1)"
    if f: "map_of (ByPath a) p = Some f" for f
  proof -
    have at: "anchor_at ?reg p = foreign_file f" by (simp add: anchor_at_def map_of_anchorFiles f)
    have ne: "emptyContentSHA256 \<noteq> []" by (simp add: emptyContentSHA256_def)
    from fol consider
        "ffSHA256 (frAnchor st) = afSHA256 f" "ffGitSHA1 (frAnchor st) = afGitSHA1 f"
      | "ffSHA256 (frAnchor st) = emptyContentSHA256" "afSHA256 f \<in> {[], emptyContentSHA256}" "afGitSHA1 f \<in> {[], emptyGitBlobSHA1}"
      by (auto simp: follows_def at foreign_file_def)
    then show ?thesis
    proof cases
      case 1
      then show ?thesis using ok st by (simp add: foreign_ok_def)
    next
      case 2
      then have "d = emptyContentSHA256" using ok st ne by (simp add: foreign_ok_def)
      then show ?thesis using 2 ne by auto
    qed
  qed
  ultimately show ?thesis using ok st by (auto simp: pull_file_ok_def foreign_ok_def split: option.split)
qed

lemma register_anchor_inv:
  assumes "register_anchor r a fs = (fs', Inr u)" and "foreign_inv fs" and "map_of (fsOpen fs) (rvInfohash r) = None"
  shows "pull_inv (rvInfohash r) \<lparr>rgFiles = anchorFiles a, rgStrict = \<not> anRescued a\<rparr> fs' \<and> fsStore fs' = fsStore fs"
  using assms
  by (auto simp: register_anchor_def RegisterForeign_def pull_inv_def foreign_inv_def update_conv'
      split: if_splits option.splits prod.splits)



subsection \<open>A concrete pull\<close>

text \<open>A one-file torrent whose file is in the store already, pinned by a live anchor.\<close>

definition pull_key :: string where "pull_key = replicate 40 (CHR ''0'')"

definition pull_vi :: v1_info where
  "pull_vi = \<lparr>viHasV2 = False, viPieceLength = 16384, viFiles = [\<lparr>ifPath = [''w.gguf''], ifLength = 1, ifOffset = 0\<rparr>],
     viNumPieces = 1, viTotal = 1\<rparr>"

definition pull_anchor :: Anchor where
  "pull_anchor = \<lparr>anRepo = [], anRevision = [], anSource = ''huggingface'', anRescued = False,
     anFiles = [\<lparr>afPath = ''w.gguf'', afSize = 1, afSHA256 = sha256_hex ''w'', afGitSHA1 = []\<rparr>]\<rparr>"

definition pull_listing :: Resolved where
  "pull_listing = \<lparr>rvRepo = [], rvRevision = [], rvInfohash = pull_key, rvMagnet = [], rvTrackers = [], rvWebseeds = [],
     rvSize = [], rvSeeds = 0\<rparr>"

definition pull_request :: CatalogPull where
  "pull_request = \<lparr>plResolved = Some pull_listing, plAnchor = Some pull_anchor, plQuant = [], plAs = ''ns/name''\<rparr>"

definition pull_ce :: catalog_env where
  "pull_ce = \<lparr>ceEngine = None, ceMagnet = (\<lambda>_. None), ceAdd = None,
     ceJoin = (\<lambda>fs. case OpenForeign (\<lambda>_. calm_env ''1'') (\<lambda>_. False) pull_vi (replicate 20 (CHR 0x00)) fs of
                 Returns (fs', Inr _) \<Rightarrow> (fs', Some pull_vi) | _ \<Rightarrow> (fs, None)),
     ceSettle = id, ceTurn = (\<lambda>_. id), ceRounds = 1, ceCheck = id, ceFails = (\<lambda>_. False), ceComplete = (\<lambda>_. True),
     ceDrop = id, ceBad = (\<lambda>_. False), ceImport = demo_ie\<rparr>"

definition pull_store :: store where
  "pull_store = set_file (blob_path (sha256_hex ''w'')) \<lparr>fContent = ''w'', fMode = blobMode, fTime = 0\<rparr> empty_store"

definition pull_client :: catalog_client where
  "pull_client = \<lparr>ccForeign = \<lparr>fsStore = pull_store, fsReg = [], fsOpen = []\<rparr>, ccSeeds = []\<rparr>"

lemma OpenForeign_reg: "OpenForeign env bad vi ih fs = Returns (fs', r) \<Longrightarrow> fsReg fs' = fsReg fs"
  by (auto simp: OpenForeign_def Let_def split: if_splits option.splits panic.splits sum.splits prod.splits)

lemma pull_ce_engine: "pull_engine pull_ce ih"
proof -
  let ?open = "OpenForeign (\<lambda>_. calm_env ''1'') (\<lambda>_. False) pull_vi (replicate 20 (CHR 0x00))"
  have "engine_runs ih fs (fst (ceJoin pull_ce fs))" for fs
  proof (cases "?open fs")
    case (Returns x)
    obtain fs' r where x: "x = (fs', r)" by (cases x)
    have "pull_step ih fs fs'"
      using Returns x OpenForeign_reg [of _ _ _ _ fs] by (auto simp: pull_step_def intro: foreign_step.open_torrent)
    then show ?thesis using Returns x
      by (cases r) (auto simp: pull_ce_def engine_runs_def)
  qed (auto simp: pull_ce_def pull.R_refl)
  then show ?thesis by (simp add: pull_engine_def pull.R_refl) (simp add: pull_ce_def pull.R_refl)
qed

lemma verify_foreign_all: "verify_foreign (\<lambda>_. False) (\<lambda>_. True) is = Inr ()"
  by (induction "is") auto

lemma pull_store_facts:
  "store_ok pull_store" "look pull_store (part_path (calm_env x)) = None" "sState pull_store = sState empty_store"
  "OpenBlob (\<lambda>_. False) pull_store (sha256_hex ''w'') = Opened \<lparr>fContent = ''w'', fMode = blobMode, fTime = 0\<rparr>"
  "Has (\<lambda>_. False) pull_store (sha256_hex ''w'')"
proof -
  have v: "is_digest_hex (sha256_hex ''w'')" by simp
  show "store_ok pull_store"
    using v blob_path_inj by (auto simp: store_ok_def pull_store_def)
  show "look pull_store (part_path (calm_env x)) = None"
    by (simp add: pull_store_def)
  show "sState pull_store = sState empty_store" by (simp add: pull_store_def)
  show "OpenBlob (\<lambda>_. False) pull_store (sha256_hex ''w'') = Opened \<lparr>fContent = ''w'', fMode = blobMode, fTime = 0\<rparr>"
    using v by (simp add: OpenBlob_def BlobPath_valid pull_store_def)
  show "Has (\<lambda>_. False) pull_store (sha256_hex ''w'')"
    using v by (simp add: Has_def BlobPath_valid pull_store_def present_def)
qed

definition pull_state :: foreignState where
  "pull_state = \<lparr>frName = ''w.gguf'', frAnchor = foreign_file (hd (anFiles pull_anchor)), frPart = None, frSealed = True,
     frDigest = sha256_hex ''w'', frFailed = None, frPieces = [False], frNumDone = 0\<rparr>"

definition pull_driver :: foreignTorrent where
  "pull_driver = \<lparr>ftKey = pull_key, ftPieceLength = 16384, ftStrict = True,
     ftFiles = [\<lparr>rnPath = ''w.gguf'', rnBegin = 0, rnEnd = 1\<rparr>], ftStates = [(''w.gguf'', pull_state)], ftClosed = False\<rparr>"

text \<open>From a join that leaves that driver open on, the pull goes through, whatever the anchor.\<close>

lemma pull_after_join:
  assumes "register_anchor pull_listing a (ccForeign c) = (fs1, Inr ())"
    and "J fs1 = (fs2, Some pull_vi)" and "map_of (fsOpen fs2) pull_key = Some pull_driver" and "fsStore fs2 = pull_store"
  shows "\<exists>c' res. ImportCatalog (pull_ce\<lparr>ceJoin := J\<rparr>) (pull_request\<lparr>plAnchor := Some a\<rparr>) c = (c', Inr res)
    \<and> map_of (ccSeeds c') pull_key = Some [(''w.gguf'', sha256_hex ''w'')]"
proof -
  let ?d = "sha256_hex ''w''" and ?ce = "pull_ce\<lparr>ceJoin := J\<rparr>" and ?pl = "pull_request\<lparr>plAnchor := Some a\<rparr>"
  have now: "driver_now pull_key t0 fs2 = pull_driver" for t0
    using assms(3) by (simp add: driver_now_def driverForForeign_def)
  have "wantedFiles pull_vi [] = Inr [''w.gguf'']"
    by (simp add: wantedFiles_def pull_vi_def want_file_def slashJoin_def Let_def)
  moreover have "WaitSealedWanted pull_driver [''w.gguf''] = Some (Inr ())"
    by (simp add: WaitSealedWanted_def pull_driver_def pull_state_def)
  moreover have "SealedFiles pull_driver = [(''w.gguf'', ?d)]" by (simp add: SealedFiles_def pull_driver_def pull_state_def)
  moreover have "driverForForeign fs2 pull_key = Some pull_driver" using assms(3) by (simp add: driverForForeign_def)
  moreover have "VerifySealed (ceFails pull_ce) (ceComplete pull_ce) pull_driver pull_vi = Inr ()"
    by (simp add: VerifySealed_def verify_foreign_all pull_ce_def)
  ultimately have dl: "download ?ce ?pl pull_listing fs1 = (fs2, Inr [(''w.gguf'', ?d)])"
    using assms(2) by (simp add: download_def seq_Inr metadata_def open_driver_def now pull_request_def pull_listing_def)
      (simp add: pull_ce_def pull_vi_def now)
  have src: "pull_sources (ceBad ?ce) (fsStore fs2) [(''w.gguf'', ?d)] = demo_weights"
    using pull_store_facts(4) assms(4)
    by (simp add: pull_sources_def sort_by_def blob_source_def pull_ce_def demo_weights_def)
  have opts: "pull_options ?pl pull_listing = demo_opts"
    by (simp add: pull_options_def pull_request_def pull_listing_def demo_opts_def)
  obtain s' imp where im: "Import demo_ie demo_opts demo_weights pull_store = (s', Inr imp)"
    using demo_import pull_store_facts(2,3) by blast
  have "import_sealed ?ce ?pl pull_listing [(''w.gguf'', ?d)] fs2 = (fs2\<lparr>fsStore := s'\<rparr>, Inr imp)"
    unfolding import_sealed_def Let_def src opts using im assms(4) by (simp add: pull_ce_def)
  then have "pull_fetch ?ce ?pl pull_listing a (ccForeign c) = (fs2\<lparr>fsStore := s'\<rparr>, Inr ([(''w.gguf'', ?d)], imp))"
    using assms(1) dl by (simp add: pull_fetch_def seq_Inr) (simp add: pull_ce_def)
  then show ?thesis
    by (simp add: ImportCatalog_def pull_request_def) (simp add: pull_ce_def pull_listing_def update_conv')
qed

lemma sha_w: "sha256_hex ''w'' \<noteq> []" "length (sha256_hex ''w'') = 64"
  using is_digest_sha256_hex [of "''w''"] by (metis is_digest_hex_def list.size(3) zero_neq_numeral)
    (metis is_digest_sha256_hex is_digest_hex_def)


text \<open>
  The hypothesis that the torrent is not open yet is needed: a second pull of a torrent that is still
  seeding finds the driver of the first one, which holds the anchor of the first one. Here the second
  anchor pins other bytes, and the pull succeeds all the same.
\<close>

lemma ImportCatalog_stale_anchor:
  assumes "d \<noteq> sha256_hex ''w''" and "length d = 64"
  shows "\<exists>a c c' res. map_of (ByPath a) ''w.gguf'' = Some \<lparr>afPath = ''w.gguf'', afSize = 1, afSHA256 = d, afGitSHA1 = []\<rparr>
    \<and> \<not> anRescued a
    \<and> ImportCatalog (pull_ce\<lparr>ceJoin := (\<lambda>fs. (fs, Some pull_vi))\<rparr>) (pull_request\<lparr>plAnchor := Some a\<rparr>) c = (c', Inr res)
    \<and> map_of (ccSeeds c') pull_key = Some [(''w.gguf'', sha256_hex ''w'')]"
proof -
  define f where "f = \<lparr>afPath = ''w.gguf'', afSize = 1, afSHA256 = d, afGitSHA1 = []\<rparr>"
  define a where "a = pull_anchor\<lparr>anFiles := [f]\<rparr>"
  define c where "c = \<lparr>ccForeign = \<lparr>fsStore = pull_store, fsReg = [], fsOpen = [(pull_key, pull_driver)]\<rparr>, ccSeeds = []\<rparr>"
  have "register_anchor pull_listing a (ccForeign c)
      = (ccForeign c\<lparr>fsReg := [(pull_key, \<lparr>rgFiles = [(''w.gguf'', foreign_file f)], rgStrict = True\<rparr>)]\<rparr>, Inr ())"
    using assms(2) by (simp add: register_anchor_def wrap_def RegisterForeign_def pull_listing_def pull_anchor_def anchorFiles_def
        foreign_file_def c_def a_def f_def pull_key_def)
  from pull_after_join [OF this, where J = "\<lambda>fs. (fs, Some pull_vi)"]
  have "\<exists>c' res. ImportCatalog (pull_ce\<lparr>ceJoin := (\<lambda>fs. (fs, Some pull_vi))\<rparr>) (pull_request\<lparr>plAnchor := Some a\<rparr>) c = (c', Inr res)
    \<and> map_of (ccSeeds c') pull_key = Some [(''w.gguf'', sha256_hex ''w'')]"
    by (simp add: c_def)
  moreover have "map_of (ByPath a) ''w.gguf'' = Some f" "\<not> anRescued a"
    by (simp_all add: ByPath_def a_def f_def pull_anchor_def)
  ultimately show ?thesis unfolding f_def by blast
qed

end
