(* ===== verification/Api.thy ===== *)
theory Api
  imports CatalogPull SwarmFlows
begin

text \<open>
  \<open>internal/api/server.go\<close>, the read side: parsing of the reference parameter, resolution against
  the local state, the file list of an artifact, blobs, the inventory, and the maps from errors to
  wire classes. A handler's answer is a value or an \<open>httpError\<close>. Blob paths are relative to the root
  of the store, query strings and request bodies are given decoded.
\<close>

subsection \<open>Wire errors\<close>

text \<open>An error of a flow behind the API; of an unreadable source the pipeline does not keep the cause.\<close>

datatype run_error =
    OfImport import_error | OfLocal local_error | OfHub hf_error | OfCatalog catalog_error | OfPull pull_error

text \<open>What a message says. \<open>Says\<close> is text of the program, the others carry the error they quote.\<close>

datatype message =
    Says string | NoTag string string | NoIndexFor string | IndexGone string
  | StateMsg cas_error | BlobMsg cas_error | BlobGone string | IndexNotJSON string string | IndexRule string validation_error
  | ManifestNotJSON string string | ManifestRule string validation_error | ManifestNotLocal string
  | SwarmOff nat nat | SwarmMsg client_error | RunMsg run_error | BadPin client_error
  | VerifyAllMsg verify_result | VerifyMsg "(string \<times> cas_error) list"

record APIError =
  aeCode :: string
  aeMessage :: message
  aeCandidates :: "string list"

abbreviation aerr :: "string \<Rightarrow> message \<Rightarrow> APIError" where
  "aerr c m \<equiv> \<lparr>aeCode = c, aeMessage = m, aeCandidates = []\<rparr>"

text \<open>A status and a wire error, or a panic of the handler, which ends the connection.\<close>

datatype httpError = Refused nat APIError | HandlerPanic

definition ErrBadRequest :: string where "ErrBadRequest = ''E_BAD_REQUEST''"
definition ErrUnknownRef :: string where "ErrUnknownRef = ''E_UNKNOWN_REF''"
definition ErrNoIndex :: string where "ErrNoIndex = ''E_NO_INDEX''"
definition ErrSourceUnavail :: string where "ErrSourceUnavail = ''E_SOURCE_UNAVAILABLE''"
definition ErrNotImplemented :: string where "ErrNotImplemented = ''E_NOT_IMPLEMENTED''"
definition ErrNotFound :: string where "ErrNotFound = ''E_NOT_FOUND''"
definition ErrUnsupportedVersion :: string where "ErrUnsupportedVersion = ''E_UNSUPPORTED_VERSION''"
definition ErrInvalidIndex :: string where "ErrInvalidIndex = ''E_INVALID_INDEX''"
definition ErrRangeInvalid :: string where "ErrRangeInvalid = ''E_RANGE_INVALID''"
definition ErrInternal :: string where "ErrInternal = ''E_INTERNAL''"
definition ErrCorruption :: string where "ErrCorruption = ''E_CORRUPTION''"
definition APIVersion :: string where "APIVersion = ''v1''"

lemmas api_code_defs = ErrBadRequest_def ErrUnknownRef_def ErrNoIndex_def ErrSourceUnavail_def ErrNotImplemented_def
  ErrNotFound_def ErrUnsupportedVersion_def ErrInvalidIndex_def ErrRangeInvalid_def ErrInternal_def ErrCorruption_def

subsection \<open>Version negotiation\<close>

text \<open>\<open>versionedPath\<close>: a slash, \<open>v\<close>, digits and a slash at the front of the path.\<close>

definition versionedPath :: "string \<Rightarrow> string option" where
  "versionedPath p =
     (if \<not> HasPrefix p ''/v'' then None
      else
        let digits = takeWhile is_digit (drop 2 p) in
        if digits = [] \<or> \<not> HasPrefix (dropWhile is_digit (drop 2 p)) ''/'' then None
        else Some (''/v'' @ digits @ ''/''))"

definition handleUnknown :: "string \<Rightarrow> httpError" where
  "handleUnknown path =
     (case versionedPath path of
        Some v \<Rightarrow>
          if v \<noteq> ''/'' @ APIVersion @ ''/''
          then Refused 400 \<lparr>aeCode = ErrUnsupportedVersion,
                 aeMessage = Says (''unsupported API major version '' @ v @ '' ('' @ path @ ''); this shardhive supports '' @ APIVersion),
                 aeCandidates = [APIVersion]\<rparr>
          else Refused 404 (aerr ErrNotFound (Says (''no such endpoint: '' @ path)))
      | None \<Rightarrow> Refused 404 (aerr ErrNotFound (Says (''no such endpoint: '' @ path))))"

subsection \<open>The reference parameter\<close>

definition shortRefHint :: "string \<Rightarrow> ref_error \<Rightarrow> string" where
  "shortRefHint raw e =
     (if \<not> HasPrefix raw SchemePrefix then
        (case ParseShort raw of
           Inr sp \<Rightarrow> ''references at the API must be canonical URIs; use '' @ rCanonical sp
         | Inl _ \<Rightarrow> Message e)
      else Message e)"

definition ref_refused :: "string \<Rightarrow> ref_error \<Rightarrow> httpError" where
  "ref_refused raw e =
     Refused 400 \<lparr>aeCode = Class e, aeMessage = Says (shortRefHint raw e), aeCandidates = Candidates e\<rparr>"

definition parseRefParam :: "string \<Rightarrow> httpError + Ref" where
  "parseRefParam raw =
     (if raw = [] then Inl (Refused 400 (aerr ErrBadRequest (Says ''missing required query parameter: ref'')))
      else map_sum (ref_refused raw) id (Parse raw))"

subsection \<open>Resolution\<close>

record fileRecord =
  fxDigest :: string
  fxPath :: string
  fxSize :: int
  fxName :: string
  fxKind :: string
  fxRole :: string
  fxVariant :: string
  fxPart :: "int option"
  fxRuntime :: string

record resolveResult =
  rrRef :: string
  rrNS :: string
  rrName :: string
  rrQuant :: string
  rrTag :: string
  rrManifestDigest :: string
  rrIndexDigest :: string
  rrFiles :: "fileRecord list"
  rrMissing :: "string list"

text \<open>The parts of the program the handlers read: the JSON library and the paths the system fails on.\<close>

record api_env =
  apCodec :: codec
  apBad :: "string \<Rightarrow> bool"

definition readIndexMembers :: "api_env \<Rightarrow> store \<Rightarrow> string \<Rightarrow> httpError + Member list" where
  "readIndexMembers env s indexDigest =
     (let hexDigest = TrimPrefix indexDigest DigestSchemePrefix in
      if \<not> Has (apBad env) s hexDigest then Inl (Refused 404 (aerr ErrNoIndex (IndexGone indexDigest)))
      else case OpenBlob (apBad env) s hexDigest of
          OpenErr e \<Rightarrow> Inl (Refused 500 (aerr ErrInternal (BlobMsg e)))
        | NotExist \<Rightarrow> Inl (Refused 500 (aerr ErrInternal (BlobGone hexDigest)))
        | Opened f \<Rightarrow>
          (case decIndex (apCodec env) (fContent f) of
             Inl e \<Rightarrow> Inl (Refused 500 (aerr ErrInvalidIndex (IndexNotJSON indexDigest e)))
           | Inr idx \<Rightarrow>
             (case ValidateIndex idx of
                Some e \<Rightarrow> Inl (Refused 500 (aerr ErrInvalidIndex (IndexRule indexDigest e)))
              | None \<Rightarrow> Inr (map (\<lambda>m. \<lparr>mQuant = imQuant m, mManifest = imManifest m\<rparr>) (iMembers idx)))))"

text \<open>The index a tag leads to; the other tags of the repository, sorted, if there is none.\<close>

definition tag_index :: "store \<Rightarrow> Ref \<Rightarrow> httpError + string" where
  "tag_index s p =
     (case TagAliases s of
        Inl e \<Rightarrow> Inl (Refused 500 (aerr ErrInternal (StateMsg e)))
      | Inr tags \<Rightarrow>
        let prefix = rNS p @ ''/'' @ rName p @ '':'' in
        case map_of tags (prefix @ rTag p) of
          Some d \<Rightarrow> Inr d
        | None \<Rightarrow>
            Inl (Refused 404 \<lparr>aeCode = ErrUnknownRef, aeMessage = NoTag (rTag p) (rNS p @ ''/'' @ rName p),
              aeCandidates = sort_strings (map (\<lambda>k. TrimPrefix k prefix) (filter (\<lambda>k. HasPrefix k prefix) (map fst tags)))\<rparr>))"

text \<open>The index of a repository; the repositories of the same owner, in map order, if there is none.\<close>

definition namespace_index :: "store \<Rightarrow> Ref \<Rightarrow> httpError + string" where
  "namespace_index s p =
     (case Namespaces s of
        Inl e \<Rightarrow> Inl (Refused 500 (aerr ErrInternal (StateMsg e)))
      | Inr ns \<Rightarrow>
        let nsKey = rNS p @ ''/'' @ rName p in
        case map_of ns nsKey of
          Some d \<Rightarrow> Inr d
        | None \<Rightarrow>
            Inl (Refused 404 \<lparr>aeCode = ErrUnknownRef, aeMessage = NoIndexFor nsKey,
              aeCandidates = filter (\<lambda>k. HasPrefix k (rNS p @ ''/'')) (map fst ns)\<rparr>))"

definition result_base :: "Ref \<Rightarrow> resolveResult" where
  "result_base p =
     \<lparr>rrRef = rCanonical p, rrNS = rNS p, rrName = rName p, rrQuant = rQuant p, rrTag = rTag p,
      rrManifestDigest = [], rrIndexDigest = [], rrFiles = [], rrMissing = []\<rparr>"

definition select_member :: "Ref \<Rightarrow> Member list \<Rightarrow> httpError + string" where
  "select_member p members =
     (case Resolve p members of
        Panics \<Rightarrow> Inl HandlerPanic
      | Returns (Inl e) \<Rightarrow> Inl (Refused 400 \<lparr>aeCode = Class e, aeMessage = Says (Message e), aeCandidates = Candidates e\<rparr>)
      | Returns (Inr None) \<Rightarrow> Inr []
      | Returns (Inr (Some m)) \<Rightarrow> Inr (mManifest m))"

definition resolveLocal :: "api_env \<Rightarrow> store \<Rightarrow> Ref \<Rightarrow> httpError + resolveResult" where
  "resolveLocal env s p =
     (if rQuant p = [] then Inr ((result_base p)\<lparr>rrManifestDigest := rDigest p\<rparr>)
      else
        bind_res (if rTag p \<noteq> [] then tag_index s p else namespace_index s p) (\<lambda>indexDigest.
        bind_res (readIndexMembers env s indexDigest) (\<lambda>members.
        bind_res (select_member p members) (\<lambda>manifest.
        Inr ((result_base p)\<lparr>rrIndexDigest := indexDigest, rrManifestDigest := manifest\<rparr>)))))"

definition handleResolve :: "api_env \<Rightarrow> store \<Rightarrow> string \<Rightarrow> httpError + resolveResult" where
  "handleResolve env s raw = bind_res (parseRefParam raw) (resolveLocal env s)"

subsection \<open>Opening an artifact\<close>

definition loadManifest :: "api_env \<Rightarrow> store \<Rightarrow> string \<Rightarrow> httpError + (Manifest \<times> string)" where
  "loadManifest env s hexDigest =
     (case OpenBlob (apBad env) s hexDigest of
        OpenErr e \<Rightarrow> Inl (Refused 500 (aerr ErrInternal (BlobMsg e)))
      | NotExist \<Rightarrow> Inl (Refused 500 (aerr ErrInternal (BlobGone hexDigest)))
      | Opened f \<Rightarrow>
        (case decManifest (apCodec env) (fContent f) of
           Inl e \<Rightarrow> Inl (Refused 500 (aerr ErrCorruption (ManifestNotJSON hexDigest e)))
         | Inr m \<Rightarrow>
           (case ValidateManifest m of
              Some e \<Rightarrow> Inl (Refused 500 (aerr ErrCorruption (ManifestRule hexDigest e)))
            | None \<Rightarrow> Inr (m, fContent f))))"

text \<open>\<open>os.Stat\<close>: the size of a file.\<close>

definition stat_size :: "api_env \<Rightarrow> store \<Rightarrow> string \<Rightarrow> int option" where
  "stat_size env s p =
     (if apBad env p then None else map_option (\<lambda>f. int (length (fContent f))) (look s p))"

definition add_file :: "fileRecord \<Rightarrow> resolveResult \<Rightarrow> resolveResult" where
  "add_file x res = res\<lparr>rrFiles := rrFiles res @ [x]\<rparr>"

definition add_missing :: "string \<Rightarrow> resolveResult \<Rightarrow> resolveResult" where
  "add_missing d res = res\<lparr>rrMissing := rrMissing res @ [d]\<rparr>"

definition plain_record :: "string \<Rightarrow> string \<Rightarrow> int \<Rightarrow> fileRecord" where
  "plain_record d path n =
     \<lparr>fxDigest = d, fxPath = path, fxSize = n, fxName = [], fxKind = [], fxRole = [], fxVariant = [],
      fxPart = None, fxRuntime = []\<rparr>"

text \<open>The index and the manifest: an empty or malformed digest is passed over.\<close>

definition open_head :: "api_env \<Rightarrow> store \<Rightarrow> string \<Rightarrow> resolveResult \<Rightarrow> resolveResult" where
  "open_head env s d res =
     (if d = [] then res
      else case BlobPath (TrimPrefix d DigestSchemePrefix) of
             Inl _ \<Rightarrow> res
           | Inr path \<Rightarrow>
             (case stat_size env s path of
                Some n \<Rightarrow> add_file (plain_record d path n) res
              | None \<Rightarrow> add_missing d res))"

text \<open>A file of the manifest; its size is 0 should the second \<open>Stat\<close> fail.\<close>

definition open_file :: "api_env \<Rightarrow> store \<Rightarrow> File \<Rightarrow> resolveResult \<Rightarrow> resolveResult" where
  "open_file env s f res =
     (let fhex = TrimPrefix (fDigest f) DigestSchemePrefix in
      case BlobPath fhex of
        Inl _ \<Rightarrow> add_missing (fDigest f) res
      | Inr path \<Rightarrow>
        if \<not> Has (apBad env) s fhex then add_missing (fDigest f) res
        else add_file
          \<lparr>fxDigest = fDigest f, fxPath = path,
           fxSize = (case stat_size env s path of Some n \<Rightarrow> n | None \<Rightarrow> 0),
           fxName = fName f, fxKind = fKind f, fxRole = fRole f, fxVariant = fVariant f,
           fxPart = fPart f, fxRuntime = fRuntime f\<rparr> res)"

definition open_files_of :: "api_env \<Rightarrow> store \<Rightarrow> resolveResult \<Rightarrow> httpError + resolveResult" where
  "open_files_of env s res =
     (let hex = TrimPrefix (rrManifestDigest res) DigestSchemePrefix in
      if rrManifestDigest res = [] \<or> \<not> Has (apBad env) s hex then Inr res
      else bind_res (loadManifest env s hex) (\<lambda>(m, _). Inr (fold (open_file env s) (mFiles m) res)))"

definition handleOpen :: "api_env \<Rightarrow> store \<Rightarrow> string \<Rightarrow> httpError + resolveResult" where
  "handleOpen env s raw =
     bind_res (parseRefParam raw) (\<lambda>p.
     bind_res (resolveLocal env s p) (\<lambda>res.
     open_files_of env s
       (open_head env s (rrManifestDigest res) (open_head env s (rrIndexDigest res) res))))"

subsection \<open>Blobs\<close>

definition handleBlob :: "api_env \<Rightarrow> store \<Rightarrow> string \<Rightarrow> httpError + string" where
  "handleBlob env s digest =
     (case BlobPath (TrimPrefix digest DigestSchemePrefix) of
        Inl _ \<Rightarrow> Inl (Refused 400 (aerr ErrBadRequest (Says (''invalid digest '' @ digest))))
      | Inr path \<Rightarrow>
        (case (apBad env path, look s path) of
           (False, Some f) \<Rightarrow> Inr (fContent f)
         | _ \<Rightarrow> Inl (Refused 404 (aerr ErrNotFound (Says (''no such blob: '' @ digest))))))"

text \<open>
  The writer behind \<open>http.ServeContent\<close>: the status of an error is remembered, the first write
  after it becomes an error envelope, every other write passes.
\<close>

record envelopeWriter =
  ewErrStatus :: nat
  ewWrote :: bool

datatype ew_output = Envelope APIError | Bytes string

definition WriteHeader :: "nat \<Rightarrow> envelopeWriter \<Rightarrow> envelopeWriter" where
  "WriteHeader code e = (if code \<ge> 400 then e\<lparr>ewErrStatus := code\<rparr> else e)"

definition ew_Write :: "string \<Rightarrow> envelopeWriter \<Rightarrow> envelopeWriter \<times> ew_output" where
  "ew_Write p e =
     (if ewErrStatus e \<noteq> 0 \<and> \<not> ewWrote e
      then (e\<lparr>ewWrote := True\<rparr>,
            Envelope (aerr (if ewErrStatus e = 416 then ErrRangeInvalid else ErrInternal) (Says (TrimSpace p))))
      else (e, Bytes p))"

subsection \<open>The inventory\<close>

record nsEntry =
  neNS :: string
  neName :: string
  neIndexDigest :: string
  neIndexPresent :: bool
  neQuants :: "string list"

record tagEntry =
  teRepo :: string
  teTag :: string
  teDigest :: string
  teBlobPresent :: bool

text \<open>\<open>strings.Cut\<close> with the remainder empty when the separator is absent.\<close>

definition cut_or :: "char \<Rightarrow> string \<Rightarrow> string \<times> string" where
  "cut_or c s = (case cut_at c s of Some ab \<Rightarrow> ab | None \<Rightarrow> (s, []))"

definition ns_entry :: "api_env \<Rightarrow> store \<Rightarrow> string \<times> string \<Rightarrow> nsEntry" where
  "ns_entry env s = (\<lambda>(k, d).
     let present = Has (apBad env) s (TrimPrefix d DigestSchemePrefix) in
     \<lparr>neNS = fst (cut_or (CHR ''/'') k), neName = snd (cut_or (CHR ''/'') k), neIndexDigest = d, neIndexPresent = present,
      neQuants = (if \<not> present then []
        else case readIndexMembers env s d of Inl _ \<Rightarrow> [] | Inr ms \<Rightarrow> sort_strings (map mQuant ms))\<rparr>)"

definition tag_entry :: "api_env \<Rightarrow> store \<Rightarrow> string \<times> string \<Rightarrow> tagEntry" where
  "tag_entry env s = (\<lambda>(k, d).
     \<lparr>teRepo = fst (cut_or (CHR '':'') k), teTag = snd (cut_or (CHR '':'') k), teDigest = d,
      teBlobPresent = Has (apBad env) s (TrimPrefix d DigestSchemePrefix)\<rparr>)"

definition handleModels :: "api_env \<Rightarrow> store \<Rightarrow> httpError + (nsEntry list \<times> tagEntry list)" where
  "handleModels env s =
     (case Namespaces s of
        Inl e \<Rightarrow> Inl (Refused 500 (aerr ErrInternal (StateMsg e)))
      | Inr ns \<Rightarrow>
        (case TagAliases s of
           Inl e \<Rightarrow> Inl (Refused 500 (aerr ErrInternal (StateMsg e)))
         | Inr tags \<Rightarrow>
           Inr (sort_by (\<lambda>a b. neNS a @ ''/'' @ neName a < neNS b @ ''/'' @ neName b) (map (ns_entry env s) ns),
                sort_by (\<lambda>a b. teRepo a @ '':'' @ teTag a < teRepo b @ '':'' @ teTag b) (map (tag_entry env s) tags))))"

subsection \<open>What resolution selects\<close>

text \<open>The index the state names for a reference: under its tag, or else under its repository.\<close>

definition index_of :: "store \<Rightarrow> Ref \<Rightarrow> string option" where
  "index_of s p =
     (if rTag p \<noteq> [] then map_of (or_empty (TagAliases s)) (rNS p @ ''/'' @ rName p @ '':'' @ rTag p)
      else map_of (or_empty (Namespaces s)) (rNS p @ ''/'' @ rName p))"

lemma index_of_Some:
  "index_of s p = Some d \<longleftrightarrow> (if rTag p \<noteq> [] then tag_index s p else namespace_index s p) = Inr d"
  by (auto simp: index_of_def tag_index_def namespace_index_def or_empty_def Let_def split: sum.splits option.splits)

lemma Has_Opened: "OpenBlob bad s d = Opened f \<Longrightarrow> Has bad s d"
  by (auto simp: OpenBlob_def Has_def split: sum.splits if_splits option.splits)

lemma readIndexMembers_Inr:
  "readIndexMembers env s d = Inr ms \<longleftrightarrow>
     (\<exists>f idx. OpenBlob (apBad env) s (TrimPrefix d DigestSchemePrefix) = Opened f
        \<and> decIndex (apCodec env) (fContent f) = Inr idx \<and> ValidateIndex idx = None
        \<and> ms = map (\<lambda>m. \<lparr>mQuant = imQuant m, mManifest = imManifest m\<rparr>) (iMembers idx))"
  using Has_Opened [of "apBad env" s "TrimPrefix d DigestSchemePrefix"]
  by (auto simp: readIndexMembers_def Let_def split: open_result.splits sum.splits option.splits)

lemma select_member_Inr:
  "rQuant p \<noteq> [] \<Longrightarrow> select_member p ms = Inr d \<longleftrightarrow> (\<exists>m. Resolve p ms = Returns (Inr (Some m)) \<and> mManifest m = d)"
  by (auto simp: select_member_def Resolve_def Let_def map_sum_def
      split: panic.splits sum.splits option.splits list.splits)

text \<open>The member of an index a selector means: its exact quant or, failing that, the only one it is a prefix of.\<close>

definition meant_by :: "IndexMember \<Rightarrow> string \<Rightarrow> IndexMember list \<Rightarrow> bool" where
  "meant_by m q ms \<longleftrightarrow> m \<in> set ms
     \<and> (imQuant m = q \<or> q \<notin> imQuant ` set ms \<and> {k \<in> set ms. HasPrefix (imQuant k) q} = {m})"

lemma Resolve_meant:
  assumes "distinct (map imQuant ms)" and "rQuant p \<noteq> []"
  shows "(\<exists>x. Resolve p (map (\<lambda>m. \<lparr>mQuant = imQuant m, mManifest = imManifest m\<rparr>) ms) = Returns (Inr (Some x)) \<and> mManifest x = d)
    \<longleftrightarrow> (\<exists>m. meant_by m (rQuant p) ms \<and> (rDigest p = [] \<or> rDigest p = imManifest m) \<and> imManifest m = d)"
proof -
  let ?g = "\<lambda>m. \<lparr>mQuant = imQuant m, mManifest = imManifest m\<rparr>"
  have q: "map mQuant (map ?g ms) = map imQuant ms" by simp
  have inj: "a = b" if "a \<in> set ms" "b \<in> set ms" "imQuant a = imQuant b" for a b
    using assms(1) that by (simp add: distinct_map inj_on_def)
  have im: "mQuant ` set (map ?g ms) = imQuant ` set ms" by force
  have one: "{k \<in> set (map ?g ms). HasPrefix (mQuant k) (rQuant p)} = {?g m}
    \<longleftrightarrow> {k \<in> set ms. HasPrefix (imQuant k) (rQuant p)} = {m}" if "m \<in> set ms" for m
  proof -
    have "{k \<in> set (map ?g ms). HasPrefix (mQuant k) (rQuant p)} = ?g ` {k \<in> set ms. HasPrefix (imQuant k) (rQuant p)}"
      by auto
    moreover have "inj_on ?g (set ms)" using inj by (simp add: inj_on_def)
    then have "?g ` {k \<in> set ms. HasPrefix (imQuant k) (rQuant p)} = ?g ` {m}
      \<longleftrightarrow> {k \<in> set ms. HasPrefix (imQuant k) (rQuant p)} = {m}"
      using that by (intro inj_on_image_eq_iff [where C = "set ms"]) simp_all
    ultimately show ?thesis by simp
  qed
  note sel = Resolve_selects [of "map ?g ms" p, unfolded q, OF assms, THEN conjunct2]
  have at: "Resolve p (map ?g ms) = Returns (Inr (Some (?g m)))
      \<longleftrightarrow> meant_by m (rQuant p) ms \<and> (rDigest p = [] \<or> rDigest p = imManifest m)" if "m \<in> set ms" for m
  proof -
    have "?g m \<in> set (map ?g ms)" using that by simp
    then show ?thesis unfolding sel one [OF that] im meant_by_def using that by simp blast
  qed
  have "\<exists>m \<in> set ms. x = ?g m" if "Resolve p (map ?g ms) = Returns (Inr (Some x))" for x
    using that [unfolded sel] by auto
  then show ?thesis using at unfolding meant_by_def by fastforce
qed

text \<open>
  C24: resolution against the local state. A reference with a selector resolves exactly when the
  state names an index for its tag or repository, the blob of that index is in the store and holds a
  valid index, and the selector means a member of it that agrees with the digest pin, if there is
  one; the answer is that member's manifest. Nothing else of the state has a say.
\<close>

theorem resolveLocal_selects:
  assumes "rQuant p \<noteq> []"
  shows "resolveLocal env s p = Inr res \<longleftrightarrow>
    (\<exists>d f idx m. index_of s p = Some d
       \<and> OpenBlob (apBad env) s (TrimPrefix d DigestSchemePrefix) = Opened f
       \<and> decIndex (apCodec env) (fContent f) = Inr idx \<and> ValidateIndex idx = None
       \<and> meant_by m (rQuant p) (iMembers idx) \<and> (rDigest p = [] \<or> rDigest p = imManifest m)
       \<and> res = (result_base p)\<lparr>rrIndexDigest := d, rrManifestDigest := imManifest m\<rparr>)"
proof -
  have dist: "distinct (map imQuant (iMembers idx))" if "ValidateIndex idx = None" for idx
    using that by (simp add: ValidateIndex_def ValidateIndexMembers_None split: if_splits)
  have sel: "select_member p (map (\<lambda>m. \<lparr>mQuant = imQuant m, mManifest = imManifest m\<rparr>) (iMembers idx)) = Inr md
      \<longleftrightarrow> (\<exists>m. meant_by m (rQuant p) (iMembers idx) \<and> (rDigest p = [] \<or> rDigest p = imManifest m) \<and> imManifest m = md)"
    if "ValidateIndex idx = None" for idx md
    using Resolve_meant [OF dist [OF that] assms] select_member_Inr [OF assms] by simp
  have "resolveLocal env s p = Inr res \<longleftrightarrow>
    (\<exists>d ms md. index_of s p = Some d \<and> readIndexMembers env s d = Inr ms \<and> select_member p ms = Inr md
       \<and> res = (result_base p)\<lparr>rrIndexDigest := d, rrManifestDigest := md\<rparr>)"
    using assms unfolding index_of_Some by (auto simp: resolveLocal_def bind_res_Inr)
  also have "\<dots> \<longleftrightarrow> (\<exists>d f idx. index_of s p = Some d
       \<and> OpenBlob (apBad env) s (TrimPrefix d DigestSchemePrefix) = Opened f
       \<and> decIndex (apCodec env) (fContent f) = Inr idx \<and> ValidateIndex idx = None
       \<and> (\<exists>md. select_member p (map (\<lambda>m. \<lparr>mQuant = imQuant m, mManifest = imManifest m\<rparr>) (iMembers idx)) = Inr md
           \<and> res = (result_base p)\<lparr>rrIndexDigest := d, rrManifestDigest := md\<rparr>))"
    unfolding readIndexMembers_Inr by (rule iffI; elim exE conjE; blast)
  also have "\<dots> \<longleftrightarrow> (\<exists>d f idx m. index_of s p = Some d
       \<and> OpenBlob (apBad env) s (TrimPrefix d DigestSchemePrefix) = Opened f
       \<and> decIndex (apCodec env) (fContent f) = Inr idx \<and> ValidateIndex idx = None
       \<and> meant_by m (rQuant p) (iMembers idx) \<and> (rDigest p = [] \<or> rDigest p = imManifest m)
       \<and> res = (result_base p)\<lparr>rrIndexDigest := d, rrManifestDigest := imManifest m\<rparr>)"
    (is "(\<exists>d f idx. ?A d f idx) \<longleftrightarrow> (\<exists>d f idx m. ?B d f idx m)")
  proof -
    have "?A d f idx \<longleftrightarrow> (\<exists>m. ?B d f idx m)" for d f idx
      by (cases "ValidateIndex idx = None") (simp_all only: sel simp_thms, blast+)
    then show ?thesis by (intro ex_cong1) blast
  qed
  finally show ?thesis .
qed

definition zero_hex :: string where "zero_hex = replicate 64 (CHR ''0'')"

definition demo_index :: Index where
  "demo_index = \<lparr>iSchemaVersion = 1, iArtifactType = ''model-index'',
     iMembers = [\<lparr>imManifest = ''sha256:'' @ zero_hex, imQuant = ''q8_0'', imWeightsFormat = ''gguf'', imRevision = []\<rparr>]\<rparr>"

definition demo_api :: api_env where
  "demo_api = \<lparr>apCodec = demo_codec\<lparr>decIndex := \<lambda>_. Inr demo_index, decManifest := \<lambda>_. Inr bt_manifest\<rparr>, apBad = \<lambda>_. False\<rparr>"

text \<open>A store with one blob, which the repository \<open>a/b\<close> names as its index.\<close>

definition demo_state :: store where
  "demo_state = \<lparr>sFiles = [(blob_path zero_hex, \<lparr>fContent = ''{}'', fMode = blobMode, fTime = 0\<rparr>)],
     sState = (sState empty_store)(namespacesFile := Holds [(''a/b'', ''sha256:'' @ zero_hex)])\<rparr>"

definition demo_ref :: Ref where
  "demo_ref = \<lparr>rCanonical = ''shardr:///a/b:q8'', rNS = ''a'', rName = ''b'', rSel = ''q8'', rTag = [], rQuant = ''q8'', rDigest = []\<rparr>"

lemma zero_digest: "is_digest_hex zero_hex" "IsDigest (''sha256:'' @ zero_hex)"
  "TrimPrefix (''sha256:'' @ zero_hex) DigestSchemePrefix = zero_hex"
proof -
  show "TrimPrefix (''sha256:'' @ zero_hex) DigestSchemePrefix = zero_hex" by (simp add: DigestSchemePrefix_def TrimPrefix_def HasPrefix_def)
  show "is_digest_hex zero_hex" by code_simp
  show "IsDigest (''sha256:'' @ zero_hex)" by code_simp
qed

lemma demo_opened: "OpenBlob (apBad demo_api) demo_state zero_hex = Opened \<lparr>fContent = ''{}'', fMode = blobMode, fTime = 0\<rparr>"
  by (simp add: OpenBlob_def BlobPath_valid zero_digest demo_api_def demo_state_def look_def)

lemma resolveLocal_selects_witness:
  "rQuant demo_ref \<noteq> [] \<and> resolveLocal demo_api demo_state demo_ref
    = Inr ((result_base demo_ref)\<lparr>rrIndexDigest := ''sha256:'' @ zero_hex, rrManifestDigest := ''sha256:'' @ zero_hex\<rparr>)"
proof -
  let ?m = "\<lparr>imManifest = ''sha256:'' @ zero_hex, imQuant = ''q8_0'', imWeightsFormat = ''gguf'', imRevision = []\<rparr>"
  have ix: "index_of demo_state demo_ref = Some (''sha256:'' @ zero_hex)"
    by (simp add: index_of_def demo_ref_def demo_state_def Namespaces_def loadMap_def or_empty_def)
  have dec: "decIndex (apCodec demo_api) b = Inr demo_index" for b by (simp add: demo_api_def)
  have "QuantSyntax ''q8_0''" by code_simp
  then have v: "ValidateIndex demo_index = None"
    using zero_digest by (simp add: ValidateIndex_def demo_index_def ValidateIndexMembers_None)
  have "meant_by ?m ''q8'' (iMembers demo_index)" by (auto simp: meant_by_def demo_index_def HasPrefix_def)
  then have m: "meant_by ?m (rQuant demo_ref) (iMembers demo_index)" by (simp add: demo_ref_def)
  have q: "rQuant demo_ref \<noteq> []" "rDigest demo_ref = []" by (simp_all add: demo_ref_def)
  show ?thesis
    unfolding resolveLocal_selects [OF q(1)]
    using ix dec v m q demo_opened zero_digest(3)
    by (intro conjI q(1) exI [of _ "''sha256:'' @ zero_hex"] exI [of _ demo_index] exI [of _ ?m] exI) simp_all
qed

subsection \<open>References the state does not know\<close>

lemma sorted_sort_strings: "sorted (sort_strings xs)"
  using string_order.sort_in_order [of xs]
  by (simp add: sort_strings_def not_less)

lemma trimmed_keys:
  "set (map (\<lambda>k. TrimPrefix k p) (filter (\<lambda>k. HasPrefix k p) (map fst m))) = {t. p @ t \<in> fst ` set m}"
proof -
  have "(\<exists>k \<in> fst ` set m. HasPrefix k p \<and> t = TrimPrefix k p) \<longleftrightarrow> p @ t \<in> fst ` set m" for t
    by (metis HasPrefix_append TrimPrefix_append HasPrefix_iff)
  then show ?thesis by (auto simp: image_iff)
qed

lemma readIndexMembers_codes:
  "readIndexMembers env s d = Inl (Refused st e) \<Longrightarrow> aeCode e \<noteq> ErrUnknownRef"
  by (auto simp: readIndexMembers_def Let_def api_code_defs split: if_splits open_result.splits sum.splits option.splits)

lemma select_member_codes: "select_member p ms = Inl (Refused st e) \<Longrightarrow> aeCode e \<noteq> ErrUnknownRef"
  by (auto simp: select_member_def Resolve_def checkPin_def Let_def err_class_defs ErrUnknownRef_def
      split: if_splits panic.splits sum.splits option.splits list.splits)

text \<open>
  C25: a tag is known only in its own repository. A reference with a tag is refused as unknown exactly
  when the tag is not one of its repository, and the candidates are then the tags of that repository and of
  no other, in order; the tags of other repositories are neither resolved nor offered.
\<close>

theorem resolveLocal_unknown_tag:
  assumes "rQuant p \<noteq> []" and "rTag p \<noteq> []" and "TagAliases s = Inr tags"
  shows "if rNS p @ ''/'' @ rName p @ '':'' @ rTag p \<in> fst ` set tags
    then \<forall>st e. resolveLocal env s p = Inl (Refused st e) \<longrightarrow> aeCode e \<noteq> ErrUnknownRef
    else \<exists>e. resolveLocal env s p = Inl (Refused 404 e) \<and> aeCode e = ErrUnknownRef
      \<and> set (aeCandidates e) = {t. rNS p @ ''/'' @ rName p @ '':'' @ t \<in> fst ` set tags}
      \<and> sorted (aeCandidates e)"
proof (cases "map_of tags (rNS p @ ''/'' @ rName p @ '':'' @ rTag p)")
  case None
  let ?pre = "rNS p @ ''/'' @ rName p @ '':''"
  let ?c = "map (\<lambda>k. TrimPrefix k ?pre) (filter (\<lambda>k. HasPrefix k ?pre) (map fst tags))"
  let ?e = "\<lparr>aeCode = ErrUnknownRef, aeMessage = NoTag (rTag p) (rNS p @ ''/'' @ rName p), aeCandidates = sort_strings ?c\<rparr>"
  have "tag_index s p = Inl (Refused 404 ?e)" using None assms(3) by (simp add: tag_index_def Let_def)
  then have "resolveLocal env s p = Inl (Refused 404 ?e)" using assms by (simp add: resolveLocal_def)
  moreover have "set (aeCandidates ?e) = {t. rNS p @ ''/'' @ rName p @ '':'' @ t \<in> fst ` set tags}"
    using trimmed_keys [of ?pre tags] by simp
  moreover have "rNS p @ ''/'' @ rName p @ '':'' @ rTag p \<notin> fst ` set tags"
    using None by (simp add: map_of_eq_None_iff)
  ultimately show ?thesis using sorted_sort_strings [of ?c] by auto
next
  case (Some d)
  then have "rNS p @ ''/'' @ rName p @ '':'' @ rTag p \<in> fst ` set tags" by (force dest: map_of_SomeD)
  moreover have "tag_index s p = Inr d" using Some assms by (simp add: tag_index_def Let_def)
  then have "resolveLocal env s p = Inl (Refused st e) \<Longrightarrow> aeCode e \<noteq> ErrUnknownRef" for st e
    using assms readIndexMembers_codes [of env s d st e] select_member_codes [of p _ st e]
    by (auto simp: resolveLocal_def bind_res_Inl)
  ultimately show ?thesis by simp
qed

text \<open>A tag of \<open>a/b\<close> that only \<open>a/c\<close> has.\<close>

lemma resolveLocal_unknown_tag_witness:
  "\<exists>e. resolveLocal demo_api (demo_state\<lparr>sState := (sState empty_store)(tagsFile := Holds [(''a/c:v1'', ''x''), (''a/b:v2'', ''y'')])\<rparr>)
      (demo_ref\<lparr>rTag := ''v1''\<rparr>) = Inl (Refused 404 e) \<and> set (aeCandidates e) = {''v2''}"
proof -
  let ?s = "demo_state\<lparr>sState := (sState empty_store)(tagsFile := Holds [(''a/c:v1'', ''x''), (''a/b:v2'', ''y'')])\<rparr>"
  have p: "rQuant (demo_ref\<lparr>rTag := ''v1''\<rparr>) \<noteq> []" "rTag (demo_ref\<lparr>rTag := ''v1''\<rparr>) \<noteq> []"
    "rNS (demo_ref\<lparr>rTag := ''v1''\<rparr>) = ''a''" "rName (demo_ref\<lparr>rTag := ''v1''\<rparr>) = ''b''" by (simp_all add: demo_ref_def)
  have t: "TagAliases ?s = Inr [(''a/c:v1'', ''x''), (''a/b:v2'', ''y'')]" by (simp add: TagAliases_def loadMap_def)
  show ?thesis using resolveLocal_unknown_tag [OF p(1,2) t, of demo_api] unfolding p by auto
qed

subsection \<open>What opening lists\<close>

lemma loadManifest_Inr:
  "loadManifest env s h = Inr (m, b) \<longleftrightarrow>
     (\<exists>f. OpenBlob (apBad env) s h = Opened f \<and> b = fContent f \<and> decManifest (apCodec env) b = Inr m \<and> ValidateManifest m = None)"
  by (auto simp: loadManifest_def split: open_result.splits sum.splits option.splits)

text \<open>A file record tells the truth: the path of its digest's blob, a file there, and its size.\<close>

definition record_true :: "api_env \<Rightarrow> store \<Rightarrow> fileRecord \<Rightarrow> bool" where
  "record_true env s x \<longleftrightarrow>
     BlobPath (TrimPrefix (fxDigest x) DigestSchemePrefix) = Inr (fxPath x) \<and> \<not> apBad env (fxPath x)
     \<and> (\<exists>f. look s (fxPath x) = Some f \<and> fxSize x = int (length (fContent f)))"

definition opened_ok :: "api_env \<Rightarrow> store \<Rightarrow> resolveResult \<Rightarrow> bool" where
  "opened_ok env s res \<longleftrightarrow>
     (\<forall>x \<in> set (rrFiles res). record_true env s x)
     \<and> (\<forall>d \<in> set (rrMissing res). \<not> Has (apBad env) s (TrimPrefix d DigestSchemePrefix))"

lemma opened_ok_add:
  "opened_ok env s res \<Longrightarrow> record_true env s x \<Longrightarrow> opened_ok env s (add_file x res)"
  "opened_ok env s res \<Longrightarrow> \<not> Has (apBad env) s (TrimPrefix d DigestSchemePrefix) \<Longrightarrow> opened_ok env s (add_missing d res)"
  by (auto simp: opened_ok_def add_file_def add_missing_def)

lemma stat_size_Some:
  "stat_size env s p = Some n \<longleftrightarrow> \<not> apBad env p \<and> (\<exists>f. look s p = Some f \<and> n = int (length (fContent f)))"
  by (auto simp: stat_size_def)

lemma open_head_ok: "opened_ok env s res \<Longrightarrow> opened_ok env s (open_head env s d res)"
  by (auto simp: open_head_def stat_size_Some record_true_def plain_record_def Has_def stat_size_def
      intro!: opened_ok_add split: sum.splits option.splits)

lemma open_one_ok: "opened_ok env s res \<Longrightarrow> opened_ok env s (open_file env s f res)"
  by (auto simp: open_file_def Let_def record_true_def Has_def stat_size_def
      intro!: opened_ok_add split: sum.splits option.splits if_splits)

lemma fold_open_file:
  "opened_ok env s res \<Longrightarrow> opened_ok env s (fold (open_file env s) fs res)
    \<and> (let here = filter (\<lambda>f. Has (apBad env) s (DigestHex (fDigest f))) fs in
       map fxName (rrFiles (fold (open_file env s) fs res)) = map fxName (rrFiles res) @ map fName here
       \<and> map fxDigest (rrFiles (fold (open_file env s) fs res)) = map fxDigest (rrFiles res) @ map fDigest here)
    \<and> rrMissing (fold (open_file env s) fs res)
        = rrMissing res @ map fDigest (filter (\<lambda>f. \<not> Has (apBad env) s (DigestHex (fDigest f))) fs)"
proof (induction fs arbitrary: res)
  case (Cons f fs)
  have d: "TrimPrefix (fDigest f) DigestSchemePrefix = DigestHex (fDigest f)" by (simp add: DigestHex_def DigestSchemePrefix_def)
  have one: "if Has (apBad env) s (DigestHex (fDigest f))
    then rrMissing (open_file env s f res) = rrMissing res
      \<and> map fxName (rrFiles (open_file env s f res)) = map fxName (rrFiles res) @ [fName f]
      \<and> map fxDigest (rrFiles (open_file env s f res)) = map fxDigest (rrFiles res) @ [fDigest f]
    else rrFiles (open_file env s f res) = rrFiles res \<and> rrMissing (open_file env s f res) = rrMissing res @ [fDigest f]"
    by (auto simp: open_file_def d Let_def add_file_def add_missing_def Has_def split: sum.splits)
  show ?case using Cons.IH [OF open_one_ok [OF Cons.prems, of f]] one by (auto simp: Let_def)
qed simp

lemma resolveLocal_no_files: "resolveLocal env s p = Inr res \<Longrightarrow> rrFiles res = [] \<and> rrMissing res = []"
  by (auto simp: resolveLocal_def bind_res_Inr result_base_def split: if_splits)

definition lists_from :: "string set \<Rightarrow> resolveResult \<Rightarrow> bool" where
  "lists_from D r \<longleftrightarrow> fxDigest ` set (rrFiles r) \<union> set (rrMissing r) \<subseteq> D"

lemma open_head_from: "lists_from D r \<Longrightarrow> lists_from (insert d D) (open_head env s d r)"
  by (auto simp: lists_from_def open_head_def add_file_def add_missing_def plain_record_def split: sum.splits option.splits)

text \<open>
  C26: what opening an artifact answers is true and complete. Every file record names the path of the
  blob of its digest, at which a file of the stated size lies; nothing listed as missing is there. With the
  manifest in the store, it is valid and each of its files is accounted for, in order: with its name among
  the records if its blob is there, among the missing if it is not. Resolution alone lists nothing.
\<close>

theorem handleOpen_accounts:
  assumes "handleOpen env s raw = Inr res"
  shows "opened_ok env s res
    \<and> (rrManifestDigest res \<noteq> [] \<and> Has (apBad env) s (DigestHex (rrManifestDigest res)) \<longrightarrow>
        (\<exists>m b heads gone. loadManifest env s (DigestHex (rrManifestDigest res)) = Inr (m, b)
           \<and> map fxDigest (rrFiles res) = heads @ map fDigest (filter (\<lambda>f. Has (apBad env) s (DigestHex (fDigest f))) (mFiles m))
           \<and> map fxName (rrFiles res) = map (\<lambda>_. []) heads @ map fName (filter (\<lambda>f. Has (apBad env) s (DigestHex (fDigest f))) (mFiles m))
           \<and> rrMissing res = gone @ map fDigest (filter (\<lambda>f. \<not> Has (apBad env) s (DigestHex (fDigest f))) (mFiles m))
           \<and> set heads \<union> set gone \<subseteq> {rrIndexDigest res, rrManifestDigest res}))"
proof -
  obtain p r0 where p: "parseRefParam raw = Inr p" and r0: "resolveLocal env s p = Inr r0"
    and o: "open_files_of env s (open_head env s (rrManifestDigest r0) (open_head env s (rrIndexDigest r0) r0)) = Inr res"
    using assms by (auto simp: handleOpen_def bind_res_Inr)
  let ?r1 = "open_head env s (rrManifestDigest r0) (open_head env s (rrIndexDigest r0) r0)"
  have hd: "rrManifestDigest (open_head env s d r) = rrManifestDigest r" "rrIndexDigest (open_head env s d r) = rrIndexDigest r"
    "map fxName (rrFiles r) = map (\<lambda>_. []) (rrFiles r) \<Longrightarrow> map fxName (rrFiles (open_head env s d r)) = map (\<lambda>_. []) (rrFiles (open_head env s d r))" for d r
    by (auto simp: open_head_def add_file_def add_missing_def plain_record_def split: sum.splits option.splits)
  have none: "rrFiles r0 = []" "rrMissing r0 = []" using resolveLocal_no_files [OF r0] by auto
  then have ok1: "opened_ok env s ?r1" by (intro open_head_ok) (simp add: opened_ok_def)
  have heads: "fxDigest ` set (rrFiles ?r1) \<union> set (rrMissing ?r1) \<subseteq> {rrIndexDigest r0, rrManifestDigest r0}"
  proof -
    have "lists_from {} r0" using none by (simp add: lists_from_def)
    then have "lists_from {rrIndexDigest r0} (open_head env s (rrIndexDigest r0) r0)" by (rule open_head_from)
    then have "lists_from {rrManifestDigest r0, rrIndexDigest r0} ?r1" by (rule open_head_from)
    then show ?thesis by (simp only: lists_from_def insert_commute [of "rrIndexDigest r0"])
  qed
  have names: "map fxName (rrFiles ?r1) = map (\<lambda>_. []) (map fxDigest (rrFiles ?r1))"
    using hd(3) [OF hd(3), of r0] none by (simp add: o_def)
  have keep: "rrManifestDigest (fold (open_file env s) fs r) = rrManifestDigest r \<and> rrIndexDigest (fold (open_file env s) fs r) = rrIndexDigest r" for fs r
    by (induction fs arbitrary: r)
      (auto simp: open_file_def Let_def add_file_def add_missing_def split: sum.splits)
  have d: "TrimPrefix x DigestSchemePrefix = DigestHex x" for x by (simp add: DigestHex_def DigestSchemePrefix_def)
  show ?thesis
  proof (cases "rrManifestDigest r0 = [] \<or> \<not> Has (apBad env) s (DigestHex (rrManifestDigest r0))")
    case True
    then have "res = ?r1" using o by (simp add: open_files_of_def d hd)
    then show ?thesis using True ok1 by (auto simp: hd)
  next
    case False
    then obtain m b where m: "loadManifest env s (DigestHex (rrManifestDigest r0)) = Inr (m, b)"
      and res: "res = fold (open_file env s) (mFiles m) ?r1"
      using o by (auto simp: open_files_of_def d hd bind_res_Inr)
    have md: "rrManifestDigest res = rrManifestDigest r0" "rrIndexDigest res = rrIndexDigest r0" by (simp_all add: res keep hd)
    note f = fold_open_file [OF ok1, of "mFiles m", folded res, unfolded Let_def]
    show ?thesis
      unfolding md using f m names heads
      by (intro conjI impI exI [of _ m] exI [of _ b] exI [of _ "map fxDigest (rrFiles ?r1)"] exI [of _ "rrMissing ?r1"])
        simp_all
  qed
qed

definition demo_uri :: string where "demo_uri = ''shardr:///a/b:q8''"

lemma demo_uri_parse:
  "case Parse demo_uri of Inl _ \<Rightarrow> False
   | Inr p \<Rightarrow> rNS p = ''a'' \<and> rName p = ''b'' \<and> rTag p = [] \<and> rQuant p = ''q8'' \<and> rDigest p = []"
  by code_simp

lemma demo_index_valid: "ValidateIndex demo_index = None"
proof -
  have "QuantSyntax ''q8_0''" by code_simp
  then show ?thesis using zero_digest by (simp add: ValidateIndex_def demo_index_def ValidateIndexMembers_None)
qed

lemma demo_members:
  "readIndexMembers demo_api demo_state (''sha256:'' @ zero_hex) = Inr [\<lparr>mQuant = ''q8_0'', mManifest = ''sha256:'' @ zero_hex\<rparr>]"
proof -
  have "decIndex (apCodec demo_api) b = Inr demo_index" for b by (simp add: demo_api_def)
  then show ?thesis using demo_opened demo_index_valid zero_digest(3) by (simp add: readIndexMembers_Inr demo_index_def)
qed

text \<open>The index and the manifest are one blob here; the files of the manifest need not be in the store.\<close>

lemma handleOpen_accounts_witness:
  "\<exists>res. handleOpen demo_api demo_state demo_uri = Inr res \<and> opened_ok demo_api demo_state res"
proof -
  obtain p where p: "Parse demo_uri = Inr p" "rNS p = ''a''" "rName p = ''b''" "rTag p = []" "rQuant p = ''q8''" "rDigest p = []"
    using demo_uri_parse by (auto split: sum.splits)
  have raw: "parseRefParam demo_uri = Inr p" using p(1) by (simp add: parseRefParam_def demo_uri_def)
  have ix: "namespace_index demo_state p = Inr (''sha256:'' @ zero_hex)"
    by (simp add: namespace_index_def demo_state_def Namespaces_def loadMap_def p)
  have "select_member p [\<lparr>mQuant = ''q8_0'', mManifest = ''sha256:'' @ zero_hex\<rparr>] = Inr (''sha256:'' @ zero_hex)"
    by (simp add: select_member_def Resolve_def checkPin_def p HasPrefix_def)
  then obtain r0 where r0: "resolveLocal demo_api demo_state p = Inr r0" "rrManifestDigest r0 = ''sha256:'' @ zero_hex"
    using ix demo_members p by (simp add: resolveLocal_def)
  have "decManifest (apCodec demo_api) b = Inr bt_manifest" for b by (simp add: demo_api_def)
  then obtain b where "loadManifest demo_api demo_state zero_hex = Inr (bt_manifest, b)"
    using demo_opened demo_valid [of "[]"] by (auto simp: loadManifest_Inr bt_manifest_def)
  then have "\<exists>res. open_files_of demo_api demo_state r = Inr res" if "rrManifestDigest r = ''sha256:'' @ zero_hex" for r
    using that zero_digest(3) by (simp add: open_files_of_def)
  moreover have "rrManifestDigest (open_head demo_api demo_state d r) = rrManifestDigest r" for d r
    by (simp add: open_head_def add_file_def add_missing_def split: sum.splits option.splits)
  ultimately have "\<exists>res. handleOpen demo_api demo_state demo_uri = Inr res"
    using raw r0 by (simp add: handleOpen_def)
  then show ?thesis using handleOpen_accounts by blast
qed

end
