(* ===== verification/ApiJobs.thy ===== *)
theory ApiJobs
  imports Api
begin

text \<open>
  \<open>internal/api/server.go\<close>, the jobs: the requests that start a fill, an import or a verification, what
  the run of each does to the server, and the job it ends as. The schedule of the runs, their progress
  ticks and their mutex are in \<open>JobRuns\<close>. The random id and the clock are arguments.
\<close>

subsection \<open>Jobs and the server\<close>

text \<open>The \<open>State\<close> string of a job.\<close>

datatype job_state = Waiting | Fetching | Done | Failed

text \<open>What a verification found. An entry of the list of missing blobs is a digest, or a digest with the error of its verification.\<close>

datatype missing_entry = NotStored string | BadBlob string cas_error

record verify_payload =
  vpMismatched :: "string list"
  vpMissing :: "missing_entry list"
  vpStateErrors :: "state_error list"

definition AllResult :: "verify_result \<Rightarrow> verify_payload" where
  "AllResult res = \<lparr>vpMismatched = Mismatched res, vpMissing = map NotStored (Missing res), vpStateErrors = StateErrors res\<rparr>"

definition BadBlobs :: "(string \<times> cas_error) list \<Rightarrow> verify_payload" where
  "BadBlobs wrong = \<lparr>vpMismatched = [], vpMissing = map (\<lambda>(d, e). BadBlob d e) wrong, vpStateErrors = []\<rparr>"

record job_result =
  jrManifests :: "string list"
  jrIndexDigest :: string
  jrQuants :: "string list"
  jrWarnings :: "string list"
  jrSkipped :: nat
  jrInfohash :: string

record Job =
  jbID :: string
  jbRef :: string
  jbState :: job_state
  jbCreatedAt :: int
  jbManifest :: string
  jbError :: "APIError option"
  jbKind :: string
  jbTarget :: string
  jbVerify :: "verify_payload option"
  jbAs :: string
  jbFilesDone :: nat
  jbFilesTotal :: nat
  jbResult :: "job_result option"

abbreviation new_job :: "string \<Rightarrow> int \<Rightarrow> string \<Rightarrow> Job" where
  "new_job i now kind \<equiv>
     \<lparr>jbID = i, jbRef = [], jbState = Waiting, jbCreatedAt = now, jbManifest = [], jbError = None, jbKind = kind,
      jbTarget = [], jbVerify = None, jbAs = [], jbFilesDone = 0, jbFilesTotal = 0, jbResult = None\<rparr>"

text \<open>What a job's goroutine is to do.\<close>

datatype task =
    FillTask Manifest string | BTTask string string Hints | CatalogTask CatalogPull
  | ImportTask "Source list" ImportOptions | VerifyTask

text \<open>The parts the server is built on; \<open>snReadCause\<close> is why a source could not be read.\<close>

record server_env =
  snApi :: api_env
  snSwarm :: swarm_env
  snEngine :: engine
  snCatalog :: catalog_env
  snImport :: import_env
  snHF :: "HFClient option"
  snProvider :: "Pirateface option"
  snFS :: local_fs
  snOpenLocal :: "string \<Rightarrow> local_error + string"
  snReadCause :: "import_error \<Rightarrow> run_error option"

text \<open>\<open>svEnabled\<close>: there is a swarm client. There is one store; the clients work on it.\<close>

record backend =
  svStore :: store
  svEnabled :: bool
  svClient :: swarm_client
  svForeign :: catalog_client

subsection \<open>Errors of runs\<close>

fun swarm_mismatch :: "swarm_error \<Rightarrow> bool" where
  "swarm_mismatch (VerifyWriteFailed e) = swarm_mismatch e"
| "swarm_mismatch (CasErr (ErrDigestMismatch _)) = True"
| "swarm_mismatch _ = False"

fun digest_mismatch :: "client_error \<Rightarrow> bool" where
  "digest_mismatch (CPut (ErrDigestMismatch _)) = True"
| "digest_mismatch (RehashFailed _ _ (ErrDigestMismatch _)) = True"
| "digest_mismatch (CSwarm e) = swarm_mismatch e"
| "digest_mismatch _ = False"

definition mapSwarmError :: "client_error \<Rightarrow> APIError" where
  "mapSwarmError e = aerr
     (case e of
        ErrBinding _ \<Rightarrow> ''E_NOT_IMPORTABLE''
      | JoinedOther _ _ \<Rightarrow> ''E_NOT_IMPORTABLE''
      | RecordInvalid _ _ \<Rightarrow> ''E_NOT_IMPORTABLE''
      | ManifestInvalid _ \<Rightarrow> ''E_NOT_IMPORTABLE''
      | NoWebseeds \<Rightarrow> ErrSourceUnavail
      | AllWebseedsFailed _ \<Rightarrow> ErrSourceUnavail
      | _ \<Rightarrow> if digest_mismatch e then ''E_NOT_IMPORTABLE'' else ErrSourceUnavail)
     (SwarmMsg e)"

definition hub_code :: "hf_error \<Rightarrow> string" where
  "hub_code e =
     (case e of
        ErrRateLimited \<Rightarrow> ''E_RATE_LIMITED''
      | ErrForbidden \<Rightarrow> ''E_SOURCE_FORBIDDEN''
      | ErrUnknownRepo \<Rightarrow> ''E_UNKNOWN_REF''
      | ErrHFUnreachable _ \<Rightarrow> ErrSourceUnavail
      | _ \<Rightarrow> ErrInternal)"

definition import_code :: "import_error \<Rightarrow> string" where
  "import_code e =
     (case e of
        ErrNotImportable \<Rightarrow> ''E_NOT_IMPORTABLE''
      | SealFailed (SealInvalid _) \<Rightarrow> ErrInvalidIndex
      | IndexCorrupt _ _ \<Rightarrow> ErrInvalidIndex
      | MergedInvalid _ \<Rightarrow> ErrInvalidIndex
      | _ \<Rightarrow> ErrInternal)"

fun catalog_code :: "catalog_error \<Rightarrow> string" where
  "catalog_code ErrNotAnchored = ''E_NOT_ANCHORED''"
| "catalog_code (ErrNotListed _) = ''E_UNKNOWN_REF''"
| "catalog_code (ErrCatalogUnreachable _) = ErrSourceUnavail"
| "catalog_code (ErrBadListing _) = ErrSourceUnavail"
| "catalog_code (AnchorFetch _ _ e) = hub_code e"
| "catalog_code (RescuedAnchor _ e) = catalog_code e"
| "catalog_code (CatalogRequest _) = ErrInternal"

definition mapImportError :: "run_error \<Rightarrow> APIError" where
  "mapImportError e = aerr
     (case e of
        OfImport x \<Rightarrow> import_code x
      | OfLocal (ErrSourceNotRegular _) \<Rightarrow> ''E_SOURCE_NOT_REGULAR''
      | OfLocal _ \<Rightarrow> ErrInternal
      | OfHub x \<Rightarrow> hub_code x
      | OfCatalog x \<Rightarrow> catalog_code x
      | OfPull (ImportFailed x) \<Rightarrow> import_code x
      | OfPull _ \<Rightarrow> ErrInternal)
     (RunMsg e)"

definition importErrStatus :: "APIError \<Rightarrow> nat" where
  "importErrStatus e =
     (if aeCode e = ErrUnknownRef then 400 else if aeCode e = ''E_NOT_ANCHORED'' then 422 else 502)"

text \<open>
  A catalog pull that fails before its import, by a file outside the anchor or bytes that do not match it for
  instance, is reported as an internal error.
\<close>

lemma pull_failures_internal: "\<nexists>x. e = ImportFailed x \<Longrightarrow> aeCode (mapImportError (OfPull e)) = ErrInternal"
  by (cases e) (simp_all add: mapImportError_def)

text \<open>The error of a pipeline that could not read a source is the source's.\<close>

definition import_cause :: "server_env \<Rightarrow> import_error \<Rightarrow> run_error" where
  "import_cause env e =
     (let given = (case snReadCause env e of Some c \<Rightarrow> c | None \<Rightarrow> OfImport e) in
      case e of ReadConfig \<Rightarrow> given | ReadMember _ _ \<Rightarrow> given | ReadEntry _ \<Rightarrow> given | _ \<Rightarrow> OfImport e)"

subsection \<open>Starting jobs\<close>

text \<open>
  The outcome of a request: refused, answered with a job that is final at once, or answered with a job
  that a goroutine goes on with: the instances published before the answer, the task, and whether the
  goroutine first publishes the job as fetching. (A catalog pull whose anchor listing never ends hangs.)
\<close>

datatype admission = Refuse httpError | Answer Job | Launch "Job list" task bool | Hangs

definition bad_request :: "message \<Rightarrow> admission" where
  "bad_request m = Refuse (Refused 400 (aerr ErrBadRequest m))"

definition handleEnsure :: "server_env \<Rightarrow> backend \<Rightarrow> string \<Rightarrow> int \<Rightarrow> string option \<Rightarrow> admission" where
  "handleEnsure env sv i now body =
     (case body of
        None \<Rightarrow> bad_request (Says ''body must be JSON'')
      | Some raw \<Rightarrow>
        if raw = [] then bad_request (Says ''missing required field: ref'')
        else case Parse raw of
          Inl e \<Rightarrow> Refuse (ref_refused raw e)
        | Inr p \<Rightarrow>
          let job = (new_job i now ''ensure'')\<lparr>jbRef := rCanonical p\<rparr>;
              failed = (\<lambda>j e. Answer (j\<lparr>jbState := Failed, jbError := Some e\<rparr>)) in
          case resolveLocal (snApi env) (svStore sv) p of
            Inl HandlerPanic \<Rightarrow> Refuse HandlerPanic
          | Inl (Refused _ e) \<Rightarrow> failed job e
          | Inr res \<Rightarrow>
            let job = job\<lparr>jbManifest := rrManifestDigest res\<rparr>;
                hex = TrimPrefix (rrManifestDigest res) DigestSchemePrefix in
            if \<not> Has (apBad (snApi env)) (svStore sv) hex
            then failed job (aerr ErrSourceUnavail (ManifestNotLocal (rrManifestDigest res)))
            else case loadManifest (snApi env) (svStore sv) hex of
              Inl HandlerPanic \<Rightarrow> Refuse HandlerPanic
            | Inl (Refused _ e) \<Rightarrow> failed job e
            | Inr (m, mbytes) \<Rightarrow>
              let missing = MissingFiles (apBad (snApi env)) (svStore sv) m;
                  job = job\<lparr>jbFilesTotal := length (mFiles m), jbFilesDone := length (mFiles m) - length missing\<rparr> in
              if missing = [] then Answer (job\<lparr>jbState := Done\<rparr>)
              else if \<not> svEnabled sv
              then failed job (aerr ErrSourceUnavail (SwarmOff (length missing) (length (mFiles m))))
              else Launch [job\<lparr>jbState := Fetching\<rparr>] (FillTask m mbytes) False)"

record bt_body =
  btMagnet :: string
  btInfohash :: string
  btManifestDigest :: string
  btTrackers :: "string list"
  btWebseeds :: "string list"
  btPeers :: "string list"

definition handleImportBT :: "backend \<Rightarrow> string \<Rightarrow> int \<Rightarrow> bt_body option \<Rightarrow> admission" where
  "handleImportBT sv i now body =
     (case body of
        None \<Rightarrow> bad_request (Says ''body must be JSON'')
      | Some b \<Rightarrow>
        if btManifestDigest b = [] then bad_request (Says ''missing required field: manifestDigest'')
        else case ValidatePin (btManifestDigest b) of
          Inl e \<Rightarrow> bad_request (BadPin e)
        | Inr _ \<Rightarrow>
          if btMagnet b = [] \<and> btInfohash b = [] then bad_request (Says ''missing required field: magnet or infohash'')
          else if btMagnet b \<noteq> [] \<and> btInfohash b \<noteq> [] then bad_request (Says ''magnet and infohash are mutually exclusive'')
          else
            let loc = (if btMagnet b = [] then btInfohash b else btMagnet b) in
            if \<not> svEnabled sv then Refuse (Refused 501 (aerr ErrNotImplemented (Says ''swarm client disabled'')))
            else Launch [(new_job i now ''import-bt'')\<lparr>jbRef := loc, jbManifest := btManifestDigest b\<rparr>]
              (BTTask loc (btManifestDigest b)
                 \<lparr>hnTrackers = btTrackers b, hnWebseeds = btWebseeds b, hnPeers = btPeers b\<rparr>) True)"

record catalog_body =
  cbRepo :: string
  cbQuant :: string
  cbTrustCatalog :: bool
  cbAs :: string

definition import_refused :: "run_error \<Rightarrow> admission" where
  "import_refused e = Refuse (Refused (importErrStatus (mapImportError e)) (mapImportError e))"

definition handleImportCatalog ::
  "server_env \<Rightarrow> backend \<Rightarrow> string \<Rightarrow> int \<Rightarrow> catalog_body option \<Rightarrow> admission" where
  "handleImportCatalog env sv i now body =
     (case snProvider env of
        None \<Rightarrow> Refuse (Refused 503 (aerr ErrSourceUnavail (Says ''catalog provider disabled'')))
      | Some pf \<Rightarrow>
      case snHF env of
        None \<Rightarrow> Refuse (Refused 503 (aerr ErrSourceUnavail (Says ''HF client disabled'')))
      | Some hf \<Rightarrow>
      if \<not> svEnabled sv then Refuse (Refused 503 (aerr ErrSourceUnavail (Says ''swarm client disabled'')))
      else case body of
        None \<Rightarrow> bad_request (Says ''body must be JSON'')
      | Some b \<Rightarrow>
      if cbRepo b = [] then bad_request (Says ''missing required field: repo'')
      else case ResolveListing pf (cbRepo b) of
        Inl e \<Rightarrow> import_refused (OfCatalog e)
      | Inr resolved \<Rightarrow>
      case ResolveAnchor hf pf resolved (cbTrustCatalog b) of
        None \<Rightarrow> Hangs
      | Some (Inl e) \<Rightarrow> import_refused (OfCatalog e)
      | Some (Inr anchor) \<Rightarrow>
        Launch [(new_job i now ''import-catalog'')\<lparr>jbRef := cbRepo b,
              jbAs := (if cbAs b = [] then ToLower (cbRepo b) else cbAs b), jbFilesTotal := length (anFiles anchor)\<rparr>]
          (CatalogTask \<lparr>plResolved = Some resolved, plAnchor = Some anchor, plQuant = cbQuant b, plAs = cbAs b\<rparr>) True)"

text \<open>A source that is read when the pipeline comes to it.\<close>

definition source_of :: "(string \<Rightarrow> 'e + string) \<Rightarrow> string \<Rightarrow> string \<Rightarrow> Source" where
  "source_of rd name path = \<lparr>srName = name, srRead = (case rd path of Inl _ \<Rightarrow> None | Inr b \<Rightarrow> Some b)\<rparr>"

definition well_formed_as :: "string \<Rightarrow> bool" where
  "well_formed_as as =
     (case Parse (SchemePrefix @ as @ '':q8_0'') of Inl _ \<Rightarrow> False | Inr p \<Rightarrow> rNS p @ ''/'' @ rName p = as)"

definition handleImportLocal ::
  "server_env \<Rightarrow> string \<Rightarrow> int \<Rightarrow> (string list \<times> string) option \<Rightarrow> admission" where
  "handleImportLocal env i now body =
     (case body of
        None \<Rightarrow> bad_request (Says ''body must be JSON'')
      | Some (paths, as) \<Rightarrow>
        if paths = [] then bad_request (Says ''missing required field: paths (non-empty array)'')
        else if as = [] then bad_request (Says ''missing required field: as'')
        else if \<not> well_formed_as as then bad_request (Says ''field as must be a well-formed ns/name per spec 000'')
        else case LocalSources (snFS env) paths of
          Inl (ErrSourceNotRegular p) \<Rightarrow>
            Refuse (Refused 400 (aerr ''E_SOURCE_NOT_REGULAR'' (RunMsg (OfLocal (ErrSourceNotRegular p)))))
        | Inl e \<Rightarrow> bad_request (RunMsg (OfLocal e))
        | Inr files \<Rightarrow>
          Launch [(new_job i now ''import-local'')\<lparr>jbRef := as, jbAs := as, jbFilesTotal := length files\<rparr>]
            (ImportTask (map (\<lambda>(name, path). source_of (snOpenLocal env) name path) files)
               \<lparr>opAs = as, opHFRepo = [], opHFRevision = []\<rparr>) True)"

definition handleImportHF ::
  "server_env \<Rightarrow> string \<Rightarrow> int \<Rightarrow> (string \<times> string) option \<Rightarrow> admission" where
  "handleImportHF env i now body =
     (case snHF env of
        None \<Rightarrow> Refuse (Refused 503 (aerr ErrSourceUnavail (Says ''HF client disabled'')))
      | Some hf \<Rightarrow>
      case body of
        None \<Rightarrow> bad_request (Says ''body must be JSON'')
      | Some (repo, revision) \<Rightarrow>
      if repo = [] then bad_request (Says ''missing required field: repo'')
      else case ListRepo hf repo revision of
        Inl e \<Rightarrow> Refuse (Refused 502 (mapImportError (OfHub e)))
      | Inr (files, sha) \<Rightarrow>
        let pinned = (if sha \<noteq> [] then sha else if revision \<noteq> [] then revision else ''main'') in
        Launch [(new_job i now ''import-hf'')\<lparr>jbRef := repo, jbAs := ToLower repo, jbFilesTotal := length files\<rparr>]
          (ImportTask (map (\<lambda>f. source_of (OpenFile hf repo pinned) f f) files)
             \<lparr>opAs = ToLower repo, opHFRepo = repo, opHFRevision = pinned\<rparr>) True)"

definition verify_launch :: "Job \<Rightarrow> admission" where
  "verify_launch j = Launch [j, j\<lparr>jbState := Fetching\<rparr>] VerifyTask False"

definition handleVerify :: "server_env \<Rightarrow> backend \<Rightarrow> string \<Rightarrow> int \<Rightarrow> string option \<Rightarrow> admission" where
  "handleVerify env sv i now body =
     (case body of
        None \<Rightarrow> bad_request (Says ''body must be JSON'')
      | Some given \<Rightarrow>
        if given = [] then bad_request (Says ''missing required field: target'')
        else
          let job = new_job i now ''verify''; target = (if given = ''--all'' then ''all'' else given) in
          if target = ''all'' then verify_launch (job\<lparr>jbRef := ''all'', jbTarget := ''all''\<rparr>)
          else if IsDigest given \<or> HasPrefix given ''sha256:'' then
            (case NormalizeDigest given of
               Inl e \<Rightarrow> Refuse (Refused 400 (aerr (Class e) (Says (Message e))))
             | Inr d \<Rightarrow> verify_launch (job\<lparr>jbManifest := d, jbRef := d, jbTarget := d\<rparr>))
          else
            (case Parse target of
               Inl e \<Rightarrow> Refuse (ref_refused given e)
             | Inr p \<Rightarrow>
               (case resolveLocal (snApi env) (svStore sv) p of
                  Inl e \<Rightarrow> Refuse e
                | Inr res \<Rightarrow>
                  verify_launch (job\<lparr>jbRef := rCanonical p, jbManifest := rrManifestDigest res, jbTarget := rrManifestDigest res\<rparr>))))"

subsection \<open>Runs\<close>

text \<open>What the swarm client does to the store is done to the server's.\<close>

definition client_now :: "backend \<Rightarrow> swarm_client" where
  "client_now sv = on_storage (\<lambda>cs. cs\<lparr>csStore := svStore sv\<rparr>) (svClient sv)"

definition with_client :: "swarm_client \<Rightarrow> backend \<Rightarrow> backend" where
  "with_client c sv = sv\<lparr>svStore := scStore c, svClient := c\<rparr>"

definition foreign_now :: "backend \<Rightarrow> catalog_client" where
  "foreign_now sv = (svForeign sv)\<lparr>ccForeign := (ccForeign (svForeign sv))\<lparr>fsStore := svStore sv\<rparr>\<rparr>"

definition with_foreign :: "catalog_client \<Rightarrow> backend \<Rightarrow> backend" where
  "with_foreign c sv = sv\<lparr>svStore := fsStore (ccForeign c), svForeign := c\<rparr>"

definition failed_with :: "APIError \<Rightarrow> Job \<Rightarrow> Job" where
  "failed_with e j = j\<lparr>jbState := Failed, jbError := Some e\<rparr>"

text \<open>The goroutine of \<open>startFillJob\<close>.\<close>

definition run_fill :: "server_env \<Rightarrow> Job \<Rightarrow> Manifest \<Rightarrow> string \<Rightarrow> backend \<Rightarrow> backend \<times> Job" where
  "run_fill env base m mbytes sv =
     (case HintsForManifest (snSwarm env) (svStore sv) (TrimPrefix (jbManifest base) DigestSchemePrefix) of
        Inl e \<Rightarrow> (sv, failed_with (aerr ErrInternal (SwarmMsg e)) base)
      | Inr hints \<Rightarrow>
        (case Fill (snSwarm env) (snEngine env) m mbytes hints (client_now sv) of
           (c, Inl e) \<Rightarrow> (with_client c sv, failed_with (mapSwarmError e) base)
         | (c, Inr _) \<Rightarrow> (with_client c sv, base\<lparr>jbState := Done, jbFilesDone := jbFilesTotal base\<rparr>)))"

text \<open>The goroutine of \<open>handleImportBT\<close>.\<close>

definition run_bt :: "server_env \<Rightarrow> Job \<Rightarrow> string \<Rightarrow> string \<Rightarrow> Hints \<Rightarrow> backend \<Rightarrow> backend \<times> Job" where
  "run_bt env base loc pin hints sv =
     (let next = base\<lparr>jbState := Fetching\<rparr> in
      case ImportBT (snSwarm env) (snEngine env) loc pin hints (client_now sv) of
        (c, Inl e) \<Rightarrow> (with_client c sv, failed_with (mapSwarmError e) next)
      | (c, Inr res) \<Rightarrow>
          (with_client c sv,
           next\<lparr>jbState := Done, jbResult := Some \<lparr>jrManifests = [ibManifestDigest res], jrIndexDigest = [],
             jrQuants = [], jrWarnings = [], jrSkipped = 0, jrInfohash = ibInfohash res\<rparr>\<rparr>))"

text \<open>What \<open>runImport\<close> makes of the outcome; the warning of a catalog pull comes first.\<close>

definition import_result :: "string list \<Rightarrow> ImportResult \<Rightarrow> job_result" where
  "import_result notices res =
     \<lparr>jrManifests = map imManifest (irMembers res), jrIndexDigest = irIndexDigest res,
      jrQuants = map imQuant (irMembers res), jrWarnings = notices @ map warning_text (irWarnings res),
      jrSkipped = irSkipped res, jrInfohash = []\<rparr>"

text \<open>The first non-empty manifest is the job's.\<close>

definition first_manifest :: "string \<Rightarrow> IndexMember list \<Rightarrow> string" where
  "first_manifest old ms = fold (\<lambda>m d. if d = [] then imManifest m else d) ms old"

definition import_job :: "Job \<Rightarrow> run_error + string list \<times> ImportResult \<Rightarrow> Job" where
  "import_job job r =
     (let term = job\<lparr>jbFilesDone := jbFilesTotal job\<rparr> in
      case r of
        Inl e \<Rightarrow> failed_with (mapImportError e) term
      | Inr (notices, res) \<Rightarrow>
          term\<lparr>jbState := Done, jbResult := Some (import_result notices res),
               jbManifest := first_manifest (jbManifest term) (irMembers res)\<rparr>)"

definition run_import :: "server_env \<Rightarrow> Job \<Rightarrow> Source list \<Rightarrow> ImportOptions \<Rightarrow> backend \<Rightarrow> backend \<times> Job" where
  "run_import env job sources opts sv =
     (case Import (snImport env) opts sources (svStore sv) of
        (s, Inl e) \<Rightarrow> (sv\<lparr>svStore := s\<rparr>, import_job job (Inl (import_cause env e)))
      | (s, Inr res) \<Rightarrow> (sv\<lparr>svStore := s\<rparr>, import_job job (Inr ([], res))))"

definition run_catalog :: "server_env \<Rightarrow> Job \<Rightarrow> CatalogPull \<Rightarrow> backend \<Rightarrow> backend \<times> Job" where
  "run_catalog env job pull sv =
     (case ImportCatalog (snCatalog env) pull (foreign_now sv) of
        (c, Inl e) \<Rightarrow> (with_foreign c sv, import_job job (Inl (OfPull e)))
      | (c, Inr res) \<Rightarrow>
          (with_foreign c sv,
           import_job job (Inr (if crWarning res \<noteq> [] then [crWarning res] else [], crImport res))))"

text \<open>The number of entries of the directories in \<open>blobs/sha256\<close>.\<close>

definition BlobCount :: "(string \<Rightarrow> bool) \<Rightarrow> store \<Rightarrow> nat" where
  "BlobCount bad s =
     (if bad blobsDir then 0
      else length (remdups (map (take 2) (filter (\<lambda>c. length c \<ge> 2 \<and> \<not> bad (blobsDir @ ''/'' @ hd c))
             (map (drop 2 \<circ> split_on (CHR ''/'')) (blob_walk s))))))"

definition verify_digests :: "server_env \<Rightarrow> store \<Rightarrow> string \<Rightarrow> string list" where
  "verify_digests env s target =
     (let hex = TrimPrefix target DigestSchemePrefix in
      hex # (if \<not> Has (apBad (snApi env)) s hex then []
             else case loadManifest (snApi env) s hex of
                    Inl _ \<Rightarrow> []
                  | Inr (m, _) \<Rightarrow> map (\<lambda>f. TrimPrefix (fDigest f) DigestSchemePrefix) (mFiles m)))"

definition bad_digests :: "(string \<Rightarrow> bool) \<Rightarrow> store \<Rightarrow> string list \<Rightarrow> (string \<times> cas_error) list" where
  "bad_digests bad s ds = concat (map (\<lambda>d. case Verify bad s d of Inl e \<Rightarrow> [(d, e)] | Inr _ \<Rightarrow> []) ds)"

definition run_verify :: "server_env \<Rightarrow> Job \<Rightarrow> store \<Rightarrow> Job" where
  "run_verify env base s =
     (let bad = apBad (snApi env) in
      if jbTarget base = ''all'' then
        (case VerifyAll bad s of
           (_, Inl e) \<Rightarrow> failed_with (aerr ErrInternal (BlobMsg e)) base
         | (res, Inr _) \<Rightarrow>
             (if Mismatched res \<noteq> [] \<or> Missing res \<noteq> [] \<or> StateErrors res \<noteq> []
              then failed_with (aerr ''E_VERIFY_FAILED'' (VerifyAllMsg res)) base
              else base\<lparr>jbState := Done\<rparr>)
             \<lparr>jbFilesTotal := BlobCount bad s, jbFilesDone := BlobCount bad s, jbVerify := Some (AllResult res)\<rparr>)
      else
        let digests = verify_digests env s (jbTarget base); wrong = bad_digests bad s digests;
            term = base\<lparr>jbFilesTotal := length digests\<rparr> in
        if wrong \<noteq> [] then (failed_with (aerr ''E_VERIFY_FAILED'' (VerifyMsg wrong)) term)\<lparr>jbVerify := Some (BadBlobs wrong)\<rparr>
        else term\<lparr>jbState := Done, jbFilesDone := length digests\<rparr>)"

text \<open>The run of a job from its last instance before the goroutine: the backend after it and the terminal job.\<close>

definition exec_task :: "server_env \<Rightarrow> Job \<Rightarrow> task \<Rightarrow> backend \<Rightarrow> backend \<times> Job" where
  "exec_task env base tk sv =
     (case tk of
        FillTask m mbytes \<Rightarrow> run_fill env base m mbytes sv
      | BTTask loc pin hints \<Rightarrow> run_bt env base loc pin hints sv
      | CatalogTask pull \<Rightarrow> run_catalog env base pull sv
      | ImportTask sources opts \<Rightarrow> run_import env base sources opts sv
      | VerifyTask \<Rightarrow> (sv, run_verify env base (svStore sv)))"

definition terminal :: "Job \<Rightarrow> bool" where
  "terminal j = (jbState j = Done \<or> jbState j = Failed)"

lemma failed_with_simps [simp]:
  "jbState (failed_with e j) = Failed" "jbID (failed_with e j) = jbID j" "jbKind (failed_with e j) = jbKind j"
  by (simp_all add: failed_with_def)

lemma import_job_id: "jbID (import_job j r) = jbID j" "jbState (import_job j r) \<in> {Done, Failed}"
  by (auto simp: import_job_def Let_def split: sum.splits prod.splits)

lemma run_verify_id: "jbID (run_verify env j s) = jbID j" "jbState (run_verify env j s) \<in> {Done, Failed}"
  by (auto simp: run_verify_def Let_def failed_with_def split: sum.splits prod.splits)

text \<open>A run always ends its job, under the job's id.\<close>

lemma exec_task_terminal: "exec_task env base tk sv = (sv', j) \<Longrightarrow> terminal j \<and> jbID j = jbID base"
  using import_job_id(2) [of base] run_verify_id [of env base "svStore sv"] import_job_id(1) [of base]
  by (auto simp: exec_task_def terminal_def run_fill_def run_bt_def run_catalog_def run_import_def Let_def
      split: task.splits sum.splits prod.splits)

subsection \<open>A done verification\<close>

lemma bad_digests_none: "bad_digests bad s ds = [] \<longleftrightarrow> (\<forall>d \<in> set ds. Verify bad s d = Inr ())"
proof -
  have "Verify bad s d = Inr () \<longleftrightarrow> (\<forall>e. Verify bad s d \<noteq> Inl e)" for d by (cases "Verify bad s d") auto
  then show ?thesis by (auto simp: bad_digests_def split: sum.splits)
qed

lemma set_bad_digests: "set (map fst (bad_digests bad s ds)) = {d \<in> set ds. \<exists>e. Verify bad s d = Inl e}"
proof (induction ds)
  case (Cons d ds)
  then show ?case by (cases "Verify bad s d") (auto simp: bad_digests_def)
qed (simp add: bad_digests_def)

lemma Verify_Inr: "Verify bad s d = Inr u \<longleftrightarrow> (\<exists>f. OpenBlob bad s d = Opened f \<and> sha256_hex (fContent f) = d)"
  by (auto simp: Verify_def Let_def split: open_result.splits)

text \<open>The digests a payload names, in whichever list.\<close>

fun entry_digest :: "missing_entry \<Rightarrow> string" where
  "entry_digest (NotStored d) = d"
| "entry_digest (BadBlob d _) = d"

definition payload_digests :: "verify_payload \<Rightarrow> string set" where
  "payload_digests p = set (vpMismatched p) \<union> entry_digest ` set (vpMissing p)"

lemma payload_BadBlobs [simp]: "payload_digests (BadBlobs wrong) = set (map fst wrong)"
  by (force simp: payload_digests_def BadBlobs_def)

text \<open>
  C29: a verify job of a target ends as done exactly when every digest it covers was read back and hashes to
  itself, and as failed with the digests that did not otherwise; it covers the target and, when that is the
  manifest of an artifact, the blob of every file the manifest names. Verification changes nothing.
\<close>

theorem verify_job_sound:
  assumes "exec_task env base VerifyTask sv = (sv', j)" and "jbTarget base \<noteq> ''all''"
  shows "sv' = sv
    \<and> (jbState j = Done \<longleftrightarrow> (\<forall>d \<in> set (verify_digests env (svStore sv) (jbTarget base)).
          \<exists>f. OpenBlob (apBad (snApi env)) (svStore sv) d = Opened f \<and> sha256_hex (fContent f) = d))
    \<and> (jbState j = Failed \<longleftrightarrow> (\<exists>p. jbVerify j = Some p \<and> payload_digests p \<noteq> {}
          \<and> payload_digests p = {d \<in> set (verify_digests env (svStore sv) (jbTarget base)).
               \<nexists>f. OpenBlob (apBad (snApi env)) (svStore sv) d = Opened f \<and> sha256_hex (fContent f) = d}))
    \<and> (\<forall>m b. Has (apBad (snApi env)) (svStore sv) (DigestHex (jbTarget base))
          \<and> loadManifest (snApi env) (svStore sv) (DigestHex (jbTarget base)) = Inr (m, b)
        \<longrightarrow> set (verify_digests env (svStore sv) (jbTarget base))
              = insert (DigestHex (jbTarget base)) (DigestHex ` fDigest ` set (mFiles m)))"
proof -
  let ?bad = "apBad (snApi env)" and ?s = "svStore sv"
  let ?ds = "verify_digests env ?s (jbTarget base)"
  have j: "sv' = sv" "j = run_verify env base ?s" using assms(1) by (auto simp: exec_task_def)
  have wrong: "set (map fst (bad_digests ?bad ?s ds)) = {d \<in> set ds. \<nexists>f. OpenBlob ?bad ?s d = Opened f \<and> sha256_hex (fContent f) = d}"
    for ds
  proof -
    have "set (map fst (bad_digests ?bad ?s ds)) = {d \<in> set ds. \<exists>e. Verify ?bad ?s d = Inl e}"
      by (rule set_bad_digests)
    moreover have "(\<exists>e. Verify ?bad ?s d = Inl e) \<longleftrightarrow> \<not> (\<exists>f. OpenBlob ?bad ?s d = Opened f \<and> sha256_hex (fContent f) = d)" for d
      using Verify_Inr [of ?bad ?s d] by (cases "Verify ?bad ?s d") auto
    ultimately show ?thesis by simp
  qed
  have ok: "jbState j = Done \<longleftrightarrow> bad_digests ?bad ?s ?ds = []"
    and fail: "jbState j = Failed \<longleftrightarrow> bad_digests ?bad ?s ?ds \<noteq> []"
    and pay: "bad_digests ?bad ?s ?ds \<noteq> [] \<longrightarrow> jbVerify j = Some (BadBlobs (bad_digests ?bad ?s ?ds))"
    using assms(2) by (simp_all add: j run_verify_def Let_def failed_with_def)
  have failed: "jbState j = Failed \<longleftrightarrow> (\<exists>p. jbVerify j = Some p \<and> payload_digests p \<noteq> {}
      \<and> payload_digests p = {d \<in> set ?ds. \<nexists>f. OpenBlob ?bad ?s d = Opened f \<and> sha256_hex (fContent f) = d})"
  proof
    assume "jbState j = Failed"
    then have w: "bad_digests ?bad ?s ?ds \<noteq> []" using fail by simp
    then have "payload_digests (BadBlobs (bad_digests ?bad ?s ?ds)) \<noteq> {}" by simp
    then show "\<exists>p. jbVerify j = Some p \<and> payload_digests p \<noteq> {}
      \<and> payload_digests p = {d \<in> set ?ds. \<nexists>f. OpenBlob ?bad ?s d = Opened f \<and> sha256_hex (fContent f) = d}"
      unfolding wrong [of ?ds, symmetric] using pay w by (intro exI [of _ "BadBlobs (bad_digests ?bad ?s ?ds)"]) simp
  next
    assume "\<exists>p. jbVerify j = Some p \<and> payload_digests p \<noteq> {}
      \<and> payload_digests p = {d \<in> set ?ds. \<nexists>f. OpenBlob ?bad ?s d = Opened f \<and> sha256_hex (fContent f) = d}"
    then have "set (map fst (bad_digests ?bad ?s ?ds)) \<noteq> {}" unfolding wrong by blast
    then have "bad_digests ?bad ?s ?ds \<noteq> []" by auto
    then show "jbState j = Failed" using fail by simp
  qed
  have "TrimPrefix x DigestSchemePrefix = DigestHex x" for x by (simp add: DigestHex_def DigestSchemePrefix_def)
  then show ?thesis
    using j(1) ok failed by (auto simp: bad_digests_none Verify_Inr verify_digests_def)
qed

definition demo_env :: server_env where
  "demo_env = \<lparr>snApi = demo_api, snSwarm = bt_env, snEngine = bt_engine, snCatalog = pull_ce, snImport = demo_ie,
     snHF = None, snProvider = None, snFS = \<lparr>lfLstat = (\<lambda>_. None), lfWalk = (\<lambda>_. [])\<rparr>,
     snOpenLocal = (\<lambda>p. Inl (StatErr p)), snReadCause = (\<lambda>_. None)\<rparr>"

definition demo_backend :: "store \<Rightarrow> backend" where
  "demo_backend s = \<lparr>svStore = s, svEnabled = True, svClient = bt_client s [] [], svForeign = pull_client\<rparr>"

text \<open>The blob at \<open>zero_hex\<close> does not hash to its name, or does: the job says which.\<close>

lemma verify_job_sound_witness:
  "\<exists>j. exec_task demo_env ((new_job ''1'' 0 ''verify'')\<lparr>jbTarget := ''sha256:'' @ zero_hex\<rparr>) VerifyTask (demo_backend demo_state)
      = (demo_backend demo_state, j)
    \<and> (jbState j = Done \<longrightarrow> sha256_hex ''{}'' = zero_hex)"
proof -
  let ?b = "(new_job ''1'' 0 ''verify'')\<lparr>jbTarget := ''sha256:'' @ zero_hex\<rparr>"
  obtain sv j where run: "exec_task demo_env ?b VerifyTask (demo_backend demo_state) = (sv, j)" by (metis surj_pair)
  have t: "jbTarget ?b \<noteq> ''all''" by simp
  have "zero_hex \<in> set (verify_digests demo_env demo_state (''sha256:'' @ zero_hex))"
    using zero_digest(3) by (simp add: verify_digests_def)
  moreover have "svStore (demo_backend demo_state) = demo_state" "snApi demo_env = demo_api"
    by (simp_all add: demo_backend_def demo_env_def)
  ultimately have "jbState j = Done \<longrightarrow> sha256_hex ''{}'' = zero_hex" and "sv = demo_backend demo_state"
    using verify_job_sound [OF run t] demo_opened by auto
  then show ?thesis using run by blast
qed

subsection \<open>A done import\<close>

lemma import_job_Done:
  "jbState (import_job job r) = Done \<longleftrightarrow> (\<exists>x. r = Inr x)"
  by (auto simp: import_job_def Let_def failed_with_def split: sum.splits)

lemma first_manifest_hd:
  "map imManifest ms = ds \<Longrightarrow> ds \<noteq> [] \<Longrightarrow> hd ds \<noteq> [] \<Longrightarrow> first_manifest [] ms = hd ds"
proof -
  have keep: "d \<noteq> [] \<Longrightarrow> fold (\<lambda>m d. if d = [] then imManifest m else d) ms d = d" for d ms
    by (induction ms) auto
  show "map imManifest ms = ds \<Longrightarrow> ds \<noteq> [] \<Longrightarrow> hd ds \<noteq> [] \<Longrightarrow> first_manifest [] ms = hd ds"
    using keep by (cases ms) (auto simp: first_manifest_def)
qed

text \<open>
  C27: an import job that is done has published what its result names: there is at least one
  manifest, each belongs to an artifact whose files, piece layers and record are all in the store, the job's own manifest is one of
  them, and the namespace leads to the reported index, a valid one with the new members. A failed job has
  changed no namespace, except when the sync after the last rename fails. The job ends in one of the two ways.
\<close>

theorem import_job_published:
  assumes "exec_task env base (ImportTask sources opts) sv = (sv', j)" and "jbManifest base = []"
  shows "jbState j = Done
      \<and> (\<exists>res r. Import (snImport env) opts sources (svStore sv) = (svStore sv', Inr res) \<and> jbResult j = Some r
           \<and> jrManifests r \<noteq> [] \<and> jbManifest j \<in> set (jrManifests r) \<and> jrIndexDigest r = irIndexDigest res
           \<and> (\<forall>d \<in> set (jrManifests r). \<exists>ai. aiManifest ai = d \<and> published (snImport env) (svStore sv') ai)
           \<and> index_published (snImport env) (opAs opts) (svStore sv) (svStore sv') (irMembers res) (irIndexDigest res))
    \<or> jbState j = Failed
      \<and> (\<exists>e. Import (snImport env) opts sources (svStore sv) = (svStore sv', Inl e)
           \<and> jbError j = Some (mapImportError (import_cause env e))
           \<and> (e \<noteq> NamespaceFailed (IOErr SysSyncDir) \<longrightarrow> Namespaces (svStore sv') = Namespaces (svStore sv)))"
proof -
  obtain s r where imp: "Import (snImport env) opts sources (svStore sv) = (s, r)" by (metis surj_pair)
  show ?thesis
  proof (cases r)
    case (Inl e)
    then have "svStore sv' = s" "j = import_job base (Inl (import_cause env e))"
      using assms(1) imp by (auto simp: exec_task_def run_import_def)
    then show ?thesis
      using imp Inl Import_error_frame [of "snImport env" opts sources "svStore sv" s e]
      by (auto simp: import_job_def Let_def failed_with_def)
  next
    case (Inr res)
    then have st: "svStore sv' = s" and j: "j = import_job base (Inr ([], res))"
      using assms(1) imp by (auto simp: exec_task_def run_import_def)
    note pub = Import_published [OF imp [unfolded Inr]]
    have ms: "map imManifest (irMembers res) = map aiManifest (irArtifacts res)"
    proof -
      have "map fst (map (\<lambda>m. (imManifest m, imQuant m)) (irMembers res)) = map fst (map (\<lambda>a. (aiManifest a, aiQuant a)) (irArtifacts res))"
        using pub by simp
      then show ?thesis by (simp add: o_def)
    qed
    have ne: "aiManifest ai \<noteq> []" if "ai \<in> set (irArtifacts res)" for ai
      using pub that by (auto simp: published_def Digest_def)
    then have first: "first_manifest [] (irMembers res) = hd (map aiManifest (irArtifacts res))"
      using pub ms by (intro first_manifest_hd) (simp_all add: hd_map)
    have "jbManifest j \<in> set (map aiManifest (irArtifacts res))"
      using first pub assms(2) list.set_sel(1) [of "map aiManifest (irArtifacts res)"] by (simp add: j import_job_def)
    then show ?thesis
      using pub ms imp Inr st by (intro disjI1) (auto simp: j import_job_def import_result_def Let_def)
  qed
qed

lemma import_job_published_witness:
  "\<exists>sv j r. exec_task demo_env (new_job ''1'' 0 ''import-local'') (ImportTask demo_weights demo_opts) (demo_backend empty_store) = (sv, j)
    \<and> jbState j = Done \<and> jbResult j = Some r \<and> jrManifests r \<noteq> []"
proof -
  obtain s res where imp: "Import demo_ie demo_opts demo_weights empty_store = (s, Inr res)"
    using demo_import [of empty_store] by (auto simp: empty_store_def look_def)
  obtain sv j where run: "exec_task demo_env (new_job ''1'' 0 ''import-local'') (ImportTask demo_weights demo_opts) (demo_backend empty_store) = (sv, j)"
    by (metis surj_pair)
  have e: "snImport demo_env = demo_ie" "svStore (demo_backend empty_store) = empty_store"
    by (simp_all add: demo_env_def demo_backend_def)
  have "jbManifest (new_job ''1'' 0 ''import-local'') = []" by simp
  from import_job_published [OF run this, unfolded e imp] run show ?thesis by auto
qed

subsection \<open>Ensure\<close>

text \<open>
  C28: a request to have an artifact at hand. A fill is started only with a swarm client, for a
  reference that resolves, with its manifest in the store and valid, and something missing; the fill is given that
  very manifest and its bytes. When it ends as done, the blob of every file of the manifest is in
  the store; it never touches the state maps. (The engine acts through the driver's operations, and has no
  torrent of this artifact open.)
\<close>

theorem ensure_completes:
  assumes "handleEnsure env sv0 i now (Some raw) = Launch js (FillTask m mb) start"
    and "exec_task env (last js) (FillTask m mb) sv = (sv', j)"
    and "engine_ok (snEngine env)" and "storage_inv (scStorage (client_now sv))"
    and "\<And>recon. reconstruct m mb = Inr recon \<Longrightarrow> map_of (csOpen (scStorage (client_now sv))) (take 40 (rcInfohashHex recon)) = None"
  shows "svEnabled sv0 \<and> MissingFiles (apBad (snApi env)) (svStore sv0) m \<noteq> []
    \<and> (\<exists>p res. Parse raw = Inr p \<and> resolveLocal (snApi env) (svStore sv0) p = Inr res
         \<and> loadManifest (snApi env) (svStore sv0) (DigestHex (rrManifestDigest res)) = Inr (m, mb)
         \<and> jbManifest j = rrManifestDigest res)
    \<and> jbFilesTotal j = length (mFiles m)
    \<and> sState (svStore sv') = sState (svStore sv)
    \<and> (jbState j = Done \<longrightarrow> (\<forall>f \<in> set (mFiles m). present (svStore sv') (DigestHex (fDigest f))))"
proof -
  have d: "TrimPrefix x DigestSchemePrefix = DigestHex x" for x by (simp add: DigestHex_def DigestSchemePrefix_def)
  obtain p res where p: "Parse raw = Inr p" "resolveLocal (snApi env) (svStore sv0) p = Inr res"
    "loadManifest (snApi env) (svStore sv0) (DigestHex (rrManifestDigest res)) = Inr (m, mb)"
    "MissingFiles (apBad (snApi env)) (svStore sv0) m \<noteq> []" "svEnabled sv0"
    "jbManifest (last js) = rrManifestDigest res" "jbFilesTotal (last js) = length (mFiles m)" "jbState (last js) = Fetching"
    using assms(1)
    by (auto simp: handleEnsure_def bad_request_def d Let_def split: if_splits sum.splits httpError.splits prod.splits)
  have v: "ValidateManifest m = None" using p(3) by (auto simp: loadManifest_Inr)
  have run: "run_fill env (last js) m mb sv = (sv', j)" using assms(2) by (simp add: exec_task_def)
  have "jbManifest j = jbManifest (last js) \<and> jbFilesTotal j = jbFilesTotal (last js)"
    using run by (auto simp: run_fill_def failed_with_def split: sum.splits prod.splits)
  moreover have "sState (svStore sv') = sState (svStore sv)
    \<and> (jbState j = Done \<longrightarrow> (\<forall>f \<in> set (mFiles m). present (svStore sv') (DigestHex (fDigest f))))"
  proof (cases "HintsForManifest (snSwarm env) (svStore sv) (TrimPrefix (jbManifest (last js)) DigestSchemePrefix)")
    case (Inl e)
    then show ?thesis using run by (auto simp: run_fill_def)
  next
    case (Inr hints)
    obtain c r where fill: "Fill (snSwarm env) (snEngine env) m mb hints (client_now sv) = (c, r)" by (metis surj_pair)
    have "scStore (client_now sv) = svStore sv" by (simp add: client_now_def on_storage_def)
    then show ?thesis
      using run Inr fill Fill_completes [OF assms(3,4) v assms(5) fill]
      by (auto simp: run_fill_def with_client_def split: sum.splits)
  qed
  ultimately show ?thesis using p by auto
qed

text \<open>A digest that is not the one of the files of \<open>bt_manifest\<close>, and a store that holds only its blob.\<close>

definition other_hex :: string where
  "other_hex = (if sha256_hex ''w'' = zero_hex then replicate 64 (CHR ''1'') else zero_hex)"

definition other_uri :: string where
  "other_uri = ''shardr:///a/b@sha256:'' @ other_hex"

definition other_backend :: backend where
  "other_backend = demo_backend (empty_store\<lparr>sFiles := [(blob_path other_hex, \<lparr>fContent = ''{}'', fMode = blobMode, fTime = 0\<rparr>)]\<rparr>)"

lemma other_parse:
  "case Parse other_uri of Inl _ \<Rightarrow> False | Inr p \<Rightarrow> rQuant p = [] \<and> rDigest p = ''sha256:'' @ other_hex"
proof -
  have "case Parse (''shardr:///a/b@sha256:'' @ replicate 64 (CHR ''1'')) of Inl _ \<Rightarrow> False
      | Inr p \<Rightarrow> rQuant p = [] \<and> rDigest p = ''sha256:'' @ replicate 64 (CHR ''1'')"
    and "case Parse (''shardr:///a/b@sha256:'' @ zero_hex) of Inl _ \<Rightarrow> False
      | Inr p \<Rightarrow> rQuant p = [] \<and> rDigest p = ''sha256:'' @ zero_hex"
    by code_simp+
  then show ?thesis by (simp only: other_uri_def other_hex_def simp_thms split: if_split)
qed

lemma other_hex: "is_digest_hex other_hex" "other_hex \<noteq> sha256_hex ''w''" "TrimPrefix (''sha256:'' @ other_hex) DigestSchemePrefix = other_hex"
proof -
  have "is_digest_hex (replicate 64 (CHR ''1''))" "replicate 64 (CHR ''1'') \<noteq> zero_hex" by code_simp+
  then show "is_digest_hex other_hex" "other_hex \<noteq> sha256_hex ''w''"
    using zero_digest(1) by (auto simp: other_hex_def)
qed (simp add: DigestSchemePrefix_def TrimPrefix_def HasPrefix_def)

lemma ensure_completes_witness:
  "\<exists>js sv j. handleEnsure demo_env other_backend ''1'' 0 (Some other_uri) = Launch js (FillTask bt_manifest ''{}'') False
    \<and> exec_task demo_env (last js) (FillTask bt_manifest ''{}'') (demo_backend empty_store) = (sv, j) \<and> jbFilesTotal j = 2"
proof -
  let ?s = "svStore other_backend"
  obtain p where p: "Parse other_uri = Inr p" "rQuant p = []" "rDigest p = ''sha256:'' @ other_hex"
    using other_parse by (auto split: sum.splits)
  have bad: "apBad (snApi demo_env) = (\<lambda>_. False)" "svEnabled other_backend"
    "decManifest (apCodec (snApi demo_env)) b = Inr bt_manifest" for b
    by (simp_all add: demo_env_def demo_api_def other_backend_def demo_backend_def)
  have blob: "OpenBlob (\<lambda>_. False) ?s other_hex = Opened \<lparr>fContent = ''{}'', fMode = blobMode, fTime = 0\<rparr>"
    by (simp add: OpenBlob_def BlobPath_valid other_hex other_backend_def demo_backend_def look_def)
  have "loadManifest (snApi demo_env) ?s other_hex = Inr (bt_manifest, ''{}'')"
    using blob bad demo_valid [of "[]"] by (simp add: loadManifest_Inr bt_manifest_def)
  moreover have gone: "\<not> Has (\<lambda>_. False) ?s (sha256_hex ''w'')"
    using other_hex blob_path_inj [of "sha256_hex ''w''" other_hex]
    by (simp add: present_def other_backend_def demo_backend_def look_def)
  moreover have "MissingFiles (\<lambda>_. False) ?s bt_manifest = [''modelconfig.json'', ''w.gguf'']"
    using gone by (simp add: MissingFiles_def bt_manifest_def demo_config_def small_file_def)
  ultimately have "\<exists>js. handleEnsure demo_env other_backend ''1'' 0 (Some other_uri) = Launch js (FillTask bt_manifest ''{}'') False"
    using p Has_Opened [OF blob] other_hex(3) bad
    by (simp add: handleEnsure_def Let_def resolveLocal_def other_uri_def bt_manifest_def)
  then obtain js where js: "handleEnsure demo_env other_backend ''1'' 0 (Some other_uri) = Launch js (FillTask bt_manifest ''{}'') False"
    by blast
  obtain sv j where run: "exec_task demo_env (last js) (FillTask bt_manifest ''{}'') (demo_backend empty_store) = (sv, j)" by (metis surj_pair)
  have eg: "engine_ok (snEngine demo_env)" using bt_engine_ok by (simp add: demo_env_def)
  have "store_ok empty_store" by (simp add: store_ok_def empty_store_def look_def)
  then have inv: "storage_inv (scStorage (client_now (demo_backend empty_store)))"
    by (simp add: client_now_def on_storage_def demo_backend_def bt_client_def storage_inv_def storage_ok_def file_at_def)
  have free: "map_of (csOpen (scStorage (client_now (demo_backend empty_store)))) k = None" for k
    by (simp add: client_now_def on_storage_def demo_backend_def bt_client_def)
  have "jbFilesTotal j = 2"
    using ensure_completes [OF js run eg inv free] by (simp add: bt_manifest_def)
  with js run show ?thesis by blast
qed

end
