(* ===== verification/JobRuns.thy ===== *)
theory JobRuns
  imports ApiJobs
begin

text \<open>
  \<open>internal/api/server.go\<close>, the life of jobs as a step system: requests admit jobs, a goroutine per job
  runs its task and publishes its end, progress ticks race it. \<open>startFillJob\<close> and \<open>runImport\<close> guard both
  publications by a mutex and a flag, which are parts of the state here, so a tick that was called before
  the task returned may take the mutex after the end is published. The run of a task on the store is
  one step; that the store stands concurrent writers is shown in \<open>Cas\<close>.
\<close>

subsection \<open>The state\<close>

datatype run_pc = Starting | Executing | Returned Job | Ended

text \<open>Who holds the mutex of a run: a progress tick with its counts, or the end of the run.\<close>

datatype mutex = Ticker nat nat | Finisher

record job_run =
  rnTask :: task
  rnBase :: Job
  rnPc :: run_pc
  rnLock :: "mutex option"
  rnTerminal :: bool

record server =
  svBackend :: backend
  svJobs :: "(string \<times> Job) list"
  svRuns :: "(string \<times> job_run) list"

definition publishJob :: "Job \<Rightarrow> server \<Rightarrow> server" where
  "publishJob j sv = sv\<lparr>svJobs := AList.update (jbID j) j (svJobs sv)\<rparr>"

definition set_run :: "string \<Rightarrow> job_run \<Rightarrow> server \<Rightarrow> server" where
  "set_run i r sv = sv\<lparr>svRuns := AList.update i r (svRuns sv)\<rparr>"

definition handleJob :: "server \<Rightarrow> string \<Rightarrow> httpError + Job" where
  "handleJob sv i =
     (case map_of (svJobs sv) i of
        None \<Rightarrow> Inl (Refused 404 (aerr ErrNotFound (Says (''no such job: '' @ i))))
      | Some j \<Rightarrow> Inr j)"

definition handleJobsList :: "server \<Rightarrow> Job list" where
  "handleJobsList sv = sort_by (\<lambda>a b. jbCreatedAt b < jbCreatedAt a) (map snd (svJobs sv))"

definition currentJob :: "server \<Rightarrow> string \<Rightarrow> Job" where
  "currentJob sv i = (case map_of (svJobs sv) i of Some j \<Rightarrow> j | None \<Rightarrow> new_job i 0 [])"

subsection \<open>Admitting a request\<close>

definition admit :: "admission \<Rightarrow> server \<Rightarrow> server \<times> (httpError + Job) option" where
  "admit a sv =
     (case a of
        Refuse e \<Rightarrow> (sv, Some (Inl e))
      | Answer j \<Rightarrow> (publishJob j sv, Some (Inr j))
      | Launch js tk start \<Rightarrow>
          (set_run (jbID (last js))
             \<lparr>rnTask = tk, rnBase = last js, rnPc = (if start then Starting else Executing), rnLock = None, rnTerminal = False\<rparr>
             (fold publishJob js sv),
           Some (Inr (last js)))
      | Hangs \<Rightarrow> (sv, None))"

text \<open>The outcomes of the requests that make jobs, for a fresh id.\<close>

inductive handled :: "server_env \<Rightarrow> backend \<Rightarrow> string \<Rightarrow> admission \<Rightarrow> bool" for env sv i where
  ensure: "handled env sv i (handleEnsure env sv i now body)"
| import_bt: "handled env sv i (handleImportBT sv i now body)"
| import_catalog: "handled env sv i (handleImportCatalog env sv i now body)"
| import_local: "handled env sv i (handleImportLocal env i now body)"
| import_hf: "handled env sv i (handleImportHF env i now body)"
| verify: "handled env sv i (handleVerify env sv i now body)"

subsection \<open>Steps\<close>

text \<open>The fill and the imports have progress ticks, and the mutex.\<close>

fun locked :: "task \<Rightarrow> bool" where
  "locked (FillTask _ _) = True"
| "locked (CatalogTask _) = True"
| "locked (ImportTask _ _) = True"
| "locked _ = False"

fun is_fill :: "task \<Rightarrow> bool" where
  "is_fill (FillTask _ _) = True"
| "is_fill _ = False"

definition tick_job :: "server \<Rightarrow> string \<Rightarrow> job_run \<Rightarrow> nat \<Rightarrow> nat \<Rightarrow> Job" where
  "tick_job sv i r d t =
     (if is_fill (rnTask r) then rnBase r else currentJob sv i)\<lparr>jbState := Fetching, jbFilesDone := d, jbFilesTotal := t\<rparr>"

definition end_run :: "string \<Rightarrow> job_run \<Rightarrow> Job \<Rightarrow> server \<Rightarrow> server" where
  "end_run i r j sv = set_run i (r\<lparr>rnPc := Ended, rnLock := None, rnTerminal := True\<rparr>) (publishJob j sv)"

text \<open>A step of the job's goroutine.\<close>

inductive run_step :: "server_env \<Rightarrow> string \<Rightarrow> server \<Rightarrow> server \<Rightarrow> bool" for env i where
  start: "map_of (svRuns sv) i = Some r \<Longrightarrow> rnPc r = Starting
    \<Longrightarrow> run_step env i sv (set_run i (r\<lparr>rnPc := Executing\<rparr>) (publishJob ((rnBase r)\<lparr>jbState := Fetching\<rparr>) sv))"
| exec: "map_of (svRuns sv) i = Some r \<Longrightarrow> rnPc r = Executing
    \<Longrightarrow> exec_task env (rnBase r) (rnTask r) (svBackend sv) = (b, j)
    \<Longrightarrow> run_step env i sv (set_run i (r\<lparr>rnPc := Returned j\<rparr>) (sv\<lparr>svBackend := b\<rparr>))"
| lock: "map_of (svRuns sv) i = Some r \<Longrightarrow> rnPc r = Returned j \<Longrightarrow> locked (rnTask r) \<Longrightarrow> rnLock r = None
    \<Longrightarrow> run_step env i sv (set_run i (r\<lparr>rnLock := Some Finisher\<rparr>) sv)"
| finish: "map_of (svRuns sv) i = Some r \<Longrightarrow> rnPc r = Returned j \<Longrightarrow> rnLock r = Some Finisher
    \<Longrightarrow> run_step env i sv (end_run i r j sv)"
| finish_free: "map_of (svRuns sv) i = Some r \<Longrightarrow> rnPc r = Returned j \<Longrightarrow> \<not> locked (rnTask r)
    \<Longrightarrow> run_step env i sv (end_run i r j sv)"

text \<open>A step of a progress callback: it may be late, and does nothing once the end is published.\<close>

inductive tick_step :: "string \<Rightarrow> server \<Rightarrow> server \<Rightarrow> bool" for i where
  take_lock: "map_of (svRuns sv) i = Some r \<Longrightarrow> locked (rnTask r) \<Longrightarrow> rnPc r \<noteq> Starting \<Longrightarrow> rnLock r = None
    \<Longrightarrow> tick_step i sv (set_run i (r\<lparr>rnLock := Some (Ticker d t)\<rparr>) sv)"
| tick: "map_of (svRuns sv) i = Some r \<Longrightarrow> rnLock r = Some (Ticker d t)
    \<Longrightarrow> tick_step i sv (set_run i (r\<lparr>rnLock := None\<rparr>)
          (if rnTerminal r then sv else publishJob (tick_job sv i r d t) sv))"

text \<open>Other programs, and the clients on their own, may change the store at any time.\<close>

inductive server_step :: "server \<Rightarrow> server \<Rightarrow> bool" where
  request: "map_of (svJobs sv) i = None \<Longrightarrow> handled env (svBackend sv) i a \<Longrightarrow> server_step sv (fst (admit a sv))"
| run: "run_step env i sv sv' \<Longrightarrow> server_step sv sv'"
| tick: "tick_step i sv sv' \<Longrightarrow> server_step sv sv'"
| outside: "server_step sv (sv\<lparr>svBackend := b\<rparr>)"

lemma run_stepE:
  assumes "run_step env i sv sv'"
  obtains (start) r where "sv' = set_run i (r\<lparr>rnPc := Executing\<rparr>) (publishJob ((rnBase r)\<lparr>jbState := Fetching\<rparr>) sv)"
      "map_of (svRuns sv) i = Some r" "rnPc r = Starting"
  | (exec) r b j where "sv' = set_run i (r\<lparr>rnPc := Returned j\<rparr>) (sv\<lparr>svBackend := b\<rparr>)"
      "map_of (svRuns sv) i = Some r" "rnPc r = Executing" "exec_task env (rnBase r) (rnTask r) (svBackend sv) = (b, j)"
  | (lock) r j where "sv' = set_run i (r\<lparr>rnLock := Some Finisher\<rparr>) sv"
      "map_of (svRuns sv) i = Some r" "rnPc r = Returned j" "locked (rnTask r)" "rnLock r = None"
  | (finish) r j where "sv' = end_run i r j sv" "map_of (svRuns sv) i = Some r" "rnPc r = Returned j"
      "rnLock r = Some Finisher \<or> \<not> locked (rnTask r)"
  using assms by (cases rule: run_step.cases) blast+

lemma tick_stepE:
  assumes "tick_step i sv sv'"
  obtains (take_lock) r d t where "sv' = set_run i (r\<lparr>rnLock := Some (Ticker d t)\<rparr>) sv" "map_of (svRuns sv) i = Some r"
      "locked (rnTask r)" "rnPc r \<noteq> Starting" "rnLock r = None"
  | (tick) r d t where "sv' = set_run i (r\<lparr>rnLock := None\<rparr>) (if rnTerminal r then sv else publishJob (tick_job sv i r d t) sv)"
      "map_of (svRuns sv) i = Some r" "rnLock r = Some (Ticker d t)"
  using assms by (cases rule: tick_step.cases) blast+

lemma server_stepE:
  assumes "server_step sv sv'"
  obtains (request) i env a where "sv' = fst (admit a sv)" "map_of (svJobs sv) i = None" "handled env (svBackend sv) i a"
  | (run) env i where "run_step env i sv sv'"
  | (tick) i where "tick_step i sv sv'"
  | (outside) b where "sv' = sv\<lparr>svBackend := b\<rparr>"
  using assms by (cases rule: server_step.cases) blast+

definition server_init :: "server \<Rightarrow> bool" where
  "server_init sv \<longleftrightarrow> svJobs sv = [] \<and> svRuns sv = []"

subsection \<open>The invariant\<close>

text \<open>How far a run is and what readers see of its job.\<close>

definition run_ok :: "job_run \<Rightarrow> Job \<Rightarrow> bool" where
  "run_ok r j \<longleftrightarrow>
     (case rnPc r of
        Starting \<Rightarrow> jbState j = Waiting \<and> rnLock r = None \<and> \<not> rnTerminal r
      | Executing \<Rightarrow> jbState j = Fetching \<and> rnLock r \<noteq> Some Finisher \<and> \<not> rnTerminal r
      | Returned t \<Rightarrow> jbState j = Fetching \<and> \<not> rnTerminal r \<and> terminal t \<and> jbID t = jbID (rnBase r)
      | Ended \<Rightarrow> terminal j \<and> rnLock r \<noteq> Some Finisher \<and> rnTerminal r)
     \<and> (\<not> locked (rnTask r) \<longrightarrow> rnLock r = None)"

definition jobs_ok :: "server \<Rightarrow> bool" where
  "jobs_ok sv \<longleftrightarrow>
     (\<forall>i j. map_of (svJobs sv) i = Some j \<longrightarrow> jbID j = i)
     \<and> (\<forall>i r. map_of (svRuns sv) i = Some r \<longrightarrow>
          jbID (rnBase r) = i \<and> (\<exists>j. map_of (svJobs sv) i = Some j \<and> run_ok r j))
     \<and> (\<forall>i j. map_of (svJobs sv) i = Some j \<longrightarrow> \<not> terminal j \<longrightarrow>
          (\<exists>r. map_of (svRuns sv) i = Some r \<and> rnPc r \<noteq> Ended))"

text \<open>What each handler launches: one job under the given id, waiting if the goroutine still has to start it.\<close>

definition admissible :: "string \<Rightarrow> admission \<Rightarrow> bool" where
  "admissible i a \<longleftrightarrow>
     (\<forall>j. a = Answer j \<longrightarrow> jbID j = i \<and> terminal j)
     \<and> (\<forall>js tk start. a = Launch js tk start \<longrightarrow>
          js \<noteq> [] \<and> (\<forall>j \<in> set js. jbID j = i) \<and> jbState (last js) = (if start then Waiting else Fetching))"

lemma handled_admissible: "handled env sv i a \<Longrightarrow> admissible i a"
proof (induction rule: handled.induct)
  case (ensure now body)
  show ?case
    by (auto simp: admissible_def handleEnsure_def bad_request_def Let_def terminal_def
        split: option.splits if_splits sum.splits httpError.splits prod.splits)
next
  case (import_bt now body)
  show ?case
    by (auto simp: admissible_def handleImportBT_def bad_request_def Let_def split: option.splits if_splits sum.splits)
next
  case (import_catalog now body)
  show ?case
    by (auto simp: admissible_def handleImportCatalog_def bad_request_def import_refused_def
        split: option.splits if_splits sum.splits)
next
  case (import_local now body)
  show ?case
    by (auto simp: admissible_def handleImportLocal_def bad_request_def
        split: option.splits if_splits sum.splits prod.splits local_error.splits)
next
  case (import_hf now body)
  show ?case
    by (auto simp: admissible_def handleImportHF_def bad_request_def Let_def
        split: option.splits if_splits sum.splits prod.splits)
next
  case (verify now body)
  show ?case
    by (auto simp: admissible_def handleVerify_def bad_request_def verify_launch_def Let_def
        split: option.splits if_splits sum.splits)
qed

lemma publishJob_simps [simp]:
  "map_of (svJobs (publishJob j sv)) = (map_of (svJobs sv))(jbID j \<mapsto> j)"
  "svRuns (publishJob j sv) = svRuns sv" "svBackend (publishJob j sv) = svBackend sv"
  by (simp_all add: publishJob_def update_conv')

lemma set_run_simps [simp]:
  "map_of (svRuns (set_run i r sv)) = (map_of (svRuns sv))(i \<mapsto> r)"
  "svJobs (set_run i r sv) = svJobs sv" "svBackend (set_run i r sv) = svBackend sv"
  by (simp_all add: set_run_def update_conv')

lemma end_run_simps [simp]:
  "map_of (svRuns (end_run i r j sv)) = (map_of (svRuns sv))(i \<mapsto> r\<lparr>rnPc := Ended, rnLock := None, rnTerminal := True\<rparr>)"
  "map_of (svJobs (end_run i r j sv)) = (map_of (svJobs sv))(jbID j \<mapsto> j)"
  by (simp_all add: end_run_def)

lemma fold_publish:
  "js \<noteq> [] \<Longrightarrow> \<forall>j \<in> set js. jbID j = i \<Longrightarrow>
     map_of (svJobs (fold publishJob js sv)) = (map_of (svJobs sv))(i \<mapsto> last js)
     \<and> svRuns (fold publishJob js sv) = svRuns sv"
proof (induction js arbitrary: sv)
  case (Cons j js)
  then show ?case by (cases "js = []") auto
qed simp

text \<open>What a step does to the table of jobs: at most one entry changes, and never a terminal one.\<close>

lemma jobs_ok_put:
  assumes "jobs_ok sv" and "map_of (svJobs sv') = (map_of (svJobs sv))(i \<mapsto> j)"
    and "map_of (svRuns sv') = (map_of (svRuns sv))(i \<mapsto> r)"
    and "jbID j = i" "jbID (rnBase r) = i" "run_ok r j" "terminal j \<or> rnPc r \<noteq> Ended"
  shows "jobs_ok sv'"
  unfolding jobs_ok_def assms(2,3)
proof (intro conjI allI impI)
  fix k x
  assume "((map_of (svJobs sv))(i \<mapsto> j)) k = Some x"
  then show "jbID x = k" using assms(1,4) by (simp add: jobs_ok_def split: if_splits)
next
  fix k q
  assume "((map_of (svRuns sv))(i \<mapsto> r)) k = Some q"
  then show "jbID (rnBase q) = k" and "\<exists>x. ((map_of (svJobs sv))(i \<mapsto> j)) k = Some x \<and> run_ok q x"
    using assms(1,5,6) by (simp_all add: jobs_ok_def split: if_splits)
next
  fix k x
  assume "((map_of (svJobs sv))(i \<mapsto> j)) k = Some x" "\<not> terminal x"
  then show "\<exists>q. ((map_of (svRuns sv))(i \<mapsto> r)) k = Some q \<and> rnPc q \<noteq> Ended"
    using assms(1,7) by (simp add: jobs_ok_def split: if_splits)
qed

lemma jobs_ok_run:
  assumes "jobs_ok sv" and "map_of (svRuns sv) i = Some r"
  obtains j where "map_of (svJobs sv) i = Some j" "run_ok r j" "jbID j = i" "jbID (rnBase r) = i"
  using assms unfolding jobs_ok_def by blast

lemma jobs_ok_same:
  assumes "jobs_ok sv" and "map_of (svRuns sv) i = Some r" and "svJobs sv' = svJobs sv"
    and "map_of (svRuns sv') = (map_of (svRuns sv))(i \<mapsto> r')" and "jbID (rnBase r') = jbID (rnBase r)"
    and "\<And>j. run_ok r j \<Longrightarrow> run_ok r' j" and "rnPc r' = Ended \<longleftrightarrow> rnPc r = Ended"
  shows "jobs_ok sv'"
proof -
  obtain j where j: "map_of (svJobs sv) i = Some j" "run_ok r j" "jbID j = i" "jbID (rnBase r) = i"
    using assms(1,2) by (rule jobs_ok_run)
  have "terminal j \<or> rnPc r' \<noteq> Ended"
    using j(2) assms(7) by (auto simp: run_ok_def)
  moreover have "map_of (svJobs sv') = (map_of (svJobs sv))(i \<mapsto> j)" using assms(3) j(1) by (simp add: fun_upd_idem)
  ultimately show ?thesis
    using jobs_ok_put [OF assms(1) _ assms(4)] j assms(5,6) by simp
qed

lemma run_step_ok:
  assumes "jobs_ok sv" and "run_step env i sv sv'"
  shows "jobs_ok sv'"
  using assms(2)
proof (cases rule: run_stepE)
  case (start r)
  obtain j where j: "map_of (svJobs sv) i = Some j" "run_ok r j" "jbID (rnBase r) = i"
    using assms(1) start(2) by (rule jobs_ok_run)
  then show ?thesis using start
    by (intro jobs_ok_put [OF assms(1), of sv' i "(rnBase r)\<lparr>jbState := Fetching\<rparr>" "r\<lparr>rnPc := Executing\<rparr>"])
      (auto simp: run_ok_def)
next
  case (exec r b j)
  have "terminal j \<and> jbID j = jbID (rnBase r)" using exec(4) by (rule exec_task_terminal)
  then show ?thesis using exec
    by (intro jobs_ok_same [OF assms(1) exec(2), of sv' "r\<lparr>rnPc := Returned j\<rparr>"]) (auto simp: run_ok_def)
next
  case (lock r j)
  then show ?thesis
    by (intro jobs_ok_same [OF assms(1) lock(2), of sv' "r\<lparr>rnLock := Some Finisher\<rparr>"]) (auto simp: run_ok_def)
next
  case (finish r j)
  obtain k where k: "run_ok r k" "jbID (rnBase r) = i" using assms(1) finish(2) by (rule jobs_ok_run)
  then show ?thesis using finish
    by (intro jobs_ok_put [OF assms(1), of sv' i j "r\<lparr>rnPc := Ended, rnLock := None, rnTerminal := True\<rparr>"])
      (auto simp: run_ok_def)
qed

lemma tick_job_simps [simp]:
  "jbID (tick_job sv i r d t) = (if is_fill (rnTask r) then jbID (rnBase r) else jbID (currentJob sv i))"
  "jbState (tick_job sv i r d t) = Fetching"
  by (simp_all add: tick_job_def)

lemma tick_step_ok:
  assumes "jobs_ok sv" and "tick_step i sv sv'"
  shows "jobs_ok sv'"
  using assms(2)
proof (cases rule: tick_stepE)
  case (take_lock r d t)
  then show ?thesis
    by (intro jobs_ok_same [OF assms(1) take_lock(2), of sv' "r\<lparr>rnLock := Some (Ticker d t)\<rparr>"])
      (auto simp: run_ok_def split: run_pc.splits)
next
  case (tick r d t)
  obtain j where j: "map_of (svJobs sv) i = Some j" "run_ok r j" "jbID j = i" "jbID (rnBase r) = i"
    using assms(1) tick(2) by (rule jobs_ok_run)
  show ?thesis
  proof (cases "rnTerminal r")
    case True
    then show ?thesis using tick
      by (intro jobs_ok_same [OF assms(1) tick(2), of sv' "r\<lparr>rnLock := None\<rparr>"]) (auto simp: run_ok_def split: run_pc.splits)
  next
    case False
    then have "run_ok (r\<lparr>rnLock := None\<rparr>) (tick_job sv i r d t)" "rnPc r \<noteq> Ended"
      using j(2) tick(3) by (auto simp: run_ok_def split: run_pc.splits)
    moreover have "jbID (tick_job sv i r d t) = i" using j by (simp add: currentJob_def)
    ultimately show ?thesis using tick False j
      by (intro jobs_ok_put [OF assms(1), of sv' i "tick_job sv i r d t" "r\<lparr>rnLock := None\<rparr>"]) simp_all
  qed
qed

lemma admit_ok:
  assumes "jobs_ok sv" and "map_of (svJobs sv) i = None" and "admissible i a"
  shows "jobs_ok (fst (admit a sv))"
proof (cases a)
  case (Refuse e)
  then show ?thesis using assms(1) by (simp add: admit_def)
next
  case (Answer j)
  have "map_of (svRuns sv) i = None"
    using assms(1,2) by (cases "map_of (svRuns sv) i") (auto elim: jobs_ok_run)
  then show ?thesis using assms Answer by (auto simp: admit_def jobs_ok_def admissible_def)
next
  case (Launch js tk start)
  then have js: "js \<noteq> []" "\<forall>j \<in> set js. jbID j = i" "jbState (last js) = (if start then Waiting else Fetching)"
    using assms(3) by (auto simp: admissible_def)
  then have "jbID (last js) = i" by simp
  then show ?thesis using Launch js(3) fold_publish [OF js(1,2), of sv]
    by (intro jobs_ok_put [OF assms(1), of _ i "last js"
          "\<lparr>rnTask = tk, rnBase = last js, rnPc = (if start then Starting else Executing), rnLock = None, rnTerminal = False\<rparr>"])
      (auto simp: admit_def run_ok_def)
next
  case Hangs
  then show ?thesis using assms(1) by (simp add: admit_def)
qed

lemma jobs_ok_backend: "jobs_ok (sv\<lparr>svBackend := b\<rparr>) = jobs_ok sv"
  by (simp add: jobs_ok_def)

lemma server_step_ok:
  assumes "jobs_ok sv" and "server_step sv sv'"
  shows "jobs_ok sv'"
  using assms(2)
proof (cases rule: server_stepE)
  case (request i env a)
  then show ?thesis using admit_ok [OF assms(1)] handled_admissible by simp
next
  case (run env i)
  show ?thesis by (rule run_step_ok [OF assms(1) run])
next
  case (tick i)
  show ?thesis by (rule tick_step_ok [OF assms(1) tick])
next
  case (outside b)
  then show ?thesis using assms(1) by (simp add: jobs_ok_backend)
qed

interpretation server: step_system server_init server_step jobs_ok
proof
  show "server_init s \<Longrightarrow> jobs_ok s" for s by (simp add: server_init_def jobs_ok_def)
qed (rule server_step_ok)

subsection \<open>Ends are final\<close>

text \<open>A step of another job's goroutine or callback leaves a job alone.\<close>

lemma run_step_other:
  assumes "jobs_ok sv" and "run_step env k sv sv'" and "i \<noteq> k"
  shows "map_of (svJobs sv') i = map_of (svJobs sv) i \<and> map_of (svRuns sv') i = map_of (svRuns sv) i"
  using assms(2)
proof (cases rule: run_stepE)
  case (start r)
  have "jbID (rnBase r) = k" using assms(1) start(2) by (rule jobs_ok_run)
  then show ?thesis using start(1) assms(3) by simp
next
  case (finish r j)
  obtain x where "run_ok r x" "jbID (rnBase r) = k" using assms(1) finish(2) by (rule jobs_ok_run)
  then have "jbID j = k" using finish(3) by (simp add: run_ok_def)
  then show ?thesis using finish(1) assms(3) by simp
qed (use assms(3) in simp_all)

lemma tick_step_other:
  assumes "jobs_ok sv" and "tick_step k sv sv'" and "i \<noteq> k"
  shows "map_of (svJobs sv') i = map_of (svJobs sv) i \<and> map_of (svRuns sv') i = map_of (svRuns sv) i"
  using assms(2)
proof (cases rule: tick_stepE)
  case (tick r d t)
  obtain x where x: "map_of (svJobs sv) k = Some x" "jbID x = k" "jbID (rnBase r) = k"
    using assms(1) tick(2) by (rule jobs_ok_run)
  then have "jbID (tick_job sv k r d t) = k" by (simp add: currentJob_def)
  then show ?thesis using tick(1) assms(3) by simp
qed (use assms(3) in simp)

lemma admit_other:
  assumes "jobs_ok sv" and "map_of (svJobs sv) k = None" and "admissible k a" and "map_of (svJobs sv) i = Some j"
  shows "map_of (svJobs (fst (admit a sv))) i = Some j \<and> map_of (svRuns (fst (admit a sv))) i = map_of (svRuns sv) i"
proof (cases a)
  case (Launch js tk start)
  then have js: "js \<noteq> []" "\<forall>j \<in> set js. jbID j = k" using assms(3) by (auto simp: admissible_def)
  then have "jbID (last js) = k" by simp
  then show ?thesis using Launch fold_publish [OF js, of sv] assms(2,4) by (auto simp: admit_def)
qed (use assms in \<open>auto simp: admit_def admissible_def\<close>)

text \<open>No step of the goroutine or of a callback touches a job that has ended.\<close>

lemma terminal_run:
  assumes "jobs_ok sv" and "map_of (svJobs sv) i = Some j" and "terminal j" and "map_of (svRuns sv) i = Some r"
  shows "rnPc r = Ended \<and> rnTerminal r"
proof -
  have "run_ok r j" using assms(1,4,2) by (auto elim: jobs_ok_run)
  then show ?thesis using assms(3) by (auto simp: run_ok_def terminal_def split: run_pc.splits)
qed

lemma terminal_step:
  assumes "jobs_ok sv" and "server_step sv sv'" and "map_of (svJobs sv) i = Some j" and "terminal j"
  shows "map_of (svJobs sv') i = Some j"
  using assms(2)
proof (cases rule: server_stepE)
  case (request k env a)
  then show ?thesis using admit_other [OF assms(1) _ handled_admissible assms(3)] by simp
next
  case (run env k)
  have "k \<noteq> i"
  proof
    assume "k = i"
    then have "run_step env i sv sv'" using run by simp
    then show False by (cases rule: run_stepE) (auto dest!: terminal_run [OF assms(1,3,4)])
  qed
  then show ?thesis using run_step_other [OF assms(1) run, of i] assms(3) by simp
next
  case (tick k)
  show ?thesis
  proof (cases "k = i")
    case True
    show ?thesis using tick unfolding True
      by (cases rule: tick_stepE) (auto dest!: terminal_run [OF assms(1,3,4)] simp: assms(3))
  next
    case False
    then show ?thesis using tick_step_other [OF assms(1) tick, of i] assms(3) by simp
  qed
next
  case (outside b)
  then show ?thesis using assms(3) by simp
qed

text \<open>
  C22: the end of a job is final. Once a job is published as done or failed, no later step of the
  server, among them progress ticks that were called before the end and take the mutex after it, changes
  the job that readers get: never back to fetching, never another outcome.
\<close>

theorem terminal_forever:
  assumes "server_init sv0" and "server_step\<^sup>*\<^sup>* sv0 sv" and "handleJob sv i = Inr j" and "terminal j"
    and "server_step\<^sup>*\<^sup>* sv sv'"
  shows "handleJob sv' i = Inr j"
proof -
  have "jobs_ok sv" using assms(1,2) by (rule server.reachable_inv)
  have "map_of (svJobs sv') i = Some j \<and> jobs_ok sv'"
    using assms(5)
  proof (induction rule: rtranclp_induct)
    case base
    then show ?case using assms(3) \<open>jobs_ok sv\<close> by (simp add: handleJob_def split: option.splits)
  next
    case (step y z)
    then show ?case using terminal_step [of y z i j] assms(4) server_step_ok by blast
  qed
  then show ?thesis by (simp add: handleJob_def)
qed

subsection \<open>Jobs end\<close>

text \<open>The steps a run has left.\<close>

definition left_over :: "string \<Rightarrow> server \<Rightarrow> nat" where
  "left_over i sv =
     (case map_of (svRuns sv) i of
        None \<Rightarrow> 0
      | Some r \<Rightarrow>
        (case rnPc r of
           Starting \<Rightarrow> 4 | Executing \<Rightarrow> 3
         | Returned _ \<Rightarrow> if rnLock r = Some Finisher then 1 else 2
         | Ended \<Rightarrow> 0))"

lemma run_step_left:
  assumes "run_step env i sv sv'"
  shows "left_over i sv' < left_over i sv"
  using assms by (cases rule: run_stepE) (simp_all add: left_over_def)

lemma tick_step_left:
  assumes "tick_step i sv sv'"
  shows "left_over i sv' \<le> left_over i sv"
  using assms
proof (cases rule: tick_stepE)
  case (take_lock r d t)
  have "map_of (svRuns sv') i = Some (r\<lparr>rnLock := Some (Ticker d t)\<rparr>)" by (simp add: take_lock(1))
  then show ?thesis using take_lock(2,5) by (cases "rnPc r") (simp_all add: left_over_def)
next
  case (tick r d t)
  have "map_of (svRuns sv') i = Some (r\<lparr>rnLock := None\<rparr>)" by (simp add: tick(1))
  then show ?thesis using tick(2,3) by (cases "rnPc r") (simp_all add: left_over_def)
qed

lemma left_over_cong: "map_of (svRuns sv') i = map_of (svRuns sv) i \<Longrightarrow> left_over i sv' = left_over i sv"
  by (simp add: left_over_def)

lemma server_step_left:
  assumes "jobs_ok sv" and "server_step sv sv'" and "map_of (svJobs sv) i = Some j"
  shows "left_over i sv' \<le> left_over i sv \<and> (\<exists>j'. map_of (svJobs sv') i = Some j')"
  using assms(2)
proof (cases rule: server_stepE)
  case (request k env a)
  then show ?thesis using admit_other [OF assms(1) _ handled_admissible assms(3)] left_over_cong [of sv' i sv] by simp
next
  case (run env k)
  show ?thesis
  proof (cases "k = i")
    case True
    have "map_of (svJobs sv') i \<noteq> None"
      using run unfolding True by (cases rule: run_stepE) (auto simp: assms(3))
    then show ?thesis using run_step_left [of env i sv sv'] run True by auto
  next
    case False
    then show ?thesis using run_step_other [OF assms(1) run, of i] assms(3) left_over_cong [of sv' i sv] by simp
  qed
next
  case (tick k)
  show ?thesis
  proof (cases "k = i")
    case True
    have "map_of (svJobs sv') i \<noteq> None"
      using tick unfolding True by (cases rule: tick_stepE) (auto simp: assms(3))
    then show ?thesis using tick_step_left [of i sv sv'] tick True by auto
  next
    case False
    then show ?thesis using tick_step_other [OF assms(1) tick, of i] assms(3) left_over_cong [of sv' i sv] by simp
  qed
next
  case (outside b)
  then show ?thesis using assms(3) by (simp add: left_over_def)
qed

text \<open>A job that has not ended can go on: by its goroutine, or by the tick that holds the mutex.\<close>

lemma run_enabled:
  assumes "jobs_ok sv" and "map_of (svJobs sv) i = Some j" and "\<not> terminal j"
  shows "\<exists>sv'. run_step env i sv sv' \<or> tick_step i sv sv' \<and> (\<exists>sv''. run_step env i sv' sv'')"
proof -
  obtain r where r: "map_of (svRuns sv) i = Some r" "rnPc r \<noteq> Ended" using assms unfolding jobs_ok_def by blast
  show ?thesis
  proof (cases "rnPc r")
    case Starting
    then show ?thesis using run_step.start [OF r(1)] by blast
  next
    case Executing
    obtain b k where "exec_task env (rnBase r) (rnTask r) (svBackend sv) = (b, k)" by (metis surj_pair)
    then show ?thesis using run_step.exec [OF r(1) Executing] by blast
  next
    case (Returned t)
    show ?thesis
    proof (cases "locked (rnTask r)")
      case False
      then show ?thesis using run_step.finish_free [OF r(1) Returned] by blast
    next
      case l: True
      show ?thesis
      proof (cases "rnLock r")
        case None
        then show ?thesis using run_step.lock [OF r(1) Returned l] by blast
      next
        case (Some x)
        show ?thesis
        proof (cases x)
          case Finisher
          then show ?thesis using run_step.finish [OF r(1) Returned] Some by blast
        next
          case (Ticker d n)
          let ?sv = "set_run i (r\<lparr>rnLock := None\<rparr>) (if rnTerminal r then sv else publishJob (tick_job sv i r d n) sv)"
          have "tick_step i sv ?sv" using tick_step.tick [OF r(1)] Some Ticker by simp
          moreover have "run_step env i ?sv (set_run i (r\<lparr>rnLock := Some Finisher\<rparr>) ?sv)"
            using run_step.lock [of ?sv i "r\<lparr>rnLock := None\<rparr>" t env] Returned l by simp
          ultimately show ?thesis by blast
        qed
      qed
    qed
  qed (use r(2) in simp)
qed

lemma job_settles:
  assumes "server_init (\<sigma> 0)" and "\<And>n. server_step (\<sigma> n) (\<sigma> (Suc n))" and "handleJob (\<sigma> k) i = Inr j"
    and "\<And>n j. k \<le> n \<Longrightarrow> handleJob (\<sigma> n) i = Inr j \<Longrightarrow> \<not> terminal j \<Longrightarrow> \<exists>m \<ge> n. \<exists>env. run_step env i (\<sigma> m) (\<sigma> (Suc m))"
  shows "\<exists>n t. terminal t \<and> (\<forall>m \<ge> n. handleJob (\<sigma> m) i = Inr t)"
proof -
  have ok: "jobs_ok (\<sigma> n)" for n
    by (induction n) (use assms(1,2) server_step_ok server.init_inv in blast)+
  have at: "handleJob (\<sigma> n) i = Inr x \<longleftrightarrow> map_of (svJobs (\<sigma> n)) i = Some x" for n x
    by (simp add: handleJob_def split: option.splits)
  have later: "left_over i (\<sigma> (n + m)) \<le> left_over i (\<sigma> n) \<and> (\<exists>x. map_of (svJobs (\<sigma> (n + m))) i = Some x)"
    if "map_of (svJobs (\<sigma> n)) i = Some x" for n m x
  proof (induction m)
    case (Suc m)
    then obtain y where "map_of (svJobs (\<sigma> (n + m))) i = Some y" by blast
    then show ?case using server_step_left [OF ok assms(2), of "n + m" i y] Suc by auto
  qed (use that in auto)
  have "\<exists>n' \<ge> n. \<exists>t. terminal t \<and> map_of (svJobs (\<sigma> n')) i = Some t"
    if "k \<le> n" "map_of (svJobs (\<sigma> n)) i = Some x" "left_over i (\<sigma> n) = l" for n x l
    using that
  proof (induction l arbitrary: n x rule: less_induct)
    case (less l)
    show ?case
    proof (cases "terminal x")
      case True
      then show ?thesis using less.prems(2) by blast
    next
      case False
      then obtain m env where m: "n \<le> m" "run_step env i (\<sigma> m) (\<sigma> (Suc m))"
        using assms(4) [OF less.prems(1)] less.prems(2) at by blast
      obtain y where y: "map_of (svJobs (\<sigma> (Suc m))) i = Some y"
        using later [OF less.prems(2), of "Suc m - n"] m(1) by auto
      have "left_over i (\<sigma> (Suc m)) < l"
        using run_step_left [OF m(2)] later [OF less.prems(2), of "m - n"] m(1) less.prems(3) by simp
      from less.IH [OF this _ y] less.prems(1) m(1) show ?thesis by (meson le_SucI le_trans)
    qed
  qed
  then obtain n t where t: "terminal t" "map_of (svJobs (\<sigma> n)) i = Some t"
    using assms(3) at by blast
  have "map_of (svJobs (\<sigma> (n + m))) i = Some t" for m
    by (induction m) (use t terminal_step [OF ok assms(2)] in simp_all)
  then have "\<forall>m \<ge> n. handleJob (\<sigma> m) i = Inr t" using at by (metis le_add_diff_inverse)
  then show ?thesis using t(1) by blast
qed

text \<open>
  Fairness of a run of the server. An action that stays possible is taken, if it is weakly fair; one that becomes possible again
  and again is taken, if it is strongly fair.
\<close>

definition enabled :: "('s \<Rightarrow> 's \<Rightarrow> bool) \<Rightarrow> 's \<Rightarrow> bool" where
  "enabled act s \<longleftrightarrow> (\<exists>s'. act s s')"

definition weakly_fair :: "('s \<Rightarrow> 's \<Rightarrow> bool) \<Rightarrow> (nat \<Rightarrow> 's) \<Rightarrow> bool" where
  "weakly_fair act \<sigma> \<longleftrightarrow> (\<forall>n. (\<forall>m \<ge> n. enabled act (\<sigma> m)) \<longrightarrow> (\<exists>m \<ge> n. act (\<sigma> m) (\<sigma> (Suc m))))"

definition strongly_fair :: "('s \<Rightarrow> 's \<Rightarrow> bool) \<Rightarrow> (nat \<Rightarrow> 's) \<Rightarrow> bool" where
  "strongly_fair act \<sigma> \<longleftrightarrow>
     (\<forall>n. (\<forall>m \<ge> n. \<exists>l \<ge> m. enabled act (\<sigma> l)) \<longrightarrow> (\<exists>m \<ge> n. act (\<sigma> m) (\<sigma> (Suc m))))"

definition task_running :: "string \<Rightarrow> server \<Rightarrow> bool" where
  "task_running i sv \<longleftrightarrow> (\<exists>r. map_of (svRuns sv) i = Some r \<and> rnPc r = Executing)"

text \<open>
  The steps a scheduler owes a job: those of its goroutine other than the return of the task (to publish the start, to take the mutex,
  to publish the end), and the tick that holds the mutex going on to release it. That a task returns is not among them:
  an import waits on the network with no deadline.
\<close>

definition goroutine_step :: "string \<Rightarrow> server \<Rightarrow> server \<Rightarrow> bool" where
  "goroutine_step i sv sv' \<longleftrightarrow> \<not> task_running i sv \<and> (\<exists>env. run_step env i sv sv')"

definition release_step :: "string \<Rightarrow> server \<Rightarrow> server \<Rightarrow> bool" where
  "release_step i sv sv' \<longleftrightarrow>
     tick_step i sv sv' \<and> (\<exists>r d t. map_of (svRuns sv) i = Some r \<and> rnLock r = Some (Ticker d t))"

text \<open>What others do leaves the goroutine of a job where it is, and the end of the run in the mutex.\<close>

lemma server_step_pc:
  assumes "jobs_ok sv" and "server_step sv sv'" and "map_of (svRuns sv) i = Some r" and "\<And>env. \<not> run_step env i sv sv'"
  shows "\<exists>r'. map_of (svRuns sv') i = Some r' \<and> rnPc r' = rnPc r \<and> rnTask r' = rnTask r
    \<and> (rnLock r' = Some Finisher \<longleftrightarrow> rnLock r = Some Finisher)"
proof -
  obtain j where j: "map_of (svJobs sv) i = Some j" using assms(1,3) by (rule jobs_ok_run)
  show ?thesis
    using assms(2)
  proof (cases rule: server_stepE)
    case (request k env a)
    then show ?thesis using admit_other [OF assms(1) _ handled_admissible j] assms(3) by simp
  next
    case (run env k)
    then have "i \<noteq> k" using assms(4) by auto
    then show ?thesis using run_step_other [OF assms(1) run] assms(3) by simp
  next
    case (tick k)
    show ?thesis
    proof (cases "i = k")
      case True
      then show ?thesis using tick assms(3) by (auto elim!: tick_stepE)
    next
      case False
      then show ?thesis using tick_step_other [OF assms(1) tick] assms(3) by simp
    qed
  next
    case (outside b)
    then show ?thesis using assms(3) by simp
  qed
qed

lemma goroutine_enabled:
  assumes "map_of (svRuns sv) i = Some r" and "rnPc r \<noteq> Executing" "rnPc r \<noteq> Ended"
    and "\<not> locked (rnTask r) \<or> rnLock r = None \<or> rnLock r = Some Finisher \<or> rnPc r = Starting"
  shows "enabled (goroutine_step i) sv"
proof -
  have "\<exists>env sv'. run_step env i sv sv'"
  proof (cases "rnPc r")
    case Starting
    then show ?thesis using run_step.start [OF assms(1)] by blast
  next
    case (Returned t)
    then show ?thesis using assms(4) run_step.finish_free [OF assms(1) Returned] run_step.lock [OF assms(1) Returned]
        run_step.finish [OF assms(1) Returned] by (cases "locked (rnTask r)") auto
  qed (use assms(2,3) in simp_all)
  then show ?thesis using assms(1,2) by (auto simp: enabled_def goroutine_step_def task_running_def)
qed

lemma release_enabled: "map_of (svRuns sv) i = Some r \<Longrightarrow> rnLock r = Some (Ticker d t) \<Longrightarrow> enabled (release_step i) sv"
  using tick_step.tick [of sv i r d t] by (auto simp: enabled_def release_step_def)

lemma release_frees: "release_step i sv sv' \<Longrightarrow> \<exists>r. map_of (svRuns sv') i = Some r \<and> rnLock r = None"
  by (auto simp: release_step_def elim!: tick_stepE)

text \<open>A fair scheduler lets a run whose task has returned go on, in spite of the ticks that take its mutex.\<close>

lemma fair_step:
  assumes "\<And>m. n \<le> m \<Longrightarrow> jobs_ok (\<sigma> m)" and "\<And>m. server_step (\<sigma> m) (\<sigma> (Suc m))"
    and "strongly_fair (goroutine_step i) \<sigma>" and "weakly_fair (release_step i) \<sigma>"
    and "map_of (svRuns (\<sigma> n)) i = Some r" and "rnPc r \<noteq> Executing" "rnPc r \<noteq> Ended"
  shows "\<exists>m \<ge> n. \<exists>env. run_step env i (\<sigma> m) (\<sigma> (Suc m))"
proof (rule ccontr)
  assume stuck: "\<not> (\<exists>m \<ge> n. \<exists>env. run_step env i (\<sigma> m) (\<sigma> (Suc m)))"
  have same: "\<exists>r'. map_of (svRuns (\<sigma> (n + m))) i = Some r' \<and> rnPc r' = rnPc r \<and> rnTask r' = rnTask r
      \<and> (rnLock r' = Some Finisher \<longleftrightarrow> rnLock r = Some Finisher)" for m
  proof (induction m)
    case (Suc m)
    then obtain r' where r': "map_of (svRuns (\<sigma> (n + m))) i = Some r'" "rnPc r' = rnPc r" "rnTask r' = rnTask r"
      "rnLock r' = Some Finisher \<longleftrightarrow> rnLock r = Some Finisher" by blast
    have "\<exists>r''. map_of (svRuns (\<sigma> (Suc (n + m)))) i = Some r'' \<and> rnPc r'' = rnPc r' \<and> rnTask r'' = rnTask r'
      \<and> (rnLock r'' = Some Finisher \<longleftrightarrow> rnLock r' = Some Finisher)"
      by (rule server_step_pc [OF assms(1,2) r'(1)]) (use stuck in auto)
    then show ?case using r' by simp
  qed (use assms(5) in simp)
  have "\<exists>l \<ge> m. enabled (goroutine_step i) (\<sigma> l)" if "n \<le> m" for m
  proof (rule ccontr)
    assume never: "\<not> (\<exists>l \<ge> m. enabled (goroutine_step i) (\<sigma> l))"
    have held: "\<exists>q d t. map_of (svRuns (\<sigma> l)) i = Some q \<and> rnLock q = Some (Ticker d t)" if "m \<le> l" for l
    proof -
      have "n + (l - n) = l" using \<open>n \<le> m\<close> that by simp
      then obtain q where q: "map_of (svRuns (\<sigma> l)) i = Some q" "rnPc q = rnPc r"
        using same [of "l - n"] by metis
      then have "rnPc q \<noteq> Executing" "rnPc q \<noteq> Ended" using assms(6,7) by simp_all
      then have "\<not> (\<not> locked (rnTask q) \<or> rnLock q = None \<or> rnLock q = Some Finisher \<or> rnPc q = Starting)"
        using goroutine_enabled [OF q(1)] never that by blast
      then show ?thesis using q(1) by (metis mutex.exhaust option.exhaust)
    qed
    then have "\<forall>l \<ge> m. enabled (release_step i) (\<sigma> l)" using release_enabled by blast
    then obtain l where l: "m \<le> l" "release_step i (\<sigma> l) (\<sigma> (Suc l))"
      using assms(4) unfolding weakly_fair_def by blast
    then show False using release_frees [OF l(2)] held [of "Suc l"] by auto
  qed
  then have "\<exists>m \<ge> n. goroutine_step i (\<sigma> m) (\<sigma> (Suc m))"
    using assms(3) unfolding strongly_fair_def by blast
  then show False using stuck unfolding goroutine_step_def by blast
qed

text \<open>
  C23: a job ends exactly if its task returns. Take any infinite run of the server, whatever requests, ticks
  and other jobs do, under a scheduler that is fair: the goroutine of the job gets to take the mutex that is free again and again,
  and a tick that holds the mutex gets to release it. That the task returns is not assumed. If from some point on the task
  is running for ever (an import waits on the network without a deadline), the job that readers get stays fetching for ever;
  in every other case it is at some point published as done or failed, and stays so.
\<close>

theorem job_terminates:
  assumes "server_init (\<sigma> 0)" and "\<And>n. server_step (\<sigma> n) (\<sigma> (Suc n))" and "handleJob (\<sigma> k) i = Inr j"
    and "strongly_fair (goroutine_step i) \<sigma>" and "weakly_fair (release_step i) \<sigma>"
  shows "if \<exists>n. \<forall>m \<ge> n. task_running i (\<sigma> m)
    then \<exists>n. \<forall>m \<ge> n. \<exists>x. handleJob (\<sigma> m) i = Inr x \<and> jbState x = Fetching
    else \<exists>n t. terminal t \<and> (\<forall>m \<ge> n. handleJob (\<sigma> m) i = Inr t)"
proof -
  have ok: "jobs_ok (\<sigma> n)" for n
    by (induction n) (use assms(1,2) server_step_ok server.init_inv in blast)+
  have seen: "\<exists>x. handleJob sv i = Inr x \<and> jbState x = Fetching" if "task_running i sv" "jobs_ok sv" for sv
    using that by (auto simp: task_running_def run_ok_def handleJob_def elim!: jobs_ok_run [where i = i])
  show ?thesis
  proof (cases "\<exists>n. \<forall>m \<ge> n. task_running i (\<sigma> m)")
    case True
    then show ?thesis using seen ok by (simp, blast)
  next
    case often: False
    have "\<exists>m \<ge> n. \<exists>env. run_step env i (\<sigma> m) (\<sigma> (Suc m))"
      if "k \<le> n" and x: "handleJob (\<sigma> n) i = Inr x" "\<not> terminal x" for n x
    proof (rule ccontr)
      assume stuck: "\<not> (\<exists>m \<ge> n. \<exists>env. run_step env i (\<sigma> m) (\<sigma> (Suc m)))"
      obtain r where r: "map_of (svRuns (\<sigma> n)) i = Some r" "rnPc r \<noteq> Ended"
        using ok [of n] x unfolding jobs_ok_def handleJob_def by (fastforce split: option.splits)
      then have "rnPc r = Executing" using fair_step [OF ok assms(2,4,5) r(1)] stuck by blast
      then have "task_running i (\<sigma> n)" using r(1) by (auto simp: task_running_def)
      have "task_running i (\<sigma> m)" if "n \<le> m" for m
        using that
      proof (induction m rule: dec_induct)
        case (step m)
        then obtain q where "map_of (svRuns (\<sigma> m)) i = Some q" "rnPc q = Executing" by (auto simp: task_running_def)
        then show ?case using server_step_pc [OF ok assms(2), of m i q] stuck step(1) by (auto simp: task_running_def)
      qed (rule \<open>task_running i (\<sigma> n)\<close>)
      then show False using often by blast
    qed
    then have "\<exists>n t. terminal t \<and> (\<forall>m \<ge> n. handleJob (\<sigma> m) i = Inr t)" by (rule job_settles [OF assms(1,2,3)])
    then show ?thesis unfolding if_not_P [OF often] .
  qed
qed

subsection \<open>A life\<close>

text \<open>A server that verifies its store: the request, the run, the end, and nothing after.\<close>

definition life_base :: Job where
  "life_base = (new_job ''1'' 0 ''verify'')\<lparr>jbRef := ''all'', jbTarget := ''all'', jbState := Fetching\<rparr>"

definition life_run :: job_run where
  "life_run = \<lparr>rnTask = VerifyTask, rnBase = life_base, rnPc = Executing, rnLock = None, rnTerminal = False\<rparr>"

definition life_end :: Job where
  "life_end = run_verify demo_env life_base empty_store"

definition life :: "nat \<Rightarrow> server" where
  "life n =
     (let s0 = \<lparr>svBackend = demo_backend empty_store, svJobs = [], svRuns = []\<rparr>;
          s1 = fst (admit (handleVerify demo_env (demo_backend empty_store) ''1'' 0 (Some ''all'')) s0);
          r2 = life_run\<lparr>rnPc := Returned life_end\<rparr>;
          s2 = set_run ''1'' r2 s1 in
      if n = 0 then s0 else if n = 1 then s1 else if n = 2 then s2 else end_run ''1'' r2 life_end s2)"

lemma life_request:
  "handleVerify demo_env sv ''1'' 0 (Some ''all'') = Launch [(new_job ''1'' 0 ''verify'')\<lparr>jbRef := ''all'', jbTarget := ''all''\<rparr>, life_base] VerifyTask False"
  by (simp add: handleVerify_def verify_launch_def life_base_def Let_def)

lemma life_ids: "jbID life_base = ''1''" "jbState life_base = Fetching" "jbID life_end = ''1''" "terminal life_end"
  using run_verify_id [of demo_env life_base empty_store] by (auto simp: life_base_def life_end_def terminal_def)

lemma life_one: "map_of (svRuns (life 1)) ''1'' = Some life_run" "map_of (svJobs (life 1)) ''1'' = Some life_base"
  "svBackend (life 1) = demo_backend empty_store"
  using life_ids by (simp_all add: life_def Let_def life_request admit_def life_run_def)

lemma life_two: "life 2 = set_run ''1'' (life_run\<lparr>rnPc := Returned life_end\<rparr>) (life 1)"
  by (simp add: life_def Let_def)

lemma life_three: "n \<ge> 3 \<Longrightarrow> life n = end_run ''1'' (life_run\<lparr>rnPc := Returned life_end\<rparr>) life_end (life 2)"
  by (simp add: life_def Let_def)

lemma life_runs:
  "run_step demo_env ''1'' (life 1) (life 2)" "run_step demo_env ''1'' (life 2) (life 3)"
proof -
  have "exec_task demo_env (rnBase life_run) (rnTask life_run) (svBackend (life 1)) = (svBackend (life 1), life_end)"
    unfolding life_one(3) by (simp add: life_run_def exec_task_def life_end_def demo_backend_def)
  moreover have "rnPc life_run = Executing" "\<not> locked (rnTask life_run)" by (simp_all add: life_run_def)
  ultimately show "run_step demo_env ''1'' (life 1) (life 2)"
    using run_step.exec [OF life_one(1)] by (fastforce simp: life_two)
  have "map_of (svRuns (life 2)) ''1'' = Some (life_run\<lparr>rnPc := Returned life_end\<rparr>)" by (simp add: life_two)
  then show "run_step demo_env ''1'' (life 2) (life 3)"
    unfolding life_three [OF order_refl] by (rule run_step.finish_free) (simp_all add: life_run_def)
qed

lemma life_steps: "server_init (life 0)" "server_step (life n) (life (Suc n))"
proof -
  show "server_init (life 0)" by (simp add: life_def server_init_def)
  have "server_step (life 0) (life 1)"
  proof -
    have "handled demo_env (svBackend (life 0)) ''1'' (handleVerify demo_env (demo_backend empty_store) ''1'' 0 (Some ''all''))"
      using handled.verify [of demo_env "svBackend (life 0)"] by (simp add: life_def)
    then have "server_step (life 0) (fst (admit (handleVerify demo_env (demo_backend empty_store) ''1'' 0 (Some ''all'')) (life 0)))"
      by (intro server_step.request) (simp_all add: life_def)
    then show ?thesis by (simp add: life_def Let_def)
  qed
  moreover have "server_step (life 1) (life 2)" "server_step (life 2) (life 3)" using life_runs by (auto intro: server_step.run)
  moreover have "server_step (life n) (life (Suc n))" if "n \<ge> 3"
    using server_step.outside [of "life n" "svBackend (life n)"] that life_three [of n] life_three [of "Suc n"] by simp
  ultimately show "server_step (life n) (life (Suc n))"
    by (cases "n = 0"; cases "n = 1"; cases "n = 2") (auto simp: numeral_2_eq_2 numeral_3_eq_3)
qed

lemma life_done: "n \<ge> 3 \<Longrightarrow> handleJob (life n) ''1'' = Inr life_end"
  using life_ids by (simp add: life_three handleJob_def)

lemma life_rests:
  assumes "3 \<le> n"
  shows "\<not> task_running ''1'' (life n)" "\<not> enabled (goroutine_step ''1'') (life n)" "\<not> enabled (release_step ''1'') (life n)"
proof -
  have "map_of (svRuns (life n)) ''1'' = Some (life_run\<lparr>rnPc := Ended, rnLock := None, rnTerminal := True\<rparr>)"
    using assms by (simp add: life_three)
  then show "\<not> task_running ''1'' (life n)" "\<not> enabled (goroutine_step ''1'') (life n)" "\<not> enabled (release_step ''1'') (life n)"
    by (auto simp: task_running_def enabled_def goroutine_step_def release_step_def elim!: run_stepE)
qed

lemma life_fair: "strongly_fair (goroutine_step ''1'') life" "weakly_fair (release_step ''1'') life"
  unfolding strongly_fair_def weakly_fair_def using life_rests(2,3) by (meson nat_le_linear order_trans)+

lemma terminal_forever_witness: "handleJob (life 4) ''1'' = Inr life_end \<and> terminal life_end"
proof -
  have "server_step\<^sup>*\<^sup>* (life 0) (life n)" for n
    by (induction n) (use life_steps(2) in \<open>auto intro: rtranclp.rtrancl_into_rtrancl\<close>)
  moreover have "server_step\<^sup>*\<^sup>* (life 3) (life 4)"
    using life_steps(2) [of 3] by (simp add: eval_nat_numeral)
  ultimately show ?thesis
    using terminal_forever [OF life_steps(1) _ life_done [OF order_refl] life_ids(4)] life_ids(4) by blast
qed

lemma job_terminates_witness:
  "handleJob (life 1) ''1'' = Inr life_base \<and> \<not> terminal life_base
    \<and> (\<exists>n t. terminal t \<and> (\<forall>m \<ge> n. handleJob (life m) ''1'' = Inr t))"
proof -
  have one: "handleJob (life 1) ''1'' = Inr life_base" unfolding handleJob_def life_one(2) by simp
  have "\<not> (\<exists>n. \<forall>m \<ge> n. task_running ''1'' (life m))" using life_rests(1) by (meson nat_le_linear order_trans)
  then have "\<exists>n t. terminal t \<and> (\<forall>m \<ge> n. handleJob (life m) ''1'' = Inr t)"
    using job_terminates [OF life_steps one life_fair] by (simp only: if_False)
  then show ?thesis using one by (simp add: terminal_def life_base_def)
qed

end
