(* ===== verification/Runner.thy ===== *)
theory Runner
  imports Config Artifact
begin

text \<open>
  \<open>internal/runner/overlay.go\<close>, \<open>userconfig.go\<close> and the command line of \<open>llama.go\<close>: the configuration of
  a model runtime. Four layers of settings are checked and merged, and the merged settings become the
  flags of the runtime. JSON decoding is a parameter; a Go map is an association list with
  distinct keys, in the order the code happens to iterate over it.
\<close>

subsection \<open>Layers and keys\<close>

datatype Layer = LayerAdvisory | LayerUserConfig | LayerConfigFile | LayerSet

text \<open>The constants count from 0; a layer is below those that override it.\<close>

primrec layer_rank :: "Layer \<Rightarrow> nat" where
  "layer_rank LayerAdvisory = 0"
| "layer_rank LayerUserConfig = 1"
| "layer_rank LayerConfigFile = 2"
| "layer_rank LayerSet = 3"

lemma layer_rank_inject: "layer_rank a = layer_rank b \<Longrightarrow> a = b"
  by (cases a; cases b) simp_all

instantiation Layer :: linorder
begin

definition less_eq_Layer :: "Layer \<Rightarrow> Layer \<Rightarrow> bool" where
  "less_eq_Layer a b = (layer_rank a \<le> layer_rank b)"

definition less_Layer :: "Layer \<Rightarrow> Layer \<Rightarrow> bool" where
  "less_Layer a b = (layer_rank a < layer_rank b)"

instance
  by standard (auto simp: less_eq_Layer_def less_Layer_def layer_rank_inject)

end

record Spec =
  spKey :: string
  spFlag :: string
  spKind :: Kind

definition Allowlist :: "Spec list" where
  "Allowlist = map (\<lambda>(k, f, t). \<lparr>spKey = k, spFlag = f, spKind = t\<rparr>)
     [(''n_gpu_layers'', ''-ngl'', KindInt), (''ctx_size'', ''-c'', KindInt), (''n_threads'', ''-t'', KindInt),
      (''flash_attn'', ''-fa'', KindBool), (''mlock'', ''--mlock'', KindBool),
      (''kv_cache_type'', ''--cache-type-k'', KindString), (''batch_size'', ''-b'', KindInt),
      (''ubatch_size'', ''-ub'', KindInt), (''n_parallel'', ''-np'', KindInt), (''jinja'', ''--jinja'', KindBool),
      (''mmproj_variant'', [], KindString)]"

definition specFor :: "string \<Rightarrow> Spec option" where
  "specFor key = find (\<lambda>s. spKey s = key) Allowlist"

datatype runner_error =
    WantTrueFalse string string | WantInteger string string
  | MachineSpecific string | UnknownRuntimeKey string Layer | WrongKind string Layer Kind Kind
  | NotFlatObject | NonIntegral string | NotScalar string
  | AdvisoryBlob string | AdvisoryEntry string runner_error

subsection \<open>Reading the layers\<close>

text \<open>
  A decoded JSON value: a number is a \<open>float64\<close>, integral or not. \<open>conv\<close> is the conversion of an integral
  one to \<open>int64\<close>, of which the language says nothing outside the range.
\<close>

datatype json_any = JBool bool | JInt int | JFrac | JStr string | JOther

definition scalar_value :: "(int \<Rightarrow> int) \<Rightarrow> string \<times> json_any \<Rightarrow> runner_error + string \<times> Value" where
  "scalar_value conv = (\<lambda>(k, v).
     case v of
       JBool b \<Rightarrow> Inr (k, BoolVal b)
     | JInt n \<Rightarrow> Inr (k, IntVal (if is_int64 n then n else conv n))
     | JFrac \<Rightarrow> Inl (NonIntegral k)
     | JStr s \<Rightarrow> Inr (k, StrVal s)
     | JOther \<Rightarrow> Inl (NotScalar k))"

definition ParseScalars ::
  "(int \<Rightarrow> int) \<Rightarrow> (string \<Rightarrow> (string \<times> json_any) list option) \<Rightarrow> string \<Rightarrow> runner_error + section_map" where
  "ParseScalars conv dec b =
     (case dec b of None \<Rightarrow> Inl NotFlatObject | Some raw \<Rightarrow> list_res (scalar_value conv) raw)"

text \<open>\<open>for k, v := range sec { out[k] = v }\<close>\<close>

definition put_all_keys :: "section_map \<Rightarrow> section_map \<Rightarrow> section_map" where
  "put_all_keys sec out = fold (\<lambda>(k, v) m. AList.update k v m) sec out"

definition UserConfigOverlay :: "config_file \<Rightarrow> string \<Rightarrow> string \<Rightarrow> section_map" where
  "UserConfigOverlay f runtimeID shortRef =
     put_all_keys (sec_of f (''models.\"'' @ shortRef @ ''\".'' @ runtimeID))
       (put_all_keys (sec_of f (''runtimes.'' @ runtimeID)) [])"

definition DefaultSelector :: "config_file \<Rightarrow> string" where
  "DefaultSelector f =
     (case map_of (sec_of f ''references'') ''default_selector'' of
        None \<Rightarrow> []
      | Some v \<Rightarrow> if TrimSpace (vStr v) \<noteq> [] then vStr v else [])"

fun advisory_files ::
  "(string \<Rightarrow> runner_error + section_map) \<Rightarrow> (string \<Rightarrow> string option) \<Rightarrow> string \<Rightarrow> File list \<Rightarrow> section_map
     \<Rightarrow> runner_error + section_map" where
  "advisory_files parse rd runtimeID [] out = Inr out"
| "advisory_files parse rd runtimeID (f # fs) out =
     (if fKind f \<noteq> ''runtime-config'' \<or> fRuntime f \<noteq> runtimeID then advisory_files parse rd runtimeID fs out
      else case rd (TrimPrefix (fDigest f) ''sha256:'') of
             None \<Rightarrow> Inl (AdvisoryBlob (fDigest f))
           | Some b \<Rightarrow>
               (case parse b of
                  Inl e \<Rightarrow> Inl (AdvisoryEntry (fName f) e)
                | Inr obj \<Rightarrow> advisory_files parse rd runtimeID fs (put_all_keys obj out)))"

definition AdvisoryFromManifest ::
  "(string \<Rightarrow> runner_error + section_map) \<Rightarrow> (string \<Rightarrow> string option) \<Rightarrow> Manifest \<Rightarrow> string \<Rightarrow> runner_error + section_map" where
  "AdvisoryFromManifest parse rd m runtimeID = advisory_files parse rd runtimeID (mFiles m) []"

record Overlay =
  ovAdvisory :: section_map
  ovUserConfig :: section_map
  ovConfigFile :: section_map
  ovSets :: section_map
  ovSetOrder :: "string list"

definition guess_value :: "string \<Rightarrow> Value" where
  "guess_value raw =
     (if raw = ''true'' \<or> raw = ''false'' then BoolVal (raw = ''true'')
      else case ParseInt raw of Some n \<Rightarrow> IntVal n | None \<Rightarrow> StrVal raw)"

definition parseSetValue :: "string \<Rightarrow> string \<Rightarrow> runner_error + Value" where
  "parseSetValue key raw =
     (case map_option spKind (specFor key) of
        Some KindBool \<Rightarrow>
          if raw = ''true'' \<or> raw = ''false'' then Inr (BoolVal (raw = ''true'')) else Inl (WantTrueFalse key raw)
      | Some KindInt \<Rightarrow> (case ParseInt raw of Some n \<Rightarrow> Inr (IntVal n) | None \<Rightarrow> Inl (WantInteger key raw))
      | _ \<Rightarrow> Inr (guess_value raw))"

definition AddSet :: "string \<Rightarrow> string \<Rightarrow> Overlay \<Rightarrow> runner_error + Overlay" where
  "AddSet key raw ov =
     map_sum id (\<lambda>v. ov\<lparr>ovSets := AList.update key v (ovSets ov), ovSetOrder := ovSetOrder ov @ [key]\<rparr>) (parseSetValue key raw)"

subsection \<open>Merging\<close>

definition ov_layers :: "Overlay \<Rightarrow> (Layer \<times> section_map) list" where
  "ov_layers ov =
     [(LayerAdvisory, ovAdvisory ov), (LayerUserConfig, ovUserConfig ov), (LayerConfigFile, ovConfigFile ov),
      (LayerSet, ovSets ov)]"

text \<open>They are merged from the lowest layer to the highest.\<close>

lemma ov_layers_sorted: "sorted_wrt (<) (map fst (ov_layers ov))"
  by (simp add: ov_layers_def less_Layer_def)

text \<open>The advisory layer: the first known key that depends on the machine.\<close>

definition check_neutral :: "section_map \<Rightarrow> runner_error + unit" where
  "check_neutral m =
     (case find (\<lambda>(k, v). specFor k \<noteq> None \<and> k \<noteq> ''ctx_size'' \<and> k \<noteq> ''jinja'') m of
        Some (k, v) \<Rightarrow> Inl (MachineSpecific k)
      | None \<Rightarrow> Inr ())"

fun check_keys :: "Layer \<Rightarrow> section_map \<Rightarrow> string list \<Rightarrow> runner_error + unit" where
  "check_keys l m [] = Inr ()"
| "check_keys l m (k # ks) =
     (case specFor k of
        None \<Rightarrow> Inl (UnknownRuntimeKey k l)
      | Some s \<Rightarrow>
          let kind = vKind (case map_of m k of Some v \<Rightarrow> v | None \<Rightarrow> zero_value) in
          if kind \<noteq> spKind s then Inl (WrongKind k l (spKind s) kind) else check_keys l m ks)"

definition check_layer :: "Layer \<times> section_map \<Rightarrow> runner_error + unit" where
  "check_layer = (\<lambda>(l, m).
     bind_res (if l = LayerAdvisory then check_neutral m else Inr ()) (\<lambda>_. check_keys l m (sortedKeys m)))"

definition Merge :: "Overlay \<Rightarrow> runner_error + section_map" where
  "Merge ov =
     bind_res (list_res check_layer (ov_layers ov)) (\<lambda>_. Inr (fold (\<lambda>(_, m) acc. put_all_keys m acc) (ov_layers ov) []))"

subsection \<open>The command line\<close>

definition flag_args :: "Spec \<Rightarrow> Value option \<Rightarrow> string list" where
  "flag_args s v =
     (case v of
        None \<Rightarrow> []
      | Some v \<Rightarrow>
        if spFlag s = [] then []
        else case spKind s of
          KindBool \<Rightarrow> if vBool v then [spFlag s] else []
        | KindInt \<Rightarrow> [spFlag s, dec_int (vInt v)]
        | KindString \<Rightarrow> [spFlag s, vStr v])"

definition Argv :: "section_map \<Rightarrow> string list" where
  "Argv merged = concat (map (\<lambda>s. flag_args s (map_of merged (spKey s))) Allowlist)"

record SpawnRequest =
  sqBinary :: string
  sqWeights :: string
  sqArgv :: "string list"
  sqMmproj :: string
  sqRef :: string

definition spawn_argv :: "nat \<Rightarrow> SpawnRequest \<Rightarrow> string list" where
  "spawn_argv port req =
     [''--host'', ''127.0.0.1'', ''--port'', dec_nat port, ''-m'', sqWeights req] @ sqArgv req
     @ (if sqRef req \<noteq> [] then [''--alias'', sqRef req] else [])
     @ (if sqMmproj req \<noteq> [] then [''--mmproj'', sqMmproj req] else [])"

datatype binary_error = NoSuchBinary string | NoBinary

text \<open>\<open>plain p\<close>: \<open>p\<close> is there and no directory; \<open>exe\<close> is the directory of the program, \<open>onPath\<close> the search path's answer.\<close>

definition ResolveBinary ::
  "(string \<Rightarrow> string) \<Rightarrow> (string \<Rightarrow> bool) \<Rightarrow> string option \<Rightarrow> string option \<Rightarrow> binary_error + string" where
  "ResolveBinary env plain exe onPath =
     (let p = env ''SHARDR_LLAMA_SERVER'' in
      if p \<noteq> [] then if plain p then Inr p else Inl (NoSuchBinary p)
      else case map_option (\<lambda>d. Join [d, ''llama-server'']) exe of
             Some b \<Rightarrow> if plain b then Inr b else (case onPath of Some q \<Rightarrow> Inr q | None \<Rightarrow> Inl NoBinary)
           | None \<Rightarrow> (case onPath of Some q \<Rightarrow> Inr q | None \<Rightarrow> Inl NoBinary))"

subsection \<open>The highest layer wins\<close>

text \<open>A setting of a known key with a value of its kind; the settings in effect; the admissible overlays.\<close>

definition entry_ok :: "string \<times> Value \<Rightarrow> bool" where
  "entry_ok = (\<lambda>(k, v). \<exists>s. specFor k = Some s \<and> vKind v = spKind s)"

definition effective :: "Overlay \<Rightarrow> string \<rightharpoonup> Value" where
  "effective ov = map_of (ovAdvisory ov) ++ map_of (ovUserConfig ov) ++ map_of (ovConfigFile ov) ++ map_of (ovSets ov)"

definition overlay_ok :: "Overlay \<Rightarrow> bool" where
  "overlay_ok ov \<longleftrightarrow> (\<forall>(l, m) \<in> set (ov_layers ov). \<forall>kv \<in> set m. entry_ok kv)
     \<and> fst ` set (ovAdvisory ov) \<subseteq> {''ctx_size'', ''jinja''}"

definition distinct_layers :: "Overlay \<Rightarrow> bool" where
  "distinct_layers ov \<longleftrightarrow> (\<forall>(l, m) \<in> set (ov_layers ov). distinct (map fst m))"

lemma put_all_keys_map: "distinct (map fst m) \<Longrightarrow> map_of (put_all_keys m acc) = map_of acc ++ map_of m"
proof (induction m arbitrary: acc)
  case (Cons kv m)
  obtain k v where kv: "kv = (k, v)" by (cases kv)
  have n: "map_of m k = None" using Cons.prems by (simp add: kv map_of_eq_None_iff)
  have "map_of (put_all_keys (kv # m) acc) = map_of (put_all_keys m (AList.update k v acc))"
    by (simp add: put_all_keys_def kv)
  also have "\<dots> = (map_of acc)(k \<mapsto> v) ++ map_of m" using Cons by (simp add: update_conv')
  also have "\<dots> = map_of acc ++ map_of (kv # m)" using n by (auto simp: kv map_add_def split: option.splits)
  finally show ?case .
qed (simp add: put_all_keys_def)

lemma check_keys_Inr:
  "set ks \<subseteq> fst ` set m \<Longrightarrow> check_keys l m ks = Inr () \<longleftrightarrow> (\<forall>k \<in> set ks. \<exists>v. map_of m k = Some v \<and> entry_ok (k, v))"
proof (induction ks)
  case (Cons k ks)
  then obtain v where "map_of m k = Some v" by (cases "map_of m k") (auto simp: map_of_eq_None_iff)
  then show ?case using Cons by (auto simp: entry_ok_def Let_def split: option.splits)
qed simp

lemma sortedKeys_set: "set (sortedKeys m) = fst ` set m"
  by (simp add: sortedKeys_def)

lemma check_neutral_Inr:
  "check_neutral m = Inr () \<longleftrightarrow> (\<forall>k \<in> fst ` set m. specFor k \<noteq> None \<longrightarrow> k = ''ctx_size'' \<or> k = ''jinja'')"
proof -
  have "check_neutral m = Inr () \<longleftrightarrow> find (\<lambda>(k, v). specFor k \<noteq> None \<and> k \<noteq> ''ctx_size'' \<and> k \<noteq> ''jinja'') m = None"
    by (auto simp: check_neutral_def split: option.splits prod.splits)
  then show ?thesis by (auto simp: find_None_iff)
qed

lemma check_layer_Inr:
  assumes "distinct (map fst m)"
  shows "check_layer (l, m) = Inr () \<longleftrightarrow> (\<forall>kv \<in> set m. entry_ok kv)
    \<and> (l = LayerAdvisory \<longrightarrow> fst ` set m \<subseteq> {''ctx_size'', ''jinja''})"
proof -
  have keys: "check_keys l m (sortedKeys m) = Inr () \<longleftrightarrow> (\<forall>kv \<in> set m. entry_ok kv)"
  proof -
    have "(\<forall>k \<in> fst ` set m. \<exists>v. map_of m k = Some v \<and> entry_ok (k, v)) \<longleftrightarrow> (\<forall>kv \<in> set m. entry_ok kv)"
    proof
      assume a: "\<forall>k \<in> fst ` set m. \<exists>v. map_of m k = Some v \<and> entry_ok (k, v)"
      show "\<forall>kv \<in> set m. entry_ok kv"
      proof
        fix kv assume kv: "kv \<in> set m"
        then have "map_of m (fst kv) = Some (snd kv)" by (intro map_of_is_SomeI) (use assms in simp_all)
        then show "entry_ok kv" using a kv by (metis imageI option.inject prod.collapse)
      qed
    next
      assume "\<forall>kv \<in> set m. entry_ok kv"
      then show "\<forall>k \<in> fst ` set m. \<exists>v. map_of m k = Some v \<and> entry_ok (k, v)"
        using assms by (auto intro: map_of_is_SomeI)
    qed
    then show ?thesis by (simp add: check_keys_Inr sortedKeys_set)
  qed
  have known: "specFor k \<noteq> None" if "\<forall>kv \<in> set m. entry_ok kv" "k \<in> fst ` set m" for k
    using that by (auto simp: entry_ok_def)
  show ?thesis
  proof (cases "l = LayerAdvisory")
    case True
    then have "check_layer (l, m) = Inr () \<longleftrightarrow> check_neutral m = Inr () \<and> check_keys l m (sortedKeys m) = Inr ()"
      by (auto simp: check_layer_def bind_res_Inr)
    then show ?thesis using True keys known unfolding check_neutral_Inr by auto
  next
    case False
    then show ?thesis using keys by (simp add: check_layer_def)
  qed
qed

lemma list_res_all: "(\<exists>us. list_res f xs = Inr us) \<longleftrightarrow> (\<forall>x \<in> set xs. \<exists>u. f x = Inr u)"
  by (induction xs) (auto simp: bind_res_Inr)

text \<open>
  C32: the settings of a runtime. Four layers merge exactly when every key of every layer, shadowed or not,
  is a known one with a value of its kind and the publisher's layer has no setting of the machine; then each key has the value of the
  highest layer that sets it, and the runtime is started with exactly the flags of those settings, in the order
  of the table: nothing else of the layers, not even the order their keys are iterated in, reaches the command line.
\<close>

theorem Merge_precedence:
  assumes "distinct_layers ov"
  shows "((\<exists>m. Merge ov = Inr m) \<longleftrightarrow> overlay_ok ov)
    \<and> (\<forall>m. Merge ov = Inr m \<longrightarrow> map_of m = effective ov
        \<and> (\<forall>k v. effective ov k = Some v \<longrightarrow> entry_ok (k, v))
        \<and> Argv m = concat (map (\<lambda>s. flag_args s (effective ov (spKey s))) Allowlist))"
proof -
  let ?m = "fold (\<lambda>(_, m) acc. put_all_keys m acc) (ov_layers ov) []"
  have d: "distinct (map fst (ovAdvisory ov))" "distinct (map fst (ovUserConfig ov))"
    "distinct (map fst (ovConfigFile ov))" "distinct (map fst (ovSets ov))"
    using assms by (simp_all add: distinct_layers_def ov_layers_def)
  have m: "map_of ?m = effective ov"
    by (simp add: ov_layers_def effective_def put_all_keys_map d)
  have ok: "(\<exists>us. list_res check_layer (ov_layers ov) = Inr us) \<longleftrightarrow> overlay_ok ov"
  proof -
    have "(\<exists>us. list_res check_layer (ov_layers ov) = Inr us) \<longleftrightarrow> (\<forall>x \<in> set (ov_layers ov). check_layer x = Inr ())"
      unfolding list_res_all by simp
    also have "\<dots> \<longleftrightarrow> check_layer (LayerAdvisory, ovAdvisory ov) = Inr () \<and> check_layer (LayerUserConfig, ovUserConfig ov) = Inr ()
        \<and> check_layer (LayerConfigFile, ovConfigFile ov) = Inr () \<and> check_layer (LayerSet, ovSets ov) = Inr ()"
      by (simp add: ov_layers_def)
    also have "\<dots> \<longleftrightarrow> ((\<forall>kv \<in> set (ovAdvisory ov). entry_ok kv) \<and> fst ` set (ovAdvisory ov) \<subseteq> {''ctx_size'', ''jinja''})
        \<and> (\<forall>kv \<in> set (ovUserConfig ov). entry_ok kv) \<and> (\<forall>kv \<in> set (ovConfigFile ov). entry_ok kv) \<and> (\<forall>kv \<in> set (ovSets ov). entry_ok kv)"
      unfolding check_layer_Inr [OF d(1)] check_layer_Inr [OF d(2)] check_layer_Inr [OF d(3)] check_layer_Inr [OF d(4)]
      by (simp only: Layer.distinct simp_thms)
    also have "\<dots> \<longleftrightarrow> overlay_ok ov"
      unfolding overlay_ok_def ov_layers_def list.set ball_simps prod.case by (simp only: conj_ac ball_simps simp_thms)
    finally show ?thesis .
  qed
  have merge: "Merge ov = Inr x \<longleftrightarrow> overlay_ok ov \<and> x = ?m" for x
    unfolding ok [symmetric] by (auto simp: Merge_def bind_res_Inr)
  have "entry_ok (k, v)" if "overlay_ok ov" "effective ov k = Some v" for k v
  proof -
    have "(k, v) \<in> set (ovAdvisory ov) \<union> set (ovUserConfig ov) \<union> set (ovConfigFile ov) \<union> set (ovSets ov)"
      using that(2) unfolding effective_def by (auto simp: map_add_Some_iff dest: map_of_SomeD)
    then show ?thesis using that(1) by (auto simp: overlay_ok_def ov_layers_def)
  qed
  then show ?thesis using merge m by (auto simp: Argv_def)
qed

text \<open>A context size of the publisher, another one of the user, and a flag.\<close>

definition demo_overlay :: Overlay where
  "demo_overlay = \<lparr>ovAdvisory = [(''ctx_size'', IntVal 4)], ovUserConfig = [(''ctx_size'', IntVal 8)],
     ovConfigFile = [], ovSets = [(''mlock'', BoolVal True)], ovSetOrder = [''mlock'']\<rparr>"

lemma Merge_precedence_witness:
  "\<exists>m. Merge demo_overlay = Inr m \<and> Argv m = [''-c'', ''8'', ''--mlock'']"
proof -
  have d: "distinct_layers demo_overlay" by (simp add: distinct_layers_def ov_layers_def demo_overlay_def)
  have "specFor ''ctx_size'' = Some \<lparr>spKey = ''ctx_size'', spFlag = ''-c'', spKind = KindInt\<rparr>"
    "specFor ''mlock'' = Some \<lparr>spKey = ''mlock'', spFlag = ''--mlock'', spKind = KindBool\<rparr>" by code_simp+
  then have "entry_ok (''ctx_size'', IntVal n)" "entry_ok (''mlock'', BoolVal True)" for n
    by (simp_all add: entry_ok_def IntVal_def BoolVal_def)
  then have "overlay_ok demo_overlay" by (simp add: overlay_ok_def ov_layers_def demo_overlay_def)
  note p = Merge_precedence [OF d]
  have "\<exists>m. Merge demo_overlay = Inr m" by (rule iffD2 [OF conjunct1 [OF p]]) fact
  then obtain m where m: "Merge demo_overlay = Inr m" ..
  have argv: "Argv m = concat (map (\<lambda>s. flag_args s (effective demo_overlay (spKey s))) Allowlist)"
    by (rule conjunct2 [OF conjunct2 [OF conjunct2 [OF p, THEN spec, THEN mp, OF m]]])
  have e: "effective demo_overlay = (\<lambda>k. if k = ''mlock'' then Some (BoolVal True) else if k = ''ctx_size'' then Some (IntVal 8) else None)"
    by (auto simp: effective_def demo_overlay_def map_add_def)
  have "Argv m = [''-c'', ''8'', ''--mlock'']" unfolding argv e by code_simp
  then show ?thesis using m by blast
qed

text \<open>A JSON number outside the range of \<open>int64\<close> becomes whatever the platform makes of it.\<close>

lemma ParseScalars_wide:
  "dec b = Some [(''ctx_size'', JInt (10 ^ 300))] \<Longrightarrow> ParseScalars conv dec b = Inr [(''ctx_size'', IntVal (conv (10 ^ 300)))]"
  by (simp add: ParseScalars_def scalar_value_def is_int64_def)

end
