(* ===== verification/Instances.thy ===== *)
theory Instances
  imports Runner
begin

text \<open>
  \<open>internal/runner/registry.go\<close> and the supervision part of \<open>llama.go\<close>: the file of running instances,
  which several processes change under a lock file, the identity of a process, and how an
  instance is stopped without ever signalling another process. JSON is a parameter.
\<close>

subsection \<open>The registry file\<close>

record Instance =
  inID :: string
  inRef :: string
  inEndpoint :: string
  inPID :: int
  inStarted :: string
  inStartToken :: string
  inSplitDir :: string

datatype reg_error =
    RegRead | RegParse "int list" | AlreadyRunning string string | NoInstance string | RegIO | Crashed

text \<open>\<open>"pid":\s*(\d+)\<close>, found from left to right; numbers that do not fit or are not above 1 are dropped.\<close>

definition pid_mark :: string where "pid_mark = ''\"pid\":''"

definition re_space :: "char \<Rightarrow> bool" where
  "re_space c = (c \<in> {CHR '' '', CHR 0x09, CHR 0x0A, CHR 0x0C, CHR 0x0D})"

function salvagePIDs :: "string \<Rightarrow> int list" where
  "salvagePIDs s =
     (if s = [] then []
      else
        let rest = dropWhile re_space (drop (length pid_mark) s); ds = takeWhile is_digit rest in
        if HasPrefix s pid_mark \<and> ds \<noteq> []
        then (case ParseInt ds of
                Some n \<Rightarrow> if n > 1 then n # salvagePIDs (dropWhile is_digit rest) else salvagePIDs (dropWhile is_digit rest)
              | None \<Rightarrow> salvagePIDs (dropWhile is_digit rest))
        else salvagePIDs (tl s))"
  by pat_completeness auto

termination
proof (relation "measure length")
  show "wf (measure length)" by simp
qed (auto simp: pid_mark_def Let_def intro!: le_less_trans [OF length_dropWhile_le])

declare salvagePIDs.simps [simp del]

text \<open>\<open>enc\<close> and \<open>dec\<close> are the JSON library.\<close>

definition listLocked :: "(string \<Rightarrow> Instance list option) \<Rightarrow> file_read \<Rightarrow> reg_error + Instance list" where
  "listLocked dec f =
     (case f of
        FileMissing \<Rightarrow> Inr []
      | FileUnreadable \<Rightarrow> Inl RegRead
      | FileContent b \<Rightarrow>
          (case dec b of
             None \<Rightarrow> Inl (RegParse (salvagePIDs b))
           | Some l \<Rightarrow> Inr (sort_by (\<lambda>a b. inID a < inID b) l)))"

definition add_instance :: "Instance \<Rightarrow> Instance list \<Rightarrow> reg_error + Instance list" where
  "add_instance i l =
     (case find (\<lambda>e. inID e = inID i) l of
        Some e \<Rightarrow> Inl (AlreadyRunning (inID i) (inEndpoint i))
      | None \<Rightarrow> Inr (l @ [i]))"

definition remove_instance :: "string \<Rightarrow> Instance list \<Rightarrow> reg_error + Instance list" where
  "remove_instance i l = Inr (filter (\<lambda>e. inID e \<noteq> i) l)"

definition Find :: "(string \<Rightarrow> Instance list option) \<Rightarrow> file_read \<Rightarrow> string \<Rightarrow> reg_error + Instance" where
  "Find dec f i =
     bind_res (listLocked dec f) (\<lambda>l. case find (\<lambda>e. inID e = i) l of Some e \<Rightarrow> Inr e | None \<Rightarrow> Inl (NoInstance i))"

subsection \<open>Process identity\<close>

definition linuxBootTime :: "string option \<Rightarrow> string" where
  "linuxBootTime stat =
     (case stat of
        None \<Rightarrow> ''?''
      | Some s \<Rightarrow>
        (case find (\<lambda>ln. HasPrefix ln ''btime '') (split_on (CHR 0x0A) s) of
           Some ln \<Rightarrow> TrimSpace (TrimPrefix ln ''btime '')
         | None \<Rightarrow> ''?''))"

datatype token_error = NoBootTime | StatLayout | NoStartIdentity

text \<open>
  \<open>proc\<close> is the process's \<open>stat\<close> file, \<open>stat\<close> that of the system; \<open>darwin\<close> gives boot time and start on
  the other platform (an empty start if there is none).
\<close>

definition stat_field22 :: "string \<Rightarrow> string option" where
  "stat_field22 s =
     (case last_cut (CHR '')'') s of
        None \<Rightarrow> None
      | Some (_, b) \<Rightarrow>
          if b = [] then None
          else let fields = Fields (drop 1 b) in if length fields \<ge> 20 then Some (fields ! 19) else None)"

definition ProcessStartToken :: "string option \<Rightarrow> string option \<Rightarrow> string \<times> string \<Rightarrow> token_error + string" where
  "ProcessStartToken proc stat darwin =
     (case proc of
        Some s \<Rightarrow>
          (case stat_field22 s of
             None \<Rightarrow> Inl StatLayout
           | Some f \<Rightarrow>
               if linuxBootTime stat = ''?'' then Inl NoBootTime
               else Inr (''linux:'' @ linuxBootTime stat @ '':'' @ f))
      | None \<Rightarrow>
          if snd darwin = [] then Inl NoStartIdentity
          else Inr (''darwin:'' @ fst darwin @ '':'' @ snd darwin))"

definition StartIdentityOK :: "token_error + string \<Rightarrow> string \<Rightarrow> bool" where
  "StartIdentityOK live recorded = (case live of Inl _ \<Rightarrow> False | Inr t \<Rightarrow> recorded \<noteq> [] \<and> t = recorded)"

subsection \<open>Stopping a process\<close>

text \<open>The answer to a signal: accepted, no such process, or another error.\<close>

datatype sig_answer = Accepted | Gone | SigFailed

datatype unix_signal = SIGTERM | SIGKILL

datatype term_result = Stopped | RefusedTerm | TermFailed | RefusedKill | KillFailed

text \<open>
  What stopping meets, at instants counted from 0: the checks \<open>tvTerm\<close> and \<open>tvKill\<close>, the answers to signals,
  and the number of probes before the grace period is over. The signals sent come with their instant.
\<close>

record stop_env =
  tvTerm :: "nat \<Rightarrow> bool"
  tvKill :: "nat \<Rightarrow> bool"
  tvSignal :: "nat \<Rightarrow> sig_answer"
  tvPolls :: nat

definition terminateVerified :: "stop_env \<Rightarrow> (nat \<times> unix_signal) list \<times> term_result" where
  "terminateVerified env =
     (if \<not> tvTerm env 0 then ([], RefusedTerm)
      else case tvSignal env 0 of
        Gone \<Rightarrow> ([(0, SIGTERM)], Stopped)
      | SigFailed \<Rightarrow> ([(0, SIGTERM)], TermFailed)
      | Accepted \<Rightarrow>
          if list_ex (\<lambda>i. tvSignal env i = Gone) [1..<Suc (tvPolls env)] then ([(0, SIGTERM)], Stopped)
          else
            let t = Suc (tvPolls env) in
            if \<not> tvKill env t then ([(0, SIGTERM)], RefusedKill)
            else ([(0, SIGTERM), (t, SIGKILL)], if tvSignal env t = SigFailed then KillFailed else Stopped))"

subsection \<open>A process cannot choose its identity\<close>

text \<open>What stands between spaces in the kernel's line after the name.\<close>

definition stat_word :: "string \<Rightarrow> bool" where
  "stat_word w \<longleftrightarrow> w \<noteq> [] \<and> (\<forall>c \<in> set w. \<not> space_char c \<and> c \<noteq> CHR '')'')"

lemma Fields_word:
  assumes "stat_word w" and "list_all space_char a" and "b = [] \<or> space_char (hd b)"
  shows "Fields (a @ w @ b) = w # Fields b"
proof -
  have a: "dropWhile space_char (a @ x) = dropWhile space_char x" for x
    using assms(2) by (induction a) auto
  have w: "w \<noteq> []" "\<not> space_char (hd w)" "list_all (\<lambda>c. \<not> space_char c) w"
    using assms(1) by (auto simp: stat_word_def list_all_iff)
  then have d: "dropWhile space_char (a @ w @ b) = w @ b" unfolding a by (intro dropWhile_hd)
  have "takeWhile (\<lambda>c. \<not> space_char c) (w @ b) = w @ takeWhile (\<lambda>c. \<not> space_char c) b"
    using w(3) by (intro takeWhile_append2) (simp add: list_all_iff)
  moreover have "dropWhile (\<lambda>c. \<not> space_char c) (w @ b) = dropWhile (\<lambda>c. \<not> space_char c) b"
    using w(3) by (intro dropWhile_append2) (simp add: list_all_iff)
  moreover have "takeWhile (\<lambda>c. \<not> space_char c) b = []" "dropWhile (\<lambda>c. \<not> space_char c) b = b"
    using assms(3) by (cases b; simp)+
  ultimately have s: "takeWhile (\<lambda>c. \<not> space_char c) (w @ b) = w" "dropWhile (\<lambda>c. \<not> space_char c) (w @ b) = b"
    by simp_all
  have "w @ b \<noteq> []" using w(1) by simp
  then show ?thesis unfolding Fields.simps [of "a @ w @ b"] Let_def d s by (rule if_not_P)
qed

lemma Fields_spaces: "list_all space_char a \<Longrightarrow> Fields a = []"
proof -
  assume "list_all space_char a"
  then have "dropWhile space_char a = []" by (induction a) auto
  then show ?thesis by (subst Fields.simps) simp
qed

lemma Fields_join:
  assumes "\<forall>w \<in> set ws. stat_word w" and "list_all space_char z"
  shows "Fields (concat (map (\<lambda>w. '' '' @ w) ws) @ z) = ws"
  using assms(1)
proof (induction ws)
  case Nil
  then show ?case using assms(2) by (simp add: Fields_spaces)
next
  case (Cons w ws)
  let ?b = "concat (map (\<lambda>w. '' '' @ w) ws) @ z"
  have s: "space_char (CHR '' '')" by (simp add: space_char_def)
  have "?b = [] \<or> space_char (hd ?b)"
    using assms(2) s by (cases ws; cases z) auto
  then have "Fields ('' '' @ w @ ?b) = w # Fields ?b"
    using Cons.prems s by (intro Fields_word) simp_all
  then show ?case using Cons by simp
qed

text \<open>
  C31: the identity that guards every signal is the kernel's start time and nothing a process can
  choose: whatever the name of the program is, with parentheses, spaces and digits in it, the token read from
  the kernel's line is the 20th word after the name (field 22), with the boot time before it; without a boot
  time there is no token, and an empty recorded token is never confirmed.
\<close>

theorem start_token_unspoofable:
  assumes "\<forall>w \<in> set ws. stat_word w" and "length ws \<ge> 20" and "list_all space_char z" and "linuxBootTime stat \<noteq> ''?''"
  shows "ProcessStartToken (Some (pid @ '' ('' @ name @ '')'' @ concat (map (\<lambda>w. '' '' @ w) ws) @ z)) stat darwin
      = Inr (''linux:'' @ linuxBootTime stat @ '':'' @ ws ! 19)
    \<and> (StartIdentityOK (ProcessStartToken (Some (pid @ '' ('' @ name @ '')'' @ concat (map (\<lambda>w. '' '' @ w) ws) @ z)) stat darwin) recorded
        \<longleftrightarrow> recorded = ''linux:'' @ linuxBootTime stat @ '':'' @ ws ! 19)"
proof -
  let ?b = "concat (map (\<lambda>w. '' '' @ w) ws) @ z"
  have paren: "\<not> space_char (CHR '')'')" by (simp add: space_char_def)
  have "CHR '')'' \<notin> set ?b"
  proof
    assume "CHR '')'' \<in> set ?b"
    moreover have "CHR '')'' \<notin> set z" using assms(3) paren unfolding list_all_iff by blast
    moreover have "CHR '')'' \<notin> set ('' '' @ w)" if "w \<in> set ws" for w
      using assms(1) that by (auto simp: stat_word_def)
    ultimately show False by (auto simp: set_concat split: if_splits)
  qed
  then have cut: "last_cut (CHR '')'') (pid @ '' ('' @ name @ '')'' @ ?b) = Some (pid @ '' ('' @ name, ?b)"
    by (simp add: last_cut_Some)
  obtain w ws' where ws: "ws = w # ws'" using assms(2) by (cases ws) auto
  have F: "Fields (drop 1 ?b) = ws"
  proof -
    let ?r = "concat (map (\<lambda>w. '' '' @ w) ws') @ z"
    have s: "space_char (CHR '' '')" by (simp add: space_char_def)
    have "?r = [] \<or> space_char (hd ?r)" using assms(3) s by (cases ws'; cases z) auto
    then have "Fields ([] @ w @ ?r) = w # Fields ?r" using assms(1) ws by (intro Fields_word) simp_all
    moreover have "Fields ?r = ws'" using assms(1,3) ws by (intro Fields_join) auto
    ultimately show ?thesis by (simp add: ws)
  qed
  have B: "?b \<noteq> []" by (simp add: ws)
  have "stat_field22 (pid @ '' ('' @ name @ '')'' @ ?b) = Some (ws ! 19)"
    by (simp only: stat_field22_def cut option.case prod.case Let_def F B assms(2) if_False if_True simp_thms)
  then show ?thesis using assms(4) by (auto simp: ProcessStartToken_def StartIdentityOK_def)
qed

text \<open>A program named \<open>a) 9 (\<close>.\<close>

lemma start_token_unspoofable_witness:
  "ProcessStartToken (Some (''7 (a) 9 ()'' @ concat (map (\<lambda>w. '' '' @ w) (replicate 19 ''0'' @ [''42''])) @ [CHR 0x0A]))
     (Some (''cpu 1'' @ [CHR 0x0A] @ ''btime 99'')) ([], []) = Inr ''linux:99:42''"
proof -
  have b: "linuxBootTime (Some (''cpu 1'' @ [CHR 0x0A] @ ''btime 99'')) = ''99''" by code_simp
  have w: "\<forall>w \<in> set (replicate 19 ''0'' @ [''42'']). stat_word w"
    by (auto simp: stat_word_def space_char_def)
  have n: "length (replicate 19 ''0'' @ [''42'']) \<ge> 20" by simp
  have z: "list_all space_char [CHR 0x0A]" by (simp add: space_char_def)
  have e: "''7 (a) 9 ()'' = ''7'' @ '' ('' @ ''a) 9 ('' @ '')''" by simp
  have "(replicate 19 ''0'' @ [''42'']) ! 19 = ''42''" by (simp add: nth_append)
  then show ?thesis
    using start_token_unspoofable [OF w n z, of "Some (''cpu 1'' @ [CHR 0x0A] @ ''btime 99'')" "''7''" "''a) 9 (''" "([], [])"] b
    unfolding e by simp
qed

subsection \<open>Stopping signals only the recorded process\<close>

text \<open>
  A process number may be reused at any instant, and stopping still signals only the process that was
  recorded: \<open>who t\<close> is the identity of whatever runs under the number at instant \<open>t\<close>, and each signal
  goes out at an instant where it is the recorded one. \<open>SIGKILL\<close> is sent only at the end of the grace period,
  to a process no probe found gone; and one that took \<open>SIGTERM\<close> and is still there and ours at the
  end gets it.
\<close>

lemma stop_signals_only_ours:
  assumes "\<forall>t. tvTerm env t \<longrightarrow> StartIdentityOK (who t) recorded"
    and "\<forall>t. tvKill env t \<longrightarrow> StartIdentityOK (who t) recorded"
  shows "(\<forall>(t, sig) \<in> set (fst (terminateVerified env)).
            who t = Inr recorded
          \<and> (sig = SIGKILL \<longrightarrow> t = Suc (tvPolls env) \<and> (\<forall>i. 1 \<le> i \<and> i \<le> tvPolls env \<longrightarrow> tvSignal env i \<noteq> Gone)))
       \<and> ((t, SIGKILL) \<in> set (fst (terminateVerified env)) \<longleftrightarrow>
            t = Suc (tvPolls env) \<and> tvTerm env 0 \<and> tvSignal env 0 = Accepted
          \<and> (\<forall>i. 1 \<le> i \<and> i \<le> tvPolls env \<longrightarrow> tvSignal env i \<noteq> Gone) \<and> tvKill env t)"
proof -
  have ours: "StartIdentityOK (who t) recorded \<Longrightarrow> who t = Inr recorded" for t
    by (auto simp: StartIdentityOK_def split: sum.splits)
  have polls: "list_ex (\<lambda>i. tvSignal env i = Gone) [1..<Suc (tvPolls env)]
      \<longleftrightarrow> (\<exists>i. 1 \<le> i \<and> i \<le> tvPolls env \<and> tvSignal env i = Gone)"
    by (auto simp: list_ex_iff)
  show ?thesis
    unfolding terminateVerified_def polls Let_def
    using assms ours by (auto split: sig_answer.splits)
qed

text \<open>The process ignores \<open>SIGTERM\<close>; then the same, and it dies and its number is reused before the end.\<close>

definition stubborn :: stop_env where
  "stubborn = \<lparr>tvTerm = \<lambda>_. True, tvKill = \<lambda>_. True, tvSignal = \<lambda>_. Accepted, tvPolls = 2\<rparr>"

definition reused :: stop_env where
  "reused = \<lparr>tvTerm = \<lambda>t. t < 3, tvKill = \<lambda>t. t < 3, tvSignal = \<lambda>_. Accepted, tvPolls = 2\<rparr>"

lemma stop_signals_only_ours_witness:
  "(3, SIGKILL) \<in> set (fst (terminateVerified stubborn)) \<and> (3, SIGKILL) \<notin> set (fst (terminateVerified reused))"
proof
  have "\<forall>t. tvTerm stubborn t \<longrightarrow> StartIdentityOK (Inr ''linux:9:1'') ''linux:9:1''"
    "\<forall>t. tvKill stubborn t \<longrightarrow> StartIdentityOK (Inr ''linux:9:1'') ''linux:9:1''"
    by (simp_all add: StartIdentityOK_def)
  note * = stop_signals_only_ours [of stubborn "\<lambda>_. Inr ''linux:9:1''", OF this, of 3]
  show "(3, SIGKILL) \<in> set (fst (terminateVerified stubborn))"
    using * unfolding stubborn_def by simp
next
  have "\<forall>t. tvTerm reused t \<longrightarrow> StartIdentityOK (if t < 3 then Inr ''linux:9:1'' else Inr ''linux:9:8'') ''linux:9:1''"
    "\<forall>t. tvKill reused t \<longrightarrow> StartIdentityOK (if t < 3 then Inr ''linux:9:1'' else Inr ''linux:9:8'') ''linux:9:1''"
    by (simp_all add: StartIdentityOK_def reused_def)
  note * = stop_signals_only_ours [of reused "\<lambda>t. if t < 3 then Inr ''linux:9:1'' else Inr ''linux:9:8''", OF this, of 3]
  show "(3, SIGKILL) \<notin> set (fst (terminateVerified reused))"
    using * unfolding reused_def by simp
qed

end
