(* ===== verification/Registry.thy ===== *)
theory Registry
  imports Instances
begin

text \<open>
  \<open>Registry.Add\<close> and \<open>Registry.Remove\<close> as processes really run them: in steps that interleave, under the
  exclusive lock of a side file that the kernel drops when its holder dies, with a crash possible between any
  two steps, and the file replaced by one rename. They refine atomic operations on a map.
\<close>

subsection \<open>What the registry promises\<close>

datatype reg_op = AddOp Instance | RemoveOp string

text \<open>An identifier is taken by at most one instance; an operation that is not allowed has no result.\<close>

definition spec_op :: "reg_op \<Rightarrow> (string \<rightharpoonup> Instance) \<Rightarrow> (string \<rightharpoonup> Instance) option" where
  "spec_op r m =
     (case r of
        AddOp i \<Rightarrow> if m (inID i) = None then Some (m(inID i \<mapsto> i)) else None
      | RemoveOp k \<Rightarrow> Some (m(k := None)))"

fun spec_ops :: "reg_op list \<Rightarrow> (string \<rightharpoonup> Instance) \<Rightarrow> (string \<rightharpoonup> Instance) option" where
  "spec_ops [] m = Some m"
| "spec_ops (r # rs) m = (case spec_op r m of None \<Rightarrow> None | Some m' \<Rightarrow> spec_ops rs m')"

lemma spec_ops_snoc: "spec_ops (rs @ [r]) m = Option.bind (spec_ops rs m) (spec_op r)"
  by (induction rs arbitrary: m) (auto split: option.splits)

text \<open>The instances of a list by their identifier.\<close>

definition view :: "Instance list \<Rightarrow> string \<rightharpoonup> Instance" where
  "view l = map_of (map (\<lambda>i. (inID i, i)) l)"

definition distinct_ids :: "Instance list \<Rightarrow> bool" where
  "distinct_ids l = distinct (map inID l)"

subsection \<open>The critical section\<close>

definition apply_op :: "reg_op \<Rightarrow> Instance list \<Rightarrow> reg_error + Instance list" where
  "apply_op r l = (case r of AddOp i \<Rightarrow> add_instance i l | RemoveOp k \<Rightarrow> remove_instance k l)"

text \<open>
  A process waits for the lock, holds it, has the changed list in memory, has renamed the new file into place,
  or has ended.
\<close>

datatype reg_pc = Waiting | Holding | Editing "Instance list" | Renamed | Ended "reg_error + unit"

record reg_state =
  rsFile :: file_read
  rsLock :: "nat option"
  rsPc :: "nat \<Rightarrow> reg_pc"
  rsLog :: "nat list"

text \<open>The end of a process, orderly or not, closes the lock file.\<close>

definition end_op :: "nat \<Rightarrow> reg_error + unit \<Rightarrow> reg_state \<Rightarrow> reg_state" where
  "end_op p r s = s\<lparr>rsLock := (if rsLock s = Some p then None else rsLock s), rsPc := (rsPc s)(p := Ended r)\<rparr>"

inductive reg_step ::
  "(Instance list \<Rightarrow> string) \<Rightarrow> (string \<Rightarrow> Instance list option) \<Rightarrow> (nat \<Rightarrow> reg_op) \<Rightarrow> reg_state \<Rightarrow> reg_state \<Rightarrow> bool"
  for enc dec op where
  no_lock: "rsPc s p = Waiting \<Longrightarrow> reg_step enc dec op s (end_op p (Inl RegIO) s)"
| lock: "rsPc s p = Waiting \<Longrightarrow> rsLock s = None \<Longrightarrow>
    reg_step enc dec op s (s\<lparr>rsLock := Some p, rsPc := (rsPc s)(p := Holding)\<rparr>)"
| unreadable: "rsPc s p = Holding \<Longrightarrow> reg_step enc dec op s (end_op p (Inl RegRead) s)"
| refuse: "rsPc s p = Holding \<Longrightarrow> bind_res (listLocked dec (rsFile s)) (apply_op (op p)) = Inl e \<Longrightarrow>
    reg_step enc dec op s (end_op p (Inl e) s)"
| edit: "rsPc s p = Holding \<Longrightarrow> bind_res (listLocked dec (rsFile s)) (apply_op (op p)) = Inr l \<Longrightarrow>
    reg_step enc dec op s (s\<lparr>rsPc := (rsPc s)(p := Editing l)\<rparr>)"
| write_failed: "rsPc s p = Editing l \<Longrightarrow> reg_step enc dec op s (end_op p (Inl RegIO) s)"
| rename: "rsPc s p = Editing l \<Longrightarrow>
    reg_step enc dec op s (s\<lparr>rsFile := FileContent (enc l), rsPc := (rsPc s)(p := Renamed), rsLog := rsLog s @ [p]\<rparr>)"
| return: "rsPc s p = Renamed \<Longrightarrow> reg_step enc dec op s (end_op p (Inr ()) s)"
| crash: "(\<forall>r. rsPc s p \<noteq> Ended r) \<Longrightarrow> reg_step enc dec op s (end_op p (Inl Crashed) s)"

definition reg_init :: reg_state where
  "reg_init = \<lparr>rsFile = FileMissing, rsLock = None, rsPc = (\<lambda>_. Waiting), rsLog = []\<rparr>"

subsection \<open>One operation against its promise\<close>

lemma distinct_ids_cong: "mset l = mset l' \<Longrightarrow> distinct_ids l = distinct_ids l'"
  unfolding distinct_ids_def by (metis mset_eq_imp_distinct_iff mset_map)

lemma view_cong:
  assumes "mset l = mset l'" and "distinct_ids l"
  shows "view l = view l'"
proof -
  have "distinct_ids l'" using assms distinct_ids_cong by blast
  then show ?thesis
    using assms mset_eq_setD [OF assms(1)] unfolding view_def distinct_ids_def
    by (subst map_of_inject_set) (simp_all add: comp_def)
qed

lemma view_None: "view l k = None \<longleftrightarrow> k \<notin> inID ` set l"
  by (auto simp: view_def map_of_eq_None_iff image_image)

lemma apply_op_refines:
  assumes "apply_op r l = Inr l'" and "distinct_ids l"
  shows "distinct_ids l' \<and> spec_op r (view l) = Some (view l')"
proof (cases r)
  case (AddOp i)
  then have f: "find (\<lambda>e. inID e = inID i) l = None" and l': "l' = l @ [i]"
    using assms(1) by (auto simp: apply_op_def add_instance_def split: option.splits)
  have n: "inID i \<notin> inID ` set l" using f by (auto simp: find_None_iff)
  then have "distinct_ids l'" using assms(2) l' by (simp add: distinct_ids_def)
  moreover have "view l' = (view l)(inID i \<mapsto> i)"
  proof -
    have "view l' = view (i # l)" using \<open>distinct_ids l'\<close> l' by (intro view_cong) simp_all
    then show ?thesis by (simp add: view_def)
  qed
  ultimately show ?thesis using n by (simp add: AddOp spec_op_def view_None)
next
  case (RemoveOp k)
  then have l': "l' = filter (\<lambda>e. inID e \<noteq> k) l"
    using assms(1) by (simp add: apply_op_def remove_instance_def)
  have "distinct_ids l'" using assms(2) unfolding l' distinct_ids_def by (rule distinct_map_filter)
  moreover have "view l' = (view l)(k := None)"
    unfolding l' by (induction l) (auto simp: view_def)
  ultimately show ?thesis by (simp add: RemoveOp spec_op_def)
qed

subsection \<open>No registration is lost\<close>

definition busy :: "reg_pc \<Rightarrow> bool" where
  "busy c \<longleftrightarrow> c = Holding \<or> (\<exists>l. c = Editing l) \<or> c = Renamed"

lemma busy_simps [simp]:
  "\<not> busy Waiting" "busy Holding" "busy (Editing l)" "busy Renamed" "\<not> busy (Ended r)"
  by (simp_all add: busy_def)

text \<open>\<open>good\<close>: the instances the JSON library writes and reads back unchanged.\<close>

definition stored :: "(string \<Rightarrow> Instance list option) \<Rightarrow> (nat \<Rightarrow> reg_op) \<Rightarrow> (Instance \<Rightarrow> bool) \<Rightarrow> reg_state \<Rightarrow> bool" where
  "stored dec op good s \<longleftrightarrow>
     (\<exists>l. listLocked dec (rsFile s) = Inr l \<and> distinct_ids l \<and> (\<forall>i \<in> set l. good i)
        \<and> spec_ops (map op (rsLog s)) Map.empty = Some (view l))"

definition exclusive :: "(string \<Rightarrow> Instance list option) \<Rightarrow> (nat \<Rightarrow> reg_op) \<Rightarrow> reg_state \<Rightarrow> bool" where
  "exclusive dec op s \<longleftrightarrow>
     (\<forall>p. rsLock s = Some p \<longleftrightarrow> busy (rsPc s p))
   \<and> (\<forall>p l. rsPc s p = Editing l \<longrightarrow> bind_res (listLocked dec (rsFile s)) (apply_op (op p)) = Inr l)"

definition logged :: "reg_state \<Rightarrow> bool" where
  "logged s \<longleftrightarrow> distinct (rsLog s)
     \<and> (\<forall>p. p \<in> set (rsLog s) \<longrightarrow> rsPc s p \<in> {Renamed, Ended (Inr ()), Ended (Inl Crashed)})
     \<and> (\<forall>p. rsPc s p \<in> {Renamed, Ended (Inr ())} \<longrightarrow> p \<in> set (rsLog s))"

lemma exclusive_only: "exclusive dec op s \<Longrightarrow> busy (rsPc s p) \<Longrightarrow> busy (rsPc s q) \<Longrightarrow> q = p"
  unfolding exclusive_def by (metis option.inject)

lemma end_op_keeps:
  assumes "stored dec op good s" "exclusive dec op s" "logged s" and "\<forall>r. rsPc s p \<noteq> Ended r"
    and "r = Inr () \<longleftrightarrow> rsPc s p = Renamed \<and> r \<noteq> Inl Crashed"
  shows "stored dec op good (end_op p r s) \<and> exclusive dec op (end_op p r s) \<and> logged (end_op p r s)"
proof (intro conjI)
  show "stored dec op good (end_op p r s)" using assms(1) by (simp add: stored_def end_op_def)
  show "exclusive dec op (end_op p r s)"
    using assms(2) exclusive_only [OF assms(2)] by (auto simp: exclusive_def end_op_def)
  show "logged (end_op p r s)"
    using assms(3-5) by (auto simp: logged_def end_op_def)
qed

lemma rename_keeps:
  assumes s: "stored dec op good s" and x: "exclusive dec op s" and g: "logged s" and pc: "rsPc s p = Editing l"
    and json: "\<And>l. \<forall>i \<in> set l. good i \<Longrightarrow> dec (enc l) = Some l" and ops: "\<And>p i. op p = AddOp i \<Longrightarrow> good i"
    and s': "s' = s\<lparr>rsFile := FileContent (enc l), rsPc := (rsPc s)(p := Renamed), rsLog := rsLog s @ [p]\<rparr>"
  shows "stored dec op good s' \<and> exclusive dec op s' \<and> logged s'"
proof (intro conjI)
  obtain l0 where l0: "listLocked dec (rsFile s) = Inr l0" "distinct_ids l0" "\<forall>i \<in> set l0. good i"
      "spec_ops (map op (rsLog s)) Map.empty = Some (view l0)"
    using s by (auto simp: stored_def)
  have a: "apply_op (op p) l0 = Inr l" using x pc l0(1) by (auto simp: exclusive_def)
  note r = apply_op_refines [OF a l0(2)]
  have "\<forall>i \<in> set l. good i"
    using a l0(3) ops [of p]
    by (auto simp: apply_op_def add_instance_def remove_instance_def split: reg_op.splits option.splits)
  then have "listLocked dec (rsFile s') = Inr (sort_by (\<lambda>a b. inID a < inID b) l)"
    using json by (simp add: s' listLocked_def)
  moreover have "mset (sort_by (\<lambda>a b. inID a < inID b) l) = mset l" by simp
  ultimately have "distinct_ids (sort_by (\<lambda>a b. inID a < inID b) l)"
      "view (sort_by (\<lambda>a b. inID a < inID b) l) = view l"
    using r view_cong distinct_ids_cong by blast+
  moreover have "spec_ops (map op (rsLog s')) Map.empty = Some (view l)"
    using r l0(4) by (simp add: s' spec_ops_snoc)
  ultimately show "stored dec op good s'"
    using \<open>listLocked dec (rsFile s') = _\<close> \<open>\<forall>i \<in> set l. good i\<close> unfolding stored_def
    by (intro exI [of _ "sort_by (\<lambda>a b. inID a < inID b) l"]) simp
  have b: "rsLock s = Some p" "busy (rsPc s q) \<longleftrightarrow> q = p" for q
    using x pc exclusive_only [OF x, of p q] by (auto simp: exclusive_def)
  then have "rsPc s q = Editing l' \<Longrightarrow> q = p" for q l' by (metis busy_simps(3))
  then show "exclusive dec op s'" using x b unfolding exclusive_def s' by auto
  show "logged s'" using g pc by (auto simp: logged_def s')
qed

lemma reg_step_keeps:
  assumes "reg_step enc dec op s s'" and "stored dec op good s" and "exclusive dec op s" and "logged s"
    and json: "\<And>l. \<forall>i \<in> set l. good i \<Longrightarrow> dec (enc l) = Some l" and ops: "\<And>p i. op p = AddOp i \<Longrightarrow> good i"
  shows "stored dec op good s' \<and> exclusive dec op s' \<and> logged s'"
  using assms(1)
proof cases
  case (lock p)
  then have "\<And>q. \<not> busy (rsPc s q)" using assms(3) by (auto simp: exclusive_def)
  then show ?thesis using lock assms(2-4) by (auto simp: stored_def exclusive_def logged_def)
next
  case (edit p l)
  then show ?thesis using assms(2-4) by (auto simp: stored_def exclusive_def logged_def)
next
  case (rename p l)
  then show ?thesis using assms(2-4) json ops by (intro rename_keeps)
next
  case (crash p)
  then show ?thesis using assms(2-4) by (simp add: end_op_keeps)
next
  case (refuse p e)
  then show ?thesis using assms(2-4) by (simp add: end_op_keeps)
qed (use assms(2-4) in \<open>simp_all add: end_op_keeps\<close>)

lemma registry_keeps:
  assumes "(reg_step enc dec op)\<^sup>*\<^sup>* reg_init s"
    and json: "\<And>l. \<forall>i \<in> set l. good i \<Longrightarrow> dec (enc l) = Some l" and ops: "\<And>p i. op p = AddOp i \<Longrightarrow> good i"
  shows "stored dec op good s \<and> exclusive dec op s \<and> logged s"
  using assms(1)
proof (induction rule: rtranclp_induct)
  case base
  show ?case
    by (simp add: reg_init_def stored_def exclusive_def logged_def listLocked_def distinct_ids_def view_def)
next
  case (step s s')
  then show ?case using reg_step_keeps [OF step.hyps(2)] json ops by blast
qed

text \<open>
  C30: concurrent registrations and removals are atomic: whenever the file is read, without the lock, at any
  instant of any interleaving of any number of processes that may die between any two of their steps, it decodes to
  a list whose instances are those of a sequence of atomic operations, each permitted when its turn came (no identifier
  taken twice), with every operation that reported success in it exactly once and none that reported an error.
\<close>

theorem registry_linearizable:
  assumes "(reg_step enc dec op)\<^sup>*\<^sup>* reg_init s"
    and "\<forall>l. (\<forall>i \<in> set l. good i) \<longrightarrow> dec (enc l) = Some l" and "\<forall>p i. op p = AddOp i \<longrightarrow> good i"
  shows "\<exists>l. listLocked dec (rsFile s) = Inr l \<and> distinct_ids l
           \<and> spec_ops (map op (rsLog s)) Map.empty = Some (view l)
           \<and> distinct (rsLog s)
           \<and> (\<forall>p. rsPc s p = Ended (Inr ()) \<longrightarrow> p \<in> set (rsLog s))
           \<and> (\<forall>p e. rsPc s p = Ended (Inl e) \<longrightarrow> e \<noteq> Crashed \<longrightarrow> p \<notin> set (rsLog s))"
proof -
  have "stored dec op good s \<and> exclusive dec op s \<and> logged s"
    using assms by (intro registry_keeps) auto
  then obtain l where "listLocked dec (rsFile s) = Inr l" "distinct_ids l"
      "spec_ops (map op (rsLog s)) Map.empty = Some (view l)" and g: "logged s"
    by (auto simp: stored_def)
  moreover have "\<And>p e. rsPc s p = Ended (Inl e) \<Longrightarrow> e \<noteq> Crashed \<Longrightarrow> p \<notin> set (rsLog s)"
    using g unfolding logged_def by force
  ultimately show ?thesis using g unfolding logged_def by (intro exI [of _ l]) auto
qed

text \<open>Two registrations, the first of which dies after its rename.\<close>

definition demo_instance :: "string \<Rightarrow> int \<Rightarrow> Instance" where
  "demo_instance i pid = \<lparr>inID = i, inRef = [], inEndpoint = [], inPID = pid, inStarted = [], inStartToken = [], inSplitDir = []\<rparr>"

definition demo_enc :: "Instance list \<Rightarrow> string" where
  "demo_enc l = map (\<lambda>i. if inID i = ''a'' then CHR ''a'' else CHR ''b'') l"

definition demo_dec :: "string \<Rightarrow> Instance list option" where
  "demo_dec s = Some (map (\<lambda>c. if c = CHR ''a'' then demo_instance ''a'' 5 else demo_instance ''b'' 7) s)"

definition demo_op :: "nat \<Rightarrow> reg_op" where
  "demo_op p = (if p = 0 then AddOp (demo_instance ''a'' 5) else AddOp (demo_instance ''b'' 7))"

definition demo_reg :: "file_read \<Rightarrow> nat option \<Rightarrow> reg_pc \<Rightarrow> reg_pc \<Rightarrow> nat list \<Rightarrow> reg_state" where
  "demo_reg f k c0 c1 g = \<lparr>rsFile = f, rsLock = k, rsPc = (\<lambda>_. Waiting)(0 := c0, 1 := c1), rsLog = g\<rparr>"

lemma reg_fields:
  "rsPc (demo_reg f k c0 c1 g) 0 = c0" "rsPc (demo_reg f k c0 c1 g) (Suc 0) = c1"
  "rsFile (demo_reg f k c0 c1 g) = f" "rsLock (demo_reg f k c0 c1 g) = k" "rsLog (demo_reg f k c0 c1 g) = g"
  by (simp_all add: demo_reg_def)

lemma demo_updates:
  fixes f k c0 c1 g
  defines "s \<equiv> demo_reg f k c0 c1 g"
  shows "s\<lparr>rsLock := k', rsPc := (rsPc s)(0 := c)\<rparr> = demo_reg f k' c c1 g"
    and "s\<lparr>rsLock := k', rsPc := (rsPc s)(Suc 0 := c)\<rparr> = demo_reg f k' c0 c g"
    and "s\<lparr>rsPc := (rsPc s)(0 := c)\<rparr> = demo_reg f k c c1 g"
    and "s\<lparr>rsPc := (rsPc s)(Suc 0 := c)\<rparr> = demo_reg f k c0 c g"
    and "s\<lparr>rsFile := f', rsPc := (rsPc s)(0 := c), rsLog := g'\<rparr> = demo_reg f' k c c1 g'"
    and "s\<lparr>rsFile := f', rsPc := (rsPc s)(Suc 0 := c), rsLog := g'\<rparr> = demo_reg f' k c0 c g'"
  by (auto simp: s_def demo_reg_def)

lemma demo_registry_run:
  "(reg_step demo_enc demo_dec demo_op)\<^sup>*\<^sup>* reg_init
     (demo_reg (FileContent ''ab'') None (Ended (Inl Crashed)) (Ended (Inr ())) [0, 1])"
    (is "?R\<^sup>*\<^sup>* _ _")
proof -
  let ?a = "demo_instance ''a'' 5" and ?b = "demo_instance ''b'' 7"
  let ?file = "FileContent ''a''" and ?dead = "Ended (Inl Crashed)"
  note simps = reg_fields demo_updates end_op_def demo_op_def apply_op_def add_instance_def listLocked_def sort_by_def
    demo_enc_def demo_dec_def demo_instance_def
  let ?s = "[demo_reg FileMissing None Waiting Waiting [], demo_reg FileMissing (Some 0) Holding Waiting [],
    demo_reg FileMissing (Some 0) (Editing [?a]) Waiting [], demo_reg ?file (Some 0) Renamed Waiting [0],
    demo_reg ?file None ?dead Waiting [0], demo_reg ?file (Some 1) ?dead Holding [0],
    demo_reg ?file (Some 1) ?dead (Editing [?a, ?b]) [0], demo_reg (FileContent ''ab'') (Some 1) ?dead Renamed [0, 1]]"
  have s1: "?R (?s ! 0) (?s ! 1)" using reg_step.lock [of "?s ! 0" 0] by (simp add: simps)
  have s2: "?R (?s ! 1) (?s ! 2)" using reg_step.edit [of "?s ! 1" 0 demo_dec demo_op "[?a]"] by (simp add: simps)
  have s3: "?R (?s ! 2) (?s ! 3)" using reg_step.rename [of "?s ! 2" 0 "[?a]" demo_enc] by (simp add: simps)
  have s4: "?R (?s ! 3) (?s ! 4)" using reg_step.crash [of "?s ! 3" 0] by (simp add: simps)
  have s5: "?R (?s ! 4) (?s ! 5)" using reg_step.lock [of "?s ! 4" 1] by (simp add: simps)
  have s6: "?R (?s ! 5) (?s ! 6)" using reg_step.edit [of "?s ! 5" 1 demo_dec demo_op "[?a, ?b]"] by (simp add: simps)
  have s7: "?R (?s ! 6) (?s ! 7)" using reg_step.rename [of "?s ! 6" 1 "[?a, ?b]" demo_enc] by (simp add: simps)
  have s8: "?R (?s ! 7) (demo_reg (FileContent ''ab'') None ?dead (Ended (Inr ())) [0, 1])"
    using reg_step.return [of "?s ! 7" 1] by (simp add: simps)
  have init: "reg_init = ?s ! 0" by (auto simp: reg_init_def demo_reg_def)
  note step = converse_rtranclp_into_rtranclp [of ?R]
  show ?thesis
    unfolding init
    by (rule step [OF s1 step [OF s2 step [OF s3 step [OF s4 step [OF s5 step [OF s6 step [OF s7 r_into_rtranclp [of ?R, OF s8]]]]]]]])
qed

lemma registry_linearizable_witness:
  "spec_ops (map demo_op [0, 1]) Map.empty
     = Some (view [demo_instance ''a'' 5, demo_instance ''b'' 7])
   \<and> listLocked demo_dec (FileContent ''ab'') = Inr [demo_instance ''a'' 5, demo_instance ''b'' 7]"
proof -
  let ?s = "demo_reg (FileContent ''ab'') None (Ended (Inl Crashed)) (Ended (Inr ())) [0, 1]"
  let ?good = "\<lambda>i. i = demo_instance ''a'' 5 \<or> i = demo_instance ''b'' 7"
  let ?f = "\<lambda>i. if inID i = ''a'' then CHR ''a'' else CHR ''b''"
    and ?g = "\<lambda>c. if c = CHR ''a'' then demo_instance ''a'' 5 else demo_instance ''b'' 7"
  have "?g (?f i) = i" if "?good i" for i
    using that by (elim disjE; hypsubst; simp add: demo_instance_def)
  then have "map (\<lambda>i. ?g (?f i)) l = l" if "\<forall>i \<in> set l. ?good i" for l
    using that by (intro map_idI) blast
  then have "demo_dec (demo_enc l) = Some l" if "\<forall>i \<in> set l. ?good i" for l
    using that unfolding demo_dec_def demo_enc_def map_map comp_def by blast
  then have j: "\<forall>l. (\<forall>i \<in> set l. ?good i) \<longrightarrow> demo_dec (demo_enc l) = Some l" by blast
  have o: "\<forall>p i. demo_op p = AddOp i \<longrightarrow> ?good i" by (simp add: demo_op_def)
  have "listLocked demo_dec (FileContent ''ab'') = Inr [demo_instance ''a'' 5, demo_instance ''b'' 7]"
    by (simp add: listLocked_def demo_dec_def sort_by_def demo_instance_def)
  with registry_linearizable [OF demo_registry_run j o] show ?thesis by (simp add: reg_fields)
qed

end
