(* ===== verification/LlamaLock.thy ===== *)
theory LlamaLock
  imports Text "HOL-Library.AList"
begin

text \<open>
  \<open>internal/llamalock/llamalock.go\<close> and \<open>cmd/llama-lock\<close>: the lock file that pins the prebuilt runtime, and
  how a new release becomes the pin. \<open>git\<close>, the release API and the clock are parameters; time is in nanoseconds
  from Go's zero time, and text is ASCII.
\<close>

subsection \<open>Names\<close>

definition Platforms :: "string list" where "Platforms = [''darwin_arm64'', ''linux_amd64'']"

definition MinAge :: int where "MinAge = 7 * 24 * 3600 * 10 ^ 9"

definition all_digits :: "string \<Rightarrow> bool" where "all_digits s = (s \<noteq> [] \<and> list_all is_digit s)"

text \<open>The regular expressions \<open>b[0-9]+\<close>, \<open>v[0-9]+.[0-9]+.[0-9]+\<close> and those of a commit and a digest.\<close>

definition IsNightly :: "string \<Rightarrow> bool" where
  "IsNightly ref = (HasPrefix ref ''b'' \<and> all_digits (tl ref))"

definition IsStable :: "string \<Rightarrow> bool" where
  "IsStable ref = (HasPrefix ref ''v'' \<and> length (split_on (CHR ''.'') (tl ref)) = 3
     \<and> list_all all_digits (split_on (CHR ''.'') (tl ref)))"

definition commit_ok :: "string \<Rightarrow> bool" where "commit_ok s = (length s = 40 \<and> list_all is_lhex s)"

definition sha_ok :: "string \<Rightarrow> bool" where "sha_ok s = (length s = 64 \<and> list_all is_lhex s)"

text \<open>The name of an asset; that of another platform is what \<open>fmt.Sprintf\<close> makes of an empty format.\<close>

definition AssetName :: "string \<Rightarrow> string \<Rightarrow> string" where
  "AssetName platform ref =
     (if platform = ''darwin_arm64'' then ''llama-'' @ ref @ ''-bin-macos-arm64.tar.gz''
      else if platform = ''linux_amd64'' then ''llama-'' @ ref @ ''-bin-ubuntu-x64.tar.gz''
      else ''%!(EXTRA string='' @ ref @ '')'')"

definition AssetURLFor :: "string \<Rightarrow> string \<Rightarrow> string" where
  "AssetURLFor ref platform =
     ''https://github.com/ggml-org/llama.cpp/releases/download/'' @ ref @ ''/'' @ AssetName platform ref"

definition validPlatform :: "string \<Rightarrow> bool" where "validPlatform p = (p \<in> set Platforms)"

subsection \<open>The lock file\<close>

record Asset =
  asPlatform :: string
  asURL :: string
  asSHA256 :: string

record Lock =
  lkRef :: string
  lkCommit :: string
  lkAssets :: "(string \<times> Asset) list"
  lkUpdatedAt :: string

datatype lock_error =
    UnknownPlatform nat string | DuplicateSection nat string | MalformedLine nat string
  | DuplicateAssetKey nat string string | NotCanonicalURL nat string string string | BadAssetSHA nat string
  | UnknownAssetKey nat string | DuplicateLockKey nat string | BadRef string | BadCommit string | BadTime string
  | UnknownLockKey nat string | MissingLockKey string | AssetCount nat | IncompleteAsset string

text \<open>\<open>[a-z0-9_]+\<close>, a header \<open>[assets.platform]\<close> and a line \<open>key = "value"\<close>.\<close>

definition key_char :: "char \<Rightarrow> bool" where "key_char c = (is_lower c \<or> is_digit c \<or> c = CHR ''_'')"

definition asset_header :: "string \<Rightarrow> string option" where
  "asset_header line =
     (let r = TrimPrefix line ''[assets.''; p = takeWhile key_char r in
      if HasPrefix line ''[assets.'' \<and> p \<noteq> [] \<and> dropWhile key_char r = '']'' then Some p else None)"

definition lock_line :: "string \<Rightarrow> (string \<times> string) option" where
  "lock_line line =
     (let k = takeWhile key_char line; r = dropWhile key_char line; v = drop 4 r in
      if k \<noteq> [] \<and> HasPrefix r '' = \"'' \<and> v \<noteq> [] \<and> last v = CHR ''\"'' \<and> CHR ''\"'' \<notin> set (butlast v)
      then Some (k, butlast v) else None)"

record parse_state =
  psLock :: Lock
  psSeen :: "string list"
  psSections :: "string list"
  psKeys :: "(string \<times> string) list"
  psPlatform :: string

definition no_asset :: Asset where "no_asset = \<lparr>asPlatform = [], asURL = [], asSHA256 = []\<rparr>"

definition asset_of :: "Lock \<Rightarrow> string \<Rightarrow> Asset" where
  "asset_of lk p = (case map_of (lkAssets lk) p of None \<Rightarrow> no_asset | Some a \<Rightarrow> a)"

definition asset_value :: "nat \<Rightarrow> Lock \<Rightarrow> string \<Rightarrow> string \<Rightarrow> string \<Rightarrow> lock_error + Asset" where
  "asset_value n lk p k v =
     (let a = (asset_of lk p)\<lparr>asPlatform := p\<rparr> in
      if k = ''url'' then
        if v \<noteq> AssetURLFor (lkRef lk) p then Inl (NotCanonicalURL n v (lkRef lk) p) else Inr (a\<lparr>asURL := v\<rparr>)
      else if k = ''sha256'' then if \<not> sha_ok v then Inl (BadAssetSHA n v) else Inr (a\<lparr>asSHA256 := v\<rparr>)
      else Inl (UnknownAssetKey n k))"

definition top_value :: "(string \<Rightarrow> bool) \<Rightarrow> nat \<Rightarrow> Lock \<Rightarrow> string \<Rightarrow> string \<Rightarrow> lock_error + Lock" where
  "top_value rfc n lk k v =
     (if k = ''ref'' then if \<not> IsNightly v then Inl (BadRef v) else Inr (lk\<lparr>lkRef := v\<rparr>)
      else if k = ''commit'' then if \<not> commit_ok v then Inl (BadCommit v) else Inr (lk\<lparr>lkCommit := v\<rparr>)
      else if k = ''updated_at'' then if \<not> rfc v then Inl (BadTime v) else Inr (lk\<lparr>lkUpdatedAt := v\<rparr>)
      else Inl (UnknownLockKey n k))"

text \<open>\<open>rfc\<close> accepts the times of RFC 3339.\<close>

definition lock_step :: "(string \<Rightarrow> bool) \<Rightarrow> nat \<Rightarrow> string \<Rightarrow> parse_state \<Rightarrow> lock_error + parse_state" where
  "lock_step rfc n raw s =
     (let line = TrimSuffix raw [CHR 0x0D] in
      if TrimSpace line = [] then Inr s
      else case asset_header line of
        Some p \<Rightarrow>
          if \<not> validPlatform p then Inl (UnknownPlatform n p)
          else if p \<in> set (psSections s) then Inl (DuplicateSection n p)
          else Inr (s\<lparr>psPlatform := p, psSections := p # psSections s\<rparr>)
      | None \<Rightarrow>
        (case lock_line line of
           None \<Rightarrow> Inl (MalformedLine n line)
         | Some (k, v) \<Rightarrow>
           let p = psPlatform s in
           if p \<noteq> [] then
             if (p, k) \<in> set (psKeys s) then Inl (DuplicateAssetKey n k p)
             else bind_res (asset_value n (psLock s) p k v) (\<lambda>a.
                    Inr (s\<lparr>psLock := (psLock s)\<lparr>lkAssets := AList.update p a (lkAssets (psLock s))\<rparr>,
                          psKeys := (p, k) # psKeys s\<rparr>))
           else if k \<in> set (psSeen s) then Inl (DuplicateLockKey n k)
           else bind_res (top_value rfc n (psLock s) k v) (\<lambda>lk. Inr (s\<lparr>psLock := lk, psSeen := k # psSeen s\<rparr>))))"

fun lock_lines :: "(string \<Rightarrow> bool) \<Rightarrow> nat \<Rightarrow> string list \<Rightarrow> parse_state \<Rightarrow> lock_error + parse_state" where
  "lock_lines rfc n [] s = Inr s"
| "lock_lines rfc n (l # ls) s = bind_res (lock_step rfc n l s) (lock_lines rfc (Suc n) ls)"

definition parse_start :: parse_state where
  "parse_start = \<lparr>psLock = \<lparr>lkRef = [], lkCommit = [], lkAssets = [], lkUpdatedAt = []\<rparr>, psSeen = [], psSections = [],
     psKeys = [], psPlatform = []\<rparr>"

definition lock_complete :: "parse_state \<Rightarrow> lock_error + Lock" where
  "lock_complete s =
     (case find (\<lambda>k. k \<notin> set (psSeen s)) [''ref'', ''commit'', ''updated_at''] of
        Some k \<Rightarrow> Inl (MissingLockKey k)
      | None \<Rightarrow>
        if length (lkAssets (psLock s)) \<noteq> length Platforms then Inl (AssetCount (length (lkAssets (psLock s))))
        else case find (\<lambda>p. asURL (asset_of (psLock s) p) = [] \<or> asSHA256 (asset_of (psLock s) p) = []) Platforms of
               Some p \<Rightarrow> Inl (IncompleteAsset p)
             | None \<Rightarrow> Inr (psLock s))"

definition ParseLock :: "(string \<Rightarrow> bool) \<Rightarrow> string \<Rightarrow> lock_error + Lock" where
  "ParseLock rfc data = bind_res (lock_lines rfc 1 (split_on (CHR 0x0A) data) parse_start) lock_complete"

text \<open>The verb \<open>%q\<close> on ASCII text.\<close>

definition quote_char :: "char \<Rightarrow> string" where
  "quote_char c =
     (if c = CHR ''\"'' \<or> c = CHR 0x5C then [CHR 0x5C, c]
      else if c = CHR 0x07 then [CHR 0x5C, CHR ''a''] else if c = CHR 0x08 then [CHR 0x5C, CHR ''b'']
      else if c = CHR 0x0C then [CHR 0x5C, CHR ''f''] else if c = CHR 0x0A then [CHR 0x5C, CHR ''n'']
      else if c = CHR 0x0D then [CHR 0x5C, CHR ''r''] else if c = CHR 0x09 then [CHR 0x5C, CHR ''t'']
      else if c = CHR 0x0B then [CHR 0x5C, CHR ''v'']
      else if (of_char c :: nat) < 32 \<or> c = CHR 0x7F
           then [CHR 0x5C, CHR ''x'', hex_digit (of_char c div 16), hex_digit (of_char c mod 16)]
      else [c])"

definition quoted :: "string \<Rightarrow> string" where "quoted s = ''\"'' @ concat (map quote_char s) @ ''\"''"

definition key_line :: "string \<Rightarrow> string \<Rightarrow> string" where "key_line k v = k @ '' = '' @ quoted v"

definition FormatLock :: "Lock \<Rightarrow> string" where
  "FormatLock lk =
     key_line ''ref'' (lkRef lk) @ [CHR 0x0A] @ key_line ''commit'' (lkCommit lk) @ [CHR 0x0A]
     @ key_line ''updated_at'' (lkUpdatedAt lk) @ [CHR 0x0A]
     @ concat (map (\<lambda>p. [CHR 0x0A] @ ''[assets.'' @ p @ '']'' @ [CHR 0x0A]
         @ key_line ''url'' (asURL (asset_of lk p)) @ [CHR 0x0A]
         @ key_line ''sha256'' (asSHA256 (asset_of lk p)) @ [CHR 0x0A]) Platforms)"

subsection \<open>What a lock is\<close>

definition valid_lock :: "(string \<Rightarrow> bool) \<Rightarrow> Lock \<Rightarrow> bool" where
  "valid_lock rfc lk \<longleftrightarrow> IsNightly (lkRef lk) \<and> commit_ok (lkCommit lk) \<and> rfc (lkUpdatedAt lk)
     \<and> distinct (map fst (lkAssets lk)) \<and> fst ` set (lkAssets lk) = set Platforms
     \<and> (\<forall>p \<in> set Platforms. asPlatform (asset_of lk p) = p \<and> asURL (asset_of lk p) = AssetURLFor (lkRef lk) p
          \<and> sha_ok (asSHA256 (asset_of lk p)))"

text \<open>The same lock with its sections in the order of the canonical file.\<close>

definition canonical_lock :: "Lock \<Rightarrow> Lock" where
  "canonical_lock lk = lk\<lparr>lkAssets := map (\<lambda>p. (p, asset_of lk p)) Platforms\<rparr>"

text \<open>Characters that \<open>%q\<close> leaves alone and the parser takes in a value.\<close>

definition plain_char :: "char \<Rightarrow> bool" where
  "plain_char c \<longleftrightarrow> 32 \<le> (of_char c :: nat) \<and> (of_char c :: nat) < 128
     \<and> c \<notin> {CHR ''\"'', CHR 0x5C, CHR 0x07, CHR 0x08, CHR 0x0C, CHR 0x0A, CHR 0x0D, CHR 0x09, CHR 0x0B, CHR 0x7F}"

definition plain :: "string \<Rightarrow> bool" where "plain s \<longleftrightarrow> list_all plain_char s"

lemma asset_of_update:
  "asset_of (lk\<lparr>lkAssets := AList.update p a (lkAssets lk)\<rparr>) q = (if q = p then a else asset_of lk q)"
  by (simp add: asset_of_def update_conv')

definition assets_inv :: "Lock \<Rightarrow> bool" where
  "assets_inv lk \<longleftrightarrow> distinct (map fst (lkAssets lk)) \<and> fst ` set (lkAssets lk) \<subseteq> set Platforms
     \<and> (\<forall>p. (p \<in> fst ` set (lkAssets lk) \<longrightarrow> asPlatform (asset_of lk p) = p)
        \<and> asURL (asset_of lk p) \<in> {[], AssetURLFor (lkRef lk) p}
        \<and> (asSHA256 (asset_of lk p) = [] \<or> sha_ok (asSHA256 (asset_of lk p))))"

definition lock_inv :: "(string \<Rightarrow> bool) \<Rightarrow> parse_state \<Rightarrow> bool" where
  "lock_inv rfc s \<longleftrightarrow>
     (''ref'' \<in> set (psSeen s) \<longrightarrow> IsNightly (lkRef (psLock s)))
   \<and> (''commit'' \<in> set (psSeen s) \<longrightarrow> commit_ok (lkCommit (psLock s)))
   \<and> (''updated_at'' \<in> set (psSeen s) \<longrightarrow> rfc (lkUpdatedAt (psLock s)))
   \<and> (psPlatform s = [] \<longrightarrow> lkAssets (psLock s) = []) \<and> (psPlatform s \<noteq> [] \<longrightarrow> psPlatform s \<in> set Platforms)
   \<and> assets_inv (psLock s)"

lemma asset_value_ok:
  assumes "asset_value n lk p k v = Inr a"
    and "asURL (asset_of lk p) \<in> {[], AssetURLFor (lkRef lk) p}"
    and "asSHA256 (asset_of lk p) = [] \<or> sha_ok (asSHA256 (asset_of lk p))"
  shows "asPlatform a = p \<and> asURL a \<in> {[], AssetURLFor (lkRef lk) p} \<and> (asSHA256 a = [] \<or> sha_ok (asSHA256 a))"
  using assms by (auto simp: asset_value_def Let_def split: if_splits)

lemma assets_inv_update:
  assumes inv: "assets_inv lk" and p: "p \<in> set Platforms" and a: "asset_value n lk p k v = Inr a"
  shows "assets_inv (lk\<lparr>lkAssets := AList.update p a (lkAssets lk)\<rparr>)"
proof -
  have old: "asURL (asset_of lk q) \<in> {[], AssetURLFor (lkRef lk) q}"
    "asSHA256 (asset_of lk q) = [] \<or> sha_ok (asSHA256 (asset_of lk q))"
    "q \<in> fst ` set (lkAssets lk) \<longrightarrow> asPlatform (asset_of lk q) = q" for q
    using inv unfolding assets_inv_def by blast+
  note new = asset_value_ok [OF a old(1,2)]
  have keys: "fst ` set (AList.update p a (lkAssets lk)) = insert p (fst ` set (lkAssets lk))"
    by (simp add: dom_update)
  show ?thesis
    unfolding assets_inv_def asset_of_update
  proof (intro conjI allI)
    show "distinct (map fst (lkAssets (lk\<lparr>lkAssets := AList.update p a (lkAssets lk)\<rparr>)))"
      using inv by (simp add: assets_inv_def distinct_update)
    show "fst ` set (lkAssets (lk\<lparr>lkAssets := AList.update p a (lkAssets lk)\<rparr>)) \<subseteq> set Platforms"
      using inv p keys by (simp add: assets_inv_def)
    fix q
    show "q \<in> fst ` set (lkAssets (lk\<lparr>lkAssets := AList.update p a (lkAssets lk)\<rparr>)) \<longrightarrow>
        asPlatform (if q = p then a else asset_of lk q) = q"
      using new old(3) [of q] keys by simp
    show "asURL (if q = p then a else asset_of lk q) \<in> {[], AssetURLFor (lkRef (lk\<lparr>lkAssets := AList.update p a (lkAssets lk)\<rparr>)) q}"
      using new old(1) [of q] by simp
    show "asSHA256 (if q = p then a else asset_of lk q) = [] \<or> sha_ok (asSHA256 (if q = p then a else asset_of lk q))"
      using new old(2) [of q] by simp
  qed
qed

lemma lock_step_asset:
  assumes "lock_inv rfc s" and "psPlatform s \<noteq> []" and "asset_value n (psLock s) (psPlatform s) k v = Inr a"
  shows "lock_inv rfc (s\<lparr>psLock := (psLock s)\<lparr>lkAssets := AList.update (psPlatform s) a (lkAssets (psLock s))\<rparr>,
    psKeys := (psPlatform s, k) # psKeys s\<rparr>)"
  using assms assets_inv_update [OF _ _ assms(3)] unfolding lock_inv_def by simp

lemma lock_step_top:
  assumes inv: "lock_inv rfc s" and p: "psPlatform s = []" and lk: "top_value rfc n (psLock s) k v = Inr lk"
  shows "lock_inv rfc (s\<lparr>psLock := lk, psSeen := k # psSeen s\<rparr>)"
proof -
  have e: "lkAssets lk = []" using inv p lk by (auto simp: lock_inv_def top_value_def split: if_splits)
  then have "asset_of lk q = no_asset" for q by (simp add: asset_of_def)
  then have "assets_inv lk" using e by (simp add: assets_inv_def no_asset_def)
  then have keep: "lkAssets lk = []" "assets_inv lk" using e by simp_all
  consider "k = ''ref''" "IsNightly v" "lk = (psLock s)\<lparr>lkRef := v\<rparr>"
    | "k = ''commit''" "commit_ok v" "lk = (psLock s)\<lparr>lkCommit := v\<rparr>"
    | "k = ''updated_at''" "rfc v" "lk = (psLock s)\<lparr>lkUpdatedAt := v\<rparr>"
    using lk by (auto simp: top_value_def split: if_splits)
  then show ?thesis
  proof cases
    case 1
    then show ?thesis using inv p keep by (simp add: lock_inv_def)
  next
    case 2
    then show ?thesis using inv p keep by (simp add: lock_inv_def)
  next
    case 3
    then show ?thesis using inv p keep by (simp add: lock_inv_def)
  qed
qed

lemma lock_step_inv: "lock_step rfc n l s = Inr s' \<Longrightarrow> lock_inv rfc s \<Longrightarrow> lock_inv rfc s'"
  unfolding lock_step_def Let_def
  by (auto simp: bind_res_Inr lock_step_asset lock_step_top split: if_splits option.splits prod.splits)
     (auto simp: lock_inv_def validPlatform_def Platforms_def)

lemma lock_lines_inv: "lock_lines rfc n ls s = Inr s' \<Longrightarrow> lock_inv rfc s \<Longrightarrow> lock_inv rfc s'"
  by (induction ls arbitrary: n s) (auto simp: bind_res_Inr lock_step_inv)

lemma ParseLock_valid:
  assumes "ParseLock rfc data = Inr lk"
  shows "valid_lock rfc lk"
proof -
  obtain s where s: "lock_lines rfc 1 (split_on (CHR 0x0A) data) parse_start = Inr s" and c: "lock_complete s = Inr lk"
    using assms by (auto simp: ParseLock_def bind_res_Inr)
  have "lock_inv rfc parse_start"
    by (simp add: lock_inv_def parse_start_def assets_inv_def asset_of_def no_asset_def)
  then have inv: "lock_inv rfc s" by (rule lock_lines_inv [OF s])
  have lk: "lk = psLock s" and seen: "set [''ref'', ''commit'', ''updated_at''] \<subseteq> set (psSeen s)"
    and n: "length (lkAssets lk) = length Platforms"
    and full: "\<forall>p \<in> set Platforms. asURL (asset_of lk p) \<noteq> [] \<and> asSHA256 (asset_of lk p) \<noteq> []"
    using c by (auto simp: lock_complete_def find_None_iff split: option.splits if_splits)
  have a: "assets_inv lk" using inv lk by (simp add: lock_inv_def)
  have "fst ` set (lkAssets lk) = set Platforms"
  proof (rule card_subset_eq)
    show "fst ` set (lkAssets lk) \<subseteq> set Platforms" using a by (simp add: assets_inv_def)
    have "card (set (map fst (lkAssets lk))) = length (lkAssets lk)"
      using a distinct_card [of "map fst (lkAssets lk)"] by (simp add: assets_inv_def)
    moreover have "card (set Platforms) = length Platforms" by (simp add: Platforms_def)
    ultimately show "card (fst ` set (lkAssets lk)) = card (set Platforms)" using n by simp
  qed simp
  then show ?thesis
    using inv a full seen unfolding valid_lock_def lock_inv_def assets_inv_def lk by auto
qed

subsection \<open>Printing and parsing\<close>

lemma quote_char_plain: "plain_char c \<Longrightarrow> quote_char c = [c]"
  by (simp add: plain_char_def quote_char_def)

lemma quoted_plain: "plain s \<Longrightarrow> quoted s = ''\"'' @ s @ ''\"''"
  by (induction s) (simp_all add: quoted_def plain_def quote_char_plain)

lemma plain_char_not: "\<not> plain_char (CHR 0x0A)" "\<not> plain_char (CHR ''\"'')"
  by (simp_all add: plain_char_def)

lemma plain_no_newline: "plain s \<Longrightarrow> CHR 0x0A \<notin> set s"
  and plain_no_quote: "plain s \<Longrightarrow> CHR ''\"'' \<notin> set s"
  using plain_char_not by (auto simp: plain_def list_all_iff)

lemma plain_append [simp]: "plain (a @ b) \<longleftrightarrow> plain a \<and> plain b"
  by (simp add: plain_def)

definition word_key :: "string \<Rightarrow> bool" where
  "word_key k \<longleftrightarrow> k \<noteq> [] \<and> list_all key_char k"

lemma key_char_not:
  "\<not> key_char (CHR '' '')" "\<not> key_char (CHR ''['')" "\<not> key_char (CHR '']'')" "\<not> key_char (CHR 0x0A)"
  "\<not> key_char (CHR 0x09)" "\<not> key_char (CHR 0x0B)" "\<not> key_char (CHR 0x0C)" "\<not> key_char (CHR 0x0D)"
  by (simp_all add: key_char_def is_lower_def is_digit_def)

lemma space_not_key: "space_char c \<Longrightarrow> \<not> key_char c"
  unfolding space_char_def by (elim insertE emptyE; hypsubst; rule key_char_not)

lemma key_char_facts: "key_char c \<Longrightarrow> \<not> space_char c" "\<not> key_char (CHR '' '')" "\<not> key_char (CHR ''['')" "\<not> key_char (CHR '']'')"
  "\<not> key_char (CHR 0x0A)"
  using space_not_key key_char_not by blast+

lemma take_key:
  assumes "list_all key_char k" and "r = [] \<or> \<not> key_char (hd r)"
  shows "takeWhile key_char (k @ r) = k \<and> dropWhile key_char (k @ r) = r"
  using assms by (induction k) (cases r; auto)+

lemma lock_line_key:
  assumes "word_key k" and "plain v"
  shows "lock_line (key_line k v) = Some (k, v)"
proof -
  have kl: "key_line k v = k @ ('' = \"'' @ v @ ''\"'')" using quoted_plain [OF assms(2)] by (simp add: key_line_def)
  have "takeWhile key_char (key_line k v) = k \<and> dropWhile key_char (key_line k v) = '' = \"'' @ v @ ''\"''"
    unfolding kl by (rule take_key) (use assms(1) key_char_facts in \<open>simp_all add: word_key_def\<close>)
  then show ?thesis
    using assms(1) plain_no_quote [OF assms(2)] by (simp add: lock_line_def word_key_def HasPrefix_def)
qed

lemma asset_header_key:
  assumes "word_key k" shows "asset_header (k @ r) = None"
proof -
  obtain c k' where k: "k = c # k'" "key_char c" using assms by (cases k) (auto simp: word_key_def)
  then have "c \<noteq> CHR ''[''" using key_char_facts by auto
  then show ?thesis by (simp add: asset_header_def k HasPrefix_def)
qed

lemma no_cr: "x \<noteq> CHR 0x0D \<Longrightarrow> TrimSuffix (s @ [x]) [CHR 0x0D] = s @ [x]"
  by (auto simp: TrimSuffix_def HasSuffix_iff)

lemma lock_step_key:
  assumes "word_key k" and "plain v"
  shows "lock_step rfc n (key_line k v) s =
    (let p = psPlatform s in
     if p \<noteq> [] then
       if (p, k) \<in> set (psKeys s) then Inl (DuplicateAssetKey n k p)
       else bind_res (asset_value n (psLock s) p k v) (\<lambda>a.
              Inr (s\<lparr>psLock := (psLock s)\<lparr>lkAssets := AList.update p a (lkAssets (psLock s))\<rparr>, psKeys := (p, k) # psKeys s\<rparr>))
     else if k \<in> set (psSeen s) then Inl (DuplicateLockKey n k)
     else bind_res (top_value rfc n (psLock s) k v) (\<lambda>lk. Inr (s\<lparr>psLock := lk, psSeen := k # psSeen s\<rparr>)))"
proof -
  have kl: "key_line k v = (k @ '' = \"'' @ v) @ [CHR ''\"'']" using quoted_plain [OF assms(2)] by (simp add: key_line_def)
  have "TrimSuffix (key_line k v) [CHR 0x0D] = key_line k v" unfolding kl by (rule no_cr) simp
  moreover have "TrimSpace (key_line k v) \<noteq> []"
    by (rule TrimSpace_solid [of "CHR ''\"''"]) (simp_all add: kl solid_def ascii_def space_char_def)
  moreover have "asset_header (key_line k v) = None"
    using asset_header_key [OF assms(1)] by (simp add: key_line_def)
  ultimately show ?thesis
    by (simp only: lock_step_def Let_def lock_line_key [OF assms] if_False option.case prod.case)
qed

lemma lock_step_header:
  assumes "word_key p"
  shows "lock_step rfc n (''[assets.'' @ p @ '']'') s =
    (if \<not> validPlatform p then Inl (UnknownPlatform n p)
     else if p \<in> set (psSections s) then Inl (DuplicateSection n p)
     else Inr (s\<lparr>psPlatform := p, psSections := p # psSections s\<rparr>))"
proof -
  let ?l = "(''[assets.'' @ p) @ '']''"
  have "TrimSuffix ?l [CHR 0x0D] = ?l" by (rule no_cr) simp
  moreover have "TrimSpace ?l \<noteq> []" by (rule TrimSpace_solid [of "CHR '']''"]) (simp_all add: solid_def ascii_def space_char_def)
  moreover have "asset_header ?l = Some p"
  proof -
    have "takeWhile key_char (p @ '']'') = p \<and> dropWhile key_char (p @ '']'') = '']''"
      by (rule take_key) (use assms key_char_facts in \<open>simp_all add: word_key_def\<close>)
    moreover have "TrimPrefix ?l ''[assets.'' = p @ '']''" using TrimPrefix_append [of "''[assets.''"] by simp
    ultimately show ?thesis using assms HasPrefix_append [of "''[assets.''" "p @ '']''"] by (simp add: asset_header_def Let_def word_key_def)
  qed
  ultimately have "lock_step rfc n ?l s = (if \<not> validPlatform p then Inl (UnknownPlatform n p)
     else if p \<in> set (psSections s) then Inl (DuplicateSection n p)
     else Inr (s\<lparr>psPlatform := p, psSections := p # psSections s\<rparr>))"
    unfolding lock_step_def Let_def by simp
  then show ?thesis by simp
qed

lemma lock_step_blank: "lock_step rfc n [] s = Inr s"
  by (simp add: lock_step_def TrimSuffix_def HasSuffix_def)

lemma key_line_no_newline: "word_key k \<Longrightarrow> plain v \<Longrightarrow> CHR 0x0A \<notin> set (key_line k v)"
  using plain_no_newline key_char_facts(5) by (auto simp: key_line_def quoted_plain word_key_def list_all_iff)

lemma keys_of_the_file:
  "word_key ''ref''" "word_key ''commit''" "word_key ''updated_at''" "word_key ''url''" "word_key ''sha256''"
  "word_key ''darwin_arm64''" "word_key ''linux_amd64''"
  by code_simp+

definition lock_text :: "Lock \<Rightarrow> string list" where
  "lock_text lk =
     [key_line ''ref'' (lkRef lk), key_line ''commit'' (lkCommit lk), key_line ''updated_at'' (lkUpdatedAt lk), [],
      ''[assets.darwin_arm64]'', key_line ''url'' (asURL (asset_of lk ''darwin_arm64'')),
      key_line ''sha256'' (asSHA256 (asset_of lk ''darwin_arm64'')), [],
      ''[assets.linux_amd64]'', key_line ''url'' (asURL (asset_of lk ''linux_amd64'')),
      key_line ''sha256'' (asSHA256 (asset_of lk ''linux_amd64'')), []]"

lemma FormatLock_lines:
  assumes "plain (lkRef lk)" "plain (lkCommit lk)" "plain (lkUpdatedAt lk)"
    and "\<And>p. p \<in> set Platforms \<Longrightarrow> plain (asURL (asset_of lk p)) \<and> plain (asSHA256 (asset_of lk p))"
  shows "split_on (CHR 0x0A) (FormatLock lk) = lock_text lk"
proof -
  have "FormatLock lk = join_with [CHR 0x0A] (lock_text lk)"
    by (simp add: FormatLock_def lock_text_def Platforms_def)
  moreover have "\<forall>l \<in> set (lock_text lk). CHR 0x0A \<notin> set l"
    using assms keys_of_the_file key_line_no_newline by (simp add: lock_text_def Platforms_def)
  moreover have "lock_text lk \<noteq> []" by (simp add: lock_text_def)
  ultimately show ?thesis by (simp add: split_join)
qed

lemma lock_lines_head:
  assumes "IsNightly r" "commit_ok c" "rfc u" and "plain r" "plain c" "plain u"
  shows "lock_lines rfc 1 (key_line ''ref'' r # key_line ''commit'' c # key_line ''updated_at'' u # [] # ls) parse_start
     = lock_lines rfc 5 ls \<lparr>psLock = \<lparr>lkRef = r, lkCommit = c, lkAssets = [], lkUpdatedAt = u\<rparr>,
         psSeen = [''updated_at'', ''commit'', ''ref''], psSections = [], psKeys = [], psPlatform = []\<rparr>"
  by (simp add: lock_step_key [OF keys_of_the_file(1) assms(4)] lock_step_key [OF keys_of_the_file(2) assms(5)]
      lock_step_key [OF keys_of_the_file(3) assms(6)] lock_step_blank top_value_def assms(1-3) parse_start_def Let_def eval_nat_numeral)

lemma lock_lines_section:
  assumes p: "word_key p" "validPlatform p" and new: "p \<notin> set (psSections s)" "\<forall>k. (p, k) \<notin> set (psKeys s)"
    and u: "plain (AssetURLFor (lkRef (psLock s)) p)" and h: "plain h" "sha_ok h" and none: "asset_of (psLock s) p = no_asset"
  shows "lock_lines rfc n ((''[assets.'' @ p @ '']'') # key_line ''url'' (AssetURLFor (lkRef (psLock s)) p) # key_line ''sha256'' h # [] # ls) s
     = lock_lines rfc (n + 4) ls (s\<lparr>psPlatform := p, psSections := p # psSections s,
         psLock := (psLock s)\<lparr>lkAssets := AList.update p \<lparr>asPlatform = p, asURL = AssetURLFor (lkRef (psLock s)) p, asSHA256 = h\<rparr>
           (lkAssets (psLock s))\<rparr>, psKeys := (p, ''sha256'') # (p, ''url'') # psKeys s\<rparr>)"
proof -
  have e: "p \<noteq> []" using p(1) by (simp add: word_key_def)
  have a: "asset_value m (psLock s) p ''url'' (AssetURLFor (lkRef (psLock s)) p)
      = Inr \<lparr>asPlatform = p, asURL = AssetURLFor (lkRef (psLock s)) p, asSHA256 = []\<rparr>" for m
    by (simp add: asset_value_def none no_asset_def)
  have b: "asset_value m ((psLock s)\<lparr>lkAssets := AList.update p \<lparr>asPlatform = p, asURL = AssetURLFor (lkRef (psLock s)) p, asSHA256 = []\<rparr> (lkAssets (psLock s))\<rparr>) p ''sha256'' h
      = Inr \<lparr>asPlatform = p, asURL = AssetURLFor (lkRef (psLock s)) p, asSHA256 = h\<rparr>" for m
    using h(2) by (simp add: asset_value_def asset_of_update)
  have twice: "AList.update p x (AList.update p y l) = AList.update p x l" for x y :: Asset and l
    by (induction l) auto
  show ?thesis
    using p(2) new e
    by (simp add: lock_step_header [OF p(1), simplified] lock_step_key [OF keys_of_the_file(4) u] lock_step_key [OF keys_of_the_file(5) h(1)]
        lock_step_blank a b twice Let_def eval_nat_numeral)
qed

lemma sha_not_empty: "sha_ok s \<Longrightarrow> s \<noteq> []"
  by (auto simp: sha_ok_def)

lemma lock_text_parses:
  assumes v: "valid_lock rfc lk"
    and p: "plain (lkRef lk)" "plain (lkCommit lk)" "plain (lkUpdatedAt lk)"
      "\<And>p. p \<in> set Platforms \<Longrightarrow> plain (asURL (asset_of lk p)) \<and> plain (asSHA256 (asset_of lk p))"
  shows "\<exists>s. lock_lines rfc 1 (lock_text lk) parse_start = Inr s \<and> lock_complete s = Inr (canonical_lock lk)"
proof -
  let ?d = "''darwin_arm64''" and ?l = "''linux_amd64''"
  have P: "?d \<in> set Platforms" "?l \<in> set Platforms" by (simp_all add: Platforms_def)
  have v1: "IsNightly (lkRef lk)" "commit_ok (lkCommit lk)" "rfc (lkUpdatedAt lk)"
    using v by (simp_all add: valid_lock_def)
  have va: "asURL (asset_of lk q) = AssetURLFor (lkRef lk) q" "sha_ok (asSHA256 (asset_of lk q))"
    "asset_of lk q = \<lparr>asPlatform = q, asURL = AssetURLFor (lkRef lk) q, asSHA256 = asSHA256 (asset_of lk q)\<rparr>" if "q \<in> set Platforms" for q
    using v that by (auto simp: valid_lock_def)
  have pu: "plain (AssetURLFor (lkRef lk) q)" "plain (asSHA256 (asset_of lk q))" if "q \<in> set Platforms" for q
    using p(4) va(1) that by auto
  let ?s0 = "\<lparr>psLock = \<lparr>lkRef = lkRef lk, lkCommit = lkCommit lk, lkAssets = [], lkUpdatedAt = lkUpdatedAt lk\<rparr>,
         psSeen = [''updated_at'', ''commit'', ''ref''], psSections = [], psKeys = [], psPlatform = []\<rparr>"
  let ?s1 = "?s0\<lparr>psPlatform := ?d, psSections := [?d], psKeys := [(?d, ''sha256''), (?d, ''url'')],
     psLock := (psLock ?s0)\<lparr>lkAssets := [(?d, asset_of lk ?d)]\<rparr>\<rparr>"
  let ?s2 = "?s1\<lparr>psPlatform := ?l, psSections := [?l, ?d], psKeys := [(?l, ''sha256''), (?l, ''url''), (?d, ''sha256''), (?d, ''url'')],
     psLock := (psLock ?s0)\<lparr>lkAssets := [(?d, asset_of lk ?d), (?l, asset_of lk ?l)]\<rparr>\<rparr>"
  have "lock_lines rfc 5 ((''[assets.'' @ ?d @ '']'') # key_line ''url'' (AssetURLFor (lkRef lk) ?d) # key_line ''sha256'' (asSHA256 (asset_of lk ?d)) # [] # ls) ?s0
      = lock_lines rfc 9 ls ?s1" for ls
    using lock_lines_section [OF keys_of_the_file(6), of ?s0 "asSHA256 (asset_of lk ?d)" rfc 5 ls] pu [OF P(1)] va(2) [OF P(1)] va(3) [OF P(1), symmetric] P
    by (simp add: validPlatform_def asset_of_def)
  moreover have "lock_lines rfc 9 ((''[assets.'' @ ?l @ '']'') # key_line ''url'' (AssetURLFor (lkRef lk) ?l) # key_line ''sha256'' (asSHA256 (asset_of lk ?l)) # [] # ls) ?s1
      = lock_lines rfc 13 ls ?s2" for ls
    using lock_lines_section [OF keys_of_the_file(7), of ?s1 "asSHA256 (asset_of lk ?l)" rfc 9 ls] pu [OF P(2)] va(2) [OF P(2)] va(3) [OF P(2), symmetric] P
    by (simp add: validPlatform_def asset_of_def)
  ultimately have "lock_lines rfc 1 (lock_text lk) parse_start = Inr ?s2"
    unfolding lock_text_def va(1) [OF P(1)] va(1) [OF P(2)] lock_lines_head [where rfc = rfc, OF v1 p(1-3)]
    by simp
  moreover have "lock_complete ?s2 = Inr (canonical_lock lk)"
    using sha_not_empty [OF va(2) [OF P(1)]] sha_not_empty [OF va(2) [OF P(2)]] va(1) [OF P(1)] va(1) [OF P(2)]
    by (simp add: lock_complete_def canonical_lock_def Platforms_def asset_of_def AssetURLFor_def)
  ultimately show ?thesis by blast
qed

lemma plain_set: "set s \<subseteq> set u \<Longrightarrow> plain u \<Longrightarrow> plain s"
  by (auto simp: plain_def list_all_iff)

lemma plain_lhex: assumes "list_all is_lhex s" shows "plain s"
proof (rule plain_set)
  show "set s \<subseteq> set ''0123456789abcdef''" using assms unfolding list_all_iff is_lhex_def by blast
  show "plain ''0123456789abcdef''" by code_simp
qed

lemma plain_digits: assumes "list_all is_digit s" shows "plain s"
proof (rule plain_set)
  show "set s \<subseteq> set ''0123456789''" using assms unfolding list_all_iff is_digit_def by blast
  show "plain ''0123456789''" by code_simp
qed

lemma plain_nightly: "IsNightly r \<Longrightarrow> plain r"
proof -
  assume n: "IsNightly r"
  then have "r = ''b'' @ tl r" by (cases r) (auto simp: IsNightly_def HasPrefix_def)
  moreover have "plain ''b''" by code_simp
  moreover have "plain (tl r)" using n by (intro plain_digits) (simp add: IsNightly_def all_digits_def)
  ultimately show "plain r" by (metis plain_append)
qed

lemma plain_url:
  assumes "plain r" "p \<in> set Platforms" shows "plain (AssetURLFor r p)"
proof -
  have "plain ''https://github.com/ggml-org/llama.cpp/releases/download/''" "plain ''/''" "plain ''llama-''"
    "plain ''-bin-macos-arm64.tar.gz''" "plain ''-bin-ubuntu-x64.tar.gz''" by code_simp+
  then show ?thesis using assms by (auto simp only: AssetURLFor_def AssetName_def plain_append Platforms_def set_simps split: if_splits)
qed

lemma lock_parses_back:
  assumes "\<forall>t. rfc t \<longrightarrow> plain t" and v: "valid_lock rfc lk"
  shows "ParseLock rfc (FormatLock lk) = Inr (canonical_lock lk)"
proof -
  have pr: "plain (lkRef lk)" using v by (simp add: valid_lock_def plain_nightly)
  have pc: "plain (lkCommit lk)" using v by (simp add: valid_lock_def commit_ok_def plain_lhex)
  have pu: "plain (lkUpdatedAt lk)" using v assms by (simp add: valid_lock_def)
  have pa: "plain (asURL (asset_of lk p)) \<and> plain (asSHA256 (asset_of lk p))" if "p \<in> set Platforms" for p
    using v that pr by (simp add: valid_lock_def sha_ok_def plain_lhex plain_url)
  obtain s where "lock_lines rfc 1 (lock_text lk) parse_start = Inr s" "lock_complete s = Inr (canonical_lock lk)"
    using lock_text_parses [OF v pr pc pu pa] by blast
  then show ?thesis by (simp only: ParseLock_def FormatLock_lines [OF pr pc pu pa] bind_res.simps)
qed

text \<open>
  C34: the lock file is fail-closed and has one form: whatever text is accepted gives a lock with an
  exact release, a full commit, a time, and for exactly the shipped platforms the canonical
  address and a digest; and every such lock, written by the program, is read back unchanged.
\<close>

theorem ParseLock_fail_closed:
  assumes "\<forall>t. rfc t \<longrightarrow> plain t"
  shows "(ParseLock rfc data = Inr lk \<longrightarrow> valid_lock rfc lk)
    \<and> (valid_lock rfc lk \<longrightarrow> ParseLock rfc (FormatLock lk) = Inr (canonical_lock lk) \<and> valid_lock rfc (canonical_lock lk))"
  using ParseLock_valid lock_parses_back [OF assms] by blast

definition demo_lock :: Lock where
  "demo_lock = \<lparr>lkRef = ''b42'', lkCommit = replicate 40 CHR ''a'',
     lkAssets = map (\<lambda>p. (p, \<lparr>asPlatform = p, asURL = AssetURLFor ''b42'' p, asSHA256 = replicate 64 CHR ''0''\<rparr>)) (rev Platforms),
     lkUpdatedAt = ''2026-09-05T00:00:00Z''\<rparr>"

lemma demo_lock_valid: "valid_lock (\<lambda>t. t = ''2026-09-05T00:00:00Z'') demo_lock"
proof -
  have "IsNightly ''b42''" "commit_ok (replicate 40 CHR ''a'')" "sha_ok (replicate 64 CHR ''0'')" by code_simp+
  then show ?thesis
    unfolding valid_lock_def demo_lock_def
    by (auto simp: Platforms_def asset_of_def)
qed

lemma ParseLock_fail_closed_witness:
  "ParseLock (\<lambda>t. t = ''2026-09-05T00:00:00Z'') (FormatLock demo_lock) = Inr (canonical_lock demo_lock)"
proof -
  have "plain ''2026-09-05T00:00:00Z''" by code_simp
  then have "\<forall>t. t = ''2026-09-05T00:00:00Z'' \<longrightarrow> plain t" by blast
  from ParseLock_fail_closed [of "\<lambda>t. t = ''2026-09-05T00:00:00Z''", OF this] show ?thesis using demo_lock_valid by blast
qed

end
