(* ===== verification/LlamaPin.thy ===== *)
theory LlamaPin
  imports LlamaLock
begin

text \<open>
  How a release becomes the pin (\<open>internal/llamalock\<close>: tags, releases, the soak, \<open>Decide\<close>;
  \<open>cmd/llama-lock\<close>: \<open>check-update\<close>, \<open>fetch\<close>). The answers of \<open>git ls-remote\<close> and of the release API are
  parameters; a time is in nanoseconds from Go's zero time.
\<close>

subsection \<open>Whether to move the pin\<close>

datatype pin_error =
    NotNightly string | BadRefKind string | TagUnresolved string string string | NoNightlyTags
  | GitFailed string | ApiFailed string | NoAssetDigest string string | MissingAssets string nat
  | IncompleteMatrix string | TooYoung string int | NonePinnable | ResolveFailed string pin_error
  | LockFailed lock_error | LockUnreadable | NoPinnedAsset string | Provenance string string string | TagMoved string string string
  | RefRejected pin_error | WriteLockFailed | DownloadFailed string | DigestDiffers string string string

text \<open>The value \<open>strconv.Atoi\<close> returns, also beside an error: 0 for malformed text, the nearest bound out of range.\<close>

definition Atoi_value :: "string \<Rightarrow> int" where
  "Atoi_value s =
     (let neg = (s \<noteq> [] \<and> hd s = CHR ''-'');
          d = (if s \<noteq> [] \<and> hd s \<in> {CHR ''-'', CHR ''+''} then tl s else s);
          v = (if neg then - int (digits_value 0 d) else int (digits_value 0 d)) in
      if d = [] \<or> \<not> list_all is_digit d then 0 else max (- (2 ^ 63)) (min (2 ^ 63 - 1) v))"

definition bnum :: "string \<Rightarrow> int" where "bnum ref = Atoi_value (TrimPrefix ref ''b'')"

definition Decide :: "string \<Rightarrow> string \<Rightarrow> bool \<Rightarrow> pin_error + bool" where
  "Decide current latest allowDowngrade =
     (if \<not> IsNightly latest then Inl (NotNightly latest)
      else if latest = current then Inr False
      else if bnum latest \<le> bnum current \<and> \<not> allowDowngrade then Inr False
      else Inr True)"

subsection \<open>Tags\<close>

definition tag_line :: "string \<Rightarrow> string \<Rightarrow> string \<times> string \<Rightarrow> string \<times> string" where
  "tag_line ref line = (\<lambda>(direct, peeled).
     case Fields line of
       [sha, name] \<Rightarrow>
         if name = ''refs/tags/'' @ ref then (sha, peeled)
         else if name = ''refs/tags/'' @ ref @ ''^{}'' then (direct, sha) else (direct, peeled)
     | _ \<Rightarrow> (direct, peeled))"

definition ResolveTag :: "(string list \<Rightarrow> string + string) \<Rightarrow> string \<Rightarrow> pin_error + string" where
  "ResolveTag lsRemote ref =
     (if \<not> IsNightly ref \<and> \<not> IsStable ref then Inl (BadRefKind ref)
      else case lsRemote [''refs/tags/'' @ ref, ''refs/tags/'' @ ref @ ''^{}''] of
        Inl e \<Rightarrow> Inl (GitFailed e)
      | Inr out \<Rightarrow>
        (let (direct, peeled) = fold (tag_line ref) (split_on (CHR 0x0A) out) ([], []);
             commit = (if peeled \<noteq> [] then peeled else direct) in
         if \<not> commit_ok commit then Inl (TagUnresolved ref direct peeled) else Inr commit))"

definition latest_line :: "string \<Rightarrow> string \<times> int \<Rightarrow> string \<times> int" where
  "latest_line line = (\<lambda>(best, n).
     case Fields line of
       [sha, name] \<Rightarrow>
         if HasSuffix name ''^{}'' \<or> \<not> HasPrefix name ''refs/tags/b'' then (best, n)
         else let ref = TrimPrefix name ''refs/tags/'' in
           if \<not> IsNightly ref then (best, n)
           else (case ParseInt (tl ref) of
                   Some m \<Rightarrow> if m > n then (ref, m) else (best, n)
                 | None \<Rightarrow> (best, n))
     | _ \<Rightarrow> (best, n))"

definition LatestNightlyTag :: "(string list \<Rightarrow> string + string) \<Rightarrow> pin_error + string" where
  "LatestNightlyTag lsRemote =
     (case lsRemote [''refs/tags/b*''] of
        Inl e \<Rightarrow> Inl (GitFailed e)
      | Inr out \<Rightarrow>
          let best = fst (fold latest_line (split_on (CHR 0x0A) out) ([], -1)) in
          if best = [] then Inl NoNightlyTags else Inr best)"

subsection \<open>Releases\<close>

record ReleaseAsset =
  raName :: string
  raDigest :: string
  raUpdatedAt :: int

record Release =
  reTagName :: string
  rePublishedAt :: int
  reAssets :: "ReleaseAsset list"

type_synonym digest_map = "(string \<times> string) list"

text \<open>The pairs of the two nested loops over assets and platforms.\<close>

definition asset_pairs :: "Release \<Rightarrow> (ReleaseAsset \<times> string) list" where
  "asset_pairs rel = List.product (reAssets rel) Platforms"

fun digest_pairs :: "string \<Rightarrow> (ReleaseAsset \<times> string) list \<Rightarrow> digest_map \<Rightarrow> pin_error + digest_map" where
  "digest_pairs tag [] ds = Inr ds"
| "digest_pairs tag ((a, p) # xs) ds =
     (if raName a = AssetName p tag then
        let d = TrimPrefix (raDigest a) ''sha256:'' in
        if \<not> sha_ok d then Inl (NoAssetDigest tag (raName a)) else digest_pairs tag xs (AList.update p d ds)
      else digest_pairs tag xs ds)"

definition AssetDigests :: "Release \<Rightarrow> pin_error + digest_map" where
  "AssetDigests rel =
     bind_res (digest_pairs (reTagName rel) (asset_pairs rel) []) (\<lambda>ds.
       if length ds \<noteq> length Platforms then Inl (MissingAssets (reTagName rel) (length ds)) else Inr ds)"

text \<open>A time 0 is Go's zero time, which a missing or null field decodes to.\<close>

fun soak_pairs :: "string \<Rightarrow> (ReleaseAsset \<times> string) list \<Rightarrow> digest_map \<times> int \<Rightarrow> (digest_map \<times> int) option" where
  "soak_pairs tag [] st = Some st"
| "soak_pairs tag ((a, p) # xs) (ds, youngest) =
     (if raName a \<noteq> AssetName p tag then soak_pairs tag xs (ds, youngest)
      else let d = TrimPrefix (raDigest a) ''sha256:''; u = raUpdatedAt a in
        if \<not> sha_ok d \<or> u = 0 then None
        else soak_pairs tag xs (AList.update p d ds, if youngest = 0 \<or> u > youngest then u else youngest))"

definition soakedMatrix :: "Release \<Rightarrow> (digest_map \<times> int) option" where
  "soakedMatrix rel =
     (case soak_pairs (reTagName rel) (asset_pairs rel) ([], 0) of
        None \<Rightarrow> None
      | Some (ds, youngest) \<Rightarrow> if length ds = length Platforms then Some (ds, youngest) else None)"

text \<open>\<open>time.Time.Sub\<close> stays within the range of a duration.\<close>

definition time_sub :: "int \<Rightarrow> int \<Rightarrow> int" where
  "time_sub a b = max (- (2 ^ 63)) (min (2 ^ 63 - 1) (a - b))"

definition pinnableDigests :: "Release \<Rightarrow> int \<Rightarrow> pin_error + digest_map \<times> int" where
  "pinnableDigests rel now =
     (if \<not> IsNightly (reTagName rel) then Inl (NotNightly (reTagName rel))
      else case soakedMatrix rel of
        None \<Rightarrow> Inl (IncompleteMatrix (reTagName rel))
      | Some (ds, youngest) \<Rightarrow>
          if time_sub now youngest < MinAge then Inl (TooYoung (reTagName rel) (time_sub now youngest))
          else Inr (ds, youngest))"

record Pinnable =
  piRef :: string
  piCommit :: string
  piDigests :: digest_map
  piYoungestAsset :: int

definition ValidatePinnableRelease ::
  "(string \<Rightarrow> string + Release) \<Rightarrow> (string list \<Rightarrow> string + string) \<Rightarrow> string \<Rightarrow> int \<Rightarrow> pin_error + Pinnable" where
  "ValidatePinnableRelease fetch lsRemote ref now =
     (if \<not> IsNightly ref then Inl (NotNightly ref)
      else case fetch ref of
        Inl e \<Rightarrow> Inl (ApiFailed e)
      | Inr rel \<Rightarrow>
          bind_res (pinnableDigests rel now) (\<lambda>(ds, youngest).
          bind_res (ResolveTag lsRemote ref) (\<lambda>commit.
            Inr \<lparr>piRef = reTagName rel, piCommit = commit, piDigests = ds, piYoungestAsset = youngest\<rparr>)))"

fun first_pinnable :: "int \<Rightarrow> Release list \<Rightarrow> (Release \<times> digest_map \<times> int) option" where
  "first_pinnable now [] = None"
| "first_pinnable now (rel # rels) =
     (case pinnableDigests rel now of Inl _ \<Rightarrow> first_pinnable now rels | Inr (ds, y) \<Rightarrow> Some (rel, ds, y))"

fun pinnable_pages ::
  "(nat \<Rightarrow> string + Release list) \<Rightarrow> (string \<Rightarrow> pin_error + string) \<Rightarrow> int \<Rightarrow> nat list \<Rightarrow> pin_error + Pinnable" where
  "pinnable_pages page resolve now [] = Inl NonePinnable"
| "pinnable_pages page resolve now (n # ns) =
     (case page n of
        Inl e \<Rightarrow> Inl (ApiFailed e)
      | Inr rels \<Rightarrow>
        if rels = [] then Inl NonePinnable
        else case first_pinnable now rels of
          None \<Rightarrow> pinnable_pages page resolve now ns
        | Some (rel, ds, youngest) \<Rightarrow>
            (case resolve (reTagName rel) of
               Inl e \<Rightarrow> Inl (ResolveFailed (reTagName rel) e)
             | Inr commit \<Rightarrow>
                 Inr \<lparr>piRef = reTagName rel, piCommit = commit, piDigests = ds, piYoungestAsset = youngest\<rparr>))"

definition newestPinnable ::
  "(nat \<Rightarrow> string + Release list) \<Rightarrow> (string \<Rightarrow> pin_error + string) \<Rightarrow> int \<Rightarrow> pin_error + Pinnable" where
  "newestPinnable page resolve now = pinnable_pages page resolve now [1..<11]"

subsection \<open>The command \<open>check-update\<close>\<close>

text \<open>A map gives the empty string for a missing key.\<close>

definition digest_of :: "digest_map \<Rightarrow> string \<Rightarrow> string" where
  "digest_of ds p = (case map_of ds p of None \<Rightarrow> [] | Some d \<Rightarrow> d)"

definition lockFromPin :: "Pinnable \<Rightarrow> string \<Rightarrow> Lock" where
  "lockFromPin pin updatedAt =
     \<lparr>lkRef = piRef pin, lkCommit = piCommit pin,
      lkAssets = map (\<lambda>p. (p, \<lparr>asPlatform = p, asURL = AssetURLFor (piRef pin) p, asSHA256 = digest_of (piDigests pin) p\<rparr>)) Platforms,
      lkUpdatedAt = updatedAt\<rparr>"

text \<open>What the tool meets: the lock file, the API, \<open>git\<close>, the clock and its text, and whether the file can be written.\<close>

record lock_env =
  leLock :: "string option"
  leRelease :: "string \<Rightarrow> string + Release"
  lePage :: "nat \<Rightarrow> string + Release list"
  leGit :: "string list \<Rightarrow> string + string"
  leNow :: int
  leNowText :: string
  leRFC :: "string \<Rightarrow> bool"
  leWritable :: bool
  leGet :: "string \<Rightarrow> string + string"

definition Load :: "lock_env \<Rightarrow> pin_error + Lock" where
  "Load env =
     (case leLock env of
        None \<Rightarrow> Inl LockUnreadable
      | Some data \<Rightarrow> (case ParseLock (leRFC env) data of Inl e \<Rightarrow> Inl (LockFailed e) | Inr lk \<Rightarrow> Inr lk))"

text \<open>The text printed, and the file as it is written.\<close>

datatype update_outcome = Noop string | Update string string "string option"

definition select_pin :: "lock_env \<Rightarrow> string \<Rightarrow> pin_error + Pinnable" where
  "select_pin env ref =
     (if ref \<noteq> [] then
        (case ValidatePinnableRelease (leRelease env) (leGit env) ref (leNow env) of
           Inl e \<Rightarrow> Inl (RefRejected e) | Inr p \<Rightarrow> Inr p)
      else newestPinnable (lePage env) (ResolveTag (leGit env)) (leNow env))"

definition check_update :: "lock_env \<Rightarrow> bool \<Rightarrow> string \<Rightarrow> bool \<Rightarrow> pin_error + update_outcome" where
  "check_update env writeIt ref allowDown =
     bind_res (Load env) (\<lambda>lk.
     bind_res (select_pin env ref) (\<lambda>pin.
     bind_res (Decide (lkRef lk) (piRef pin) allowDown) (\<lambda>update.
       if \<not> update then Inr (Noop (lkRef lk))
       else if \<not> writeIt then Inr (Update (lkRef lk) (piRef pin) None)
       else if \<not> leWritable env then Inl WriteLockFailed
       else Inr (Update (lkRef lk) (piRef pin) (Some (FormatLock (lockFromPin pin (leNowText env))))))))"

subsection \<open>The commands \<open>verify\<close> and \<open>fetch\<close>\<close>

definition ReleaseAssets :: "lock_env \<Rightarrow> string \<Rightarrow> pin_error + digest_map" where
  "ReleaseAssets env ref = (case leRelease env ref of Inl e \<Rightarrow> Inl (ApiFailed e) | Inr rel \<Rightarrow> AssetDigests rel)"

definition verify_lock :: "lock_env \<Rightarrow> pin_error + Lock" where
  "verify_lock env =
     bind_res (Load env) (\<lambda>lk.
     bind_res (ResolveTag (leGit env) (lkRef lk)) (\<lambda>commit.
       if commit \<noteq> lkCommit lk then Inl (TagMoved (lkRef lk) commit (lkCommit lk))
       else bind_res (ReleaseAssets env (lkRef lk)) (\<lambda>ds.
         case find (\<lambda>p. digest_of ds p \<noteq> asSHA256 (asset_of lk p)) Platforms of
           Some p \<Rightarrow> Inl (Provenance p (digest_of ds p) (asSHA256 (asset_of lk p)))
         | None \<Rightarrow> Inr lk)))"

text \<open>What \<open>resolve\<close>, \<open>latest-nightly\<close> and \<open>latest-pinnable\<close> print; \<open>fmt\<close> writes a time.\<close>

record resolved =
  rvRef :: string
  rvCommit :: string
  rvPublishedAt :: string
  rvYoungestAsset :: string
  rvSHA256 :: digest_map
  rvURL :: digest_map

definition asset_urls :: "string \<Rightarrow> digest_map \<Rightarrow> digest_map" where
  "asset_urls ref ds = map (\<lambda>(p, d). (p, AssetURLFor ref p)) ds"

definition resolveRef :: "(int \<Rightarrow> string) \<Rightarrow> lock_env \<Rightarrow> string \<Rightarrow> pin_error + resolved" where
  "resolveRef fmt env ref =
     bind_res (ResolveTag (leGit env) ref) (\<lambda>commit.
       case leRelease env ref of
         Inl e \<Rightarrow> Inl (ApiFailed e)
       | Inr rel \<Rightarrow>
           bind_res (AssetDigests rel) (\<lambda>ds.
             Inr \<lparr>rvRef = ref, rvCommit = commit, rvPublishedAt = fmt (rePublishedAt rel), rvYoungestAsset = [],
                  rvSHA256 = ds, rvURL = asset_urls ref ds\<rparr>))"

definition pinnableToResolved :: "(int \<Rightarrow> string) \<Rightarrow> Pinnable \<Rightarrow> resolved" where
  "pinnableToResolved fmt p =
     \<lparr>rvRef = piRef p, rvCommit = piCommit p, rvPublishedAt = [],
      rvYoungestAsset = (if piYoungestAsset p = 0 then [] else fmt (piYoungestAsset p)),
      rvSHA256 = piDigests p, rvURL = asset_urls (piRef p) (piDigests p)\<rparr>"

definition HostPlatform :: "string \<Rightarrow> string \<Rightarrow> string option" where
  "HostPlatform goos goarch =
     (if goarch \<noteq> ''amd64'' \<and> goarch \<noteq> ''arm64'' then None
      else find (\<lambda>x. x = goos @ ''_'' @ goarch) Platforms)"

definition maxAssetBytes :: nat where "maxAssetBytes = 512 * 2 ^ 20"

text \<open>At most one byte more than the bound is read, and all that is read is hashed.\<close>

definition DownloadAsset :: "lock_env \<Rightarrow> string \<Rightarrow> string \<Rightarrow> string \<Rightarrow> pin_error + string" where
  "DownloadAsset env url wantSHA platform =
     (case leGet env url of
        Inl e \<Rightarrow> Inl (DownloadFailed url)
      | Inr body \<Rightarrow>
          let b = take (maxAssetBytes + 1) body; got = sha256_hex b in
          if got \<noteq> wantSHA then Inl (DigestDiffers got wantSHA platform) else Inr b)"

definition fetch_target :: "lock_env \<Rightarrow> string \<Rightarrow> string \<Rightarrow> pin_error + string \<times> string" where
  "fetch_target env platform refOverride =
     (if refOverride \<noteq> [] then
        if \<not> IsNightly refOverride then Inl (NotNightly refOverride)
        else bind_res (ReleaseAssets env refOverride) (\<lambda>ds.
          Inr (AssetURLFor refOverride platform, digest_of ds platform))
      else bind_res (Load env) (\<lambda>lk.
        case map_of (lkAssets lk) platform of
          None \<Rightarrow> Inl (NoPinnedAsset platform)
        | Some a \<Rightarrow>
          bind_res (ReleaseAssets env (lkRef lk)) (\<lambda>ds.
            if digest_of ds platform \<noteq> asSHA256 a then Inl (Provenance platform (digest_of ds platform) (asSHA256 a))
            else Inr (asURL a, asSHA256 a))))"

definition fetch_archive :: "lock_env \<Rightarrow> string \<Rightarrow> string \<Rightarrow> pin_error + string" where
  "fetch_archive env platform refOverride =
     bind_res (fetch_target env platform refOverride) (\<lambda>(url, sha). DownloadAsset env url sha platform)"

subsection \<open>Arguments of \<open>fetch\<close>\<close>

datatype arg_error = RefNeedsValue | EmptyRef | DuplicateRef string string | UnknownFlag string | WrongPositionals nat

definition takeRef :: "string \<Rightarrow> string \<Rightarrow> arg_error + string" where
  "takeRef cur v = (if v = [] then Inl EmptyRef else if cur \<noteq> [] then Inl (DuplicateRef cur v) else Inr v)"

fun fetch_args :: "string list \<Rightarrow> string \<Rightarrow> string list \<Rightarrow> arg_error + string \<times> string list" where
  "fetch_args [] ref pos = Inr (ref, pos)"
| "fetch_args (a # as) ref pos =
     (if a = ''--ref'' \<or> a = ''-ref'' then
        (case as of [] \<Rightarrow> Inl RefNeedsValue | v # as' \<Rightarrow> bind_res (takeRef ref v) (\<lambda>r. fetch_args as' r pos))
      else if HasPrefix a ''--ref='' then bind_res (takeRef ref (TrimPrefix a ''--ref='')) (\<lambda>r. fetch_args as r pos)
      else if HasPrefix a ''-ref='' then bind_res (takeRef ref (TrimPrefix a ''-ref='')) (\<lambda>r. fetch_args as r pos)
      else if HasPrefix a ''-'' \<and> a \<noteq> ''-'' then Inl (UnknownFlag a)
      else fetch_args as ref (pos @ [a]))"

definition parseFetchArgs :: "string list \<Rightarrow> arg_error + string \<times> string \<times> string" where
  "parseFetchArgs args =
     bind_res (fetch_args args [] []) (\<lambda>(ref, pos).
       case pos of [platform, dest] \<Rightarrow> Inr (platform, dest, ref) | _ \<Rightarrow> Inl (WrongPositionals (length pos)))"

subsection \<open>What the soak judged\<close>

definition matching :: "string \<Rightarrow> ReleaseAsset \<times> string \<Rightarrow> bool" where
  "matching tag = (\<lambda>(a, p). raName a = AssetName p tag)"

definition hash_of :: "ReleaseAsset \<Rightarrow> string" where "hash_of a = TrimPrefix (raDigest a) ''sha256:''"

text \<open>\<open>ds'\<close> has what \<open>ds\<close> has, or the digest of an asset of the pairs.\<close>

definition from_pairs :: "string \<Rightarrow> (ReleaseAsset \<times> string) list \<Rightarrow> digest_map \<Rightarrow> digest_map \<Rightarrow> bool" where
  "from_pairs tag xs ds ds' \<longleftrightarrow> (distinct (map fst ds) \<longrightarrow> distinct (map fst ds'))
     \<and> (\<forall>p d. map_of ds' p = Some d \<longrightarrow> map_of ds p = Some d
          \<or> (\<exists>a. (a, p) \<in> set xs \<and> matching tag (a, p) \<and> d = hash_of a \<and> sha_ok d))"

lemma from_pairs_refl: "from_pairs tag xs ds ds"
  by (simp add: from_pairs_def)

lemma from_pairs_skip: "from_pairs tag xs ds ds' \<Longrightarrow> from_pairs tag (x # xs) ds ds'"
  by (auto simp: from_pairs_def)

lemma from_pairs_step:
  "matching tag (a, p) \<Longrightarrow> sha_ok (hash_of a) \<Longrightarrow> from_pairs tag xs (AList.update p (hash_of a) ds) ds'
    \<Longrightarrow> from_pairs tag ((a, p) # xs) ds ds'"
  by (auto simp: from_pairs_def distinct_update update_conv' split: if_splits)

lemma digest_pairs_ok: "digest_pairs tag xs ds = Inr ds' \<Longrightarrow> from_pairs tag xs ds ds'"
proof (induction tag xs ds rule: digest_pairs.induct)
  case (2 tag a p xs ds)
  show ?case
  proof (cases "raName a = AssetName p tag")
    case True
    then have "sha_ok (hash_of a)" "digest_pairs tag xs (AList.update p (hash_of a) ds) = Inr ds'"
      using "2.prems" by (auto simp: hash_of_def Let_def split: if_splits)
    then show ?thesis using "2.IH"(1) [OF True refl] True by (intro from_pairs_step) (simp_all add: matching_def hash_of_def)
  next
    case False
    then show ?thesis using "2.IH"(2) "2.prems" by (intro from_pairs_skip) simp
  qed
qed (simp add: from_pairs_refl)

lemma soak_pairs_ok:
  "soak_pairs tag xs (ds, y) = Some (ds', y') \<Longrightarrow> from_pairs tag xs ds ds'
     \<and> (y \<noteq> 0 \<longrightarrow> y \<le> y' \<and> y' \<noteq> 0)
     \<and> (\<forall>(a, p) \<in> set xs. matching tag (a, p) \<longrightarrow> raUpdatedAt a \<noteq> 0 \<and> raUpdatedAt a \<le> y')"
proof (induction xs arbitrary: ds y)
  case Nil
  then show ?case by (simp add: from_pairs_refl)
next
  case (Cons x xs)
  obtain a p where x: "x = (a, p)" by (cases x)
  show ?case
  proof (cases "raName a = AssetName p tag")
    case False
    then have "soak_pairs tag xs (ds, y) = Some (ds', y')" using Cons.prems by (simp add: x)
    from Cons.IH [OF this] False show ?thesis by (auto simp: x matching_def intro: from_pairs_skip)
  next
    case True
    define u where "u = raUpdatedAt a"
    define y1 where "y1 = (if y = 0 \<or> u > y then u else y)"
    have h: "sha_ok (hash_of a)" "u \<noteq> 0" "soak_pairs tag xs (AList.update p (hash_of a) ds, y1) = Some (ds', y')"
      using Cons.prems True by (auto simp: x hash_of_def Let_def u_def y1_def split: if_splits)
    note ih = Cons.IH [OF h(3)]
    have "y1 \<noteq> 0" "u \<le> y1" "y \<noteq> 0 \<longrightarrow> y \<le> y1" using h(2) by (auto simp: y1_def)
    then show ?thesis
      using ih h(1,2) True from_pairs_step [of tag a p xs ds ds'] by (auto simp: x matching_def u_def)
  qed
qed

lemma set_asset_pairs: "(a, p) \<in> set (asset_pairs rel) \<longleftrightarrow> a \<in> set (reAssets rel) \<and> p \<in> set Platforms"
  by (auto simp: asset_pairs_def)

text \<open>A complete map of digests has one for each platform, that of an asset of the release.\<close>

definition digests_of_release :: "Release \<Rightarrow> digest_map \<Rightarrow> bool" where
  "digests_of_release rel ds \<longleftrightarrow>
     (\<forall>p \<in> set Platforms. \<exists>a \<in> set (reAssets rel). raName a = AssetName p (reTagName rel) \<and> digest_of ds p = hash_of a \<and> sha_ok (hash_of a))
   \<and> (\<forall>p. p \<notin> set Platforms \<longrightarrow> digest_of ds p = [])"

lemma complete_digests:
  assumes f: "from_pairs (reTagName rel) (asset_pairs rel) [] ds" and n: "length ds = length Platforms"
  shows "digests_of_release rel ds"
proof -
  have d: "distinct (map fst ds)" using f by (simp add: from_pairs_def)
  have src: "\<exists>a. a \<in> set (reAssets rel) \<and> p \<in> set Platforms \<and> raName a = AssetName p (reTagName rel) \<and> v = hash_of a \<and> sha_ok v"
    if "map_of ds p = Some v" for p v
    using f that by (fastforce simp: from_pairs_def set_asset_pairs matching_def)
  have sub: "fst ` set ds \<subseteq> set Platforms"
  proof
    fix p assume "p \<in> fst ` set ds"
    then obtain v where "(p, v) \<in> set ds" by auto
    then have "map_of ds p = Some v" by (rule map_of_is_SomeI [OF d])
    then show "p \<in> set Platforms" using src by blast
  qed
  have "fst ` set ds = set Platforms"
  proof (rule card_subset_eq [OF _ sub])
    have "card (set (map fst ds)) = length ds" using distinct_card [OF d] by simp
    moreover have "card (set Platforms) = length Platforms" by (simp add: Platforms_def)
    ultimately show "card (fst ` set ds) = card (set Platforms)" using n by simp
  qed simp
  then have dom: "map_of ds p = None \<longleftrightarrow> p \<notin> set Platforms" for p by (simp add: map_of_eq_None_iff)
  show ?thesis
    unfolding digests_of_release_def
  proof (intro conjI ballI allI impI)
    fix p assume "p \<in> set Platforms"
    then obtain v where "map_of ds p = Some v" using dom by fastforce
    with src [OF this]
    show "\<exists>a\<in>set (reAssets rel). raName a = AssetName p (reTagName rel) \<and> digest_of ds p = hash_of a \<and> sha_ok (hash_of a)"
      by (auto simp: digest_of_def)
  next
    fix p assume "p \<notin> set Platforms"
    then have "map_of ds p = None" using dom by blast
    then show "digest_of ds p = []" by (simp add: digest_of_def)
  qed
qed

lemma AssetDigests_ok: "AssetDigests rel = Inr ds \<Longrightarrow> digests_of_release rel ds"
  by (rule complete_digests) (auto simp: AssetDigests_def bind_res_Inr digest_pairs_ok split: if_splits)

text \<open>Every asset of a shipped platform is as old as the soak wants.\<close>

definition soaked :: "int \<Rightarrow> Release \<Rightarrow> bool" where
  "soaked now rel \<longleftrightarrow>
     (\<forall>a \<in> set (reAssets rel). \<forall>p \<in> set Platforms. raName a = AssetName p (reTagName rel) \<longrightarrow> raUpdatedAt a \<noteq> 0 \<and> MinAge \<le> now - raUpdatedAt a)"

lemma time_sub_MinAge: "MinAge \<le> time_sub a b \<Longrightarrow> MinAge \<le> a - b"
  by (auto simp: time_sub_def MinAge_def max_def min_def split: if_splits)

lemma pinnableDigests_ok:
  assumes "pinnableDigests rel now = Inr (ds, y)"
  shows "IsNightly (reTagName rel) \<and> digests_of_release rel ds \<and> soaked now rel"
proof -
  have s: "soak_pairs (reTagName rel) (asset_pairs rel) ([], 0) = Some (ds, y)" "length ds = length Platforms"
    "IsNightly (reTagName rel)" and age: "MinAge \<le> time_sub now y"
    using assms by (auto simp: pinnableDigests_def soakedMatrix_def split: if_splits option.splits)
  note f = soak_pairs_ok [OF s(1)]
  have "soaked now rel"
    unfolding soaked_def
  proof (intro ballI impI)
    fix a p assume a: "a \<in> set (reAssets rel)" "p \<in> set Platforms" "raName a = AssetName p (reTagName rel)"
    have "\<forall>x \<in> set (asset_pairs rel). matching (reTagName rel) x \<longrightarrow> raUpdatedAt (fst x) \<noteq> 0 \<and> raUpdatedAt (fst x) \<le> y"
      using f by auto
    then have "raUpdatedAt a \<noteq> 0 \<and> raUpdatedAt a \<le> y"
      using a by (auto simp: set_asset_pairs matching_def dest: bspec [of _ _ "(a, p)"])
    then show "raUpdatedAt a \<noteq> 0 \<and> MinAge \<le> now - raUpdatedAt a" using time_sub_MinAge [OF age] by simp
  qed
  then show ?thesis using s(3) complete_digests [OF conjunct1 [OF f] s(2)] by simp
qed

subsection \<open>The pin is one validated release\<close>

lemma ResolveTag_ok: "ResolveTag git r = Inr c \<Longrightarrow> commit_ok c"
  by (auto simp: ResolveTag_def Let_def split: if_splits sum.splits prod.splits)

lemma first_pinnable_ok:
  "first_pinnable now rels = Some (rel, ds, y) \<Longrightarrow> rel \<in> set rels \<and> pinnableDigests rel now = Inr (ds, y)"
  by (induction rels) (auto split: sum.splits)

lemma pinnable_pages_ok:
  "pinnable_pages page resolve now ns = Inr pin \<Longrightarrow>
    \<exists>n rels rel. n \<in> set ns \<and> page n = Inr rels \<and> rel \<in> set rels \<and> piRef pin = reTagName rel
      \<and> pinnableDigests rel now = Inr (piDigests pin, piYoungestAsset pin)
      \<and> first_pinnable now rels = Some (rel, piDigests pin, piYoungestAsset pin)
      \<and> resolve (reTagName rel) = Inr (piCommit pin)
      \<and> (\<forall>m \<in> set (takeWhile (\<lambda>m. m \<noteq> n) ns). \<exists>rs. page m = Inr rs \<and> first_pinnable now rs = None)"
proof (induction ns)
  case (Cons n ns)
  obtain rels where rels: "page n = Inr rels" "rels \<noteq> []" using Cons.prems by (auto split: sum.splits if_splits)
  show ?case
  proof (cases "first_pinnable now rels")
    case None
    then have "pinnable_pages page resolve now ns = Inr pin" using Cons.prems rels by simp
    from Cons.IH [OF this] show ?thesis using rels None by (auto; metis)
  next
    case (Some x)
    then obtain rel ds y where x: "first_pinnable now rels = Some (rel, ds, y)" by (cases x) auto
    then obtain c where "resolve (reTagName rel) = Inr c"
        "pin = \<lparr>piRef = reTagName rel, piCommit = c, piDigests = ds, piYoungestAsset = y\<rparr>"
      using Cons.prems rels by (auto split: sum.splits)
    then show ?thesis using rels x first_pinnable_ok [OF x] by (intro exI [of _ n] exI [of _ rels] exI [of _ rel]) simp
  qed
qed simp

text \<open>The release a selection comes from, and the commit its tag resolves to.\<close>

lemma select_pin_ok:
  assumes "select_pin env ref = Inr pin"
  shows "\<exists>rel. piRef pin = reTagName rel \<and> pinnableDigests rel (leNow env) = Inr (piDigests pin, piYoungestAsset pin)
     \<and> ResolveTag (leGit env) (if ref = [] then piRef pin else ref) = Inr (piCommit pin)
     \<and> (if ref = [] then (\<exists>n rels. lePage env n = Inr rels
            \<and> first_pinnable (leNow env) rels = Some (rel, piDigests pin, piYoungestAsset pin)
            \<and> (\<forall>m. 1 \<le> m \<and> m < n \<longrightarrow> (\<exists>rs. lePage env m = Inr rs \<and> first_pinnable (leNow env) rs = None)))
        else leRelease env ref = Inr rel)"
proof (cases "ref = []")
  case True
  then have "pinnable_pages (lePage env) (ResolveTag (leGit env)) (leNow env) [1..<11] = Inr pin"
    using assms by (simp add: select_pin_def newestPinnable_def)
  from pinnable_pages_ok [OF this] obtain n rels rel where n: "n \<in> set [1..<11]" and
    p: "lePage env n = Inr rels" "piRef pin = reTagName rel"
      "pinnableDigests rel (leNow env) = Inr (piDigests pin, piYoungestAsset pin)"
      "first_pinnable (leNow env) rels = Some (rel, piDigests pin, piYoungestAsset pin)"
      "ResolveTag (leGit env) (reTagName rel) = Inr (piCommit pin)"
    and before: "\<forall>m \<in> set (takeWhile (\<lambda>m. m \<noteq> n) [1..<11]). \<exists>rs. lePage env m = Inr rs \<and> first_pinnable (leNow env) rs = None"
    by blast
  have "[1..<11] = [1..<n] @ n # [Suc n..<11]" using n upt_conv_Cons [of n 11] upt_add_eq_append [of 1 n "11 - n"] by simp
  then have "takeWhile (\<lambda>m. m \<noteq> n) [1..<11] = [1..<n]" by (simp add: takeWhile_tail)
  then have "\<forall>m. 1 \<le> m \<and> m < n \<longrightarrow> (\<exists>rs. lePage env m = Inr rs \<and> first_pinnable (leNow env) rs = None)"
    using before by simp
  then show ?thesis using p True unfolding p(2) by (intro exI [of _ rel]) auto
next
  case False
  then have "ValidatePinnableRelease (leRelease env) (leGit env) ref (leNow env) = Inr pin"
    using assms by (auto simp: select_pin_def split: sum.splits)
  then show ?thesis using False
    by (auto simp: ValidatePinnableRelease_def bind_res_Inr split: if_splits sum.splits)
qed

lemma asset_of_lockFromPin:
  "p \<in> set Platforms \<Longrightarrow> asset_of (lockFromPin pin t) p
     = \<lparr>asPlatform = p, asURL = AssetURLFor (piRef pin) p, asSHA256 = digest_of (piDigests pin) p\<rparr>"
  by (auto simp: asset_of_def lockFromPin_def Platforms_def)

lemma lockFromPin_valid:
  assumes "pinnableDigests rel now = Inr (piDigests pin, y)" and "piRef pin = reTagName rel" and "commit_ok (piCommit pin)" and "rfc t"
  shows "valid_lock rfc (lockFromPin pin t) \<and> canonical_lock (lockFromPin pin t) = lockFromPin pin t"
proof
  note d = pinnableDigests_ok [OF assms(1)]
  have sha: "sha_ok (digest_of (piDigests pin) p)" if "p \<in> set Platforms" for p
    using d that by (auto simp: digests_of_release_def)
  have "fst ` set (lkAssets (lockFromPin pin t)) = set Platforms" "distinct (map fst (lkAssets (lockFromPin pin t)))"
    "lkRef (lockFromPin pin t) = piRef pin" "lkCommit (lockFromPin pin t) = piCommit pin" "lkUpdatedAt (lockFromPin pin t) = t"
    by (simp_all add: lockFromPin_def Platforms_def)
  then show "valid_lock rfc (lockFromPin pin t)"
    using d assms(2-4) sha by (simp add: valid_lock_def asset_of_lockFromPin)
  have "map (\<lambda>p. (p, asset_of (lockFromPin pin t) p)) Platforms = lkAssets (lockFromPin pin t)"
    using asset_of_lockFromPin [of _ pin t] by (subst lockFromPin_def) simp
  then show "canonical_lock (lockFromPin pin t) = lockFromPin pin t" by (simp add: canonical_lock_def)
qed

text \<open>
  C33: what the tool writes as the new pin is one validated release, if the release API answers a request for a tag with the
  release of that tag (the tool does not check it: lemma \<open>ValidatePinnable_other_tag\<close>). The file parses again, to the
  release's tag with the canonical addresses, with for each platform the digest that very release reported for its asset, each
  of whose assets was at least seven days old, and with the commit that very tag resolves to; chosen automatically it is the
  first such release of the listing; and it is another release than before, with a greater number
  unless a downgrade was asked for.
\<close>

theorem check_update_pins_soaked:
  assumes "\<forall>t. leRFC env t \<longrightarrow> plain t" and "leRFC env (leNowText env)"
    and "\<And>t r. leRelease env t = Inr r \<Longrightarrow> reTagName r = t"
    and "check_update env writeIt ref allowDown = Inr (Update old new (Some written))"
  shows "\<exists>lk rel. ParseLock (leRFC env) written = Inr lk \<and> lkRef lk = new \<and> reTagName rel = new
     \<and> soaked (leNow env) rel
     \<and> (\<forall>p \<in> set Platforms. asURL (asset_of lk p) = AssetURLFor new p
          \<and> (\<exists>a \<in> set (reAssets rel). raName a = AssetName p new \<and> asSHA256 (asset_of lk p) = hash_of a))
     \<and> ResolveTag (leGit env) new = Inr (lkCommit lk)
     \<and> (if ref = [] then (\<exists>n rels ds y. lePage env n = Inr rels \<and> first_pinnable (leNow env) rels = Some (rel, ds, y)
            \<and> (\<forall>m. 1 \<le> m \<and> m < n \<longrightarrow> (\<exists>rs. lePage env m = Inr rs \<and> first_pinnable (leNow env) rs = None)))
        else leRelease env ref = Inr rel)
     \<and> new \<noteq> old \<and> (\<not> allowDown \<longrightarrow> bnum old < bnum new)"
proof -
  from assms(4) obtain lk0 :: Lock and pin where pin: "select_pin env ref = Inr pin" "Decide (lkRef lk0) (piRef pin) allowDown = Inr True"
      "old = lkRef lk0" "new = piRef pin" and w: "written = FormatLock (lockFromPin pin (leNowText env))"
    unfolding check_update_def bind_res_Inr by (auto split: if_splits)
  obtain rel where rel: "piRef pin = reTagName rel" "pinnableDigests rel (leNow env) = Inr (piDigests pin, piYoungestAsset pin)"
      "ResolveTag (leGit env) (if ref = [] then piRef pin else ref) = Inr (piCommit pin)"
    and chosen: "if ref = [] then (\<exists>n rels. lePage env n = Inr rels
            \<and> first_pinnable (leNow env) rels = Some (rel, piDigests pin, piYoungestAsset pin)
            \<and> (\<forall>m. 1 \<le> m \<and> m < n \<longrightarrow> (\<exists>rs. lePage env m = Inr rs \<and> first_pinnable (leNow env) rs = None)))
        else leRelease env ref = Inr rel"
    using select_pin_ok [OF pin(1)] by blast
  note d = pinnableDigests_ok [OF rel(2)]
  let ?lk = "lockFromPin pin (leNowText env)"
  have "ParseLock (leRFC env) written = Inr ?lk"
    using lockFromPin_valid [OF rel(2,1) ResolveTag_ok [OF rel(3)], of "leRFC env" "leNowText env"] assms(2)
      lock_parses_back [OF assms(1)] w by auto
  moreover have "lkRef ?lk = new" using pin(4) by (simp add: lockFromPin_def)
  moreover have "\<forall>p \<in> set Platforms. asURL (asset_of ?lk p) = AssetURLFor new p
      \<and> (\<exists>a \<in> set (reAssets rel). raName a = AssetName p new \<and> asSHA256 (asset_of ?lk p) = hash_of a)"
    using d rel(1) pin(4) by (auto simp: asset_of_lockFromPin digests_of_release_def)
  moreover have "new \<noteq> old \<and> (\<not> allowDown \<longrightarrow> bnum old < bnum new)"
    using pin(2-4) by (auto simp: Decide_def split: if_splits)
  moreover have "if ref = [] then (\<exists>n rels ds y. lePage env n = Inr rels \<and> first_pinnable (leNow env) rels = Some (rel, ds, y)
            \<and> (\<forall>m. 1 \<le> m \<and> m < n \<longrightarrow> (\<exists>rs. lePage env m = Inr rs \<and> first_pinnable (leNow env) rs = None)))
        else leRelease env ref = Inr rel"
    using chosen by (cases "ref = []") (simp, blast, simp)
  moreover have "ResolveTag (leGit env) new = Inr (lkCommit ?lk)"
  proof -
    have "ref \<noteq> [] \<Longrightarrow> ref = new" using chosen assms(3) rel(1) pin(4) by auto
    then have "(if ref = [] then piRef pin else ref) = new" using pin(4) by auto
    then show ?thesis using rel(3) by (simp add: lockFromPin_def)
  qed
  moreover have "reTagName rel = new" "soaked (leNow env) rel" using rel(1) pin(4) d by simp_all
  ultimately show ?thesis by (intro exI [of _ ?lk] exI [of _ rel]) blast
qed

text \<open>Two assets of 2026, eight days before the clock.\<close>

definition demo_asset :: "string \<Rightarrow> ReleaseAsset" where
  "demo_asset p = \<lparr>raName = AssetName p ''b42'', raDigest = ''sha256:'' @ replicate 64 CHR ''0'', raUpdatedAt = 10 ^ 18\<rparr>"

definition demo_release :: Release where
  "demo_release = \<lparr>reTagName = ''b42'', rePublishedAt = 10 ^ 18, reAssets = map demo_asset Platforms\<rparr>"

definition old_lock :: Lock where
  "old_lock = \<lparr>lkRef = ''b41'', lkCommit = replicate 40 CHR ''b'',
     lkAssets = map (\<lambda>p. (p, \<lparr>asPlatform = p, asURL = AssetURLFor ''b41'' p, asSHA256 = replicate 64 CHR ''1''\<rparr>)) Platforms,
     lkUpdatedAt = ''2026-09-05T00:00:00Z''\<rparr>"

definition demo_time :: "string \<Rightarrow> bool" where "demo_time t \<longleftrightarrow> t = ''2026-09-05T00:00:00Z''"

definition demo_lock_env :: lock_env where
  "demo_lock_env = \<lparr>leLock = Some (FormatLock old_lock), leRelease = (\<lambda>t. if t = ''b42'' then Inr demo_release else Inl ''404''), lePage = (\<lambda>_. Inr [demo_release]),
     leGit = (\<lambda>_. Inr (replicate 40 CHR ''c'' @ '' refs/tags/b42'')), leNow = 10 ^ 18 + 8 * 24 * 3600 * 10 ^ 9,
     leNowText = ''2026-09-05T00:00:00Z'', leRFC = demo_time, leWritable = True, leGet = (\<lambda>_. Inl ''404'')\<rparr>"

lemma demo_time_plain: "\<forall>t. demo_time t \<longrightarrow> plain t"
proof -
  have "plain ''2026-09-05T00:00:00Z''" by code_simp
  then show ?thesis by (simp add: demo_time_def)
qed

lemma old_lock_loads: "Load demo_lock_env = Inr old_lock"
proof -
  have "IsNightly ''b41''" "commit_ok (replicate 40 CHR ''b'')" "sha_ok (replicate 64 CHR ''1'')" by code_simp+
  then have "valid_lock demo_time old_lock"
    unfolding valid_lock_def old_lock_def by (auto simp: Platforms_def asset_of_def demo_time_def)
  from lock_parses_back [OF demo_time_plain this]
  have "ParseLock demo_time (FormatLock old_lock) = Inr (canonical_lock old_lock)" .
  moreover have "canonical_lock old_lock = old_lock"
    by (simp add: canonical_lock_def old_lock_def Platforms_def asset_of_def)
  ultimately show ?thesis by (simp add: Load_def demo_lock_env_def)
qed

lemma demo_update:
  "\<exists>w. check_update demo_lock_env True [] False = Inr (Update ''b41'' ''b42'' (Some w))"
proof -
  have "first_pinnable (10 ^ 18 + 8 * 24 * 3600 * 10 ^ 9) [demo_release]
      = Some (demo_release, map (\<lambda>p. (p, replicate 64 CHR ''0'')) Platforms, 10 ^ 18)" by code_simp
  moreover have "ResolveTag (\<lambda>_. Inr (replicate 40 CHR ''c'' @ '' refs/tags/b42'')) ''b42'' = Inr (replicate 40 CHR ''c'')" by code_simp
  moreover have "[1..<11] = (1::nat) # [2..<11]" by (simp add: upt_conv_Cons)
  ultimately have "select_pin demo_lock_env [] = Inr \<lparr>piRef = ''b42'', piCommit = replicate 40 CHR ''c'',
      piDigests = map (\<lambda>p. (p, replicate 64 CHR ''0'')) Platforms, piYoungestAsset = 10 ^ 18\<rparr>"
    by (simp add: select_pin_def newestPinnable_def demo_lock_env_def demo_release_def)
  moreover have "Decide ''b41'' ''b42'' False = Inr True" by code_simp
  moreover have "lkRef old_lock = ''b41''" by (simp add: old_lock_def)
  moreover have "leWritable demo_lock_env" by (simp add: demo_lock_env_def)
  ultimately show ?thesis unfolding check_update_def old_lock_loads by simp
qed

lemma check_update_pins_soaked_witness:
  "\<exists>w lk. check_update demo_lock_env True [] False = Inr (Update ''b41'' ''b42'' (Some w))
     \<and> ParseLock demo_time w = Inr lk \<and> lkRef lk = ''b42'' \<and> lkCommit lk = replicate 40 CHR ''c''"
proof -
  have e: "leRFC demo_lock_env = demo_time" "leRFC demo_lock_env (leNowText demo_lock_env)" "\<forall>t. leRFC demo_lock_env t \<longrightarrow> plain t"
    using demo_time_plain by (simp_all add: demo_lock_env_def demo_time_def)
  obtain w where w: "check_update demo_lock_env True [] False = Inr (Update ''b41'' ''b42'' (Some w))" using demo_update by blast
  have "ResolveTag (leGit demo_lock_env) ''b42'' = Inr (replicate 40 CHR ''c'')" by code_simp
  moreover have "reTagName r = t" if "leRelease demo_lock_env t = Inr r" for t r
    using that by (auto simp: demo_lock_env_def demo_release_def split: if_splits)
  ultimately show ?thesis using check_update_pins_soaked [OF e(3,2) _ w] w by (auto simp: e(1))
qed

subsection \<open>Only verified bytes are unpacked\<close>

text \<open>
  The archive that is handed to extraction hashes to the digest the release API gives for the very asset of
  this platform, and without an explicit release also to the digest in the lock file; an
  unknown platform, and a body longer than the bound, never get through unnoticed.
\<close>

lemma fetch_verified:
  assumes "fetch_archive env platform ref = Inr b"
  shows "\<exists>tag rel a. leRelease env tag = Inr rel \<and> a \<in> set (reAssets rel) \<and> raName a = AssetName platform (reTagName rel)
     \<and> sha256_hex b = hash_of a \<and> platform \<in> set Platforms
     \<and> (\<exists>body. leGet env (AssetURLFor tag platform) = Inr body \<and> b = take (maxAssetBytes + 1) body)
     \<and> (if ref = [] then (\<exists>lk. Load env = Inr lk \<and> tag = lkRef lk \<and> sha256_hex b = asSHA256 (asset_of lk platform)) else tag = ref)"
proof -
  obtain url sha where t: "fetch_target env platform ref = Inr (url, sha)" and d: "DownloadAsset env url sha platform = Inr b"
    using assms by (auto simp: fetch_archive_def bind_res_Inr)
  obtain body where body: "leGet env url = Inr body" "b = take (maxAssetBytes + 1) body" "sha256_hex b = sha"
    using d by (auto simp: DownloadAsset_def Let_def split: sum.splits if_splits)
  have long: "sha \<noteq> []" using body(3) length_sha256_hex [of b] by auto
  have found: "\<exists>rel a. leRelease env tag = Inr rel \<and> a \<in> set (reAssets rel) \<and> raName a = AssetName platform (reTagName rel)
      \<and> digest_of ds platform = hash_of a \<and> platform \<in> set Platforms"
    if ra: "ReleaseAssets env tag = Inr ds" and sha: "digest_of ds platform = sha" for tag ds
  proof -
    obtain rel where rel: "leRelease env tag = Inr rel" "AssetDigests rel = Inr ds"
      using ra by (auto simp: ReleaseAssets_def split: sum.splits)
    note all = AssetDigests_ok [OF rel(2), unfolded digests_of_release_def]
    then have "platform \<in> set Platforms" using sha long by auto
    then show ?thesis using all rel(1) by blast
  qed
  show ?thesis
  proof (cases "ref = []")
    case False
    then obtain ds where "ReleaseAssets env ref = Inr ds" "url = AssetURLFor ref platform" "sha = digest_of ds platform"
      using t by (auto simp: fetch_target_def bind_res_Inr split: if_splits)
    then show ?thesis using found [of ref ds] body False by auto
  next
    case True
    then obtain lk a ds where lk: "Load env = Inr lk" "map_of (lkAssets lk) platform = Some a" "ReleaseAssets env (lkRef lk) = Inr ds"
        "digest_of ds platform = asSHA256 a" "url = asURL a" "sha = asSHA256 a"
      using t by (auto simp: fetch_target_def bind_res_Inr split: if_splits option.splits)
    have "valid_lock (leRFC env) lk"
      using lk(1) ParseLock_valid by (auto simp: Load_def split: option.splits sum.splits)
    moreover have a: "asset_of lk platform = a" using lk(2) by (simp add: asset_of_def)
    moreover have "platform \<in> fst ` set (lkAssets lk)" using lk(2) by (force dest: map_of_SomeD)
    ultimately have "url = AssetURLFor (lkRef lk) platform" using lk(5) by (auto simp: valid_lock_def)
    then show ?thesis using found [OF lk(3)] lk body True a by auto
  qed
qed

definition fetch_env :: lock_env where
  "fetch_env = demo_lock_env\<lparr>leRelease := \<lambda>_. Inr (demo_release\<lparr>reAssets := map (\<lambda>p. (demo_asset p)\<lparr>raDigest := ''sha256:'' @ sha256_hex ''tar''\<rparr>) Platforms\<rparr>),
     leGet := \<lambda>_. Inr ''tar''\<rparr>"

lemma demo_fetch: "fetch_archive fetch_env ''linux_amd64'' ''b42'' = Inr ''tar''"
proof -
  have s: "sha_ok (sha256_hex ''tar'')"
    using hex_encode_chars by (auto simp: sha_ok_def list_all_iff sha256_hex_def [of "''tar''"])
  have p: "TrimPrefix (''sha256:'' @ sha256_hex ''tar'') ''sha256:'' = sha256_hex ''tar''" by (rule TrimPrefix_append)
  have n: "IsNightly ''b42''" "AssetName ''darwin_arm64'' ''b42'' \<noteq> AssetName ''linux_amd64'' ''b42''" by code_simp+
  have "ReleaseAssets fetch_env ''b42'' = Inr [(''darwin_arm64'', sha256_hex ''tar''), (''linux_amd64'', sha256_hex ''tar'')]"
    using s p n(2) by (simp add: ReleaseAssets_def fetch_env_def demo_release_def demo_asset_def AssetDigests_def asset_pairs_def Platforms_def Let_def)
  then have "fetch_target fetch_env ''linux_amd64'' ''b42'' = Inr (AssetURLFor ''b42'' ''linux_amd64'', sha256_hex ''tar'')"
    using n(1) by (simp add: fetch_target_def digest_of_def)
  moreover have "leGet fetch_env u = Inr ''tar''" for u by (simp add: fetch_env_def)
  moreover have "take (maxAssetBytes + 1) ''tar'' = ''tar''" by (rule take_all) (simp add: maxAssetBytes_def)
  ultimately show ?thesis by (simp add: fetch_archive_def DownloadAsset_def Let_def)
qed

lemma fetch_verified_witness:
  "\<exists>rel a. leRelease fetch_env ''b42'' = Inr rel \<and> a \<in> set (reAssets rel) \<and> sha256_hex ''tar'' = hash_of a"
  using fetch_verified [OF demo_fetch] by auto

text \<open>
  The tag of the answer is not compared with the tag asked for: the commit is that of the one, the assets are those of
  the other.
\<close>

lemma ValidatePinnable_other_tag:
  assumes "IsNightly r" "fetch r = Inr rel" "pinnableDigests rel now = Inr (ds, y)" "ResolveTag git r = Inr c"
  shows "ValidatePinnableRelease fetch git r now = Inr \<lparr>piRef = reTagName rel, piCommit = c, piDigests = ds, piYoungestAsset = y\<rparr>"
  using assms by (simp add: ValidatePinnableRelease_def)

text \<open>Numbers out of the range of \<open>int64\<close> all count as the greatest, so such a pin is never updated.\<close>

lemma Decide_saturates:
  "Decide ''b9223372036854775807'' ''b9223372036854775808'' False = Inr False"
  by (simp add: Decide_def bnum_def Atoi_value_def IsNightly_def all_digits_def HasPrefix_def TrimPrefix_def is_digit_def
      of_char_def)

end
