(* ===== verification/FileTree.thy ===== *)
theory FileTree
  imports Text "HOL-Library.AList"
begin

text \<open>
  Directories as the file-descriptor anchored code sees them: a component is opened below an open directory and
  never through a symbolic link (\<open>openat\<close> with \<open>O_NOFOLLOW\<close>), so what is reached is a path of real directories.
  \<open>unlinkat\<close> and the creating calls act on an entry of such a directory.
\<close>

datatype node = NDir "(string \<times> node) list" | NFile string | NLink string

type_synonym dir = "(string \<times> node) list"

text \<open>The directory reached from an open one, component by component.\<close>

fun dir_at :: "dir \<Rightarrow> string list \<Rightarrow> dir option" where
  "dir_at es [] = Some es"
| "dir_at es (c # cs) = (case map_of es c of Some (NDir es') \<Rightarrow> dir_at es' cs | _ \<Rightarrow> None)"

definition node_at :: "dir \<Rightarrow> string list \<Rightarrow> node option" where
  "node_at es p = (if p = [] then Some (NDir es) else Option.bind (dir_at es (butlast p)) (\<lambda>d. map_of d (last p)))"

text \<open>A directory changed in place.\<close>

fun change_dir :: "string list \<Rightarrow> (dir \<Rightarrow> dir) \<Rightarrow> dir \<Rightarrow> dir" where
  "change_dir [] f es = f es"
| "change_dir (c # cs) f es =
     (case map_of es c of Some (NDir es') \<Rightarrow> AList.update c (NDir (change_dir cs f es')) es | _ \<Rightarrow> es)"

definition add_entry :: "string list \<Rightarrow> string \<Rightarrow> node \<Rightarrow> dir \<Rightarrow> dir" where
  "add_entry path name n = change_dir path (\<lambda>es. es @ [(name, n)])"

text \<open>A path that starts with neither of the other's components stays where it was.\<close>

lemma node_at_Cons:
  "p \<noteq> [] \<Longrightarrow> node_at es (c # p) = (case map_of es c of Some (NDir es') \<Rightarrow> node_at es' p | _ \<Rightarrow> None)"
  by (auto simp: node_at_def split: option.splits node.splits)

lemma node_at_single: "node_at es [c] = map_of es c"
  by (simp add: node_at_def)

lemma dir_at_change:
  "dir_at es p = Some d \<Longrightarrow> dir_at (change_dir p f es) p = Some (f d)"
  by (induction p arbitrary: es) (auto simp: update_conv' split: option.splits node.splits)

subsection \<open>The components of a cleaned path\<close>

definition path_comps :: "string \<Rightarrow> string list" where
  "path_comps p = filter (\<lambda>c. c \<noteq> [] \<and> c \<noteq> ''.'') (split_on (CHR ''/'') (Clean p))"

definition clean_segs :: "string \<Rightarrow> string list" where
  "clean_segs p = rev (fold (clean_segment (HasPrefix p ''/'')) (split_on (CHR ''/'') p) [])"

text \<open>Last component first: below a \<open>..\<close> there are only others, and no component is empty, \<open>.\<close> or has a separator.\<close>

definition dots_last :: "string list \<Rightarrow> bool" where
  "dots_last = sorted_wrt (\<lambda>x y. x = ''..'' \<longrightarrow> y = ''..'')"

definition clean_comp :: "string \<Rightarrow> bool" where
  "clean_comp c \<longleftrightarrow> c \<noteq> [] \<and> c \<noteq> ''.'' \<and> CHR ''/'' \<notin> set c"

definition clean_inv :: "bool \<Rightarrow> string list \<Rightarrow> bool" where
  "clean_inv rooted acc \<longleftrightarrow> dots_last acc \<and> (\<forall>c \<in> set acc. clean_comp c) \<and> (rooted \<longrightarrow> ''..'' \<notin> set acc)"

lemma clean_segment_keeps:
  assumes "clean_inv rooted acc" "CHR ''/'' \<notin> set seg"
  shows "clean_inv rooted (clean_segment rooted seg acc)"
proof (cases "seg = [] \<or> seg = ''.''")
  case True
  then show ?thesis using assms by (simp add: clean_segment_def)
next
  case plain: False
  show ?thesis
  proof (cases "seg = ''..''")
    case False
    then have "clean_segment rooted seg acc = seg # acc" using plain by (simp add: clean_segment_def)
    then show ?thesis using assms plain False by (auto simp: clean_inv_def dots_last_def clean_comp_def)
  next
    case True
    show ?thesis
    proof (cases acc)
      case Nil
      then show ?thesis using True by (simp add: clean_segment_def clean_inv_def dots_last_def clean_comp_def)
    next
      case (Cons x xs)
      then show ?thesis using assms True by (auto simp: clean_segment_def clean_inv_def dots_last_def clean_comp_def)
    qed
  qed
qed

lemma fold_clean:
  "\<forall>s \<in> set segs. CHR ''/'' \<notin> set s \<Longrightarrow> clean_inv rooted acc \<Longrightarrow> clean_inv rooted (fold (clean_segment rooted) segs acc)"
  by (induction segs arbitrary: acc) (simp_all add: clean_segment_keeps)

lemma clean_segs_inv: "clean_inv (HasPrefix p ''/'') (rev (clean_segs p))"
proof -
  have "clean_inv (HasPrefix p ''/'') []" by (simp add: clean_inv_def dots_last_def)
  then show ?thesis unfolding clean_segs_def rev_rev_ident by (intro fold_clean) (auto dest: split_on_sep_free)
qed

lemma clean_segs_comp: "c \<in> set (clean_segs p) \<Longrightarrow> clean_comp c"
  using clean_segs_inv [of p] by (simp add: clean_inv_def)

lemma split_clean:
  "split_on (CHR ''/'') (Clean p) =
     (if HasPrefix p ''/'' then [] # (if clean_segs p = [] then [[]] else clean_segs p)
      else if clean_segs p = [] then [''.''] else clean_segs p)"
proof -
  have j: "split_on (CHR ''/'') (join_with ''/'' (clean_segs p)) = clean_segs p" if "clean_segs p \<noteq> []"
    using that clean_segs_comp by (intro split_join) (auto simp: clean_comp_def)
  have c: "Clean p = (if HasPrefix p ''/'' then ''/'' @ join_with ''/'' (clean_segs p)
      else if clean_segs p = [] then ''.'' else join_with ''/'' (clean_segs p))"
    by (simp add: Clean_def clean_segs_def Let_def)
  show ?thesis
  proof (cases "HasPrefix p ''/''")
    case True
    have "split_on (CHR ''/'') (''/'' @ x) = [] # split_on (CHR ''/'') x" for x
      using split_on_append [of "CHR ''/''" "[]" x] by simp
    then show ?thesis using True j c by simp
  next
    case False
    then show ?thesis using j c by simp
  qed
qed

lemma path_comps_segs: "path_comps p = clean_segs p"
proof -
  have "filter (\<lambda>c. c \<noteq> [] \<and> c \<noteq> ''.'') (clean_segs p) = clean_segs p"
    using clean_segs_comp by (intro filter_True) (auto simp: clean_comp_def)
  then show ?thesis unfolding path_comps_def split_clean by simp
qed

lemma path_comps_plain: "c \<in> set (path_comps p) \<Longrightarrow> clean_comp c"
  unfolding path_comps_segs by (rule clean_segs_comp)

lemma path_comps_dots: "path_comps p = a @ x # b \<Longrightarrow> x \<noteq> ''..'' \<Longrightarrow> ''..'' \<notin> set b"
  using clean_segs_inv [of p] unfolding path_comps_segs clean_inv_def dots_last_def
  by (auto simp: sorted_wrt_append)

lemma Clean_rooted: "HasPrefix (Clean p) ''/'' = HasPrefix p ''/''"
proof (cases "HasPrefix p ''/''")
  case False
  have "\<not> HasPrefix (join_with ''/'' (clean_segs p)) ''/''" if ne: "clean_segs p \<noteq> []"
  proof -
    obtain c cs where cs: "clean_segs p = c # cs" using ne by (cases "clean_segs p") auto
    then have "clean_comp c" using clean_segs_comp [of c p] by simp
    then obtain x c' where "c = x # c'" "x \<noteq> CHR ''/''" by (cases c) (auto simp: clean_comp_def)
    then show ?thesis unfolding cs by (cases cs) (simp_all add: HasPrefix_def)
  qed
  then show ?thesis using False by (simp add: Clean_def clean_segs_def Let_def HasPrefix_def)
qed (simp add: Clean_def Let_def HasPrefix_def)

subsection \<open>Paths put together\<close>

lemma fold_clean_self:
  "clean_inv rooted (rev segs) \<Longrightarrow> fold (clean_segment rooted) segs [] = rev segs"
proof (induction segs rule: rev_induct)
  case (snoc x xs)
  have i: "clean_inv rooted (rev xs)" and x: "clean_comp x" and d: "x = ''..'' \<Longrightarrow> \<forall>y \<in> set xs. y = ''..''"
    and r: "rooted \<Longrightarrow> x \<noteq> ''..''"
    using snoc.prems by (auto simp: clean_inv_def dots_last_def)
  then have "fold (clean_segment rooted) xs [] = rev xs" using snoc.IH by blast
  moreover have "clean_segment rooted x (rev xs) = x # rev xs"
  proof (cases "x = ''..''")
    case True
    show ?thesis
    proof (cases xs rule: rev_cases)
      case Nil
      then show ?thesis using True r by (auto simp: clean_segment_def)
    next
      case (snoc ys y)
      then show ?thesis using True d by (simp add: clean_segment_def)
    qed
  next
    case False
    then show ?thesis using x by (simp add: clean_segment_def clean_comp_def)
  qed
  ultimately show ?case by simp
qed simp

lemma path_comps_Clean [simp]: "path_comps (Clean p) = path_comps p"
proof -
  have f: "fold (clean_segment (HasPrefix p ''/'')) (clean_segs p) [] = rev (clean_segs p)"
    by (rule fold_clean_self) (rule clean_segs_inv)
  have "clean_segment r [] acc = acc" "clean_segment r ''.'' acc = acc" for r acc by (simp_all add: clean_segment_def)
  then have "clean_segs (Clean p) = clean_segs p"
    unfolding clean_segs_def [of "Clean p"] Clean_rooted split_clean using f
    by (cases "HasPrefix p ''/''") auto
  then show ?thesis by (simp add: path_comps_segs)
qed

text \<open>A name to be put below a directory: components without \<open>..\<close>.\<close>

definition inner_name :: "string \<Rightarrow> bool" where
  "inner_name n \<longleftrightarrow> (\<forall>c \<in> set (split_on (CHR ''/'') n). clean_comp c \<and> c \<noteq> ''..'')"

lemma fold_clean_push:
  "\<forall>c \<in> set segs. clean_comp c \<and> c \<noteq> ''..'' \<Longrightarrow> fold (clean_segment r) segs acc = rev segs @ acc"
  by (induction segs arbitrary: acc) (simp_all add: clean_segment_def clean_comp_def)

lemma path_comps_below:
  assumes "d \<noteq> []" and "inner_name n"
  shows "path_comps (d @ ''/'' @ n) = path_comps d @ split_on (CHR ''/'') n"
proof -
  have "HasPrefix (d @ ''/'' @ n) ''/'' = HasPrefix d ''/''" using assms(1) by (cases d) (simp_all add: HasPrefix_def)
  then show ?thesis
    using fold_clean_push [OF assms(2) [unfolded inner_name_def]] split_on_append_sep [of "CHR ''/''" d n]
    by (simp add: path_comps_segs clean_segs_def)
qed

lemma inner_single: "clean_comp c \<Longrightarrow> c \<noteq> ''..'' \<Longrightarrow> inner_name c"
  by (simp add: inner_name_def clean_comp_def split_on_no_sep)

end
