(* ===== verification/Extract.thy ===== *)
theory Extract
  imports FileTree
begin

text \<open>
  \<open>internal/llamalock/extract_unix.go\<close>: the verified archive of the runtime is unpacked below an open directory,
  never through a link and never over an entry, and lands by a rename. The archive is a list of
  headers (the tar format and decompression are the standard library's); \<open>bad\<close> says which creating calls the system
  refuses; file modes are left out.
\<close>

subsection \<open>The archive\<close>

datatype entry_type = TypeDir | TypeReg string | TypeSymlink string | TypeLink string | TypeOther char

text \<open>What the reader gives: a header with its content, or an error.\<close>

datatype tar_item = Header string entry_type | ReadError

datatype extract_error =
    UnsafeEntry string | MultipleTopLevel string string | TarBroken | EmptyArchive
  | MkdirRefused "string list" | ComponentNotDir "string list" | CreateRefused "string list"
  | AbsoluteLink string string | EscapingLink string string | SymlinkRefused "string list"
  | LinkOutsidePrefix string string | UnsafeHardlink string string | TargetNotOpened string | LinkRefused "string list"
  | UnsupportedType char string | NoName
  | NoDest | NoTemp | SetAsideFailed | LandFailed | CleanupFailed

subsection \<open>Names\<close>

definition checkEntryName :: "string \<Rightarrow> extract_error + unit" where
  "checkEntryName clean =
     (if clean = [] \<or> clean = ''.'' \<or> HasPrefix clean ''/'' \<or> HasPrefix clean ''../'' \<or> clean = ''..'' \<or> Contains clean ''/../''
      then Inl (UnsafeEntry clean) else Inr ())"

text \<open>\<open>filepath.Dir\<close>\<close>

definition PathDir :: "string \<Rightarrow> string" where
  "PathDir p = Clean (case last_cut (CHR ''/'') p of None \<Rightarrow> [] | Some (a, _) \<Rightarrow> a @ ''/'')"

definition checkLinkTarget :: "string \<Rightarrow> string \<Rightarrow> extract_error + unit" where
  "checkLinkTarget name target =
     (if HasPrefix (Clean target) ''/'' then Inl (AbsoluteLink name target)
      else case checkEntryName (Clean (Join [PathDir name, Clean target])) of
             Inl _ \<Rightarrow> Inl (EscapingLink name target)
           | Inr u \<Rightarrow> Inr u)"

text \<open>The directories of an entry and its last component; a trailing separator is taken off.\<close>

definition entry_comps :: "string \<Rightarrow> extract_error + string list \<times> string" where
  "entry_comps name =
     (let cs = split_on (CHR ''/'') name; cs' = (if last cs = [] then butlast cs else cs) in
      if cs' = [] then Inl NoName else Inr (butlast cs', last cs'))"

subsection \<open>One entry\<close>

text \<open>\<open>mkdirat\<close>, where an entry of the name may be there, and then \<open>openat\<close> without following.\<close>

fun open_dirs :: "(string list \<Rightarrow> bool) \<Rightarrow> string list \<Rightarrow> string list \<Rightarrow> dir \<Rightarrow> extract_error + dir" where
  "open_dirs bad path [] root = Inr root"
| "open_dirs bad path (c # cs) root =
     (let p = path @ [c] in
      case node_at root p of
        None \<Rightarrow> if bad p then Inl (MkdirRefused p) else open_dirs bad p cs (add_entry path c (NDir []) root)
      | Some (NDir _) \<Rightarrow> open_dirs bad p cs root
      | Some _ \<Rightarrow> Inl (ComponentNotDir p))"

text \<open>A new entry, refused when there is one of the name.\<close>

definition create_at ::
  "(string list \<Rightarrow> bool) \<Rightarrow> (string list \<Rightarrow> extract_error) \<Rightarrow> string list \<Rightarrow> string \<Rightarrow> node \<Rightarrow> dir \<Rightarrow> extract_error + dir" where
  "create_at bad err path base n root =
     (if node_at root (path @ [base]) \<noteq> None \<or> bad (path @ [base]) then Inl (err (path @ [base]))
      else Inr (add_entry path base n root))"

text \<open>A hard link names its target from the top of the archive, the prefix included.\<close>

definition link_target :: "string \<Rightarrow> string \<Rightarrow> string \<Rightarrow> extract_error + string" where
  "link_target name linkname pre =
     (let target = Clean linkname; t = TrimPrefix target (pre @ ''/'') in
      if \<not> HasPrefix target (pre @ ''/'') then Inl (LinkOutsidePrefix name linkname)
      else if t = [] \<or> t = ''.'' \<or> HasPrefix t ''/'' \<or> t = ''..'' \<or> HasPrefix t ''../'' \<or> Contains t ''/../''
           then Inl (UnsafeHardlink name linkname)
      else Inr t)"

definition extractEntryAt :: "(string list \<Rightarrow> bool) \<Rightarrow> string \<Rightarrow> string \<Rightarrow> entry_type \<Rightarrow> dir \<Rightarrow> extract_error + dir" where
  "extractEntryAt bad pre name ty root =
     bind_res (entry_comps name) (\<lambda>(dirs, base).
     bind_res (open_dirs bad [] dirs root) (\<lambda>root.
       case ty of
         TypeDir \<Rightarrow> if node_at root (dirs @ [base]) \<noteq> None then Inr root
                    else create_at bad MkdirRefused dirs base (NDir []) root
       | TypeReg content \<Rightarrow> create_at bad CreateRefused dirs base (NFile content) root
       | TypeSymlink linkname \<Rightarrow>
           bind_res (checkLinkTarget name linkname) (\<lambda>_. create_at bad SymlinkRefused dirs base (NLink linkname) root)
       | TypeLink linkname \<Rightarrow>
           bind_res (link_target name linkname pre) (\<lambda>t.
             case node_at root (split_on (CHR ''/'') t) of
               Some (NFile content) \<Rightarrow> create_at bad LinkRefused dirs base (NFile content) root
             | Some (NDir _) \<Rightarrow> Inl (LinkRefused (dirs @ [base]))
             | _ \<Rightarrow> Inl (TargetNotOpened linkname))
       | TypeOther c \<Rightarrow> Inl (UnsupportedType c name)))"

subsection \<open>The archive as a whole\<close>

text \<open>The prefix is the first component of the first name; the entry of the prefix itself is passed over.\<close>

definition extract_item :: "(string list \<Rightarrow> bool) \<Rightarrow> string \<Rightarrow> entry_type \<Rightarrow> string \<Rightarrow> dir \<Rightarrow> extract_error + string \<times> dir" where
  "extract_item bad name ty pre root =
     (let clean = Clean name; top = hd (split_on (CHR ''/'') clean) in
      bind_res (checkEntryName clean) (\<lambda>_.
        if pre \<noteq> [] \<and> top \<noteq> pre then Inl (MultipleTopLevel top pre)
        else if clean = top then Inr (top, root)
        else bind_res (extractEntryAt bad top (TrimPrefix clean (top @ ''/'')) ty root) (\<lambda>root. Inr (top, root))))"

primrec extract_items :: "(string list \<Rightarrow> bool) \<Rightarrow> tar_item list \<Rightarrow> string \<Rightarrow> dir \<Rightarrow> extract_error + string \<times> dir" where
  "extract_items bad [] pre root = (if pre = [] then Inl EmptyArchive else Inr (pre, root))"
| "extract_items bad (it # items) pre root =
     (case it of
        ReadError \<Rightarrow> Inl TarBroken
      | Header name ty \<Rightarrow> bind_res (extract_item bad name ty pre root) (\<lambda>(pre, root). extract_items bad items pre root))"

text \<open>
  What the system does with the destination: whether it can be made, a temporary name that is free, and the
  renames and removals.
\<close>

record dest_env =
  deMkdir :: bool
  deTemp :: "string option"
  dePid :: nat
  deBad :: "string list \<Rightarrow> bool"
  deSetAside :: bool
  deLand :: bool
  deRestore :: bool
  deRemoveOld :: bool
  deRemoveTemp :: bool
  deLinger :: dir

text \<open>Where a directory in the way is set aside.\<close>

definition old_name :: "dest_env \<Rightarrow> string \<Rightarrow> string" where
  "old_name env pre = pre @ ''.old-'' @ dec_nat (dePid env)"

definition rename_entry :: "string \<Rightarrow> string \<Rightarrow> dir \<Rightarrow> dir" where
  "rename_entry a b es = (case map_of es a of None \<Rightarrow> es | Some n \<Rightarrow> AList.update b n (AList.delete a es))"

text \<open>The failure exit: the temporary directory is removed; if that fails, something is left in it.\<close>

definition fail_extract :: "dest_env \<Rightarrow> string \<Rightarrow> dir \<Rightarrow> dir" where
  "fail_extract env tmp es =
     (if deRemoveTemp env \<or> map_of es tmp = None then AList.delete tmp es
      else AList.update tmp (NDir (deLinger env)) es)"

definition land :: "dest_env \<Rightarrow> string \<Rightarrow> string \<Rightarrow> dir \<Rightarrow> dir \<times> (extract_error + string)" where
  "land env tmp pre es =
     (case map_of es pre of
        Some (NDir _) \<Rightarrow>
          if \<not> deSetAside env then (fail_extract env tmp es, Inl SetAsideFailed)
          else let old = old_name env pre; aside = rename_entry pre old es in
            if \<not> deLand env then
              (fail_extract env tmp (if deRestore env then rename_entry old pre aside else aside), Inl LandFailed)
            else let landed = rename_entry tmp pre aside in
              if \<not> deRemoveOld env
              then (fail_extract env tmp (AList.update old (NDir (deLinger env)) landed), Inl CleanupFailed)
              else (AList.delete old landed, Inr pre)
      | Some _ \<Rightarrow> (fail_extract env tmp es, Inl LandFailed)
      | None \<Rightarrow> if deLand env then (rename_entry tmp pre es, Inr pre) else (fail_extract env tmp es, Inl LandFailed))"

definition ExtractAsset :: "dest_env \<Rightarrow> tar_item list \<Rightarrow> dir \<Rightarrow> dir \<times> (extract_error + string)" where
  "ExtractAsset env items es =
     (if \<not> deMkdir env then (es, Inl NoDest)
      else case deTemp env of
        None \<Rightarrow> (es, Inl NoTemp)
      | Some tmp \<Rightarrow>
        (case extract_items (deBad env) items [] [] of
           Inl e \<Rightarrow> (fail_extract env tmp (AList.update tmp (NDir []) es), Inl e)
         | Inr (pre, tree) \<Rightarrow> land env tmp pre (AList.update tmp (NDir tree) es)))"

subsection \<open>What may come out of an archive\<close>

definition safe_name :: "string \<Rightarrow> bool" where
  "safe_name c \<longleftrightarrow> clean_comp c \<and> c \<noteq> ''..''"

text \<open>Files have the content of some entry, and links were checked at the place where they are.\<close>

fun tree_ok :: "(string \<Rightarrow> bool) \<Rightarrow> string list \<Rightarrow> node \<Rightarrow> bool" where
  "tree_ok content path (NFile c) = content c"
| "tree_ok content path (NLink l) = (checkLinkTarget (join_with ''/'' path) l = Inr ())"
| "tree_ok content path (NDir es) = (\<forall>(n, x) \<in> set es. safe_name n \<and> tree_ok content (path @ [n]) x)"

definition dir_ok :: "(string \<Rightarrow> bool) \<Rightarrow> string list \<Rightarrow> dir \<Rightarrow> bool" where
  "dir_ok content path es \<longleftrightarrow> (\<forall>(n, x) \<in> set es. safe_name n \<and> tree_ok content (path @ [n]) x)"

lemma set_update: "(k, v) \<in> set (AList.update a b es) \<Longrightarrow> (k, v) \<in> set es \<or> k = a \<and> v = b"
  by (induction es) (auto split: if_splits)

lemma dir_ok_change:
  assumes "dir_ok content path es" and "\<And>d. dir_ok content (path @ p) d \<Longrightarrow> dir_ok content (path @ p) (f d)"
  shows "dir_ok content path (change_dir p f es)"
  using assms
proof (induction p arbitrary: path es)
  case (Cons c p)
  show ?case
  proof (cases "map_of es c")
    case (Some x)
    show ?thesis
    proof (cases x)
      case (NDir sub)
      have mem: "(c, NDir sub) \<in> set es" using Some NDir by (auto dest: map_of_SomeD)
      then have c: "safe_name c" "dir_ok content (path @ [c]) sub" using Cons.prems(1) by (fastforce simp: dir_ok_def)+
      have "dir_ok content (path @ [c]) (change_dir p f sub)"
        using Cons.IH [OF c(2)] Cons.prems(2) by simp
      then show ?thesis using Cons.prems(1) c(1) Some NDir
        by (auto simp: dir_ok_def dest!: set_update)
    qed (use Cons.prems(1) Some in simp_all)
  qed (use Cons.prems(1) in simp)
qed simp

lemma dir_ok_add:
  assumes "dir_ok content [] root" and "safe_name c" and "tree_ok content (path @ [c]) n"
  shows "dir_ok content [] (add_entry path c n root)"
  using dir_ok_change [OF assms(1), of path "\<lambda>es. es @ [(c, n)]"] assms(2,3)
  by (simp add: add_entry_def dir_ok_def)

lemma open_dirs_ok:
  "open_dirs bad path cs root = Inr root' \<Longrightarrow> dir_ok content [] root \<Longrightarrow> \<forall>c \<in> set cs. safe_name c \<Longrightarrow> dir_ok content [] root'"
proof (induction cs arbitrary: path root)
  case (Cons c cs)
  have "dir_ok content [] (add_entry path c (NDir []) root)"
    using Cons.prems by (intro dir_ok_add) simp_all
  then show ?case using Cons by (auto simp: Let_def split: option.splits node.splits if_splits)
qed simp

lemma create_at_ok:
  "create_at bad err path c n root = Inr root' \<Longrightarrow> dir_ok content [] root \<Longrightarrow> safe_name c \<Longrightarrow> tree_ok content (path @ [c]) n
    \<Longrightarrow> dir_ok content [] root'"
  by (auto simp: create_at_def dir_ok_add split: if_splits)

lemma dir_ok_lookup:
  "dir_ok content path es \<Longrightarrow> dir_at es p = Some d \<Longrightarrow> dir_ok content (path @ p) d"
proof (induction p arbitrary: path es)
  case (Cons c p)
  then obtain sub where sub: "map_of es c = Some (NDir sub)" "dir_at sub p = Some d"
    by (auto split: option.splits node.splits)
  then have "dir_ok content (path @ [c]) sub"
    using Cons.prems(1) map_of_SomeD [OF sub(1)] by (fastforce simp: dir_ok_def)
  from Cons.IH [OF this sub(2)] show ?case by simp
qed simp

lemma tree_ok_file:
  assumes "dir_ok content [] es" and "node_at es p = Some (NFile c)"
  shows "content c"
proof -
  obtain d where d: "dir_at es (butlast p) = Some d" "map_of d (last p) = Some (NFile c)"
    using assms(2) by (auto simp: node_at_def bind_eq_Some_conv split: if_splits)
  from dir_ok_lookup [OF assms(1) d(1)] map_of_SomeD [OF d(2)] show ?thesis by (fastforce simp: dir_ok_def)
qed

lemma checkEntryName_Clean:
  assumes "checkEntryName (Clean p) = Inr ()"
  shows "\<exists>cs. cs \<noteq> [] \<and> Clean p = join_with ''/'' cs \<and> split_on (CHR ''/'') (Clean p) = cs \<and> (\<forall>c \<in> set cs. safe_name c)"
proof -
  have c: "Clean p \<noteq> ''.''" "\<not> HasPrefix (Clean p) ''/''" "\<not> HasPrefix (Clean p) ''../''" "Clean p \<noteq> ''..''"
    using assms by (auto simp: checkEntryName_def split: if_splits)
  have r: "\<not> HasPrefix p ''/''" using c(2) Clean_rooted by simp
  let ?cs = "clean_segs p"
  have e: "Clean p = (if ?cs = [] then ''.'' else join_with ''/'' ?cs)"
    using r by (simp add: Clean_def clean_segs_def Let_def)
  then have ne: "?cs \<noteq> []" using c(1) by auto
  then have j: "Clean p = join_with ''/'' ?cs" using e by simp
  have "''..'' \<notin> set ?cs"
  proof
    assume dd: "''..'' \<in> set ?cs"
    obtain x xs where x: "?cs = x # xs" using ne by (cases ?cs) auto
    have "x = ''..''"
    proof (rule ccontr)
      assume "x \<noteq> ''..''"
      then have "''..'' \<notin> set xs" using path_comps_dots [of p "[]" x xs] x by (simp add: path_comps_segs)
      then show False using dd x \<open>x \<noteq> ''..''\<close> by simp
    qed
    then show False using c(3,4) j x by (cases xs) (simp_all add: HasPrefix_def)
  qed
  then have "\<forall>c \<in> set ?cs. safe_name c" using clean_segs_comp by (auto simp: safe_name_def)
  moreover have "split_on (CHR ''/'') (Clean p) = ?cs" using r ne by (simp add: split_clean)
  ultimately show ?thesis using ne j by blast
qed

lemma split_safe:
  "cs \<noteq> [] \<Longrightarrow> \<forall>c \<in> set cs. safe_name c \<Longrightarrow> split_on (CHR ''/'') (join_with ''/'' cs) = cs"
  by (rule split_join) (auto simp: safe_name_def clean_comp_def)

lemma entry_comps_join:
  assumes "cs \<noteq> []" "\<forall>c \<in> set cs. safe_name c"
  shows "entry_comps (join_with ''/'' cs) = Inr (butlast cs, last cs)"
proof -
  have "last cs \<noteq> []" using assms last_in_set [OF assms(1)] by (auto simp: safe_name_def clean_comp_def)
  then show ?thesis using assms by (simp add: entry_comps_def split_safe)
qed

lemma extractEntryAt_ok:
  assumes ok: "extractEntryAt bad pre (join_with ''/'' cs) ty root = Inr root'" and root: "dir_ok content [] root"
    and cs: "cs \<noteq> []" "\<forall>c \<in> set cs. safe_name c" and reg: "\<And>c. ty = TypeReg c \<Longrightarrow> content c"
  shows "dir_ok content [] root'"
proof -
  let ?d = "butlast cs" and ?b = "last cs"
  have names: "\<forall>c \<in> set ?d. safe_name c" "safe_name ?b" "?d @ [?b] = cs"
    using cs by (auto dest: in_set_butlastD)
  obtain r1 where r1: "open_dirs bad [] ?d root = Inr r1"
    using ok by (auto simp: extractEntryAt_def entry_comps_join [OF cs] bind_res_Inr)
  have d1: "dir_ok content [] r1" by (rule open_dirs_ok [OF r1 root names(1)])
  note rest = ok [unfolded extractEntryAt_def entry_comps_join [OF cs] bind_res.simps prod.case r1]
  note create = create_at_ok [OF _ d1 names(2)]
  show ?thesis
  proof (cases ty)
    case TypeDir
    then show ?thesis using rest d1 create [of bad MkdirRefused ?d "NDir []"] by (auto split: if_splits)
  next
    case (TypeReg c)
    then show ?thesis using rest create [of bad CreateRefused ?d "NFile c"] reg by simp
  next
    case (TypeSymlink l)
    then have "checkLinkTarget (join_with ''/'' cs) l = Inr ()"
        "create_at bad SymlinkRefused ?d ?b (NLink l) r1 = Inr root'"
      using rest by (auto simp: bind_res_Inr)
    then show ?thesis using create [of bad SymlinkRefused ?d "NLink l"] names(3) by simp
  next
    case (TypeLink l)
    then obtain t where "(case node_at r1 (split_on (CHR ''/'') t) of
        Some (NFile c) \<Rightarrow> create_at bad LinkRefused ?d ?b (NFile c) r1
      | Some (NDir _) \<Rightarrow> Inl (LinkRefused (?d @ [?b]))
      | _ \<Rightarrow> Inl (TargetNotOpened l)) = Inr root'"
      using rest by (auto simp: bind_res_Inr)
    then obtain c where "node_at r1 (split_on (CHR ''/'') t) = Some (NFile c)" "create_at bad LinkRefused ?d ?b (NFile c) r1 = Inr root'"
      by (cases "node_at r1 (split_on (CHR ''/'') t)") (simp, rename_tac n, case_tac n, simp_all)
    then show ?thesis using create [of bad LinkRefused ?d "NFile c"] tree_ok_file [OF d1] by simp
  next
    case (TypeOther c)
    then show ?thesis using rest by simp
  qed
qed

lemma extract_item_ok:
  assumes "extract_item bad name ty pre root = Inr (pre', root')" and "dir_ok content [] root"
    and "\<And>c. ty = TypeReg c \<Longrightarrow> content c"
  shows "safe_name pre' \<and> dir_ok content [] root'"
proof -
  have n: "checkEntryName (Clean name) = Inr ()" using assms(1) by (auto simp: extract_item_def Let_def bind_res_Inr)
  obtain cs where cs: "cs \<noteq> []" "Clean name = join_with ''/'' cs" "split_on (CHR ''/'') (Clean name) = cs" "\<forall>c \<in> set cs. safe_name c"
    using checkEntryName_Clean [OF n] by blast
  have p: "pre' = hd cs" and r: "root' = root \<or> extractEntryAt bad (hd cs) (TrimPrefix (Clean name) (hd cs @ ''/'')) ty root = Inr root' \<and> Clean name \<noteq> hd cs"
    using assms(1) unfolding extract_item_def Let_def cs(3) by (auto simp: bind_res_Inr split: if_splits)
  have "safe_name (hd cs)" using cs(1,4) by simp
  moreover have "dir_ok content [] root'"
  proof (cases "root' = root")
    case False
    then have x: "extractEntryAt bad (hd cs) (TrimPrefix (Clean name) (hd cs @ ''/'')) ty root = Inr root'" "Clean name \<noteq> hd cs"
      using r by simp_all
    obtain c c' cs' where c: "cs = c # c' # cs'"
    proof (cases cs)
      case (Cons c ds)
      then show ?thesis using x(2) cs(2) that by (cases ds) simp_all
    qed (use cs(1) in simp)
    have "TrimPrefix (Clean name) (hd cs @ ''/'') = join_with ''/'' (c' # cs')"
      using TrimPrefix_append [of "c @ ''/''" "join_with ''/'' (c' # cs')"] unfolding cs(2) c by simp
    then show ?thesis using extractEntryAt_ok [of bad "hd cs" "c' # cs'" ty root root' content] x(1) assms(2,3) cs(4) c by simp
  qed (use assms(2) in simp)
  ultimately show ?thesis using p by simp
qed

lemma extract_items_ok:
  assumes "extract_items bad items pre root = Inr (pre', root')" and "dir_ok content [] root"
    and "\<And>name c. Header name (TypeReg c) \<in> set items \<Longrightarrow> content c" and "pre = [] \<or> safe_name pre"
  shows "safe_name pre' \<and> dir_ok content [] root'"
  using assms
proof (induction items arbitrary: pre root)
  case Nil
  then show ?case by (auto split: if_splits)
next
  case (Cons it items)
  obtain name ty p1 r1 where it: "it = Header name ty" "extract_item bad name ty pre root = Inr (p1, r1)"
      "extract_items bad items p1 r1 = Inr (pre', root')"
    using Cons.prems(1) by (auto simp: bind_res_Inr split: tar_item.splits)
  have c: "\<And>c. ty = TypeReg c \<Longrightarrow> content c" using Cons.prems(3) it(1) by auto
  have "safe_name p1 \<and> dir_ok content [] r1"
    by (rule extract_item_ok [OF it(2) Cons.prems(2) c])
  then show ?case using Cons.IH [OF it(3)] Cons.prems(3) by auto
qed

subsection \<open>Landing\<close>

text \<open>Names a temporary directory and a set-aside name do not clash with.\<close>

definition fresh_names :: "dest_env \<Rightarrow> string \<Rightarrow> string \<Rightarrow> dir \<Rightarrow> bool" where
  "fresh_names env tmp pre es \<longleftrightarrow> tmp \<noteq> pre \<and> tmp \<noteq> old_name env pre \<and> map_of es tmp = None \<and> map_of es (old_name env pre) = None"

lemma old_name_other: "old_name env pre \<noteq> pre"
  by (simp add: old_name_def)

lemma map_of_rename:
  "map_of (rename_entry a b es) = (case map_of es a of None \<Rightarrow> map_of es | Some n \<Rightarrow> (map_of es)(a := None, b \<mapsto> n))"
  by (auto simp: rename_entry_def update_conv' delete_conv' split: option.splits)

lemma map_of_fail:
  "map_of (fail_extract env tmp es) =
     (if deRemoveTemp env \<or> map_of es tmp = None then (map_of es)(tmp := None) else (map_of es)(tmp \<mapsto> NDir (deLinger env)))"
  by (simp add: fail_extract_def update_conv' delete_conv')

lemma land_ok:
  assumes l: "land env tmp pre (AList.update tmp (NDir tree) es) = (es', r)" and f: "fresh_names env tmp pre es"
  shows "(\<forall>n. n \<notin> {tmp, pre, old_name env pre} \<longrightarrow> map_of es' n = map_of es n)
    \<and> (\<forall>p. r = Inr p \<longrightarrow> p = pre \<and> map_of es' = (map_of es)(pre \<mapsto> NDir tree))
    \<and> (\<forall>e. r = Inl e \<longrightarrow> deRemoveTemp env \<and> deRestore env \<and> deRemoveOld env \<longrightarrow> map_of es' = map_of es)"
proof (cases "map_of es pre")
  case None
  then show ?thesis using l f
    by (auto simp: land_def fresh_names_def update_conv' map_of_rename map_of_fail fun_eq_iff split: if_splits)
next
  case (Some x)
  show ?thesis
  proof (cases x)
    case (NDir d)
    consider "\<not> deSetAside env" | "deSetAside env" "\<not> deLand env" | "deSetAside env" "deLand env" "\<not> deRemoveOld env"
      | "deSetAside env" "deLand env" "deRemoveOld env" by blast
    then show ?thesis
      using l f Some NDir old_name_other [of env pre]
      by cases (auto simp: land_def fresh_names_def update_conv' delete_conv' map_of_rename map_of_fail fun_eq_iff Let_def split: if_splits)
  qed (use l f Some in \<open>auto simp: land_def fresh_names_def update_conv' map_of_fail fun_eq_iff split: if_splits\<close>)
qed

text \<open>
  C35: unpacking writes nothing outside the one directory it reports: whatever the headers of the archive
  say, every other entry of the destination stays as it was; on success the directory is a single safe name, all names in it are
  safe, its files have the contents of entries of the archive and its links were checked where they are; and after an
  error the destination is as before, as long as the clean-up itself is not refused.
\<close>

theorem ExtractAsset_confined:
  assumes "ExtractAsset env items es = (es', r)" and "deTemp env = Some tmp" and "map_of es tmp = None"
    and "\<forall>pre tree. extract_items (deBad env) items [] [] = Inr (pre, tree) \<longrightarrow> fresh_names env tmp pre es"
  shows "(\<exists>pre. \<forall>n. n \<notin> {tmp, pre, old_name env pre} \<longrightarrow> map_of es' n = map_of es n)
    \<and> (\<forall>pre. r = Inr pre \<longrightarrow> safe_name pre \<and> (\<exists>tree. map_of es' = (map_of es)(pre \<mapsto> NDir tree)
          \<and> dir_ok (\<lambda>c. \<exists>name. Header name (TypeReg c) \<in> set items) [] tree))
    \<and> (\<forall>e. r = Inl e \<longrightarrow> deRemoveTemp env \<and> deRestore env \<and> deRemoveOld env \<longrightarrow> map_of es' = map_of es)"
proof (cases "deMkdir env")
  case False
  then show ?thesis using assms(1) by (auto simp: ExtractAsset_def)
next
  case True
  let ?content = "\<lambda>c. \<exists>name. Header name (TypeReg c) \<in> set items"
  show ?thesis
  proof (cases "extract_items (deBad env) items [] []")
    case (Inl e)
    then have "es' = fail_extract env tmp (AList.update tmp (NDir []) es)" "r = Inl e"
      using assms(1,2) True by (auto simp: ExtractAsset_def)
    then show ?thesis using assms(3) by (auto simp: map_of_fail update_conv' fun_eq_iff)
  next
    case (Inr pt)
    then obtain pre tree where x: "extract_items (deBad env) items [] [] = Inr (pre, tree)" by (cases pt) auto
    then have l: "land env tmp pre (AList.update tmp (NDir tree) es) = (es', r)"
      using assms(1,2) True by (simp add: ExtractAsset_def)
    have "safe_name pre \<and> dir_ok ?content [] tree"
      by (rule extract_items_ok [OF x]) (auto simp: dir_ok_def)
    moreover have "fresh_names env tmp pre es" using assms(4) x by blast
    ultimately show ?thesis using land_ok [OF l] by blast
  qed
qed

definition demo_dest :: dest_env where
  "demo_dest = \<lparr>deMkdir = True, deTemp = Some ''.extract-1'', dePid = 7, deBad = (\<lambda>_. False), deSetAside = True, deLand = True,
     deRestore = True, deRemoveOld = True, deRemoveTemp = True, deLinger = []\<rparr>"

text \<open>A directory in the way, a nested file, a hard link to it and a link.\<close>

definition demo_items :: "tar_item list" where
  "demo_items = [Header ''m/'' TypeDir, Header ''m/b/x'' (TypeReg ''bin''), Header ''m/y'' (TypeLink ''m/b/x''), Header ''m/z'' (TypeSymlink ''b/x'')]"

lemma demo_extract:
  "ExtractAsset demo_dest demo_items [(''m'', NDir [(''stale'', NFile [])]), (''keep'', NFile ''k'')]
     = ([(''keep'', NFile ''k''), (''m'', NDir [(''b'', NDir [(''x'', NFile ''bin'')]), (''y'', NFile ''bin''), (''z'', NLink ''b/x'')])], Inr ''m'')"
  by code_simp

lemma demo_items_tree:
  "extract_items (\<lambda>_. False) demo_items [] []
     = Inr (''m'', [(''b'', NDir [(''x'', NFile ''bin'')]), (''y'', NFile ''bin''), (''z'', NLink ''b/x'')])"
  by code_simp

lemma ExtractAsset_confined_witness:
  "safe_name ''m'' \<and> map_of (fst (ExtractAsset demo_dest demo_items [(''m'', NDir [(''stale'', NFile [])]), (''keep'', NFile ''k'')])) ''keep''
     = Some (NFile ''k'')"
proof -
  let ?es = "[(''m'', NDir [(''stale'', NFile [])]), (''keep'', NFile ''k'')]"
  have t: "deTemp demo_dest = Some ''.extract-1''" "map_of ?es ''.extract-1'' = None" by (simp_all add: demo_dest_def)
  have "fresh_names demo_dest ''.extract-1'' ''m'' ?es" by code_simp
  then have f: "\<forall>pre tree. extract_items (deBad demo_dest) demo_items [] [] = Inr (pre, tree) \<longrightarrow> fresh_names demo_dest ''.extract-1'' pre ?es"
    by (simp add: demo_items_tree demo_dest_def [THEN arg_cong, of deBad])
  note ExtractAsset_confined [OF demo_extract t f]
  then have "safe_name ''m''" by blast
  then show ?thesis by (simp add: demo_extract)
qed

subsection \<open>Links that leave the directory\<close>

text \<open>
  How the kernel follows a path below a directory, as long as it stays in it: \<open>None\<close> is an error, and \<open>Outside\<close> is
  reached by an absolute link or by a \<open>..\<close> at the top.
\<close>

datatype place = Inside "string list" | Outside

fun follow :: "nat \<Rightarrow> dir \<Rightarrow> string list \<Rightarrow> string list \<Rightarrow> place option" where
  "follow 0 root cur cs = None"
| "follow (Suc k) root cur [] = Some (Inside cur)"
| "follow (Suc k) root cur (c # cs) =
     (if c = [] \<or> c = ''.'' then follow k root cur cs
      else if c = ''..'' then if cur = [] then Some Outside else follow k root (butlast cur) cs
      else case node_at root (cur @ [c]) of
        None \<Rightarrow> None
      | Some (NDir _) \<Rightarrow> follow k root (cur @ [c]) cs
      | Some (NFile _) \<Rightarrow> if cs = [] then Some (Inside (cur @ [c])) else None
      | Some (NLink l) \<Rightarrow>
          if HasPrefix l ''/'' then Some Outside else follow k root cur (split_on (CHR ''/'') l @ cs))"

text \<open>
  A link is checked as text, component by component, but stored as it was given. Where it leads through another link the
  text says something else than the kernel does: this archive is accepted, both of its links pass the check, and \<open>m/x\<close>
  leads out of the directory.
\<close>

lemma accepted_link_escapes:
  "extract_items (\<lambda>_. False)
     [Header ''m/d/e/s'' (TypeSymlink ''..''), Header ''m/x'' (TypeSymlink ''d/e/s/../../secret'')] [] []
     = Inr (''m'', [(''d'', NDir [(''e'', NDir [(''s'', NLink ''..'')])]), (''x'', NLink ''d/e/s/../../secret'')])
   \<and> follow 20 [(''d'', NDir [(''e'', NDir [(''s'', NLink ''..'')])]), (''x'', NLink ''d/e/s/../../secret'')] [] [''x''] = Some Outside"
  by code_simp

text \<open>An archive of one plain file at the top is accepted, and its content is dropped.\<close>

lemma single_file_dropped:
  "ExtractAsset demo_dest [Header ''llama-server'' (TypeReg ''bin'')] [] = ([(''llama-server'', NDir [])], Inr ''llama-server'')"
  by code_simp

end
