(* ===== verification/Scratch.thy ===== *)
theory Scratch
  imports FileTree
begin

text \<open>
  \<open>internal/cli/rmrf_unix.go\<close>: how the per-launch scratch directory of a split model is removed. The stored path
  is checked as text, and then everything happens below file descriptors that are opened without following
  links. Each call of the operating system may fail.
\<close>

subsection \<open>The shape of the path\<close>

fun drop_common :: "string list \<Rightarrow> string list \<Rightarrow> string list \<times> string list" where
  "drop_common (a # as) (b # bs) = (if a = b then drop_common as bs else (a # as, b # bs))"
| "drop_common as bs = (as, bs)"

text \<open>\<open>filepath.Rel\<close>\<close>

definition Rel :: "string \<Rightarrow> string \<Rightarrow> string option" where
  "Rel base targ =
     (if Clean targ = Clean base then Some ''.''
      else if HasPrefix (Clean base) ''/'' \<noteq> HasPrefix (Clean targ) ''/'' then None
      else let (b, t) = drop_common (path_comps base) (path_comps targ) in
        if b \<noteq> [] \<and> hd b = ''..'' then None
        else Some (join_with ''/'' (replicate (length b) ''..'' @ t)))"

definition isHex64 :: "string \<Rightarrow> bool" where "isHex64 s = (length s = 64 \<and> list_all is_lhex s)"

datatype rm_error = EmptyPath | OutsideRoot | BadShape | RootRefused | ComponentRefused string | OpenRefused "string list"
  | ReadFailed "string list" | UnlinkFailed "string list" | RmdirFailed "string list"

definition split_path :: "string \<Rightarrow> string \<Rightarrow> rm_error + string \<times> string" where
  "split_path root stored =
     (if stored = [] then Inl EmptyPath
      else case Rel root stored of
        None \<Rightarrow> Inl OutsideRoot
      | Some rel \<Rightarrow>
        if rel = ''.'' \<or> rel = ''..'' \<or> HasPrefix rel ''../'' \<or> HasPrefix rel ''/'' then Inl OutsideRoot
        else case split_on (CHR ''/'') rel of
               [h, l] \<Rightarrow> if isHex64 h \<and> l \<noteq> [] then Inr (h, l) else Inl BadShape
             | _ \<Rightarrow> Inl BadShape)"

subsection \<open>Removal\<close>

datatype fs_call = OpenDir | ReadDir | Unlink | Rmdir

text \<open>
  The contents of the open directory \<open>path\<close>, entry by entry as they are read; \<open>bad\<close> says which calls fail. What
  is left is returned with the error. A symbolic link is an entry like a file.
\<close>

function empty_entries :: "(fs_call \<Rightarrow> string list \<Rightarrow> bool) \<Rightarrow> string list \<Rightarrow> dir \<Rightarrow> dir \<times> rm_error option" where
  "empty_entries bad path [] = ([], None)"
| "empty_entries bad path ((n, NDir sub) # es) =
     (let p = path @ [n] in
      if bad OpenDir p then ((n, NDir sub) # es, Some (OpenRefused p))
      else if bad ReadDir p then ((n, NDir sub) # es, Some (ReadFailed p))
      else case empty_entries bad p sub of
        (sub', Some e) \<Rightarrow> ((n, NDir sub') # es, Some e)
      | (sub', None) \<Rightarrow>
          if bad Rmdir p then ((n, NDir sub') # es, Some (RmdirFailed p)) else empty_entries bad path es)"
| "empty_entries bad path ((n, NFile c) # es) =
     (if bad Unlink (path @ [n]) then ((n, NFile c) # es, Some (UnlinkFailed (path @ [n]))) else empty_entries bad path es)"
| "empty_entries bad path ((n, NLink c) # es) =
     (if bad Unlink (path @ [n]) then ((n, NLink c) # es, Some (UnlinkFailed (path @ [n]))) else empty_entries bad path es)"
  by pat_completeness auto

termination
  by (relation "measure (\<lambda>(bad, path, es). size (NDir es))") auto

text \<open>\<open>emptyDirAt\<close> on the entry \<open>l\<close> of the directory \<open>h\<close>.\<close>

definition emptyDirAt :: "(fs_call \<Rightarrow> string list \<Rightarrow> bool) \<Rightarrow> string \<Rightarrow> string \<Rightarrow> dir \<Rightarrow> dir \<times> rm_error option" where
  "emptyDirAt bad h l hexdir =
     (case map_of hexdir l of
        Some (NDir sub) \<Rightarrow>
          if bad OpenDir [h, l] then (hexdir, Some (OpenRefused [h, l]))
          else if bad ReadDir [h, l] then (hexdir, Some (ReadFailed [h, l]))
          else (case empty_entries bad [h, l] sub of (sub', e) \<Rightarrow> (AList.update l (NDir sub') hexdir, e))
      | _ \<Rightarrow> (hexdir, Some (OpenRefused [h, l])))"

text \<open>The root is given by its path and its entries; \<open>None\<close> if it is not a real directory.\<close>

definition removeSplitDir ::
  "(fs_call \<Rightarrow> string list \<Rightarrow> bool) \<Rightarrow> string \<Rightarrow> string \<Rightarrow> dir option \<Rightarrow> dir option \<times> rm_error option" where
  "removeSplitDir bad root stored scratch =
     (case split_path root stored of
        Inl e \<Rightarrow> (scratch, Some e)
      | Inr (h, l) \<Rightarrow>
        (case scratch of
           None \<Rightarrow> (scratch, Some RootRefused)
         | Some es \<Rightarrow>
           if bad OpenDir [] then (scratch, Some RootRefused)
           else case map_of es h of
             Some (NDir hexdir) \<Rightarrow>
               if bad OpenDir [h] then (scratch, Some (ComponentRefused h))
               else (case emptyDirAt bad h l hexdir of
                 (hexdir', Some e) \<Rightarrow> (Some (AList.update h (NDir hexdir') es), Some e)
               | (hexdir', None) \<Rightarrow>
                   if bad Rmdir [h, l] then (Some (AList.update h (NDir hexdir') es), Some (RmdirFailed [h, l]))
                   else
                     let hexdir'' = AList.delete l hexdir' in
                     if bad Rmdir [h] then (Some (AList.update h (NDir hexdir'') es), Some (RmdirFailed [h]))
                     else if hexdir'' \<noteq> [] then (Some (AList.update h (NDir hexdir'') es), None)
                     else (Some (AList.delete h es), None))
           | _ \<Rightarrow> (scratch, Some (ComponentRefused h))))"

subsection \<open>What the path says\<close>

lemma drop_common_Nil: "drop_common b t = ([], r) \<Longrightarrow> t = b @ r"
  by (induction b t rule: drop_common.induct) (auto split: if_splits)

lemma drop_common_suffix: "drop_common b t = (b', t') \<Longrightarrow> set t' \<subseteq> set t"
  by (induction b t rule: drop_common.induct) (auto split: if_splits)

lemma hex_not_dots: "isHex64 h \<Longrightarrow> h \<noteq> ''..''"
  by (auto simp: isHex64_def)

lemma split_path_ok:
  assumes "split_path root stored = Inr (h, l)"
  shows "path_comps stored = path_comps root @ [h, l] \<and> HasPrefix stored ''/'' = HasPrefix root ''/''
    \<and> isHex64 h \<and> l \<notin> {[], ''.'', ''..''}"
proof -
  obtain rel where rel: "Rel root stored = Some rel" "split_on (CHR ''/'') rel = [h, l]" "isHex64 h" "l \<noteq> []"
    and dot: "rel \<noteq> ''.''"
    using assms by (auto simp: split_path_def split: if_splits option.splits list.splits)
  obtain b t where bt: "drop_common (path_comps root) (path_comps stored) = (b, t)"
    and e: "rel = join_with ''/'' (replicate (length b) ''..'' @ t)" and same: "HasPrefix (Clean root) ''/'' = HasPrefix (Clean stored) ''/''"
    using rel(1) dot by (auto simp: Rel_def split: if_splits prod.splits)
  let ?cs = "replicate (length b) ''..'' @ t"
  have "?cs \<noteq> []" using rel(2,4) e by auto
  moreover have "CHR ''/'' \<notin> set c" if "c \<in> set ?cs" for c
    using that drop_common_suffix [OF bt] path_comps_plain [of c stored] by (auto simp: clean_comp_def)
  ultimately have "?cs = [h, l]" using rel(2) e split_join [of ?cs "CHR ''/''"] by simp
  moreover have "b = []"
  proof (cases b)
    case (Cons x xs)
    then have "h = ''..''" using calculation by simp
    then show ?thesis using hex_not_dots [OF rel(3)] by simp
  qed
  ultimately have t: "t = [h, l]" "b = []" by simp_all
  then have c: "path_comps stored = path_comps root @ [h, l]" using bt drop_common_Nil by simp
  then have "path_comps stored = path_comps root @ h # [l]" by simp
  from path_comps_dots [OF this hex_not_dots [OF rel(3)]] have "l \<noteq> ''..''" by auto
  moreover have "l \<noteq> ''.''" using path_comps_plain [of l stored] c by (simp add: clean_comp_def)
  ultimately show ?thesis using c rel same by (simp add: Clean_rooted)
qed

subsection \<open>What is removed\<close>

lemma empty_entries_calm: "(\<And>c p. \<not> bad c p) \<Longrightarrow> snd (empty_entries bad path es) = None"
  by (induction bad path es rule: empty_entries.induct) (auto simp: Let_def split: prod.splits option.splits)

lemma emptyDirAt_ok:
  assumes "emptyDirAt bad h l hexdir = (d, e)"
  shows "(\<forall>n. n \<noteq> l \<longrightarrow> map_of d n = map_of hexdir n)
    \<and> ((\<nexists>sub. map_of hexdir l = Some (NDir sub)) \<longrightarrow> d = hexdir \<and> e \<noteq> None)
    \<and> ((\<exists>sub. map_of hexdir l = Some (NDir sub)) \<and> (\<forall>c p. \<not> bad c p) \<longrightarrow> e = None)"
proof (cases "\<exists>sub. map_of hexdir l = Some (NDir sub)")
  case False
  then have "d = hexdir \<and> e = Some (OpenRefused [h, l])"
    using assms by (auto simp: emptyDirAt_def split: option.splits node.splits)
  then show ?thesis using False by auto
next
  case True
  then obtain sub where sub: "map_of hexdir l = Some (NDir sub)" ..
  have "snd (empty_entries bad [h, l] sub) = None" if "\<forall>c p. \<not> bad c p" using that empty_entries_calm by blast
  then show ?thesis using assms sub
    by (auto simp: emptyDirAt_def update_conv' split: if_splits prod.splits)
qed

text \<open>The two levels below the root after a removal that ended with \<open>e\<close>.\<close>

definition only_launch_changed :: "string \<Rightarrow> string \<Rightarrow> dir \<Rightarrow> dir \<Rightarrow> rm_error option \<Rightarrow> bool" where
  "only_launch_changed h l es es' e \<longleftrightarrow>
     (\<forall>n. n \<noteq> h \<longrightarrow> map_of es' n = map_of es n)
   \<and> (\<forall>hexdir. map_of es h = Some (NDir hexdir) \<longrightarrow>
        (case map_of es' h of
           None \<Rightarrow> e = None \<and> (\<forall>n. n \<noteq> l \<longrightarrow> map_of hexdir n = None)
         | Some (NDir hexdir') \<Rightarrow> (\<forall>n. n \<noteq> l \<longrightarrow> map_of hexdir' n = map_of hexdir n) \<and> (e = None \<longrightarrow> map_of hexdir' l = None)
         | _ \<Rightarrow> False))"

definition real_launch :: "string \<Rightarrow> string \<Rightarrow> dir \<Rightarrow> bool" where
  "real_launch h l es \<longleftrightarrow> (\<exists>hexdir sub. map_of es h = Some (NDir hexdir) \<and> map_of hexdir l = Some (NDir sub))"

lemma only_launch_refl: "only_launch_changed h l es es (Some x)"
  by (auto simp: only_launch_changed_def)

lemma only_launch_update:
  assumes "map_of es h = Some (NDir hexdir)" and "\<forall>n. n \<noteq> l \<longrightarrow> map_of d n = map_of hexdir n"
    and "e = None \<longrightarrow> map_of d l = None"
  shows "only_launch_changed h l es (AList.update h (NDir d) es) e"
  using assms by (simp add: only_launch_changed_def update_conv')

lemma only_launch_delete:
  assumes "map_of es h = Some (NDir hexdir)" and "\<forall>n. n \<noteq> l \<longrightarrow> map_of hexdir n = None"
  shows "only_launch_changed h l es (AList.delete h es) None"
  using assms by (simp add: only_launch_changed_def delete_conv')

lemma removeSplitDir_dirs:
  assumes "removeSplitDir bad root stored (Some es) = (r, e)" and "split_path root stored = Inr (h, l)"
  shows "\<exists>es'. r = Some es' \<and> only_launch_changed h l es es' e
    \<and> (\<not> real_launch h l es \<longrightarrow> map_of es' = map_of es \<and> e \<noteq> None)
    \<and> (real_launch h l es \<and> (\<forall>c p. \<not> bad c p) \<longrightarrow> e = None)"
proof (cases "bad OpenDir []")
  case True
  then show ?thesis using assms by (auto simp: removeSplitDir_def only_launch_refl)
next
  case root: False
  show ?thesis
  proof (cases "\<exists>hexdir. map_of es h = Some (NDir hexdir)")
    case False
    then have "r = Some es" "e = Some (ComponentRefused h)"
      using assms root by (auto simp: removeSplitDir_def split: option.splits node.splits)
    then show ?thesis using False by (auto simp: only_launch_refl real_launch_def)
  next
    case True
    then obtain hexdir where hexdir: "map_of es h = Some (NDir hexdir)" ..
    show ?thesis
    proof (cases "bad OpenDir [h]")
      case True
      then show ?thesis using assms root hexdir by (auto simp: removeSplitDir_def only_launch_refl)
    next
      case hex: False
      obtain d x where dx: "emptyDirAt bad h l hexdir = (d, x)" by (cases "emptyDirAt bad h l hexdir")
      note k = emptyDirAt_ok [OF dx]
      have rl: "real_launch h l es \<longleftrightarrow> (\<exists>sub. map_of hexdir l = Some (NDir sub))"
        using hexdir by (simp add: real_launch_def)
      have same: "map_of (AList.update h (NDir hexdir) es) = map_of es"
        using hexdir by (auto simp: update_conv')
      let ?d = "AList.delete l d"
      have frame: "\<forall>n. n \<noteq> l \<longrightarrow> map_of ?d n = map_of hexdir n" "map_of ?d l = None"
        using k by (auto simp: delete_conv')
      have empty: "\<forall>n. n \<noteq> l \<longrightarrow> map_of hexdir n = None" if "?d = []" using frame(1) that by auto
      consider (err) y where "x = Some y" "r = Some (AList.update h (NDir d) es)" "e = Some y"
        | (rm) "x = None" "bad Rmdir [h, l]" "r = Some (AList.update h (NDir d) es)" "e = Some (RmdirFailed [h, l])"
        | (rmhex) "x = None" "bad Rmdir [h]" "r = Some (AList.update h (NDir ?d) es)" "e = Some (RmdirFailed [h])"
        | (keep) "x = None" "r = Some (AList.update h (NDir ?d) es)" "e = None"
        | (drop) "x = None" "?d = []" "r = Some (AList.delete h es)" "e = None"
        using assms root hex hexdir dx by (auto simp: removeSplitDir_def Let_def split: option.splits if_splits)
      then show ?thesis
      proof cases
        case err
        then show ?thesis using k rl same only_launch_update [OF hexdir, of l d e] by auto
      next
        case rm
        then show ?thesis using k rl same only_launch_update [OF hexdir, of l d e] by auto
      next
        case rmhex
        then show ?thesis using k rl only_launch_update [OF hexdir frame(1)] by auto
      next
        case keep
        then show ?thesis using k rl only_launch_update [OF hexdir frame(1)] frame(2) by auto
      next
        case drop
        then show ?thesis using k rl only_launch_delete [OF hexdir empty] by auto
      qed
    qed
  qed
qed

text \<open>
  C36: stopping an instance never deletes anything but its own scratch directory, whatever the
  registry says: the stored path is refused unless it is the scratch root followed by a digest and one name; with such a path
  only that entry of that real directory changes, and the digest's directory goes only if nothing else is in it; a link in
  either place is refused with nothing deleted; and a real launch directory is removed completely unless the system fails.
\<close>

theorem removeSplitDir_confined:
  assumes "removeSplitDir bad root stored (Some es) = (r, e)"
  shows "case split_path root stored of
      Inl x \<Rightarrow> r = Some es \<and> e = Some x
    | Inr (h, l) \<Rightarrow> path_comps stored = path_comps root @ [h, l] \<and> isHex64 h \<and> l \<notin> {[], ''.'', ''..''}
        \<and> (\<exists>es'. r = Some es' \<and> only_launch_changed h l es es' e
             \<and> (\<not> real_launch h l es \<longrightarrow> map_of es' = map_of es \<and> e \<noteq> None)
             \<and> (real_launch h l es \<and> (\<forall>c p. \<not> bad c p) \<longrightarrow> e = None))"
proof (cases "split_path root stored")
  case (Inl x)
  then show ?thesis using assms by (simp add: removeSplitDir_def)
next
  case (Inr hl)
  then obtain h l where hl: "split_path root stored = Inr (h, l)" by (cases hl) auto
  then show ?thesis using split_path_ok [OF hl] removeSplitDir_dirs [OF assms hl] by simp
qed

text \<open>A launch with a nested directory and a link to another place.\<close>

definition demo_hex :: string where "demo_hex = replicate 64 CHR ''a''"

definition demo_scratch :: dir where
  "demo_scratch = [(demo_hex, NDir [(''7-1'', NDir [(''d'', NDir [(''p'', NFile ''x'')]), (''q'', NLink ''/etc'')]), (''8-2'', NDir [])]),
     (''other'', NDir [])]"

lemma demo_removal:
  "removeSplitDir (\<lambda>_ _. False) ''/run/shardr-split'' (''/run/shardr-split/'' @ demo_hex @ ''/7-1'') (Some demo_scratch)
     = (Some [(demo_hex, NDir [(''8-2'', NDir [])]), (''other'', NDir [])], None)"
  by code_simp

lemma removeSplitDir_confined_witness:
  "path_comps (''/run/shardr-split/'' @ demo_hex @ ''/7-1'') = path_comps ''/run/shardr-split'' @ [demo_hex, ''7-1'']"
proof -
  have "split_path ''/run/shardr-split'' (''/run/shardr-split/'' @ demo_hex @ ''/7-1'') = Inr (demo_hex, ''7-1'')" by code_simp
  then show ?thesis using removeSplitDir_confined [OF demo_removal] by simp
qed

end
