(* ===== verification/CliArgs.thy ===== *)
theory CliArgs
  imports Prelude
begin

text \<open>
  \<open>cmd/shardr/main.go\<close>: what the user's arguments ask for. Texts of errors are constructors; that the client is opened
  before some of the checks does not show in them.
\<close>

datatype command =
    Help | Version | Pull string | CatalogPullCmd string string bool | CatalogSearch "string list"
  | ImportLocalCmd "string list" string | ImportHFCmd string string | ImportBTCmd string string
  | Models | VerifyCmd string | StatusCmd string
  | Lifecycle bool string string string "string list" | StopCmd string bool

datatype usage_error =
    UnknownCommand string | PullArity nat | FlagNeedsValue string | TwoRepos string string | NoRepo
  | NoSubcommand | UnknownSubcommand string | NoImportSource | UnknownImportSource string | ExtraRepos nat
  | ExtraMagnets nat | VerifyArity | StatusArity nat | IdIsServeOnly | TwoRefs string string | NeedsRef bool
  | AllTakesNoId string | TwoIds nat

text \<open>The exit code: an unknown command is 2, any other error 1.\<close>

definition usage_exit :: "usage_error \<Rightarrow> nat" where
  "usage_exit e = (case e of UnknownCommand _ \<Rightarrow> 2 | _ \<Rightarrow> 1)"

text \<open>\<open>cmdCatalogPull\<close>\<close>

fun catalog_pull_args :: "string list \<Rightarrow> string \<times> string \<times> bool \<Rightarrow> usage_error + string \<times> string \<times> bool" where
  "catalog_pull_args [] (repo, quant, trust) = Inr (repo, quant, trust)"
| "catalog_pull_args (a # as) (repo, quant, trust) =
     (if a = ''--quant'' then (case as of [] \<Rightarrow> Inl (FlagNeedsValue a) | v # as' \<Rightarrow> catalog_pull_args as' (repo, v, trust))
      else if a = ''--trust-catalog'' then catalog_pull_args as (repo, quant, True)
      else if repo \<noteq> [] then Inl (TwoRepos repo a)
      else catalog_pull_args as (a, quant, trust))"

definition cmdCatalogPull :: "string list \<Rightarrow> usage_error + command" where
  "cmdCatalogPull args =
     bind_res (catalog_pull_args args ([], [], False)) (\<lambda>(repo, quant, trust).
       if repo = [] then Inl NoRepo else Inr (CatalogPullCmd repo quant trust))"

definition cmdCatalog :: "string list \<Rightarrow> usage_error + command" where
  "cmdCatalog args =
     (case args of
        [] \<Rightarrow> Inl NoSubcommand
      | a # as \<Rightarrow> if a = ''search'' then Inr (CatalogSearch as) else Inl (UnknownSubcommand a))"

text \<open>One flag with a value, the last one counts, between positional arguments.\<close>

fun flag_args_of :: "string \<Rightarrow> string list \<Rightarrow> string \<Rightarrow> string list \<Rightarrow> usage_error + string \<times> string list" where
  "flag_args_of flag [] v pos = Inr (v, pos)"
| "flag_args_of flag (a # as) v pos =
     (if a = flag then (case as of [] \<Rightarrow> Inl (FlagNeedsValue flag) | w # as' \<Rightarrow> flag_args_of flag as' w pos)
      else flag_args_of flag as v (pos @ [a]))"

text \<open>The first \<open>--rev\<close> is taken out with its value; what follows it is not looked at again.\<close>

fun take_rev :: "string list \<Rightarrow> usage_error + string \<times> string list" where
  "take_rev [] = Inr ([], [])"
| "take_rev (a # as) =
     (if a = ''--rev'' then (case as of [] \<Rightarrow> Inl (FlagNeedsValue a) | v # as' \<Rightarrow> Inr (v, as'))
      else map_sum id (\<lambda>(r, pos). (r, a # pos)) (take_rev as))"

definition cmdImport :: "string list \<Rightarrow> usage_error + command" where
  "cmdImport args =
     (case args of
        [] \<Rightarrow> Inl NoImportSource
      | a # as \<Rightarrow>
        if a = ''local'' then bind_res (flag_args_of ''--as'' as [] []) (\<lambda>(ns, paths). Inr (ImportLocalCmd paths ns))
        else if a = ''hf'' then
          bind_res (take_rev as) (\<lambda>(r, pos).
            if length pos > 1 then Inl (ExtraRepos (length pos - 1))
            else Inr (ImportHFCmd (case pos of [] \<Rightarrow> [] | p # _ \<Rightarrow> p) r))
        else if a = ''bt'' then
          bind_res (flag_args_of ''--manifest'' as [] []) (\<lambda>(m, pos).
            if length pos > 1 then Inl (ExtraMagnets (length pos))
            else Inr (ImportBTCmd (case pos of [] \<Rightarrow> [] | p # _ \<Rightarrow> p) m))
        else Inl (UnknownImportSource a))"

record run_opts =
  roRef :: string
  roID :: string
  roConfig :: string
  roSets :: "string list"

fun lifecycle_args :: "bool \<Rightarrow> string list \<Rightarrow> run_opts \<Rightarrow> usage_error + run_opts" where
  "lifecycle_args serve [] o' = Inr o'"
| "lifecycle_args serve (a # as) o' =
     (if a = ''--id'' then
        if \<not> serve then Inl IdIsServeOnly
        else (case as of [] \<Rightarrow> Inl (FlagNeedsValue a) | v # as' \<Rightarrow> lifecycle_args serve as' (o'\<lparr>roID := v\<rparr>))
      else if a = ''--config'' then
        (case as of [] \<Rightarrow> Inl (FlagNeedsValue a) | v # as' \<Rightarrow> lifecycle_args serve as' (o'\<lparr>roConfig := v\<rparr>))
      else if a = ''--set'' then
        (case as of [] \<Rightarrow> Inl (FlagNeedsValue a) | v # as' \<Rightarrow> lifecycle_args serve as' (o'\<lparr>roSets := roSets o' @ [v]\<rparr>))
      else if roRef o' \<noteq> [] then Inl (TwoRefs (roRef o') a)
      else lifecycle_args serve as (o'\<lparr>roRef := a\<rparr>))"

definition cmdLifecycle :: "string list \<Rightarrow> bool \<Rightarrow> usage_error + command" where
  "cmdLifecycle args serve =
     bind_res (lifecycle_args serve args \<lparr>roRef = [], roID = [], roConfig = [], roSets = []\<rparr>) (\<lambda>r.
       if roRef r = [] then Inl (NeedsRef serve) else Inr (Lifecycle serve (roRef r) (roID r) (roConfig r) (roSets r)))"

definition cmdStop :: "string list \<Rightarrow> usage_error + command" where
  "cmdStop args =
     (let all = ''--all'' \<in> set args; ids = filter (\<lambda>a. a \<noteq> ''--all'') args in
      if all \<and> ids \<noteq> [] then Inl (AllTakesNoId (hd ids))
      else if length ids > 1 then Inl (TwoIds (length ids))
      else Inr (StopCmd (case ids of [] \<Rightarrow> [] | i # _ \<Rightarrow> i) all))"

definition parse_command :: "string list \<Rightarrow> usage_error + command" where
  "parse_command args =
     (case args of
        [] \<Rightarrow> Inr Help
      | a # as \<Rightarrow>
        if a = ''-h'' \<or> a = ''--help'' \<or> a = ''help'' then Inr Help
        else if a = ''version'' then Inr Version
        else if a = ''pull'' then
          if as \<noteq> [] \<and> CHR '':'' \<notin> set (hd as) then cmdCatalogPull as
          else if length as \<noteq> 1 then Inl (PullArity (length as)) else Inr (Pull (hd as))
        else if a = ''catalog'' then cmdCatalog as
        else if a = ''import'' then cmdImport as
        else if a = ''models'' then Inr Models
        else if a = ''verify'' then if length as \<noteq> 1 then Inl VerifyArity else Inr (VerifyCmd (hd as))
        else if a = ''status'' then
          if length as > 1 then Inl (StatusArity (length as - 1)) else Inr (StatusCmd (case as of [] \<Rightarrow> [] | j # _ \<Rightarrow> j))
        else if a = ''run'' then cmdLifecycle as False
        else if a = ''serve'' then cmdLifecycle as True
        else if a = ''stop'' then cmdStop as
        else Inl (UnknownCommand a))"

subsection \<open>Arguments in any order\<close>

text \<open>The arguments of \<open>serve\<close> as the user means them; the last identifier and file count, all settings do.\<close>

datatype serve_arg = ArgRef string | ArgID string | ArgConfig string | ArgSet string

definition serve_flags :: "string list" where "serve_flags = [''--id'', ''--config'', ''--set'']"

fun print_arg :: "serve_arg \<Rightarrow> string list" where
  "print_arg (ArgRef r) = [r]"
| "print_arg (ArgID v) = [''--id'', v]"
| "print_arg (ArgConfig v) = [''--config'', v]"
| "print_arg (ArgSet v) = [''--set'', v]"

fun put_arg :: "serve_arg \<Rightarrow> run_opts \<Rightarrow> run_opts" where
  "put_arg (ArgRef r) o' = o'\<lparr>roRef := r\<rparr>"
| "put_arg (ArgID v) o' = o'\<lparr>roID := v\<rparr>"
| "put_arg (ArgConfig v) o' = o'\<lparr>roConfig := v\<rparr>"
| "put_arg (ArgSet v) o' = o'\<lparr>roSets := roSets o' @ [v]\<rparr>"

definition is_ref :: "serve_arg \<Rightarrow> bool" where "is_ref a = (case a of ArgRef _ \<Rightarrow> True | _ \<Rightarrow> False)"

lemma is_ref_simps [simp]: "is_ref (ArgRef r)" "\<not> is_ref (ArgID v)" "\<not> is_ref (ArgConfig v)" "\<not> is_ref (ArgSet v)"
  by (simp_all add: is_ref_def)

definition ref_ok :: "serve_arg \<Rightarrow> bool" where
  "ref_ok a \<longleftrightarrow> (\<forall>r. a = ArgRef r \<longrightarrow> r \<noteq> [] \<and> r \<notin> set serve_flags)"

lemma lifecycle_args_print:
  assumes "\<forall>a \<in> set items. ref_ok a" and "(roRef o' = [] \<and> length (filter is_ref items) \<le> 1) \<or> filter is_ref items = []"
  shows "lifecycle_args True (concat (map print_arg items)) o' = Inr (fold put_arg items o')"
  using assms
proof (induction items arbitrary: o')
  case (Cons a items)
  show ?case
  proof (cases a)
    case (ArgRef r)
    then have r: "r \<noteq> []" "r \<noteq> ''--id''" "r \<noteq> ''--config''" "r \<noteq> ''--set''"
      using Cons.prems(1) by (auto simp: ref_ok_def serve_flags_def)
    have "roRef o' = []" "filter is_ref items = []" using Cons.prems(2) ArgRef by auto
    then show ?thesis using Cons ArgRef r by simp
  qed (use Cons in simp_all)
qed simp

text \<open>\<open>stop\<close> without an argument is accepted, and means no instance in particular.\<close>

lemma stop_without_argument: "parse_command [''stop''] = Inr (StopCmd [] False)"
  by code_simp

end
