(* ===== verification/CliClient.thy ===== *)
theory CliClient
  imports JobRuns Config
begin

text \<open>
  The user's side of the daemon: \<open>internal/cli/client.go\<close> and \<open>commands.go\<close>. A command is its outcome: an error, or
  the lines it prints at the end, or nothing when it never returns; progress lines and the texts of errors are left
  out. HTTP and JSON are parameters of the client.
\<close>

subsection \<open>The client\<close>

text \<open>The documents the daemon sends, as the client reads them.\<close>

record verify_doc =
  vdMissing :: "string list"
  vdStateErrors :: "string list"

record cli_job =
  cjID :: string
  cjRef :: string
  cjState :: string
  cjError :: "APIError option"
  cjKind :: string
  cjFilesDone :: int
  cjFilesTotal :: int
  cjResult :: "job_result option"
  cjVerify :: "verify_doc option"

datatype request =
    EnsureReq string | LocalReq "string list" string | HFReq string "string option" | MagnetReq string string
  | InfohashReq string string | CatalogReq string bool "string option" | VerifyReq string

text \<open>No answer, or a status and a body.\<close>

datatype reply = NoAnswer | Replied nat string

datatype cli_error =
    Unreachable | Wire APIError | BadResponse nat | Undecodable | Cancelled string
  | ConfigError setting_error | BadRef ref_error | BadDefault ref_error string string
  | NoNamespace | NoPaths | NoRepoGiven | NoMagnet | NoManifest | NoTerms | NoTarget
  | CatalogFailed catalog_error | AnchorProbeFailed string string hf_error | VerifyFailed
  | JobFailed "APIError option"

text \<open>Reads carry the number of the poll; \<open>clCancelled\<close> says that waiting after a poll is broken off.\<close>

record client =
  clPost :: "string \<Rightarrow> request \<Rightarrow> reply"
  clGet :: "nat \<Rightarrow> string \<Rightarrow> reply"
  clEnvelope :: "string \<Rightarrow> APIError option"
  clJob :: "string \<Rightarrow> cli_job option"
  clCancelled :: "nat \<Rightarrow> bool"
  clConfig :: "load_error + config_file"

definition Do :: "client \<Rightarrow> reply \<Rightarrow> cli_error + string" where
  "Do c r =
     (case r of
        NoAnswer \<Rightarrow> Inl Unreachable
      | Replied status body \<Rightarrow>
        if status \<ge> 300 then (case clEnvelope c body of Some e \<Rightarrow> Inl (Wire e) | None \<Rightarrow> Inl (BadResponse status))
        else Inr body)"

definition DoJSON :: "client \<Rightarrow> (string \<Rightarrow> 'a option) \<Rightarrow> reply \<Rightarrow> cli_error + 'a" where
  "DoJSON c dec r = bind_res (Do c r) (\<lambda>b. case dec b of None \<Rightarrow> Inl Undecodable | Some v \<Rightarrow> Inr v)"

definition Canonicalize :: "string \<Rightarrow> string \<Rightarrow> cli_error + string" where
  "Canonicalize input defaultSelector =
     (case ParseAny input of
        Inr p \<Rightarrow> Inr (rCanonical p)
      | Inl e \<Rightarrow>
        if Class e = ErrNoSelector \<and> defaultSelector \<noteq> [] then
          (case ParseAny (input @ '':'' @ defaultSelector) of
             Inl e2 \<Rightarrow> Inl (BadDefault e2 defaultSelector input)
           | Inr p2 \<Rightarrow> Inr (rCanonical p2))
        else Inl (BadRef e))"

definition job_path :: "string \<Rightarrow> string" where "job_path i = ''/v1/jobs/'' @ i"

partial_function (option) WaitJob :: "client \<Rightarrow> string \<Rightarrow> nat \<Rightarrow> (cli_error + cli_job) option" where
  "WaitJob c i n =
     (case DoJSON c (clJob c) (clGet c n (job_path i)) of
        Inl e \<Rightarrow> Some (Inl e)
      | Inr j \<Rightarrow>
        if cjState j = ''done'' \<or> cjState j = ''failed'' then Some (Inr j)
        else if clCancelled c n then Some (Inl (Cancelled i))
        else WaitJob c i (n + 1))"

declare WaitJob.simps [code]

text \<open>
  \<open>fail\<close>: the exit code of an error. An error that is a failed job without an error document is not nil, and
  printing it dereferences it.
\<close>

definition fail :: "cli_error option \<Rightarrow> nat panic" where
  "fail e = (case e of None \<Rightarrow> Returns 0 | Some (JobFailed None) \<Rightarrow> Panics | Some _ \<Rightarrow> Returns 1)"

subsection \<open>Commands\<close>

datatype out_line =
    PullDone string int | QuantLine string | InfohashLine string | WarningLine string | ImportDone | CatalogDone string
  | NoMatch | ModelFound Model | NoModels | NamespaceLine string string bool "string list" | TagLine string string
  | ProblemLine string | VerifyOk string int | JobLine string string string int int | ErrorLine string message
  | NoJobs | ListLine string string string "string option" "string option"

text \<open>The selector of the configuration file is taken as it is.\<close>

definition cfg_selector :: "config_file \<Rightarrow> string" where
  "cfg_selector f = (case map_of (sec_of f ''references'') ''default_selector'' of None \<Rightarrow> [] | Some v \<Rightarrow> vStr v)"

definition canonicalizeOr :: "client \<Rightarrow> string \<Rightarrow> cli_error + string" where
  "canonicalizeOr c arg =
     (case clConfig c of
        Inl e \<Rightarrow> Inl (ConfigError (LoadFailed e))
      | Inr f \<Rightarrow> Canonicalize arg (cfg_selector f))"

text \<open>What the commands that start a job share: submit, wait for the end, pass the error of the job on.\<close>

definition follow ::
  "client \<Rightarrow> string \<Rightarrow> request \<Rightarrow> (cli_job \<Rightarrow> cli_job \<Rightarrow> cli_error + out_line list) \<Rightarrow> (cli_error + out_line list) option" where
  "follow c path req fin =
     (case DoJSON c (clJob c) (clPost c path req) of
        Inl e \<Rightarrow> Some (Inl e)
      | Inr job \<Rightarrow>
        (case WaitJob c (cjID job) 0 of
           None \<Rightarrow> None
         | Some (Inl e) \<Rightarrow> Some (Inl e)
         | Some (Inr t) \<Rightarrow> Some (if cjState t = ''failed'' then Inl (JobFailed (cjError t)) else fin job t)))"

definition CliPull :: "client \<Rightarrow> string \<Rightarrow> (cli_error + out_line list) option" where
  "CliPull c arg =
     (case canonicalizeOr c arg of
        Inl e \<Rightarrow> Some (Inl e)
      | Inr canonical \<Rightarrow>
        follow c ''/v1/ensure'' (EnsureReq canonical) (\<lambda>_ t. Inr [PullDone canonical (cjFilesTotal t)]))"

definition import_lines :: "cli_job \<Rightarrow> out_line list" where
  "import_lines t =
     (case cjResult t of
        None \<Rightarrow> []
      | Some r \<Rightarrow>
          map QuantLine (jrQuants r) @ (if jrInfohash r \<noteq> [] then [InfohashLine (jrInfohash r)] else [])
          @ map WarningLine (jrWarnings r)) @ [ImportDone]"

definition runImportJob :: "client \<Rightarrow> string \<Rightarrow> request \<Rightarrow> (cli_error + out_line list) option" where
  "runImportJob c path req = follow c path req (\<lambda>_ t. Inr (import_lines t))"

definition CliImportLocal :: "client \<Rightarrow> string list \<Rightarrow> string \<Rightarrow> (cli_error + out_line list) option" where
  "CliImportLocal c paths as =
     (if as = [] then Some (Inl NoNamespace)
      else if paths = [] then Some (Inl NoPaths)
      else runImportJob c ''/v1/import/local'' (LocalReq paths as))"

definition CliImportHF :: "client \<Rightarrow> string \<Rightarrow> string \<Rightarrow> (cli_error + out_line list) option" where
  "CliImportHF c repo rv =
     (if repo = [] then Some (Inl NoRepoGiven)
      else runImportJob c ''/v1/import/hf'' (HFReq repo (if rv = [] then None else Some rv)))"

definition CliImportBT :: "client \<Rightarrow> string \<Rightarrow> string \<Rightarrow> (cli_error + out_line list) option" where
  "CliImportBT c loc manifest =
     (if loc = [] then Some (Inl NoMagnet)
      else if manifest = [] then Some (Inl NoManifest)
      else runImportJob c ''/v1/import/bt''
             (if HasPrefix loc ''magnet:'' then MagnetReq loc manifest else InfohashReq loc manifest))"

text \<open>\<open>pf\<close> is the provider's client for any base URL.\<close>

definition catalogProvider ::
  "(string \<Rightarrow> string) \<Rightarrow> (string \<Rightarrow> parsed_url option) \<Rightarrow> client \<Rightarrow> Pirateface \<Rightarrow> cli_error + Pirateface" where
  "catalogProvider env parse c pf =
     (case clConfig c of
        Inl e \<Rightarrow> Inl (ConfigError (LoadFailed e))
      | Inr f \<Rightarrow>
        (case ResolveConfigURL parse f of
           Inl e \<Rightarrow> Inl (ConfigError e)
         | Inr u \<Rightarrow> Inr (pf\<lparr>pfBaseURL := NewPiratefaceAt env u\<rparr>)))"

definition CliCatalogSearch :: "cli_error + Pirateface \<Rightarrow> string list \<Rightarrow> cli_error + out_line list" where
  "CliCatalogSearch provider terms =
     (if terms = [] then Inl NoTerms
      else bind_res provider (\<lambda>pf.
        case Search pf (join_with '' '' terms) of
          Inl e \<Rightarrow> Inl (CatalogFailed e)
        | Inr models \<Rightarrow> Inr (if models = [] then [NoMatch] else map ModelFound models)))"

definition catalog_lines :: "string \<Rightarrow> cli_job \<Rightarrow> out_line list" where
  "catalog_lines repo t =
     (case cjResult t of None \<Rightarrow> [] | Some r \<Rightarrow> map WarningLine (jrWarnings r) @ map QuantLine (jrQuants r))
     @ [CatalogDone (ToLower repo)]"

definition CliCatalogPull ::
  "client \<Rightarrow> cli_error + Pirateface \<Rightarrow> HFClient \<Rightarrow> string \<Rightarrow> string \<Rightarrow> bool \<Rightarrow> (cli_error + out_line list) option" where
  "CliCatalogPull c provider hf repo quant trust =
     (case provider of
        Inl e \<Rightarrow> Some (Inl e)
      | Inr pf \<Rightarrow>
      case ResolveListing pf repo of
        Inl e \<Rightarrow> Some (Inl (CatalogFailed e))
      | Inr resolved \<Rightarrow>
      case ListRepoTree hf (rvRepo resolved) (rvRevision resolved) of
        None \<Rightarrow> None
      | Some tree \<Rightarrow>
        (case tree of
           Inl terr \<Rightarrow>
             if terr = ErrUnknownRepo \<and> \<not> trust then Some (Inl (CatalogFailed ErrNotAnchored))
             else if terr \<noteq> ErrUnknownRepo then Some (Inl (AnchorProbeFailed (rvRepo resolved) (rvRevision resolved) terr))
             else follow c ''/v1/import/catalog'' (CatalogReq repo trust (if quant = [] then None else Some quant))
                    (\<lambda>_ t. Inr (catalog_lines repo t))
         | Inr _ \<Rightarrow>
             follow c ''/v1/import/catalog'' (CatalogReq repo trust (if quant = [] then None else Some quant))
               (\<lambda>_ t. Inr (catalog_lines repo t))))"

definition CliModels :: "client \<Rightarrow> (string \<Rightarrow> (nsEntry list \<times> tagEntry list) option) \<Rightarrow> cli_error + out_line list" where
  "CliModels c dec =
     bind_res (DoJSON c dec (clGet c 0 ''/v1/models'')) (\<lambda>(nss, tags).
       Inr (if nss = [] \<and> tags = [] then [NoModels]
            else map (\<lambda>n. NamespaceLine (neNS n) (neName n) (neIndexPresent n) (neQuants n)) nss
                 @ map (\<lambda>t. TagLine (teRepo t) (teTag t)) tags))"

definition verify_lines :: "cli_job \<Rightarrow> cli_job \<Rightarrow> cli_error + out_line list" where
  "verify_lines job t =
     (case cjVerify t of
        Some v \<Rightarrow>
          if vdMissing v \<noteq> [] \<or> vdStateErrors v \<noteq> [] then Inl VerifyFailed
          else Inr [VerifyOk (cjRef job) (cjFilesTotal t)]
      | None \<Rightarrow> Inr [VerifyOk (cjRef job) (cjFilesTotal t)])"

definition CliVerify :: "client \<Rightarrow> string \<Rightarrow> (cli_error + out_line list) option" where
  "CliVerify c target =
     (if target = [] then Some (Inl NoTarget) else follow c ''/v1/verify'' (VerifyReq target) verify_lines)"

definition list_line :: "cli_job \<Rightarrow> out_line" where
  "list_line j =
     ListLine (cjID j) (cjKind j) (cjState j) (if cjRef j \<noteq> [] \<and> cjRef j \<noteq> ''all'' then Some (cjRef j) else None)
       (map_option aeCode (cjError j))"

definition CliStatus :: "client \<Rightarrow> (string \<Rightarrow> cli_job list option) \<Rightarrow> string \<Rightarrow> cli_error + out_line list" where
  "CliStatus c dec i =
     (if i \<noteq> [] then
        bind_res (DoJSON c (clJob c) (clGet c 0 (job_path i))) (\<lambda>j.
          Inr (JobLine (cjID j) (cjKind j) (cjState j) (cjFilesDone j) (cjFilesTotal j)
               # (case cjError j of None \<Rightarrow> [] | Some e \<Rightarrow> [ErrorLine (aeCode e) (aeMessage e)])))
      else
        bind_res (DoJSON c dec (clGet c 0 ''/v1/jobs'')) (\<lambda>jobs.
          Inr (if jobs = [] then [NoJobs] else map list_line (take 20 jobs))))"

subsection \<open>What the daemon is sent\<close>

text \<open>A completed reference is one the daemon accepts as it is, with a selector or a digest.\<close>

lemma Canonicalize_accepted:
  assumes "Canonicalize input sel = Inr s"
  shows "\<exists>p. Parse s = Inr p \<and> rCanonical p = s \<and> (rQuant p \<noteq> [] \<or> rTag p \<noteq> [] \<or> rDigest p \<noteq> [])"
proof -
  obtain i p where p: "ParseAny i = Inr p" "s = rCanonical p"
    using assms by (auto simp: Canonicalize_def split: sum.splits if_splits)
  then obtain q where "Parse q = Inr p" by (auto simp: ParseAny_def ParseShort_def split: if_splits)
  then have w: "ref_wf p" "length (rCanonical p) \<le> 512" using Parse_wf by blast+
  have "rQuant p \<noteq> [] \<or> rTag p \<noteq> [] \<or> rDigest p \<noteq> []"
    using w(1) by (auto simp: ref_wf_def sel_wf_def QuantSyntax_def)
  then show ?thesis using Parse_of_canonical [OF w] p(2) by blast
qed

text \<open>
  Where the daemon has a provider, the client asks the same one; it also goes on where the daemon refuses an unknown
  key of the section.
\<close>

lemma catalogProvider_daemon:
  assumes "newCatalogProvider env parse (clConfig c) = Inr u"
  shows "catalogProvider env parse c pf = Inr (pf\<lparr>pfBaseURL := u\<rparr>)"
proof -
  obtain f v where f: "clConfig c = Inr f" "resolveCatalogURL parse f = Inr v" "u = NewPiratefaceAt env v"
    using assms by (auto simp: newCatalogProvider_def map_sum_Inr split: sum.splits)
  then have "ResolveConfigURL parse f = Inr v"
    by (auto simp: resolveCatalogURL_def ResolveConfigURL_def catalogSection_def bind_res_Inr split: option.splits)
  then show ?thesis using f by (simp add: catalogProvider_def)
qed

lemma revision_40:
  assumes "ResolveListing pf repo = Inr r"
  shows "length (rvRevision r) = 40"
proof -
  have ws: "revisionFromWebseed u w = Some v \<Longrightarrow> length v = 40" for u w v
    by (auto simp: revisionFromWebseed_def Let_def split: option.splits if_splits)
  have "first_revision u wss \<noteq> [] \<Longrightarrow> length (first_revision u wss) = 40" for u wss
    by (induction wss) (auto dest: ws split: option.splits)
  moreover obtain m where "FromListing pf m = Inr r"
    using assms by (auto simp: ResolveListing_def bind_res_Inr split: if_splits option.splits)
  ultimately show ?thesis by (auto simp: FromListing_def Let_def split: sum.splits if_splits)
qed

text \<open>The early refusal is the one the daemon would give.\<close>

lemma early_refusal:
  assumes "ResolveListing pf repo = Inr r" and "ResolveAnchor hf pf r trust = Some (Inl e)"
  shows "(\<exists>x y. e = RescuedAnchor x y)
    \<or> (\<exists>d. CliCatalogPull c (Inr pf) hf repo quant trust = Some (Inl d)
         \<and> (e = ErrNotAnchored \<and> d = CatalogFailed e \<or> (\<exists>a b h. e = AnchorFetch a b h \<and> d = AnchorProbeFailed a b h)))"
proof -
  obtain tree where tr: "ListRepoTree hf (rvRepo r) (rvRevision r) = Some tree"
    using assms(2) by (auto simp: ResolveAnchor_def)
  show ?thesis using assms
    by (cases tree) (auto simp: tr CliCatalogPull_def ResolveAnchor_def split: sum.splits if_splits)
qed

text \<open>The daemon lists problems only in failed jobs, so the client's own report of them is never reached.\<close>

lemma verify_done_clean:
  assumes "exec_task env base VerifyTask sv = (sv', j)" and "jbState j = Done" and "jbVerify base = None"
  shows "case jbVerify j of None \<Rightarrow> True | Some p \<Rightarrow> vpMismatched p = [] \<and> vpMissing p = [] \<and> vpStateErrors p = []"
  using assms by (auto simp: AllResult_def exec_task_def run_verify_def failed_with_def Let_def split: sum.splits prod.splits if_splits)

subsection \<open>Failed jobs say why\<close>

definition tells_why :: "Job \<Rightarrow> bool" where
  "tells_why j \<longleftrightarrow> (jbState j = Failed \<longrightarrow> jbError j \<noteq> None)"

definition errors_ok :: "server \<Rightarrow> bool" where
  "errors_ok sv \<longleftrightarrow>
     (\<forall>i j. map_of (svJobs sv) i = Some j \<longrightarrow> tells_why j)
     \<and> (\<forall>i r j. map_of (svRuns sv) i = Some r \<longrightarrow> rnPc r = Returned j \<longrightarrow> tells_why j)"

lemma exec_task_tells: "exec_task env base tk sv = (sv', j) \<Longrightarrow> tells_why j"
  by (auto simp: exec_task_def tells_why_def run_fill_def run_bt_def run_catalog_def run_import_def run_verify_def
      import_job_def failed_with_def Let_def split: task.splits sum.splits prod.splits if_splits)

lemma handled_tells:
  assumes "handled env sv i a"
  shows "(\<forall>j. a = Answer j \<longrightarrow> tells_why j) \<and> (\<forall>js tk start. a = Launch js tk start \<longrightarrow> tells_why (last js))"
proof -
  have "\<forall>js tk start. a = Launch js tk start \<longrightarrow> tells_why (last js)"
    using handled_admissible [OF assms] by (auto simp: admissible_def tells_why_def)
  moreover have "\<forall>j. a = Answer j \<longrightarrow> tells_why j"
    using assms
  proof (induction rule: handled.induct)
    case (ensure now body)
    show ?case
      by (auto simp: tells_why_def handleEnsure_def bad_request_def Let_def
          split: option.splits if_splits sum.splits httpError.splits prod.splits)
  qed (auto simp: handleImportBT_def handleImportCatalog_def handleImportLocal_def handleImportHF_def handleVerify_def
      bad_request_def import_refused_def verify_launch_def Let_def
      split: option.splits if_splits sum.splits prod.splits local_error.splits)
  ultimately show ?thesis by blast
qed

lemma errors_ok_put:
  assumes "errors_ok sv" and "map_of (svJobs sv') = (map_of (svJobs sv))(i \<mapsto> j) \<or> svJobs sv' = svJobs sv"
    and "map_of (svRuns sv') = (map_of (svRuns sv))(k \<mapsto> r) \<or> svRuns sv' = svRuns sv"
    and "tells_why j" and "\<And>x. rnPc r = Returned x \<Longrightarrow> tells_why x"
  shows "errors_ok sv'"
  using assms by (auto simp: errors_ok_def split: if_splits)

lemma server_step_errors:
  assumes "jobs_ok sv" and "errors_ok sv" and "server_step sv sv'"
  shows "errors_ok sv'"
  using assms(3)
proof (cases rule: server_stepE)
  case (request i env a)
  note adm = handled_admissible [OF request(3)] handled_tells [OF request(3)]
  show ?thesis
  proof (cases a)
    case (Answer j)
    then show ?thesis using request adm assms(2) by (auto simp: admit_def errors_ok_def split: if_splits)
  next
    case (Launch js tk start)
    then have js: "js \<noteq> []" "\<forall>j \<in> set js. jbID j = i" using adm(1) by (auto simp: admissible_def)
    have "tells_why (last js)" using adm(2) Launch by blast
    then show ?thesis
      using request(1) Launch fold_publish [OF js, of sv] assms(2)
      by (auto simp: admit_def errors_ok_def split: if_splits)
  qed (use request assms(2) in \<open>simp_all add: admit_def\<close>)
next
  case (run env i)
  then show ?thesis
  proof (cases rule: run_stepE)
    case (start r)
    show ?thesis unfolding start(1)
      by (rule errors_ok_put [OF assms(2), where j = "(rnBase r)\<lparr>jbState := Fetching\<rparr>"]) (auto simp: tells_why_def)
  next
    case (exec r b j)
    show ?thesis unfolding exec(1)
      by (rule errors_ok_put [OF assms(2), where j = j]) (use exec_task_tells [OF exec(4)] in auto)
  next
    case (lock r j)
    then have "tells_why j" using assms(2) by (auto simp: errors_ok_def)
    then show ?thesis unfolding lock(1)
      by (intro errors_ok_put [OF assms(2), where j = j and k = i and r = "r\<lparr>rnLock := Some Finisher\<rparr>"]) (use lock in auto)
  next
    case (finish r j)
    then have "tells_why j" using assms(2) by (auto simp: errors_ok_def)
    then show ?thesis unfolding finish(1)
      by (intro errors_ok_put [OF assms(2), where i = "jbID j" and j = j and k = i]) auto
  qed
next
  case (tick i)
  then show ?thesis
  proof (cases rule: tick_stepE)
    case (take_lock r d t)
    then show ?thesis using assms(2) by (auto simp: errors_ok_def split: if_splits)
  next
    case (tick r d t)
    have "tells_why (tick_job sv i r d t)" by (simp add: tells_why_def)
    then show ?thesis using tick assms(2) by (auto simp: errors_ok_def split: if_splits)
  qed
next
  case (outside b)
  then show ?thesis using assms(2) by (simp add: errors_ok_def)
qed

interpretation told: step_system server_init server_step "\<lambda>sv. jobs_ok sv \<and> errors_ok sv"
proof
  show "server_init s \<Longrightarrow> jobs_ok s \<and> errors_ok s" for s
    by (simp add: server_init_def jobs_ok_def errors_ok_def)
qed (use server_step_ok server_step_errors in blast)

subsection \<open>Waiting for the daemon\<close>

text \<open>The document of a job on the wire; \<open>txt\<close> writes what a verification found.\<close>

definition state_name :: "job_state \<Rightarrow> string" where
  "state_name s = (case s of Waiting \<Rightarrow> ''waiting'' | Fetching \<Rightarrow> ''fetching'' | Done \<Rightarrow> ''done'' | Failed \<Rightarrow> ''failed'')"

definition wire_job :: "(verify_payload \<Rightarrow> verify_doc) \<Rightarrow> Job \<Rightarrow> cli_job" where
  "wire_job txt j =
     \<lparr>cjID = jbID j, cjRef = jbRef j, cjState = state_name (jbState j), cjError = jbError j, cjKind = jbKind j,
      cjFilesDone = int (jbFilesDone j), cjFilesTotal = int (jbFilesTotal j), cjResult = jbResult j,
      cjVerify = map_option txt (jbVerify j)\<rparr>"

text \<open>The daemon's answer to a poll.\<close>

definition job_reply ::
  "(cli_job \<Rightarrow> string) \<Rightarrow> (APIError \<Rightarrow> string) \<Rightarrow> (verify_payload \<Rightarrow> verify_doc) \<Rightarrow> server \<Rightarrow> string \<Rightarrow> reply" where
  "job_reply enc encE txt sv i =
     (case handleJob sv i of
        Inr j \<Rightarrow> Replied 200 (enc (wire_job txt j))
      | Inl (Refused status e) \<Rightarrow> Replied status (encE e)
      | Inl HandlerPanic \<Rightarrow> NoAnswer)"

lemma wire_terminal [simp]: "cjState (wire_job txt j) = ''done'' \<or> cjState (wire_job txt j) = ''failed'' \<longleftrightarrow> terminal j"
  by (cases "jbState j") (simp_all add: wire_job_def state_name_def terminal_def)

lemma wire_outcome: "cjState (wire_job txt j) = ''failed'' \<longleftrightarrow> jbState j = Failed" "cjError (wire_job txt j) = jbError j"
  by (cases "jbState j"; simp add: wire_job_def state_name_def)+

text \<open>What a poll answers, and whether the waiting goes on after it.\<close>

definition polled :: "client \<Rightarrow> string \<Rightarrow> nat \<Rightarrow> cli_error + cli_job" where
  "polled c i n = DoJSON c (clJob c) (clGet c n (job_path i))"

definition goes_on :: "client \<Rightarrow> string \<Rightarrow> nat \<Rightarrow> bool" where
  "goes_on c i n \<longleftrightarrow>
     \<not> clCancelled c n \<and> (\<exists>j. polled c i n = Inr j \<and> \<not> (cjState j = ''done'' \<or> cjState j = ''failed''))"

lemma WaitJob_goes_on: "goes_on c i n \<Longrightarrow> WaitJob c i n = WaitJob c i (Suc n)"
  by (auto simp: goes_on_def polled_def WaitJob.simps [of c i n])

lemma WaitJob_stops: "\<forall>k < n. goes_on c i k \<Longrightarrow> WaitJob c i 0 = WaitJob c i n"
  by (induction n) (simp_all add: WaitJob_goes_on)

lemma WaitJob_None:
  assumes "\<And>n. goes_on c i n"
  shows "WaitJob c i n = None"
proof -
  have "c = d \<longrightarrow> i = k \<longrightarrow> False" if d: "WaitJob d k m = Some y" for d k m y
  proof (rule WaitJob.raw_induct [where P = "\<lambda>d k m y. c = d \<longrightarrow> i = k \<longrightarrow> False", OF _ d])
    fix W d k m y
    assume IH: "\<And>d k m y. W d k m = Some y \<Longrightarrow> c = d \<longrightarrow> i = k \<longrightarrow> False"
      and body: "(case DoJSON d (clJob d) (clGet d m (job_path k)) of
        Inl e \<Rightarrow> Some (Inl e)
      | Inr j \<Rightarrow>
        if cjState j = ''done'' \<or> cjState j = ''failed'' then Some (Inr j)
        else if clCancelled d m then Some (Inl (Cancelled k))
        else W d k (m + 1)) = Some y"
    show "c = d \<longrightarrow> i = k \<longrightarrow> False"
      using assms [of m] body IH [of c i "m + 1" y] by (auto simp: goes_on_def polled_def)
  qed
  then show ?thesis by (cases "WaitJob c i n") auto
qed

lemma WaitJob_value:
  assumes "polled c i n = Inr j" and "clCancelled c n \<or> cjState j = ''done'' \<or> cjState j = ''failed''"
  shows "WaitJob c i n = Some (if cjState j = ''done'' \<or> cjState j = ''failed'' then Inr j else Inl (Cancelled i))"
  using assms by (auto simp: polled_def WaitJob.simps [of c i n])

text \<open>
  C39: a command that starts a job returns exactly when the job ends or the user breaks it off, and then with the daemon's verdict.
  Take a daemon in any infinite run, whatever other requests, ticks and programs do, whose answers the client reads
  at later and later times. The command never returns if and only if nobody breaks it off and the job never ends: a job that stays
  fetching makes it wait for ever. If it returns, then either it was broken off, after polls that all saw an unfinished job,
  or it saw the final document, the one every later reader gets: it returns the error document of the job if that failed, and there always
  is one, and otherwise what it prints for the document.
\<close>

theorem follow_delivers:
  assumes "server_init (\<sigma> 0)" and "\<And>n. server_step (\<sigma> n) (\<sigma> (Suc n))"
    and "DoJSON c (clJob c) (clPost c path req) = Inr job" and "handleJob (\<sigma> k) (cjID job) = Inr j0"
    and "strict_mono poll" "k \<le> poll 0"
    and "\<And>n. clGet c n (job_path (cjID job)) = job_reply enc encE txt (\<sigma> (poll n)) (cjID job)"
    and "\<And>n x. handleJob (\<sigma> n) (cjID job) = Inr x \<Longrightarrow> clJob c (enc (wire_job txt x)) = Some (wire_job txt x)"
  shows "(follow c path req fin = None \<longleftrightarrow>
      (\<forall>n. \<not> clCancelled c n) \<and> \<not> (\<exists>n \<ge> k. \<exists>t. handleJob (\<sigma> n) (cjID job) = Inr t \<and> terminal t))
    \<and> (\<forall>r. follow c path req fin = Some r \<longrightarrow>
        (\<exists>n. clCancelled c n \<and> (\<forall>m \<le> n. \<exists>x. handleJob (\<sigma> (poll m)) (cjID job) = Inr x \<and> \<not> terminal x)
           \<and> r = Inl (Cancelled (cjID job)))
        \<or> (\<exists>n t. terminal t \<and> (\<forall>m \<ge> poll n. handleJob (\<sigma> m) (cjID job) = Inr t) \<and> (\<forall>m < n. \<not> clCancelled c m)
           \<and> r = (if jbState t = Failed then Inl (JobFailed (jbError t)) else fin job (wire_job txt t))
           \<and> (jbState t = Failed \<longrightarrow> jbError t \<noteq> None)))"
proof -
  let ?i = "cjID job"
  let ?verdict = "\<lambda>t. if jbState t = Failed then Inl (JobFailed (jbError t)) else fin job (wire_job txt t)"
  let ?Ended = "\<lambda>n t. terminal t \<and> (\<forall>m \<ge> poll n. handleJob (\<sigma> m) ?i = Inr t) \<and> (\<forall>m < n. \<not> clCancelled c m)
    \<and> (jbState t = Failed \<longrightarrow> jbError t \<noteq> None)"
  have inv: "jobs_ok (\<sigma> n) \<and> errors_ok (\<sigma> n)" for n
    by (induction n) (use assms(1,2) told.step_inv told.init_inv in blast)+
  have at: "handleJob (\<sigma> n) ?i = Inr x \<longleftrightarrow> map_of (svJobs (\<sigma> n)) ?i = Some x" for n x
    by (simp add: handleJob_def split: option.splits)
  have there: "\<exists>x. handleJob (\<sigma> (k + n)) ?i = Inr x" for n
  proof (induction n)
    case (Suc n)
    then show ?case using server_step_left [OF _ assms(2)] inv by (simp add: at) blast
  qed (use assms(4) in simp)
  have stays: "handleJob (\<sigma> (n + m)) ?i = Inr x" if "handleJob (\<sigma> n) ?i = Inr x" "terminal x" for n m x
    by (induction m) (use that inv terminal_step [OF _ assms(2)] in \<open>auto simp: at\<close>)
  have read: "\<exists>x. handleJob (\<sigma> (poll n)) ?i = Inr x \<and> polled c ?i n = Inr (wire_job txt x)" for n
  proof -
    have "k \<le> poll n" using assms(5,6) by (meson le0 le_trans strict_mono_less_eq)
    then obtain x where "handleJob (\<sigma> (poll n)) ?i = Inr x" using there [of "poll n - k"] by auto
    then show ?thesis by (simp add: polled_def DoJSON_def Do_def assms(7,8) job_reply_def)
  qed
  have on: "goes_on c ?i n \<longleftrightarrow> \<not> clCancelled c n \<and> (\<exists>x. handleJob (\<sigma> (poll n)) ?i = Inr x \<and> \<not> terminal x)" for n
    using read [of n] wire_terminal unfolding goes_on_def by fastforce
  have follow: "follow c path req fin
      = map_option (\<lambda>w. case w of Inl e \<Rightarrow> Inl e | Inr t \<Rightarrow> if cjState t = ''failed'' then Inl (JobFailed (cjError t)) else fin job t)
          (WaitJob c ?i 0)"
    using assms(3) by (simp add: follow_def split: option.splits sum.splits)
  show ?thesis
  proof (cases "\<forall>n. goes_on c ?i n")
    case True
    have "\<not> terminal t" if "k \<le> n" "handleJob (\<sigma> n) ?i = Inr t" for n t
    proof
      assume "terminal t"
      have "n \<le> poll n" using assms(5) by (rule strict_mono_imp_increasing)
      then have "handleJob (\<sigma> (poll n)) ?i = Inr t" using stays [OF that(2) \<open>terminal t\<close>, of "poll n - n"] by simp
      then show False using True \<open>terminal t\<close> on [of n] by simp
    qed
    then show ?thesis using WaitJob_None [of c ?i 0] True on follow by auto
  next
    case False
    then obtain n where n: "\<not> goes_on c ?i n" "\<forall>m < n. goes_on c ?i m"
      using exists_least_iff [of "\<lambda>n. \<not> goes_on c ?i n"] by auto
    obtain x where x: "handleJob (\<sigma> (poll n)) ?i = Inr x" "polled c ?i n = Inr (wire_job txt x)" using read by blast
    have stop: "clCancelled c n \<or> terminal x" using n(1) on [of n] x(1) by auto
    have w: "WaitJob c ?i 0 = Some (if terminal x then Inr (wire_job txt x) else Inl (Cancelled ?i))"
      using WaitJob_stops [OF n(2)] WaitJob_value [OF x(2)] stop by simp
    show ?thesis
    proof (cases "terminal x")
      case True
      have "\<forall>m \<ge> poll n. handleJob (\<sigma> m) ?i = Inr x" using stays [OF x(1) True] by (metis le_add_diff_inverse)
      moreover have "jbState x = Failed \<longrightarrow> jbError x \<noteq> None"
        using inv [of "poll n"] x(1) by (auto simp: errors_ok_def tells_why_def at)
      moreover have f: "follow c path req fin = Some (?verdict x)" using w True follow by (simp add: wire_outcome)
      moreover have "k \<le> poll n" using assms(5,6) by (meson le0 le_trans strict_mono_less_eq)
      moreover have "\<forall>m < n. \<not> clCancelled c m" using n(2) on by simp
      ultimately have "?Ended n x" using True by simp
      then show ?thesis using f x(1) True \<open>k \<le> poll n\<close> by (simp, blast)
    next
      case unfinished: False
      then have "follow c path req fin = Some (Inl (Cancelled ?i))" using w follow by simp
      moreover have "\<forall>m \<le> n. \<exists>x. handleJob (\<sigma> (poll m)) ?i = Inr x \<and> \<not> terminal x"
        using n(2) on x(1) unfinished by (metis le_neq_implies_less)
      ultimately show ?thesis using stop unfinished by auto
    qed
  qed
qed

text \<open>The client of the server that verifies its store.\<close>

definition life_client :: client where
  "life_client =
     \<lparr>clPost = (\<lambda>_ _. Replied 200 ''b''), clGet = (\<lambda>n _. job_reply (\<lambda>x. if x = wire_job (\<lambda>_. \<lparr>vdMissing = [], vdStateErrors = []\<rparr>) life_base
          then ''b'' else ''e'') (\<lambda>_. []) (\<lambda>_. \<lparr>vdMissing = [], vdStateErrors = []\<rparr>) (life (Suc n)) ''1''),
      clEnvelope = (\<lambda>_. None),
      clJob = (\<lambda>s. Some (wire_job (\<lambda>_. \<lparr>vdMissing = [], vdStateErrors = []\<rparr>) (if s = ''b'' then life_base else life_end))),
      clCancelled = (\<lambda>_. False), clConfig = Inr []\<rparr>"

lemma follow_delivers_witness:
  "\<exists>r. CliVerify life_client ''--all'' = Some r \<and> r \<noteq> Inl (JobFailed None)"
proof -
  define found :: "verify_payload \<Rightarrow> verify_doc" where "found = (\<lambda>_. \<lparr>vdMissing = [], vdStateErrors = []\<rparr>)"
  define enc :: "cli_job \<Rightarrow> string" where "enc = (\<lambda>x. if x = wire_job found life_base then ''b'' else ''e'')"
  let ?job = "wire_job found life_base"
  have id: "cjID ?job = ''1''" using life_ids by (simp add: wire_job_def)
  have one: "handleJob (life 1) ''1'' = Inr life_base" unfolding handleJob_def life_one(2) by simp
  have states: "x = life_base \<or> x = life_end" if "handleJob (life n) ''1'' = Inr x" for n x
  proof -
    consider "n = 0" | "n = 1" | "n = 2" | "n \<ge> 3" by linarith
    then show ?thesis
    proof cases
      case 1
      then show ?thesis using that by (simp add: life_def handleJob_def)
    next
      case 3
      then have "map_of (svJobs (life n)) ''1'' = map_of (svJobs (life 1)) ''1''" by (simp add: life_two)
      then show ?thesis using that one by (simp add: handleJob_def)
    qed (use that one life_done in auto)
  qed
  have ne: "wire_job found life_base \<noteq> wire_job found life_end"
    using life_ids(4) by (metis wire_terminal life_ids(2) terminal_def job_state.distinct)
  have post: "DoJSON life_client (clJob life_client) (clPost life_client ''/v1/verify'' (VerifyReq ''--all'')) = Inr ?job"
    by (simp add: DoJSON_def Do_def life_client_def found_def)
  have get: "clGet life_client n (job_path (cjID ?job)) = job_reply enc (\<lambda>_. []) found (life (Suc n)) (cjID ?job)" for n
    unfolding id by (simp add: life_client_def enc_def found_def)
  have dec: "clJob life_client (enc (wire_job found x)) = Some (wire_job found x)"
    if "handleJob (life n) (cjID ?job) = Inr x" for n x
    using states [OF that [unfolded id]] ne by (auto simp: enc_def life_client_def found_def)
  have mono: "strict_mono Suc" by (simp add: strict_mono_def)
  let ?F = "follow life_client ''/v1/verify'' (VerifyReq ''--all'') verify_lines"
  have delivers: "(?F = None \<longleftrightarrow>
      (\<forall>n. \<not> clCancelled life_client n) \<and> \<not> (\<exists>n \<ge> 1. \<exists>t. handleJob (life n) (cjID ?job) = Inr t \<and> terminal t))
    \<and> (\<forall>r. ?F = Some r \<longrightarrow>
        (\<exists>n. clCancelled life_client n \<and> (\<forall>m \<le> n. \<exists>x. handleJob (life (Suc m)) (cjID ?job) = Inr x \<and> \<not> terminal x)
           \<and> r = Inl (Cancelled (cjID ?job)))
        \<or> (\<exists>n t. terminal t \<and> (\<forall>m \<ge> Suc n. handleJob (life m) (cjID ?job) = Inr t) \<and> (\<forall>m < n. \<not> clCancelled life_client m)
           \<and> r = (if jbState t = Failed then Inl (JobFailed (jbError t)) else verify_lines ?job (wire_job found t))
           \<and> (jbState t = Failed \<longrightarrow> jbError t \<noteq> None)))"
    by (rule follow_delivers [OF life_steps post _ mono _ get dec]) (simp_all only: id one order_refl)
  have ended: "handleJob (life 3) ''1'' = Inr life_end" "terminal life_end" using life_done life_ids(4) by simp_all
  have calm: "\<not> clCancelled life_client n" for n by (simp add: life_client_def)
  have "follow life_client ''/v1/verify'' (VerifyReq ''--all'') verify_lines \<noteq> None"
    unfolding conjunct1 [OF delivers] id using ended by (intro notI, elim conjE, elim notE) (intro exI [of _ 3], simp)
  then obtain r where r: "follow life_client ''/v1/verify'' (VerifyReq ''--all'') verify_lines = Some r" by blast
  have "r \<noteq> Inl (JobFailed None)"
    using conjunct2 [OF delivers, rule_format, OF r] calm
    by (auto simp: verify_lines_def split: option.splits if_splits)
  then show ?thesis using r by (simp add: CliVerify_def)
qed

subsection \<open>Listings\<close>

interpretation job_order: comparator "\<lambda>a b. jbCreatedAt b < jbCreatedAt a" "\<lambda>_. True"
  by unfold_locales auto

text \<open>The jobs \<open>status\<close> shows are the newest: what it leaves out is not newer than anything it shows.\<close>

lemma status_newest:
  assumes "x \<in> set (take 20 (handleJobsList sv))" and "y \<in> set (drop 20 (handleJobsList sv))"
  shows "jbCreatedAt y \<le> jbCreatedAt x"
proof -
  have "sorted_wrt (\<lambda>x y. \<not> jbCreatedAt x < jbCreatedAt y) (handleJobsList sv)"
    unfolding handleJobsList_def by (rule job_order.sort_in_order) simp
  then have "sorted_wrt (\<lambda>x y. \<not> jbCreatedAt x < jbCreatedAt y) (take 20 (handleJobsList sv) @ drop 20 (handleJobsList sv))"
    by simp
  then show ?thesis using assms unfolding sorted_wrt_append by fastforce
qed

end
