(* ===== verification/StopServe.thy ===== *)
theory StopServe
  imports Registry Scratch CliClient
begin

text \<open>
  \<open>shardr stop\<close>: \<open>Stop\<close> of \<open>internal/cli/run.go\<close> over the instance registry, the checks of a process's identity,
  the signals and the scratch directory. Other processes that change the registry in between are the subject of
  \<open>Registry\<close>; here the accesses follow each other.
\<close>

subsection \<open>Identity\<close>

text \<open>
  What is seen of the process of an instance, at instants counted from 0: its start token, what its endpoint answers, and
  the answers to signals. \<open>pvModels\<close> decodes the list of served models.
\<close>

record process_view =
  pvToken :: "nat \<Rightarrow> token_error + string"
  pvReply :: "nat \<Rightarrow> reply"
  pvModels :: "string \<Rightarrow> string list option"
  pvSignal :: "nat \<Rightarrow> sig_answer"
  pvPolls :: nat

text \<open>The status of the answer is not looked at.\<close>

definition probeModelID :: "(string \<Rightarrow> string list option) \<Rightarrow> reply \<Rightarrow> string option" where
  "probeModelID dec r =
     (case r of
        NoAnswer \<Rightarrow> None
      | Replied _ b \<Rightarrow> (case dec b of Some (m # _) \<Rightarrow> Some m | _ \<Rightarrow> None))"

definition startOK :: "process_view \<Rightarrow> nat \<Rightarrow> Instance \<Rightarrow> bool" where
  "startOK pv t i = StartIdentityOK (pvToken pv t) (inStartToken i)"

definition identityOK :: "process_view \<Rightarrow> nat \<Rightarrow> Instance \<Rightarrow> bool" where
  "identityOK pv t i = (startOK pv t i \<and> probeModelID (pvModels pv) (pvReply pv t) = Some (inRef i))"

text \<open>Instant 0 is the check before the process is announced as stopped; the termination starts at instant 1.\<close>

definition terminator :: "process_view \<Rightarrow> Instance \<Rightarrow> stop_env" where
  "terminator pv i =
     \<lparr>tvTerm = (\<lambda>t. identityOK pv (t + 1) i), tvKill = (\<lambda>t. startOK pv (t + 1) i),
      tvSignal = (\<lambda>t. pvSignal pv (t + 1)), tvPolls = pvPolls pv\<rparr>"

subsection \<open>Stopping\<close>

datatype stop_error =
    StopRegistry reg_error | NoTargetGiven "string list" | Unverified string int | TerminationFailed term_result

text \<open>A signal carries its instant of the termination.\<close>

datatype stop_event = Sent Instance nat unix_signal | ScratchKept string rm_error | StoppedInstance string | NoneRunning

record stop_state =
  ssReg :: file_read
  ssScratch :: "dir option"
  ssLog :: "stop_event list"

text \<open>
  The registry's codec, whether it can be locked and written, what fails below the scratch root, the root, and the
  processes by instance.
\<close>

record stop_ctx =
  sxDec :: "string \<Rightarrow> Instance list option"
  sxEnc :: "Instance list \<Rightarrow> string"
  sxWritable :: "string \<Rightarrow> bool"
  sxBad :: "fs_call \<Rightarrow> string list \<Rightarrow> bool"
  sxRoot :: string
  sxView :: "string \<Rightarrow> process_view"

definition RemoveInstance :: "stop_ctx \<Rightarrow> string \<Rightarrow> file_read \<Rightarrow> reg_error + file_read" where
  "RemoveInstance sx k f =
     (if \<not> sxWritable sx k then Inl RegIO
      else map_sum id (\<lambda>l. FileContent (sxEnc sx l)) (bind_res (listLocked (sxDec sx) f) (remove_instance k)))"

definition log_event :: "stop_event \<Rightarrow> stop_state \<Rightarrow> stop_state" where
  "log_event e s = s\<lparr>ssLog := ssLog s @ [e]\<rparr>"

definition clean_scratch :: "stop_ctx \<Rightarrow> Instance \<Rightarrow> stop_state \<Rightarrow> stop_state" where
  "clean_scratch sx i s =
     (if inSplitDir i = [] then s
      else case removeSplitDir (sxBad sx) (sxRoot sx) (inSplitDir i) (ssScratch s) of
        (t, None) \<Rightarrow> s\<lparr>ssScratch := t\<rparr>
      | (t, Some e) \<Rightarrow> log_event (ScratchKept (inID i) e) (s\<lparr>ssScratch := t\<rparr>))"

definition stop_one :: "stop_ctx \<Rightarrow> string \<Rightarrow> stop_state \<Rightarrow> stop_state \<times> (stop_error + unit)" where
  "stop_one sx k s =
     (case Find (sxDec sx) (ssReg s) k of
        Inl e \<Rightarrow> (s, Inl (StopRegistry e))
      | Inr i \<Rightarrow>
        if \<not> identityOK (sxView sx (inID i)) 0 i then (s, Inl (Unverified (inID i) (inPID i)))
        else
          let (sigs, r) = terminateVerified (terminator (sxView sx (inID i)) i);
              s = s\<lparr>ssLog := ssLog s @ map (\<lambda>(t, g). Sent i t g) sigs\<rparr> in
          if r \<noteq> Stopped then (s, Inl (TerminationFailed r))
          else
            let s = clean_scratch sx i s in
            case RemoveInstance sx k (ssReg s) of
              Inl e \<Rightarrow> (s, Inl (StopRegistry e))
            | Inr f \<Rightarrow> (log_event (StoppedInstance k) (s\<lparr>ssReg := f\<rparr>), Inr ()))"

fun stop_all :: "stop_ctx \<Rightarrow> string list \<Rightarrow> stop_state \<Rightarrow> stop_state \<times> (stop_error + unit)" where
  "stop_all sx [] s = (s, Inr ())"
| "stop_all sx (k # ks) s =
     (case stop_one sx k s of (s', Inl e) \<Rightarrow> (s', Inl e) | (s', Inr _) \<Rightarrow> stop_all sx ks s')"

definition stop_targets :: "stop_ctx \<Rightarrow> file_read \<Rightarrow> Instance list \<Rightarrow> string \<Rightarrow> bool \<Rightarrow> stop_error + string list" where
  "stop_targets sx f l k all =
     (if all then Inr (map inID l)
      else if k \<noteq> [] then map_sum StopRegistry (\<lambda>_. [k]) (Find (sxDec sx) f k)
      else Inl (NoTargetGiven (map inID l)))"

definition CliStop :: "stop_ctx \<Rightarrow> string \<Rightarrow> bool \<Rightarrow> stop_state \<Rightarrow> stop_state \<times> (stop_error + unit)" where
  "CliStop sx k all s =
     (case listLocked (sxDec sx) (ssReg s) of
        Inl e \<Rightarrow> (s, Inl (StopRegistry e))
      | Inr l \<Rightarrow>
        if l = [] then (log_event NoneRunning s, Inr ())
        else case stop_targets sx (ssReg s) l k all of
          Inl e \<Rightarrow> (s, Inl e)
        | Inr ks \<Rightarrow> stop_all sx ks s)"

subsection \<open>Who is stopped\<close>

text \<open>The registry file holds the instances \<open>m\<close>, all of them from \<open>l\<close>.\<close>

definition holds :: "stop_ctx \<Rightarrow> Instance list \<Rightarrow> file_read \<Rightarrow> (string \<rightharpoonup> Instance) \<Rightarrow> bool" where
  "holds sx l f m \<longleftrightarrow> (\<exists>l'. listLocked (sxDec sx) f = Inr l' \<and> set l' \<subseteq> set l \<and> distinct_ids l' \<and> view l' = m)"

definition codec_on :: "stop_ctx \<Rightarrow> Instance list \<Rightarrow> bool" where
  "codec_on sx l \<longleftrightarrow> (\<forall>l'. set l' \<subseteq> set l \<longrightarrow> sxDec sx (sxEnc sx l') = Some l')"

lemma find_view: "distinct_ids l \<Longrightarrow> find (\<lambda>e. inID e = k) l = view l k"
  by (induction l) (auto simp: view_def distinct_ids_def)

lemma view_Some: "view l k = Some i \<Longrightarrow> i \<in> set l \<and> inID i = k"
  by (auto simp: view_def dest: map_of_SomeD)

lemma Find_Inr:
  assumes "holds sx l f m"
  shows "Find (sxDec sx) f k = Inr i \<longleftrightarrow> m k = Some i"
  using assms find_view [of _ k] by (auto simp: holds_def Find_def split: option.splits)

lemma RemoveInstance_holds:
  assumes "holds sx l f m" and "codec_on sx l" and "RemoveInstance sx k f = Inr f'"
  shows "holds sx l f' (m(k := None))"
proof -
  obtain l' where l': "listLocked (sxDec sx) f = Inr l'" "set l' \<subseteq> set l" "distinct_ids l'" "view l' = m"
    using assms(1) by (auto simp: holds_def)
  let ?r = "filter (\<lambda>e. inID e \<noteq> k) l'" and ?lt = "\<lambda>a b. inID a < inID b"
  have f': "f' = FileContent (sxEnc sx ?r)"
    using assms(3) l'(1) by (auto simp: RemoveInstance_def remove_instance_def split: if_splits)
  have "set ?r \<subseteq> set l" using l'(2) by auto
  then have d: "listLocked (sxDec sx) f' = Inr (sort_by ?lt ?r)"
    using assms(2) by (simp add: f' listLocked_def codec_on_def)
  have v: "distinct_ids ?r" "view ?r = m(k := None)"
    using apply_op_refines [OF _ l'(3), of "RemoveOp k" ?r] l'(4)
    by (auto simp: apply_op_def remove_instance_def spec_op_def)
  then have "distinct_ids (sort_by ?lt ?r)" "view (sort_by ?lt ?r) = m(k := None)"
    using distinct_ids_cong [of "sort_by ?lt ?r" ?r] view_cong [of ?r "sort_by ?lt ?r"] by simp_all
  then show ?thesis using d \<open>set ?r \<subseteq> set l\<close> by (auto simp: holds_def)
qed

text \<open>What was confirmed of an instance that is stopped, and when a signal was justified.\<close>

definition confirmed :: "stop_ctx \<Rightarrow> Instance \<Rightarrow> bool" where
  "confirmed sx i \<longleftrightarrow>
     identityOK (sxView sx (inID i)) 0 i \<and> snd (terminateVerified (terminator (sxView sx (inID i)) i)) = Stopped"

definition justified :: "stop_ctx \<Rightarrow> (Instance \<Rightarrow> bool) \<Rightarrow> stop_event \<Rightarrow> bool" where
  "justified sx target e \<longleftrightarrow>
     (case e of
        Sent i t g \<Rightarrow> target i \<and> (if g = SIGTERM then identityOK else startOK) (sxView sx (inID i)) (t + 1) i
      | _ \<Rightarrow> True)"

lemma justified_simps [simp]:
  "justified sx T (Sent i t g)
     \<longleftrightarrow> T i \<and> (if g = SIGTERM then identityOK else startOK) (sxView sx (inID i)) (t + 1) i"
  "justified sx T (ScratchKept x y)" "justified sx T (StoppedInstance x)" "justified sx T NoneRunning"
  by (simp_all add: justified_def)

lemma terminateVerified_signals:
  "(t, g) \<in> set (fst (terminateVerified env)) \<Longrightarrow> if g = SIGTERM then tvTerm env t else tvKill env t"
  by (auto simp: terminateVerified_def Let_def split: if_splits sig_answer.splits)

lemma clean_scratch_simps [simp]: "ssReg (clean_scratch sx i s) = ssReg s"
  by (auto simp: clean_scratch_def log_event_def split: prod.splits option.splits)

lemma clean_scratch_log:
  "(\<forall>e \<in> set (ssLog s). justified sx T e) \<Longrightarrow> e \<in> set (ssLog (clean_scratch sx i s)) \<Longrightarrow> justified sx T e"
  by (cases "removeSplitDir (sxBad sx) (sxRoot sx) (inSplitDir i) (ssScratch s)")
    (auto simp: clean_scratch_def log_event_def simp del: justified_simps(1) split: option.splits if_splits)

lemma stop_one_effect:
  assumes "holds sx l (ssReg s) m" and "codec_on sx l" and "stop_one sx k s = (s', r)"
    and "\<forall>e \<in> set (ssLog s). justified sx T e" and "\<And>i. i \<in> set l \<Longrightarrow> inID i = k \<Longrightarrow> T i"
  shows "(\<forall>e \<in> set (ssLog s'). justified sx T e)
    \<and> (case r of Inl e \<Rightarrow> ssReg s' = ssReg s
        | Inr _ \<Rightarrow> (\<exists>i. m k = Some i \<and> confirmed sx i) \<and> holds sx l (ssReg s') (m(k := None)))"
proof (cases "Find (sxDec sx) (ssReg s) k")
  case (Inl e)
  then show ?thesis using assms(3,4) by (auto simp: stop_one_def)
next
  case (Inr i)
  then have mi: "m k = Some i" using Find_Inr [OF assms(1)] by simp
  then have i: "i \<in> set l" "inID i = k" using assms(1) view_Some by (auto simp: holds_def)
  let ?pv = "sxView sx k"
  obtain sigs res where sr: "terminateVerified (terminator ?pv i) = (sigs, res)" by (metis surj_pair)
  define s1 where "s1 = s\<lparr>ssLog := ssLog s @ map (\<lambda>(t, g). Sent i t g) sigs\<rparr>"
  have "justified sx T (Sent i t g)" if "(t, g) \<in> set sigs" for t g
  proof -
    have "if g = SIGTERM then tvTerm (terminator ?pv i) t else tvKill (terminator ?pv i) t"
      using terminateVerified_signals [of t g "terminator ?pv i"] that by (simp add: sr)
    then show ?thesis using assms(5) [OF i] by (simp add: terminator_def i(2) split: if_splits)
  qed
  then have j1: "\<forall>e \<in> set (ssLog s1). justified sx T e" using assms(4) by (auto simp: s1_def)
  then have j2: "\<forall>e \<in> set (ssLog (clean_scratch sx i s1)). justified sx T e" using clean_scratch_log by blast
  have reg: "ssReg s1 = ssReg s" by (simp add: s1_def)
  show ?thesis
  proof (cases "identityOK ?pv 0 i \<and> res = Stopped")
    case False
    then show ?thesis using assms(3,4) Inr i(2) sr j1 reg
      by (auto simp: stop_one_def s1_def split: if_splits)
  next
    case True
    then have "confirmed sx i" using sr i(2) by (simp add: confirmed_def)
    then show ?thesis using assms(3) Inr i(2) sr True j2 reg mi RemoveInstance_holds [OF assms(1,2)]
      by (auto simp: stop_one_def s1_def [symmetric] log_event_def Let_def simp del: justified_simps(1) split: sum.splits)
  qed
qed

lemma stop_all_effect:
  assumes "holds sx l (ssReg s) m" and "codec_on sx l" and "stop_all sx ks s = (s', r)"
    and "\<forall>e \<in> set (ssLog s). justified sx T e" and "\<And>i. i \<in> set l \<Longrightarrow> inID i \<in> set ks \<Longrightarrow> T i"
  shows "(\<forall>e \<in> set (ssLog s'). justified sx T e)
    \<and> (\<exists>gone. holds sx l (ssReg s') (\<lambda>k. if k \<in> gone then None else m k)
         \<and> (\<forall>k \<in> gone. k \<in> set ks \<and> (\<exists>i. m k = Some i \<and> confirmed sx i)) \<and> (r = Inr () \<longrightarrow> gone = set ks))"
  using assms(1,3,4,5)
proof (induction ks arbitrary: s m)
  case Nil
  then show ?case by (auto intro!: exI [of _ "{}"])
next
  case (Cons k ks)
  obtain s1 r1 where one: "stop_one sx k s = (s1, r1)" by (metis surj_pair)
  have e: "(\<forall>e \<in> set (ssLog s1). justified sx T e)
    \<and> (case r1 of Inl e \<Rightarrow> ssReg s1 = ssReg s
        | Inr _ \<Rightarrow> (\<exists>i. m k = Some i \<and> confirmed sx i) \<and> holds sx l (ssReg s1) (m(k := None)))"
    using Cons.prems by (intro stop_one_effect [OF Cons.prems(1) assms(2) one]) auto
  show ?case
  proof (cases r1)
    case (Inl x)
    then have "s' = s1" "r = Inl x" using Cons.prems(2) one by simp_all
    then show ?thesis using e Inl Cons.prems(1) by (auto intro!: exI [of _ "{}"])
  next
    case (Inr u)
    then have h: "holds sx l (ssReg s1) (m(k := None))" and k: "\<exists>i. m k = Some i \<and> confirmed sx i" using e by auto
    have rest: "stop_all sx ks s1 = (s', r)" using Cons.prems(2) one Inr by simp
    obtain gone where g: "holds sx l (ssReg s') (\<lambda>x. if x \<in> gone then None else (m(k := None)) x)"
      "\<forall>x \<in> gone. x \<in> set ks \<and> (\<exists>i. (m(k := None)) x = Some i \<and> confirmed sx i)" "r = Inr () \<longrightarrow> gone = set ks"
      and j: "\<forall>e \<in> set (ssLog s'). justified sx T e"
      using Cons.IH [OF h rest] e Cons.prems(4) by auto
    have "(\<lambda>x. if x \<in> gone then None else (m(k := None)) x) = (\<lambda>x. if x \<in> insert k gone then None else m x)" by auto
    then show ?thesis using g j k by (intro conjI exI [of _ "insert k gone"]) (auto split: if_splits)
  qed
qed

text \<open>
  C37: \<open>stop\<close>, given an identifier or \<open>--all\<close>, stops what it was asked to stop and nothing else, and only what is still the registered
  process. Whatever the processes, the signals and the disk do: every signal goes to a listed instance that was asked for, the
  first one with both the start token and the served reference confirmed at that instant, the kill with the start token
  confirmed; the registry afterwards lists the same instances but some that were asked for, confirmed and stopped; and without an error all
  that were asked for are gone.
\<close>

theorem CliStop_only_confirmed:
  assumes "listLocked (sxDec sx) (ssReg s) = Inr l" and "distinct_ids l" and "codec_on sx l"
    and "ssLog s = []" and "all \<or> k \<noteq> []" and "CliStop sx k all s = (s', r)"
  shows "(\<forall>e \<in> set (ssLog s'). justified sx (\<lambda>i. i \<in> set l \<and> (all \<or> inID i = k)) e)
    \<and> (\<exists>gone. holds sx l (ssReg s') (\<lambda>x. if x \<in> gone then None else view l x)
         \<and> (\<forall>x \<in> gone. (all \<or> x = k) \<and> (\<exists>i. view l x = Some i \<and> confirmed sx i))
         \<and> (r = Inr () \<and> l \<noteq> [] \<longrightarrow> gone = (if all then inID ` set l else {k})))"
proof -
  let ?T = "\<lambda>i. i \<in> set l \<and> (all \<or> inID i = k)"
  have h: "holds sx l (ssReg s) (view l)" using assms(1,2) by (auto simp: holds_def)
  show ?thesis
  proof (cases "l = [] \<or> (\<exists>e. stop_targets sx (ssReg s) l k all = Inl e)")
    case True
    then have "ssReg s' = ssReg s \<and> (\<forall>e \<in> set (ssLog s'). justified sx ?T e) \<and> (l \<noteq> [] \<longrightarrow> s' = s \<and> r \<noteq> Inr ())"
      using assms(1,4,6) by (auto simp: CliStop_def log_event_def stop_targets_def split: if_splits)
    then show ?thesis using h by (auto intro!: exI [of _ "{}"])
  next
    case False
    then obtain ks where ks: "stop_targets sx (ssReg s) l k all = Inr ks" and ne: "l \<noteq> []"
      by (cases "stop_targets sx (ssReg s) l k all") auto
    have set_ks: "set ks = (if all then inID ` set l else {k})"
      using ks by (cases "Find (sxDec sx) (ssReg s) k"; simp add: stop_targets_def split: if_splits; fastforce)
    have run: "stop_all sx ks s = (s', r)" using assms(1,6) ks ne by (simp add: CliStop_def)
    have "(\<forall>e \<in> set (ssLog s'). justified sx ?T e)
      \<and> (\<exists>gone. holds sx l (ssReg s') (\<lambda>x. if x \<in> gone then None else view l x)
           \<and> (\<forall>x \<in> gone. x \<in> set ks \<and> (\<exists>i. view l x = Some i \<and> confirmed sx i)) \<and> (r = Inr () \<longrightarrow> gone = set ks))"
      by (rule stop_all_effect [OF h assms(3) run]) (auto simp: assms(4) set_ks split: if_splits)
    then show ?thesis using set_ks by (auto split: if_splits)
  qed
qed

text \<open>An instance that serves its reference and ends at the first signal; and one whose number was reused.\<close>

definition one_instance :: Instance where
  "one_instance = \<lparr>inID = ''a'', inRef = ''r'', inEndpoint = ''e'', inPID = 7, inStarted = [], inStartToken = ''t'', inSplitDir = []\<rparr>"

definition one_ctx :: "string \<Rightarrow> stop_ctx" where
  "one_ctx live =
     \<lparr>sxDec = (\<lambda>s. Some (replicate (length s) one_instance)), sxEnc = (\<lambda>l. replicate (length l) CHR ''x''),
      sxWritable = (\<lambda>_. True), sxBad = (\<lambda>_ _. False), sxRoot = ''/run/shardr-split'',
      sxView = (\<lambda>_. \<lparr>pvToken = (\<lambda>_. Inr live), pvReply = (\<lambda>_. Replied 200 ''r''), pvModels = (\<lambda>b. Some [b]),
         pvSignal = (\<lambda>t. if t \<le> 1 then Accepted else Gone), pvPolls = 3\<rparr>)\<rparr>"

definition one_state :: stop_state where
  "one_state = \<lparr>ssReg = FileContent ''x'', ssScratch = None, ssLog = []\<rparr>"

lemma one_stopped:
  "CliStop (one_ctx ''t'') ''a'' False one_state
     = (\<lparr>ssReg = FileContent [], ssScratch = None, ssLog = [Sent one_instance 0 SIGTERM, StoppedInstance ''a'']\<rparr>, Inr ())"
  by code_simp

lemma one_reused: "CliStop (one_ctx ''u'') ''a'' False one_state = (one_state, Inl (Unverified ''a'' 7))"
  by code_simp

lemma CliStop_only_confirmed_witness:
  "holds (one_ctx ''t'') [one_instance] (FileContent []) (\<lambda>_. None) \<and> confirmed (one_ctx ''t'') one_instance"
proof -
  let ?sx = "one_ctx ''t''"
  have l: "listLocked (sxDec ?sx) (ssReg one_state) = Inr [one_instance]" by code_simp
  have d: "distinct_ids [one_instance]" by (simp add: distinct_ids_def)
  have "replicate (length l') one_instance = l'" if "set l' \<subseteq> {one_instance}" for l'
    using that by (induction l') auto
  then have c: "codec_on ?sx [one_instance]" by (simp add: codec_on_def one_ctx_def)
  have e: "ssLog one_state = []" by (simp add: one_state_def)
  have v: "view [one_instance] = [''a'' \<mapsto> one_instance]" by (simp add: view_def one_instance_def)
  obtain gone where "holds ?sx [one_instance] (FileContent []) (\<lambda>x. if x \<in> gone then None else view [one_instance] x)"
    "gone = {''a''}" "\<forall>x \<in> gone. \<exists>i. view [one_instance] x = Some i \<and> confirmed ?sx i"
    using CliStop_only_confirmed [OF l d c e _ one_stopped] by auto
  moreover have "(\<lambda>x. if x \<in> {''a''} then None else view [one_instance] x) = (\<lambda>_. None)" by (auto simp: v)
  ultimately show ?thesis by (auto simp: v)
qed

text \<open>
  With neither an identifier nor \<open>--all\<close> nothing is signalled and nothing changes, and the command ends in an error that lists the
  running instances; the command's comment calls it a comfort and not an error.
\<close>

lemma CliStop_no_target:
  assumes "listLocked (sxDec sx) (ssReg s) = Inr l" and "l \<noteq> []"
  shows "CliStop sx [] False s = (s, Inl (NoTargetGiven (map inID l)))"
  using assms by (simp add: CliStop_def stop_targets_def)

end
