(* ===== verification/LaunchPlan.thy ===== *)
theory LaunchPlan
  imports StopServe Runner CliArgs
begin

text \<open>
  The first half of \<open>prepare\<close> in \<open>internal/cli/run.go\<close>: from the arguments of \<open>run\<close> and \<open>serve\<close> to what is to
  be started. The reference is completed, the daemon makes the artifact local and lists its files, the layers of settings
  are merged, and the weights and the projector are chosen.
\<close>

record open_result =
  orManifestDigest :: string
  orFiles :: "fileRecord list"
  orMissing :: "string list"

datatype launch_error =
    OfClient cli_error | ConfigFileUnreadable | ConfigFileBad config_error | StillMissing "string list" | AdvisoryUnreadable
  | AdvisoryBad string runner_error | SetWithoutValue string | SetRejected runner_error | MergeFailed runner_error
  | NoWeightsFile | ScratchDirFailed | PartDirFailed string | PartLinkFailed string | BinaryError binary_error
  | LogFileFailed | SpawnFailed | NotReady | TokenError token_error | RegistryError reg_error
  | AndCleanup launch_error rm_error

text \<open>
  What the launch finds around it: files by path, the JSON library, the scratch root and the name of this launch below a
  digest, what can be created and linked, the runtime's binary, how the process starts, what signals to a process meet (the answers
  and the number of probes in the grace period) and whether the registry can be written.
\<close>

datatype link_entry = NoEntry | HardLink string | SymLink string | OtherEntry

record link_env =
  lnRemove :: "nat \<Rightarrow> bool"
  lnRace :: "nat \<Rightarrow> link_entry \<Rightarrow> link_entry"
  lnFails :: "nat \<Rightarrow> bool"
  lnOtherDevice :: bool
  lnSymlink :: bool

record launch_env =
  leRead :: "string \<Rightarrow> string option"
  leOpen :: "string \<Rightarrow> open_result option"
  leBody :: "string \<Rightarrow> bool"
  leConv :: "int \<Rightarrow> int"
  leScalars :: "string \<Rightarrow> (string \<times> json_any) list option"
  leRoot :: string
  leLaunch :: string
  leScratch :: bool
  leMkdir :: "string \<Rightarrow> bool"
  leLinks :: "string \<Rightarrow> link_env"
  leBytes :: "string \<Rightarrow> string"
  leBad :: "fs_call \<Rightarrow> string list \<Rightarrow> bool"
  leBinary :: "binary_error + string"
  leLog :: bool
  leSpawn :: "SpawnRequest \<Rightarrow> (nat \<times> int) option"
  leReady :: bool
  leSignals :: "int \<Rightarrow> (nat \<Rightarrow> sig_answer) \<times> nat"
  leToken :: "int \<Rightarrow> token_error + string"
  leNow :: string
  leRegistry :: bool
  leEnc :: "Instance list \<Rightarrow> string"
  leDec :: "string \<Rightarrow> Instance list option"

definition canonicalizeWithConfig ::
  "launch_env \<Rightarrow> client \<Rightarrow> string \<Rightarrow> string \<Rightarrow> launch_error + string \<times> config_file \<times> config_file" where
  "canonicalizeWithConfig le c arg configFile =
     (case clConfig c of
        Inl e \<Rightarrow> Inl (OfClient (ConfigError (LoadFailed e)))
      | Inr userCfg \<Rightarrow>
      case Canonicalize arg (cfg_selector userCfg) of
        Inl e \<Rightarrow> Inl (OfClient e)
      | Inr canonical \<Rightarrow>
      if configFile = [] then Inr (canonical, userCfg, [])
      else case leRead le configFile of
        None \<Rightarrow> Inl ConfigFileUnreadable
      | Some b \<Rightarrow> (case ParseConfig b of Inl e \<Rightarrow> Inl (ConfigFileBad e) | Inr f \<Rightarrow> Inr (canonical, userCfg, f)))"

definition url_char :: "char \<Rightarrow> string" where
  "url_char c =
     (if c = CHR '':'' then ''%3A'' else if c = CHR ''/'' then ''%2F'' else if c = CHR ''+'' then ''%2B''
      else if c = CHR ''@'' then ''%40'' else [c])"

definition urlEscape :: "string \<Rightarrow> string" where
  "urlEscape s = concat (map url_char s)"

definition shortRefOf :: "Ref \<Rightarrow> string" where
  "shortRefOf p =
     (if rTag p \<noteq> [] then rNS p @ ''/'' @ rName p @ '':'' @ rTag p @ ''+'' @ rQuant p
      else rNS p @ ''/'' @ rName p @ '':'' @ rQuant p)"

definition id_char :: "char \<Rightarrow> bool" where
  "id_char c = (is_lower c \<or> is_digit c \<or> c = CHR ''.'' \<or> c = CHR ''_'' \<or> c = CHR ''-'')"

text \<open>Every longest run of other characters becomes one hyphen; the flag says that such a run goes on.\<close>

primrec idSanitize :: "bool \<Rightarrow> string \<Rightarrow> string" where
  "idSanitize within [] = []"
| "idSanitize within (c # s) =
     (if id_char c then c # idSanitize False s
      else if within then idSanitize True s else CHR ''-'' # idSanitize True s)"

definition idFor :: "string \<Rightarrow> Ref \<Rightarrow> string" where
  "idFor want p =
     (if want \<noteq> [] then want else idSanitize False (ToLower (rNS p @ ''-'' @ rName p @ ''-'' @ rQuant p)))"

text \<open>Make the artifact local: nothing more to do, or wait for the job; a failed job is the error.\<close>

definition ensure_local :: "client \<Rightarrow> string \<Rightarrow> (launch_error + unit) option" where
  "ensure_local c canonical =
     (case DoJSON c (clJob c) (clPost c ''/v1/ensure'' (EnsureReq canonical)) of
        Inl e \<Rightarrow> Some (Inl (OfClient e))
      | Inr job \<Rightarrow>
        if cjState job = ''failed'' then Some (Inl (OfClient (JobFailed (cjError job))))
        else if cjState job = ''done'' then Some (Inr ())
        else case WaitJob c (cjID job) 0 of
          None \<Rightarrow> None
        | Some (Inl e) \<Rightarrow> Some (Inl (OfClient e))
        | Some (Inr t) \<Rightarrow> Some (if cjState t = ''failed'' then Inl (OfClient (JobFailed (cjError t))) else Inr ()))"

fun advisory :: "launch_env \<Rightarrow> client \<Rightarrow> fileRecord list \<Rightarrow> section_map \<Rightarrow> launch_error + section_map" where
  "advisory le c [] out = Inr out"
| "advisory le c (f # fs) out =
     (if fxKind f \<noteq> ''runtime-config'' \<or> fxRuntime f \<noteq> ''llama'' then advisory le c fs out
      else case Do c (clGet c 0 (''/v1/blob/'' @ TrimPrefix (fxDigest f) ''sha256:'')) of
        Inl e \<Rightarrow> Inl (OfClient e)
      | Inr b \<Rightarrow>
        if \<not> leBody le (fxDigest f) then Inl AdvisoryUnreadable
        else case ParseScalars (leConv le) (leScalars le) b of
          Inl e \<Rightarrow> Inl (AdvisoryBad (fxName f) e)
        | Inr m \<Rightarrow> advisory le c fs (put_all_keys m out))"

fun apply_sets :: "string list \<Rightarrow> Overlay \<Rightarrow> launch_error + Overlay" where
  "apply_sets [] ov = Inr ov"
| "apply_sets (s # ss) ov =
     (case cut_at (CHR ''='') s of
        None \<Rightarrow> Inl (SetWithoutValue s)
      | Some (k, v) \<Rightarrow> (case AddSet k v ov of Inl e \<Rightarrow> Inl (SetRejected e) | Inr ov' \<Rightarrow> apply_sets ss ov'))"

subsection \<open>The files of a launch\<close>

datatype pick_warning = AuxWithoutRole string | UnknownRole string string | ProjectorNotFound string

definition aux_warning :: "fileRecord \<Rightarrow> pick_warning list" where
  "aux_warning f =
     (if fxKind f \<noteq> ''weights.aux'' \<or> fxRole f = ''vision-projector'' then []
      else if fxRole f = [] then [AuxWithoutRole (fxName f)] else [UnknownRole (fxRole f) (fxName f)])"

definition partOf :: "fileRecord \<Rightarrow> int" where
  "partOf f = (case fxPart f of Some n \<Rightarrow> n | None \<Rightarrow> 0)"

definition is_projector :: "fileRecord \<Rightarrow> bool" where
  "is_projector f = (fxKind f = ''weights.aux'' \<and> fxRole f = ''vision-projector'')"

text \<open>The warnings come with an error too. (The sort of the library may reorder parts of one number.)\<close>

definition pickWeights ::
  "fileRecord list \<Rightarrow> string \<Rightarrow> pick_warning list \<times> (launch_error + fileRecord \<times> fileRecord list \<times> string)" where
  "pickWeights files variant =
     (let variant = (if variant = [] then ''f16'' else variant);
          parts = filter (\<lambda>f. fxKind f = ''weights.gguf'') files;
          matching = filter (\<lambda>f. is_projector f \<and> fxVariant f = variant) files;
          mmproj = (if matching = [] then [] else fxPath (last matching));
          warns = concat (map aux_warning files) in
      if parts = [] then (warns, Inl NoWeightsFile)
      else
        let parts = sort_by (\<lambda>a b. partOf a < partOf b) parts in
        (warns @ (if list_ex is_projector files \<and> matching = [] then [ProjectorNotFound variant] else []),
         Inr (hd parts, parts, mmproj)))"

record run_plan =
  pnCanonical :: string
  pnRef :: Ref
  pnMerged :: section_map
  pnWeights :: fileRecord
  pnParts :: "fileRecord list"
  pnMmproj :: string
  pnManifest :: string

definition overlays :: "launch_env \<Rightarrow> client \<Rightarrow> string list \<Rightarrow> Ref \<Rightarrow> config_file \<Rightarrow> config_file \<Rightarrow> open_result \<Rightarrow> launch_error + Overlay" where
  "overlays le c sets p userCfg layer3 opened =
     bind_res (if orManifestDigest opened \<noteq> [] then advisory le c (orFiles opened) [] else Inr []) (\<lambda>adv.
       apply_sets sets
         \<lparr>ovAdvisory = adv, ovUserConfig = UserConfigOverlay userCfg ''llama'' (shortRefOf p),
          ovConfigFile = UserConfigOverlay layer3 ''llama'' (shortRefOf p), ovSets = [], ovSetOrder = []\<rparr>)"

text \<open>The plan of a launch from the opened artifact.\<close>

definition plan_files ::
  "launch_env \<Rightarrow> client \<Rightarrow> run_opts \<Rightarrow> string \<Rightarrow> Ref \<Rightarrow> config_file \<Rightarrow> config_file \<Rightarrow> open_result \<Rightarrow> launch_error + run_plan" where
  "plan_files le c o' canonical p userCfg layer3 opened =
     (if orMissing opened \<noteq> [] then Inl (StillMissing (orMissing opened))
      else
        bind_res (overlays le c (roSets o') p userCfg layer3 opened) (\<lambda>ov.
        case Merge ov of
          Inl e \<Rightarrow> Inl (MergeFailed e)
        | Inr merged \<Rightarrow>
          let variant = (case map_of merged ''mmproj_variant'' of Some v \<Rightarrow> vStr v | None \<Rightarrow> []) in
          map_sum id (\<lambda>(weights, parts, mmproj).
              \<lparr>pnCanonical = canonical, pnRef = p, pnMerged = merged, pnWeights = weights, pnParts = parts,
               pnMmproj = mmproj, pnManifest = orManifestDigest opened\<rparr>)
            (snd (pickWeights (orFiles opened) variant))))"

definition plan :: "launch_env \<Rightarrow> client \<Rightarrow> run_opts \<Rightarrow> (launch_error + run_plan) option" where
  "plan le c o' =
     (case canonicalizeWithConfig le c (roRef o') (roConfig o') of
        Inl e \<Rightarrow> Some (Inl e)
      | Inr (canonical, userCfg, layer3) \<Rightarrow>
      case Parse canonical of
        Inl e \<Rightarrow> Some (Inl (OfClient (BadRef e)))
      | Inr p \<Rightarrow>
      case ensure_local c canonical of
        None \<Rightarrow> None
      | Some (Inl e) \<Rightarrow> Some (Inl e)
      | Some (Inr _) \<Rightarrow>
        (case DoJSON c (leOpen le) (clGet c 0 (''/v1/open?ref='' @ urlEscape canonical)) of
           Inl e \<Rightarrow> Some (Inl (OfClient e))
         | Inr opened \<Rightarrow> Some (plan_files le c o' canonical p userCfg layer3 opened)))"

subsection \<open>What is chosen\<close>

interpretation part_order: comparator "\<lambda>a b. partOf a < partOf b" "\<lambda>_. True"
  by unfold_locales auto

lemma pickWeights_Inr:
  assumes "snd (pickWeights files variant) = Inr (w, parts, mmproj)"
  shows "mset parts = mset (filter (\<lambda>f. fxKind f = ''weights.gguf'') files) \<and> parts \<noteq> [] \<and> w = hd parts
    \<and> sorted (map partOf parts) \<and> (\<forall>f \<in> set parts. partOf w \<le> partOf f)
    \<and> (mmproj \<noteq> [] \<longrightarrow> (\<exists>f \<in> set files. is_projector f \<and> fxPath f = mmproj
          \<and> fxVariant f = (if variant = [] then ''f16'' else variant)))"
proof -
  let ?v = "if variant = [] then ''f16'' else variant" and ?gg = "filter (\<lambda>f. fxKind f = ''weights.gguf'') files"
  let ?match = "filter (\<lambda>f. is_projector f \<and> fxVariant f = ?v) files" and ?lt = "\<lambda>a b. partOf a < partOf b"
  have r: "?gg \<noteq> []" "parts = sort_by ?lt ?gg" "w = hd parts" "mmproj = (if ?match = [] then [] else fxPath (last ?match))"
    using assms by (auto simp: pickWeights_def Let_def split: if_splits)
  have m: "mset parts = mset ?gg" unfolding r(2) by simp
  have "length parts = length ?gg" unfolding r(2) by simp
  then have ne: "parts \<noteq> []" using r(1) by auto
  have "sorted_wrt (\<lambda>x y. \<not> partOf y < partOf x) parts" unfolding r(2) by (rule part_order.sort_in_order) simp
  then have s: "sorted (map partOf parts)" by (simp add: sorted_map not_less)
  have "\<forall>f \<in> set parts. partOf w \<le> partOf f" using s ne unfolding r(3) by (cases parts) auto
  moreover have "\<exists>f \<in> set files. is_projector f \<and> fxPath f = mmproj \<and> fxVariant f = ?v" if "mmproj \<noteq> []"
  proof -
    have "?match \<noteq> []" using that r(4) by (simp split: if_splits)
    then have "last ?match \<in> set ?match" by (rule last_in_set)
    then show ?thesis using r(4) \<open>?match \<noteq> []\<close> by auto
  qed
  ultimately show ?thesis using m ne s r(3) by blast
qed

text \<open>A plan: the reference completed, nothing missing, the settings the merge of the layers, and the files chosen.\<close>

lemma plan_facts:
  assumes "plan le c o' = Some (Inr pn)"
  shows "\<exists>userCfg layer3 opened ov ws.
      canonicalizeWithConfig le c (roRef o') (roConfig o') = Inr (pnCanonical pn, userCfg, layer3)
    \<and> Parse (pnCanonical pn) = Inr (pnRef pn) \<and> ensure_local c (pnCanonical pn) = Some (Inr ())
    \<and> DoJSON c (leOpen le) (clGet c 0 (''/v1/open?ref='' @ urlEscape (pnCanonical pn))) = Inr opened
    \<and> orMissing opened = [] \<and> pnManifest pn = orManifestDigest opened
    \<and> overlays le c (roSets o') (pnRef pn) userCfg layer3 opened = Inr ov \<and> Merge ov = Inr (pnMerged pn)
    \<and> pickWeights (orFiles opened) (case map_of (pnMerged pn) ''mmproj_variant'' of Some v \<Rightarrow> vStr v | None \<Rightarrow> [])
        = (ws, Inr (pnWeights pn, pnParts pn, pnMmproj pn))"
proof -
  obtain canonical userCfg layer3 p opened where
    c: "canonicalizeWithConfig le c (roRef o') (roConfig o') = Inr (canonical, userCfg, layer3)" "Parse canonical = Inr p"
      "ensure_local c canonical = Some (Inr ())"
      "DoJSON c (leOpen le) (clGet c 0 (''/v1/open?ref='' @ urlEscape canonical)) = Inr opened"
    and f: "plan_files le c o' canonical p userCfg layer3 opened = Inr pn"
    using assms by (auto simp: plan_def split: sum.splits option.splits prod.splits)
  obtain ov where ov: "orMissing opened = []" "overlays le c (roSets o') p userCfg layer3 opened = Inr ov"
    using f by (auto simp: plan_files_def bind_res_Inr split: if_splits)
  then obtain merged where "Merge ov = Inr merged" using f by (cases "Merge ov") (auto simp: plan_files_def)
  note m = ov this
  obtain ws r where pk: "pickWeights (orFiles opened) (case map_of merged ''mmproj_variant'' of Some v \<Rightarrow> vStr v | None \<Rightarrow> []) = (ws, r)"
    by (metis surj_pair)
  obtain w ps mm where "r = Inr (w, ps, mm)"
    using f m pk by (auto simp: plan_files_def Let_def map_sum_Inr split: if_splits)
  then show ?thesis using f m c pk by (auto simp: plan_files_def Let_def)
qed

text \<open>Different models may be given the same identifier; and a selector of spaces is used, though the reader of the layers ignores it.\<close>

lemma idFor_collides:
  "idFor [] p = ''a-b-c-q4_0''" if "p = \<lparr>rCanonical = [], rNS = ''a-b'', rName = ''c'', rSel = [], rTag = [], rQuant = ''q4_0'', rDigest = []\<rparr>
     \<or> p = \<lparr>rCanonical = [], rNS = ''a'', rName = ''b-c'', rSel = [], rTag = [], rQuant = ''q4_0'', rDigest = []\<rparr>"
  using that by (elim disjE; hypsubst; code_simp)

lemma blank_selector:
  "cfg_selector [(''references'', [(''default_selector'', StrVal '' '')])] = '' ''
   \<and> DefaultSelector [(''references'', [(''default_selector'', StrVal '' '')])] = []"
  by code_simp

end
