(* ===== verification/RuntimeProc.thy ===== *)
theory RuntimeProc
  imports Instances Runner
begin

text \<open>
  \<open>internal/runner/llama.go\<close>, the running server: waiting until it is ready and ending it; and where instances are
  registered. Probes, the clock and the process are parameters.
\<close>

text \<open>What the waiting loop meets in its rounds; times are those of the clock when a round begins.\<close>

record ready_env =
  reTime :: "nat \<Rightarrow> int"
  reCancelled :: "nat \<Rightarrow> bool"
  reExited :: "nat \<Rightarrow> bool"
  reHealth :: "nat \<Rightarrow> nat option"
  reModels :: "nat \<Rightarrow> nat option"

definition ReadyTimeout :: int where "ReadyTimeout = 120 * 10 ^ 9"

definition TerminateGrace :: int where "TerminateGrace = 30 * 10 ^ 9"

text \<open>The status of an answer, if there is one.\<close>

definition probeOK :: "nat option \<Rightarrow> bool" where "probeOK r = (r = Some 200)"

datatype ready_result = IsReady | Cancelled | ExitedEarly | TimedOut

text \<open>When both hold, either of the two ends may be taken; here the first. The deadline is counted from the call.\<close>

partial_function (option) wait_ready :: "ready_env \<Rightarrow> int \<Rightarrow> nat \<Rightarrow> (nat \<times> ready_result) option" where
  "wait_ready env deadline n =
     (if reTime env n \<ge> deadline then Some (n, TimedOut)
      else if reCancelled env n then Some (n, Cancelled)
      else if reExited env n then Some (n, ExitedEarly)
      else if probeOK (reHealth env n) \<and> probeOK (reModels env n) then Some (n, IsReady)
      else wait_ready env deadline (n + 1))"

declare wait_ready.simps [code]

definition WaitReady :: "ready_env \<Rightarrow> int \<Rightarrow> (nat \<times> ready_result) option" where
  "WaitReady env now = wait_ready env (now + ReadyTimeout) 0"

text \<open>The round in which the loop ends, and how.\<close>

definition round_ends :: "ready_env \<Rightarrow> int \<Rightarrow> nat \<Rightarrow> bool" where
  "round_ends env deadline n \<longleftrightarrow>
     reTime env n \<ge> deadline \<or> reCancelled env n \<or> reExited env n \<or> (probeOK (reHealth env n) \<and> probeOK (reModels env n))"

lemma wait_ready_at:
  assumes "m \<le> n" and "round_ends env deadline n" and "\<And>k. m \<le> k \<Longrightarrow> k < n \<Longrightarrow> \<not> round_ends env deadline k"
  shows "\<exists>r. wait_ready env deadline m = Some (n, r)
    \<and> (r = IsReady \<longleftrightarrow> reTime env n < deadline \<and> \<not> reCancelled env n \<and> \<not> reExited env n
         \<and> reHealth env n = Some 200 \<and> reModels env n = Some 200)"
  using assms(1,3)
proof (induction m rule: inc_induct)
  case base
  then show ?case using assms(2)
    by (auto simp: wait_ready.simps [of env deadline n] round_ends_def probeOK_def)
next
  case (step k)
  then have "\<not> round_ends env deadline k" by simp
  then have "wait_ready env deadline k = wait_ready env deadline (Suc k)"
    by (auto simp: wait_ready.simps [of env deadline k] round_ends_def)
  then show ?case using step by simp
qed

text \<open>
  When the clock goes on, waiting ends: with a ready server exactly if in some round before the deadline both
  endpoints answer, the process is alive and the call is not cancelled, and no earlier round ended the waiting.
\<close>

lemma WaitReady_returns:
  assumes "\<exists>n. reTime env n \<ge> now + ReadyTimeout"
  shows "\<exists>n r. WaitReady env now = Some (n, r)
    \<and> (r = IsReady \<longleftrightarrow> reTime env n < now + ReadyTimeout \<and> \<not> reCancelled env n \<and> \<not> reExited env n
         \<and> reHealth env n = Some 200 \<and> reModels env n = Some 200)
    \<and> (\<forall>k < n. \<not> round_ends env (now + ReadyTimeout) k)"
proof -
  have "\<exists>n. round_ends env (now + ReadyTimeout) n" using assms by (auto simp: round_ends_def)
  then obtain n where n: "round_ends env (now + ReadyTimeout) n" "\<And>k. k < n \<Longrightarrow> \<not> round_ends env (now + ReadyTimeout) k"
    using exists_least_iff [of "round_ends env (now + ReadyTimeout)"] by auto
  then show ?thesis
    using wait_ready_at [of 0 n env "now + ReadyTimeout"] unfolding WaitReady_def by blast
qed

text \<open>Ending an own child: no identity is checked.\<close>

definition TerminatePID :: "(nat \<Rightarrow> sig_answer) \<Rightarrow> nat \<Rightarrow> (nat \<times> unix_signal) list \<times> term_result" where
  "TerminatePID answers polls =
     terminateVerified \<lparr>tvTerm = (\<lambda>_. True), tvKill = (\<lambda>_. True), tvSignal = answers, tvPolls = polls\<rparr>"

text \<open>\<open>started\<close>: there is a process.\<close>

definition Terminate :: "bool \<Rightarrow> (nat \<Rightarrow> sig_answer) \<Rightarrow> nat \<Rightarrow> (nat \<times> unix_signal) list \<times> term_result" where
  "Terminate started answers polls = (if started then TerminatePID answers polls else ([], Stopped))"

text \<open>A child that does not go is killed: the end is a refused signal or the end of the process.\<close>

lemma Terminate_insists:
  assumes "answers 0 = Accepted" and "\<forall>i \<le> polls. answers i \<noteq> Gone"
  shows "fst (Terminate True answers polls) = [(0, SIGTERM), (Suc polls, SIGKILL)]"
proof -
  have "\<not> list_ex (\<lambda>i. answers i = Gone) [1..<Suc polls]" using assms(2) by (auto simp: list_ex_iff)
  then show ?thesis using assms(1) by (simp add: Terminate_def TerminatePID_def terminateVerified_def Let_def del: upt_Suc)
qed

text \<open>Where the registry and the scratch directories are; \<open>mk\<close> is whether the directory can be made.\<close>

definition user_dir :: "string \<Rightarrow> string \<Rightarrow> string option \<Rightarrow> string" where
  "user_dir tmp name uid = Join [tmp, name @ ''-'' @ (case uid of Some u \<Rightarrow> u | None \<Rightarrow> ''0'')]"

definition RegistryPath :: "(string \<Rightarrow> string) \<Rightarrow> string \<Rightarrow> string option \<Rightarrow> bool \<Rightarrow> string option" where
  "RegistryPath env tmp uid mk =
     (if env ''SHARDR_RUNNER_STATE'' \<noteq> [] then Some (env ''SHARDR_RUNNER_STATE'')
      else if env ''XDG_RUNTIME_DIR'' \<noteq> [] then Some (Join [env ''XDG_RUNTIME_DIR'', ''shardr-instances.json''])
      else if \<not> mk then None
      else Some (Join [user_dir tmp ''shardr'' uid, ''shardr-instances.json'']))"

definition splitRoot :: "(string \<Rightarrow> string) \<Rightarrow> string \<Rightarrow> string option \<Rightarrow> string" where
  "splitRoot env tmp uid =
     Join [if env ''XDG_RUNTIME_DIR'' \<noteq> [] then env ''XDG_RUNTIME_DIR'' else user_dir tmp ''shardr'' uid, ''shardr-split'']"

subsection \<open>Starting\<close>

text \<open>
  \<open>spPort\<close> is the port the system reserves, if any, \<open>spStart\<close> whether the process can be started. The child of a
  detached start has a session of its own.
\<close>

record spawn_env =
  spPort :: "nat option"
  spStart :: "string \<Rightarrow> string list \<Rightarrow> bool"

record Runtime =
  rtBinary :: string
  rtArgs :: "string list"
  rtPort :: nat
  rtOwnSession :: bool

datatype spawn_error = NoPort | NotStarted

definition Spawn :: "spawn_env \<Rightarrow> bool \<Rightarrow> SpawnRequest \<Rightarrow> spawn_error + Runtime" where
  "Spawn se detached req =
     (case spPort se of
        None \<Rightarrow> Inl NoPort
      | Some port \<Rightarrow>
        let argv = spawn_argv port req in
        if \<not> spStart se (sqBinary req) argv then Inl NotStarted
        else Inr \<lparr>rtBinary = sqBinary req, rtArgs = argv, rtPort = port, rtOwnSession = detached\<rparr>)"

text \<open>
  The server listens on the loopback address and on the reserved port, whatever the merged settings are: the first
  four arguments say so, and no setting of the list of allowed ones has a flag for either.
\<close>

lemma allowed_flags:
  "s \<in> set Allowlist \<Longrightarrow> spFlag s \<noteq> ''--host'' \<and> spFlag s \<noteq> ''--port'' \<and> spFlag s \<noteq> ''-m''"
  by (auto simp: Allowlist_def)

lemma Spawn_loopback:
  "Spawn se detached req = Inr rt \<Longrightarrow>
     take 6 (rtArgs rt) = [''--host'', ''127.0.0.1'', ''--port'', dec_nat (rtPort rt), ''-m'', sqWeights req]
     \<and> spPort se = Some (rtPort rt)"
  by (auto simp: Spawn_def spawn_argv_def Let_def split: option.splits if_splits)

subsection \<open>Writing the registry\<close>

text \<open>
  \<open>writeLocked\<close> over the files of a directory: a new file, then its rename. The flags are whether the directory is
  there, the file can be made, its bytes written, and the rename succeeds.
\<close>

definition writeLocked ::
  "bool \<times> bool \<times> bool \<times> bool \<Rightarrow> string \<Rightarrow> string \<Rightarrow> string \<Rightarrow> (string \<rightharpoonup> string) \<Rightarrow> (string \<rightharpoonup> string) \<times> (reg_error + unit)" where
  "writeLocked oks path tmp b fs =
     (case oks of (mkdir, create, put, ren) \<Rightarrow>
        if \<not> mkdir \<or> \<not> create then (fs, Inl RegIO)
        else let fs = fs(tmp \<mapsto> []) in
        if \<not> put then (fs(tmp := None), Inl RegIO)
        else let fs = fs(tmp \<mapsto> b) in
        if \<not> ren then (fs(tmp := None), Inl RegIO)
        else (fs(tmp := None, path \<mapsto> b), Inr ()))"

lemma writeLocked_atomic:
  assumes "fs tmp = None" and "tmp \<noteq> path"
  shows "writeLocked oks path tmp b fs = (fs(path \<mapsto> b), Inr ()) \<or> writeLocked oks path tmp b fs = (fs, Inl RegIO)"
proof -
  have "fs(tmp := None) = fs" using assms(1) by (simp add: fun_upd_idem)
  then show ?thesis by (auto simp: writeLocked_def Let_def split: prod.splits)
qed

subsection \<open>Names in messages\<close>

definition layer_text :: "Layer \<Rightarrow> string" where
  "layer_text l =
     (case l of
        LayerAdvisory \<Rightarrow> ''advisory defaults (manifest runtime-config)''
      | LayerUserConfig \<Rightarrow> ''user config (config.toml)''
      | LayerConfigFile \<Rightarrow> ''--config file''
      | LayerSet \<Rightarrow> ''--set'')"

definition allowlistKeys :: string where "allowlistKeys = join_with '', '' (map spKey Allowlist)"

definition kindName :: "Kind \<Rightarrow> string" where
  "kindName k = (case k of KindBool \<Rightarrow> ''bool'' | KindInt \<Rightarrow> ''int'' | KindString \<Rightarrow> ''string'')"

definition idsOf :: "Instance list \<Rightarrow> string" where "idsOf l = join_with '', '' (map inID l)"

end
