(* ===== verification/Launch.thy ===== *)
theory Launch
  imports LaunchPlan RuntimeProc
begin

text \<open>
  The second half of \<open>prepare\<close> in \<open>internal/cli/run.go\<close> and the launches around it: the parts of a split model are linked
  under their names into a scratch directory of this launch, the runtime is started and, for \<open>serve\<close>, registered. The
  scratch root is a tree that holds real directories where the code creates some; a hard link is a file with
  the bytes of its source.
\<close>

subsection \<open>One part\<close>

datatype link_answer = LinkOk | LinkExists | LinkOtherDevice | LinkError

text \<open>\<open>os.Link\<close>, tried for the \<open>n\<close>-th time; other processes may change the entry before.\<close>

definition try_link :: "link_env \<Rightarrow> nat \<Rightarrow> link_entry \<Rightarrow> link_answer" where
  "try_link ln n e =
     (if lnFails ln n then LinkError else if e \<noteq> NoEntry then LinkExists
      else if lnOtherDevice ln then LinkOtherDevice else LinkOk)"

definition linkPart :: "link_env \<Rightarrow> string \<Rightarrow> link_entry \<Rightarrow> link_entry \<times> bool" where
  "linkPart ln src e =
     (let e0 = lnRace ln 0 (if lnRemove ln 0 then NoEntry else e) in
      case try_link ln 0 e0 of
        LinkOk \<Rightarrow> (HardLink src, True)
      | LinkError \<Rightarrow> (e0, False)
      | LinkOtherDevice \<Rightarrow> if lnSymlink ln then (SymLink src, True) else (e0, False)
      | LinkExists \<Rightarrow>
          if e0 = SymLink src \<or> e0 = HardLink src then (e0, True)
          else
            let e1 = lnRace ln 1 (if lnRemove ln 1 then NoEntry else e0) in
            case try_link ln 1 e1 of
              LinkOk \<Rightarrow> (HardLink src, True)
            | LinkOtherDevice \<Rightarrow> if lnSymlink ln then (SymLink src, True) else (e1, False)
            | _ \<Rightarrow> (e1, False))"

text \<open>Whatever other processes put there, what is left under the name is the source.\<close>

lemma linkPart_identity: "linkPart ln src e = (e', True) \<Longrightarrow> e' = HardLink src \<or> e' = SymLink src"
  by (auto simp: linkPart_def Let_def split: link_answer.splits if_splits)

subsection \<open>The scratch directory\<close>

text \<open>\<open>os.MkdirAll\<close> below the root; \<open>None\<close> when something that is no directory is in the way.\<close>

fun mk_dirs :: "string list \<Rightarrow> dir \<Rightarrow> dir option" where
  "mk_dirs [] es = Some es"
| "mk_dirs (c # cs) es =
     (case map_of es c of
        None \<Rightarrow> map_option (\<lambda>d. AList.update c (NDir d) es) (mk_dirs cs [])
      | Some (NDir d) \<Rightarrow> map_option (\<lambda>d'. AList.update c (NDir d') es) (mk_dirs cs d)
      | _ \<Rightarrow> None)"

text \<open>The components below the root of a path, if it is below.\<close>

definition below :: "string \<Rightarrow> string \<Rightarrow> string list option" where
  "below root p =
     (let r = path_comps root; q = path_comps p in
      if take (length r) q = r \<and> length r < length q then Some (drop (length r) q) else None)"

definition set_entry :: "(string \<Rightarrow> string) \<Rightarrow> string list \<Rightarrow> link_entry \<Rightarrow> dir \<Rightarrow> dir" where
  "set_entry bytes cs e =
     change_dir (butlast cs) (\<lambda>d.
       case e of
         NoEntry \<Rightarrow> AList.delete (last cs) d
       | OtherEntry \<Rightarrow> d
       | HardLink s \<Rightarrow> AList.update (last cs) (NFile (bytes s)) d
       | SymLink s \<Rightarrow> AList.update (last cs) (NLink s) d)"

text \<open>A directory with entries is not removed.\<close>

definition links_at :: "link_env \<Rightarrow> node option \<Rightarrow> link_env" where
  "links_at ln n =
     (case n of Some (NDir (_ # _)) \<Rightarrow> ln\<lparr>lnRemove := (\<lambda>_. False), lnRace := (\<lambda>_ e. e)\<rparr> | _ \<Rightarrow> ln)"

definition entry_of :: "node option \<Rightarrow> link_entry" where
  "entry_of n = (case n of None \<Rightarrow> NoEntry | Some _ \<Rightarrow> OtherEntry)"

text \<open>One round of the loop over the parts; a name that leads out of the root changes nothing below it.\<close>

definition place_part :: "launch_env \<Rightarrow> string \<Rightarrow> fileRecord \<Rightarrow> dir \<Rightarrow> dir \<times> launch_error option" where
  "place_part le d f es =
     (let name = fxName f; ln = leLinks le name in
      if \<not> leMkdir le name then (es, Some (PartDirFailed name))
      else case below (leRoot le) (Join [d, name]) of
        None \<Rightarrow> (es, if snd (linkPart ln (fxPath f) NoEntry) then None else Some (PartLinkFailed name))
      | Some cs \<Rightarrow>
        (case mk_dirs (butlast cs) es of
           None \<Rightarrow> (es, Some (PartDirFailed name))
         | Some es' \<Rightarrow>
           let n = node_at es' cs; (e, ok) = linkPart (links_at ln n) (fxPath f) (entry_of n) in
           (set_entry (leBytes le) cs e es', if ok then None else Some (PartLinkFailed name))))"

fun link_parts :: "launch_env \<Rightarrow> string \<Rightarrow> fileRecord list \<Rightarrow> dir \<Rightarrow> dir \<times> launch_error option" where
  "link_parts le d [] es = (es, None)"
| "link_parts le d (f # fs) es =
     (case place_part le d f es of (es', Some e) \<Rightarrow> (es', Some e) | (es', None) \<Rightarrow> link_parts le d fs es')"

definition splitScratchDir :: "launch_env \<Rightarrow> string \<Rightarrow> dir option \<Rightarrow> launch_error + string \<times> dir" where
  "splitScratchDir le digest scratch =
     (let d = Join [leRoot le, TrimPrefix digest ''sha256:'', leLaunch le];
          es = (case scratch of None \<Rightarrow> [] | Some es \<Rightarrow> es) in
      if \<not> leScratch le then Inl ScratchDirFailed
      else case below (leRoot le) d of
        None \<Rightarrow> Inr (d, es)
      | Some cs \<Rightarrow> (case mk_dirs cs es of None \<Rightarrow> Inl ScratchDirFailed | Some es' \<Rightarrow> Inr (d, es')))"

text \<open>The tree, the scratch directory this launch owns, the path of the weights, and the error.\<close>

definition stage :: "launch_env \<Rightarrow> run_plan \<Rightarrow> dir option \<Rightarrow> dir option \<times> string \<times> string \<times> launch_error option" where
  "stage le pn scratch =
     (if length (pnParts pn) \<le> 1 then (scratch, [], fxPath (pnWeights pn), None)
      else case splitScratchDir le (pnManifest pn) scratch of
        Inl e \<Rightarrow> (scratch, [], [], Some e)
      | Inr (d, es) \<Rightarrow>
        (case link_parts le d (pnParts pn) es of
           (es', e) \<Rightarrow> (Some es', d, Join [d, fxName (hd (pnParts pn))], e)))"

subsection \<open>Launches\<close>

record launch_state =
  lcScratch :: "dir option"
  lcReg :: file_read
  lcProcs :: "int list"

record launched =
  ldRequest :: SpawnRequest
  ldPort :: nat
  ldPID :: int
  ldRef :: string
  ldID :: string
  ldSplitDir :: string

text \<open>The deferred removal: its failure is joined to the error.\<close>

definition cleanup :: "launch_env \<Rightarrow> string \<Rightarrow> launch_error \<Rightarrow> dir option \<Rightarrow> dir option \<times> launch_error" where
  "cleanup le d e t =
     (if d = [] then (t, e)
      else case removeSplitDir (leBad le) (leRoot le) d t of
        (t', None) \<Rightarrow> (t', e)
      | (t', Some x) \<Rightarrow> (t', AndCleanup e x))"

definition spawn_plan :: "launch_env \<Rightarrow> bool \<Rightarrow> string \<Rightarrow> run_plan \<Rightarrow> launch_error + SpawnRequest \<times> nat \<times> int" where
  "spawn_plan le detached weights pn =
     (case leBinary le of
        Inl e \<Rightarrow> Inl (BinaryError e)
      | Inr bin \<Rightarrow>
        if detached \<and> \<not> leLog le then Inl LogFileFailed
        else
          let req = \<lparr>sqBinary = bin, sqWeights = weights, sqArgv = Argv (pnMerged pn), sqMmproj = pnMmproj pn,
                sqRef = pnCanonical pn\<rparr> in
          case leSpawn le req of None \<Rightarrow> Inl SpawnFailed | Some (port, pid) \<Rightarrow> Inr (req, port, pid))"

definition start_plan ::
  "launch_env \<Rightarrow> string \<Rightarrow> bool \<Rightarrow> run_plan \<Rightarrow> launch_state \<Rightarrow> launch_state \<times> (launch_error + launched)" where
  "start_plan le want detached pn st =
     (case stage le pn (lcScratch st) of
        (t, d, w, Some e) \<Rightarrow> (case cleanup le d e t of (t', e') \<Rightarrow> (st\<lparr>lcScratch := t'\<rparr>, Inl e'))
      | (t, d, w, None) \<Rightarrow>
        (case spawn_plan le detached w pn of
           Inl e \<Rightarrow> (case cleanup le d e t of (t', e') \<Rightarrow> (st\<lparr>lcScratch := t'\<rparr>, Inl e'))
         | Inr (req, port, pid) \<Rightarrow>
             (st\<lparr>lcScratch := t, lcProcs := pid # lcProcs st\<rparr>,
              Inr \<lparr>ldRequest = req, ldPort = port, ldPID = pid, ldRef = pnCanonical pn,
                   ldID = idFor want (pnRef pn), ldSplitDir = d\<rparr>)))"

definition prepare ::
  "launch_env \<Rightarrow> client \<Rightarrow> run_opts \<Rightarrow> bool \<Rightarrow> launch_state \<Rightarrow> (launch_state \<times> (launch_error + launched)) option" where
  "prepare le c o' detached st =
     (case plan le c o' of
        None \<Rightarrow> None
      | Some (Inl e) \<Rightarrow> Some (st, Inl e)
      | Some (Inr pn) \<Rightarrow> Some (start_plan le (roID o') detached pn st))"

text \<open>
  The process is ended and the scratch directory removed. The error of \<open>Terminate\<close> is dropped, so a process that refuses the signals
  runs on; a failure of the removal is printed.
\<close>

definition ends :: "launch_env \<Rightarrow> int \<Rightarrow> bool" where
  "ends le pid = (case leSignals le pid of (answers, polls) \<Rightarrow> snd (Terminate True answers polls) = Stopped)"

definition dismiss :: "launch_env \<Rightarrow> launched \<Rightarrow> launch_state \<Rightarrow> launch_state" where
  "dismiss le ld st =
     st\<lparr>lcProcs := (if ends le (ldPID ld) then remove1 (ldPID ld) (lcProcs st) else lcProcs st),
        lcScratch := (if ldSplitDir ld = [] then lcScratch st
          else fst (removeSplitDir (leBad le) (leRoot le) (ldSplitDir ld) (lcScratch st)))\<rparr>"

definition Endpoint :: "nat \<Rightarrow> string" where "Endpoint port = ''http://127.0.0.1:'' @ dec_nat port"

definition AddInstance :: "launch_env \<Rightarrow> Instance \<Rightarrow> file_read \<Rightarrow> reg_error + file_read" where
  "AddInstance le i f =
     (if \<not> leRegistry le then Inl RegIO
      else map_sum id (\<lambda>l. FileContent (leEnc le l)) (bind_res (listLocked (leDec le) f) (add_instance i)))"

definition instance_of :: "launch_env \<Rightarrow> launched \<Rightarrow> string \<Rightarrow> Instance" where
  "instance_of le ld token =
     \<lparr>inID = ldID ld, inRef = ldRef ld, inEndpoint = Endpoint (ldPort ld), inPID = ldPID ld, inStarted = leNow le,
      inStartToken = token, inSplitDir = ldSplitDir ld\<rparr>"

definition register :: "launch_env \<Rightarrow> launched \<Rightarrow> launch_state \<Rightarrow> launch_state \<times> (launch_error + launched)" where
  "register le ld st =
     (if \<not> leReady le then (dismiss le ld st, Inl NotReady)
      else case leToken le (ldPID ld) of
        Inl e \<Rightarrow> (dismiss le ld st, Inl (TokenError e))
      | Inr token \<Rightarrow>
        (case AddInstance le (instance_of le ld token) (lcReg st) of
           Inl e \<Rightarrow> (dismiss le ld st, Inl (RegistryError e))
         | Inr f \<Rightarrow> (st\<lparr>lcReg := f\<rparr>, Inr ld)))"

definition launchDetached ::
  "launch_env \<Rightarrow> client \<Rightarrow> run_opts \<Rightarrow> launch_state \<Rightarrow> (launch_state \<times> (launch_error + launched)) option" where
  "launchDetached le c o' st =
     map_option (\<lambda>(st, r). case r of Inl e \<Rightarrow> (st, Inl e) | Inr ld \<Rightarrow> register le ld st) (prepare le c o' True st)"

text \<open>\<open>Serve\<close>: what is told about the running instance.\<close>

definition CliServe ::
  "launch_env \<Rightarrow> client \<Rightarrow> run_opts \<Rightarrow> launch_state \<Rightarrow> (launch_state \<times> (launch_error + string \<times> string \<times> string)) option" where
  "CliServe le c o' st =
     map_option (\<lambda>(st, r). (st, map_sum id (\<lambda>ld. (ldRef ld, ldID ld, Endpoint (ldPort ld))) r)) (launchDetached le c o' st)"

text \<open>The foreground launch, until the server is ready.\<close>

definition launch ::
  "launch_env \<Rightarrow> client \<Rightarrow> run_opts \<Rightarrow> launch_state \<Rightarrow> (launch_state \<times> (launch_error + launched)) option" where
  "launch le c o' st =
     map_option (\<lambda>(st, r).
       case r of Inl e \<Rightarrow> (st, Inl e) | Inr ld \<Rightarrow> if leReady le then (st, Inr ld) else (dismiss le ld st, Inl NotReady))
       (prepare le c o' False st)"

text \<open>\<open>Run\<close>: the state when the foreground launch is over, by a signal for instance, or by an error.\<close>

definition CliRun ::
  "launch_env \<Rightarrow> client \<Rightarrow> run_opts \<Rightarrow> launch_state \<Rightarrow> (launch_state \<times> (launch_error + launched)) option" where
  "CliRun le c o' st =
     map_option (\<lambda>(st, r). case r of Inl e \<Rightarrow> (st, Inl e) | Inr ld \<Rightarrow> (dismiss le ld st, Inr ld)) (launch le c o' st)"

subsection \<open>Below the scratch root\<close>

text \<open>What is under the name \<open>l\<close> in the real directory \<open>h\<close> of the root.\<close>

definition launch_at :: "dir \<Rightarrow> string \<Rightarrow> string \<Rightarrow> node option" where
  "launch_at es h l = (case map_of es h of Some (NDir d) \<Rightarrow> map_of d l | _ \<Rightarrow> None)"

definition entries :: "dir option \<Rightarrow> dir" where
  "entries t = (case t of None \<Rightarrow> [] | Some es \<Rightarrow> es)"

text \<open>Everything but the launch \<open>l\<close> of \<open>h\<close> is the same; an empty directory of a digest counts as absent.\<close>

definition others_same :: "string \<Rightarrow> string \<Rightarrow> dir \<Rightarrow> dir \<Rightarrow> bool" where
  "others_same h l es es' \<longleftrightarrow>
     (\<forall>n. n \<noteq> h \<longrightarrow> map_of es' n = map_of es n) \<and> (\<forall>n. n \<noteq> l \<longrightarrow> launch_at es' h n = launch_at es h n)"

lemma others_same_refl [simp]: "others_same h l es es"
  by (simp add: others_same_def)

lemma others_same_trans: "others_same h l a b \<Longrightarrow> others_same h l b c \<Longrightarrow> others_same h l a c"
  by (simp add: others_same_def)

lemma real_launch_at: "real_launch h l es \<longleftrightarrow> (\<exists>sub. launch_at es h l = Some (NDir sub))"
  by (auto simp: real_launch_def launch_at_def split: option.splits node.splits)

text \<open>A change below the launch.\<close>

lemma update_launch:
  assumes "map_of es h = Some (NDir d)"
  shows "others_same h l es (AList.update h (NDir (AList.update l (NDir sub) d)) es)"
    and "launch_at (AList.update h (NDir (AList.update l (NDir sub) d)) es) h l = Some (NDir sub)"
  using assms by (auto simp: others_same_def launch_at_def update_conv')

lemma mk_dirs_launch:
  assumes "mk_dirs (h # l # cs) es = Some es'" and "launch_at es h l = Some (NDir sub)"
  shows "others_same h l es es' \<and> (\<exists>sub'. mk_dirs cs sub = Some sub' \<and> launch_at es' h l = Some (NDir sub'))"
proof -
  obtain d where d: "map_of es h = Some (NDir d)" "map_of d l = Some (NDir sub)"
    using assms(2) by (auto simp: launch_at_def split: option.splits node.splits)
  then obtain sub' where "mk_dirs cs sub = Some sub'" "es' = AList.update h (NDir (AList.update l (NDir sub') d)) es"
    using assms(1) by auto
  then show ?thesis using update_launch [OF d(1)] by auto
qed

lemma change_dir_launch:
  assumes "launch_at es h l = Some (NDir sub)"
  shows "others_same h l es (change_dir (h # l # cs) f es)
    \<and> launch_at (change_dir (h # l # cs) f es) h l = Some (NDir (change_dir cs f sub))"
proof -
  obtain d where d: "map_of es h = Some (NDir d)" "map_of d l = Some (NDir sub)"
    using assms by (auto simp: launch_at_def split: option.splits node.splits)
  then show ?thesis using update_launch [OF d(1)] by simp
qed

lemma mk_dirs_fresh:
  assumes "mk_dirs [h, l] es = Some es'" and "launch_at es h l = None"
  shows "others_same h l es es' \<and> launch_at es' h l = Some (NDir [])"
proof (cases "map_of es h")
  case None
  then have "es' = AList.update h (NDir (AList.update l (NDir []) [])) es" using assms(1) by auto
  then show ?thesis using None by (auto simp: others_same_def launch_at_def update_conv')
next
  case (Some n)
  then obtain d where d: "map_of es h = Some (NDir d)" "map_of d l = None"
    using assms by (cases n) (auto simp: launch_at_def)
  then have "es' = AList.update h (NDir (AList.update l (NDir []) d)) es" using assms(1) by auto
  then show ?thesis using update_launch [OF d(1)] by auto
qed

subsection \<open>Paths of a launch\<close>

text \<open>The digest and the name of the launch.\<close>

definition launch_path :: "launch_env \<Rightarrow> string \<Rightarrow> bool" where
  "launch_path le h \<longleftrightarrow> leRoot le \<noteq> [] \<and> isHex64 h \<and> clean_comp (leLaunch le) \<and> leLaunch le \<noteq> ''..''"

lemma hex_comp: "isHex64 h \<Longrightarrow> clean_comp h \<and> h \<noteq> ''..'' \<and> h \<noteq> []"
  by (auto simp: isHex64_def clean_comp_def list_all_iff)

lemma launch_dir:
  assumes "launch_path le h" and "d = Join [leRoot le, h, leLaunch le]"
  shows "path_comps d = path_comps (leRoot le) @ [h, leLaunch le]" "HasPrefix d ''/'' = HasPrefix (leRoot le) ''/''" "d \<noteq> []"
proof -
  have ne: "leRoot le \<noteq> []" "h \<noteq> []" "leLaunch le \<noteq> []" using assms(1) hex_comp by (auto simp: launch_path_def clean_comp_def)
  then have d: "d = Clean (leRoot le @ ''/'' @ (h @ ''/'' @ leLaunch le))"
    using assms(2) by (simp add: Join_def Let_def)
  have "CHR ''/'' \<notin> set h" "CHR ''/'' \<notin> set (leLaunch le)"
    using assms(1) hex_comp [of h] by (auto simp: launch_path_def clean_comp_def)
  then have s: "split_on (CHR ''/'') (h @ ''/'' @ leLaunch le) = [h, leLaunch le]"
    using split_on_append [of "CHR ''/''" h "leLaunch le"] by (simp add: split_on_no_sep)
  have i: "inner_name (h @ ''/'' @ leLaunch le)"
    unfolding inner_name_def s using assms(1) hex_comp [of h] by (auto simp: launch_path_def)
  show c: "path_comps d = path_comps (leRoot le) @ [h, leLaunch le]"
    unfolding d path_comps_Clean path_comps_below [OF ne(1) i] s ..
  show "HasPrefix d ''/'' = HasPrefix (leRoot le) ''/''"
    unfolding d Clean_rooted using ne(1) by (cases "leRoot le") (simp_all add: HasPrefix_def)
  have "path_comps [] = []" by code_simp
  then show "d \<noteq> []" using c by auto
qed

lemma drop_common_extend: "drop_common b (b @ t) = ([], t)"
  by (induction b) auto

lemma split_path_launch:
  assumes "launch_path le h" and "d = Join [leRoot le, h, leLaunch le]"
  shows "split_path (leRoot le) d = Inr (h, leLaunch le)"
proof -
  note d = launch_dir [OF assms]
  have "Clean d \<noteq> Clean (leRoot le)"
  proof
    assume "Clean d = Clean (leRoot le)"
    then have "path_comps d = path_comps (leRoot le)" by (metis path_comps_Clean)
    then show False unfolding d(1) by simp
  qed
  then have rel: "Rel (leRoot le) d = Some (h @ ''/'' @ leLaunch le)"
    by (simp add: Rel_def Clean_rooted d(1,2) drop_common_extend)
  have h: "isHex64 h" "CHR ''/'' \<notin> set h" "CHR ''/'' \<notin> set (leLaunch le)" "leLaunch le \<noteq> []"
    using assms(1) hex_comp [of h] by (auto simp: launch_path_def clean_comp_def)
  then have s: "split_on (CHR ''/'') (h @ ''/'' @ leLaunch le) = [h, leLaunch le]"
    using split_on_append [of "CHR ''/''" h "leLaunch le"] by (simp add: split_on_no_sep)
  obtain x h' where x: "h = x # h'" "is_lhex x" using h(1) by (cases h) (auto simp: isHex64_def)
  then have "x \<noteq> CHR ''.''" "x \<noteq> CHR ''/''" by auto
  then have "h @ r \<noteq> ''.''" "h @ r \<noteq> ''..''" "\<not> HasPrefix (h @ r) ''../''" "\<not> HasPrefix (h @ r) ''/''" for r
    unfolding x(1) HasPrefix_def by simp_all
  then show ?thesis using h(1,4) d(3) by (simp only: split_path_def rel s option.case list.case if_False if_True simp_thms)
qed

lemma below_launch:
  assumes "launch_path le h" and "d = Join [leRoot le, h, leLaunch le]"
  shows "below (leRoot le) d = Some [h, leLaunch le]"
  by (simp add: below_def launch_dir [OF assms])

lemma below_part:
  assumes "launch_path le h" and "d = Join [leRoot le, h, leLaunch le]" and "inner_name n"
  shows "below (leRoot le) (Join [d, n]) = Some (h # leLaunch le # split_on (CHR ''/'') n)"
proof -
  note d = launch_dir [OF assms(1,2)]
  have "\<not> inner_name []" by (simp add: inner_name_def clean_comp_def)
  then have "n \<noteq> []" using assms(3) by metis
  then have "Join [d, n] = Clean (d @ ''/'' @ n)" using d(3) by (simp add: Join_def Let_def)
  then have "path_comps (Join [d, n]) = path_comps (leRoot le) @ h # leLaunch le # split_on (CHR ''/'') n"
    using path_comps_below [OF d(3) assms(3)] d(1) by simp
  then show ?thesis by (simp add: below_def)
qed

subsection \<open>Files in a tree\<close>

definition is_leaf :: "node \<Rightarrow> bool" where
  "is_leaf n = (case n of NDir _ \<Rightarrow> False | _ \<Rightarrow> True)"

lemma is_leaf_simps [simp]: "is_leaf (NFile x)" "is_leaf (NLink x)" "\<not> is_leaf (NDir d)"
  by (simp_all add: is_leaf_def)

lemma node_at_Cons_leaf:
  assumes "is_leaf n"
  shows "node_at es (c # p) = Some n
    \<longleftrightarrow> (p = [] \<and> map_of es c = Some n) \<or> (p \<noteq> [] \<and> (\<exists>d. map_of es c = Some (NDir d) \<and> node_at d p = Some n))"
  by (cases "p = []") (auto simp: node_at_single node_at_Cons split: option.splits node.splits)

lemma node_at_Nil_leaf: "is_leaf n \<Longrightarrow> node_at es [] \<noteq> Some n"
  by (auto simp: node_at_def)

lemma mk_dirs_keeps:
  "mk_dirs cs es = Some es' \<Longrightarrow> is_leaf n \<Longrightarrow> node_at es p = Some n \<Longrightarrow> node_at es' p = Some n"
proof (induction cs arbitrary: es es' p)
  case (Cons c cs)
  obtain x q where p: "p = x # q" using Cons.prems node_at_Nil_leaf by (cases p) auto
  show ?case
  proof (cases "x = c")
    case False
    have "map_of es' x = map_of es x"
      using Cons.prems(1) False by (auto simp: update_conv' split: option.splits node.splits)
    then show ?thesis using Cons.prems(2,3) by (simp add: p node_at_Cons_leaf)
  next
    case True
    show ?thesis
    proof (cases "q = []")
      case True
      then have "map_of es c = Some n" using Cons.prems(2,3) \<open>x = c\<close> by (simp add: p node_at_single)
      then show ?thesis using Cons.prems(1,2) by (cases n) auto
    next
      case False
      then obtain d where d: "map_of es c = Some (NDir d)" "node_at d q = Some n"
        using Cons.prems(2,3) \<open>x = c\<close> by (auto simp: p node_at_Cons_leaf)
      then obtain d' where d': "mk_dirs cs d = Some d'" "es' = AList.update c (NDir d') es" using Cons.prems(1) by auto
      then show ?thesis using Cons.IH [OF d'(1) Cons.prems(2) d(2)] False \<open>x = c\<close> Cons.prems(2)
        by (simp add: p node_at_Cons_leaf update_conv')
    qed
  qed
qed simp

lemma change_dir_keeps:
  "is_leaf n \<Longrightarrow> node_at es p = Some n \<Longrightarrow> (\<And>q. p \<noteq> (bs @ [c]) @ q) \<Longrightarrow> (\<And>d x. x \<noteq> c \<Longrightarrow> map_of (f d) x = map_of d x)
    \<Longrightarrow> node_at (change_dir bs f es) p = Some n"
proof (induction bs arbitrary: es p)
  case Nil
  obtain x q where p: "p = x # q" using Nil.prems node_at_Nil_leaf by (cases p) auto
  then have "x \<noteq> c" using Nil.prems(3) [of q] by auto
  then show ?case using Nil.prems(1,2,4) by (simp add: p node_at_Cons_leaf)
next
  case (Cons b bs)
  obtain x q where p: "p = x # q" using Cons.prems node_at_Nil_leaf by (cases p) auto
  show ?case
  proof (cases "\<exists>d. map_of es b = Some (NDir d)")
    case False
    then have "change_dir (b # bs) f es = es" by (auto split: option.splits node.splits)
    then show ?thesis using Cons.prems(2) by simp
  next
    case True
    then obtain d where d: "map_of es b = Some (NDir d)" ..
    show ?thesis
    proof (cases "x = b")
      case False
      then show ?thesis using Cons.prems(1,2) d by (simp add: p node_at_Cons_leaf update_conv')
    next
      case True
      then have q: "q \<noteq> []" "node_at d q = Some n" using Cons.prems(1,2) d by (auto simp: p node_at_Cons_leaf)
      have "node_at (change_dir bs f d) q = Some n"
        using Cons.prems(3) True p by (intro Cons.IH Cons.prems(1,4) q(2)) auto
      then show ?thesis using q(1) True d Cons.prems(1) by (simp add: p node_at_Cons_leaf update_conv')
    qed
  qed
qed

lemma mk_dirs_dir: "mk_dirs cs es = Some es' \<Longrightarrow> \<exists>d. dir_at es' cs = Some d"
  by (induction cs arbitrary: es es') (auto simp: update_conv' split: option.splits node.splits)

lemma node_at_append:
  "node_at es (cs @ q) = Some n \<Longrightarrow> q \<noteq> [] \<Longrightarrow> cs \<noteq> [] \<Longrightarrow> \<exists>x xs. node_at es cs = Some (NDir (x # xs))"
proof (induction cs arbitrary: es)
  case (Cons c cs)
  then obtain d where d: "map_of es c = Some (NDir d)" "node_at d (cs @ q) = Some n"
    by (auto simp: node_at_Cons split: option.splits node.splits)
  show ?case
  proof (cases "cs = []")
    case True
    then have "d \<noteq> []" using d(2) Cons.prems(2) by (cases q; cases "tl q") (auto simp: node_at_def)
    then show ?thesis using d(1) True by (cases d) (simp_all add: node_at_single)
  next
    case False
    then show ?thesis using Cons.IH [OF d(2) Cons.prems(2)] d(1) by (simp add: node_at_Cons)
  qed
qed simp

subsection \<open>The parts are in place\<close>

text \<open>Under its own name in the launch the part is its source: a hard or a symbolic link to it.\<close>

definition part_linked :: "launch_env \<Rightarrow> string \<Rightarrow> dir \<Rightarrow> fileRecord \<Rightarrow> bool" where
  "part_linked le h es f \<longleftrightarrow>
     node_at es (h # leLaunch le # split_on (CHR ''/'') (fxName f))
       \<in> {Some (NFile (leBytes le (fxPath f))), Some (NLink (fxPath f))}"

lemma set_entry_keeps:
  assumes "is_leaf n" and "node_at es p = Some n" and "cs \<noteq> []" and "\<And>q. p \<noteq> cs @ q"
  shows "node_at (set_entry bytes cs e es) p = Some n"
proof -
  have "p \<noteq> (butlast cs @ [last cs]) @ q" for q using assms(3,4) by simp
  then show ?thesis unfolding set_entry_def
    by (intro change_dir_keeps [OF assms(1,2)])
      (auto simp: update_conv' delete_conv' split: link_entry.splits)
qed

lemma set_entry_sets:
  assumes "dir_at es (butlast cs) = Some d" and "cs \<noteq> []" and "e = HardLink s \<or> e = SymLink s"
  shows "node_at (set_entry bytes cs e es) cs \<in> {Some (NFile (bytes s)), Some (NLink s)}"
  using assms by (auto simp: node_at_def set_entry_def dir_at_change update_conv')

lemma set_entry_launch:
  assumes "launch_at es h l = Some (NDir sub)" and "names \<noteq> []"
  shows "others_same h l es (set_entry bytes (h # l # names) e es)
    \<and> (\<exists>sub'. launch_at (set_entry bytes (h # l # names) e es) h l = Some (NDir sub'))"
proof -
  have "butlast (h # l # names) = h # l # butlast names" using assms(2) by simp
  then show ?thesis using change_dir_launch [OF assms(1)] by (simp only: set_entry_def) blast
qed

lemma place_part_effect:
  assumes "launch_path le h" and "d = Join [leRoot le, h, leLaunch le]" and "inner_name (fxName f)"
    and "real_launch h (leLaunch le) es" and "place_part le d f es = (es', err)"
  shows "others_same h (leLaunch le) es es' \<and> real_launch h (leLaunch le) es'
    \<and> (err = None \<longrightarrow> part_linked le h es' f
         \<and> (\<forall>g. fxName g \<noteq> fxName f \<longrightarrow> part_linked le h es g \<longrightarrow> part_linked le h es' g))"
proof -
  let ?l = "leLaunch le" and ?names = "split_on (CHR ''/'') (fxName f)"
  let ?cs = "h # ?l # ?names" and ?ln = "leLinks le (fxName f)"
  have ne: "?names \<noteq> []" "butlast ?cs = h # ?l # butlast ?names" by simp_all
  obtain sub where sub: "launch_at es h ?l = Some (NDir sub)" using assms(4) by (auto simp: real_launch_at)
  note b = below_part [OF assms(1-3)]
  show ?thesis
  proof (cases "leMkdir le (fxName f)")
    case False
    then show ?thesis using assms(4,5) by (auto simp: place_part_def Let_def)
  next
    case mk: True
    show ?thesis
    proof (cases "mk_dirs (butlast ?cs) es")
      case None
      then show ?thesis using assms(4,5) mk b by (auto simp: place_part_def Let_def)
    next
      case (Some es1)
      then have m: "mk_dirs (h # ?l # butlast ?names) es = Some es1" by (simp add: ne(2))
      obtain e ok where e: "linkPart (links_at ?ln (node_at es1 ?cs)) (fxPath f) (entry_of (node_at es1 ?cs)) = (e, ok)"
        by (metis surj_pair)
      have r: "es' = set_entry (leBytes le) ?cs e es1" "err = (if ok then None else Some (PartLinkFailed (fxName f)))"
        using assms(5) mk b Some e by (simp_all add: place_part_def Let_def)
      obtain sub1 where s1: "others_same h ?l es es1" "launch_at es1 h ?l = Some (NDir sub1)"
        using mk_dirs_launch [OF m sub] by blast
      have s2: "others_same h ?l es es' \<and> real_launch h ?l es'"
        using set_entry_launch [OF s1(2) ne(1)] s1(1) others_same_trans by (auto simp: r(1) real_launch_at)
      have "part_linked le h es' f \<and> (\<forall>g. fxName g \<noteq> fxName f \<longrightarrow> part_linked le h es g \<longrightarrow> part_linked le h es' g)"
        if "err = None"
      proof -
        have ok: "ok" using r(2) that by (simp split: if_splits)
        have blocked: "node_at es1 ?cs \<noteq> Some (NDir (x # xs))" for x xs
          using e ok by (auto simp: links_at_def entry_of_def linkPart_def try_link_def Let_def split: if_splits)
        obtain dd where "dir_at es1 (butlast ?cs) = Some dd" using mk_dirs_dir [OF Some] by blast
        moreover have "e = HardLink (fxPath f) \<or> e = SymLink (fxPath f)" using linkPart_identity e ok by simp
        ultimately have "part_linked le h es' f"
          unfolding part_linked_def r(1) by (intro set_entry_sets) simp_all
        moreover have "part_linked le h es' g" if g: "fxName g \<noteq> fxName f" "part_linked le h es g" for g
        proof -
          let ?p = "h # ?l # split_on (CHR ''/'') (fxName g)"
          obtain n where "node_at es ?p = Some n" and src: "n = NFile (leBytes le (fxPath g)) \<or> n = NLink (fxPath g)"
            using g(2) unfolding part_linked_def by blast
          moreover have "is_leaf n" using src by auto
          ultimately have n: "is_leaf n" "node_at es ?p = Some n" by simp_all
          have at1: "node_at es1 ?p = Some n" by (rule mk_dirs_keeps [OF Some n(1,2)])
          have "split_on (CHR ''/'') (fxName g) \<noteq> ?names" using g(1) by (metis join_split)
          then have "?p \<noteq> ?cs @ q" for q
            using node_at_append [of es1 ?cs q n] at1 blocked by (cases "q = []") auto
          then have "node_at es' ?p = Some n" unfolding r(1) by (intro set_entry_keeps n(1) at1) simp_all
          then show ?thesis using src by (auto simp: part_linked_def)
        qed
        ultimately show ?thesis by blast
      qed
      then show ?thesis using s2 by blast
    qed
  qed
qed

lemma link_parts_effect:
  assumes "launch_path le h" and "d = Join [leRoot le, h, leLaunch le]" and "\<forall>f \<in> set fs. inner_name (fxName f)"
    and "real_launch h (leLaunch le) es" and "link_parts le d fs es = (es', err)" and "distinct (map fxName fs)"
  shows "others_same h (leLaunch le) es es' \<and> real_launch h (leLaunch le) es'
    \<and> (err = None \<longrightarrow> (\<forall>f \<in> set fs. part_linked le h es' f)
         \<and> (\<forall>g. fxName g \<notin> fxName ` set fs \<longrightarrow> part_linked le h es g \<longrightarrow> part_linked le h es' g))"
  using assms(3-6)
proof (induction fs arbitrary: es)
  case (Cons f fs)
  obtain es1 x where one: "place_part le d f es = (es1, x)" by (metis surj_pair)
  have p: "others_same h (leLaunch le) es es1 \<and> real_launch h (leLaunch le) es1
    \<and> (x = None \<longrightarrow> part_linked le h es1 f
         \<and> (\<forall>g. fxName g \<noteq> fxName f \<longrightarrow> part_linked le h es g \<longrightarrow> part_linked le h es1 g))"
    by (rule place_part_effect [OF assms(1,2) _ Cons.prems(2) one]) (use Cons.prems(1) in simp)
  show ?case
  proof (cases x)
    case (Some y)
    then show ?thesis using p one Cons.prems(3) by auto
  next
    case None
    then have rest: "link_parts le d fs es1 = (es', err)" using one Cons.prems(3) by simp
    have "others_same h (leLaunch le) es1 es' \<and> real_launch h (leLaunch le) es'
      \<and> (err = None \<longrightarrow> (\<forall>f \<in> set fs. part_linked le h es' f)
           \<and> (\<forall>g. fxName g \<notin> fxName ` set fs \<longrightarrow> part_linked le h es1 g \<longrightarrow> part_linked le h es' g))"
      by (rule Cons.IH [OF _ _ rest]) (use Cons.prems p in simp_all)
    then show ?thesis using p None Cons.prems(4) others_same_trans by fastforce
  qed
qed simp

subsection \<open>All or nothing\<close>

lemma removal_effect:
  assumes "launch_path le h" and "d = Join [leRoot le, h, leLaunch le]" and "real_launch h (leLaunch le) es"
  shows "\<exists>es' e. removeSplitDir (leBad le) (leRoot le) d (Some es) = (Some es', e)
    \<and> others_same h (leLaunch le) es es'
    \<and> ((\<forall>x p. \<not> leBad le x p) \<longrightarrow> e = None \<and> launch_at es' h (leLaunch le) = None)"
proof -
  obtain r e where re: "removeSplitDir (leBad le) (leRoot le) d (Some es) = (r, e)" by (metis surj_pair)
  obtain es' where es': "r = Some es'" "only_launch_changed h (leLaunch le) es es' e" "(\<forall>x p. \<not> leBad le x p) \<longrightarrow> e = None"
    using removeSplitDir_dirs [OF re split_path_launch [OF assms(1,2)]] assms(3) by blast
  obtain hexdir where hex: "map_of es h = Some (NDir hexdir)" using assms(3) by (auto simp: real_launch_def)
  have "others_same h (leLaunch le) es es' \<and> (e = None \<longrightarrow> launch_at es' h (leLaunch le) = None)"
    using es'(2) hex
    by (auto simp: only_launch_changed_def others_same_def launch_at_def split: option.splits node.splits)
  then show ?thesis using re es'(1,3) by blast
qed

lemma splitScratchDir_effect:
  assumes "launch_path le h" and "TrimPrefix digest ''sha256:'' = h" and "launch_at (entries scratch) h (leLaunch le) = None"
    and "splitScratchDir le digest scratch = Inr (d, es)"
  shows "d = Join [leRoot le, h, leLaunch le] \<and> others_same h (leLaunch le) (entries scratch) es
    \<and> real_launch h (leLaunch le) es"
proof -
  have d: "d = Join [leRoot le, h, leLaunch le]" and "mk_dirs [h, leLaunch le] (entries scratch) = Some es"
    using assms(2,4) below_launch [OF assms(1) refl]
    by (auto simp: splitScratchDir_def Let_def entries_def split: if_splits option.splits)
  from mk_dirs_fresh [OF this(2) assms(3)] d show ?thesis by (auto simp: real_launch_at)
qed

text \<open>A plan the launch can work with: the digest is one, and the parts have names of their own that stay inside.\<close>

definition plan_ok :: "launch_env \<Rightarrow> string \<Rightarrow> run_plan \<Rightarrow> bool" where
  "plan_ok le h pn \<longleftrightarrow> TrimPrefix (pnManifest pn) ''sha256:'' = h
     \<and> distinct (map fxName (pnParts pn)) \<and> (\<forall>f \<in> set (pnParts pn). inner_name (fxName f))"

text \<open>The scratch tree while the launch owns it, and after.\<close>

definition staged :: "launch_env \<Rightarrow> string \<Rightarrow> run_plan \<Rightarrow> dir option \<Rightarrow> dir option \<Rightarrow> string \<Rightarrow> bool" where
  "staged le h pn t t' d \<longleftrightarrow>
     (if d = [] then t' = t
      else d = Join [leRoot le, h, leLaunch le]
        \<and> (\<exists>es. t' = Some es \<and> others_same h (leLaunch le) (entries t) es \<and> real_launch h (leLaunch le) es))"

text \<open>Nothing of other launches has changed, and the directory of this one is gone, or a call to remove it failed.\<close>

definition tidy :: "launch_env \<Rightarrow> string \<Rightarrow> dir option \<Rightarrow> dir option \<Rightarrow> bool" where
  "tidy le h t t' \<longleftrightarrow>
     others_same h (leLaunch le) (entries t) (entries t')
     \<and> (launch_at (entries t') h (leLaunch le) = None \<or> (\<exists>x p. leBad le x p))"

lemma stage_effect:
  assumes "launch_path le h" and "plan_ok le h pn" and "launch_at (entries t) h (leLaunch le) = None"
    and "stage le pn t = (t', d, w, e)"
  shows "staged le h pn t t' d
    \<and> (e = None \<longrightarrow>
         (if length (pnParts pn) \<le> 1 then d = [] \<and> w = fxPath (pnWeights pn)
          else d \<noteq> [] \<and> w = Join [d, fxName (hd (pnParts pn))] \<and> (\<forall>f \<in> set (pnParts pn). part_linked le h (entries t') f)))"
proof (cases "length (pnParts pn) \<le> 1")
  case True
  then show ?thesis using assms(4) by (auto simp: stage_def staged_def)
next
  case many: False
  have h: "TrimPrefix (pnManifest pn) ''sha256:'' = h" using assms(2) by (simp add: plan_ok_def)
  show ?thesis
  proof (cases "splitScratchDir le (pnManifest pn) t")
    case (Inl x)
    then show ?thesis using assms(4) many by (auto simp: stage_def staged_def)
  next
    case (Inr y)
    then obtain d0 es where s: "splitScratchDir le (pnManifest pn) t = Inr (d0, es)" by (cases y) auto
    obtain es' e0 where l: "link_parts le d0 (pnParts pn) es = (es', e0)" by (metis surj_pair)
    have eq: "t' = Some es'" "d = d0" "w = Join [d0, fxName (hd (pnParts pn))]" "e = e0"
      using assms(4) many s l by (auto simp: stage_def)
    have d: "d0 = Join [leRoot le, h, leLaunch le]" "others_same h (leLaunch le) (entries t) es" "real_launch h (leLaunch le) es"
      using splitScratchDir_effect [OF assms(1) h assms(3) s] by simp_all
    have ok: "\<forall>f \<in> set (pnParts pn). inner_name (fxName f)" "distinct (map fxName (pnParts pn))"
      using assms(2) by (simp_all add: plan_ok_def)
    note lp = link_parts_effect [OF assms(1) d(1) ok(1) d(3) l ok(2)]
    have "d0 \<noteq> []" by (rule launch_dir(3) [OF assms(1) d(1)])
    then show ?thesis using lp d others_same_trans many unfolding eq staged_def by (auto simp: entries_def)
  qed
qed

lemma dismissed_tidy:
  assumes "launch_path le h" and "launch_at (entries t) h (leLaunch le) = None" and "staged le h pn t t' d"
  shows "d \<noteq> [] \<Longrightarrow> tidy le h t (fst (removeSplitDir (leBad le) (leRoot le) d t'))"
    and "d = [] \<Longrightarrow> tidy le h t t'"
proof -
  assume "d \<noteq> []"
  then obtain es where es: "t' = Some es" "d = Join [leRoot le, h, leLaunch le]" "others_same h (leLaunch le) (entries t) es"
    "real_launch h (leLaunch le) es" using assms(3) by (auto simp: staged_def)
  obtain es' e where "removeSplitDir (leBad le) (leRoot le) d (Some es) = (Some es', e)" "others_same h (leLaunch le) es es'"
    "(\<forall>x p. \<not> leBad le x p) \<longrightarrow> launch_at es' h (leLaunch le) = None"
    using removal_effect [OF assms(1) es(2,4)] by blast
  then show "tidy le h t (fst (removeSplitDir (leBad le) (leRoot le) d t'))"
    using es(1,3) others_same_trans by (auto simp: tidy_def entries_def)
next
  assume "d = []"
  then show "tidy le h t t'" using assms(2,3) by (auto simp: staged_def tidy_def)
qed

lemma cleanup_tidy:
  assumes "launch_path le h" and "launch_at (entries t) h (leLaunch le) = None"
    and "staged le h pn t t' d" and "cleanup le d e t' = (t'', e')"
  shows "tidy le h t t''"
proof (cases "d = []")
  case False
  then have "t'' = fst (removeSplitDir (leBad le) (leRoot le) d t')"
    using assms(4) by (auto simp: cleanup_def split: prod.splits option.splits)
  then show ?thesis using dismissed_tidy(1) [OF assms(1-3) False] by simp
qed (use dismissed_tidy(2) [OF assms(1-3)] assms(4) in \<open>simp add: cleanup_def\<close>)

lemma dismiss_tidy:
  assumes "launch_path le h" and "launch_at (entries t) h (leLaunch le) = None"
    and "staged le h pn t (lcScratch st) (ldSplitDir ld)"
  shows "tidy le h t (lcScratch (dismiss le ld st)) \<and> lcReg (dismiss le ld st) = lcReg st
    \<and> lcProcs (dismiss le ld st) = (if ends le (ldPID ld) then remove1 (ldPID ld) (lcProcs st) else lcProcs st)"
  using dismissed_tidy [OF assms] by (simp add: dismiss_def)

text \<open>The processes after a launch that failed: as before, or one more that was started and refused to end.\<close>

definition none_left :: "launch_env \<Rightarrow> int list \<Rightarrow> int list \<Rightarrow> bool" where
  "none_left le ps ps' \<longleftrightarrow>
     ps' = ps \<or> (\<exists>req port pid. leSpawn le req = Some (port, pid) \<and> \<not> ends le pid \<and> ps' = pid # ps)"

text \<open>
  What was started: the runtime on the planned settings, under the reference as its model name; on the weights where they
  lie, or on the first part in the scratch directory, in which then every part is found under its name.
\<close>

definition started :: "launch_env \<Rightarrow> string \<Rightarrow> string \<Rightarrow> run_plan \<Rightarrow> dir option \<Rightarrow> launched \<Rightarrow> bool" where
  "started le h want pn t' ld \<longleftrightarrow>
     leSpawn le (ldRequest ld) = Some (ldPort ld, ldPID ld) \<and> ldRef ld = pnCanonical pn \<and> ldID ld = idFor want (pnRef pn)
   \<and> sqRef (ldRequest ld) = pnCanonical pn \<and> sqArgv (ldRequest ld) = Argv (pnMerged pn)
   \<and> sqMmproj (ldRequest ld) = pnMmproj pn
   \<and> (if length (pnParts pn) \<le> 1 then ldSplitDir ld = [] \<and> sqWeights (ldRequest ld) = fxPath (pnWeights pn)
      else ldSplitDir ld = Join [leRoot le, h, leLaunch le]
        \<and> sqWeights (ldRequest ld) = Join [ldSplitDir ld, fxName (hd (pnParts pn))]
        \<and> (\<forall>f \<in> set (pnParts pn). part_linked le h (entries t') f))"

lemma start_plan_effect:
  assumes "launch_path le h" and "plan_ok le h pn" and "launch_at (entries (lcScratch st)) h (leLaunch le) = None"
    and "start_plan le want detached pn st = (st', r)"
  shows "lcReg st' = lcReg st
    \<and> (case r of
         Inl e \<Rightarrow> tidy le h (lcScratch st) (lcScratch st') \<and> lcProcs st' = lcProcs st
       | Inr ld \<Rightarrow> lcProcs st' = ldPID ld # lcProcs st \<and> staged le h pn (lcScratch st) (lcScratch st') (ldSplitDir ld)
           \<and> started le h want pn (lcScratch st') ld)"
proof -
  obtain t d w x where s: "stage le pn (lcScratch st) = (t, d, w, x)" by (metis surj_pair)
  note e = stage_effect [OF assms(1-3) s]
  have c: "tidy le h (lcScratch st) t''" if "cleanup le d y t = (t'', e')" for y t'' e'
    by (rule cleanup_tidy [OF assms(1,3) conjunct1 [OF e] that])
  show ?thesis
  proof (cases x)
    case (Some y)
    obtain t'' e' where cl: "cleanup le d y t = (t'', e')" by (metis surj_pair)
    then show ?thesis using assms(4) s Some c [OF cl] by (auto simp: start_plan_def)
  next
    case None
    show ?thesis
    proof (cases "spawn_plan le detached w pn")
      case (Inl y)
      obtain t'' e' where cl: "cleanup le d y t = (t'', e')" by (metis surj_pair)
      then show ?thesis using assms(4) s None Inl c [OF cl] by (auto simp: start_plan_def)
    next
      case (Inr y)
      obtain req port pid where y: "y = (req, port, pid)" by (metis surj_pair)
      have req: "leSpawn le req = Some (port, pid)" "sqRef req = pnCanonical pn" "sqArgv req = Argv (pnMerged pn)"
        "sqMmproj req = pnMmproj pn" "sqWeights req = w"
        using Inr by (auto simp: spawn_plan_def y Let_def split: sum.splits if_splits option.splits)
      have "d \<noteq> [] \<Longrightarrow> d = Join [leRoot le, h, leLaunch le]" using e by (simp add: staged_def)
      then show ?thesis using assms(4) s None Inr y e req by (auto simp: start_plan_def started_def)
    qed
  qed
qed

text \<open>
  C38: \<open>serve\<close> either starts and registers the model, or takes back what it did as far as the system lets it. Whatever fails, the daemon,
  a setting, a link, the start, the readiness, the registry, a removal: after an error the registry is untouched and the scratch directories of
  all other launches are as they were; no process of the launch runs, unless the system refused the signals that end it,
  an error the code drops; and the scratch directory of the launch is gone, unless a call to remove it failed. A success has added exactly one process and
  one instance, that process with its start token, running on the planned settings under the reference; a model of
  several parts is found complete in the scratch directory, each part being the very file of the store.
\<close>

theorem serve_all_or_nothing:
  assumes "launchDetached le c o' st = Some (st', r)" and "\<And>pn. plan le c o' = Some (Inr pn) \<Longrightarrow> plan_ok le h pn"
    and "launch_path le h" and "launch_at (entries (lcScratch st)) h (leLaunch le) = None"
  shows "case r of
      Inl e \<Rightarrow> lcReg st' = lcReg st \<and> none_left le (lcProcs st) (lcProcs st') \<and> tidy le h (lcScratch st) (lcScratch st')
    | Inr ld \<Rightarrow> lcProcs st' = ldPID ld # lcProcs st \<and> others_same h (leLaunch le) (entries (lcScratch st)) (entries (lcScratch st'))
        \<and> (\<exists>token. leToken le (ldPID ld) = Inr token
             \<and> AddInstance le (instance_of le ld token) (lcReg st) = Inr (lcReg st'))
        \<and> (\<exists>pn. plan le c o' = Some (Inr pn) \<and> started le h (roID o') pn (lcScratch st') ld)"
proof (cases "plan le c o'")
  case None
  then show ?thesis using assms(1) by (simp add: launchDetached_def prepare_def)
next
  case (Some p)
  show ?thesis
  proof (cases p)
    case (Inl e)
    then show ?thesis using assms(1,4) Some by (auto simp: launchDetached_def prepare_def tidy_def none_left_def)
  next
    case (Inr pn)
    have ok: "plan_ok le h pn" using assms(2) Some Inr by simp
    obtain s1 r1 where sp: "start_plan le (roID o') True pn st = (s1, r1)" by (metis surj_pair)
    note eff = start_plan_effect [OF assms(3) ok assms(4) sp]
    show ?thesis
    proof (cases r1)
      case (Inl e)
      then have "st' = s1 \<and> r = Inl e" using assms(1) Some \<open>p = Inr pn\<close> sp by (simp add: launchDetached_def prepare_def)
      then show ?thesis using eff Inl by (simp add: none_left_def)
    next
      case (Inr ld)
      then have reg: "register le ld s1 = (st', r)" using assms(1) Some \<open>p = Inr pn\<close> sp by (simp add: launchDetached_def prepare_def)
      have e: "lcProcs s1 = ldPID ld # lcProcs st" "staged le h pn (lcScratch st) (lcScratch s1) (ldSplitDir ld)"
        "started le h (roID o') pn (lcScratch s1) ld" "lcReg s1 = lcReg st" using eff Inr by simp_all
      note d = dismiss_tidy [OF assms(3,4) e(2)]
      have "leSpawn le (ldRequest ld) = Some (ldPort ld, ldPID ld)" using e(3) by (simp add: started_def)
      then have left: "none_left le (lcProcs st) (lcProcs (dismiss le ld s1))" using d e(1) by (auto simp: none_left_def)
      have same: "others_same h (leLaunch le) (entries (lcScratch st)) (entries (lcScratch s1))"
        using e(2) by (auto simp: staged_def entries_def split: if_splits)
      show ?thesis
        using reg d left same e Some \<open>p = Inr pn\<close> by (auto simp: register_def split: if_splits sum.splits)
    qed
  qed
qed

text \<open>A foreground launch takes back what it did in any case.\<close>

lemma run_leaves_nothing:
  assumes "CliRun le c o' st = Some (st', r)" and "\<And>pn. plan le c o' = Some (Inr pn) \<Longrightarrow> plan_ok le h pn"
    and "launch_path le h" and "launch_at (entries (lcScratch st)) h (leLaunch le) = None"
  shows "lcReg st' = lcReg st \<and> none_left le (lcProcs st) (lcProcs st') \<and> tidy le h (lcScratch st) (lcScratch st')"
proof (cases "\<exists>pn. plan le c o' = Some (Inr pn)")
  case False
  then show ?thesis using assms(1,4)
    by (auto simp: CliRun_def launch_def prepare_def tidy_def none_left_def split: option.splits sum.splits)
next
  case True
  then obtain pn where pn: "plan le c o' = Some (Inr pn)" by blast
  obtain s1 r1 where sp: "start_plan le (roID o') False pn st = (s1, r1)" by (metis surj_pair)
  note eff = start_plan_effect [OF assms(3) assms(2) [OF pn] assms(4) sp]
  show ?thesis
  proof (cases r1)
    case (Inl e)
    then show ?thesis using eff assms(1) pn sp by (auto simp: CliRun_def launch_def prepare_def none_left_def)
  next
    case (Inr ld)
    then have e: "lcProcs s1 = ldPID ld # lcProcs st" "staged le h pn (lcScratch st) (lcScratch s1) (ldSplitDir ld)"
      "lcReg s1 = lcReg st" "leSpawn le (ldRequest ld) = Some (ldPort ld, ldPID ld)" using eff by (simp_all add: started_def)
    have "st' = dismiss le ld s1" using assms(1) pn sp Inr by (auto simp: CliRun_def launch_def prepare_def split: if_splits)
    then show ?thesis using dismiss_tidy [OF assms(3,4) e(2)] e(1,3,4) by (auto simp: none_left_def)
  qed
qed

text \<open>A model in two parts, given in the wrong order, beside another launch; the flags are whether it gets ready and whether it ends when told to.\<close>

definition split_part :: "string \<Rightarrow> string \<Rightarrow> int \<Rightarrow> fileRecord" where
  "split_part name path n =
     \<lparr>fxDigest = [], fxPath = path, fxSize = 1, fxName = name, fxKind = ''weights.gguf'', fxRole = [], fxVariant = [],
      fxPart = Some n, fxRuntime = []\<rparr>"

definition split_env :: "bool \<Rightarrow> bool \<Rightarrow> launch_env" where
  "split_env ready mortal =
     \<lparr>leRead = (\<lambda>_. None),
      leOpen = (\<lambda>_. Some \<lparr>orManifestDigest = ''sha256:'' @ demo_hex,
        orFiles = [split_part ''d/w-2.gguf'' ''/cas/2'' 2, split_part ''d/w-1.gguf'' ''/cas/1'' 1], orMissing = []\<rparr>),
      leBody = (\<lambda>_. True), leConv = id, leScalars = (\<lambda>_. None), leRoot = ''/run/shardr-split'', leLaunch = ''9-9'',
      leScratch = True, leMkdir = (\<lambda>_. True),
      leLinks = (\<lambda>_. \<lparr>lnRemove = (\<lambda>_. True), lnRace = (\<lambda>_ e. e), lnFails = (\<lambda>_. False), lnOtherDevice = False, lnSymlink = True\<rparr>),
      leBytes = id, leBad = (\<lambda>_ _. False), leBinary = Inr ''llama-server'', leLog = True, leSpawn = (\<lambda>_. Some (8080, 42)),
      leReady = ready, leSignals = (\<lambda>_. (\<lambda>i. if mortal then if i = 0 then Accepted else Gone else SigFailed, 3)), leToken = (\<lambda>_. Inr ''t''), leNow = [], leRegistry = True, leEnc = (\<lambda>l. replicate (length l) CHR ''x''),
      leDec = (\<lambda>_. Some [])\<rparr>"

definition split_client :: client where
  "split_client =
     \<lparr>clPost = (\<lambda>_ _. Replied 200 []), clGet = (\<lambda>_ _. Replied 200 []), clEnvelope = (\<lambda>_. None),
      clJob = (\<lambda>_. Some \<lparr>cjID = [], cjRef = [], cjState = ''done'', cjError = None, cjKind = [], cjFilesDone = 2,
        cjFilesTotal = 2, cjResult = None, cjVerify = None\<rparr>),
      clCancelled = (\<lambda>_. False), clConfig = Inr []\<rparr>"

definition split_opts :: run_opts where
  "split_opts = \<lparr>roRef = ''a/b:q4_0'', roID = [], roConfig = [], roSets = [''ctx_size=8'']\<rparr>"

definition split_state :: launch_state where
  "split_state = \<lparr>lcScratch = Some demo_scratch, lcReg = FileMissing, lcProcs = []\<rparr>"

lemma split_planned:
  "case plan (split_env b True) split_client split_opts of
     Some (Inr pn) \<Rightarrow> pnManifest pn = ''sha256:'' @ demo_hex \<and> map fxName (pnParts pn) = [''d/w-1.gguf'', ''d/w-2.gguf'']
   | _ \<Rightarrow> False"
  by (cases b; simp only:; code_simp)

lemma split_served:
  "case launchDetached (split_env True True) split_client split_opts split_state of Some (st, Inr ld) \<Rightarrow> ldID ld = ''a-b-q4_0'' | _ \<Rightarrow> False"
  "case launchDetached (split_env False True) split_client split_opts split_state of Some (st, Inl e) \<Rightarrow> e = NotReady | _ \<Rightarrow> False"
  by code_simp+

lemma serve_all_or_nothing_witness:
  "\<exists>st ld. launchDetached (split_env True True) split_client split_opts split_state = Some (st, Inr ld)
      \<and> (\<exists>pn. started (split_env True True) demo_hex [] pn (lcScratch st) ld)
    \<and> (\<exists>st' e. launchDetached (split_env False True) split_client split_opts split_state = Some (st', Inl e)
         \<and> lcProcs st' = [] \<and> launch_at (entries (lcScratch st')) demo_hex ''9-9'' = None)"
proof -
  have e: "ends (split_env False True) pid" for pid
    by (simp add: ends_def Terminate_def TerminatePID_def terminateVerified_def split_env_def upt_rec)
  have c: "\<not> leBad (split_env False True) x p" "leLaunch (split_env False True) = ''9-9''" "lcProcs split_state = []" for x p
    by (simp_all add: split_env_def split_state_def)
  have names: "inner_name ''d/w-1.gguf''" "inner_name ''d/w-2.gguf''" by code_simp+
  have ok: "plan_ok (split_env b True) demo_hex pn" if "plan (split_env b True) split_client split_opts = Some (Inr pn)" for b pn
  proof -
    have n: "pnManifest pn = ''sha256:'' @ demo_hex" "map fxName (pnParts pn) = [''d/w-1.gguf'', ''d/w-2.gguf'']"
      using split_planned [of b] that by simp_all
    have "\<forall>f \<in> set (pnParts pn). fxName f = ''d/w-1.gguf'' \<or> fxName f = ''d/w-2.gguf''"
    proof
      fix f assume "f \<in> set (pnParts pn)"
      then have "fxName f \<in> set (map fxName (pnParts pn))" by simp
      then show "fxName f = ''d/w-1.gguf'' \<or> fxName f = ''d/w-2.gguf''" unfolding n(2) by simp
    qed
    moreover have "TrimPrefix (pnManifest pn) ''sha256:'' = demo_hex" unfolding n(1) by (simp add: TrimPrefix_def HasPrefix_def)
    ultimately show ?thesis unfolding plan_ok_def n(2) using names by auto
  qed
  have path: "launch_path (split_env b True) demo_hex" for b by (cases b; simp only:; code_simp)
  have fresh: "launch_at (entries (lcScratch split_state)) demo_hex (leLaunch (split_env b True)) = None" for b
    by (cases b; simp only:; code_simp)
  obtain st r where r: "launchDetached (split_env True True) split_client split_opts split_state = Some (st, r)"
    using split_served(1) by (auto split: option.splits)
  then obtain ld where yes: "launchDetached (split_env True True) split_client split_opts split_state = Some (st, Inr ld)"
    using split_served(1) by (cases r) auto
  obtain st' r' where r': "launchDetached (split_env False True) split_client split_opts split_state = Some (st', r')"
    using split_served(2) by (auto split: option.splits)
  then obtain e where no: "launchDetached (split_env False True) split_client split_opts split_state = Some (st', Inl e)"
    using split_served(2) by (cases r') auto
  have "\<exists>pn. started (split_env True True) demo_hex [] pn (lcScratch st) ld"
    using serve_all_or_nothing [OF yes ok path fresh] by (auto simp: split_opts_def)
  moreover have "lcProcs st' = [] \<and> launch_at (entries (lcScratch st')) demo_hex ''9-9'' = None"
    using serve_all_or_nothing [OF no ok path fresh] e c by (auto simp: none_left_def tidy_def)
  ultimately show ?thesis using yes no by blast
qed

text \<open>
  The two conditions of the property are needed: a server that refuses the signals is left running, in no registry, and the links it
  serves from are removed all the same.
\<close>

lemma refused_end_leaves_process:
  "case launchDetached (split_env False False) split_client split_opts split_state of
     Some (st, Inl e) \<Rightarrow> e = NotReady \<and> lcProcs st = [42] \<and> lcReg st = FileMissing
       \<and> launch_at (entries (lcScratch st)) demo_hex ''9-9'' = None
   | _ \<Rightarrow> False"
  by code_simp

end
