(* ===== verification/LockTool.thy ===== *)
theory LockTool
  imports LlamaPin Extract "HOL-Library.Sublist"
begin

text \<open>
  \<open>cmd/llama-lock/main.go\<close>, the commands of the tool over \<open>LlamaPin\<close> and \<open>Extract\<close>, and how the lock file is
  found. What a command prints is a value; the flag parser of the standard library is a parameter.
\<close>

text \<open>
  Walking up from a directory, given by its components from the last to the first.
\<close>

datatype root_error = LockMissingAt "string list" | NoRepository

primrec FindRepoRoot :: "(string list \<Rightarrow> bool) \<Rightarrow> (string list \<Rightarrow> bool) \<Rightarrow> string list \<Rightarrow> root_error + string list" where
  "FindRepoRoot hasMod hasLock [] =
     (if hasMod [] then if hasLock [] then Inr [] else Inl (LockMissingAt []) else Inl NoRepository)"
| "FindRepoRoot hasMod hasLock (c # up) =
     (if hasMod (c # up) then if hasLock (c # up) then Inr (c # up) else Inl (LockMissingAt (c # up))
      else FindRepoRoot hasMod hasLock up)"

text \<open>The nearest directory with a module file decides; one above it is never used.\<close>

lemma FindRepoRoot_nearest:
  "FindRepoRoot hasMod hasLock d = Inr r \<Longrightarrow>
     hasMod r \<and> hasLock r \<and> suffix r d \<and> (\<forall>s. suffix s d \<longrightarrow> length r < length s \<longrightarrow> \<not> hasMod s)"
proof (induction d)
  case (Cons c up)
  show ?case
  proof (cases "hasMod (c # up)")
    case True
    then have "r = c # up" "hasLock r" using Cons.prems by (auto split: if_splits)
    then show ?thesis using True by (auto dest: suffix_length_le)
  next
    case False
    then show ?thesis using Cons by (auto simp: suffix_Cons)
  qed
qed (auto split: if_splits)

definition RefOf :: "lock_env \<Rightarrow> string" where
  "RefOf env = (case Load env of Inl _ \<Rightarrow> ''unknown'' | Inr lk \<Rightarrow> lkRef lk)"

subsection \<open>Upstream\<close>

text \<open>
  The release API and git. \<open>http\<close> gives the status and the body of an answer; the decoders of JSON are parameters and
  see at most so many bytes; \<open>git\<close> runs \<open>git ls-remote\<close> on the repository with the patterns.
\<close>

definition Upstream :: string where "Upstream = ''github.com/ggml-org/llama.cpp''"
definition RepoSlug :: string where "RepoSlug = ''ggml-org/llama.cpp''"

definition fetch_json ::
  "(string \<Rightarrow> string + nat \<times> string) \<Rightarrow> nat \<Rightarrow> (string \<Rightarrow> 'a option) \<Rightarrow> string \<Rightarrow> string + 'a" where
  "fetch_json http limit dec url =
     (case http url of
        Inl e \<Rightarrow> Inl e
      | Inr (status, body) \<Rightarrow>
        if status \<noteq> 200 then Inl (''HTTP '' @ dec_nat status)
        else case dec (take limit body) of None \<Rightarrow> Inl ''json'' | Some x \<Rightarrow> Inr x)"

definition FetchRelease ::
  "(string \<Rightarrow> string + nat \<times> string) \<Rightarrow> (string \<Rightarrow> Release option) \<Rightarrow> string \<Rightarrow> string + Release" where
  "FetchRelease http dec ref =
     fetch_json http (4 * 2 ^ 20) dec (''https://api.github.com/repos/'' @ RepoSlug @ ''/releases/tags/'' @ ref)"

definition releases_url :: "nat \<Rightarrow> string" where
  "releases_url page = ''https://api.github.com/repos/'' @ RepoSlug @ ''/releases?per_page=100&page='' @ dec_nat page"

definition fetchReleases ::
  "(string \<Rightarrow> string + nat \<times> string) \<Rightarrow> (string \<Rightarrow> Release list option) \<Rightarrow> nat \<Rightarrow> string + Release list" where
  "fetchReleases http dec page = fetch_json http (16 * 2 ^ 20) dec (releases_url page)"

definition LSRemote :: "(string list \<Rightarrow> string + string) \<Rightarrow> string list \<Rightarrow> string + string" where
  "LSRemote git patterns = git ([''ls-remote'', ''https://'' @ Upstream] @ patterns)"

text \<open>The environment of the pin over these.\<close>

definition upstream_env ::
  "(string \<Rightarrow> string + nat \<times> string) \<Rightarrow> (string \<Rightarrow> Release option) \<Rightarrow> (string \<Rightarrow> Release list option)
   \<Rightarrow> (string list \<Rightarrow> string + string) \<Rightarrow> lock_env \<Rightarrow> lock_env" where
  "upstream_env http dec1 dec2 git env =
     env\<lparr>leRelease := FetchRelease http dec1, lePage := fetchReleases http dec2, leGit := LSRemote git\<rparr>"

text \<open>Only an answer with status 200 counts, and its tag is the last part of the address.\<close>

lemma FetchRelease_answered:
  "FetchRelease http dec ref = Inr r \<Longrightarrow>
     \<exists>body. http (''https://api.github.com/repos/'' @ RepoSlug @ ''/releases/tags/'' @ ref) = Inr (200, body)
       \<and> dec (take (4 * 2 ^ 20) body) = Some r"
  by (auto simp: FetchRelease_def fetch_json_def split: sum.splits if_splits option.splits)

subsection \<open>Fetching\<close>

datatype tool_error =
    OfPin pin_error | OfExtract extract_error | OfArgs arg_error | DestRefused | NoPlatform | FileUnread | FileRejected lock_error

text \<open>\<open>untar\<close> reads the archive; the result is the directory it landed in and its digest.\<close>

definition runFetch ::
  "lock_env \<Rightarrow> dest_env \<Rightarrow> (string \<Rightarrow> tar_item list) \<Rightarrow> string \<Rightarrow> string \<Rightarrow> dir \<Rightarrow> dir \<times> (tool_error + string \<times> string)" where
  "runFetch env de untar platform ref es =
     (case fetch_target env platform ref of
        Inl e \<Rightarrow> (es, Inl (OfPin e))
      | Inr (url, sha) \<Rightarrow>
        if \<not> deMkdir de then (es, Inl DestRefused)
        else case DownloadAsset env url sha platform of
          Inl e \<Rightarrow> (es, Inl (OfPin e))
        | Inr b \<Rightarrow>
          (case ExtractAsset de (untar b) es of
             (es', Inl e) \<Rightarrow> (es', Inl (OfExtract e))
           | (es', Inr pre) \<Rightarrow> (es', Inr (pre, sha))))"

text \<open>Nothing is unpacked, and the destination is as it was, unless the bytes hash to the digest they are fetched for.\<close>

lemma runFetch_verified:
  assumes "runFetch env de untar platform ref es = (es', r)" and "es' \<noteq> es \<or> r = Inr (pre, sha)"
  shows "\<exists>url digest body. fetch_target env platform ref = Inr (url, digest) \<and> leGet env url = Inr body
    \<and> sha256_hex (take (maxAssetBytes + 1) body) = digest
    \<and> fst (ExtractAsset de (untar (take (maxAssetBytes + 1) body)) es) = es' \<and> (r = Inr (pre, sha) \<longrightarrow> sha = digest)"
proof -
  obtain url digest where t: "fetch_target env platform ref = Inr (url, digest)"
    using assms by (auto simp: runFetch_def split: sum.splits)
  obtain b where b: "DownloadAsset env url digest platform = Inr b"
    using assms t by (auto simp: runFetch_def split: sum.splits if_splits)
  then obtain body where "leGet env url = Inr body" "b = take (maxAssetBytes + 1) body" "sha256_hex b = digest"
    by (auto simp: DownloadAsset_def Let_def split: sum.splits if_splits)
  moreover have "fst (ExtractAsset de (untar b) es) = es' \<and> (r = Inr (pre, sha) \<longrightarrow> sha = digest)"
    using assms t b by (auto simp: runFetch_def split: sum.splits if_splits prod.splits)
  ultimately show ?thesis using t by blast
qed

subsection \<open>Commands\<close>

datatype tool_output =
    PrintText string | PrintLock Lock | PrintResolved resolved | PrintUpdate update_outcome | ToFetch string string string
  | Fetched string string string string
  | UsageExit | FatalExit tool_error

text \<open>The lock file's platform and path arguments; \<open>readFile\<close> reads any file; \<open>flags\<close> parses those of \<open>check-update\<close>, \<open>rest\<close> the positional ones.\<close>

record tool_env =
  teLock :: lock_env
  teFormat :: "int \<Rightarrow> string"
  teHost :: "string \<times> string"
  teRead :: "string \<Rightarrow> string option"
  teFlags :: "string list \<Rightarrow> bool \<times> string \<times> bool"
  teRest :: "string list \<Rightarrow> string list"

definition lock_path :: string where "lock_path = ''runtime/llama.lock''"

definition fatal_or :: "('e \<Rightarrow> tool_error) \<Rightarrow> ('a \<Rightarrow> tool_output) \<Rightarrow> 'e + 'a \<Rightarrow> tool_output" where
  "fatal_or f g r = (case r of Inl e \<Rightarrow> FatalExit (f e) | Inr x \<Rightarrow> g x)"

definition validate_file :: "tool_env \<Rightarrow> string \<Rightarrow> tool_output" where
  "validate_file te path =
     (case teRead te path of
        None \<Rightarrow> FatalExit FileUnread
      | Some data \<Rightarrow> fatal_or FileRejected PrintLock (ParseLock (leRFC (teLock te)) data))"

definition provenance_line :: "Lock \<Rightarrow> string" where
  "provenance_line lk =
     ''provenance OK: '' @ lkRef lk @ '' -> '' @ lkCommit lk @ '' (assets verified on '' @ join_with '', '' Platforms @ '')''"

definition run_tool :: "tool_env \<Rightarrow> string list \<Rightarrow> tool_output" where
  "run_tool te argv =
     (case argv of
        [] \<Rightarrow> UsageExit
      | cmd # args \<Rightarrow>
        if cmd = ''ref'' then fatal_or OfPin (\<lambda>lk. PrintText (lkRef lk)) (Load (teLock te))
        else if cmd = ''platform'' then
          (case HostPlatform (fst (teHost te)) (snd (teHost te)) of None \<Rightarrow> FatalExit NoPlatform | Some p \<Rightarrow> PrintText p)
        else if cmd = ''validate'' then
          (case args of [] \<Rightarrow> validate_file te lock_path | [p] \<Rightarrow> validate_file te p | _ \<Rightarrow> UsageExit)
        else if cmd = ''verify'' then
          (if args \<noteq> [] then UsageExit else fatal_or OfPin (\<lambda>lk. PrintText (provenance_line lk)) (verify_lock (teLock te)))
        else if cmd = ''fetch'' then fatal_or OfArgs (\<lambda>(platform, dest, ref). ToFetch platform dest ref) (parseFetchArgs args)
        else if cmd = ''latest-nightly'' then
          fatal_or OfPin PrintResolved
            (bind_res (LatestNightlyTag (leGit (teLock te))) (\<lambda>tag. resolveRef (teFormat te) (teLock te) tag))
        else if cmd = ''latest-pinnable'' then
          fatal_or OfPin (\<lambda>p. PrintResolved (pinnableToResolved (teFormat te) p))
            (newestPinnable (lePage (teLock te)) (ResolveTag (leGit (teLock te))) (leNow (teLock te)))
        else if cmd = ''resolve'' then
          (case teRest te args of [r] \<Rightarrow> fatal_or OfPin PrintResolved (resolveRef (teFormat te) (teLock te) r) | _ \<Rightarrow> UsageExit)
        else if cmd = ''check-update'' then
          (case teFlags te args of (w, ref, down) \<Rightarrow> fatal_or OfPin PrintUpdate (check_update (teLock te) w ref down))
        else UsageExit)"

text \<open>\<open>verify\<close> takes no arguments.\<close>

lemma verify_takes_none: "args \<noteq> [] \<Longrightarrow> run_tool te (''verify'' # args) = UsageExit"
  by (simp add: run_tool_def)

text \<open>The whole run of the tool: a fetch is carried out in the directory it names.\<close>

definition tool_main ::
  "tool_env \<Rightarrow> (string \<Rightarrow> dest_env) \<Rightarrow> (string \<Rightarrow> tar_item list) \<Rightarrow> string list \<Rightarrow> dir \<Rightarrow> dir \<times> tool_output" where
  "tool_main te de untar argv es =
     (case run_tool te argv of
        ToFetch platform dest ref \<Rightarrow>
          (case runFetch (teLock te) (de dest) untar platform ref es of
             (es', Inl e) \<Rightarrow> (es', FatalExit e)
           | (es', Inr (pre, sha)) \<Rightarrow> (es', Fetched platform dest pre (take 16 sha)))
      | out \<Rightarrow> (es, out))"

definition tool_exit :: "tool_output \<Rightarrow> nat" where
  "tool_exit out = (case out of UsageExit \<Rightarrow> 2 | FatalExit _ \<Rightarrow> 1 | _ \<Rightarrow> 0)"

text \<open>Only a fetch that was asked for touches a destination, and a run that fails never reports success.\<close>

lemma tool_main_scope:
  assumes "tool_main te de untar argv es = (es', out)" and "es' \<noteq> es"
  shows "\<exists>args platform dest ref. argv = ''fetch'' # args \<and> parseFetchArgs args = Inr (platform, dest, ref)
    \<and> fst (runFetch (teLock te) (de dest) untar platform ref es) = es'"
proof -
  obtain platform dest ref where f: "run_tool te argv = ToFetch platform dest ref"
    using assms by (auto simp: tool_main_def split: tool_output.splits)
  then obtain cmd args where a: "argv = cmd # args" by (cases argv) (auto simp: run_tool_def)
  have "cmd = ''fetch'' \<and> parseFetchArgs args = Inr (platform, dest, ref)"
    using f unfolding a run_tool_def
    by (auto simp: fatal_or_def validate_file_def split: if_splits sum.splits option.splits list.splits prod.splits)
  then show ?thesis using assms f a by (auto simp: tool_main_def split: sum.splits prod.splits)
qed

end
