(* ===== verification/Router.thy ===== *)
theory Router
  imports JobRuns Text
begin

text \<open>
  \<open>internal/api/server.go\<close>, \<open>router\<close>: which handler a request reaches, and one request as a step of the
  server of \<open>JobRuns\<close>. The multiplexer is the standard library's, by its documented rules: a pattern for \<open>GET\<close>
  also takes \<open>HEAD\<close>, a wildcard takes one non-empty segment, a path that is not clean is redirected, and what
  no other pattern takes goes to the pattern \<open>/\<close>. The decoder of JSON bodies, the query and the unescaping of
  path segments are parameters.
\<close>

datatype endpoint =
    EpResolve | EpOpen | EpEnsure | EpJob string | EpJobs | EpVerify | EpBlob string
  | EpImportLocal | EpImportHF | EpImportBT | EpImportCatalog | EpModels | EpUnknown

definition reads :: "string \<Rightarrow> bool" where
  "reads m \<longleftrightarrow> m = ''GET'' \<or> m = ''HEAD''"

text \<open>The patterns, over the segments of a path; \<open>raw\<close> are the escaped ones.\<close>

definition router :: "string \<Rightarrow> string list \<Rightarrow> string list \<Rightarrow> endpoint" where
  "router m raw segs =
     (if reads m \<and> segs = [''v1'', ''resolve''] then EpResolve
      else if reads m \<and> segs = [''v1'', ''open''] then EpOpen
      else if m = ''POST'' \<and> segs = [''v1'', ''ensure''] then EpEnsure
      else if reads m \<and> length segs = 3 \<and> take 2 segs = [''v1'', ''jobs''] \<and> last raw \<noteq> [] then EpJob (last segs)
      else if reads m \<and> segs = [''v1'', ''jobs''] then EpJobs
      else if m = ''POST'' \<and> segs = [''v1'', ''verify''] then EpVerify
      else if reads m \<and> length segs = 3 \<and> take 2 segs = [''v1'', ''blob''] \<and> last raw \<noteq> [] then EpBlob (last segs)
      else if m = ''POST'' \<and> segs = [''v1'', ''import'', ''local''] then EpImportLocal
      else if m = ''POST'' \<and> segs = [''v1'', ''import'', ''hf''] then EpImportHF
      else if m = ''POST'' \<and> segs = [''v1'', ''import'', ''bt''] then EpImportBT
      else if m = ''POST'' \<and> segs = [''v1'', ''import'', ''catalog''] then EpImportCatalog
      else if reads m \<and> segs = [''v1'', ''models''] then EpModels
      else EpUnknown)"

text \<open>\<open>net/http\<close>: a path is clean if it is rooted and has neither empty nor dot segments inside.\<close>

definition cleanPath :: "string \<Rightarrow> string" where
  "cleanPath p =
     (let q = Clean (if HasPrefix p ''/'' then p else ''/'' @ p) in
      if p \<noteq> [] \<and> last p = CHR ''/'' \<and> q \<noteq> ''/'' then q @ ''/'' else q)"

text \<open>
  A request: its path as sent and as decoded, its query parameter \<open>ref\<close>, and what decoding the body gives
  for each kind of handler.
\<close>

record request =
  rqMethod :: string
  rqEscaped :: string
  rqPath :: string
  rqRef :: string
  rqBody :: "string option"
  rqLocal :: "(string list \<times> string) option"
  rqHF :: "(string \<times> string) option"
  rqBT :: "bt_body option"
  rqCatalog :: "catalog_body option"

definition endpoint_of :: "(string \<Rightarrow> string) \<Rightarrow> request \<Rightarrow> endpoint" where
  "endpoint_of unesc rq =
     (let raw = split_on (CHR ''/'') (drop 1 (rqEscaped rq)) in router (rqMethod rq) raw (map unesc raw))"

datatype response =
    RsError httpError | RsRedirect string | RsResult nat resolveResult | RsBlob string
  | RsModels nat "nsEntry list \<times> tagEntry list" | RsJob nat Job | RsJobs nat "Job list" | RsHangs

definition answer_with :: "('a \<Rightarrow> response) \<Rightarrow> httpError + 'a \<Rightarrow> response" where
  "answer_with f r = (case r of Inl e \<Rightarrow> RsError e | Inr x \<Rightarrow> f x)"

text \<open>A request that may start a job: the body is looked at with the state of the moment.\<close>

definition post_job :: "admission \<Rightarrow> server \<Rightarrow> server \<times> response" where
  "post_job a sv =
     (case admit a sv of
        (sv', None) \<Rightarrow> (sv', RsHangs)
      | (sv', Some r) \<Rightarrow> (sv', answer_with (RsJob 201) r))"

definition serve_request ::
  "server_env \<Rightarrow> (string \<Rightarrow> string) \<Rightarrow> string \<Rightarrow> int \<Rightarrow> request \<Rightarrow> server \<Rightarrow> server \<times> response" where
  "serve_request env unesc i now rq sv =
     (if rqMethod rq \<noteq> ''CONNECT'' \<and> cleanPath (rqEscaped rq) \<noteq> rqEscaped rq
      then (sv, RsRedirect (cleanPath (rqEscaped rq)))
      else let b = svBackend sv; api = snApi env; s = svStore b in
        case endpoint_of unesc rq of
          EpResolve \<Rightarrow> (sv, answer_with (RsResult 200) (handleResolve api s (rqRef rq)))
        | EpOpen \<Rightarrow> (sv, answer_with (RsResult 200) (handleOpen api s (rqRef rq)))
        | EpEnsure \<Rightarrow> post_job (handleEnsure env b i now (rqBody rq)) sv
        | EpJob j \<Rightarrow> (sv, answer_with (RsJob 200) (handleJob sv j))
        | EpJobs \<Rightarrow> (sv, RsJobs 200 (handleJobsList sv))
        | EpVerify \<Rightarrow> post_job (handleVerify env b i now (rqBody rq)) sv
        | EpBlob d \<Rightarrow> (sv, answer_with RsBlob (handleBlob api s d))
        | EpImportLocal \<Rightarrow> post_job (handleImportLocal env i now (rqLocal rq)) sv
        | EpImportHF \<Rightarrow> post_job (handleImportHF env i now (rqHF rq)) sv
        | EpImportBT \<Rightarrow> post_job (handleImportBT b i now (rqBT rq)) sv
        | EpImportCatalog \<Rightarrow> post_job (handleImportCatalog env b i now (rqCatalog rq)) sv
        | EpModels \<Rightarrow> (sv, answer_with (RsModels 200) (handleModels api s))
        | EpUnknown \<Rightarrow> (sv, RsError (handleUnknown (rqPath rq))))"

subsection \<open>Requests and the state\<close>

definition starts_job :: "endpoint \<Rightarrow> bool" where
  "starts_job e \<longleftrightarrow> e \<in> {EpEnsure, EpVerify, EpImportLocal, EpImportHF, EpImportBT, EpImportCatalog}"

lemma router_post: "starts_job (router m raw segs) \<Longrightarrow> m = ''POST''"
  by (auto simp: router_def starts_job_def split: if_splits)

lemma post_job_state [simp]: "fst (post_job a sv) = fst (admit a sv)"
  by (auto simp: post_job_def split: prod.splits option.splits)

text \<open>The job requests are those of \<open>JobRuns\<close>; every other request leaves the server as it is.\<close>

lemma serve_request_state:
  "fst (serve_request env unesc i now rq sv) = sv
   \<or> starts_job (endpoint_of unesc rq)
     \<and> (\<exists>a. handled env (svBackend sv) i a \<and> fst (serve_request env unesc i now rq sv) = fst (admit a sv))"
  by (cases "endpoint_of unesc rq")
    (auto simp: serve_request_def Let_def starts_job_def intro: handled.intros)

text \<open>The job a request is answered with is the one under its id.\<close>

lemma admitted_found:
  assumes "admissible i a" and "admit a sv = (sv', Some (Inr j))"
  shows "jbID j = i \<and> handleJob sv' i = Inr j"
  using assms fold_publish [of _ i sv]
  by (cases a) (auto simp: admit_def admissible_def handleJob_def)

lemma answered_found:
  assumes "snd (serve_request env unesc i now rq sv) = RsJob 201 j"
  shows "jbID j = i \<and> handleJob (fst (serve_request env unesc i now rq sv)) i = Inr j"
proof -
  have p: "jbID j = i \<and> handleJob (fst (post_job a sv)) i = Inr j"
    if "handled env (svBackend sv) i a" "snd (post_job a sv) = RsJob 201 j" for a
    using admitted_found [OF handled_admissible [OF that(1)], of sv] that(2)
    by (auto simp: post_job_def answer_with_def split: prod.splits option.splits sum.splits)
  show ?thesis
    using assms p by (cases "endpoint_of unesc rq")
      (auto simp: serve_request_def Let_def answer_with_def intro: handled.intros split: if_splits sum.splits)
qed

text \<open>
  C40: A request is no change of the server or one admission step of the job system, so everything shown of its
  runs holds under the requests of clients; only a POST changes anything; and a job a request is answered with
  is, at that moment, the document another client reads under its id.
\<close>

theorem serve_request_refines:
  assumes "map_of (svJobs sv) i = None"
  shows "(fst (serve_request env unesc i now rq sv) = sv \<or> server_step sv (fst (serve_request env unesc i now rq sv)))
    \<and> (fst (serve_request env unesc i now rq sv) \<noteq> sv \<longrightarrow> rqMethod rq = ''POST'')
    \<and> (\<forall>j. snd (serve_request env unesc i now rq sv) = RsJob 201 j \<longrightarrow>
         jbID j = i \<and> handleJob (fst (serve_request env unesc i now rq sv)) i = Inr j)"
  using serve_request_state [of env unesc i now rq sv] answered_found [of env unesc i now rq sv]
    server_step.request [OF assms] router_post by (auto simp: endpoint_of_def Let_def)

text \<open>A client asks for the whole store to be verified.\<close>

definition demo_request :: request where
  "demo_request = \<lparr>rqMethod = ''POST'', rqEscaped = ''/v1/verify'', rqPath = ''/v1/verify'', rqRef = [], rqBody = Some ''all'',
     rqLocal = None, rqHF = None, rqBT = None, rqCatalog = None\<rparr>"

lemma demo_served: "serve_request demo_env id ''1'' 0 demo_request (life 0) = (life 1, RsJob 201 life_base)"
proof -
  have e: "endpoint_of id demo_request = EpVerify" "cleanPath (rqEscaped demo_request) = rqEscaped demo_request" by code_simp+
  have "post_job (handleVerify demo_env (svBackend (life 0)) ''1'' 0 (Some ''all'')) (life 0) = (life 1, RsJob 201 life_base)"
    by (simp add: post_job_def life_request life_def Let_def admit_def answer_with_def)
  then show ?thesis using e by (simp add: serve_request_def Let_def demo_request_def)
qed

lemma serve_request_refines_witness:
  "server_step (life 0) (life 1) \<and> handleJob (life 1) ''1'' = Inr life_base"
proof -
  have "map_of (svJobs (life 0)) ''1'' = None" by (simp add: life_def)
  note C = serve_request_refines [OF this, of demo_env id 0 demo_request]
  have "life 1 \<noteq> life 0" using life_one(2) by (auto simp: life_def)
  then show ?thesis using C by (simp add: demo_served)
qed

end
