(* ===== verification/Daemon.thy ===== *)
theory Daemon
  imports Config CasState RuntimeProc
begin

text \<open>
  The daemon as a process: where its store and its socket are (\<open>internal/cas\<close>, \<open>internal/api/server.go\<close>), how
  it takes the socket while other daemons start and stop, and the commands of \<open>cmd/shardhive/main.go\<close>. The
  operating system's calls are parameters or steps.
\<close>

subsection \<open>Paths\<close>

text \<open>\<open>filepath.Abs\<close>; there may be no working directory.\<close>

definition Abs_path :: "string option \<Rightarrow> string \<Rightarrow> string option" where
  "Abs_path cwd p = (if HasPrefix p ''/'' then Some (Clean p) else map_option (\<lambda>d. Join [d, p]) cwd)"

definition ResolveRoot :: "(string \<Rightarrow> string) \<Rightarrow> string option \<Rightarrow> string option \<Rightarrow> string option" where
  "ResolveRoot env cwd home =
     (if env ''SHARDR_CAS'' \<noteq> [] then Abs_path cwd (env ''SHARDR_CAS'')
      else if env ''XDG_DATA_HOME'' \<noteq> [] then Some (Join [env ''XDG_DATA_HOME'', ''shardr'', ''cas''])
      else map_option (\<lambda>h. Join [h, ''.local'', ''share'', ''shardr'', ''cas'']) home)"

text \<open>\<open>mk\<close>: the directory of the fallback can be made.\<close>

definition DefaultSocketPath ::
  "(string \<Rightarrow> string) \<Rightarrow> string option \<Rightarrow> string \<Rightarrow> string option \<Rightarrow> bool \<Rightarrow> string option" where
  "DefaultSocketPath env cwd tmp uid mk =
     (if env ''SHARDR_SOCKET'' \<noteq> [] then Abs_path cwd (env ''SHARDR_SOCKET'')
      else if env ''XDG_RUNTIME_DIR'' \<noteq> [] then Some (Join [env ''XDG_RUNTIME_DIR'', ''shardhive.sock''])
      else if \<not> mk then None
      else Some (Join [user_dir tmp ''shardhive'' uid, ''shardhive.sock'']))"

definition socket_path :: "string option \<Rightarrow> string \<Rightarrow> string option" where
  "socket_path deflt given = (if given = [] then deflt else Some given)"

subsection \<open>Taking the socket\<close>

text \<open>
  What is at the socket path: a socket some daemon made, with the permissions of the process' mask or already
  those for the owner alone, or something of another program.
\<close>

datatype place = Nothing | Socket nat bool | Regular | Directory | Symlink

datatype listen_error = InUse | NotSocket place | RemoveFailed | DirFailed | BindFailed | ChmodFailed

text \<open>Where a daemon is in \<open>Listen\<close>: the next call it makes.\<close>

datatype daemon_pc =
    Dialling | Checking | Removing | MakingDir | Binding | Protecting | Serving | GaveUp listen_error | Closed

record host =
  hsPlace :: place
  hsPc :: "nat \<Rightarrow> daemon_pc"

text \<open>A daemon answers on its socket from the bind on, as the kernel queues connections.\<close>

definition bound :: "daemon_pc \<Rightarrow> bool" where
  "bound pc \<longleftrightarrow> pc = Protecting \<or> pc = Serving"

definition dialled :: "host \<Rightarrow> bool" where
  "dialled h = (case hsPlace h of Socket d _ \<Rightarrow> bound (hsPc h d) | _ \<Rightarrow> False)"

definition moves :: "nat \<Rightarrow> daemon_pc \<Rightarrow> host \<Rightarrow> host" where
  "moves d pc h = h\<lparr>hsPc := (hsPc h)(d := pc)\<rparr>"

definition places :: "place \<Rightarrow> host \<Rightarrow> host" where
  "places p h = h\<lparr>hsPlace := p\<rparr>"

text \<open>
  One call of a daemon; \<open>ok\<close> is whether a call that may fail for a reason of the system succeeds. Closing a
  listener removes what is at its path.
\<close>

definition is_socket :: "place \<Rightarrow> bool" where
  "is_socket p = (case p of Socket _ _ \<Rightarrow> True | _ \<Rightarrow> False)"

definition unlink :: "host \<Rightarrow> host" where
  "unlink h = (if hsPlace h = Directory then h else places Nothing h)"

definition daemon_call :: "bool \<Rightarrow> nat \<Rightarrow> host \<Rightarrow> host" where
  "daemon_call ok d h =
     (case hsPc h d of
        Dialling \<Rightarrow> if dialled h \<and> ok then moves d (GaveUp InUse) h else moves d Checking h
      | Checking \<Rightarrow>
          if hsPlace h = Nothing \<or> \<not> ok then moves d MakingDir h
          else if is_socket (hsPlace h) then moves d Removing h
          else moves d (GaveUp (NotSocket (hsPlace h))) h
      | Removing \<Rightarrow> if hsPlace h = Nothing \<or> \<not> ok then moves d (GaveUp RemoveFailed) h else moves d MakingDir (places Nothing h)
      | MakingDir \<Rightarrow> if ok then moves d Binding h else moves d (GaveUp DirFailed) h
      | Binding \<Rightarrow>
          if hsPlace h = Nothing \<and> ok then moves d Protecting (places (Socket d False) h) else moves d (GaveUp BindFailed) h
      | Protecting \<Rightarrow>
          if ok \<and> hsPlace h \<noteq> Nothing then moves d Serving (case hsPlace h of Socket e _ \<Rightarrow> places (Socket e True) h | _ \<Rightarrow> h)
          else moves d (GaveUp ChmodFailed) (unlink h)
      | Serving \<Rightarrow> moves d Closed (unlink h)
      | _ \<Rightarrow> h)"


text \<open>Daemons run at the same time, and any of them may die, which leaves its socket.\<close>

inductive host_step :: "host \<Rightarrow> host \<Rightarrow> bool" where
  call: "host_step h (daemon_call ok d h)"
| crash: "host_step h (moves d Closed h)"

text \<open>The calls that come after the check of what is at the path.\<close>

lemma moves_simps [simp]:
  "hsPlace (moves d pc h) = hsPlace h" "hsPc (moves d pc h) = (hsPc h)(d := pc)"
  "hsPlace (places p h) = p" "hsPc (places p h) = hsPc h"
  by (simp_all add: moves_def places_def)

lemma unlink_simps [simp]:
  "hsPc (unlink h) = hsPc h" "hsPlace (unlink h) = (if hsPlace h = Directory then Directory else Nothing)"
  by (simp_all add: unlink_def)

definition past_check :: "daemon_pc \<Rightarrow> bool" where
  "past_check pc \<longleftrightarrow> pc = Removing \<or> pc = Protecting \<or> pc = Serving"

text \<open>
  What is not a socket is never touched, by any number of daemons in any order, whichever of their calls fail.
\<close>

definition taken_by_other :: "place \<Rightarrow> host \<Rightarrow> bool" where
  "taken_by_other p h \<longleftrightarrow> hsPlace h = p \<and> p \<noteq> Nothing \<and> \<not> is_socket p \<and> (\<forall>d. \<not> past_check (hsPc h d))"

lemma taken_moves: "taken_by_other p h \<Longrightarrow> \<not> past_check pc \<Longrightarrow> taken_by_other p (moves d pc h)"
  by (simp add: taken_by_other_def)

lemma taken_by_other_step:
  assumes "host_step h h'" and "taken_by_other p h"
  shows "taken_by_other p h'"
  using assms
proof (cases rule: host_step.cases)
  case (call ok d)
  have "hsPlace h \<noteq> Nothing" "\<not> is_socket (hsPlace h)" "\<not> past_check (hsPc h d)"
    using assms(2) by (auto simp: taken_by_other_def)
  then show ?thesis using call assms(2)
    by (cases "hsPc h d") (simp_all add: daemon_call_def past_check_def taken_moves)
next
  case (crash d)
  then show ?thesis using taken_moves [OF assms(2)] by (simp add: past_check_def)
qed

interpretation spared: step_system
  "\<lambda>h. hsPlace h = p \<and> p \<noteq> Nothing \<and> \<not> is_socket p \<and> (\<forall>d. hsPc h d = Dialling)" host_step "taken_by_other p" for p
  by unfold_locales (simp add: taken_by_other_def past_check_def, rule taken_by_other_step)

lemma Listen_spares_others:
  assumes "host_step\<^sup>*\<^sup>* h h'" and "hsPlace h = p" and "p \<noteq> Nothing" and "\<not> is_socket p" and "\<forall>d. hsPc h d = Dialling"
  shows "hsPlace h' = p \<and> (\<forall>d. hsPc h' d \<noteq> Serving)"
  using spared.reachable_inv [OF _ assms(1), of p] assms(2-) by (auto simp: taken_by_other_def past_check_def)

subsection \<open>One daemon at a time\<close>

text \<open>Before the bind, and before the daemon serves.\<close>

definition early :: "daemon_pc \<Rightarrow> bool" where
  "early pc \<longleftrightarrow> pc = Checking \<or> pc = Removing \<or> pc = MakingDir \<or> pc = Binding"

definition listening :: "daemon_pc \<Rightarrow> bool" where
  "listening pc \<longleftrightarrow> early pc \<or> pc = Protecting"

lemma phase_simps [simp]:
  "early Checking" "early Removing" "early MakingDir" "early Binding" "\<not> early Dialling" "\<not> early Protecting"
  "\<not> early Serving" "\<not> early Closed" "\<not> early (GaveUp e)"
  "listening Checking" "listening Removing" "listening MakingDir" "listening Binding" "listening Protecting"
  "\<not> listening Dialling" "\<not> listening Serving" "\<not> listening Closed" "\<not> listening (GaveUp e)"
  "bound Protecting" "bound Serving" "\<not> bound Dialling" "\<not> bound Checking" "\<not> bound Removing" "\<not> bound MakingDir"
  "\<not> bound Binding" "\<not> bound Closed" "\<not> bound (GaveUp e)"
  by (simp_all add: early_def listening_def bound_def)

text \<open>Daemons start one after the other, and a daemon that dials one that serves gets through.\<close>

inductive serial_step :: "host \<Rightarrow> host \<Rightarrow> bool" where
  call: "(hsPc h d = Dialling \<longrightarrow> ok \<and> (\<forall>e. \<not> listening (hsPc h e))) \<Longrightarrow> serial_step h (daemon_call ok d h)"
| crash: "serial_step h (moves d Closed h)"

text \<open>The daemon that is bound has its socket at the path, for its owner alone once it serves.\<close>

definition exclusive :: "host \<Rightarrow> bool" where
  "exclusive h \<longleftrightarrow>
     (\<forall>d. bound (hsPc h d) \<longrightarrow> (\<exists>r. hsPlace h = Socket d r \<and> (hsPc h d = Serving \<longrightarrow> r)))
     \<and> (\<forall>d e. listening (hsPc h d) \<longrightarrow> listening (hsPc h e) \<longrightarrow> d = e)
     \<and> (\<forall>d e. early (hsPc h d) \<longrightarrow> \<not> bound (hsPc h e))"

lemma early_listening: "early pc \<Longrightarrow> listening pc"
  by (simp add: listening_def)

lemma exclusiveD:
  assumes "exclusive h"
  shows "bound (hsPc h d) \<Longrightarrow> \<exists>r. hsPlace h = Socket d r \<and> (hsPc h d = Serving \<longrightarrow> r)"
    and "listening (hsPc h d) \<Longrightarrow> listening (hsPc h e) \<Longrightarrow> d = e"
    and "early (hsPc h d) \<Longrightarrow> \<not> bound (hsPc h e)"
    and "bound (hsPc h d) \<Longrightarrow> bound (hsPc h e) \<Longrightarrow> d = e"
proof -
  show *: "bound (hsPc h d) \<Longrightarrow> \<exists>r. hsPlace h = Socket d r \<and> (hsPc h d = Serving \<longrightarrow> r)" for d
    using assms unfolding exclusive_def by blast
  show "bound (hsPc h d) \<Longrightarrow> bound (hsPc h e) \<Longrightarrow> d = e" using * [of d] * [of e] by auto
qed (use assms in \<open>unfold exclusive_def, blast+\<close>)

lemma exclusive_moves:
  assumes "exclusive h" and "\<not> bound pc" and "early pc \<longrightarrow> early (hsPc h d)" and "pc \<noteq> Protecting"
  shows "exclusive (moves d pc h)"
  using assms early_listening [of "hsPc h d"] by (simp add: exclusive_def listening_def) blast

lemma exclusive_clear: "exclusive h \<Longrightarrow> early (hsPc h d) \<Longrightarrow> exclusive (places Nothing h)"
  by (simp add: exclusive_def) blast

lemma exclusive_start:
  assumes "exclusive h" and "\<not> dialled h" and "\<forall>e. \<not> listening (hsPc h e)"
  shows "exclusive (moves d Checking h)"
proof -
  have "\<not> bound (hsPc h e)" for e using assms(1,2) by (force simp: exclusive_def dialled_def)
  then show ?thesis using assms by (simp add: exclusive_def early_listening)
qed

lemma exclusive_bind:
  assumes "exclusive h" and "hsPc h d = Binding"
  shows "exclusive (moves d Protecting (places (Socket d False) h))"
proof -
  have "\<not> bound (hsPc h e)" "listening (hsPc h e) \<Longrightarrow> e = d" for e
    using assms by (auto simp: exclusive_def early_def)
  then show ?thesis using early_listening by (auto simp: exclusive_def)
qed

lemma exclusive_end:
  assumes "exclusive h" and "bound (hsPc h d)" and "\<not> bound pc" and "\<not> listening pc"
  shows "exclusive (moves d pc (unlink h))"
proof -
  have "\<not> bound (hsPc h e)" if "e \<noteq> d" for e using exclusiveD(4) [OF assms(1,2)] that by blast
  moreover have "\<not> early pc" using assms(4) early_listening by blast
  moreover have "\<not> early (hsPc h e)" for e using exclusiveD(3) [OF assms(1)] assms(2) by blast
  ultimately show ?thesis using exclusiveD(2) [OF assms(1)] assms(3,4) by (auto simp: exclusive_def)
qed

lemma exclusive_protect:
  assumes "exclusive h" and "hsPc h d = Protecting"
  shows "\<exists>r. hsPlace h = Socket d r" "exclusive (moves d Serving (places (Socket d True) h))"
proof -
  show "\<exists>r. hsPlace h = Socket d r" using assms by (auto simp: exclusive_def bound_def)
  moreover have "\<not> bound (hsPc h e)" if "e \<noteq> d" for e using assms calculation that by (force simp: exclusive_def)
  moreover have "\<not> listening (hsPc h e)" if "e \<noteq> d" for e using assms that by (force simp: exclusive_def)
  ultimately show "exclusive (moves d Serving (places (Socket d True) h))"
    using early_listening by (auto simp: exclusive_def)
qed

lemma exclusive_step:
  assumes "serial_step h h'" and "exclusive h"
  shows "exclusive h'"
  using assms
proof (cases rule: serial_step.cases)
  case (call d ok)
  note move = exclusive_moves [OF assms(2), of _ d]
  show ?thesis
  proof (cases "hsPc h d")
    case Dialling
    then show ?thesis using call assms(2) move exclusive_start [OF assms(2)] by (simp add: daemon_call_def)
  next
    case Removing
    then show ?thesis using call move exclusive_moves [OF exclusive_clear [OF assms(2), of d], of _ d]
      by (simp add: daemon_call_def)
  next
    case Binding
    then show ?thesis using call move exclusive_bind [OF assms(2)] by (simp add: daemon_call_def)
  next
    case Protecting
    then show ?thesis using call exclusive_protect [OF assms(2) Protecting] exclusive_end [OF assms(2), of d]
      by (auto simp: daemon_call_def)
  next
    case Serving
    then show ?thesis using call exclusive_end [OF assms(2), of d] by (simp add: daemon_call_def)
  qed (use call assms(2) move in \<open>simp_all add: daemon_call_def\<close>)
next
  case (crash d)
  then show ?thesis using exclusive_moves [OF assms(2)] by simp
qed

interpretation serial: step_system "\<lambda>h. \<forall>d. hsPc h d = Dialling" serial_step exclusive
  by unfold_locales (simp add: exclusive_def, rule exclusive_step)

lemma serial_exclusive:
  assumes "serial_step\<^sup>*\<^sup>* h h'" and "\<forall>d. hsPc h d = Dialling" and "hsPc h' d = Serving"
  shows "hsPlace h' = Socket d True \<and> (\<forall>e. hsPc h' e = Serving \<longrightarrow> e = d)"
proof -
  note ex = serial.reachable_inv [OF assms(2,1)]
  have s: "hsPc h' e = Serving \<Longrightarrow> hsPlace h' = Socket e True" for e
    using exclusiveD(1) [OF ex, of e] by auto
  have "e = d" if "hsPc h' e = Serving" for e using s [OF that] s [OF assms(3)] by simp
  then show ?thesis using s [OF assms(3)] by blast
qed

text \<open>
  Two daemons that start together over a socket left behind: both serve in the end, and the first is not reached any
  more, as the second removed its socket. A dial that fails for another reason than an orphaned socket does the same.
\<close>

definition orphaned :: host where
  "orphaned = \<lparr>hsPlace = Socket 2 True, hsPc = (\<lambda>d. if d = 2 then Closed else Dialling)\<rparr>"

lemma two_daemons_race:
  "\<exists>h. host_step\<^sup>*\<^sup>* orphaned h \<and> hsPc h 0 = Serving \<and> hsPc h 1 = Serving \<and> hsPlace h = Socket 1 True"
proof -
  have steps: "host_step\<^sup>*\<^sup>* h (fold (daemon_call True) ds h)" for ds h
  proof (induction ds arbitrary: h)
    case (Cons d ds)
    show ?case using Cons [of "daemon_call True d h"] host_step.call [of h True d]
      by (simp add: converse_rtranclp_into_rtranclp)
  qed simp
  have "hsPc (fold (daemon_call True) [0, 0, 1, 1, 0, 0, 0, 0, 1, 1, 1, 1] orphaned) 0 = Serving
    \<and> hsPc (fold (daemon_call True) [0, 0, 1, 1, 0, 0, 0, 0, 1, 1, 1, 1] orphaned) 1 = Serving
    \<and> hsPlace (fold (daemon_call True) [0, 0, 1, 1, 0, 0, 0, 0, 1, 1, 1, 1] orphaned) = Socket 1 True"
    by code_simp
  then show ?thesis using steps [of orphaned] by blast
qed

lemma failed_dial_removes:
  assumes "hsPlace h = Socket e r" and "bound (hsPc h e)" and "hsPc h d = Dialling"
  shows "hsPlace (daemon_call True d (daemon_call True d (daemon_call False d h))) = Nothing"
proof -
  have "e \<noteq> d" using assms(2,3) by auto
  then show ?thesis using assms by (simp add: daemon_call_def is_socket_def)
qed

text \<open>Between the bind and the change of its mode the socket has the permissions of the mask.\<close>

lemma bind_window:
  "hsPc h d = Binding \<Longrightarrow> hsPlace h = Nothing \<Longrightarrow> hsPlace (daemon_call True d h) = Socket d False"
  by (simp add: daemon_call_def)

subsection \<open>Commands\<close>

text \<open>
  \<open>swarm.New\<close>: what the torrent engine is started with. The burst of a limiter is one window of requests of a peer.
\<close>

record engine_config =
  ecNoDHT :: bool
  ecSeed :: bool
  ecDisableIPv6 :: bool
  ecListenHost :: string
  ecListenPort :: nat
  ecUploadLimiter :: "(int \<times> nat) option"
  ecWebseed :: string

datatype new_error = SwarmDisabled | NoRoot | StoreFailed | EngineFailed | WebseedFailed

definition uploadLimiter :: "int \<Rightarrow> int \<times> nat" where
  "uploadLimiter rate = (rate, 2 ^ 16)"

definition engine_of :: "swarm_config \<Rightarrow> string \<Rightarrow> bool \<Rightarrow> engine_config" where
  "engine_of cfg listenHost noV6 =
     \<lparr>ecNoDHT = (\<not> scDHT cfg), ecSeed = scSeed cfg, ecDisableIPv6 = noV6, ecListenHost = listenHost, ecListenPort = 0,
      ecUploadLimiter = (if scUploadLimit cfg > 0 then Some (uploadLimiter (scUploadLimit cfg)) else None),
      ecWebseed = scWebseedAddr cfg\<rparr>"

text \<open>\<open>oks\<close>: opening the store, starting the engine and listening for web seed requests succeed.\<close>

definition NewSwarm :: "string option \<Rightarrow> bool \<times> bool \<times> bool \<Rightarrow> swarm_config \<Rightarrow> new_error + engine_config" where
  "NewSwarm root oks cfg =
     (case oks of (store, eng, web) \<Rightarrow>
        if \<not> scEnabled cfg then Inl SwarmDisabled
        else if root = None then Inl NoRoot
        else if \<not> store then Inl StoreFailed
        else if \<not> eng then Inl EngineFailed
        else if scWebseedAddr cfg \<noteq> [] \<and> \<not> web then Inl WebseedFailed
        else Inr (engine_of cfg [] False))"

text \<open>\<open>limitWriter\<close>: a write waits for its share of the budget; one larger than the burst is refused.\<close>

definition limit_write :: "(int \<times> nat) option \<Rightarrow> string \<Rightarrow> string option" where
  "limit_write lim p = (case lim of Some (_, burst) \<Rightarrow> if length p > burst then None else Some p | None \<Rightarrow> Some p)"

text \<open>
  The second engine, for the torrents of catalogs, is started when it is first needed, once: what comes of it, a failure
  too, is what every later use gets.
\<close>

datatype foreign_engine = NotYet | StartFailed | Running engine_config

definition foreign_config :: "swarm_config \<Rightarrow> engine_config" where
  "foreign_config cfg =
     \<lparr>ecNoDHT = (\<not> scDHT cfg), ecSeed = True, ecDisableIPv6 = False, ecListenHost = [], ecListenPort = 0,
      ecUploadLimiter = (if scCatalogUploadLimit cfg > 0 then Some (uploadLimiter (scCatalogUploadLimit cfg)) else None),
      ecWebseed = []\<rparr>"

definition foreignEngine :: "swarm_config \<Rightarrow> bool \<Rightarrow> foreign_engine \<Rightarrow> foreign_engine \<times> (new_error + engine_config)" where
  "foreignEngine cfg ok fe =
     (let fe = (case fe of NotYet \<Rightarrow> if ok then Running (foreign_config cfg) else StartFailed | _ \<Rightarrow> fe) in
      (fe, case fe of Running ec \<Rightarrow> Inr ec | _ \<Rightarrow> Inl EngineFailed))"

lemma foreignEngine_once:
  "foreignEngine cfg ok fe = (fe', r) \<Longrightarrow> foreignEngine cfg ok' fe' = (fe', r)"
  by (auto simp: foreignEngine_def Let_def split: foreign_engine.splits if_splits)

text \<open>What \<open>serve\<close> meets: the parsed flags, the configuration, and how each of its parts starts.\<close>

record serve_env =
  suFlags :: "string list \<Rightarrow> (string \<times> bool) option"
  suOrder :: "section_map \<Rightarrow> section_map"
  suLoaded :: "load_error + config_file"
  suEnv :: "string \<Rightarrow> string"
  suParse :: "string \<Rightarrow> parsed_url option"
  suRoot :: "string option"
  suNew :: "bool \<times> bool \<times> bool"
  suSeeded :: nat
  suStore :: bool
  suSocket :: "string option"
  suListen :: "string \<Rightarrow> bool"
  suServes :: bool

datatype serve_event = SwarmUp engine_config | Seeding nat | ListeningOn string string | SwarmDown

definition exitUsage :: nat where "exitUsage = 64"

definition serve_daemon :: "serve_env \<Rightarrow> string \<Rightarrow> serve_event list \<times> nat" where
  "serve_daemon se socket =
     (if \<not> suStore se then ([], 1)
      else case socket_path (suSocket se) socket of
        None \<Rightarrow> ([], 1)
      | Some path \<Rightarrow>
        (case newCatalogProvider (suEnv se) (suParse se) (suLoaded se) of
           Inl _ \<Rightarrow> ([], 1)
         | Inr url \<Rightarrow>
           if \<not> suListen se path then ([], 1)
           else ([ListeningOn path url], if suServes se then 0 else 1)))"

definition runServe :: "serve_env \<Rightarrow> string list \<Rightarrow> serve_event list \<times> nat" where
  "runServe se args =
     (case suFlags se args of
        None \<Rightarrow> ([], exitUsage)
      | Some (socket, noSeedVerify) \<Rightarrow>
        (case serve_settings (suOrder se) (suLoaded se) noSeedVerify of
           Inl NoSwarm \<Rightarrow> ([], exitUsage)
         | Inl _ \<Rightarrow> ([], 1)
         | Inr cfg \<Rightarrow>
           if \<not> scEnabled cfg then serve_daemon se socket
           else case NewSwarm (suRoot se) (suNew se) cfg of
             Inl _ \<Rightarrow> ([], 1)
           | Inr eng \<Rightarrow>
             (case serve_daemon se socket of
                (evs, exit) \<Rightarrow> (SwarmUp eng # Seeding (suSeeded se) # evs @ [SwarmDown], exit))))"

text \<open>\<open>verify\<close> is the exit code of \<open>CasState.runVerify\<close> for an argument.\<close>

definition hive_run :: "serve_env \<Rightarrow> (string \<Rightarrow> nat) \<Rightarrow> string list \<Rightarrow> serve_event list \<times> nat" where
  "hive_run se verify args =
     (case args of
        [] \<Rightarrow> ([], exitUsage)
      | cmd # rest \<Rightarrow>
        if cmd = ''version'' then ([], 0)
        else if cmd = ''serve'' then runServe se rest
        else if cmd = ''cas'' then
          (case rest of [sub, arg] \<Rightarrow> if sub = ''verify'' then ([], verify arg) else ([], exitUsage) | _ \<Rightarrow> ([], exitUsage))
        else ([], exitUsage))"

text \<open>The upload budget of the configuration holds for both ways of uploading, and no write of a response's copy buffer is refused.\<close>

lemma upload_budget:
  "ecUploadLimiter (engine_of cfg h v6) = None \<longleftrightarrow> scUploadLimit cfg \<le> 0"
  "length p \<le> 2 ^ 15 \<Longrightarrow> limit_write (ecUploadLimiter (engine_of cfg h v6)) p = Some p"
  by (auto simp: engine_of_def limit_write_def uploadLimiter_def)

text \<open>
  The daemon listens only on a whole valid configuration, with the swarm client it asks for; a client that was
  started is closed; and a usage error is told apart from every other end and has started nothing.
\<close>

lemma serve_daemon_events:
  "serve_daemon se socket = (evs, n) \<Longrightarrow>
     n \<le> 1 \<and> (evs = [] \<and> n = 1 \<or> (\<exists>path url. evs = [ListeningOn path url] \<and> suListen se path
       \<and> newCatalogProvider (suEnv se) (suParse se) (suLoaded se) = Inr url))"
  by (auto simp: serve_daemon_def split: if_splits option.splits sum.splits)

lemma NewSwarm_Inr: "NewSwarm root oks cfg = Inr eng \<Longrightarrow> scEnabled cfg \<and> eng = engine_of cfg [] False"
  by (auto simp: NewSwarm_def split: if_splits prod.splits)

lemma runServe_listens:
  assumes "runServe se args = (evs, n)" and "ListeningOn path url \<in> set evs"
  shows "\<exists>socket flag cfg. suFlags se args = Some (socket, flag) \<and> serve_settings (suOrder se) (suLoaded se) flag = Inr cfg
    \<and> newCatalogProvider (suEnv se) (suParse se) (suLoaded se) = Inr url \<and> suListen se path
    \<and> evs = (if scEnabled cfg then [SwarmUp (engine_of cfg [] False), Seeding (suSeeded se), ListeningOn path url, SwarmDown]
             else [ListeningOn path url])"
proof -
  obtain socket flag where f: "suFlags se args = Some (socket, flag)"
    using assms by (auto simp: runServe_def split: option.splits)
  obtain cfg where c: "serve_settings (suOrder se) (suLoaded se) flag = Inr cfg"
    using assms f by (auto simp: runServe_def split: sum.splits setting_error.splits)
  obtain evs1 n1 where d: "serve_daemon se socket = (evs1, n1)" by fastforce
  note facts = serve_daemon_events [OF d]
  show ?thesis
  proof (cases "scEnabled cfg")
    case True
    then obtain eng where e: "NewSwarm (suRoot se) (suNew se) cfg = Inr eng"
      using assms f c by (cases "NewSwarm (suRoot se) (suNew se) cfg") (auto simp: runServe_def)
    then have "evs = SwarmUp eng # Seeding (suSeeded se) # evs1 @ [SwarmDown]"
      using assms(1) f c d True by (simp add: runServe_def)
    then show ?thesis using facts NewSwarm_Inr [OF e] f c assms(2) by auto
  next
    case False
    then have "evs = evs1" using assms(1) f c d by (simp add: runServe_def)
    then show ?thesis using facts f c assms(2) False by auto
  qed
qed

lemma hive_usage:
  assumes "hive_run se verify args = (evs, exitUsage)" and "\<forall>a. verify a \<le> 2"
  shows "evs = []"
proof -
  have v: "verify a \<noteq> exitUsage" for a using assms(2) [rule_format, of a] by (simp add: exitUsage_def)
  have s: "serve_daemon se socket \<noteq> (es, exitUsage)" for socket es
    using serve_daemon_events [of se socket es exitUsage] by (auto simp: exitUsage_def)
  have "evs = []" if "runServe se rest = (evs, exitUsage)" for rest
    using that s by (auto simp: runServe_def exitUsage_def
        split: option.splits sum.splits setting_error.splits if_splits prod.splits)
  then show ?thesis using assms(1) v
    by (auto simp: hive_run_def split: list.splits if_splits)
qed

end
