(* ===== verification/Spec2Isabelle.thy ===== *)
theory Spec2Isabelle
  imports SwarmFlows ForeignLayout Importer Config JobRuns CatalogPull Registry LlamaPin Extract Scratch CliArgs Launch
    RuntimeProc LockTool Router Daemon
begin

text \<open>
  A verification development for shardr, a content-addressed store and BitTorrent-backed
  distribution system for model weights, written in Go.

  \<^bold>\<open>The program.\<close> A model is an \<^emph>\<open>artifact\<close>: a canonical JSON manifest listing files by SHA-256 digest, named by a
  reference \<open>shardr:///ns/name:selector[@digest]\<close>. The daemon \<open>shardhive\<close> keeps the files as blobs of a
  content-addressed store, imports models from local files, from Hugging Face, from a swarm or from a
  community catalog, seeds what it has, and answers an HTTP API over a Unix socket. The client \<open>shardr\<close> talks to that
  API and runs or serves a model with a pinned build of llama.cpp, whose pin \<open>llama-lock\<close> maintains.
  What makes the program correct is mostly one promise in many places: nothing is called by a digest, announced, served, run,
  signalled or deleted unless it was checked against what names it.

  \<^bold>\<open>Conventions.\<close> A Go string is its bytes (a char list). A function returning \<open>(T, error)\<close> is a function into \<open>'e + 'a\<close>
  with an error datatype of its own per package; messages that only quote a cause are that cause. Where the code computes with
  untrusted integers (sizes and offsets of torrents, counts, numbers in files), sums, products and quotients wrap as \<open>int64\<close> does
  (\<open>wrap64\<close>, \<open>div64\<close>). Panics are the value \<open>Panics\<close>, or an error of their own (\<open>SlicePanic\<close>). A Go map is
  an association list, whose order stands for the order of one iteration. State changes are explicit; a function on a receiver
  that may fail half-way is a \<open>flow\<close>, from the state before to the state after and a result, also after an error. Code that
  runs concurrently is a step relation, its invariants by the locale \<open>step_system\<close> of the prelude. A loop
  that need not end is a \<open>partial_function (option)\<close> (\<open>Hub.tree_loop\<close>, \<open>CliClient.WaitJob\<close>, \<open>RuntimeProc.wait_ready\<close>), and that
  it returns is a theorem, with its premise, for each. The two uses of fuel are proof devices (\<open>Hub.tree_fuel\<close>, equal to the loop
  for some amount; \<open>Catalog\<close>, a quoted string, where the length of the text is enough). The bounds in the code are constants of
  the model with the code's values (the size of an asset, the soak, ages of stale parts, burst sizes, the time to readiness).

  \<^bold>\<open>Foundations.\<close>
  \<^item> \<open>Prelude\<close>: strings, \<open>int64\<close>, results, association lists, comparators and insertion sort; the locales \<open>comparator\<close>
    (sorting) and \<open>step_system\<close> (reachability).
  \<^item> \<open>Text\<close>: trimming of white space in UTF-8, decimal numbers, lexical paths. \<open>Sha\<close>: SHA-256 and SHA-1, executable; proofs use only lengths.
  \<^item> \<open>Flow\<close>: the state passing pattern and the locale \<open>frame\<close>, what a group of flows leaves intact.
  \<^item> \<open>FileTree\<close>: directories as descriptor-anchored system calls see them, links never followed.

  \<^bold>\<open>References and documents.\<close>
  \<^item> \<open>Refs\<close> (\<open>internal/ref\<close>): grammar, canonical form, selectors, resolution to an index member. Parsing and printing are
    inverse; what parses obeys the grammar of spec 000, up to three lineages of quants that the parser does not know; a digest, a selector and a tag cannot be taken for each other; the choice among members does not depend on their order.
  \<^item> \<open>Artifact\<close> (\<open>internal/artifact/artifact.go\<close>, \<open>validate.go\<close>): manifest, index and record, their validation, equal to a
    declarative specification, and the canonical order of files.
  \<^item> \<open>Torrent\<close> (\<open>torrent.go\<close>): bencoding, merkle trees, piece layers, the info dictionary; the bottom-up loop is the tree, and the
    content and the manifest alone give the same torrent.
  \<^item> \<open>Seal\<close> (\<open>Seal\<close>; \<open>internal/swarm/recon.go\<close>): what is sealed is valid and can be rebuilt and checked by a node that has only the
    manifest.

  \<^bold>\<open>The store.\<close>
  \<^item> \<open>Cas\<close> (\<open>internal/cas/cas.go\<close>): \<open>Put\<close> with every system call failing at will, also cut into its steps
    with any number of writers interleaving; every blob hashes to its name, and a reported success stays.
  \<^item> \<open>CasState\<close> (\<open>state.go\<close>, \<open>VerifyAll\<close>, \<open>cas verify\<close>): the maps of namespaces, tags, records and hints, replaced
    atomically; verification reports exactly what is wrong.

  \<^bold>\<open>The swarm.\<close> The torrent engine is third-party code. It is a parameter that may call the storage drivers in any order.
  \<^item> \<open>SwarmStorage\<close> (\<open>storage.go\<close>), \<open>Foreign\<close> and \<open>ForeignLayout\<close> (\<open>foreign.go\<close>): the drivers for own and for community torrents as step
    systems. What is sealed has the pinned content, whatever the metadata; where the lengths of a community torrent sum to an
    \<open>int64\<close>, a piece touches exactly one bit of each file it overlaps.
  \<^item> \<open>SwarmClient\<close>, \<open>SwarmFlows\<close> (\<open>fill.go\<close>, \<open>swarm.go\<close>): filling, the pinned import, seeding, the web seed, for every engine that
    acts through the driver.
  \<^item> \<open>Catalog\<close> (\<open>internal/catalog\<close>), \<open>CatalogPull\<close> (\<open>swarm/catalog.go\<close>): listings, anchors, and the pull that publishes exactly
    what its anchor describes.

  \<^bold>\<open>Imports.\<close>
  \<^item> \<open>Hub\<close> (\<open>hf.go\<close>, \<open>local.go\<close>): request URLs from untrusted names, pagination, local files. \<open>Classify\<close> (\<open>classify.go\<close>, \<open>quant.go\<close>): what
    a file is. \<open>Importer\<close> (\<open>importer.go\<close>, \<open>modelconfig.go\<close>, \<open>tar.go\<close>): the pipeline to a published index.

  \<^bold>\<open>The daemon.\<close>
  \<^item> \<open>Config\<close> (\<open>internal/config\<close>, \<open>cmd/shardhive/config.go\<close>): the parser and the settings.
  \<^item> \<open>Api\<close>, \<open>ApiJobs\<close>, \<open>JobRuns\<close>, \<open>Router\<close> (\<open>internal/api/server.go\<close>): reading requests; the runs of jobs on the backend; the life of
    jobs with progress ticks, a mutex and a flag per run; and requests as steps of that system, so that its safety and
    liveness hold for what clients send. A task need not return (the code gives it no deadline): under a scheduler that is fair to
    the goroutine and to the ticks, a job ends exactly if its task does.
  \<^item> \<open>Daemon\<close> (\<open>cmd/shardhive/main.go\<close>, \<open>Listen\<close>, \<open>swarm.New\<close>): paths, the socket among several daemons, the order of
    starting and the exit codes.

  \<^bold>\<open>The client.\<close>
  \<^item> \<open>CliArgs\<close> (\<open>cmd/shardr/main.go\<close>), \<open>CliClient\<close> (\<open>client.go\<close>, \<open>commands.go\<close>): arguments, commands, waiting for jobs; with the
    daemon's model as the other side, a command that started a job waits for ever exactly if the job never ends and nobody
    breaks it off, and otherwise gets its final document.
  \<^item> \<open>LaunchPlan\<close>, \<open>Launch\<close>, \<open>StopServe\<close> (\<open>run.go\<close>), \<open>Scratch\<close> (\<open>rmrf_unix.go\<close>): from a reference to a running server and back.
    A launch that fails leaves no instance, no process but one that the system refused to end, and no directory but one whose
    removal failed; a stop touches only confirmed processes, a removal only its own directory.

  \<^bold>\<open>The runtime.\<close>
  \<^item> \<open>Runner\<close> (\<open>overlay.go\<close>, \<open>userconfig.go\<close>): four layers of settings and the flags they become.
    \<open>Instances\<close>, \<open>Registry\<close> (\<open>registry.go\<close>): identities of processes, and the shared file of instances, whose
    interleaved and crashing writers refine atomic operations on a map. \<open>RuntimeProc\<close> (\<open>llama.go\<close>): start, readiness, end.
  \<^item> \<open>LlamaLock\<close>, \<open>LlamaPin\<close>, \<open>LockTool\<close>, \<open>Extract\<close> (\<open>internal/llamalock\<close>, \<open>cmd/llama-lock\<close>): the lock file, how a release becomes the
    pin after its soak, fetching against the pinned digest, and unpacking that stays below one directory.

  \<^bold>\<open>Parts on each other.\<close> The flows of \<open>SwarmFlows\<close> run on the store of \<open>Cas\<close> through \<open>SwarmStorage\<close>; \<open>CatalogPull\<close> joins \<open>Foreign\<close>, \<open>Catalog\<close> and
  \<open>Importer\<close>; a task of \<open>ApiJobs\<close> is one of those flows; \<open>JobRuns\<close> schedules tasks, \<open>Router\<close> admits them, \<open>CliClient\<close> waits for
  them; \<open>Launch\<close> puts a plan of \<open>LaunchPlan\<close> (daemon answers, \<open>Runner\<close>) on a scratch tree of \<open>Scratch\<close> and a registry of \<open>Instances\<close>, which
  \<open>StopServe\<close> undoes. The locale facts are taken by interpretation on these models: \<open>step_system\<close> for writers, state
  operations, both storage drivers, jobs, told errors and daemons; \<open>comparator\<close> for files, members, sources, parts and
  jobs; \<open>frame\<close> for the client's flows and the engine of a pull.

  \<^bold>\<open>Parameters.\<close> Canonical JSON and JSON decoders, HTTP, URL, magnet and tar libraries, the torrent engine, git and
  the release API, the clock, random identifiers, and which system calls fail. Where a theorem needs more of one than its type
  it says so in a premise: that the engine acts through the driver, that a codec's output decodes to the document,
  that the scheduler is fair, that the release API answers a tag with the release of that tag.

  \<^bold>\<open>Findings.\<close> Lemmas beside the properties show behaviour that differs from what is documented or meant, among them
  \<open>Hub.tree_loop_returns\<close> (a cycle of pages), \<open>CatalogPull.ImportCatalog_stale_anchor\<close>, \<open>LaunchPlan.idFor_collides\<close>,
  \<open>CliClient.verify_done_clean\<close>, \<open>Runner.ParseScalars_wide\<close>, \<open>Daemon.two_daemons_race\<close>, \<open>Config.webseed_addr_any_kind\<close>,
  \<open>Refs.gptq_gap\<close> (quants of the specification that the parser does not know), \<open>ForeignLayout.open_files_wraps\<close> (lengths of a
  community torrent that wrap and panic), \<open>Launch.refused_end_leaves_process\<close>, \<open>LlamaPin.ValidatePinnable_other_tag\<close>.

  \<^bold>\<open>Not modelled.\<close> The effect of a task on the store inside \<open>JobRuns\<close> is one step, taken when the task returns (that the store stands
  concurrent writers is shown in \<open>Cas\<close>); two imports at a time are excluded by the lock of the namespace. Left out are progress
  callbacks and their polling, piece priorities and time-outs of the engine, \<open>http.ServeContent\<close> with its range
  requests, file modes of unpacked files, text of usage and listings, the flag parser, signals, the choice of a free port, the process start
  times of darwin (cgo and sysctl; the Linux token is in \<open>Instances\<close>), the fallbacks for platforms without \<open>openat\<close>, and
  the test stub of the runtime. These are the operating system, the standard library or output.
\<close>

end
